(* ===== verification/Go_Prelude.thy ===== *)
theory Go_Prelude
  imports Complex_Main "HOL-Library.Char_ord" "HOL-Library.List_Lexorder" "HOL-Library.AList"
    "HOL-Library.Sublist" "HOL-Library.Word"
begin

text \<open>
  Prelude of the development: the parts of the Go language and of its standard library that the
  components share. Go strings are byte strings, modelled as \<^typ>\<open>string\<close> (a list of 8-bit
  characters); runes are natural numbers; \<open>utf8.DecodeRuneInString\<close> and \<open>WriteRune\<close> are
  \<open>decode_rune\<close> and \<open>encode_rune\<close>. A Go map is an association list with distinct keys, read
  by \<^const>\<open>map_of\<close> and written by \<^const>\<open>AList.update\<close>. A function that returns
  \<open>(T, error)\<close> returns a sum, \<^const>\<open>Inl\<close> being the error.
\<close>

named_theorems rune_simps \<open>evaluation of decode_rune and encode_rune\<close>
named_theorems shrink \<open>a scanning operation does not lengthen its input\<close>
named_theorems yaml_eval \<open>evaluation of the YAML scanner on a concrete document\<close>

section \<open>Results\<close>

definition rbind :: "'e + 'a \<Rightarrow> ('a \<Rightarrow> 'e + 'b) \<Rightarrow> 'e + 'b" where
  "rbind m f = (case m of Inl e \<Rightarrow> Inl e | Inr x \<Rightarrow> f x)"

lemma rbind_simps [simp]: "rbind (Inl e) f = Inl e" "rbind (Inr x) f = f x"
  by (simp_all add: rbind_def)

lemma rbind_eq_Inr: "rbind m f = Inr y \<longleftrightarrow> (\<exists>x. m = Inr x \<and> f x = Inr y)"
  by (cases m) simp_all

lemma rbind_eq_Inl: "rbind m f = Inl e \<longleftrightarrow> m = Inl e \<or> (\<exists>x. m = Inr x \<and> f x = Inl e)"
  by (cases m) simp_all

lemma rbind_cong [fundef_cong]:
  "m = m' \<Longrightarrow> (\<And>x. m' = Inr x \<Longrightarrow> f x = f' x) \<Longrightarrow> rbind m f = rbind m' f'"
  by (cases m') auto

section \<open>Machine integers\<close>

text \<open>Go's \<open>int\<close> and \<open>int64\<close>: two's complement, 64 bits; \<open>wrap64\<close> is what an
  overflowing operation leaves.\<close>

definition wrap64 :: "int \<Rightarrow> int" where
  "wrap64 x = (x + 2 ^ 63) mod 2 ^ 64 - 2 ^ 63"

definition in_int64 :: "int \<Rightarrow> bool" where
  "in_int64 x \<longleftrightarrow> - (2 ^ 63) \<le> x \<and> x < 2 ^ 63"

lemma wrap64_id [simp]: "in_int64 x \<Longrightarrow> wrap64 x = x"
  by (simp add: wrap64_def in_int64_def)

lemma in_int64_wrap64 [simp]: "in_int64 (wrap64 x)"
  unfolding in_int64_def wrap64_def using pos_mod_bound[of "2^64" "x + 2^63"] pos_mod_sign[of "2^64" "x + 2^63"]
  by simp

lemma wrap64_mod: "wrap64 x mod 2 ^ 64 = x mod 2 ^ 64"
  by (simp add: wrap64_def mod_diff_left_eq)

lemma wrap64_cong: "x mod 2 ^ 64 = y mod 2 ^ 64 \<Longrightarrow> wrap64 x = wrap64 y"
  by (metis wrap64_def mod_add_left_eq)

text \<open>Go's integer division and remainder truncate towards zero; both panic on a zero divisor,
  which every caller excludes.\<close>

definition tdiv :: "int \<Rightarrow> int \<Rightarrow> int" where
  "tdiv a b = sgn a * sgn b * (\<bar>a\<bar> div \<bar>b\<bar>)"

definition tmod :: "int \<Rightarrow> int \<Rightarrow> int" where
  "tmod a b = a - b * tdiv a b"

lemma tdiv_nonneg: "0 \<le> a \<Longrightarrow> 0 < b \<Longrightarrow> tdiv a b = a div b"
  by (cases "a = 0") (simp_all add: tdiv_def)

lemma tmod_nonneg: "0 \<le> a \<Longrightarrow> 0 < b \<Longrightarrow> tmod a b = a mod b"
  by (simp add: tmod_def tdiv_nonneg minus_mult_div_eq_mod)

section \<open>Runes and UTF-8\<close>

abbreviation rn :: "char \<Rightarrow> nat" where "rn c \<equiv> of_char c"
abbreviation NL :: char where "NL \<equiv> CHR 0x0A"
abbreviation CR :: char where "CR \<equiv> CHR 0x0D"
abbreviation TAB :: char where "TAB \<equiv> CHR 0x09"
abbreviation SP :: char where "SP \<equiv> CHR 0x20"
abbreviation DQ :: char where "DQ \<equiv> CHR 0x22"
abbreviation SQ :: char where "SQ \<equiv> CHR 0x27"
abbreviation BSL :: char where "BSL \<equiv> CHR 0x5C"

definition rune_error :: nat where "rune_error = 65533"

text \<open>The accepted range of the second byte, and the number of continuation bytes, by first
  byte; \<^const>\<open>None\<close> is an invalid first byte.\<close>

definition utf8_first :: "nat \<Rightarrow> (nat \<times> nat \<times> nat) option" where
  "utf8_first b =
     (if 194 \<le> b \<and> b \<le> 223 then Some (1, 128, 191)
      else if b = 224 then Some (2, 160, 191)
      else if b = 237 then Some (2, 128, 159)
      else if 225 \<le> b \<and> b \<le> 239 then Some (2, 128, 191)
      else if b = 240 then Some (3, 144, 191)
      else if b = 244 then Some (3, 128, 143)
      else if 241 \<le> b \<and> b \<le> 243 then Some (3, 128, 191)
      else None)"

definition is_cont :: "char \<Rightarrow> bool" where
  "is_cont c \<longleftrightarrow> 128 \<le> rn c \<and> rn c \<le> 191"

text \<open>\<open>utf8.DecodeRuneInString\<close>: the rune and its width in bytes. An invalid encoding gives
  \<open>RuneError\<close> with width 1, the empty string \<open>RuneError\<close> with width 0.\<close>

fun decode_rune :: "string \<Rightarrow> nat \<times> nat" where
  "decode_rune [] = (rune_error, 0)"
| "decode_rune (c # cs) =
     (if rn c < 128 then (rn c, 1)
      else (case utf8_first (rn c) of
        None \<Rightarrow> (rune_error, 1)
      | Some (k, lo, hi) \<Rightarrow>
          (case cs of
             [] \<Rightarrow> (rune_error, 1)
           | c1 # cs1 \<Rightarrow>
               (if \<not> (lo \<le> rn c1 \<and> rn c1 \<le> hi) then (rune_error, 1)
                else if k = 1 then ((rn c - 192) * 64 + (rn c1 - 128), 2)
                else (case cs1 of
                  [] \<Rightarrow> (rune_error, 1)
                | c2 # cs2 \<Rightarrow>
                    (if \<not> is_cont c2 then (rune_error, 1)
                     else if k = 2 then
                       ((rn c - 224) * 4096 + (rn c1 - 128) * 64 + (rn c2 - 128), 3)
                     else (case cs2 of
                       [] \<Rightarrow> (rune_error, 1)
                     | c3 # cs3 \<Rightarrow>
                         (if \<not> is_cont c3 then (rune_error, 1)
                          else ((rn c - 240) * 262144 + (rn c1 - 128) * 4096
                                  + (rn c2 - 128) * 64 + (rn c3 - 128), 4)))))))))"

text \<open>\<open>strings.Builder.WriteRune\<close>.\<close>

definition encode_rune :: "nat \<Rightarrow> string" where
  "encode_rune r =
     (let r = (if r > 1114111 \<or> (55296 \<le> r \<and> r \<le> 57343) then rune_error else r) in
      if r < 128 then [char_of r]
      else if r < 2048 then [char_of (192 + r div 64), char_of (128 + r mod 64)]
      else if r < 65536 then
        [char_of (224 + r div 4096), char_of (128 + r div 64 mod 64), char_of (128 + r mod 64)]
      else
        [char_of (240 + r div 262144), char_of (128 + r div 4096 mod 64),
         char_of (128 + r div 64 mod 64), char_of (128 + r mod 64)])"

definition is_ascii :: "char \<Rightarrow> bool" where
  "is_ascii c \<longleftrightarrow> rn c < 128"

lemma decode_rune_ascii [rune_simps]: "is_ascii c \<Longrightarrow> decode_rune (c # cs) = (rn c, 1)"
  by (simp add: is_ascii_def)

lemma encode_rune_ascii [rune_simps]: "is_ascii c \<Longrightarrow> encode_rune (rn c) = [c]"
  by (simp add: encode_rune_def is_ascii_def)

lemma utf8_first_bounds:
  "utf8_first b = Some (k, lo, hi) \<Longrightarrow> 194 \<le> b \<and> b \<le> 244 \<and> 1 \<le> k \<and> k \<le> 3 \<and> 128 \<le> lo \<and> hi \<le> 191"
  by (auto simp: utf8_first_def split: if_splits)

lemma decode_rune_width: "cs \<noteq> [] \<Longrightarrow> 1 \<le> snd (decode_rune cs) \<and> snd (decode_rune cs) \<le> length cs"
  by (cases cs) (auto simp: Let_def split: option.splits list.splits)

lemma decode_rune_pos: "cs \<noteq> [] \<Longrightarrow> decode_rune cs = (r, w) \<Longrightarrow> 0 < w \<and> w \<le> length cs"
  using decode_rune_width[of cs] by auto

text \<open>Decoding gives back an encoded rune, and its width, whatever follows it.\<close>

definition valid_rune :: "nat \<Rightarrow> bool" where
  "valid_rune r \<longleftrightarrow> r \<le> 1114111 \<and> \<not> (55296 \<le> r \<and> r \<le> 57343)"

lemma decode_encode:
  assumes "valid_rune r"
  shows "decode_rune (encode_rune r @ s) = (r, length (encode_rune r))"
proof -
  have e: "encode_rune r = (if r < 128 then [char_of r]
      else if r < 2048 then [char_of (192 + r div 64), char_of (128 + r mod 64)]
      else if r < 65536 then
        [char_of (224 + r div 4096), char_of (128 + r div 64 mod 64), char_of (128 + r mod 64)]
      else
        [char_of (240 + r div 262144), char_of (128 + r div 4096 mod 64),
         char_of (128 + r div 64 mod 64), char_of (128 + r mod 64)])"
  proof -
    have "(if r > 1114111 \<or> (55296 \<le> r \<and> r \<le> 57343) then rune_error else r) = r"
      using assms by (auto simp: valid_rune_def)
    then show ?thesis by (simp only: encode_rune_def Let_def)
  qed
  consider "r < 128" | "128 \<le> r" "r < 2048" | "2048 \<le> r" "r < 65536" | "65536 \<le> r" by linarith
  then show ?thesis
  proof cases
    case 1
    then show ?thesis by (simp add: e)
  next
    case 2
    then have d: "2 \<le> r div 64" "r div 64 < 32" by (simp_all add: less_eq_div_iff_mult_less_eq div_less_iff_less_mult)
    then have "utf8_first (192 + r div 64) = Some (1, 128, 191)" by (simp add: utf8_first_def)
    with 2 d show ?thesis by (simp add: e mult.commute)
  next
    case 3
    define a b c where "a = r div 4096" and "b = r div 64 mod 64" and "c = r mod 64"
    have r: "r = a * 4096 + b * 64 + c"
    proof -
      have "r = r div 64 * 64 + c" "r div 64 = a * 64 + b"
        unfolding a_def b_def c_def using div_mult_mod_eq[of "r div 64" 64]
        by (simp_all add: div_mult2_eq[symmetric])
      then show ?thesis by linarith
    qed
    have bd: "a < 16" "b < 64" "c < 64" using 3 by (simp_all add: a_def b_def c_def div_less_iff_less_mult)
    have lo: "a = 0 \<Longrightarrow> 32 \<le> b" using 3 r bd by simp
    have sur: "a = 13 \<Longrightarrow> b < 32" using assms r bd by (auto simp: valid_rune_def)
    have u: "\<exists>l h. utf8_first (224 + a) = Some (2, l, h) \<and> l \<le> 128 + b \<and> 128 + b \<le> h"
      using bd lo sur by (auto simp: utf8_first_def)
    then obtain l h where lh: "utf8_first (224 + a) = Some (2, l, h)" "l \<le> 128 + b" "128 + b \<le> h" by blast
    have "\<not> r < 128" "\<not> r < 2048" "r < 65536" using 3 by simp_all
    then have en: "encode_rune r = [char_of (224 + a), char_of (128 + b), char_of (128 + c)]"
      unfolding e a_def b_def c_def by simp
    show ?thesis unfolding en using bd lh by (simp add: is_cont_def r[symmetric])
  next
    case 4
    define a b c d where "a = r div 262144" and "b = r div 4096 mod 64" and "c = r div 64 mod 64" and "d = r mod 64"
    have r: "r = a * 262144 + b * 4096 + c * 64 + d"
    proof -
      have "r = r div 64 * 64 + d" "r div 64 = r div 4096 * 64 + c" "r div 4096 = a * 64 + b"
        unfolding a_def b_def c_def d_def
        using div_mult_mod_eq[of "r div 64" 64] div_mult_mod_eq[of "r div 4096" 64]
        by (simp_all add: div_mult2_eq[symmetric])
      then show ?thesis by linarith
    qed
    have rb: "r \<le> 1114111" using assms by (simp add: valid_rune_def)
    have bd: "a < 5" "b < 64" "c < 64" "d < 64"
      using rb by (simp_all add: a_def b_def c_def d_def div_less_iff_less_mult)
    have lo: "a = 0 \<Longrightarrow> 16 \<le> b" using 4 r bd by simp
    have hi: "a = 4 \<Longrightarrow> b < 16" using rb r bd by simp
    have "a = 0 \<or> a = 1 \<or> a = 2 \<or> a = 3 \<or> a = 4" using bd by linarith
    then have u: "\<exists>l h. utf8_first (240 + a) = Some (3, l, h) \<and> l \<le> 128 + b \<and> 128 + b \<le> h"
      using bd lo hi by (auto simp: utf8_first_def)
    then obtain l h where lh: "utf8_first (240 + a) = Some (3, l, h)" "l \<le> 128 + b" "128 + b \<le> h" by blast
    have "\<not> r < 128" "\<not> r < 2048" "\<not> r < 65536" using 4 by simp_all
    then have en: "encode_rune r = [char_of (240 + a), char_of (128 + b), char_of (128 + c), char_of (128 + d)]"
      unfolding e a_def b_def c_def d_def by simp
    show ?thesis unfolding en using bd lh by (simp add: is_cont_def r[symmetric])
  qed
qed

section \<open>Association lists as Go maps\<close>

lemma map_of_update_same [simp]: "map_of (AList.update k v m) k = Some v"
  by (simp add: update_conv')

lemma map_of_update_other [simp]: "k' \<noteq> k \<Longrightarrow> map_of (AList.update k v m) k' = map_of m k'"
  by (simp add: update_conv')

section \<open>Sizes of members, for recursion through lists and maps\<close>

lemma size_member: "x \<in> set xs \<Longrightarrow> f x \<le> size_list f xs"
  by (induction xs) auto

lemma size_map_member: "(k, v) \<in> set m \<Longrightarrow> f v \<le> size_list (size_prod g f) m"
  by (induction m) auto

section \<open>Sums over a list that changes at one place\<close>

lemma sum_update: "i < length ws \<Longrightarrow> sum_list (map f (ws[i := w])) + f (ws ! i) = sum_list (map f ws) + (f w :: nat)"
  by (induction ws arbitrary: i) (auto split: nat.splits)

end
