(* ===== verification/Yaml_Scanner.thy ===== *)
theory Yaml_Scanner
  imports Go_Prelude
begin

text \<open>
  core/yaml/scanner.go and errors.go: the tokeniser of the YAML subset. The scanner's \<open>input\<close>
  and \<open>pos\<close> are kept as the suffix \<open>sc_rest\<close> of the input that is left; saving and restoring
  \<open>pos\<close>, \<open>line\<close>, \<open>col\<close> is keeping the earlier state. The loops over \<open>peek\<close> and
  \<open>advance\<close> are recursive functions whose measure is the length of that suffix.
\<close>

section \<open>Tokens and errors\<close>

datatype token_type =
    TokenMappingKey
  | TokenMappingValue
  | TokenSequenceEntry
  | TokenScalar
  | TokenFlowSequenceStart
  | TokenFlowSequenceEnd
  | TokenFlowMappingStart
  | TokenFlowMappingEnd
  | TokenFlowComma
  | TokenLiteralBlock
  | TokenFoldedBlock
  | TokenEOF

fun token_type_String :: "token_type \<Rightarrow> string" where
  "token_type_String TokenMappingKey = ''MappingKey''"
| "token_type_String TokenMappingValue = ''MappingValue''"
| "token_type_String TokenSequenceEntry = ''SequenceEntry''"
| "token_type_String TokenScalar = ''Scalar''"
| "token_type_String TokenFlowSequenceStart = ''FlowSequenceStart''"
| "token_type_String TokenFlowSequenceEnd = ''FlowSequenceEnd''"
| "token_type_String TokenFlowMappingStart = ''FlowMappingStart''"
| "token_type_String TokenFlowMappingEnd = ''FlowMappingEnd''"
| "token_type_String TokenFlowComma = ''FlowComma''"
| "token_type_String TokenLiteralBlock = ''LiteralBlock''"
| "token_type_String TokenFoldedBlock = ''FoldedBlock''"
| "token_type_String TokenEOF = ''EOF''"

record token =
  tk_type :: token_type
  tk_value :: string
  tk_line :: nat
  tk_column :: nat
  tk_indent :: int

record parse_error =
  pe_line :: nat
  pe_column :: nat
  pe_message :: string

definition newParseError :: "nat \<Rightarrow> nat \<Rightarrow> string \<Rightarrow> parse_error" where
  "newParseError line col msg = \<lparr>pe_line = line, pe_column = col, pe_message = msg\<rparr>"

definition mk_token :: "token_type \<Rightarrow> string \<Rightarrow> nat \<Rightarrow> nat \<Rightarrow> int \<Rightarrow> token" where
  "mk_token ty v line col ind =
     \<lparr>tk_type = ty, tk_value = v, tk_line = line, tk_column = col, tk_indent = ind\<rparr>"

lemma mk_token_simps [simp]:
  "tk_type (mk_token ty v line col ind) = ty"
  "tk_value (mk_token ty v line col ind) = v"
  "tk_indent (mk_token ty v line col ind) = ind"
  "tk_line (mk_token ty v line col ind) = line"
  "tk_column (mk_token ty v line col ind) = col"
  by (simp_all add: mk_token_def)

section \<open>The scanner's state and its primitive steps\<close>

record scanner =
  sc_rest :: string
  sc_line :: nat
  sc_col :: nat
  sc_flowDepth :: int

definition NewScanner :: "string \<Rightarrow> scanner" where
  "NewScanner input = \<lparr>sc_rest = input, sc_line = 1, sc_col = 1, sc_flowDepth = 0\<rparr>"

definition atEnd :: "scanner \<Rightarrow> bool" where
  "atEnd s \<longleftrightarrow> sc_rest s = []"

definition peek :: "scanner \<Rightarrow> nat" where
  "peek s = (if sc_rest s = [] then 0 else fst (decode_rune (sc_rest s)))"

definition advance :: "scanner \<Rightarrow> scanner" where
  "advance s =
     (if sc_rest s = [] then s
      else (case decode_rune (sc_rest s) of (r, width) \<Rightarrow>
        if r = rn NL
        then s\<lparr>sc_rest := drop width (sc_rest s), sc_line := sc_line s + 1, sc_col := 1\<rparr>
        else s\<lparr>sc_rest := drop width (sc_rest s), sc_col := sc_col s + 1\<rparr>))"

abbreviation left :: "scanner \<Rightarrow> nat" where "left s \<equiv> length (sc_rest s)"

lemma left_advance: "\<not> atEnd s \<Longrightarrow> left (advance s) < left s"
  using decode_rune_width[of "sc_rest s"]
  by (auto simp: advance_def atEnd_def split: prod.splits)

lemma left_advance_le [shrink]: "left (advance s) \<le> left s"
  using left_advance[of s] by (cases "atEnd s") (auto simp: advance_def atEnd_def)

lemma flowDepth_advance [simp]: "sc_flowDepth (advance s) = sc_flowDepth s"
  by (simp add: advance_def split: prod.splits)

text \<open>\<open>for !s.atEnd() \<and> P(s.peek()) { buf.WriteRune(s.peek()); s.advance() }\<close>: the runes passed
  over, as the builder holds them, and the state after the loop.\<close>

function advCollect :: "(nat \<Rightarrow> bool) \<Rightarrow> scanner \<Rightarrow> string \<times> scanner" where
  "advCollect P s =
     (if \<not> atEnd s \<and> P (peek s)
      then (case advCollect P (advance s) of (b, s') \<Rightarrow> (encode_rune (peek s) @ b, s'))
      else ([], s))"
  by pat_completeness auto
termination
  by (relation "measure (\<lambda>(P, s). left s)") (auto simp: left_advance)

declare advCollect.simps [simp del]

definition advWhile :: "(nat \<Rightarrow> bool) \<Rightarrow> scanner \<Rightarrow> scanner" where
  "advWhile P s = snd (advCollect P s)"

lemma advWhile_unfold:
  "advWhile P s = (if \<not> atEnd s \<and> P (peek s) then advWhile P (advance s) else s)"
  by (simp add: advWhile_def advCollect.simps[of P s] split: prod.splits)

lemma left_advCollect: "left (snd (advCollect P s)) \<le> left s"
proof (induction P s rule: advCollect.induct)
  case (1 P s)
  show ?case
  proof (cases "\<not> atEnd s \<and> P (peek s)")
    case True
    with 1 have "left (snd (advCollect P (advance s))) \<le> left (advance s)" by simp
    with True left_advance_le[of s] show ?thesis
      by (auto simp: advCollect.simps[of P s] split: prod.splits)
  next
    case False
    then show ?thesis by (auto simp: advCollect.simps[of P s])
  qed
qed

lemma left_advWhile [shrink]: "left (advWhile P s) \<le> left s"
  by (simp add: advWhile_def left_advCollect)

lemma left_advWhile_less: "\<not> atEnd s \<Longrightarrow> P (peek s) \<Longrightarrow> left (advWhile P s) < left s"
  by (subst advWhile_unfold) (use left_advWhile[of P "advance s"] left_advance[of s] in simp)

lemma flowDepth_advCollect [simp]: "sc_flowDepth (snd (advCollect P s)) = sc_flowDepth s"
proof (induction P s rule: advCollect.induct)
  case (1 P s)
  then show ?case by (auto simp: advCollect.simps[of P s] split: prod.splits)
qed

lemma flowDepth_advWhile [simp]: "sc_flowDepth (advWhile P s) = sc_flowDepth s"
  by (simp add: advWhile_def)

text \<open>The counting loop over leading spaces.\<close>

function countSpaces :: "scanner \<Rightarrow> int \<times> scanner" where
  "countSpaces s =
     (if \<not> atEnd s \<and> peek s = rn SP
      then (case countSpaces (advance s) of (n, s') \<Rightarrow> (n + 1, s'))
      else (0, s))"
  by pat_completeness auto
termination
  by (relation "measure left") (auto simp: left_advance)

declare countSpaces.simps [simp del]

lemma countSpaces_advWhile: "snd (countSpaces s) = advWhile (\<lambda>r. r = rn SP) s"
proof (induction s rule: countSpaces.induct)
  case (1 s)
  then show ?case
    by (subst advWhile_unfold) (auto simp: countSpaces.simps[of s] split: prod.splits)
qed

lemma countSpaces_nonneg: "0 \<le> fst (countSpaces s)"
proof (induction s rule: countSpaces.induct)
  case (1 s)
  then show ?case by (auto simp: countSpaces.simps[of s] split: prod.splits)
qed

lemma left_countSpaces [shrink]: "left (snd (countSpaces s)) \<le> left s"
  by (simp add: countSpaces_advWhile left_advWhile)

definition skipInlineWhitespace :: "scanner \<Rightarrow> scanner" where
  "skipInlineWhitespace s = advWhile (\<lambda>r. r = rn SP \<or> r = rn TAB) s"

definition skipToEOL :: "scanner \<Rightarrow> scanner" where
  "skipToEOL s = advWhile (\<lambda>r. r \<noteq> rn NL) s"

lemma left_skipInlineWhitespace [shrink]: "left (skipInlineWhitespace s) \<le> left s"
  by (simp add: skipInlineWhitespace_def left_advWhile)

lemma left_skipToEOL [shrink]: "left (skipToEOL s) \<le> left s"
  by (simp add: skipToEOL_def left_advWhile)

text \<open>\<open>peekAt(n)\<close>: the rune \<open>n\<close> runes ahead, 0 past the end.\<close>

fun peekAt_rest :: "nat \<Rightarrow> string \<Rightarrow> nat" where
  "peekAt_rest 0 cs = (if cs = [] then 0 else fst (decode_rune cs))"
| "peekAt_rest (Suc n) cs = (if cs = [] then 0 else peekAt_rest n (drop (snd (decode_rune cs)) cs))"

definition peekAt :: "scanner \<Rightarrow> nat \<Rightarrow> nat" where
  "peekAt s n = peekAt_rest n (sc_rest s)"

definition isColonTerminator :: "scanner \<Rightarrow> bool" where
  "isColonTerminator s =
     (if left s \<le> 1 then True
      else fst (decode_rune (drop 1 (sc_rest s))) \<in> {rn SP, rn NL, rn CR, rn TAB})"

definition isFlowColonTerminator :: "scanner \<Rightarrow> bool" where
  "isFlowColonTerminator s =
     (if left s \<le> 1 then True
      else fst (decode_rune (drop 1 (sc_rest s)))
             \<in> {rn SP, rn CHR '','', rn CHR ''}'', rn CHR '']'', rn NL, rn CR, rn TAB})"

section \<open>Blank lines, quoted strings and block scalars\<close>

text \<open>\<open>strings.TrimRight(s, " \t")\<close>.\<close>

definition trimRight :: "string \<Rightarrow> string" where
  "trimRight s = rev (dropWhile (\<lambda>c. c = SP \<or> c = TAB) (rev s))"

function skipBlankLines :: "scanner \<Rightarrow> scanner" where
  "skipBlankLines s =
     (if atEnd s then s
      else if peek s = rn NL \<or> peek s = rn CR then skipBlankLines (advance s)
      else if peek s = rn SP \<or> peek s = rn TAB then
        (let s1 = skipInlineWhitespace s in
         if atEnd s1 \<or> peek s1 = rn NL \<or> peek s1 = rn CR \<or> peek s1 = rn CHR ''#''
         then skipBlankLines (if \<not> atEnd s1 \<and> peek s1 = rn CHR ''#'' then skipToEOL s1 else s1)
         else s)
      else if peek s = rn CHR ''#'' then skipBlankLines (skipToEOL s)
      else s)"
  by pat_completeness auto
termination
proof (relation "measure left")
  fix s
  assume "\<not> atEnd s" "peek s = rn NL \<or> peek s = rn CR"
  then show "(advance s, s) \<in> measure left" by (simp add: left_advance)
next
  fix s x
  assume s: "\<not> atEnd s" "peek s = rn SP \<or> peek s = rn TAB" and x: "x = skipInlineWhitespace s"
  from s have "left x < left s"
    unfolding x skipInlineWhitespace_def by (intro left_advWhile_less) auto
  then show "(if \<not> atEnd x \<and> peek x = rn CHR ''#'' then skipToEOL x else x, s) \<in> measure left"
    using left_skipToEOL[of x] by auto
next
  fix s
  assume "\<not> atEnd s" "peek s = rn CHR ''#''"
  then show "(skipToEOL s, s) \<in> measure left"
    unfolding skipToEOL_def by (simp add: left_advWhile_less)
qed simp

declare skipBlankLines.simps [simp del]

text \<open>What a turn of the loop of \<open>skipBlankLines\<close> can do.\<close>

lemma skipBlankLines_cases:
  obtains (here) "skipBlankLines s = s" "atEnd s \<or> (peek s \<noteq> rn NL \<and> peek s \<noteq> rn CR)"
  | (newline) "skipBlankLines s = skipBlankLines (advance s)" "\<not> atEnd s" "peek s = rn NL \<or> peek s = rn CR"
  | (blank) s1 s2 where "s1 = skipInlineWhitespace s" "s2 = (if \<not> atEnd s1 \<and> peek s1 = rn CHR ''#'' then skipToEOL s1 else s1)"
      "skipBlankLines s = skipBlankLines s2" "\<not> atEnd s" "\<not> (peek s = rn NL \<or> peek s = rn CR)" "peek s = rn SP \<or> peek s = rn TAB"
      "atEnd s1 \<or> peek s1 = rn NL \<or> peek s1 = rn CR \<or> peek s1 = rn CHR ''#''"
  | (comment) "skipBlankLines s = skipBlankLines (skipToEOL s)" "\<not> atEnd s" "\<not> (peek s = rn NL \<or> peek s = rn CR)"
      "\<not> (peek s = rn SP \<or> peek s = rn TAB)" "peek s = rn CHR ''#''"
proof -
  let ?s1 = "skipInlineWhitespace s"
  let ?s2 = "if \<not> atEnd ?s1 \<and> peek ?s1 = rn CHR ''#'' then skipToEOL ?s1 else ?s1"
  consider "skipBlankLines s = s" "atEnd s \<or> (peek s \<noteq> rn NL \<and> peek s \<noteq> rn CR)"
    | "skipBlankLines s = skipBlankLines (advance s)" "\<not> atEnd s" "peek s = rn NL \<or> peek s = rn CR"
    | "skipBlankLines s = skipBlankLines ?s2" "\<not> atEnd s" "\<not> (peek s = rn NL \<or> peek s = rn CR)" "peek s = rn SP \<or> peek s = rn TAB"
        "atEnd ?s1 \<or> peek ?s1 = rn NL \<or> peek ?s1 = rn CR \<or> peek ?s1 = rn CHR ''#''"
    | "skipBlankLines s = skipBlankLines (skipToEOL s)" "\<not> atEnd s" "\<not> (peek s = rn NL \<or> peek s = rn CR)"
        "\<not> (peek s = rn SP \<or> peek s = rn TAB)" "peek s = rn CHR ''#''"
    unfolding Let_def skipBlankLines.simps[of s] by argo
  then show ?thesis
    by cases (rule here newline blank[OF refl refl] comment; assumption)+
qed

lemma left_skipBlankLines [shrink]: "left (skipBlankLines s) \<le> left s"
proof (induction s rule: skipBlankLines.induct)
  case (1 s)
  show ?case
  proof (cases rule: skipBlankLines_cases[of s])
    case newline
    have "left (advance s) \<le> left s" by (rule shrink)
    with 1(1)[OF newline(2,3)] newline(1) show ?thesis by simp
  next
    case (blank s1 s2)
    have "left s2 \<le> left s1" "left s1 \<le> left s" unfolding blank(1,2) by (auto intro: shrink)
    with 1(2)[OF blank(4,5,6,1,7)] blank(2,3) show ?thesis by simp
  next
    case comment
    have "left (skipToEOL s) \<le> left s" by (rule shrink)
    with 1(3)[OF comment(2,3,4,5)] comment(1) show ?thesis by simp
  qed simp
qed

text \<open>The body of \<open>readQuotedString\<close>'s loop; \<open>line\<close> and \<open>col\<close> are where the string starts.\<close>

definition quoted_escape :: "nat \<Rightarrow> string" where
  "quoted_escape esc =
     (if esc = rn CHR ''n'' then [NL]
      else if esc = rn CHR ''t'' then [TAB]
      else if esc = rn BSL then [BSL]
      else if esc = rn DQ then [DQ]
      else if esc = rn CHR ''/'' then ''/''
      else if esc = rn CHR ''r'' then [CR]
      else BSL # encode_rune esc)"

function quoted_loop :: "nat \<Rightarrow> nat \<Rightarrow> nat \<Rightarrow> string \<Rightarrow> scanner \<Rightarrow> parse_error + (string \<times> scanner)" where
  "quoted_loop quote line col buf s =
     (if atEnd s then Inl (newParseError line col ''unterminated quoted string'')
      else if peek s = quote then Inr (buf, advance s)
      else if quote = rn DQ \<and> peek s = rn BSL then
        (let s1 = advance s in
         if atEnd s1
         then Inl (newParseError line col ''unterminated escape sequence in quoted string'')
         else quoted_loop quote line col (buf @ quoted_escape (peek s1)) (advance s1))
      else quoted_loop quote line col (buf @ encode_rune (peek s)) (advance s))"
  by pat_completeness auto
termination
proof (relation "measure (\<lambda>(q, l, c, b, s). left s)")
  fix quote line col buf s x
  assume "\<not> atEnd s" "x = advance s" "\<not> atEnd x"
  then show "((quote, line, col, buf @ quoted_escape (peek x), advance x), quote, line, col, buf, s)
      \<in> measure (\<lambda>(q, l, c, b, s). left s)"
    using left_advance[of s] left_advance_le[of x] by auto
qed (auto simp: left_advance)

declare quoted_loop.simps [simp del]

definition readQuotedString :: "nat \<Rightarrow> scanner \<Rightarrow> parse_error + (string \<times> scanner)" where
  "readQuotedString quote s = quoted_loop quote (sc_line s) (sc_col s) [] (advance s)"

lemma left_quoted_loop: "quoted_loop quote line col buf s = Inr (v, s') \<Longrightarrow> left s' < left s"
proof (induction quote line col buf s rule: quoted_loop.induct)
  case (1 quote line col buf s)
  note adv = left_advance[of s] left_advance_le[of "advance s"]
  consider "atEnd s \<or> peek s = quote"
    | "\<not> atEnd s" "peek s \<noteq> quote" "quote = rn DQ \<and> peek s = rn BSL"
    | "\<not> atEnd s" "peek s \<noteq> quote" "\<not> (quote = rn DQ \<and> peek s = rn BSL)" by blast
  then show ?case
  proof cases
    case 1
    with "1.prems" adv show ?thesis
      by (auto simp: quoted_loop.simps[of _ line col buf s] split: if_splits)
  next
    case 2
    with "1.prems" "1.IH"(1)[OF 2 refl] adv show ?thesis
      by (simp add: quoted_loop.simps[of _ line col buf s] Let_def split: if_splits)
  next
    case 3
    with "1.prems" "1.IH"(2)[OF 3] adv show ?thesis
      by (auto simp: quoted_loop.simps[of _ line col buf s] split: if_splits)
  qed
qed

lemma left_readQuotedString: "readQuotedString quote s = Inr (v, s') \<Longrightarrow> left s' < left s"
  unfolding readQuotedString_def using left_quoted_loop left_advance_le[of s] order_less_le_trans by blast

lemma flowDepth_quoted_loop:
  "quoted_loop quote line col buf s = Inr (v, s') \<Longrightarrow> sc_flowDepth s' = sc_flowDepth s"
proof (induction quote line col buf s rule: quoted_loop.induct)
  case (1 quote line col buf s)
  consider "atEnd s \<or> peek s = quote"
    | "\<not> atEnd s" "peek s \<noteq> quote" "quote = rn DQ \<and> peek s = rn BSL"
    | "\<not> atEnd s" "peek s \<noteq> quote" "\<not> (quote = rn DQ \<and> peek s = rn BSL)" by blast
  then show ?case
  proof cases
    case 1
    with "1.prems" show ?thesis
      by (auto simp: quoted_loop.simps[of _ line col buf s] split: if_splits)
  next
    case 2
    with "1.prems" "1.IH"(1)[OF 2 refl] show ?thesis
      by (simp add: quoted_loop.simps[of _ line col buf s] Let_def split: if_splits)
  next
    case 3
    with "1.prems" "1.IH"(2)[OF 3] show ?thesis
      by (auto simp: quoted_loop.simps[of _ line col buf s] split: if_splits)
  qed
qed

text \<open>One iteration of the loop of \<open>readBlockScalar\<close>, entered when the input is not at its end:
  the early \<open>return ""\<close>, the \<open>break\<close>, or a line with the \<open>blockIndent\<close> and the state it leaves.
  \<open>blockIndent\<close> is -1 until the first line that is not blank.\<close>

datatype block_iter =
    BlockReturn scanner
  | BlockBreak scanner
  | BlockLine int string scanner

definition block_iter :: "int \<Rightarrow> int \<Rightarrow> scanner \<Rightarrow> block_iter" where
  "block_iter parentIndent blockIndent s =
     (case countSpaces s of (lineIndent, s1) \<Rightarrow>
        if atEnd s1 \<or> peek s1 = rn NL \<or> peek s1 = rn CR
        then BlockLine blockIndent [] (if \<not> atEnd s1 then advance s1 else s1)
        else if blockIndent < 0 \<and> lineIndent \<le> parentIndent then BlockReturn s
        else (let bi = (if blockIndent < 0 then lineIndent else blockIndent) in
          if lineIndent < bi then BlockBreak s
          else (case advCollect (\<lambda>r. r \<noteq> rn NL \<and> r \<noteq> rn CR) s1 of (body, s2) \<Rightarrow>
            BlockLine bi (replicate (nat (lineIndent - bi)) SP @ body)
              (if \<not> atEnd s2 then advance s2 else s2))))"

lemma block_iter_same: "block_iter p b s = BlockReturn s' \<or> block_iter p b s = BlockBreak s' \<Longrightarrow> s' = s"
  by (auto simp: block_iter_def Let_def split: if_splits prod.splits)

lemma left_block_iter:
  assumes "\<not> atEnd s" and "block_iter p b s = BlockLine b' l s'"
  shows "left s' < left s"
proof -
  obtain i s1 where cs: "countSpaces s = (i, s1)" by fastforce
  obtain body s2 where ac: "advCollect (\<lambda>r. r \<noteq> rn NL \<and> r \<noteq> rn CR) s1 = (body, s2)" by fastforce
  have l1: "left s1 \<le> left s" using left_countSpaces[of s] cs by simp
  have l2: "\<not> atEnd s1 \<Longrightarrow> peek s1 \<noteq> rn NL \<and> peek s1 \<noteq> rn CR \<Longrightarrow> left s2 < left s1"
    using left_advWhile_less[of s1 "\<lambda>r. r \<noteq> rn NL \<and> r \<noteq> rn CR"] ac by (simp add: advWhile_def)
  show ?thesis
  proof (cases "atEnd s1 \<or> peek s1 = rn NL \<or> peek s1 = rn CR")
    case True
    with assms cs l1 left_advance[of s1] show ?thesis
      by (auto simp: block_iter_def atEnd_def split: if_splits)
  next
    case False
    with assms(2) cs ac have "s' = (if \<not> atEnd s2 then advance s2 else s2)"
      by (simp add: block_iter_def Let_def split: if_splits)
    with False l1 l2 left_advance_le[of s2] show ?thesis by (auto split: if_splits)
  qed
qed

function block_lines :: "int \<Rightarrow> int \<Rightarrow> string list \<Rightarrow> scanner \<Rightarrow> scanner + (string list \<times> scanner)" where
  "block_lines parentIndent blockIndent lines s =
     (if atEnd s then Inr (lines, s)
      else (case block_iter parentIndent blockIndent s of
              BlockReturn s' \<Rightarrow> Inl s'
            | BlockBreak s' \<Rightarrow> Inr (lines, s')
            | BlockLine bi l s' \<Rightarrow> block_lines parentIndent bi (lines @ [l]) s'))"
  by pat_completeness auto
termination
  by (relation "measure (\<lambda>(p, b, l, s). left s)") (auto simp: left_block_iter)

declare block_lines.simps [simp del]

lemma left_block_lines:
  "(\<forall>s'. block_lines p b l s = Inl s' \<longrightarrow> left s' \<le> left s) \<and>
   (\<forall>ls s'. block_lines p b l s = Inr (ls, s') \<longrightarrow> left s' \<le> left s)"
proof (induction p b l s rule: block_lines.induct)
  case (1 p b l s)
  show ?case
  proof (cases "atEnd s")
    case True
    then show ?thesis by (simp add: block_lines.simps[of p b l s])
  next
    case False
    show ?thesis
    proof (cases "block_iter p b s")
      case (BlockLine bi ln s2)
      with False have "left s2 < left s" by (simp add: left_block_iter)
      with "1.IH"[OF False BlockLine] show ?thesis
        by (auto simp: block_lines.simps[of p b l s] False BlockLine)
    qed (use False block_iter_same in \<open>auto simp: block_lines.simps[of p b l s]\<close>)
  qed
qed

definition strip_empty_tail :: "string list \<Rightarrow> string list" where
  "strip_empty_tail ls = rev (dropWhile (\<lambda>l. l = []) (rev ls))"

fun join_with :: "string \<Rightarrow> string list \<Rightarrow> string" where
  "join_with sep [] = []"
| "join_with sep [l] = l"
| "join_with sep (l # ls) = l @ sep @ join_with sep ls"

text \<open>The folding loop; \<open>prev\<close> is \<open>lines[i-1]\<close> when \<open>i > 0\<close>.\<close>

fun fold_lines :: "string option \<Rightarrow> string list \<Rightarrow> string" where
  "fold_lines prev [] = []"
| "fold_lines prev (l # ls) =
     (if l = [] then [NL, NL] @ fold_lines (Some l) ls
      else (case prev of Some p \<Rightarrow> if p \<noteq> [] then [SP] else [] | None \<Rightarrow> [])
           @ l @ fold_lines (Some l) ls)"

definition readBlockScalar :: "int \<Rightarrow> bool \<Rightarrow> scanner \<Rightarrow> string \<times> scanner" where
  "readBlockScalar parentIndent literal s =
     (case block_lines parentIndent (-1) [] s of
        Inl s' \<Rightarrow> ([], s')
      | Inr (lines, s') \<Rightarrow>
          (let ls = strip_empty_tail lines in
           if literal then (join_with [NL] ls @ [NL], s')
           else (fold_lines None ls @ [NL], s')))"

lemma left_readBlockScalar [shrink]: "left (snd (readBlockScalar p lit s)) \<le> left s"
  using left_block_lines[where p = p and b = "-1" and l = "[]" and s = s]
  by (auto simp: readBlockScalar_def Let_def split: sum.splits prod.splits)

end
