(* ===== verification/Token_Source.thy ===== *)
theory Token_Source
  imports Go_Prelude
begin

text \<open>
  The interface between a lexer and what drives it. Both lexers of the program, that of
  core/yaml/scanner.go and that of core/expression/lexer.go, hand out one token per call and are
  driven by a loop that collects tokens until the one that marks the end (\<open>out\<close> is what a token
  contributes to the result). The contract is that every other token consumes input; what the driver then returns follows from it.
\<close>

locale token_source =
  fixes step :: "'s \<Rightarrow> 'e + ('t \<times> 's)"
    and final :: "'t \<Rightarrow> bool"
    and out :: "'t \<Rightarrow> 'u list"
    and remaining :: "'s \<Rightarrow> nat"
    and drive :: "'s \<Rightarrow> 'u list \<Rightarrow> 'e + 'u list"
  assumes progress: "step s = Inr (t, s') \<Longrightarrow> \<not> final t \<Longrightarrow> remaining s' < remaining s"
    and drive_eq: "drive s acc =
      (case step s of
         Inl e \<Rightarrow> Inl e
       | Inr (t, s') \<Rightarrow> if final t then Inr (acc @ out t) else drive s' (acc @ out t))"
begin

lemma drive_shape:
  "drive s acc = Inr us \<Longrightarrow>
   \<exists>body t. us = acc @ concat (map out body) @ out t \<and> final t \<and> (\<forall>u \<in> set body. \<not> final u)
     \<and> length body \<le> remaining s"
proof (induction "remaining s" arbitrary: s acc rule: less_induct)
  case less
  from less.prems obtain t s' where st: "step s = Inr (t, s')"
    by (auto simp: drive_eq[of s] split: sum.splits)
  show ?case
  proof (cases "final t")
    case True
    with less.prems st have "us = acc @ out t" by (simp add: drive_eq[of s])
    with True show ?thesis by (intro exI[of _ "[]"] exI[of _ t]) simp
  next
    case False
    note lt = progress[OF st False]
    from less.prems st False have "drive s' (acc @ out t) = Inr us" by (simp add: drive_eq[of s])
    from less.hyps[OF lt this] obtain body u where
      b: "us = (acc @ out t) @ concat (map out body) @ out u" "final u" "\<forall>v \<in> set body. \<not> final v"
        "length body \<le> remaining s'" by blast
    with lt False show ?thesis by (intro exI[of _ "t # body"] exI[of _ u]) simp
  qed
qed

text \<open>What a driver returns for a source that fails: the source's own error.\<close>

lemma drive_error: "drive s acc = Inl e \<Longrightarrow> \<exists>s'. step s' = Inl e"
proof (induction "remaining s" arbitrary: s acc rule: less_induct)
  case less
  show ?case
  proof (cases "step s")
    case (Inl e')
    with less.prems show ?thesis by (auto simp: drive_eq[of s])
  next
    case (Inr r)
    then obtain t s' where st: "step s = Inr (t, s')" by (cases r) auto
    with less.prems have nf: "\<not> final t" and d: "drive s' (acc @ out t) = Inl e"
      by (auto simp: drive_eq[of s] split: if_splits)
    from less.hyps[OF progress[OF st nf] d] show ?thesis .
  qed
qed

end

end
