(* ===== verification/Yaml_Tokens.thy ===== *)
theory Yaml_Tokens
  imports Yaml_Scanner Token_Source
begin

text \<open>
  core/yaml/scanner.go, second part: the token functions \<open>nextFlowToken\<close>, \<open>readFlowPlain\<close>,
  \<open>readBlockLine\<close>, \<open>nextBlockToken\<close> and the driver \<open>ScanAll\<close>. The driver's recursion ends
  because every token but \<open>TokenEOF\<close> consumes input (\<open>left_nextToken\<close>).
\<close>

section \<open>Flow context\<close>

function skipFlowSpace :: "scanner \<Rightarrow> scanner" where
  "skipFlowSpace s =
     (if atEnd s then s
      else if peek s = rn SP \<or> peek s = rn TAB \<or> peek s = rn NL \<or> peek s = rn CR
      then skipFlowSpace (advance s)
      else if peek s = rn CHR ''#'' then skipFlowSpace (skipToEOL s)
      else s)"
  by pat_completeness auto
termination
  by (relation "measure left") (auto simp: left_advance skipToEOL_def left_advWhile_less)

declare skipFlowSpace.simps [simp del]

lemma left_skipFlowSpace [shrink]: "left (skipFlowSpace s) \<le> left s"
proof (induction s rule: skipFlowSpace.induct)
  case (1 s)
  then show ?case
    using left_advance_le[of s] left_skipToEOL[of s]
    by (auto simp: skipFlowSpace.simps[of s])
qed

definition flow_space :: "nat set" where
  "flow_space = {rn SP, rn TAB, rn NL, rn CR, rn CHR ''#''}"

lemma skipFlowSpace_stop: "\<not> atEnd (skipFlowSpace s) \<Longrightarrow> peek (skipFlowSpace s) \<notin> flow_space"
proof (induction s rule: skipFlowSpace.induct)
  case (1 s)
  then show ?case by (auto simp: skipFlowSpace.simps[of s] flow_space_def split: if_splits)
qed

function flowPlain_loop :: "string \<Rightarrow> scanner \<Rightarrow> token_type \<times> string \<times> scanner" where
  "flowPlain_loop buf s =
     (if atEnd s
        \<or> peek s \<in> {rn CHR '','', rn CHR '']'', rn CHR ''}'', rn CHR ''['', rn CHR ''{'', rn NL, rn CR}
      then (TokenScalar, trimRight buf, s)
      else if peek s = rn CHR '':'' \<and> isFlowColonTerminator s
      then (TokenMappingKey, trimRight buf, skipInlineWhitespace (advance s))
      else if peek s = rn CHR ''#'' \<and> buf \<noteq> [] \<and> last buf = SP
      then (TokenScalar, trimRight buf, skipToEOL s)
      else flowPlain_loop (buf @ encode_rune (peek s)) (advance s))"
  by pat_completeness auto
termination
  by (relation "measure (\<lambda>(b, s). left s)") (auto simp: left_advance)

declare flowPlain_loop.simps [simp del]

definition readFlowPlain :: "nat \<Rightarrow> nat \<Rightarrow> scanner \<Rightarrow> token \<times> scanner" where
  "readFlowPlain line col s =
     (case flowPlain_loop [] s of (ty, v, s') \<Rightarrow> (mk_token ty v line col 0, s'))"

lemma left_flowPlain_loop: "flowPlain_loop buf s = (ty, v, s') \<Longrightarrow> left s' \<le> left s"
proof (induction buf s rule: flowPlain_loop.induct)
  case (1 buf s)
  then show ?case
    using left_advance_le[of s] left_skipInlineWhitespace[of "advance s"] left_skipToEOL[of s]
    by (auto simp: flowPlain_loop.simps[of buf s] split: if_splits)
qed

definition flow_stop :: "nat set" where
  "flow_stop = {rn CHR '','', rn CHR '']'', rn CHR ''}'', rn CHR ''['', rn CHR ''{''}"

lemma left_readFlowPlain:
  assumes "readFlowPlain line col s = (tok, s')" "\<not> atEnd s" "peek s \<notin> flow_stop"
    and "peek s \<notin> flow_space"
  shows "left s' < left s"
  using assms left_advance[of s] left_skipInlineWhitespace[of "advance s"]
    left_flowPlain_loop[of "encode_rune (peek s)" "advance s"]
  by (auto simp: readFlowPlain_def flowPlain_loop.simps[of "[]" s] flow_stop_def flow_space_def
      split: prod.splits if_splits)

definition nextFlowToken :: "scanner \<Rightarrow> parse_error + (token \<times> scanner)" where
  "nextFlowToken s0 =
     (let s = skipFlowSpace s0; line = sc_line s; col = sc_col s; ch = peek s in
      if atEnd s then Inr (mk_token TokenEOF [] line col 0, s)
      else if ch = rn CHR '']'' then
        Inr (mk_token TokenFlowSequenceEnd [] line col 0,
             (advance s)\<lparr>sc_flowDepth := sc_flowDepth s - 1\<rparr>)
      else if ch = rn CHR ''}'' then
        Inr (mk_token TokenFlowMappingEnd [] line col 0,
             (advance s)\<lparr>sc_flowDepth := sc_flowDepth s - 1\<rparr>)
      else if ch = rn CHR '','' then Inr (mk_token TokenFlowComma [] line col 0, advance s)
      else if ch = rn CHR ''['' then
        Inr (mk_token TokenFlowSequenceStart [] line col 0,
             (advance s)\<lparr>sc_flowDepth := sc_flowDepth s + 1\<rparr>)
      else if ch = rn CHR ''{'' then
        Inr (mk_token TokenFlowMappingStart [] line col 0,
             (advance s)\<lparr>sc_flowDepth := sc_flowDepth s + 1\<rparr>)
      else if ch = rn DQ \<or> ch = rn SQ then
        (case readQuotedString ch s of
           Inl e \<Rightarrow> Inl e
         | Inr (val, s1) \<Rightarrow>
             (let s2 = skipInlineWhitespace s1 in
              if \<not> atEnd s2 \<and> peek s2 = rn CHR '':'' \<and> isFlowColonTerminator s2
              then Inr (mk_token TokenMappingKey val line col 0, skipInlineWhitespace (advance s2))
              else Inr (mk_token TokenScalar val line col 0, s2)))
      else Inr (readFlowPlain line col s))"

lemma left_nextFlowToken:
  assumes "nextFlowToken s0 = Inr (tok, s')" and "tk_type tok \<noteq> TokenEOF"
  shows "left s' < left s0"
proof -
  define s where "s = skipFlowSpace s0"
  have le: "left s \<le> left s0" unfolding s_def by (rule left_skipFlowSpace)
  have ne: "\<not> atEnd s"
    using assms by (auto simp: nextFlowToken_def Let_def s_def split: if_splits)
  note stop = skipFlowSpace_stop[of s0, folded s_def, OF ne]
  have "left s' < left s"
  proof (cases "peek s = rn DQ \<or> peek s = rn SQ")
    case True
    then obtain v s1 where q: "readQuotedString (peek s) s = Inr (v, s1)"
      using assms ne by (auto simp: nextFlowToken_def Let_def s_def[symmetric] split: if_splits sum.splits)
    note l = left_readQuotedString[OF q] left_skipInlineWhitespace[of s1]
      left_advance_le[of "skipInlineWhitespace s1"]
      left_skipInlineWhitespace[of "advance (skipInlineWhitespace s1)"]
    from True have "peek s \<notin> flow_stop" by (auto simp: flow_stop_def)
    with assms(1) ne True q l show ?thesis
      by (auto simp: nextFlowToken_def Let_def s_def[symmetric] flow_stop_def split: if_splits)
  next
    case False
    show ?thesis
    proof (cases "peek s \<in> flow_stop")
      case True
      with assms(1) ne left_advance[OF ne] show ?thesis
        by (auto simp: nextFlowToken_def Let_def s_def[symmetric] flow_stop_def split: if_splits)
    next
      case np: False
      with False assms(1) ne have "readFlowPlain (sc_line s) (sc_col s) s = (tok, s')"
        by (auto simp: nextFlowToken_def Let_def s_def[symmetric] flow_stop_def split: if_splits)
      then show ?thesis using ne np stop by (rule left_readFlowPlain)
    qed
  qed
  with le show ?thesis by simp
qed

section \<open>Block context\<close>

text \<open>The first pass of \<open>readBlockLine\<close>: the byte offset of the colon that ends a key on this
  line. \<open>inQuote\<close> is the open quote character, 0 for none.\<close>

function findColon :: "nat \<Rightarrow> string \<Rightarrow> nat \<Rightarrow> nat option" where
  "findColon inQuote cs off =
     (if cs = [] then None
      else (case decode_rune cs of (r, w) \<Rightarrow>
        if r = rn NL \<or> r = rn CR then None
        else if inQuote \<noteq> 0 then
          (if r = inQuote then findColon 0 (drop w cs) (off + w)
           else if r = rn BSL \<and> inQuote = rn DQ
           then findColon inQuote (drop (w + w) cs) (off + (w + w))
           else findColon inQuote (drop w cs) (off + w))
        else if r = rn DQ \<or> r = rn SQ then findColon r (drop w cs) (off + w)
        else if r = rn CHR '':''
             \<and> (drop w cs = [] \<or> fst (decode_rune (drop w cs)) \<in> {rn SP, rn NL, rn CR, rn TAB})
        then Some off
        else findColon inQuote (drop w cs) (off + w)))"
  by pat_completeness auto
termination
  by (relation "measure (\<lambda>(q, cs, off). length cs)")
    (auto dest!: sym[of "(_, _)" "decode_rune _"] dest: decode_rune_pos)

declare findColon.simps [simp del]

text \<open>\<open>for s.pos < targetPos { s.advance() }\<close>, the target given as the length of the suffix it
  leaves.\<close>

function advTo :: "nat \<Rightarrow> scanner \<Rightarrow> scanner" where
  "advTo n s = (if n < left s then advTo n (advance s) else s)"
  by pat_completeness auto
termination
  by (relation "measure (\<lambda>(n, s). left s)")
    (auto intro!: left_advance simp: atEnd_def)

declare advTo.simps [simp del]

lemma left_advTo: "left (advTo n s) \<le> n"
proof (induction n s rule: advTo.induct)
  case (1 n s)
  then show ?case by (simp add: advTo.simps[of n s])
qed

function blockPlain_loop :: "string \<Rightarrow> scanner \<Rightarrow> string \<times> scanner" where
  "blockPlain_loop buf s =
     (if atEnd s \<or> peek s = rn NL \<or> peek s = rn CR then (trimRight buf, s)
      else if peek s = rn CHR ''#'' \<and> buf \<noteq> [] \<and> last buf = SP then (trimRight buf, skipToEOL s)
      else blockPlain_loop (buf @ encode_rune (peek s)) (advance s))"
  by pat_completeness auto
termination
  by (relation "measure (\<lambda>(b, s). left s)") (auto simp: left_advance)

declare blockPlain_loop.simps [simp del]

lemma left_blockPlain_loop: "left (snd (blockPlain_loop buf s)) \<le> left s"
proof (induction buf s rule: blockPlain_loop.induct)
  case (1 buf s)
  then show ?case
    using left_advance_le[of s] left_skipToEOL[of s]
    by (auto simp: blockPlain_loop.simps[of buf s])
qed

definition readBlockLine :: "int \<Rightarrow> nat \<Rightarrow> nat \<Rightarrow> scanner \<Rightarrow> token \<times> scanner" where
  "readBlockLine indent line col s =
     (case findColon 0 (sc_rest s) 0 of
        Some colonOffset \<Rightarrow>
          (let key = trimRight (take colonOffset (sc_rest s));
               s1 = advTo (left s - (colonOffset + 1)) s
           in (mk_token TokenMappingKey key line col indent, skipInlineWhitespace s1))
      | None \<Rightarrow>
          (case blockPlain_loop [] s of (v, s') \<Rightarrow> (mk_token TokenScalar v line col indent, s')))"

lemma left_readBlockLine:
  assumes "readBlockLine indent line col s = (tok, s')" "\<not> atEnd s"
    and "peek s \<noteq> rn NL" "peek s \<noteq> rn CR"
  shows "left s' < left s"
proof (cases "findColon 0 (sc_rest s) 0")
  case None
  with assms left_advance[of s] left_blockPlain_loop[of "encode_rune (peek s)" "advance s"]
  show ?thesis
    by (auto simp: readBlockLine_def blockPlain_loop.simps[of "[]" s] split: prod.splits)
next
  case (Some off)
  let ?s1 = "advTo (left s - (off + 1)) s"
  have "left ?s1 < left s"
    using left_advTo[of "left s - (off + 1)" s] assms(2) by (cases "sc_rest s") (auto simp: atEnd_def)
  with Some assms(1) left_skipInlineWhitespace[of ?s1] show ?thesis
    by (auto simp: readBlockLine_def Let_def)
qed

text \<open>\<open>nextBlockToken\<close> after the indentation has been counted.\<close>

definition blockTokenAt :: "int \<Rightarrow> scanner \<Rightarrow> parse_error + (token \<times> scanner)" where
  "blockTokenAt indent s =
     (let line = sc_line s; col = sc_col s; ch = peek s in
      if ch = rn CHR ''['' then
        Inr (mk_token TokenFlowSequenceStart [] line col indent,
             (advance s)\<lparr>sc_flowDepth := sc_flowDepth s + 1\<rparr>)
      else if ch = rn CHR ''{'' then
        Inr (mk_token TokenFlowMappingStart [] line col indent,
             (advance s)\<lparr>sc_flowDepth := sc_flowDepth s + 1\<rparr>)
      else if ch = rn CHR ''-'' \<and> peekAt s 1 = rn SP then
        Inr (mk_token TokenSequenceEntry [] line col indent, advance (advance s))
      else if ch = rn CHR ''|'' \<or> ch = rn CHR ''>'' then
        (let ty = (if ch = rn CHR ''>'' then TokenFoldedBlock else TokenLiteralBlock);
             s1 = skipInlineWhitespace (advance s);
             s2 = (if \<not> atEnd s1 \<and> peek s1 = rn CHR ''#'' then skipToEOL s1 else s1);
             s3 = (if \<not> atEnd s2 \<and> (peek s2 = rn NL \<or> peek s2 = rn CR) then advance s2 else s2)
         in (case readBlockScalar indent (ty = TokenLiteralBlock) s3 of (v, s4) \<Rightarrow>
               Inr (mk_token ty v line col indent, s4)))
      else if ch = rn DQ \<or> ch = rn SQ then
        (case readQuotedString ch s of
           Inl e \<Rightarrow> Inl e
         | Inr (val, s1) \<Rightarrow>
             (let s2 = skipInlineWhitespace s1 in
              if \<not> atEnd s2 \<and> peek s2 = rn CHR '':'' \<and> isColonTerminator s2
              then Inr (mk_token TokenMappingKey val line col indent, skipInlineWhitespace (advance s2))
              else Inr (mk_token TokenScalar val line col indent, s2)))
      else Inr (readBlockLine indent line col s))"

lemma left_blockTokenAt:
  assumes "blockTokenAt indent s = Inr (tok, s')" "\<not> atEnd s"
    and "peek s \<noteq> rn NL" "peek s \<noteq> rn CR"
  shows "left s' < left s"
proof -
  note adv = left_advance[OF assms(2)]
  consider (flow) "peek s = rn CHR ''['' \<or> peek s = rn CHR ''{'' \<or> (peek s = rn CHR ''-'' \<and> peekAt s 1 = rn SP)"
    | (block) "peek s = rn CHR ''|'' \<or> peek s = rn CHR ''>''"
    | (quoted) "peek s = rn DQ \<or> peek s = rn SQ"
    | (plain) "\<not> (peek s = rn CHR ''['' \<or> peek s = rn CHR ''{'' \<or> (peek s = rn CHR ''-'' \<and> peekAt s 1 = rn SP))"
        "\<not> (peek s = rn CHR ''|'' \<or> peek s = rn CHR ''>'')" "\<not> (peek s = rn DQ \<or> peek s = rn SQ)"
    by blast
  then show ?thesis
  proof cases
    case flow
    with assms(1) adv left_advance_le[of "advance s"] show ?thesis
      by (auto simp: blockTokenAt_def Let_def split: if_splits)
  next
    case block
    define s1 where "s1 = skipInlineWhitespace (advance s)"
    define s2 where "s2 = (if \<not> atEnd s1 \<and> peek s1 = rn CHR ''#'' then skipToEOL s1 else s1)"
    define s3 where "s3 = (if \<not> atEnd s2 \<and> (peek s2 = rn NL \<or> peek s2 = rn CR) then advance s2 else s2)"
    have "left s3 < left s"
      using adv left_skipInlineWhitespace[of "advance s"] left_skipToEOL[of s1] left_advance_le[of s2]
      by (auto simp: s1_def[symmetric] s2_def s3_def)
    moreover define ty where "ty = (if peek s = rn CHR ''>'' then TokenFoldedBlock else TokenLiteralBlock)"
    obtain v s4 where r: "readBlockScalar indent (ty = TokenLiteralBlock) s3 = (v, s4)" by fastforce
    from block have "peek s \<noteq> rn CHR ''[''" "peek s \<noteq> rn CHR ''{''" "peek s \<noteq> rn CHR ''-''" by auto
    with block r have "blockTokenAt indent s = Inr (mk_token ty v (sc_line s) (sc_col s) indent, s4)"
      by (simp only: blockTokenAt_def Let_def s1_def[symmetric] s2_def[symmetric] s3_def[symmetric]
          ty_def[symmetric] if_True if_False simp_thms prod.case)
    with assms(1) r have "s' = snd (readBlockScalar indent (ty = TokenLiteralBlock) s3)" by simp
    ultimately show ?thesis
      by (metis left_readBlockScalar order_le_less_trans)
  next
    case quoted
    then obtain v s1 where q: "readQuotedString (peek s) s = Inr (v, s1)"
      using assms(1) by (auto simp: blockTokenAt_def Let_def split: if_splits sum.splits)
    with assms(1) quoted left_readQuotedString[OF q] left_skipInlineWhitespace[of s1]
      left_advance_le[of "skipInlineWhitespace s1"]
      left_skipInlineWhitespace[of "advance (skipInlineWhitespace s1)"]
    show ?thesis
      by (auto simp: blockTokenAt_def Let_def split: if_splits)
  next
    case plain
    then have "blockTokenAt indent s = Inr (readBlockLine indent (sc_line s) (sc_col s) s)"
      by (auto simp: blockTokenAt_def Let_def)
    with assms show ?thesis by (auto dest: left_readBlockLine)
  qed
qed

lemma skipBlankLines_stop:
  "\<not> atEnd (skipBlankLines s) \<Longrightarrow> peek (skipBlankLines s) \<noteq> rn NL \<and> peek (skipBlankLines s) \<noteq> rn CR"
proof (induction s rule: skipBlankLines.induct)
  case (1 s)
  show ?case
  proof (cases rule: skipBlankLines_cases[of s])
    case here
    with 1(4) show ?thesis by simp
  next
    case newline
    with 1(1)[OF newline(2,3)] 1(4) show ?thesis by simp
  next
    case (blank s1 s2)
    with 1(2)[OF blank(4,5,6,1,7)] 1(4) show ?thesis by simp
  next
    case comment
    with 1(3)[OF comment(2,3,4,5)] 1(4) show ?thesis by simp
  qed
qed

function nextBlockToken :: "scanner \<Rightarrow> parse_error + (token \<times> scanner)" where
  "nextBlockToken s0 =
     (let s = skipBlankLines s0 in
      if atEnd s then Inr (mk_token TokenEOF [] (sc_line s) (sc_col s) 0, s)
      else if sc_col s = 1 then
        (case countSpaces s of (indent, s1) \<Rightarrow>
           if atEnd s1 then Inr (mk_token TokenEOF [] (sc_line s1) (sc_col s1) 0, s1)
           else if peek s1 = rn CHR ''#'' then nextBlockToken (skipToEOL s1)
           else if peek s1 = rn NL \<or> peek s1 = rn CR then nextBlockToken (advance s1)
           else blockTokenAt indent s1)
      else blockTokenAt 0 s)"
  by pat_completeness auto
termination
proof (relation "measure left", goal_cases)
  case (2 s0 s indent s1)
  then have "left s1 \<le> left s0"
    using left_countSpaces[of s] left_skipBlankLines[of s0] by (metis le_trans snd_conv)
  with 2 show ?case using left_advWhile_less[of s1 "\<lambda>r. r \<noteq> rn NL"] by (auto simp: skipToEOL_def)
next
  case (3 s0 s indent s1)
  then have "left s1 \<le> left s0"
    using left_countSpaces[of s] left_skipBlankLines[of s0] by (metis le_trans snd_conv)
  with 3 show ?case using left_advance[of s1] by auto
qed simp

declare nextBlockToken.simps [simp del]

lemma left_nextBlockToken:
  "nextBlockToken s0 = Inr (tok, s') \<Longrightarrow> tk_type tok \<noteq> TokenEOF \<Longrightarrow> left s' < left s0"
proof (induction s0 rule: nextBlockToken.induct)
  case (1 s0)
  define s where "s = skipBlankLines s0"
  obtain indent s1 where cs: "countSpaces s = (indent, s1)" by fastforce
  have le: "left s \<le> left s0" "left s1 \<le> left s" "left (skipToEOL s1) \<le> left s1"
      "left (advance s1) \<le> left s1"
    using left_skipBlankLines[of s0] left_countSpaces[of s] cs left_skipToEOL[of s1] left_advance_le[of s1]
    by (simp_all add: s_def)
  note eq = "1.prems"(1)[unfolded nextBlockToken.simps[of s0] Let_def, folded s_def, unfolded cs prod.case]
  have ne: "\<not> atEnd s" using eq "1.prems"(2) by (auto split: if_splits)
  show ?case
  proof (cases "sc_col s = 1")
    case False
    with eq ne have "blockTokenAt 0 s = Inr (tok, s')" by simp
    with ne skipBlankLines_stop[of s0] left_blockTokenAt le(1) show ?thesis
      unfolding s_def[symmetric] by fastforce
  next
    case True
    have ne1: "\<not> atEnd s1" using eq ne True "1.prems"(2) by (auto split: if_splits)
    note IH = "1.IH"[OF s_def ne True cs[symmetric] ne1]
    consider "peek s1 = rn CHR ''#''" | "peek s1 \<noteq> rn CHR ''#''" "peek s1 = rn NL \<or> peek s1 = rn CR"
      | "peek s1 \<noteq> rn CHR ''#''" "\<not> (peek s1 = rn NL \<or> peek s1 = rn CR)" by blast
    then show ?thesis
    proof cases
      case 1
      with eq ne ne1 True IH(1)[OF 1 _ "1.prems"(2)] le show ?thesis by simp
    next
      case 2
      with eq ne ne1 True IH(2)[OF 2 _ "1.prems"(2)] le show ?thesis by simp
    next
      case 3
      with eq ne ne1 True have "blockTokenAt indent s1 = Inr (tok, s')" by simp
      with 3 ne1 le show ?thesis using left_blockTokenAt by fastforce
    qed
  qed
qed

section \<open>The driver\<close>

definition nextToken :: "scanner \<Rightarrow> parse_error + (token \<times> scanner)" where
  "nextToken s = (if sc_flowDepth s > 0 then nextFlowToken s else nextBlockToken s)"

lemma left_nextToken:
  "nextToken s = Inr (tok, s') \<Longrightarrow> tk_type tok \<noteq> TokenEOF \<Longrightarrow> left s' < left s"
  by (auto simp: nextToken_def left_nextFlowToken left_nextBlockToken split: if_splits)

function scanLoop :: "scanner \<Rightarrow> token list \<Rightarrow> parse_error + token list" where
  "scanLoop s tokens =
     (case nextToken s of
        Inl e \<Rightarrow> Inl e
      | Inr (tok, s') \<Rightarrow>
          (if tk_type tok = TokenEOF then Inr (tokens @ [tok])
           else scanLoop s' (tokens @ [tok])))"
  by pat_completeness auto
termination
  by (relation "measure (\<lambda>(s, ts). left s)") (auto simp: left_nextToken)

declare scanLoop.simps [simp del]

definition ScanAll :: "string \<Rightarrow> parse_error + token list" where
  "ScanAll input = scanLoop (NewScanner input) []"

interpretation yaml_source: token_source nextToken "\<lambda>t. tk_type t = TokenEOF" "\<lambda>t. [t]" left scanLoop
proof
  show "scanLoop s acc = (case nextToken s of
      Inl e \<Rightarrow> Inl e
    | Inr (t, s') \<Rightarrow> if tk_type t = TokenEOF then Inr (acc @ [t]) else scanLoop s' (acc @ [t]))" for s acc
    by (rule scanLoop.simps)
qed (rule left_nextToken)

section \<open>Evaluation\<close>

text \<open>The equations that compute the scanner on a concrete document.\<close>

lemmas [yaml_eval] = ScanAll_def NewScanner_def scanLoop.simps nextToken_def nextBlockToken.simps
  skipBlankLines.simps atEnd_def peek_def advance_def countSpaces.simps blockTokenAt_def peekAt_def
  readBlockLine_def findColon.simps advTo.simps skipInlineWhitespace_def advWhile_unfold
  blockPlain_loop.simps trimRight_def skipToEOL_def Let_def mk_token_def encode_rune_def
  rune_error_def isColonTerminator_def readQuotedString_def quoted_loop.simps quoted_escape_def
  char_of_def bit_Suc_0_iff

text \<open>C15: the shape of a token stream. When \<open>ScanAll\<close> succeeds its result ends in an EOF token,
  no earlier token is one, and there are at most as many tokens before it as the input has bytes.\<close>

theorem ScanAll_shape:
  assumes "ScanAll input = Inr ts"
  shows "\<exists>body t. ts = body @ [t] \<and> tk_type t = TokenEOF \<and> (\<forall>u \<in> set body. tk_type u \<noteq> TokenEOF)
           \<and> length body \<le> length input"
  using yaml_source.drive_shape[OF assms[unfolded ScanAll_def]] by (simp add: NewScanner_def concat_map_singleton)

theorem ScanAll_shape_witness:
  "\<exists>ts body t. ScanAll ''a: 1'' = Inr ts \<and> ts = body @ [t] \<and> tk_type t = TokenEOF \<and> length body \<le> 4"
proof -
  have e: "ScanAll ''a: 1'' = Inr [mk_token TokenMappingKey ''a'' 1 1 0,
      mk_token TokenScalar ''1'' 1 4 0, mk_token TokenEOF [] 1 5 0]"
    by (simp add: yaml_eval)
  from ScanAll_shape[OF e] e show ?thesis by auto
qed

end
