(* ===== verification/Parse_Monad.thy ===== *)
theory Parse_Monad
  imports Go_Prelude
begin

text \<open>
  The result type of the recursive descent parsers (core/yaml/parser.go,
  core/expression/parser.go): an error, or a value with the tokens that are left;
  \<^const>\<open>None\<close> is running out of the fuel that bounds the recursion, and \<open>answers\<close> says that this
  did not happen.
\<close>

type_synonym ('e, 't, 'a) fueled = "('e + 'a \<times> 't list) option"

definition pret :: "'a \<Rightarrow> 't list \<Rightarrow> ('e, 't, 'a) fueled" where
  "pret x ts = Some (Inr (x, ts))"

definition pfail :: "'e \<Rightarrow> ('e, 't, 'a) fueled" where
  "pfail e = Some (Inl e)"

definition pbind :: "('e, 't, 'a) fueled \<Rightarrow> ('a \<Rightarrow> 't list \<Rightarrow> ('e, 't, 'b) fueled) \<Rightarrow> ('e, 't, 'b) fueled" where
  "pbind m f = (case m of
      None \<Rightarrow> None
    | Some (Inl e) \<Rightarrow> Some (Inl e)
    | Some (Inr (x, ts)) \<Rightarrow> f x ts)"

lemma pbind_simps [simp]:
  "pbind None f = None"
  "pbind (Some (Inl e)) f = Some (Inl e)"
  "pbind (Some (Inr (x, ts))) f = f x ts"
  "pbind (pret x ts) f = f x ts"
  "pbind (pfail e) f = pfail e"
  by (simp_all add: pbind_def pret_def pfail_def)

lemma pbind_eq_Inr:
  "pbind m f = Some (Inr r) \<longleftrightarrow> (\<exists>x ts. m = Some (Inr (x, ts)) \<and> f x ts = Some (Inr r))"
  by (auto simp: pbind_def split: option.splits sum.splits)

lemma pbind_eq_None:
  "pbind m f = None \<longleftrightarrow> m = None \<or> (\<exists>x ts. m = Some (Inr (x, ts)) \<and> f x ts = None)"
  by (auto simp: pbind_def split: option.splits sum.splits)

lemma pfail_neq [simp]: "pfail e \<noteq> Some (Inr r)" "pfail e \<noteq> None"
  by (simp_all add: pfail_def)

lemma pfail_eq [simp]: "pfail e = Some (Inl e') \<longleftrightarrow> e = e'"
  by (simp add: pfail_def)

lemma pret_eq [simp]: "pret x ts = Some (Inr r) \<longleftrightarrow> r = (x, ts)" "pret x ts \<noteq> None" "pret x ts \<noteq> Some (Inl e)"
  by (auto simp: pret_def)

definition answers :: "('e, 't, 'a) fueled \<Rightarrow> bool" where
  "answers m = (m \<noteq> None)"

lemma answers_simps [simp]:
  "answers (pret x ts)" "answers (pfail e)"
  "answers (pbind m f) \<longleftrightarrow> answers m \<and> (\<forall>x ts. m = Some (Inr (x, ts)) \<longrightarrow> answers (f x ts))"
  by (auto simp: answers_def pbind_eq_None simp del: not_None_eq)

end
