(* ===== verification/Yaml_Parser.thy ===== *)
theory Yaml_Parser
  imports Yaml_Tokens Parse_Monad
begin

text \<open>
  core/yaml/parser.go: the recursive descent parser from tokens to \<open>Node\<close> trees. The parser's
  \<open>tokens\<close> and \<open>pos\<close> are kept as the list of tokens that are left. The source's mutual
  recursion interleaves loops with recursive calls on the tokens those calls leave, so the
  functions take fuel; \<^const>\<open>None\<close> is running out of it. Every recursive call costs one unit and
  at most two calls in a row consume no token, so \<open>parse_fuel\<close> (four units per token and eight
  more) always suffices (\<open>parseDocument_enough\<close>).
\<close>

section \<open>Nodes\<close>

datatype node =
    ScalarNode (nd_value: string) (nd_line: nat) (nd_column: nat)
  | MappingNode (nd_pairs: "(string \<times> node) list") (nd_line: nat) (nd_column: nat)
  | SequenceNode (nd_children: "node list") (nd_line: nat) (nd_column: nat)

type_synonym 'a parse = "(parse_error, token, 'a) fueled"

definition eof_token :: token where
  "eof_token = mk_token TokenEOF [] 0 0 0"

text \<open>\<open>peek\<close> past the last token is a zero token of type EOF; \<open>next\<close> does not move there.\<close>

definition peek_tok :: "token list \<Rightarrow> token" where
  "peek_tok ts = (case ts of [] \<Rightarrow> eof_token | t # _ \<Rightarrow> t)"

definition next_tok :: "token list \<Rightarrow> token list" where
  "next_tok ts = (case ts of [] \<Rightarrow> [] | _ # ts' \<Rightarrow> ts')"

definition scalar_of :: "token \<Rightarrow> node" where
  "scalar_of tok = ScalarNode (tk_value tok) (tk_line tok) (tk_column tok)"

definition empty_at :: "token \<Rightarrow> node" where
  "empty_at tok = ScalarNode [] (tk_line tok) (tk_column tok)"

definition perr :: "token \<Rightarrow> string \<Rightarrow> 'a parse" where
  "perr tok msg = pfail (newParseError (tk_line tok) (tk_column tok) msg)"

lemma pbind_perr [simp]: "pbind (perr tok msg) f = perr tok msg"
  by (simp add: perr_def)

section \<open>Flow collections\<close>

function (sequential) flow_seq_loop :: "nat \<Rightarrow> nat \<Rightarrow> nat \<Rightarrow> node list \<Rightarrow> token list \<Rightarrow> node parse"
  and flow_map_loop :: "nat \<Rightarrow> nat \<Rightarrow> nat \<Rightarrow> (string \<times> node) list \<Rightarrow> token list \<Rightarrow> node parse"
  and parseFlowSequence :: "nat \<Rightarrow> token list \<Rightarrow> node parse"
  and parseFlowMapping :: "nat \<Rightarrow> token list \<Rightarrow> node parse"
  and parseFlowValue :: "nat \<Rightarrow> token list \<Rightarrow> node parse"
where
  "flow_seq_loop 0 line col cs ts = None"
| "flow_seq_loop (Suc n) line col cs ts =
     (let tok = peek_tok ts in
      if tk_type tok = TokenFlowSequenceEnd then pret (SequenceNode cs line col) (next_tok ts)
      else if tk_type tok = TokenEOF then perr tok ''unterminated flow sequence''
      else if tk_type tok = TokenFlowComma then flow_seq_loop n line col cs (next_tok ts)
      else pbind (parseFlowValue n ts) (\<lambda>child ts'. flow_seq_loop n line col (cs @ [child]) ts'))"
| "flow_map_loop 0 line col ps ts = None"
| "flow_map_loop (Suc n) line col ps ts =
     (let tok = peek_tok ts in
      if tk_type tok = TokenFlowMappingEnd then pret (MappingNode ps line col) (next_tok ts)
      else if tk_type tok = TokenEOF then perr tok ''unterminated flow mapping''
      else if tk_type tok = TokenFlowComma then flow_map_loop n line col ps (next_tok ts)
      else if tk_type tok = TokenMappingKey then
        (let ts1 = next_tok ts; valTok = peek_tok ts1 in
         if tk_type valTok = TokenFlowMappingEnd \<or> tk_type valTok = TokenFlowComma
         then flow_map_loop n line col (ps @ [(tk_value tok, empty_at valTok)]) ts1
         else pbind (parseFlowValue n ts1)
                (\<lambda>val ts'. flow_map_loop n line col (ps @ [(tk_value tok, val)]) ts'))
      else if tk_type tok = TokenScalar then
        flow_map_loop n line col (ps @ [(tk_value tok, ScalarNode [] 0 0)]) (next_tok ts)
      else perr tok (''unexpected token in flow mapping: '' @ token_type_String (tk_type tok)))"
| "parseFlowSequence 0 ts = None"
| "parseFlowSequence (Suc n) ts =
     flow_seq_loop n (tk_line (peek_tok ts)) (tk_column (peek_tok ts)) [] (next_tok ts)"
| "parseFlowMapping 0 ts = None"
| "parseFlowMapping (Suc n) ts =
     flow_map_loop n (tk_line (peek_tok ts)) (tk_column (peek_tok ts)) [] (next_tok ts)"
| "parseFlowValue 0 ts = None"
| "parseFlowValue (Suc n) ts =
     (let tok = peek_tok ts in
      case tk_type tok of
        TokenFlowSequenceStart \<Rightarrow> parseFlowSequence n ts
      | TokenFlowMappingStart \<Rightarrow> parseFlowMapping n ts
      | TokenMappingKey \<Rightarrow> pret (scalar_of tok) (next_tok ts)
      | TokenScalar \<Rightarrow> pret (scalar_of tok) (next_tok ts)
      | _ \<Rightarrow> perr tok (''unexpected token in flow value: '' @ token_type_String (tk_type tok)))"
  by pat_completeness auto
termination
  by (relation "measure (case_sum (case_sum fst fst) (case_sum fst (case_sum fst fst)))") auto

section \<open>Block collections\<close>

text \<open>The loops of \<open>parseBlockMapping\<close> and \<open>parseBlockSequence\<close> carry the node's position and
  what the loop has collected. \<open>next_mapIndent\<close> is the adjustment of \<open>mapIndent\<close> at the second
  key; \<^const>\<open>None\<close> is the \<open>break\<close>.\<close>

definition next_mapIndent :: "int \<Rightarrow> int \<Rightarrow> bool \<Rightarrow> nat \<Rightarrow> token \<Rightarrow> int option" where
  "next_mapIndent minIndent mapIndent firstKey npairs tok =
     (if tk_type tok \<noteq> TokenMappingKey then None
      else if tk_indent tok < mapIndent then None
      else if tk_indent tok > mapIndent then
        (if firstKey then None
         else if npairs = 1 \<and> mapIndent \<le> minIndent then Some (tk_indent tok)
         else None)
      else Some mapIndent)"

function (sequential) map_loop :: "nat \<Rightarrow> int \<Rightarrow> int \<Rightarrow> bool \<Rightarrow> nat \<Rightarrow> nat \<Rightarrow> (string \<times> node) list \<Rightarrow> token list \<Rightarrow> node parse"
  and parseBlockMapping :: "nat \<Rightarrow> int \<Rightarrow> token list \<Rightarrow> node parse"
  and parseMappingValue :: "nat \<Rightarrow> int \<Rightarrow> token list \<Rightarrow> node parse"
  and seq_loop :: "nat \<Rightarrow> int \<Rightarrow> nat \<Rightarrow> nat \<Rightarrow> node list \<Rightarrow> token list \<Rightarrow> node parse"
  and parseBlockSequence :: "nat \<Rightarrow> int \<Rightarrow> token list \<Rightarrow> node parse"
  and parseSequenceItem :: "nat \<Rightarrow> int \<Rightarrow> token list \<Rightarrow> node parse"
where
  "map_loop 0 minIndent mapIndent firstKey line col ps ts = None"
| "map_loop (Suc n) minIndent mapIndent firstKey line col ps ts =
     (let tok = peek_tok ts in
      case next_mapIndent minIndent mapIndent firstKey (length ps) tok of
        None \<Rightarrow> pret (MappingNode ps line col) ts
      | Some mi \<Rightarrow>
          pbind (parseMappingValue n mi (next_tok ts))
            (\<lambda>val ts'. map_loop n minIndent mi False line col (ps @ [(tk_value tok, val)]) ts'))"
| "parseBlockMapping 0 minIndent ts = None"
| "parseBlockMapping (Suc n) minIndent ts =
     (let firstTok = peek_tok ts in
      map_loop n minIndent (tk_indent firstTok) True (tk_line firstTok) (tk_column firstTok) [] ts)"
| "parseMappingValue 0 keyIndent ts = None"
| "parseMappingValue (Suc n) keyIndent ts =
     (let tok = peek_tok ts in
      case tk_type tok of
        TokenEOF \<Rightarrow> pret (empty_at tok) ts
      | TokenScalar \<Rightarrow> pret (scalar_of tok) (next_tok ts)
      | TokenLiteralBlock \<Rightarrow> pret (scalar_of tok) (next_tok ts)
      | TokenFoldedBlock \<Rightarrow> pret (scalar_of tok) (next_tok ts)
      | TokenFlowSequenceStart \<Rightarrow> parseFlowSequence n ts
      | TokenFlowMappingStart \<Rightarrow> parseFlowMapping n ts
      | TokenMappingKey \<Rightarrow>
          (if tk_indent tok > keyIndent then parseBlockMapping n keyIndent ts
           else pret (empty_at tok) ts)
      | TokenSequenceEntry \<Rightarrow>
          (if tk_indent tok > keyIndent then parseBlockSequence n keyIndent ts
           else pret (empty_at tok) ts)
      | _ \<Rightarrow> pret (empty_at tok) ts)"
| "seq_loop 0 seqIndent line col cs ts = None"
| "seq_loop (Suc n) seqIndent line col cs ts =
     (let tok = peek_tok ts in
      if tk_type tok \<noteq> TokenSequenceEntry \<or> tk_indent tok \<noteq> seqIndent
      then pret (SequenceNode cs line col) ts
      else pbind (parseSequenceItem n seqIndent (next_tok ts))
             (\<lambda>child ts'. seq_loop n seqIndent line col (cs @ [child]) ts'))"
| "parseBlockSequence 0 minIndent ts = None"
| "parseBlockSequence (Suc n) minIndent ts =
     (let firstTok = peek_tok ts in
      seq_loop n (tk_indent firstTok) (tk_line firstTok) (tk_column firstTok) [] ts)"
| "parseSequenceItem 0 seqIndent ts = None"
| "parseSequenceItem (Suc n) seqIndent ts =
     (let itemTok = peek_tok ts in
      case tk_type itemTok of
        TokenMappingKey \<Rightarrow> parseBlockMapping n seqIndent ts
      | TokenSequenceEntry \<Rightarrow> parseBlockSequence n seqIndent ts
      | TokenFlowSequenceStart \<Rightarrow> parseFlowSequence n ts
      | TokenFlowMappingStart \<Rightarrow> parseFlowMapping n ts
      | TokenScalar \<Rightarrow> pret (scalar_of itemTok) (next_tok ts)
      | TokenLiteralBlock \<Rightarrow> pret (scalar_of itemTok) (next_tok ts)
      | TokenFoldedBlock \<Rightarrow> pret (scalar_of itemTok) (next_tok ts)
      | TokenEOF \<Rightarrow> pret (empty_at itemTok) ts
      | _ \<Rightarrow> perr itemTok (''unexpected token in sequence: '' @ token_type_String (tk_type itemTok)))"
  by pat_completeness auto
termination
  by (relation "measure (case_sum (case_sum fst (case_sum fst fst)) (case_sum fst (case_sum fst fst)))")
    auto

definition parseNode :: "nat \<Rightarrow> int \<Rightarrow> token list \<Rightarrow> node parse" where
  "parseNode n minIndent ts =
     (let tok = peek_tok ts in
      case tk_type tok of
        TokenEOF \<Rightarrow> pret (empty_at tok) ts
      | TokenFlowSequenceStart \<Rightarrow> parseFlowSequence n ts
      | TokenFlowMappingStart \<Rightarrow> parseFlowMapping n ts
      | TokenMappingKey \<Rightarrow> parseBlockMapping n minIndent ts
      | TokenSequenceEntry \<Rightarrow> parseBlockSequence n minIndent ts
      | TokenScalar \<Rightarrow> pret (scalar_of tok) (next_tok ts)
      | TokenLiteralBlock \<Rightarrow> pret (scalar_of tok) (next_tok ts)
      | TokenFoldedBlock \<Rightarrow> pret (scalar_of tok) (next_tok ts)
      | _ \<Rightarrow> perr tok (''unexpected token: '' @ token_type_String (tk_type tok)))"

definition parse_fuel :: "token list \<Rightarrow> nat" where
  "parse_fuel ts = 4 * length ts + 8"

definition parseDocument :: "nat \<Rightarrow> token list \<Rightarrow> node parse" where
  "parseDocument n ts =
     (let tok = peek_tok ts in
      if tk_type tok = TokenEOF then pret (empty_at tok) ts
      else parseNode n (-1) ts)"

text \<open>\<open>Parse\<close>; \<^const>\<open>None\<close> would be running out of fuel, which \<open>Parse_total\<close> excludes.\<close>

definition Parse :: "string \<Rightarrow> (parse_error + node) option" where
  "Parse input =
     (case ScanAll input of
        Inl e \<Rightarrow> Some (Inl e)
      | Inr tokens \<Rightarrow> map_option (map_sum id fst) (parseDocument (parse_fuel tokens) tokens))"

section \<open>Consumption and termination\<close>

lemma perr_neq [simp]: "perr tok msg \<noteq> Some (Inr r)" "perr tok msg \<noteq> None" "answers (perr tok msg)"
  by (simp_all add: perr_def)

lemma length_next_tok: "length (next_tok ts) = length ts - 1"
  by (cases ts) (simp_all add: next_tok_def)

lemma peek_tok_not_EOF: "tk_type (peek_tok ts) \<noteq> TokenEOF \<Longrightarrow> 0 < length ts"
  by (cases ts) (simp_all add: peek_tok_def eof_token_def)

lemmas flow_induct = flow_seq_loop_flow_map_loop_parseFlowSequence_parseFlowMapping_parseFlowValue.induct
lemmas block_induct = map_loop_parseBlockMapping_parseMappingValue_seq_loop_parseBlockSequence_parseSequenceItem.induct

lemma flow_consumes:
  "flow_seq_loop n line col cs ts = Some (Inr (x, ts')) \<Longrightarrow> length ts' < length ts"
  "flow_map_loop n line col ps ts = Some (Inr (x, ts')) \<Longrightarrow> length ts' < length ts"
  "parseFlowSequence n ts = Some (Inr (x, ts')) \<Longrightarrow> length ts' < length ts"
  "parseFlowMapping n ts = Some (Inr (x, ts')) \<Longrightarrow> length ts' < length ts"
  "parseFlowValue n ts = Some (Inr (x, ts')) \<Longrightarrow> length ts' < length ts"
proof (induction n line col cs ts and n line col ps ts and n ts and n ts and n ts
    arbitrary: x ts' and x ts' and x ts' and x ts' and x ts' rule: flow_induct)
  case (2 n line col cs ts)
  then show ?case
    using peek_tok_not_EOF[of ts]
    by (fastforce simp: Let_def length_next_tok pbind_eq_Inr split: if_splits)
next
  case (4 n line col ps ts)
  then show ?case
    using peek_tok_not_EOF[of ts]
    by (fastforce simp: Let_def length_next_tok pbind_eq_Inr split: if_splits)
next
  case (10 n ts)
  then show ?case
    using peek_tok_not_EOF[of ts]
    by (fastforce simp: Let_def length_next_tok split: token_type.splits)
qed (auto simp: length_next_tok)

lemma block_consumes:
  "map_loop n mi ki fk line col ps ts = Some (Inr (x, ts')) \<Longrightarrow> length ts' \<le> length ts"
  "parseBlockMapping n mi ts = Some (Inr (x, ts')) \<Longrightarrow> length ts' \<le> length ts"
  "parseMappingValue n ki ts = Some (Inr (x, ts')) \<Longrightarrow> length ts' \<le> length ts"
  "seq_loop n si line col cs ts = Some (Inr (x, ts')) \<Longrightarrow> length ts' \<le> length ts"
  "parseBlockSequence n mi ts = Some (Inr (x, ts')) \<Longrightarrow> length ts' \<le> length ts"
  "parseSequenceItem n si ts = Some (Inr (x, ts')) \<Longrightarrow> length ts' \<le> length ts"
proof (induction n mi ki fk line col ps ts and n mi ts and n ki ts and n si line col cs ts and n mi ts and n si ts
    arbitrary: x ts' and x ts' and x ts' and x ts' and x ts' and x ts' rule: block_induct)
  case (2 n mi ki fk line col ps ts)
  then show ?case
    by (fastforce simp: Let_def length_next_tok pbind_eq_Inr split: option.splits)
next
  case (6 n ki ts)
  then show ?case
    by (fastforce simp: Let_def length_next_tok split: token_type.splits if_splits dest: flow_consumes)
next
  case (8 n si line col cs ts)
  then show ?case
    by (fastforce simp: Let_def length_next_tok pbind_eq_Inr split: if_splits)
next
  case (12 n si ts)
  then show ?case
    by (fastforce simp: Let_def length_next_tok split: token_type.splits dest: flow_consumes)
qed (auto simp: Let_def)

text \<open>Enough fuel.\<close>

lemma tok_simps [simp]:
  "tk_type (peek_tok []) = TokenEOF" "next_tok (t # ts) = ts" "peek_tok (t # ts) = t"
  by (simp_all add: peek_tok_def eof_token_def next_tok_def)

lemma flow_enough:
  "4 * length ts + 4 \<le> n \<Longrightarrow> answers (flow_seq_loop n line col cs ts)"
  "4 * length ts + 4 \<le> n \<Longrightarrow> answers (flow_map_loop n line col ps ts)"
  "ts \<noteq> [] \<Longrightarrow> 4 * length ts + 2 \<le> n \<Longrightarrow> answers (parseFlowSequence n ts)"
  "ts \<noteq> [] \<Longrightarrow> 4 * length ts + 2 \<le> n \<Longrightarrow> answers (parseFlowMapping n ts)"
  "4 * length ts + 3 \<le> n \<Longrightarrow> answers (parseFlowValue n ts)"
proof (induction n line col cs ts and n line col ps ts and n ts and n ts and n ts rule: flow_induct)
  case (2 n line col cs ts)
  show ?case
  proof (cases ts)
    case (Cons t r)
    have "answers (flow_seq_loop n line col (cs @ [x]) ts')"
      if "parseFlowValue n ts = Some (Inr (x, ts'))" "tk_type t \<noteq> TokenFlowSequenceEnd"
         "tk_type t \<noteq> TokenEOF" "tk_type t \<noteq> TokenFlowComma" for x ts'
      using 2(3)[OF refl _ _ _, of ts' x] flow_consumes(5)[OF that(1)] 2(4) that Cons by simp
    with 2 Cons show ?thesis by (auto simp: Let_def)
  qed (simp add: Let_def)
next
  case (4 n line col ps ts)
  show ?case
  proof (cases ts)
    case (Cons t r)
    have "answers (flow_map_loop n line col (ps @ [(tk_value t, x)]) ts')"
      if "parseFlowValue n r = Some (Inr (x, ts'))" "tk_type t = TokenMappingKey"
        "tk_type (peek_tok r) \<noteq> TokenFlowMappingEnd" "tk_type (peek_tok r) \<noteq> TokenFlowComma" for x ts'
      using 4(4)[OF refl, of "next_tok ts" "peek_tok (next_tok ts)" ts' x] that
        flow_consumes(5)[OF that(1)] 4(6) Cons by simp
    with 4 Cons show ?thesis by (auto simp: Let_def)
  qed (simp add: Let_def)
next
  case (6 n ts)
  then show ?case by (cases ts) auto
next
  case (8 n ts)
  then show ?case by (cases ts) auto
next
  case (10 n ts)
  then show ?case by (cases ts) (auto simp: Let_def split: token_type.splits)
qed auto

lemma block_enough:
  "4 * length ts + 4 \<le> n \<Longrightarrow> answers (map_loop n mi ki fk line col ps ts)"
  "4 * length ts + 5 \<le> n \<Longrightarrow> answers (parseBlockMapping n mi ts)"
  "4 * length ts + 6 \<le> n \<Longrightarrow> answers (parseMappingValue n ki ts)"
  "4 * length ts + 4 \<le> n \<Longrightarrow> answers (seq_loop n si line col cs ts)"
  "4 * length ts + 5 \<le> n \<Longrightarrow> answers (parseBlockSequence n mi ts)"
  "4 * length ts + 6 \<le> n \<Longrightarrow> answers (parseSequenceItem n si ts)"
proof (induction n mi ki fk line col ps ts and n mi ts and n ki ts and n si line col cs ts and n mi ts and n si ts
    rule: block_induct)
  case (2 n mi ki fk line col ps ts)
  show ?case
  proof (cases "next_mapIndent mi ki fk (length ps) (peek_tok ts)")
    case None
    then show ?thesis by (simp add: Let_def)
  next
    case (Some m)
    then have "tk_type (peek_tok ts) = TokenMappingKey" by (auto simp: next_mapIndent_def split: if_splits)
    then obtain t r where ts: "ts = t # r" by (cases ts) simp_all
    have "answers (map_loop n mi m False line col (ps @ [(tk_value t, x)]) ts')"
      if "parseMappingValue n m r = Some (Inr (x, ts'))" for x ts'
      using 2(2)[OF refl Some, of ts' x] block_consumes(3)[OF that] 2(3) ts by simp
    then show ?thesis using 2(1)[OF refl Some] 2(3) Some ts by (simp add: Let_def)
  qed
next
  case (6 n ki ts)
  then show ?case
    using flow_enough(3,4)[of ts n] by (cases ts) (auto simp: Let_def split: token_type.splits)
next
  case (8 n si line col cs ts)
  show ?case
  proof (cases "tk_type (peek_tok ts) \<noteq> TokenSequenceEntry \<or> tk_indent (peek_tok ts) \<noteq> si")
    case True
    then show ?thesis by (simp add: Let_def)
  next
    case False
    then obtain t r where ts: "ts = t # r" by (cases ts) simp_all
    have "answers (seq_loop n si line col (cs @ [x]) ts')"
      if "parseSequenceItem n si r = Some (Inr (x, ts'))" for x ts'
      using 8(2)[OF refl False, of ts' x] block_consumes(6)[OF that] 8(3) ts by simp
    then show ?thesis using 8(1)[OF refl False] 8(3) False ts by (simp add: Let_def)
  qed
next
  case (12 n si ts)
  then show ?case
    using flow_enough(3,4)[of ts n] by (cases ts) (auto simp: Let_def split: token_type.splits)
qed (auto simp: Let_def answers_def simp del: not_None_eq)

lemma parseDocument_enough: "parse_fuel ts \<le> n \<Longrightarrow> answers (parseDocument n ts)"
  using flow_enough(3,4)[of ts n] block_enough(2,5)[of ts n]
  by (cases ts) (auto simp: parseDocument_def parseNode_def parse_fuel_def Let_def split: token_type.splits)

text \<open>C2: parsing always answers. On every input, well formed or not, \<open>Parse\<close> returns a tree or an
  error: neither the scanner's loop nor the parser's mutual recursion runs out of its fuel.\<close>

theorem Parse_total: "\<exists>r. Parse input = Some r"
  using parseDocument_enough[OF order.refl] by (auto simp: Parse_def answers_def split: sum.splits)

end
