(* ===== verification/Go_Float.thy ===== *)
theory Go_Float
  imports Go_Prelude
begin

text \<open>
  Go's \<open>float64\<close>: IEEE 754 binary64 with round-to-nearest-even, as the components use it. A finite
  number is the rational it denotes, with negative zero apart; \<open>round_f64\<close> rounds a rational to the
  nearest double, and every operation is the exact one followed by it. Payloads of NaN are not
  told apart. \<open>f64_to_int\<close> is Go's conversion to \<open>int\<close>; where Go leaves the result to the
  implementation (NaN, out of range) it is what amd64 gives, the smallest integer.
\<close>

datatype f64 = Fin rat | NegZero | PInf | NInf | NaN

section \<open>Rounding\<close>

function ilog2 :: "int \<Rightarrow> int" where
  "ilog2 n = (if n < 2 then 0 else 1 + ilog2 (n div 2))"
  by pat_completeness auto
termination
  by (relation "measure nat") auto

declare ilog2.simps [simp del]

definition pow2 :: "int \<Rightarrow> rat" where
  "pow2 k = (if 0 \<le> k then 2 ^ nat k else 1 / 2 ^ nat (- k))"

definition round_half_even :: "rat \<Rightarrow> int" where
  "round_half_even q =
     (let f = \<lfloor>q\<rfloor>; d = q - of_int f in
      if d < 1 / 2 then f else if d > 1 / 2 then f + 1 else if even f then f else f + 1)"

text \<open>The exponent of the unit in the last place of a positive rational.\<close>

definition ulp_exp :: "rat \<Rightarrow> int" where
  "ulp_exp q =
     (case quotient_of q of (a, b) \<Rightarrow>
        let e0 = ilog2 a - ilog2 b;
            e = (if pow2 e0 \<le> q then e0 else e0 - 1)
        in max (e - 52) (- 1074))"

definition round_pos :: "rat \<Rightarrow> rat" where
  "round_pos q = (let u = ulp_exp q in of_int (round_half_even (q / pow2 u)) * pow2 u)"

definition round_f64 :: "rat \<Rightarrow> f64" where
  "round_f64 q =
     (if q = 0 then Fin 0
      else (let r = round_pos \<bar>q\<bar> in
        if r \<ge> 2 ^ 1024 then (if q > 0 then PInf else NInf)
        else if r = 0 then (if q > 0 then Fin 0 else NegZero)
        else Fin (if q > 0 then r else - r)))"

section \<open>Operations\<close>

text \<open>The rational a finite number denotes.\<close>

fun rat_of :: "f64 \<Rightarrow> rat" where
  "rat_of (Fin q) = q"
| "rat_of _ = 0"

fun is_fin :: "f64 \<Rightarrow> bool" where
  "is_fin (Fin q) = True"
| "is_fin NegZero = True"
| "is_fin _ = False"

fun sign_neg :: "f64 \<Rightarrow> bool" where
  "sign_neg (Fin q) = (q < 0)"
| "sign_neg NegZero = True"
| "sign_neg NInf = True"
| "sign_neg _ = False"

fun f64_neg :: "f64 \<Rightarrow> f64" where
  "f64_neg (Fin q) = (if q = 0 then NegZero else Fin (- q))"
| "f64_neg NegZero = Fin 0"
| "f64_neg PInf = NInf"
| "f64_neg NInf = PInf"
| "f64_neg NaN = NaN"

fun f64_abs :: "f64 \<Rightarrow> f64" where
  "f64_abs (Fin q) = Fin \<bar>q\<bar>"
| "f64_abs NegZero = Fin 0"
| "f64_abs NaN = NaN"
| "f64_abs _ = PInf"

definition f64_eq :: "f64 \<Rightarrow> f64 \<Rightarrow> bool" where
  "f64_eq x y = (if is_fin x \<and> is_fin y then rat_of x = rat_of y else x = y \<and> x \<noteq> NaN)"

definition f64_lt :: "f64 \<Rightarrow> f64 \<Rightarrow> bool" where
  "f64_lt x y =
     (if x = NaN \<or> y = NaN then False
      else if is_fin x \<and> is_fin y then rat_of x < rat_of y
      else x \<noteq> y \<and> (x = NInf \<or> y = PInf))"

definition f64_le :: "f64 \<Rightarrow> f64 \<Rightarrow> bool" where
  "f64_le x y \<longleftrightarrow> f64_lt x y \<or> f64_eq x y"

definition signed_zero :: "bool \<Rightarrow> f64" where
  "signed_zero neg = (if neg then NegZero else Fin 0)"

definition signed_inf :: "bool \<Rightarrow> f64" where
  "signed_inf neg = (if neg then NInf else PInf)"

definition f64_add :: "f64 \<Rightarrow> f64 \<Rightarrow> f64" where
  "f64_add x y =
     (if x = NaN \<or> y = NaN then NaN
      else if is_fin x \<and> is_fin y then
        (if x = NegZero \<and> y = NegZero then NegZero else round_f64 (rat_of x + rat_of y))
      else if is_fin x then y
      else if is_fin y then x
      else if x = y then x else NaN)"

definition f64_sub :: "f64 \<Rightarrow> f64 \<Rightarrow> f64" where
  "f64_sub x y = f64_add x (f64_neg y)"

definition f64_mul :: "f64 \<Rightarrow> f64 \<Rightarrow> f64" where
  "f64_mul x y =
     (let neg = (sign_neg x \<noteq> sign_neg y) in
      if x = NaN \<or> y = NaN then NaN
      else if is_fin x \<and> is_fin y then
        (if rat_of x = 0 \<or> rat_of y = 0 then signed_zero neg else round_f64 (rat_of x * rat_of y))
      else if (is_fin x \<and> rat_of x = 0) \<or> (is_fin y \<and> rat_of y = 0) then NaN
      else signed_inf neg)"

definition f64_div :: "f64 \<Rightarrow> f64 \<Rightarrow> f64" where
  "f64_div x y =
     (let neg = (sign_neg x \<noteq> sign_neg y) in
      if x = NaN \<or> y = NaN then NaN
      else if is_fin x \<and> is_fin y then
        (if rat_of y = 0 then (if rat_of x = 0 then NaN else signed_inf neg)
         else if rat_of x = 0 then signed_zero neg
         else round_f64 (rat_of x / rat_of y))
      else if is_fin x then signed_zero neg
      else if is_fin y then signed_inf neg
      else NaN)"

text \<open>\<open>float64(n)\<close> and \<open>int(x)\<close>.\<close>

definition f64_of_int :: "int \<Rightarrow> f64" where
  "f64_of_int n = round_f64 (of_int n)"

definition trunc_rat :: "rat \<Rightarrow> int" where
  "trunc_rat q = (if 0 \<le> q then \<lfloor>q\<rfloor> else \<lceil>q\<rceil>)"

definition f64_to_int :: "f64 \<Rightarrow> int" where
  "f64_to_int x = (if is_fin x \<and> in_int64 (trunc_rat (rat_of x)) then trunc_rat (rat_of x) else - (2 ^ 63))"

text \<open>\<open>math.Floor\<close>, \<open>math.Ceil\<close> and \<open>math.Round\<close> (halves away from zero).\<close>

definition integral :: "(rat \<Rightarrow> int) \<Rightarrow> f64 \<Rightarrow> f64" where
  "integral f x =
     (case x of
        Fin q \<Rightarrow> if f q = 0 then signed_zero (q < 0) else Fin (of_int (f q))
      | _ \<Rightarrow> x)"

definition f64_floor :: "f64 \<Rightarrow> f64" where "f64_floor = integral floor"
definition f64_ceil :: "f64 \<Rightarrow> f64" where "f64_ceil = integral ceiling"

definition round_away :: "rat \<Rightarrow> int" where
  "round_away q = (if 0 \<le> q then \<lfloor>q + 1 / 2\<rfloor> else \<lceil>q - 1 / 2\<rceil>)"

definition f64_round :: "f64 \<Rightarrow> f64" where "f64_round = integral round_away"

definition f64_min :: "f64 \<Rightarrow> f64 \<Rightarrow> f64" where
  "f64_min x y =
     (if x = NInf \<or> y = NInf then NInf
      else if x = NaN \<or> y = NaN then NaN
      else if f64_eq x (Fin 0) \<and> f64_eq y (Fin 0) then (if sign_neg x then x else y)
      else if f64_lt x y then x else y)"

definition f64_max :: "f64 \<Rightarrow> f64 \<Rightarrow> f64" where
  "f64_max x y =
     (if x = PInf \<or> y = PInf then PInf
      else if x = NaN \<or> y = NaN then NaN
      else if f64_eq x (Fin 0) \<and> f64_eq y (Fin 0) then (if sign_neg x then y else x)
      else if f64_lt x y then y else x)"

section \<open>Integers are exact up to 2^53\<close>

lemma ilog2_nonneg: "0 \<le> ilog2 n"
  by (induction n rule: ilog2.induct) (simp add: ilog2.simps)

lemma ilog2_bounds: "1 \<le> n \<Longrightarrow> 2 ^ nat (ilog2 n) \<le> n \<and> n < 2 ^ (nat (ilog2 n) + 1)"
proof (induction n rule: ilog2.induct)
  case (1 n)
  show ?case
  proof (cases "n < 2")
    case False
    then have IH: "2 ^ nat (ilog2 (n div 2)) \<le> n div 2" "n div 2 < 2 ^ (nat (ilog2 (n div 2)) + 1)"
      using "1.IH" by auto
    have "nat (ilog2 n) = Suc (nat (ilog2 (n div 2)))"
      using False ilog2_nonneg[of "n div 2"] by (simp add: ilog2.simps[of n])
    with IH show ?thesis by simp linarith
  qed (use 1 in \<open>simp add: ilog2.simps\<close>)
qed

lemma round_half_even_int [simp]: "round_half_even (of_int k) = k"
  by (simp add: round_half_even_def)

lemma pow2_pos [simp]: "0 < pow2 k" "pow2 k \<noteq> 0"
  by (simp_all add: pow2_def)

lemma round_pos_exact:
  assumes "q / pow2 (ulp_exp q) = of_int k"
  shows "round_pos q = q"
  unfolding round_pos_def Let_def assms round_half_even_int using assms by (simp add: field_simps)

lemma ulp_exp_int:
  assumes "1 \<le> n"
  shows "ulp_exp (of_int n) = ilog2 n - 52"
proof -
  have "ilog2 1 = 0" by (simp add: ilog2.simps)
  moreover have "pow2 (ilog2 n) \<le> of_int n"
    using ilog2_bounds[OF assms] ilog2_nonneg[of n]
    by (simp add: pow2_def)
  ultimately show ?thesis using ilog2_nonneg[of n]
    by (simp add: ulp_exp_def quotient_of_int Let_def)
qed

lemma round_pos_int:
  assumes "1 \<le> n" "n \<le> 2 ^ 53"
  shows "round_pos (of_int n) = of_int n"
proof (cases "n = 2 ^ 53")
  case True
  have "ilog2 n = 53" unfolding True by (simp add: ilog2.simps)
  then have "of_int n / pow2 (ulp_exp (of_int n)) = of_int (2 ^ 52)"
    unfolding ulp_exp_int[OF assms(1)] by (simp add: True pow2_def)
  then show ?thesis by (rule round_pos_exact)
next
  case False
  then have "2 ^ nat (ilog2 n) < (2::int) ^ 53"
    using ilog2_bounds[OF assms(1)] assms(2) by linarith
  then have le: "ilog2 n \<le> 52"
    using power_less_imp_less_exp[of "2::int" "nat (ilog2 n)" 53] by simp
  let ?d = "nat (52 - ilog2 n)"
  have "of_int n / pow2 (ulp_exp (of_int n)) = of_int (n * 2 ^ ?d)"
    unfolding ulp_exp_int[OF assms(1)] using le by (cases "ilog2 n = 52") (simp_all add: pow2_def)
  then show ?thesis by (rule round_pos_exact)
qed

lemma round_f64_int:
  assumes "\<bar>n\<bar> \<le> 2 ^ 53"
  shows "round_f64 (of_int n) = Fin (of_int n)"
proof (cases "n = 0")
  case False
  have r: "round_pos \<bar>of_int n\<bar> = of_int \<bar>n\<bar>"
    using round_pos_int[of "\<bar>n\<bar>"] False assms by simp
  have "(of_int \<bar>n\<bar> :: rat) \<le> 2 ^ 53"
    using assms by (metis of_int_le_iff of_int_numeral of_int_power)
  also have "(2::rat) ^ 53 < 2 ^ 1024" by (rule power_strict_increasing) simp_all
  finally have "of_int \<bar>n\<bar> < (2::rat) ^ 1024" .
  with r False show ?thesis by (simp add: round_f64_def Let_def)
qed (simp add: round_f64_def)

lemma f64_of_int_exact: "\<bar>n\<bar> \<le> 2 ^ 53 \<Longrightarrow> f64_of_int n = Fin (of_int n)"
  by (simp only: f64_of_int_def round_f64_int)

lemma trunc_rat_int [simp]: "trunc_rat (of_int n) = n"
  by (simp add: trunc_rat_def)

lemma f64_to_of_int: "\<bar>n\<bar> \<le> 2 ^ 53 \<Longrightarrow> f64_to_int (f64_of_int n) = n"
  by (simp add: f64_of_int_exact f64_to_int_def in_int64_def abs_le_iff)

text \<open>The first integer that is not exact.\<close>

lemma f64_of_int_2p53: "f64_of_int 9007199254740993 = Fin 9007199254740992"
proof -
  have "ilog2 9007199254740993 = 53" by (simp add: ilog2.simps)
  then have u: "ulp_exp (of_int 9007199254740993) = 1"
    by (subst ulp_exp_int) simp_all
  have f: "\<lfloor>(9007199254740993 :: rat) / 2\<rfloor> = 4503599627370496" by (simp add: floor_divide_of_int_eq[of 9007199254740993 2, simplified])
  have "round_half_even (9007199254740993 / 2) = 4503599627370496"
    by (simp add: round_half_even_def f Let_def)
  with u have "round_pos 9007199254740993 = 9007199254740992"
    by (simp add: round_pos_def Let_def pow2_def)
  then show ?thesis by (simp add: f64_of_int_def round_f64_def Let_def)
qed

lemma f64_of_int_not_NaN [simp]: "f64_of_int n \<noteq> NaN"
  by (simp add: f64_of_int_def round_f64_def Let_def)

section \<open>The comparisons\<close>

lemma f64_eq_sym: "f64_eq x y \<longleftrightarrow> f64_eq y x"
  by (auto simp: f64_eq_def)

lemma f64_not_NaN: "f64_eq x x \<longleftrightarrow> x \<noteq> NaN"
  by (cases x) (simp_all add: f64_eq_def)

lemma f64_lt_irrefl [simp]: "\<not> f64_lt x x"
  by (simp add: f64_lt_def)

lemma f64_lt_trans: "f64_lt x y \<Longrightarrow> f64_lt y z \<Longrightarrow> f64_lt x z"
  by (cases x; cases y; cases z) (auto simp: f64_lt_def)

lemma f64_trichotomy: "x \<noteq> NaN \<Longrightarrow> y \<noteq> NaN \<Longrightarrow> f64_lt x y \<or> f64_eq x y \<or> f64_lt y x"
  by (cases x; cases y) (auto simp: f64_lt_def f64_eq_def)

lemma f64_lt_asym: "f64_lt x y \<Longrightarrow> \<not> f64_le y x"
  by (cases x; cases y) (auto simp: f64_lt_def f64_eq_def f64_le_def)

lemma f64_not_lt: "x \<noteq> NaN \<Longrightarrow> y \<noteq> NaN \<Longrightarrow> \<not> f64_lt x y \<longleftrightarrow> f64_le y x"
  using f64_trichotomy[of x y] f64_lt_asym[of x y] f64_eq_sym[of x y] by (auto simp: f64_le_def)

lemma f64_NaN [simp]: "\<not> f64_lt NaN x" "\<not> f64_lt x NaN" "\<not> f64_eq NaN x" "\<not> f64_eq x NaN"
  by (auto simp: f64_lt_def f64_eq_def)

end
