(* ===== verification/Go_Strings.thy ===== *)
theory Go_Strings
  imports Go_Prelude
begin

text \<open>
  The functions of \<open>strings\<close>, \<open>strconv\<close> and the conversions between strings and rune slices
  that the components use. The Unicode tables are not written out: the case mapping and the classes
  of runes outside ASCII are arguments of the functions that consult them.
\<close>

section \<open>Substrings\<close>

definition has_prefix :: "string \<Rightarrow> string \<Rightarrow> bool" where
  "has_prefix s p \<longleftrightarrow> take (length p) s = p"

definition has_suffix :: "string \<Rightarrow> string \<Rightarrow> bool" where
  "has_suffix s p \<longleftrightarrow> length p \<le> length s \<and> drop (length s - length p) s = p"

text \<open>\<open>strings.Index\<close>; \<^const>\<open>None\<close> is -1.\<close>

fun index_of :: "string \<Rightarrow> string \<Rightarrow> nat option" where
  "index_of p [] = (if p = [] then Some 0 else None)"
| "index_of p (c # cs) = (if has_prefix (c # cs) p then Some 0 else map_option Suc (index_of p cs))"

definition contains :: "string \<Rightarrow> string \<Rightarrow> bool" where
  "contains s p \<longleftrightarrow> index_of p s \<noteq> None"

lemma has_prefix_iff: "has_prefix s p \<longleftrightarrow> (\<exists>r. s = p @ r)"
  unfolding has_prefix_def by (metis append_eq_conv_conj append_take_drop_id)

lemma has_suffix_iff: "has_suffix s p \<longleftrightarrow> (\<exists>r. s = r @ p)"
proof
  assume "has_suffix s p"
  then have "s = take (length s - length p) s @ p"
    unfolding has_suffix_def by (metis append_take_drop_id)
  then show "\<exists>r. s = r @ p" by blast
qed (auto simp: has_suffix_def)

lemma index_of_Some: "index_of p s = Some i \<Longrightarrow> \<exists>a b. s = a @ p @ b \<and> length a = i"
proof (induction s arbitrary: i)
  case Nil
  then show ?case by (auto split: if_splits)
next
  case (Cons c cs)
  show ?case
  proof (cases "has_prefix (c # cs) p")
    case True
    with Cons.prems show ?thesis by (auto simp: has_prefix_iff)
  next
    case False
    with Cons.prems obtain j where "index_of p cs = Some j" "i = Suc j" by auto
    with Cons.IH obtain a b where "cs = a @ p @ b" "length a = j" by blast
    with \<open>i = Suc j\<close> show ?thesis by (intro exI[of _ "c # a"] exI[of _ b]) simp
  qed
qed

lemma index_of_append: "index_of p (a @ p @ b) \<noteq> None"
proof (induction a)
  case Nil
  have "has_prefix (p @ b) p" by (auto simp: has_prefix_iff)
  then show ?case by (cases "p @ b") simp_all
next
  case (Cons x a)
  then show ?case by auto
qed

lemma contains_iff: "contains s p \<longleftrightarrow> (\<exists>a b. s = a @ p @ b)"
  unfolding contains_def using index_of_Some index_of_append by (metis not_None_eq)

text \<open>\<open>strings.Split(s, sep)\<close> for a separator of one character.\<close>

fun split_on :: "char \<Rightarrow> string \<Rightarrow> string list" where
  "split_on d [] = [[]]"
| "split_on d (c # cs) =
     (if c = d then [] # split_on d cs
      else (case split_on d cs of p # ps \<Rightarrow> (c # p) # ps | [] \<Rightarrow> [[c]]))"

fun join_on :: "char \<Rightarrow> string list \<Rightarrow> string" where
  "join_on d [] = []"
| "join_on d [p] = p"
| "join_on d (p # ps) = p @ d # join_on d ps"

lemma split_on_ne [simp]: "split_on d s \<noteq> []"
  by (induction s) (auto split: list.splits)

lemma join_split [simp]: "join_on d (split_on d s) = s"
proof (induction s)
  case (Cons c cs)
  then show ?case
    by (cases "split_on d cs" rule: remdups_adj.cases) (auto split: list.splits)
qed simp

lemma split_on_append: "d \<notin> set p \<Longrightarrow> split_on d (p @ d # s) = p # split_on d s"
  by (induction p) auto

lemma split_on_none: "d \<notin> set p \<Longrightarrow> split_on d p = [p]"
  by (induction p) auto

lemma split_join: "\<forall>p \<in> set ps. d \<notin> set p \<Longrightarrow> ps \<noteq> [] \<Longrightarrow> split_on d (join_on d ps) = ps"
  by (induction d ps rule: join_on.induct) (auto simp: split_on_append split_on_none)

section \<open>Decimal numbers\<close>

definition digit_char :: "nat \<Rightarrow> char" where
  "digit_char d = char_of (48 + d)"

definition is_digit :: "char \<Rightarrow> bool" where
  "is_digit c \<longleftrightarrow> 48 \<le> rn c \<and> rn c \<le> 57"

definition digit_val :: "char \<Rightarrow> nat" where
  "digit_val c = rn c - 48"

fun utoa :: "nat \<Rightarrow> string" where
  "utoa n = (if n < 10 then [digit_char n] else utoa (n div 10) @ [digit_char (n mod 10)])"

declare utoa.simps [simp del]

text \<open>\<open>%d\<close> of an integer.\<close>

definition itoa :: "int \<Rightarrow> string" where
  "itoa i = (if i < 0 then CHR ''-'' # utoa (nat (- i)) else utoa (nat i))"

definition digits_val :: "string \<Rightarrow> nat" where
  "digits_val s = foldl (\<lambda>n c. n * 10 + digit_val c) 0 s"

lemma rn_digit_char: "d < 10 \<Longrightarrow> rn (digit_char d) = 48 + d"
  by (simp add: digit_char_def)

lemma digit_val_char [simp]: "d < 10 \<Longrightarrow> digit_val (digit_char d) = d"
  by (simp add: digit_val_def rn_digit_char)

lemma is_digit_char [simp]: "d < 10 \<Longrightarrow> is_digit (digit_char d)"
  by (simp add: is_digit_def rn_digit_char)

lemma digits_val_append: "digits_val (s @ [c]) = digits_val s * 10 + digit_val c"
  by (simp add: digits_val_def)

lemma digits_val_utoa [simp]: "digits_val (utoa n) = n"
proof (induction n rule: utoa.induct)
  case (1 n)
  then show ?case
    by (cases "n < 10") (simp_all add: utoa.simps[of n] digits_val_append, simp add: digits_val_def)
qed

lemma utoa_digits: "\<forall>c \<in> set (utoa n). is_digit c"
proof (induction n rule: utoa.induct)
  case (1 n)
  then show ?case by (cases "n < 10") (auto simp: utoa.simps[of n])
qed

lemma utoa_ne [simp]: "utoa n \<noteq> []"
  by (simp add: utoa.simps[of n])

section \<open>Runes\<close>

text \<open>\<open>[]rune(s)\<close> and \<open>string(rs)\<close>.\<close>

function runes_of :: "string \<Rightarrow> nat list" where
  "runes_of s = (if s = [] then [] else (case decode_rune s of (r, w) \<Rightarrow> r # runes_of (drop w s)))"
  by pat_completeness auto
termination
  by (relation "measure length") (auto dest!: decode_rune_pos[OF _ sym])

declare runes_of.simps [simp del]

definition string_of_runes :: "nat list \<Rightarrow> string" where
  "string_of_runes rs = concat (map encode_rune rs)"

lemma runes_of_Nil [simp]: "runes_of [] = []"
  by (simp add: runes_of.simps)

lemma encode_rune_ne [simp]: "encode_rune r \<noteq> []"
  by (simp add: encode_rune_def Let_def)

lemma runes_of_encode: "valid_rune r \<Longrightarrow> runes_of (encode_rune r @ s) = r # runes_of s"
  by (subst runes_of.simps) (simp add: decode_encode)

lemma runes_of_string_of_runes: "\<forall>r \<in> set rs. valid_rune r \<Longrightarrow> runes_of (string_of_runes rs) = rs"
  by (induction rs) (simp_all add: string_of_runes_def runes_of_encode)

lemma runes_of_ascii: "\<forall>c \<in> set s. is_ascii c \<Longrightarrow> runes_of s = map rn s"
proof (induction s)
  case (Cons c s)
  then show ?case by (simp add: runes_of.simps[of "c # s"] decode_rune_ascii del: decode_rune.simps)
qed simp

lemma length_runes_of: "length (runes_of s) \<le> length s"
proof (induction s rule: runes_of.induct)
  case (1 s)
  show ?case
  proof (cases "s = []")
    case False
    obtain r w where d: "decode_rune s = (r, w)" by fastforce
    with False have "0 < w" "w \<le> length s" using decode_rune_pos by blast+
    with 1[OF False d[symmetric]] d False show ?thesis by (subst runes_of.simps) simp
  qed simp
qed

text \<open>\<open>unicode.IsSpace\<close>.\<close>

definition is_space_rune :: "nat \<Rightarrow> bool" where
  "is_space_rune r \<longleftrightarrow> (9 \<le> r \<and> r \<le> 13) \<or> r = 32 \<or> r = 133 \<or> r = 160 \<or> r = 5760
     \<or> (8192 \<le> r \<and> r \<le> 8202) \<or> r = 8232 \<or> r = 8233 \<or> r = 8239 \<or> r = 8287 \<or> r = 12288"

text \<open>\<open>unicode.IsLetter\<close>, \<open>IsDigit\<close>, \<open>ToUpper\<close> and \<open>ToLower\<close>; \<open>uc\<close> is the table for the runes outside ASCII.\<close>

record unicode_classes =
  uc_letter :: "nat \<Rightarrow> bool"
  uc_digit :: "nat \<Rightarrow> bool"
  uc_upper :: "nat \<Rightarrow> nat"
  uc_lower :: "nat \<Rightarrow> nat"

definition is_letter_rune :: "unicode_classes \<Rightarrow> nat \<Rightarrow> bool" where
  "is_letter_rune uc r \<longleftrightarrow>
     (if r < 128 then (65 \<le> r \<and> r \<le> 90) \<or> (97 \<le> r \<and> r \<le> 122) else uc_letter uc r)"

definition is_digit_rune :: "unicode_classes \<Rightarrow> nat \<Rightarrow> bool" where
  "is_digit_rune uc r \<longleftrightarrow> (if r < 128 then 48 \<le> r \<and> r \<le> 57 else uc_digit uc r)"

definition upper_rune :: "unicode_classes \<Rightarrow> nat \<Rightarrow> nat" where
  "upper_rune uc r = (if r < 128 then (if 97 \<le> r \<and> r \<le> 122 then r - 32 else r) else uc_upper uc r)"

definition lower_rune :: "unicode_classes \<Rightarrow> nat \<Rightarrow> nat" where
  "lower_rune uc r = (if r < 128 then (if 65 \<le> r \<and> r \<le> 90 then r + 32 else r) else uc_lower uc r)"

text \<open>Classes that know only ASCII, for concrete inputs.\<close>

definition ascii_classes :: unicode_classes where
  "ascii_classes = \<lparr>uc_letter = (\<lambda>_. False), uc_digit = (\<lambda>_. False), uc_upper = id, uc_lower = id\<rparr>"

text \<open>\<open>strings.ToUpper\<close> and \<open>strings.ToLower\<close>.\<close>

definition to_upper :: "unicode_classes \<Rightarrow> string \<Rightarrow> string" where
  "to_upper uc s = string_of_runes (map (upper_rune uc) (runes_of s))"

definition to_lower :: "unicode_classes \<Rightarrow> string \<Rightarrow> string" where
  "to_lower uc s = string_of_runes (map (lower_rune uc) (runes_of s))"

lemma to_lower_plain:
  "\<forall>c \<in> set s. is_ascii c \<and> \<not> (65 \<le> rn c \<and> rn c \<le> 90) \<Longrightarrow> to_lower uc s = s"
proof -
  assume h: "\<forall>c \<in> set s. is_ascii c \<and> \<not> (65 \<le> rn c \<and> rn c \<le> 90)"
  then have "runes_of s = map rn s" by (intro runes_of_ascii) blast
  moreover have "map (\<lambda>c. encode_rune (lower_rune uc (rn c))) s = map (\<lambda>c. [c]) s"
    using h by (intro map_cong) (auto simp: lower_rune_def is_ascii_def encode_rune_ascii[unfolded is_ascii_def])
  ultimately show ?thesis by (simp only: to_lower_def string_of_runes_def map_map comp_def concat_map_singleton map_ident)
qed

section \<open>Trimming and replacing\<close>

text \<open>The runes of a string, each with the bytes it was read from.\<close>

function rune_segs :: "string \<Rightarrow> (nat \<times> string) list" where
  "rune_segs s =
     (if s = [] then [] else (case decode_rune s of (r, w) \<Rightarrow> (r, take w s) # rune_segs (drop w s)))"
  by pat_completeness auto
termination
  by (relation "measure length") (auto dest!: decode_rune_pos[OF _ sym])

declare rune_segs.simps [simp del]

text \<open>\<open>strings.TrimSpace\<close>.\<close>

definition trim_segs :: "(nat \<times> string) list \<Rightarrow> (nat \<times> string) list" where
  "trim_segs segs =
     rev (dropWhile (\<lambda>(r, _). is_space_rune r) (rev (dropWhile (\<lambda>(r, _). is_space_rune r) segs)))"

definition trim_space :: "string \<Rightarrow> string" where
  "trim_space s = concat (map snd (trim_segs (rune_segs s)))"

lemma rune_segs_Nil [simp]: "rune_segs [] = []"
  by (simp add: rune_segs.simps)

lemma map_fst_rune_segs: "map fst (rune_segs s) = runes_of s"
proof (induction s rule: rune_segs.induct)
  case (1 s)
  then show ?case by (auto simp: rune_segs.simps[of s] runes_of.simps[of s] split: prod.splits)
qed

lemma concat_rune_segs [simp]: "concat (map snd (rune_segs s)) = s"
proof (induction s rule: rune_segs.induct)
  case (1 s)
  then show ?case by (auto simp: rune_segs.simps[of s] split: prod.splits)
qed

lemma trim_segs_split:
  "\<exists>a b. segs = a @ trim_segs segs @ b \<and> (\<forall>x \<in> set a \<union> set b. is_space_rune (fst x))"
proof -
  let ?P = "\<lambda>(r, _). is_space_rune r"
  define a m where "a = takeWhile ?P segs" and "m = dropWhile ?P segs"
  have s: "segs = a @ m" by (simp add: a_def m_def)
  have "rev m = takeWhile ?P (rev m) @ dropWhile ?P (rev m)" by simp
  then have "m = rev (dropWhile ?P (rev m)) @ rev (takeWhile ?P (rev m))" by (metis rev_append rev_rev_ident)
  moreover have "\<forall>x \<in> set a \<union> set (rev (takeWhile ?P (rev m))). is_space_rune (fst x)"
    unfolding a_def by (auto dest: set_takeWhileD)
  ultimately show ?thesis using s unfolding trim_segs_def m_def[symmetric] by blast
qed

lemma trim_segs_ends:
  "trim_segs segs \<noteq> [] \<Longrightarrow>
   \<not> is_space_rune (fst (hd (trim_segs segs))) \<and> \<not> is_space_rune (fst (last (trim_segs segs)))"
proof -
  let ?P = "\<lambda>(r, _). is_space_rune r"
  define m where "m = dropWhile ?P segs"
  assume "trim_segs segs \<noteq> []"
  then have ne: "dropWhile ?P (rev m) \<noteq> []" by (simp add: trim_segs_def m_def)
  then have l: "\<not> is_space_rune (fst (hd (dropWhile ?P (rev m))))"
    using hd_dropWhile[OF ne] by (simp add: case_prod_beta)
  have "m \<noteq> []" using ne by auto
  then have h: "\<not> is_space_rune (fst (hd m))"
    using hd_dropWhile[of ?P segs] by (simp add: m_def case_prod_beta)
  have "last (dropWhile ?P (rev m)) = hd m"
    using ne by (metis last_appendR last_rev takeWhile_dropWhile_id)
  then show ?thesis using l h ne by (simp add: trim_segs_def m_def[symmetric] hd_rev last_rev)
qed

text \<open>\<open>strings.ReplaceAll\<close>; an empty \<open>old\<close> matches before every rune and at the end.\<close>

function replace_from :: "string \<Rightarrow> string \<Rightarrow> string \<Rightarrow> string" where
  "replace_from old new s =
     (if old = [] then s
      else (case index_of old s of
          None \<Rightarrow> s
        | Some i \<Rightarrow> take i s @ new @ replace_from old new (drop (i + length old) s)))"
  by pat_completeness auto
termination
  by (relation "measure (\<lambda>(old, new, s). length s)") (auto dest!: index_of_Some)

declare replace_from.simps [simp del]

definition replace_all :: "string \<Rightarrow> string \<Rightarrow> string \<Rightarrow> string" where
  "replace_all s old new =
     (if old = [] then new @ concat (map (\<lambda>(_, bs). bs @ new) (rune_segs s)) else replace_from old new s)"

lemma replace_all_absent: "old \<noteq> [] \<Longrightarrow> \<not> contains s old \<Longrightarrow> replace_all s old new = s"
  by (simp add: replace_all_def replace_from.simps[of old new s] contains_def)

end
