(* ===== verification/Go_Value.thy ===== *)
theory Go_Value
  imports Go_Float Go_Strings
begin

text \<open>
  Go's dynamically typed values (\<open>any\<close>) as far as test data carries them: nil, booleans, the
  numeric types, strings, \<open>[]any\<close>, \<open>map[string]any\<close> and the header maps. Maps are association
  lists with distinct keys; two maps are equal when they associate the same values. Go's \<open>==\<close> on
  interface values panics on two maps or two slices of one type (\<^const>\<open>None\<close> below);
  \<open>reflect.DeepEqual\<close> is \<open>deep_equal\<close>.
\<close>

datatype num_kind = KInt | KInt8 | KInt16 | KInt32 | KInt64 | KUint | KUint8 | KUint16 | KUint32 | KUint64

datatype gov =
    GNil
  | GBool bool
  | GNum num_kind int
  | GFloat f64
  | GFloat32 f64
  | GDur int
  | GStr string
  | GList "gov list"
  | GMap "(string \<times> gov) list"
  | GStrs "string list"
  | GStrMap "(string \<times> string) list"
  | GHeaders "(string \<times> string list) list"

abbreviation GInt :: "int \<Rightarrow> gov" where "GInt \<equiv> GNum KInt"

section \<open>Types\<close>

fun kind_name :: "num_kind \<Rightarrow> string" where
  "kind_name KInt = ''int''" | "kind_name KInt8 = ''int8''" | "kind_name KInt16 = ''int16''"
| "kind_name KInt32 = ''int32''" | "kind_name KInt64 = ''int64''" | "kind_name KUint = ''uint''"
| "kind_name KUint8 = ''uint8''" | "kind_name KUint16 = ''uint16''" | "kind_name KUint32 = ''uint32''"
| "kind_name KUint64 = ''uint64''"

text \<open>\<open>%T\<close>.\<close>

fun type_name :: "gov \<Rightarrow> string" where
  "type_name GNil = ''<nil>''"
| "type_name (GBool b) = ''bool''"
| "type_name (GNum k i) = kind_name k"
| "type_name (GFloat x) = ''float64''"
| "type_name (GFloat32 x) = ''float32''"
| "type_name (GDur d) = ''time.Duration''"
| "type_name (GStr s) = ''string''"
| "type_name (GList xs) = ''[]interface {}''"
| "type_name (GMap m) = ''map[string]interface {}''"
| "type_name (GStrs ss) = ''[]string''"
| "type_name (GStrMap m) = ''map[string]string''"
| "type_name (GHeaders m) = ''map[string][]string''"

section \<open>Equality\<close>

text \<open>\<open>x == y\<close> on two interface values.\<close>

definition iface_eq :: "gov \<Rightarrow> gov \<Rightarrow> bool option" where
  "iface_eq x y =
     (case (x, y) of
        (GFloat a, GFloat b) \<Rightarrow> Some (f64_eq a b)
      | (GFloat32 a, GFloat32 b) \<Rightarrow> Some (f64_eq a b)
      | (GList _, GList _) \<Rightarrow> None
      | (GMap _, GMap _) \<Rightarrow> None
      | (GStrs _, GStrs _) \<Rightarrow> None
      | (GStrMap _, GStrMap _) \<Rightarrow> None
      | (GHeaders _, GHeaders _) \<Rightarrow> None
      | _ \<Rightarrow> Some (x = y))"

definition same_map :: "('a \<Rightarrow> 'b \<Rightarrow> bool) \<Rightarrow> (string \<times> 'a) list \<Rightarrow> (string \<times> 'b) list \<Rightarrow> bool" where
  "same_map eq m m' \<longleftrightarrow> length m = length m' \<and>
     list_all (\<lambda>(k, v). case map_of m' k of Some v' \<Rightarrow> eq v v' | None \<Rightarrow> False) m"

lemma same_map_cong [fundef_cong]:
  assumes "m = n" "m' = n'" "\<And>k v v'. (k, v) \<in> set n \<Longrightarrow> eq v v' = eq' v v'"
  shows "same_map eq m m' = same_map eq' n n'"
  unfolding same_map_def assms(1,2)
  by (intro conj_cong refl list.pred_cong) (auto simp: assms(3) split: option.splits)

text \<open>\<open>reflect.DeepEqual\<close>; a NaN is not equal to itself.\<close>

function deep_equal :: "gov \<Rightarrow> gov \<Rightarrow> bool" where
  "deep_equal x y =
     (case x of
        GFloat a \<Rightarrow> (case y of GFloat b \<Rightarrow> f64_eq a b | _ \<Rightarrow> False)
      | GFloat32 a \<Rightarrow> (case y of GFloat32 b \<Rightarrow> f64_eq a b | _ \<Rightarrow> False)
      | GList xs \<Rightarrow> (case y of GList ys \<Rightarrow> list_all2 deep_equal xs ys | _ \<Rightarrow> False)
      | GMap m \<Rightarrow> (case y of GMap m' \<Rightarrow> same_map deep_equal m m' | _ \<Rightarrow> False)
      | GStrMap m \<Rightarrow> (case y of GStrMap m' \<Rightarrow> same_map (=) m m' | _ \<Rightarrow> False)
      | GHeaders m \<Rightarrow> (case y of GHeaders m' \<Rightarrow> same_map (=) m m' | _ \<Rightarrow> False)
      | _ \<Rightarrow> x = y)"
  by pat_completeness auto
termination
  by (relation "measure (\<lambda>(x, y). size x)") (auto simp: less_Suc_eq_le size_member size_map_member)

declare deep_equal.simps [simp del]

lemma deep_equal_simps [simp]:
  "deep_equal GNil y \<longleftrightarrow> y = GNil"
  "deep_equal (GBool c) y \<longleftrightarrow> y = GBool c"
  "deep_equal (GNum k i) y \<longleftrightarrow> y = GNum k i"
  "deep_equal (GStr s) y \<longleftrightarrow> y = GStr s"
  "deep_equal (GDur d) y \<longleftrightarrow> y = GDur d"
  "deep_equal (GStrs ss) y \<longleftrightarrow> y = GStrs ss"
  "deep_equal (GFloat u) (GFloat w) \<longleftrightarrow> f64_eq u w"
  "deep_equal (GList xs) (GList ys) \<longleftrightarrow> list_all2 deep_equal xs ys"
  "deep_equal (GMap m) (GMap m') \<longleftrightarrow> same_map deep_equal m m'"
  by (auto simp: deep_equal.simps)

section \<open>Printing\<close>

text \<open>\<open>%v\<close> of a \<open>float64\<close> (\<open>strconv.FormatFloat(x, 'g', -1, 64)\<close> with exponents from 21 on): the
  shortest decimal that rounds to \<open>x\<close>, the nearest to \<open>x\<close> among those. A candidate is a number
  of \<open>n\<close> digits and a power of ten.\<close>

definition pow10 :: "int \<Rightarrow> rat" where
  "pow10 k = (if 0 \<le> k then 10 ^ nat k else 1 / 10 ^ nat (- k))"

function ilog10 :: "int \<Rightarrow> int" where
  "ilog10 n = (if n < 10 then 0 else 1 + ilog10 (n div 10))"
  by pat_completeness auto
termination
  by (relation "measure nat") auto

declare ilog10.simps [simp del]

text \<open>The decimal exponent \<open>e\<close> of a positive rational: \<open>10^e \<le> q < 10^(e+1)\<close>.\<close>

definition dec_exp :: "rat \<Rightarrow> int" where
  "dec_exp q = (if 1 \<le> q then ilog10 \<lfloor>q\<rfloor>
     else (let k = ilog10 (\<lfloor>1 / q\<rfloor>) in if 1 \<le> q * pow10 k then - k else - k - 1))"

fun shortest_from :: "nat \<Rightarrow> nat \<Rightarrow> rat \<Rightarrow> (int \<times> int)" where
  "shortest_from 0 n q = (round_half_even (q * pow10 (16 - dec_exp q)), dec_exp q - 16)"
| "shortest_from (Suc fuel) n q =
     (let s = dec_exp q - int n + 1; d = \<lfloor>q / pow10 s\<rfloor>;
          good = (\<lambda>m. round_f64 (of_int m * pow10 s) = Fin q) in
      if good d \<and> good (d + 1) then (round_half_even (q / pow10 s), s)
      else if good d then (d, s)
      else if good (d + 1) then (d + 1, s)
      else shortest_from fuel (Suc n) q)"

text \<open>The digits without trailing zeros and the exponent of the first one.\<close>

definition shortest :: "rat \<Rightarrow> string \<times> int" where
  "shortest q =
     (case shortest_from 16 1 q of (m, s) \<Rightarrow>
        let ds = utoa (nat m) in (rev (dropWhile (\<lambda>c. c = CHR ''0'') (rev ds)), s + int (length ds) - 1))"

definition exp_str :: "int \<Rightarrow> string" where
  "exp_str e = ''e'' @ (if e < 0 then ''-'' else ''+'')
     @ (let d = utoa (nat \<bar>e\<bar>) in if length d < 2 then ''0'' @ d else d)"

definition fmt_pos :: "rat \<Rightarrow> string" where
  "fmt_pos q =
     (case shortest q of (ds, e) \<Rightarrow>
        if e < -4 \<or> e \<ge> 21 then
          take 1 ds @ (if length ds > 1 then ''.'' @ drop 1 ds else []) @ exp_str e
        else if e < 0 then ''0.'' @ replicate (nat (- e - 1)) (CHR ''0'') @ ds
        else if length ds \<le> nat e + 1 then ds @ replicate (nat e + 1 - length ds) (CHR ''0'')
        else take (nat e + 1) ds @ ''.'' @ drop (nat e + 1) ds)"

definition fmt_float :: "f64 \<Rightarrow> string" where
  "fmt_float x =
     (case x of
        Fin q \<Rightarrow> if q = 0 then ''0'' else if q < 0 then ''-'' @ fmt_pos (- q) else fmt_pos q
      | NegZero \<Rightarrow> ''-0''
      | PInf \<Rightarrow> ''+Inf''
      | NInf \<Rightarrow> ''-Inf''
      | NaN \<Rightarrow> ''NaN'')"

text \<open>\<open>time.Duration.String\<close>: nanoseconds as hours, minutes and seconds, or as one of the smaller
  units when below a second. \<open>frac n\<close> is \<open>n\<close> with a fraction of \<open>k\<close> digits without trailing zeros.\<close>

definition frac :: "nat \<Rightarrow> nat \<Rightarrow> string" where
  "frac k n =
     (let ds = utoa (n mod 10 ^ k);
          f = rev (dropWhile (\<lambda>c. c = CHR ''0'') (rev (replicate (k - length ds) (CHR ''0'') @ ds)))
      in utoa (n div 10 ^ k) @ (if f = [] then [] else ''.'' @ f))"

definition dur_string :: "int \<Rightarrow> string" where
  "dur_string d =
     (if d = 0 then ''0s''
      else (let n = nat \<bar>d\<bar>; sign = (if d < 0 then ''-'' else []) in
        sign @
        (if n < 1000 then utoa n @ ''ns''
         else if n < 1000000 then frac 3 n @ [CHR 0xC2, CHR 0xB5] @ ''s''
         else if n < 1000000000 then frac 6 n @ ''ms''
         else (let secs = n div 1000000000; m = secs div 60; h = m div 60 in
           (if h > 0 then utoa h @ ''h'' else [])
           @ (if m > 0 then utoa (m mod 60) @ ''m'' else [])
           @ frac 9 (n mod 60000000000) @ ''s''))))"

fun join_sp :: "string list \<Rightarrow> string" where
  "join_sp [] = []"
| "join_sp [s] = s"
| "join_sp (s # ss) = s @ SP # join_sp ss"

text \<open>\<open>%v\<close>; a map is printed in the order of its keys.\<close>

function fmt_v :: "gov \<Rightarrow> string" where
  "fmt_v GNil = ''<nil>''"
| "fmt_v (GBool b) = (if b then ''true'' else ''false'')"
| "fmt_v (GNum k i) = itoa i"
| "fmt_v (GFloat x) = fmt_float x"
| "fmt_v (GFloat32 x) = fmt_float x"
| "fmt_v (GDur d) = dur_string d"
| "fmt_v (GStr s) = s"
| "fmt_v (GList xs) = ''['' @ join_sp (map fmt_v xs) @ '']''"
| "fmt_v (GMap m) =
     ''map['' @ join_sp (map (\<lambda>(k, t). k @ '':'' @ t)
        (sort_key fst (map (\<lambda>(k, v). (k, fmt_v v)) m))) @ '']''"
| "fmt_v (GStrs ss) = ''['' @ join_sp ss @ '']''"
| "fmt_v (GStrMap m) = ''map['' @ join_sp (map (\<lambda>(k, v). k @ '':'' @ v) (sort_key fst m)) @ '']''"
| "fmt_v (GHeaders m) =
     ''map['' @ join_sp (map (\<lambda>(k, v). k @ '':['' @ join_sp v @ '']'') (sort_key fst m)) @ '']''"
  by pat_completeness auto
termination
  by (relation "measure size") (auto simp: less_Suc_eq_le size_member size_map_member)

end
