(* ===== verification/Yaml_Decode.thy ===== *)
theory Yaml_Decode
  imports Yaml_Parser Go_Value
begin

text \<open>
  core/yaml: decoder.go, and the typing of scalars at the end of parser.go. \<open>reflect\<close> is modelled by
  descriptors of the types the decoder tells apart and by values of these types: a nil pointer, map or
  slice is \<^const>\<open>None\<close>, the fields of a struct are in their order. A decoding that fails returns its
  error; what it has written until then is not kept, as no caller uses it.
\<close>

section \<open>Scalars\<close>

definition digit_rest :: "string \<Rightarrow> bool" where
  "digit_rest s \<longleftrightarrow> list_all is_digit s"

definition isInteger :: "string \<Rightarrow> bool" where
  "isInteger s =
     (case s of
        [] \<Rightarrow> False
      | c # cs \<Rightarrow> if c = CHR ''-'' \<or> c = CHR ''+'' then cs \<noteq> [] \<and> digit_rest cs else digit_rest s)"

text \<open>A sign is stripped off; the digits are added up in an \<open>int\<close>, which may wrap around.\<close>

definition signed_digits :: "string \<Rightarrow> bool \<times> string" where
  "signed_digits s =
     (case s of c # cs \<Rightarrow> if c = CHR ''-'' then (True, cs) else if c = CHR ''+'' then (False, cs) else (False, s)
      | [] \<Rightarrow> (False, []))"

definition add_digit :: "int \<Rightarrow> char \<Rightarrow> int" where
  "add_digit n c = wrap64 (wrap64 (n * 10) + int (digit_val c))"

definition parseInt :: "string \<Rightarrow> int" where
  "parseInt s = (case signed_digits s of (neg, ds) \<Rightarrow>
     (let n = foldl add_digit 0 ds in if neg then wrap64 (- n) else n))"

fun float_chars :: "bool \<Rightarrow> bool \<Rightarrow> string \<Rightarrow> bool" where
  "float_chars hasDot hasE [] = (hasDot \<or> hasE)"
| "float_chars hasDot hasE (c # cs) =
     (if c = CHR ''.'' then \<not> hasDot \<and> \<not> hasE \<and> float_chars True hasE cs
      else if c = CHR ''e'' \<or> c = CHR ''E'' then
        \<not> hasE \<and>
        (case cs of
           d # ds \<Rightarrow> if d = CHR ''+'' \<or> d = CHR ''-'' then float_chars hasDot True ds else float_chars hasDot True cs
         | [] \<Rightarrow> float_chars hasDot True cs)
      else is_digit c \<and> float_chars hasDot hasE cs)"

definition isFloat :: "string \<Rightarrow> bool" where
  "isFloat s =
     (case s of
        [] \<Rightarrow> False
      | c # cs \<Rightarrow> if c = CHR ''-'' \<or> c = CHR ''+'' then cs \<noteq> [] \<and> float_chars False False cs else float_chars False False s)"

definition f64_digit :: "char \<Rightarrow> f64" where
  "f64_digit c = f64_of_int (int (digit_val c))"

definition float_digits :: "string \<Rightarrow> f64" where
  "float_digits ds = foldl (\<lambda>x c. f64_add (f64_mul x (Fin 10)) (f64_digit c)) (Fin 0) ds"

definition frac_digits :: "string \<Rightarrow> f64" where
  "frac_digits ds =
     fst (foldl (\<lambda>(x, d) c. (f64_add x (f64_div (f64_digit c) d), f64_mul d (Fin 10))) (Fin 0, Fin 10) ds)"

definition multiplier :: "nat \<Rightarrow> f64" where
  "multiplier n = ((\<lambda>m. f64_mul m (Fin 10)) ^^ n) (Fin 1)"

definition parseFloat :: "string \<Rightarrow> f64" where
  "parseFloat s =
     (case signed_digits s of (neg, s0) \<Rightarrow>
       (let intPart = float_digits (takeWhile is_digit s0);
            s1 = dropWhile is_digit s0;
            dot = (s1 \<noteq> [] \<and> hd s1 = CHR ''.'');
            fracPart = (if dot then frac_digits (takeWhile is_digit (tl s1)) else Fin 0);
            s2 = (if dot then dropWhile is_digit (tl s1) else s1);
            res = f64_add intPart fracPart;
            scaled =
              (if s2 \<noteq> [] \<and> (hd s2 = CHR ''e'' \<or> hd s2 = CHR ''E'') then
                 (let s3 = tl s2;
                      expNeg = (s3 \<noteq> [] \<and> hd s3 = CHR ''-'');
                      s4 = (if s3 \<noteq> [] \<and> (hd s3 = CHR ''-'' \<or> hd s3 = CHR ''+'') then tl s3 else s3);
                      m = multiplier (nat (f64_to_int (float_digits (takeWhile is_digit s4))))
                  in if expNeg then f64_div res m else f64_mul res m)
               else res)
        in if neg then f64_neg scaled else scaled))"

definition interpretScalar :: "unicode_classes \<Rightarrow> string \<Rightarrow> gov" where
  "interpretScalar uc s =
     (let lower = to_lower uc s in
      if s = [] then GNil
      else if lower = ''null'' \<or> lower = ''~'' then GNil
      else if lower = ''true'' \<or> lower = ''yes'' then GBool True
      else if lower = ''false'' \<or> lower = ''no'' then GBool False
      else if isInteger s then GInt (parseInt s)
      else if isFloat s then GFloat (parseFloat s)
      else GStr s)"

fun nodeToInterface :: "unicode_classes \<Rightarrow> node \<Rightarrow> gov" where
  "nodeToInterface uc (ScalarNode v l c) = interpretScalar uc v"
| "nodeToInterface uc (MappingNode ps l c) =
     GMap (foldl (\<lambda>m (k, v). AList.update k v m) [] (map (\<lambda>(k, n). (k, nodeToInterface uc n)) ps))"
| "nodeToInterface uc (SequenceNode cs l c) = GList (map (nodeToInterface uc) cs)"

section \<open>Types and values\<close>

datatype gotype =
    TAny
  | TString
  | TInt
  | TFloat
  | TBool
  | TPtr gotype
  | TMap gotype
  | TSlice gotype
  | TStruct "(string \<times> string \<times> gotype) list"

datatype gval =
    VAny gov
  | VString string
  | VInt int
  | VFloat f64
  | VBool bool
  | VPtr "gval option"
  | VMap "(string \<times> gval) list option"
  | VSlice "gval list option"
  | VStruct "gval list"

fun zero_of :: "gotype \<Rightarrow> gval" where
  "zero_of TAny = VAny GNil"
| "zero_of TString = VString []"
| "zero_of TInt = VInt 0"
| "zero_of TFloat = VFloat (Fin 0)"
| "zero_of TBool = VBool False"
| "zero_of (TPtr t) = VPtr None"
| "zero_of (TMap t) = VMap None"
| "zero_of (TSlice t) = VSlice None"
| "zero_of (TStruct fs) = VStruct (map (\<lambda>(n, tag, t). zero_of t) fs)"

section \<open>Decoding\<close>

datatype decode_error =
    BadScalar string gotype
  | ScalarInto gotype
  | MappingInto gotype
  | SequenceInto gotype
  | FieldError string decode_error
  | YamlError parse_error

text \<open>\<^const>\<open>zero_of\<close> stands in for a value that is not of its type, which no run of the decoder meets.\<close>

definition elem_of :: "gotype \<Rightarrow> gval \<Rightarrow> gval" where
  "elem_of t v = (case v of VPtr (Some x) \<Rightarrow> x | _ \<Rightarrow> zero_of t)"

fun decodeScalar :: "unicode_classes \<Rightarrow> string \<Rightarrow> gotype \<Rightarrow> gval \<Rightarrow> decode_error + gval" where
  "decodeScalar uc s TString v = Inr (VString s)"
| "decodeScalar uc s TInt v =
     (case interpretScalar uc s of
        GNum KInt i \<Rightarrow> Inr (VInt i)
      | GFloat x \<Rightarrow> Inr (VInt (f64_to_int x))
      | _ \<Rightarrow> Inl (BadScalar s TInt))"
| "decodeScalar uc s TFloat v =
     (case interpretScalar uc s of
        GFloat x \<Rightarrow> Inr (VFloat x)
      | GNum KInt i \<Rightarrow> Inr (VFloat (f64_of_int i))
      | _ \<Rightarrow> Inl (BadScalar s TFloat))"
| "decodeScalar uc s TBool v =
     (case interpretScalar uc s of GBool b \<Rightarrow> Inr (VBool b) | _ \<Rightarrow> Inl (BadScalar s TBool))"
| "decodeScalar uc s (TPtr t) v =
     (if interpretScalar uc s = GNil then Inr (VPtr None)
      else map_sum id (\<lambda>x. VPtr (Some x)) (decodeScalar uc s t (elem_of t v)))"
| "decodeScalar uc s (TMap t) v = Inl (ScalarInto (TMap t))"
| "decodeScalar uc s (TSlice t) v = Inl (ScalarInto (TSlice t))"
| "decodeScalar uc s TAny v = Inl (BadScalar s TAny)"
| "decodeScalar uc s (TStruct fs) v = Inl (BadScalar s (TStruct fs))"

text \<open>The name a field is found under; later fields replace earlier ones of the same name.\<close>

definition field_name :: "unicode_classes \<Rightarrow> string \<Rightarrow> string \<Rightarrow> string option" where
  "field_name uc name tag =
     (if tag = ''-'' then None
      else if tag = [] then Some (to_lower uc name)
      else Some (takeWhile (\<lambda>c. c \<noteq> CHR '','') tag))"

definition field_index :: "unicode_classes \<Rightarrow> (string \<times> string \<times> gotype) list \<Rightarrow> string \<Rightarrow> nat option" where
  "field_index uc fs key =
     find (\<lambda>i. case fs ! i of (n, tag, t) \<Rightarrow> field_name uc n tag = Some key) (rev [0..<length fs])"

text \<open>The loops over the pairs of a mapping and the items of a sequence take the decoder of an item.\<close>

fun map_pairs ::
  "(node \<Rightarrow> gotype \<Rightarrow> gval \<Rightarrow> decode_error + gval) \<Rightarrow> gotype \<Rightarrow> (string \<times> node) list \<Rightarrow> (string \<times> gval) list
    \<Rightarrow> decode_error + (string \<times> gval) list" where
  "map_pairs dec t [] m = Inr m"
| "map_pairs dec t ((k, n) # ps) m =
     rbind (dec n t (zero_of t)) (\<lambda>v. map_pairs dec t ps (AList.update k v m))"

fun struct_pairs ::
  "(node \<Rightarrow> gotype \<Rightarrow> gval \<Rightarrow> decode_error + gval) \<Rightarrow> unicode_classes \<Rightarrow> (string \<times> string \<times> gotype) list
    \<Rightarrow> (string \<times> node) list \<Rightarrow> gval list \<Rightarrow> decode_error + gval list" where
  "struct_pairs dec uc fs [] vs = Inr vs"
| "struct_pairs dec uc fs ((k, n) # ps) vs =
     (case field_index uc fs k of
        None \<Rightarrow> struct_pairs dec uc fs ps vs
      | Some i \<Rightarrow>
          (case dec n (snd (snd (fs ! i))) (vs ! i) of
             Inl e \<Rightarrow> Inl (FieldError k e)
           | Inr v \<Rightarrow> struct_pairs dec uc fs ps (vs[i := v])))"

fun seq_items ::
  "(node \<Rightarrow> gotype \<Rightarrow> gval \<Rightarrow> decode_error + gval) \<Rightarrow> gotype \<Rightarrow> node list \<Rightarrow> decode_error + gval list" where
  "seq_items dec t [] = Inr []"
| "seq_items dec t (n # ns) = rbind (dec n t (zero_of t)) (\<lambda>v. rbind (seq_items dec t ns) (\<lambda>vs. Inr (v # vs)))"

lemma map_pairs_cong [fundef_cong]:
  assumes "ps = ps'" "t = t'" "m = m'" "\<And>k n v. (k, n) \<in> set ps' \<Longrightarrow> dec n t' v = dec' n t' v"
  shows "map_pairs dec t ps m = map_pairs dec' t' ps' m'"
proof -
  have "(\<And>k n v. (k, n) \<in> set ps \<Longrightarrow> dec n t v = dec' n t v) \<Longrightarrow> map_pairs dec t ps m = map_pairs dec' t ps m" for ps m
    by (induction ps arbitrary: m) (force intro: rbind_cong)+
  with assms show ?thesis by blast
qed

lemma struct_pairs_cong [fundef_cong]:
  assumes "ps = ps'" "fs = fs'" "vs = vs'" "uc = uc'" "\<And>k n t v. (k, n) \<in> set ps' \<Longrightarrow> dec n t v = dec' n t v"
  shows "struct_pairs dec uc fs ps vs = struct_pairs dec' uc' fs' ps' vs'"
proof -
  have "(\<And>k n t v. (k, n) \<in> set ps \<Longrightarrow> dec n t v = dec' n t v) \<Longrightarrow> struct_pairs dec uc fs ps vs = struct_pairs dec' uc fs ps vs" for ps vs
  proof (induction ps arbitrary: vs)
    case (Cons p ps)
    obtain k n where p: "p = (k, n)" by fastforce
    have h: "dec n t v = dec' n t v" for t v by (rule Cons.prems[of k]) (simp add: p)
    have "\<And>k n t v. (k, n) \<in> set ps \<Longrightarrow> dec n t v = dec' n t v"
      by (rule Cons.prems, rule list.set_intros(2))
    then have "struct_pairs dec uc fs ps vs = struct_pairs dec' uc fs ps vs" for vs by (rule Cons.IH)
    then show ?case by (simp add: p h split: option.split sum.split)
  qed simp
  with assms show ?thesis by blast
qed

lemma seq_items_cong [fundef_cong]:
  "ns = ns' \<Longrightarrow> t = t' \<Longrightarrow> (\<And>n v. n \<in> set ns' \<Longrightarrow> dec n t' v = dec' n t' v) \<Longrightarrow> seq_items dec t ns = seq_items dec' t' ns'"
  by (induction ns arbitrary: ns') (auto intro: rbind_cong)

lemma size_node_less: "n \<in> set cs \<Longrightarrow> size n < size_list size cs"
  by (induction cs) auto

lemma size_pair_less: "(k, n) \<in> set ps \<Longrightarrow> size n < size_list (size_prod (\<lambda>_. 0) size) ps"
  by (induction ps) auto

function decodeInto :: "unicode_classes \<Rightarrow> node \<Rightarrow> gotype \<Rightarrow> gval \<Rightarrow> decode_error + gval"
  and decodeMapping :: "unicode_classes \<Rightarrow> (string \<times> node) list \<Rightarrow> gotype \<Rightarrow> gval \<Rightarrow> decode_error + gval"
  and decodeSequence :: "unicode_classes \<Rightarrow> node list \<Rightarrow> gotype \<Rightarrow> gval \<Rightarrow> decode_error + gval"
where
  "decodeInto uc node t v =
     (if t = TAny then Inr (VAny (nodeToInterface uc node))
      else (case node of
          ScalarNode s l c \<Rightarrow> decodeScalar uc s t v
        | MappingNode ps l c \<Rightarrow> decodeMapping uc ps t v
        | SequenceNode cs l c \<Rightarrow> decodeSequence uc cs t v))"
| "decodeMapping uc ps t v =
     (case t of
        TMap e \<Rightarrow>
          map_sum id (\<lambda>m. VMap (Some m))
            (map_pairs (\<lambda>n t v. decodeInto uc n t v) e ps (case v of VMap (Some m) \<Rightarrow> m | _ \<Rightarrow> []))
      | TStruct fs \<Rightarrow>
          map_sum id VStruct
            (struct_pairs (\<lambda>n t v. decodeInto uc n t v) uc fs ps
              (case v of VStruct vs \<Rightarrow> vs | _ \<Rightarrow> map (\<lambda>(n, tag, t). zero_of t) fs))
      | TPtr e \<Rightarrow> map_sum id (\<lambda>x. VPtr (Some x)) (decodeMapping uc ps e (elem_of e v))
      | _ \<Rightarrow> Inl (MappingInto t))"
| "decodeSequence uc cs t v =
     (case t of
        TSlice e \<Rightarrow> map_sum id (\<lambda>vs. VSlice (Some vs)) (seq_items (\<lambda>n t v. decodeInto uc n t v) e cs)
      | TPtr e \<Rightarrow> map_sum id (\<lambda>x. VPtr (Some x)) (decodeSequence uc cs e (elem_of e v))
      | _ \<Rightarrow> Inl (SequenceInto t))"
  by pat_completeness auto
termination
  by (relation "inv_image (less_than <*lex*> less_than)
     (case_sum (\<lambda>(uc, n, t, v). (size n, size t))
       (case_sum (\<lambda>(uc, ps, t, v). (size_list (size_prod (\<lambda>_. 0) size) ps, size t))
         (\<lambda>(uc, cs, t, v). (size_list size cs, size t))))")
    (auto simp: size_node_less size_pair_less intro: le_neq_trans)

declare decodeInto.simps [simp del]
declare decodeMapping.simps [simp del]
declare decodeSequence.simps [simp del]

text \<open>Evaluation on a node that has the shape its type asks for.\<close>

lemma decode_eval:
  "decodeInto uc n TAny v = Inr (VAny (nodeToInterface uc n))"
  "t \<noteq> TAny \<Longrightarrow> decodeInto uc (ScalarNode s l c) t v = decodeScalar uc s t v"
  "decodeInto uc (MappingNode ps l c) (TMap e) v =
     map_sum id (\<lambda>m. VMap (Some m)) (map_pairs (decodeInto uc) e ps (case v of VMap (Some m) \<Rightarrow> m | _ \<Rightarrow> []))"
  "decodeInto uc (MappingNode ps l c) (TStruct fs) v =
     map_sum id VStruct (struct_pairs (decodeInto uc) uc fs ps
       (case v of VStruct vs \<Rightarrow> vs | _ \<Rightarrow> map (\<lambda>(n, tag, t). zero_of t) fs))"
  "decodeInto uc (SequenceNode cs l c) (TSlice e) v = map_sum id (\<lambda>vs. VSlice (Some vs)) (seq_items (decodeInto uc) e cs)"
  by (simp_all add: decodeInto.simps[of uc "MappingNode ps l c"] decodeInto.simps[of uc "ScalarNode s l c"]
      decodeInto.simps[of uc "SequenceNode cs l c"] decodeInto.simps[of uc n TAny] decodeMapping.simps[of uc ps "TMap e"]
      decodeMapping.simps[of uc ps "TStruct fs"] decodeSequence.simps[of uc cs "TSlice e"])

section \<open>Integers\<close>

definition int_value :: "string \<Rightarrow> int" where
  "int_value s = (case signed_digits s of (neg, ds) \<Rightarrow> if neg then - int (digits_val ds) else int (digits_val ds))"

lemma add_digit_wraps: "add_digit (wrap64 a) c = wrap64 (a * 10 + int (digit_val c))"
proof -
  have "wrap64 (wrap64 a * 10) mod 2 ^ 64 = a * 10 mod 2 ^ 64"
    unfolding wrap64_mod by (metis mod_mult_left_eq wrap64_mod)
  then have "(wrap64 (wrap64 a * 10) + int (digit_val c)) mod 2 ^ 64 = (a * 10 + int (digit_val c)) mod 2 ^ 64"
    by (rule mod_add_cong) simp
  then show ?thesis unfolding add_digit_def by (rule wrap64_cong)
qed

lemma foldl_add_digit:
  "foldl add_digit (wrap64 (int a)) ds = wrap64 (int (foldl (\<lambda>n c. n * 10 + digit_val c) a ds))"
proof (induction ds arbitrary: a)
  case (Cons c ds)
  have "add_digit (wrap64 (int a)) c = wrap64 (int (a * 10 + digit_val c))" by (simp add: add_digit_wraps)
  then show ?case by (simp only: foldl_Cons Cons.IH)
qed simp

lemma parseInt_wraps: "parseInt s = wrap64 (int_value s)"
proof -
  obtain neg ds where s: "signed_digits s = (neg, ds)" by fastforce
  have n: "foldl add_digit 0 ds = wrap64 (int (digits_val ds))"
    using foldl_add_digit[of 0 ds] by (simp add: digits_val_def in_int64_def)
  have "wrap64 (- wrap64 x) = wrap64 (- x)" for x
  proof (rule wrap64_cong)
    show "- wrap64 x mod 2 ^ 64 = - x mod 2 ^ 64" by (metis mod_minus_eq wrap64_mod)
  qed
  then show ?thesis by (simp add: parseInt_def s int_value_def n Let_def)
qed

lemma isInteger_chars: "isInteger s \<Longrightarrow> \<forall>c \<in> set s. is_digit c \<or> c = CHR ''-'' \<or> c = CHR ''+''"
  by (cases s) (auto simp: isInteger_def digit_rest_def list_all_iff split: if_splits)

lemma interpretScalar_int: "isInteger s \<Longrightarrow> interpretScalar uc s = GInt (parseInt s)"
proof -
  assume i: "isInteger s"
  then have ne: "s \<noteq> []" by (auto simp: isInteger_def)
  note c = isInteger_chars[OF i]
  have "to_lower uc s = s" using c by (intro to_lower_plain) (auto simp: is_digit_def is_ascii_def)
  moreover have "hd s \<noteq> CHR ''n'' \<and> hd s \<noteq> CHR ''~'' \<and> hd s \<noteq> CHR ''t'' \<and> hd s \<noteq> CHR ''y'' \<and> hd s \<noteq> CHR ''f''"
    using c ne by (cases s) (auto simp: is_digit_def)
  ultimately show ?thesis using i ne by (cases s) (auto simp: interpretScalar_def Let_def)
qed

lemma itoa_integer: "isInteger (itoa i)" "int_value (itoa i) = i"
proof -
  have d: "digit_rest (utoa n)" for n using utoa_digits[of n] by (simp add: digit_rest_def list_all_iff)
  obtain c cs where u: "utoa (nat i) = c # cs" by (cases "utoa (nat i)") auto
  with utoa_digits[of "nat i"] have c: "c \<noteq> CHR ''-'' \<and> c \<noteq> CHR ''+''" by (auto simp: is_digit_def)
  show "isInteger (itoa i)" using d[of "nat i"] d[of "nat (- i)"] c u by (auto simp: itoa_def isInteger_def)
  show "int_value (itoa i) = i"
  proof (cases "i < 0")
    case True
    then show ?thesis by (simp add: itoa_def int_value_def signed_digits_def)
  next
    case False
    then have "signed_digits (itoa i) = (False, utoa (nat i))"
      using c u by (simp add: itoa_def signed_digits_def)
    with False show ?thesis by (simp add: int_value_def)
  qed
qed

text \<open>Integers in a document. A scalar that reads as an integer becomes the integer it spells, modulo
  \<open>2^64\<close>: exactly that integer when it fits, and silently a different one when it does not. In particular every
  machine integer is read back from its decimal form.\<close>

theorem integer_scalars:
  "(isInteger s \<longrightarrow> interpretScalar uc s = GInt (wrap64 (int_value s)))
   \<and> (in_int64 i \<longrightarrow> interpretScalar uc (itoa i) = GInt i)"
  using interpretScalar_int[of s uc] interpretScalar_int[OF itoa_integer(1), of uc i]
  by (simp add: parseInt_wraps itoa_integer(2))

section \<open>Types\<close>

text \<open>A generic value as the decoder builds them: its maps have each key once, its integers fit.\<close>

fun wf_gov :: "gov \<Rightarrow> bool" where
  "wf_gov (GNum k i) = in_int64 i"
| "wf_gov (GList vs) = (\<forall>v \<in> set vs. wf_gov v)"
| "wf_gov (GMap m) = (distinct (map fst m) \<and> (\<forall>(k, v) \<in> set m. wf_gov v))"
| "wf_gov v = True"

fun has_type :: "gotype \<Rightarrow> gval \<Rightarrow> bool" where
  "has_type TAny v = (case v of VAny g \<Rightarrow> wf_gov g | _ \<Rightarrow> False)"
| "has_type TString v = (case v of VString s \<Rightarrow> True | _ \<Rightarrow> False)"
| "has_type TInt v = (case v of VInt i \<Rightarrow> in_int64 i | _ \<Rightarrow> False)"
| "has_type TFloat v = (case v of VFloat x \<Rightarrow> True | _ \<Rightarrow> False)"
| "has_type TBool v = (case v of VBool b \<Rightarrow> True | _ \<Rightarrow> False)"
| "has_type (TPtr t) v = (case v of VPtr None \<Rightarrow> True | VPtr (Some x) \<Rightarrow> has_type t x | _ \<Rightarrow> False)"
| "has_type (TMap t) v =
     (case v of VMap None \<Rightarrow> True | VMap (Some m) \<Rightarrow> distinct (map fst m) \<and> (\<forall>(k, x) \<in> set m. has_type t x) | _ \<Rightarrow> False)"
| "has_type (TSlice t) v = (case v of VSlice None \<Rightarrow> True | VSlice (Some vs) \<Rightarrow> (\<forall>x \<in> set vs. has_type t x) | _ \<Rightarrow> False)"
| "has_type (TStruct fs) v =
     (case v of VStruct vs \<Rightarrow> list_all2 (\<lambda>(n, tag, t) x. has_type t x) fs vs | _ \<Rightarrow> False)"

lemma in_alist_update: "(j, x) \<in> set (AList.update k v m) \<Longrightarrow> (j, x) = (k, v) \<or> (j, x) \<in> set m"
  by (induction m) (auto split: if_splits)

lemma map_sum_Inr: "map_sum f g r = Inr y \<longleftrightarrow> (\<exists>x. r = Inr x \<and> y = g x)"
  by (cases r) auto

lemma has_type_zero: "has_type t (zero_of t)"
proof (induction t)
  case (TStruct fs)
  then show ?case by (auto simp: list_all2_conv_all_nth split: prod.splits) (metis nth_mem snds.intros)
qed (simp_all add: in_int64_def)

lemma f64_to_int_in [simp]: "in_int64 (f64_to_int x)"
  by (simp add: f64_to_int_def in_int64_def)

lemma wf_interpretScalar: "wf_gov (interpretScalar uc s)"
  by (auto simp: interpretScalar_def Let_def parseInt_wraps)

lemma foldl_update_keys:
  "distinct (map fst m) \<Longrightarrow> distinct (map fst (foldl (\<lambda>m (k, v). AList.update k v m) m ps))"
  by (induction ps arbitrary: m) (auto simp: distinct_update)

lemma foldl_update_vals:
  "(\<forall>(k, v) \<in> set m. P v) \<Longrightarrow> (\<forall>(k, v) \<in> set ps. P v) \<Longrightarrow>
   \<forall>(k, v) \<in> set (foldl (\<lambda>m (k, v). AList.update k v m) m ps). P v"
proof (induction ps arbitrary: m)
  case (Cons p ps)
  obtain k v where p: "p = (k, v)" by fastforce
  have "\<forall>(k, v) \<in> set (AList.update k v m). P v" using Cons.prems p by (auto dest: in_alist_update)
  from Cons.IH[OF this] Cons.prems(2) p show ?case by simp
qed simp

lemma wf_nodeToInterface: "wf_gov (nodeToInterface uc n)"
proof (induction n)
  case (MappingNode ps l c)
  have "\<forall>(k, v) \<in> set (map (\<lambda>(k, n). (k, nodeToInterface uc n)) ps). wf_gov v"
    using MappingNode by fastforce
  moreover have "\<forall>(k, v) \<in> set []. wf_gov v" by simp
  ultimately have v: "\<forall>(k, v) \<in> set (foldl (\<lambda>m (k, v). AList.update k v m) [] (map (\<lambda>(k, n). (k, nodeToInterface uc n)) ps)). wf_gov v"
    by (intro foldl_update_vals)
  have "distinct (map fst (foldl (\<lambda>m (k, v). AList.update k v m) [] (map (\<lambda>(k, n). (k, nodeToInterface uc n)) ps)))"
    by (rule foldl_update_keys) simp
  with v show ?case by (simp only: nodeToInterface.simps wf_gov.simps)
qed (auto simp: wf_interpretScalar)

lemma decodeScalar_type:
  "decodeScalar uc s t v = Inr v' \<Longrightarrow> has_type t v'"
proof (induction uc s t v arbitrary: v' rule: decodeScalar.induct)
  case (2 uc s v)
  then show ?case using wf_interpretScalar[of uc s]
    by (auto split: gov.splits num_kind.splits)
next
  case (5 uc s t v)
  then show ?case by (auto split: if_splits simp: map_sum_Inr)
qed (auto split: gov.splits num_kind.splits)

lemma map_pairs_type:
  assumes "\<And>k n v v'. (k, n) \<in> set ps \<Longrightarrow> dec n t v = Inr v' \<Longrightarrow> has_type t v \<Longrightarrow> has_type t v'"
  shows "map_pairs dec t ps m = Inr m' \<Longrightarrow> distinct (map fst m) \<Longrightarrow> (\<forall>(k, x) \<in> set m. has_type t x) \<Longrightarrow>
    distinct (map fst m') \<and> (\<forall>(k, x) \<in> set m'. has_type t x)"
  using assms
proof (induction ps arbitrary: m)
  case (Cons p ps)
  obtain k n where p: "p = (k, n)" by fastforce
  then obtain v where v: "dec n t (zero_of t) = Inr v" "map_pairs dec t ps (AList.update k v m) = Inr m'"
    using Cons.prems(1) by (auto simp: rbind_eq_Inr)
  have "has_type t v" using Cons.prems(4)[of k n] v(1) has_type_zero p by simp
  then have "\<forall>(k, x) \<in> set (AList.update k v m). has_type t x"
    using Cons.prems(3) by (auto dest: in_alist_update)
  moreover have "has_type t v'" if "(k, n) \<in> set ps" "dec n t v = Inr v'" "has_type t v" for k n v v'
    by (rule Cons.prems(4)[OF list.set_intros(2)[OF that(1)] that(2,3)])
  ultimately show ?case using Cons.IH[OF v(2)] Cons.prems(2) by (simp add: distinct_update)
qed auto

lemma find_in: "find P xs = Some x \<Longrightarrow> x \<in> set xs"
  by (induction xs) (auto split: if_splits)

lemma struct_pairs_type:
  assumes "\<And>k n t v v'. (k, n) \<in> set ps \<Longrightarrow> dec n t v = Inr v' \<Longrightarrow> has_type t v \<Longrightarrow> has_type t v'"
  shows "struct_pairs dec uc fs ps vs = Inr vs' \<Longrightarrow> has_type (TStruct fs) (VStruct vs) \<Longrightarrow> has_type (TStruct fs) (VStruct vs')"
  using assms
proof (induction ps arbitrary: vs)
  case (Cons p ps)
  obtain k n where p: "p = (k, n)" by fastforce
  have IH': "has_type t v'" if "(k, n) \<in> set ps" "dec n t v = Inr v'" "has_type t v" for k n t v v'
    by (rule Cons.prems(3)[OF list.set_intros(2)[OF that(1)] that(2,3)])
  show ?case
  proof (cases "field_index uc fs k")
    case None
    with Cons.prems(1,2) p Cons.IH[OF _ _ IH'] show ?thesis by simp
  next
    case (Some i)
    then have i: "i < length fs" using find_in unfolding field_index_def by fastforce
    then obtain v where v: "dec n (snd (snd (fs ! i))) (vs ! i) = Inr v" "struct_pairs dec uc fs ps (vs[i := v]) = Inr vs'"
      using Cons.prems(1) p Some by (auto split: sum.splits)
    have vs: "list_all2 (\<lambda>(n, tag, t) x. has_type t x) fs vs" using Cons.prems(2) by simp
    then have "has_type (snd (snd (fs ! i))) (vs ! i)"
      using i by (cases "fs ! i") (auto simp: list_all2_conv_all_nth split: prod.splits)
    then have "has_type (snd (snd (fs ! i))) v"
      using Cons.prems(3)[of k n] v(1) p by simp
    then have "list_all2 (\<lambda>(n, tag, t) x. has_type t x) fs (vs[i := v])"
      using vs i by (auto simp: list_all2_conv_all_nth nth_list_update split: prod.splits)
    with Cons.IH[OF v(2) _ IH'] show ?thesis by simp
  qed
qed simp

lemma seq_items_type:
  assumes "\<And>n v v'. n \<in> set ns \<Longrightarrow> dec n t v = Inr v' \<Longrightarrow> has_type t v \<Longrightarrow> has_type t v'"
  shows "seq_items dec t ns = Inr vs \<Longrightarrow> \<forall>x \<in> set vs. has_type t x"
  using assms
proof (induction ns arbitrary: vs)
  case (Cons n ns)
  then obtain v vs' where v: "dec n t (zero_of t) = Inr v" "seq_items dec t ns = Inr vs'" "vs = v # vs'"
    by (auto simp: rbind_eq_Inr)
  have "has_type t v" using Cons.prems(2)[of n] v(1) has_type_zero by simp
  moreover have "\<forall>x \<in> set vs'. has_type t x" by (rule Cons.IH[OF v(2)], rule Cons.prems(2)[OF list.set_intros(2)])
  ultimately show ?case using v(3) by simp
qed simp

lemma elem_of_type: "has_type (TPtr t) v \<Longrightarrow> has_type t (elem_of t v)"
  by (auto simp: elem_of_def has_type_zero split: gval.splits option.splits)

lemma decode_types:
  "decodeInto uc node t v = Inr v' \<Longrightarrow> has_type t v \<Longrightarrow> has_type t v'"
  "decodeMapping uc ps t v = Inr v' \<Longrightarrow> has_type t v \<Longrightarrow> has_type t v'"
  "decodeSequence uc cs t v = Inr v' \<Longrightarrow> has_type t v \<Longrightarrow> has_type t v'"
proof (induction uc node t v and uc ps t v and uc cs t v arbitrary: v' and v' and v'
    rule: decodeInto_decodeMapping_decodeSequence.induct)
  case (1 uc node t v)
  show ?case
  proof (cases "t = TAny")
    case True
    with 1 have "v' = VAny (nodeToInterface uc node)" by (simp add: decodeInto.simps)
    with True show ?thesis by (simp add: wf_nodeToInterface)
  next
    case False
    with 1 show ?thesis by (cases node) (auto simp: decodeInto.simps dest: decodeScalar_type)
  qed
next
  case (2 uc ps t v)
  show ?case
  proof (cases t)
    case (TMap e)
    let ?m = "case v of VMap (Some m) \<Rightarrow> m | _ \<Rightarrow> []"
    obtain m where m: "map_pairs (\<lambda>n t v. decodeInto uc n t v) e ps ?m = Inr m" "v' = VMap (Some m)"
      using "2.prems"(1) TMap by (auto simp: decodeMapping.simps map_sum_Inr)
    have IH: "has_type e y'" if "(k, n) \<in> set ps" "decodeInto uc n e y = Inr y'" "has_type e y" for k n y y'
      by (rule "2.IH"(2)[OF TMap that])
    have "distinct (map fst ?m) \<and> (\<forall>(k, x) \<in> set ?m. has_type e x)"
      using "2.prems"(2) TMap by (auto split: gval.splits option.splits)
    then have "distinct (map fst m) \<and> (\<forall>(k, x) \<in> set m. has_type e x)"
      by (intro map_pairs_type[OF _ m(1)]) (rule IH, assumption+, blast+)
    then show ?thesis using m(2) TMap by simp
  next
    case (TStruct fs)
    then obtain vs where vs: "v = VStruct vs" using "2.prems"(2) by (auto split: gval.splits)
    then obtain vs' where r: "struct_pairs (\<lambda>n t v. decodeInto uc n t v) uc fs ps vs = Inr vs'" "v' = VStruct vs'"
      using "2.prems"(1) TStruct by (auto simp: decodeMapping.simps map_sum_Inr)
    have IH: "has_type d y'" if "(k, n) \<in> set ps" "decodeInto uc n d y = Inr y'" "has_type d y" for k n d y y'
      by (rule "2.IH"(3)[OF TStruct that])
    have "has_type (TStruct fs) (VStruct vs')"
      by (rule struct_pairs_type[OF _ r(1)]) (rule IH, assumption+, use "2.prems"(2) vs TStruct in simp)
    then show ?thesis using r(2) TStruct by simp
  next
    case (TPtr e)
    then obtain x where "decodeMapping uc ps e (elem_of e v) = Inr x" "v' = VPtr (Some x)"
      using "2.prems"(1) by (auto simp: decodeMapping.simps[of uc ps "TPtr e"] map_sum_Inr)
    with "2.IH"(1)[OF TPtr] elem_of_type "2.prems"(2) TPtr show ?thesis by auto
  qed (use "2.prems" in \<open>auto simp: decodeMapping.simps\<close>)
next
  case (3 uc cs t v)
  show ?case
  proof (cases t)
    case (TSlice e)
    then obtain vs where r: "seq_items (\<lambda>n t v. decodeInto uc n t v) e cs = Inr vs" "v' = VSlice (Some vs)"
      using "3.prems"(1) by (auto simp: decodeSequence.simps[of uc cs "TPtr e"] decodeSequence.simps[of uc cs "TSlice e"] map_sum_Inr)
    have IH: "has_type e y'" if "n \<in> set cs" "decodeInto uc n e y = Inr y'" "has_type e y" for n y y'
      by (rule "3.IH"(2)[OF TSlice that])
    have "\<forall>x \<in> set vs. has_type e x"
      by (rule seq_items_type[OF _ r(1)]) (rule IH, assumption+)
    then show ?thesis using r(2) TSlice by simp
  next
    case (TPtr e)
    then obtain x where "decodeSequence uc cs e (elem_of e v) = Inr x" "v' = VPtr (Some x)"
      using "3.prems"(1) by (auto simp: decodeSequence.simps[of uc cs "TPtr e"] decodeSequence.simps[of uc cs "TSlice e"] map_sum_Inr)
    with "3.IH"(1)[OF TPtr] elem_of_type "3.prems"(2) TPtr show ?thesis by auto
  qed (use "3.prems" in \<open>auto simp: decodeSequence.simps\<close>)
qed

section \<open>Unmarshalling\<close>

text \<open>\<open>Unmarshal\<close> into a variable of type \<open>t\<close> that holds \<open>v\<close>. The parser always answers (theory Yaml_Parser), so
  \<^const>\<open>None\<close> does not arise.\<close>

definition Unmarshal :: "unicode_classes \<Rightarrow> string \<Rightarrow> gotype \<Rightarrow> gval \<Rightarrow> (decode_error + gval) option" where
  "Unmarshal uc doc t v =
     (case Parse doc of
        None \<Rightarrow> None
      | Some (Inl e) \<Rightarrow> Some (Inl (YamlError e))
      | Some (Inr n) \<Rightarrow> Some (decodeInto uc n t v))"

text \<open>Decoding respects types. Whatever a document holds, a successful \<open>Unmarshal\<close> into a variable of a type
  (a struct of the program with its tags, a pointer, a map, a slice or \<open>any\<close>) leaves a value of that type:
  the fields of a struct keep their types, integers fit, and every map, also inside an \<open>any\<close>, has each key once.\<close>

theorem Unmarshal_types:
  assumes "Unmarshal uc doc t v = Some (Inr v')" "has_type t v"
  shows "has_type t v'"
  using assms decode_types(1) by (auto simp: Unmarshal_def split: option.splits sum.splits)

theorem integer_scalars_witness:
  "interpretScalar ascii_classes ''-12'' = GInt (- 12) \<and> interpretScalar ascii_classes (itoa 7) = GInt 7"
proof -
  have "isInteger ''-12''" by (simp add: isInteger_def digit_rest_def is_digit_def)
  moreover have "wrap64 (int_value ''-12'') = - 12"
    by (simp add: int_value_def signed_digits_def digits_val_def digit_val_def in_int64_def)
  ultimately show ?thesis using integer_scalars[of "''-12''" ascii_classes 7] by (simp add: in_int64_def)
qed

text \<open>A document of one key.\<close>

lemma Parse_demo: "Parse ''a: 12'' = Some (Inr (MappingNode [(''a'', ScalarNode ''12'' 1 4)] 1 1))"
proof -
  let ?ts = "[mk_token TokenMappingKey ''a'' 1 1 0, mk_token TokenScalar ''12'' 1 4 0, mk_token TokenEOF [] 1 6 0]"
  have "ScanAll ''a: 12'' = Inr ?ts" by (simp add: yaml_eval)
  moreover have "parseDocument (parse_fuel ?ts) ?ts =
      Some (Inr (MappingNode [(''a'', ScalarNode ''12'' 1 4)] 1 1, [mk_token TokenEOF [] 1 6 0]))"
    by (simp add: parse_fuel_def parseDocument_def parseNode_def peek_tok_def next_tok_def mk_token_def eval_nat_numeral
        next_mapIndent_def scalar_of_def Let_def)
  ultimately show ?thesis by (simp add: Parse_def)
qed

theorem Unmarshal_types_witness:
  "Unmarshal ascii_classes ''a: 12'' (TMap TInt) (VMap None) = Some (Inr (VMap (Some [(''a'', VInt 12)])))
   \<and> has_type (TMap TInt) (VMap (Some [(''a'', VInt 12)]))"
proof -
  have "isInteger ''12''" "parseInt ''12'' = 12"
    by (simp_all add: isInteger_def digit_rest_def is_digit_def parseInt_wraps int_value_def signed_digits_def digits_val_def
        digit_val_def in_int64_def)
  then have e: "Unmarshal ascii_classes ''a: 12'' (TMap TInt) (VMap None) = Some (Inr (VMap (Some [(''a'', VInt 12)])))"
    by (simp add: Unmarshal_def Parse_demo decodeInto.simps decodeMapping.simps[of _ _ "TMap TInt"] interpretScalar_int)
  from e Unmarshal_types[OF e] show ?thesis by simp
qed

end
