(* ===== verification/Yaml_Values.thy ===== *)
theory Yaml_Values
  imports Yaml_Decode
begin

text \<open>
  core/yaml: which value a document stands for, said without the decoder. \<open>reads uc t old n v\<close> is: in a variable of
  type \<open>t\<close> that holds \<open>old\<close>, the node \<open>n\<close> is the value \<open>v\<close>. It covers every type of the program's
  structures; of the scalars it leaves out those spelled as floats and the integers that do not fit. The decoder
  (theory Yaml_Decode) is shown to give this value.
\<close>

section \<open>Scalars\<close>

definition null_word :: "unicode_classes \<Rightarrow> string \<Rightarrow> bool" where
  "null_word uc s \<longleftrightarrow> s = [] \<or> to_lower uc s = ''null'' \<or> to_lower uc s = ''~''"

definition bool_word :: "unicode_classes \<Rightarrow> string \<Rightarrow> bool \<Rightarrow> bool" where
  "bool_word uc s b \<longleftrightarrow> to_lower uc s \<in> (if b then {''true'', ''yes''} else {''false'', ''no''})"

definition int_word :: "string \<Rightarrow> int \<Rightarrow> bool" where
  "int_word s i \<longleftrightarrow> isInteger s \<and> int_value s = i \<and> in_int64 i"

definition plain_word :: "unicode_classes \<Rightarrow> string \<Rightarrow> bool" where
  "plain_word uc s \<longleftrightarrow> \<not> null_word uc s \<and> \<not> bool_word uc s True \<and> \<not> bool_word uc s False \<and> \<not> isInteger s \<and> \<not> isFloat s"

lemma to_lower_empty: "to_lower uc [] = []"
  by (rule to_lower_plain) simp

lemma interpret_null: "interpretScalar uc s = GNil \<longleftrightarrow> null_word uc s"
  by (simp add: interpretScalar_def null_word_def Let_def)

lemma interpret_bool: "bool_word uc s b \<Longrightarrow> interpretScalar uc s = GBool b"
  using to_lower_empty[of uc]
  by (cases "s = []") (auto simp: interpretScalar_def bool_word_def Let_def split: if_splits)

lemma interpret_int: "int_word s i \<Longrightarrow> interpretScalar uc s = GInt i"
  by (simp add: int_word_def interpretScalar_int parseInt_wraps)

lemma interpret_plain: "plain_word uc s \<Longrightarrow> interpretScalar uc s = GStr s"
  by (simp add: interpretScalar_def plain_word_def null_word_def bool_word_def Let_def)

section \<open>Values\<close>

inductive reads_any :: "unicode_classes \<Rightarrow> node \<Rightarrow> gov \<Rightarrow> bool" for uc where
  any_null: "null_word uc s \<Longrightarrow> reads_any uc (ScalarNode s l c) GNil"
| any_bool: "bool_word uc s b \<Longrightarrow> reads_any uc (ScalarNode s l c) (GBool b)"
| any_int: "int_word s i \<Longrightarrow> reads_any uc (ScalarNode s l c) (GInt i)"
| any_text: "plain_word uc s \<Longrightarrow> reads_any uc (ScalarNode s l c) (GStr s)"
| any_list: "length gs = length ns \<Longrightarrow> (\<And>i. i < length ns \<Longrightarrow> reads_any uc (ns ! i) (gs ! i)) \<Longrightarrow>
    reads_any uc (SequenceNode ns l c) (GList gs)"
| any_map: "distinct (map fst ps) \<Longrightarrow> map fst gs = map fst ps \<Longrightarrow>
    (\<And>i. i < length ps \<Longrightarrow> reads_any uc (snd (ps ! i)) (snd (gs ! i))) \<Longrightarrow> reads_any uc (MappingNode ps l c) (GMap gs)"

text \<open>The field that a key names: the last one with this name.\<close>

definition names_field :: "unicode_classes \<Rightarrow> (string \<times> string \<times> gotype) list \<Rightarrow> string \<Rightarrow> nat \<Rightarrow> bool" where
  "names_field uc fs k i \<longleftrightarrow> i < length fs \<and> field_name uc (fst (fs ! i)) (fst (snd (fs ! i))) = Some k \<and>
     (\<forall>j. i < j \<and> j < length fs \<longrightarrow> field_name uc (fst (fs ! j)) (fst (snd (fs ! j))) \<noteq> Some k)"

inductive reads :: "unicode_classes \<Rightarrow> gotype \<Rightarrow> gval \<Rightarrow> node \<Rightarrow> gval \<Rightarrow> bool" for uc where
  reads_any: "reads_any uc n g \<Longrightarrow> reads uc TAny old n (VAny g)"
| reads_string: "reads uc TString old (ScalarNode s l c) (VString s)"
| reads_int: "int_word s i \<Longrightarrow> reads uc TInt old (ScalarNode s l c) (VInt i)"
| reads_whole: "int_word s i \<Longrightarrow> reads uc TFloat old (ScalarNode s l c) (VFloat (f64_of_int i))"
| reads_bool: "bool_word uc s b \<Longrightarrow> reads uc TBool old (ScalarNode s l c) (VBool b)"
| reads_nil: "null_word uc s \<Longrightarrow> reads uc (TPtr t) old (ScalarNode s l c) (VPtr None)"
| reads_ptr: "t \<noteq> TAny \<Longrightarrow> (\<And>s l c. n = ScalarNode s l c \<Longrightarrow> \<not> null_word uc s) \<Longrightarrow> reads uc t (elem_of t old) n v \<Longrightarrow>
    reads uc (TPtr t) old n (VPtr (Some v))"
| reads_slice: "length vs = length ns \<Longrightarrow> (\<And>i. i < length ns \<Longrightarrow> reads uc t (zero_of t) (ns ! i) (vs ! i)) \<Longrightarrow>
    reads uc (TSlice t) old (SequenceNode ns l c) (VSlice (Some vs))"
| reads_map: "distinct (map fst ps) \<Longrightarrow> map fst m = map fst ps \<Longrightarrow>
    (\<And>i. i < length ps \<Longrightarrow> reads uc t (zero_of t) (snd (ps ! i)) (snd (m ! i))) \<Longrightarrow>
    reads uc (TMap t) (VMap None) (MappingNode ps l c) (VMap (Some m))"
| reads_struct: "distinct (map fst ps) \<Longrightarrow> length olds = length fs \<Longrightarrow> length vs = length fs \<Longrightarrow>
    (\<And>k n i. (k, n) \<in> set ps \<Longrightarrow> names_field uc fs k i \<Longrightarrow> reads uc (snd (snd (fs ! i))) (olds ! i) n (vs ! i)) \<Longrightarrow>
    (\<And>i. i < length fs \<Longrightarrow> (\<And>k n. (k, n) \<in> set ps \<Longrightarrow> \<not> names_field uc fs k i) \<Longrightarrow> vs ! i = olds ! i) \<Longrightarrow>
    reads uc (TStruct fs) (VStruct olds) (MappingNode ps l c) (VStruct vs)"

section \<open>The decoder gives them\<close>

lemma find_last: "find P (rev [0..<n]) = Some i \<longleftrightarrow> i < n \<and> P i \<and> (\<forall>j. i < j \<and> j < n \<longrightarrow> \<not> P j)"
  by (induction n) (auto simp: less_Suc_eq)

lemma field_index_names: "field_index uc fs k = Some i \<longleftrightarrow> names_field uc fs k i"
  unfolding field_index_def find_last names_field_def by (simp add: case_prod_beta)

lemma update_fresh: "k \<notin> fst ` set m \<Longrightarrow> AList.update k v m = m @ [(k, v)]"
  by (induction m) auto

lemma map_pairs_reads:
  assumes "distinct (map fst m0 @ map fst ps)" "map fst m = map fst ps"
    "\<And>i. i < length ps \<Longrightarrow> dec (snd (ps ! i)) t (zero_of t) = Inr (snd (m ! i))"
  shows "map_pairs dec t ps m0 = Inr (m0 @ m)"
  using assms
proof (induction ps arbitrary: m0 m)
  case (Cons p ps)
  obtain k n where p: "p = (k, n)" by fastforce
  obtain v m' where m: "m = (k, v) # m'" "map fst m' = map fst ps" using Cons.prems(2) p by (cases m) auto
  have d: "dec n t (zero_of t) = Inr v" using Cons.prems(3)[of 0] p m by simp
  have "AList.update k v m0 = m0 @ [(k, v)]" using Cons.prems(1) p by (intro update_fresh) auto
  moreover have "map_pairs dec t ps (m0 @ [(k, v)]) = Inr ((m0 @ [(k, v)]) @ m')"
    using Cons.prems(1) p m Cons.prems(3)[of "Suc _"] by (intro Cons.IH) auto
  ultimately show ?case using p d m by simp
qed simp

lemma struct_pairs_reads:
  assumes "distinct (map fst ps)" "length olds = length fs" "length vs = length fs"
    "\<And>k n i. (k, n) \<in> set ps \<Longrightarrow> field_index uc fs k = Some i \<Longrightarrow> dec n (snd (snd (fs ! i))) (olds ! i) = Inr (vs ! i)"
    "\<And>i. i < length fs \<Longrightarrow> (\<And>k n. (k, n) \<in> set ps \<Longrightarrow> field_index uc fs k \<noteq> Some i) \<Longrightarrow> vs ! i = olds ! i"
  shows "struct_pairs dec uc fs ps olds = Inr vs"
  using assms
proof (induction ps arbitrary: olds)
  case Nil
  then show ?case by (auto intro: nth_equalityI)
next
  case (Cons p ps)
  obtain k n where p: "p = (k, n)" by fastforce
  have k: "k \<notin> fst ` set ps" using Cons.prems(1) p by auto
  show ?case
  proof (cases "field_index uc fs k")
    case None
    have "struct_pairs dec uc fs ps olds = Inr vs"
    proof (rule Cons.IH)
      show "distinct (map fst ps)" "length olds = length fs" "length vs = length fs" using Cons.prems(1-3) by simp_all
      show "dec n (snd (snd (fs ! i))) (olds ! i) = Inr (vs ! i)" if "(k, n) \<in> set ps" "field_index uc fs k = Some i" for k n i
        using Cons.prems(4)[of k n i] that by simp
      show "vs ! i = olds ! i" if "i < length fs" "\<And>k n. (k, n) \<in> set ps \<Longrightarrow> field_index uc fs k \<noteq> Some i" for i
      proof (rule Cons.prems(5)[OF that(1)])
        show "field_index uc fs k' \<noteq> Some i" if "(k', n') \<in> set (p # ps)" for k' n'
          using that p None \<open>\<And>k n. (k, n) \<in> set ps \<Longrightarrow> field_index uc fs k \<noteq> Some i\<close>[of k' n'] by auto
      qed
    qed
    with p None show ?thesis by simp
  next
    case (Some i)
    have i: "i < length fs" using Some by (simp add: field_index_names names_field_def)
    have d: "dec n (snd (snd (fs ! i))) (olds ! i) = Inr (vs ! i)" using Cons.prems(4)[of k n i] p Some by simp
    have other: "j \<noteq> i" if "(k', n') \<in> set ps" "field_index uc fs k' = Some j" for k' n' j
    proof
      assume "j = i"
      with that(2) Some have "k' = k" by (simp add: field_index_names names_field_def)
      with that(1) k show False by force
    qed
    have "struct_pairs dec uc fs ps (olds[i := vs ! i]) = Inr vs"
    proof (rule Cons.IH)
      show "distinct (map fst ps)" "length (olds[i := vs ! i]) = length fs" "length vs = length fs" using Cons.prems(1-3) by simp_all
      show "dec n' (snd (snd (fs ! j))) (olds[i := vs ! i] ! j) = Inr (vs ! j)"
        if "(k', n') \<in> set ps" "field_index uc fs k' = Some j" for k' n' j
        using Cons.prems(4)[of k' n' j] other[OF that] that by simp
      show "vs ! j = olds[i := vs ! i] ! j" if j: "j < length fs" "\<And>k n. (k, n) \<in> set ps \<Longrightarrow> field_index uc fs k \<noteq> Some j" for j
      proof (cases "j = i")
        case True
        then show ?thesis using i Cons.prems(2) by simp
      next
        case False
        have "vs ! j = olds ! j"
        proof (rule Cons.prems(5)[OF j(1)])
          show "field_index uc fs k' \<noteq> Some j" if "(k', n') \<in> set (p # ps)" for k' n'
            using that p Some False j(2)[of k' n'] by auto
        qed
        with False show ?thesis by simp
      qed
    qed
    with p Some d show ?thesis by simp
  qed
qed

lemma seq_items_reads:
  assumes "length vs = length ns" "\<And>i. i < length ns \<Longrightarrow> dec (ns ! i) t (zero_of t) = Inr (vs ! i)"
  shows "seq_items dec t ns = Inr vs"
  using assms
proof (induction ns arbitrary: vs)
  case (Cons n ns)
  then obtain v vs' where v: "vs = v # vs'" "length vs' = length ns" by (cases vs) auto
  have "seq_items dec t ns = Inr vs'" using Cons.prems(2)[of "Suc _"] v by (intro Cons.IH) auto
  with Cons.prems(2)[of 0] v show ?case by simp
qed simp

lemma update_all:
  "distinct (map fst m @ map fst ps) \<Longrightarrow> foldl (\<lambda>m (k, v). AList.update k v m) m ps = m @ ps"
  by (induction ps arbitrary: m) (auto simp: update_fresh)

lemma nodeToInterface_reads: "reads_any uc n g \<Longrightarrow> nodeToInterface uc n = g"
proof (induction rule: reads_any.induct)
  case (any_null s l c)
  then show ?case using interpret_null by simp
next
  case (any_list gs ns l c)
  then show ?case by (auto intro: nth_equalityI)
next
  case (any_map ps gs l c)
  have n: "length gs = length ps" using any_map.hyps(2) by (metis length_map)
  have "map (\<lambda>(k, n). (k, nodeToInterface uc n)) ps = gs"
  proof (rule nth_equalityI)
    show "map (\<lambda>(k, n). (k, nodeToInterface uc n)) ps ! i = gs ! i"
      if "i < length (map (\<lambda>(k, n). (k, nodeToInterface uc n)) ps)" for i
    proof -
      have "fst (gs ! i) = fst (ps ! i)" using that n any_map.hyps(2) by (metis length_map nth_map)
      with any_map.IH[of i] that show ?thesis by (cases "gs ! i") (simp add: case_prod_beta)
    qed
  qed (simp add: n)
  then show ?case using any_map.hyps(1,2) update_all[of "[]" gs] by simp
qed (simp_all add: interpret_bool interpret_int interpret_plain)

lemma decodeInto_ptr:
  assumes "t \<noteq> TAny"
  shows "decodeInto uc n (TPtr t) old =
    (if \<exists>s l c. n = ScalarNode s l c \<and> null_word uc s then Inr (VPtr None)
     else map_sum id (\<lambda>x. VPtr (Some x)) (decodeInto uc n t (elem_of t old)))"
proof (cases n)
  case (ScalarNode s l c)
  then show ?thesis using assms by (simp add: decode_eval(2) interpret_null)
next
  case (MappingNode ps l c)
  then show ?thesis using assms
    by (simp add: decodeInto.simps[of uc "MappingNode ps l c"] decodeMapping.simps[of uc ps "TPtr t"])
next
  case (SequenceNode cs l c)
  then show ?thesis using assms
    by (simp add: decodeInto.simps[of uc "SequenceNode cs l c"] decodeSequence.simps[of uc cs "TPtr t"])
qed

lemma decodeInto_reads: "reads uc t old n v \<Longrightarrow> decodeInto uc n t old = Inr v"
proof (induction rule: reads.induct)
  case (reads_ptr t n old v)
  then show ?case by (auto simp: decodeInto_ptr)
next
  case (reads_nil s t old l c)
  then show ?case by (simp add: decode_eval(2) interpret_null)
next
  case (reads_slice vs ns t old l c)
  then show ?case by (simp add: decode_eval(5) seq_items_reads)
next
  case (reads_map ps m t l c)
  then show ?case using map_pairs_reads[of "[]" ps m "decodeInto uc" t] by (simp add: decode_eval(3))
next
  case (reads_struct ps olds fs vs l c)
  have "struct_pairs (decodeInto uc) uc fs ps olds = Inr vs"
    using reads_struct by (intro struct_pairs_reads) (auto simp: field_index_names)
  then show ?case by (simp add: decode_eval(4))
qed (simp_all add: decode_eval(1,2) nodeToInterface_reads interpret_int interpret_bool)

text \<open>C16: a document is decoded to the value it stands for. When a document parses to a tree that reads as the value
  \<open>v\<close> at the type of a variable, \<open>Unmarshal\<close> stores exactly \<open>v\<close> in it: strings are taken as they are,
  words for null, booleans and integers that fit as their values, lists and maps entry by entry, and the keys of a
  mapping go to the fields of a struct that they name, the others of which keep what they held.\<close>

theorem Unmarshal_reads:
  assumes "Parse doc = Some (Inr n)" "reads uc t old n v"
  shows "Unmarshal uc doc t old = Some (Inr v)"
  by (simp add: Unmarshal_def assms(1) decodeInto_reads[OF assms(2)])

text \<open>The document \<open>a: 12\<close> in a struct of which the field \<open>A\<close> is tagged \<open>a\<close>.\<close>

definition demo_struct :: gotype where
  "demo_struct = TStruct [(''B'', ''b'', TString), (''A'', ''a'', TPtr TInt)]"

theorem Unmarshal_reads_witness:
  "Unmarshal ascii_classes ''a: 12'' demo_struct (VStruct [VString ''old'', VPtr None])
   = Some (Inr (VStruct [VString ''old'', VPtr (Some (VInt 12))]))"
proof (rule Unmarshal_reads[OF Parse_demo])
  have w: "int_word ''12'' 12"
    by (simp add: int_word_def isInteger_def digit_rest_def is_digit_def int_value_def signed_digits_def digits_val_def
        digit_val_def in_int64_def)
  have "\<not> null_word ascii_classes ''12''" using interpret_int[OF w, of ascii_classes] interpret_null[of ascii_classes "''12''"] by simp
  then have p: "reads ascii_classes (TPtr TInt) (VPtr None) (ScalarNode ''12'' 1 4) (VPtr (Some (VInt 12)))"
    by (intro reads_ptr reads_int w) auto
  let ?fs = "[(''B'', ''b'', TString), (''A'', ''a'', TPtr TInt)]"
  have f: "names_field ascii_classes ?fs ''a'' i \<longleftrightarrow> i = 1" for i
    by (auto simp: names_field_def field_name_def less_Suc_eq)
  show "reads ascii_classes demo_struct (VStruct [VString ''old'', VPtr None])
      (MappingNode [(''a'', ScalarNode ''12'' 1 4)] 1 1) (VStruct [VString ''old'', VPtr (Some (VInt 12))])"
    unfolding demo_struct_def
  proof (rule reads_struct)
    show "reads ascii_classes (snd (snd (?fs ! i))) ([VString ''old'', VPtr None] ! i) n ([VString ''old'', VPtr (Some (VInt 12))] ! i)"
      if "(k, n) \<in> set [(''a'', ScalarNode ''12'' 1 4)]" "names_field ascii_classes ?fs k i" for k n i
      using that p f by auto
    show "[VString ''old'', VPtr (Some (VInt 12))] ! i = [VString ''old'', VPtr None] ! i"
      if "i < length ?fs" "\<And>k n. (k, n) \<in> set [(''a'', ScalarNode ''12'' 1 4)] \<Longrightarrow> \<not> names_field ascii_classes ?fs k i" for i
      using that(1) that(2)[of "''a''"] f by (auto simp: less_Suc_eq)
  qed simp_all
qed

end
