(* ===== verification/Stream_Codec.thy ===== *)
theory Stream_Codec
  imports Go_Prelude
begin

text \<open>
  Reading and writing binary records on byte streams. A \<open>[]byte\<close> and the bytes an
  \<open>io.Reader\<close> has left are a \<^typ>\<open>string\<close>, one 8-bit character per byte; reads return the bytes that
  remain. \<open>binary.Read\<close> and \<open>io.ReadFull\<close> are \<open>read_full\<close>. The locale \<open>stream_codec\<close> is the
  contract between an encoder and a decoder that consumes exactly what the encoder wrote; the
  telemetry log (core/telemetry) and the WebSocket framing (connector/browser/cdp) provide it.
\<close>

section \<open>Fixed-width integers\<close>

text \<open>\<open>n\<close> bytes of the little-endian, and big-endian, encodings of a number; what does not fit is
  cut off, as Go's conversions to \<open>uint16\<close>, \<open>uint32\<close> and \<open>uint64\<close> do.\<close>

fun le_bytes :: "nat \<Rightarrow> nat \<Rightarrow> string" where
  "le_bytes 0 x = []"
| "le_bytes (Suc n) x = char_of x # le_bytes n (x div 256)"

fun le_val :: "string \<Rightarrow> nat" where
  "le_val [] = 0"
| "le_val (c # cs) = of_char c + 256 * le_val cs"

definition be_bytes :: "nat \<Rightarrow> nat \<Rightarrow> string" where
  "be_bytes n x = rev (le_bytes n x)"

definition be_val :: "string \<Rightarrow> nat" where
  "be_val cs = le_val (rev cs)"

lemma length_le_bytes [simp]: "length (le_bytes n x) = n"
  by (induction n arbitrary: x) simp_all

lemma length_be_bytes [simp]: "length (be_bytes n x) = n"
  by (simp add: be_bytes_def)

lemma le_val_le_bytes: "le_val (le_bytes n x) = x mod 256 ^ n"
proof (induction n arbitrary: x)
  case (Suc n)
  then show ?case by (simp add: mod_mult2_eq)
qed simp

lemma le_roundtrip [simp]: "x < 256 ^ n \<Longrightarrow> le_val (le_bytes n x) = x"
  by (simp add: le_val_le_bytes)

lemma be_roundtrip [simp]: "x < 256 ^ n \<Longrightarrow> be_val (be_bytes n x) = x"
  by (simp add: be_val_def be_bytes_def)

lemma le_val_bound: "le_val cs < 256 ^ length cs"
proof (induction cs)
  case (Cons c cs)
  have "rn c < (256::nat)" by simp
  with Cons show ?case by (simp only: le_val.simps length_Cons power_Suc)
qed simp

lemma char_of_add_256 [simp]: "char_of (rn a + 256 * x :: nat) = a"
proof -
  have "char_of (rn a + 256 * x) = char_of ((rn a + 256 * x) mod 256 :: nat)"
    by (simp only: char_of_mod_256)
  also have "\<dots> = a" by simp
  finally show ?thesis .
qed

lemma le_bytes_le_val [simp]: "le_bytes (length cs) (le_val cs) = cs"
  by (induction cs) simp_all

section \<open>Reads\<close>

datatype io_error = IO_EOF | IO_ErrUnexpectedEOF

definition read_full :: "nat \<Rightarrow> string \<Rightarrow> (io_error + string) \<times> string" where
  "read_full n r =
     (if n \<le> length r then (Inr (take n r), drop n r)
      else if r = [] then (Inl IO_EOF, [])
      else (Inl IO_ErrUnexpectedEOF, []))"

lemma read_full_append [simp]: "length x = n \<Longrightarrow> read_full n (x @ r) = (Inr x, r)"
  by (simp add: read_full_def)

lemma read_full_short: "length r < n \<Longrightarrow> \<exists>e. read_full n r = (Inl e, [])"
  by (simp add: read_full_def)

text \<open>The readers' common step: read \<open>n\<close> bytes and go on, or stop with what the error is mapped
  to.\<close>

definition with_read ::
  "nat \<Rightarrow> (io_error \<Rightarrow> 'e) \<Rightarrow> string \<Rightarrow> (string \<Rightarrow> string \<Rightarrow> ('e + 'a) \<times> string) \<Rightarrow> ('e + 'a) \<times> string"
where
  "with_read n err r k =
     (case read_full n r of
        (Inl e, r') \<Rightarrow> (Inl (err e), r')
      | (Inr x, r') \<Rightarrow> k x r')"

lemma with_read_append [simp]: "length x = n \<Longrightarrow> with_read n err (x @ r) k = k x r"
  by (simp add: with_read_def)

lemma with_read_enough: "n \<le> length r \<Longrightarrow> with_read n err r k = k (take n r) (drop n r)"
  by (simp add: with_read_def read_full_def)

lemma with_read_short:
  "length r < n \<Longrightarrow> r \<noteq> [] \<Longrightarrow> with_read n err r k = (Inl (err IO_ErrUnexpectedEOF), [])"
  by (simp add: with_read_def read_full_def)

lemma with_read_Nil: "0 < n \<Longrightarrow> with_read n err [] k = (Inl (err IO_EOF), [])"
  by (simp add: with_read_def read_full_def)

lemma with_read_fails:
  "length r < n \<Longrightarrow> (\<And>e. err e = t) \<Longrightarrow> with_read n err r k = (Inl t, [])"
  by (simp add: with_read_def read_full_def)

text \<open>Reading from a stream cut off after \<open>k\<close> bytes.\<close>

lemma with_read_cut:
  assumes "length x = n"
  shows "with_read n err (take k (x @ r)) f =
    (if n \<le> k then f x (take (k - n) r)
     else (Inl (err (if k = 0 then IO_EOF else IO_ErrUnexpectedEOF)), []))"
  using assms by (cases "n \<le> k") (auto simp: with_read_def read_full_def)

section \<open>The contract\<close>

text \<open>Calling a decoder until it fails, at most \<open>n\<close> times: the values and the error.\<close>

fun read_until :: "(string \<Rightarrow> ('e + 'a) \<times> string) \<Rightarrow> nat \<Rightarrow> string \<Rightarrow> 'a list \<times> 'e option" where
  "read_until dec 0 r = ([], None)"
| "read_until dec (Suc n) r =
     (case dec r of
        (Inl e, r') \<Rightarrow> ([], Some e)
      | (Inr x, r') \<Rightarrow> (case read_until dec n r' of (xs, e) \<Rightarrow> (x # xs, e)))"

locale stream_codec =
  fixes enc :: "'a \<Rightarrow> string"
    and dec :: "string \<Rightarrow> ('e + 'b) \<times> string"
    and ok :: "'a \<Rightarrow> bool"
    and same :: "'a \<Rightarrow> 'b \<Rightarrow> bool"
    and ended :: 'e
  assumes dec_enc: "ok x \<Longrightarrow> \<exists>y. dec (enc x @ r) = (Inr y, r) \<and> same x y"
    and dec_end: "dec [] = (Inl ended, [])"
begin

lemma read_until_enc:
  assumes "\<forall>x \<in> set xs. ok x" "length xs < n"
  shows "\<exists>ys. read_until dec n (concat (map enc xs)) = (ys, Some ended) \<and> list_all2 same xs ys"
  using assms
proof (induction xs arbitrary: n)
  case Nil
  then show ?case by (cases n) (simp_all add: dec_end)
next
  case (Cons x xs)
  then obtain m where n: "n = Suc m" "length xs < m" by (cases n) auto
  from Cons.prems obtain y where "dec (enc x @ concat (map enc xs)) = (Inr y, concat (map enc xs))" "same x y"
    using dec_enc[of x "concat (map enc xs)"] by auto
  moreover obtain ys where "read_until dec m (concat (map enc xs)) = (ys, Some ended)" "list_all2 same xs ys"
    using Cons.IH[OF _ n(2)] Cons.prems by auto
  ultimately show ?case by (auto simp: n(1))
qed

lemma enc_inj:
  assumes "ok x" "ok y" "enc x = enc y"
  shows "\<exists>z. same x z \<and> same y z"
  using dec_enc[OF assms(1), of "[]"] dec_enc[OF assms(2), of "[]"] assms(3) by auto

end

text \<open>A decoder that also tells a stream cut inside an encoding from one that ends after it.\<close>

locale cut_codec = stream_codec enc dec ok same ended
  for enc :: "'a \<Rightarrow> string" and dec :: "string \<Rightarrow> ('e + 'b) \<times> string" and ok same ended +
  fixes broken :: 'e
  assumes dec_cut: "ok x \<Longrightarrow> 0 < k \<Longrightarrow> k < length (enc x) \<Longrightarrow> dec (take k (enc x)) = (Inl broken, [])"
begin

lemma read_until_cut:
  assumes "\<forall>x \<in> set xs. ok x" "length xs < n"
  shows "\<exists>m ys. m \<le> length xs \<and> list_all2 same (take m xs) ys
    \<and> length (concat (map enc (take m xs))) \<le> k
    \<and> (m < length xs \<longrightarrow> k < length (concat (map enc (take (Suc m) xs))))
    \<and> read_until dec n (take k (concat (map enc xs))) =
        (ys, Some (if m = length xs \<or> k = length (concat (map enc (take m xs))) then ended else broken))"
  using assms
proof (induction xs arbitrary: n k)
  case Nil
  then show ?case by (cases n) (simp_all add: dec_end)
next
  case (Cons x xs)
  then obtain m where n: "n = Suc m" "length xs < m" by (cases n) auto
  show ?case
  proof (cases "k < length (enc x)")
    case True
    then have t: "take k (concat (map enc (x # xs))) = take k (enc x)" by simp
    have d: "dec (take k (enc x)) = (Inl (if k = 0 then ended else broken), [])"
      using True dec_cut[of x k] dec_end Cons.prems(1) by auto
    have "read_until dec n (take k (concat (map enc (x # xs)))) =
        ([], Some (if k = 0 then ended else broken))"
      unfolding n(1) read_until.simps t d by simp
    with True show ?thesis by (intro exI[of _ 0] exI[of _ "[]"]) simp
  next
    case False
    obtain y where y: "dec (enc x @ r) = (Inr y, r)" "same x y" if "r = take (k - length (enc x)) (concat (map enc xs))" for r
      using dec_enc[of x "take (k - length (enc x)) (concat (map enc xs))"] Cons.prems(1) by auto
    from Cons.IH[OF _ n(2), of "k - length (enc x)"] Cons.prems(1) obtain j ys where
      j: "j \<le> length xs" "list_all2 same (take j xs) ys"
        "length (concat (map enc (take j xs))) \<le> k - length (enc x)"
        "j < length xs \<longrightarrow> k - length (enc x) < length (concat (map enc (take (Suc j) xs)))"
        "read_until dec m (take (k - length (enc x)) (concat (map enc xs))) =
          (ys, Some (if j = length xs \<or> k - length (enc x) = length (concat (map enc (take j xs)))
                     then ended else broken))" by auto
    have "read_until dec n (take k (concat (map enc (x # xs)))) =
        (y # ys, Some (if j = length xs \<or> k - length (enc x) = length (concat (map enc (take j xs)))
                     then ended else broken))"
      using False y(1)[OF refl] j(5) by (simp add: n(1))
    with False j(1-4) y(2)[OF refl] show ?thesis
      by (intro exI[of _ "Suc j"] exI[of _ "y # ys"]) auto
  qed
qed

end

end
