(* ===== verification/Telemetry.thy ===== *)
theory Telemetry
  imports Stream_Codec
begin

text \<open>
  core/telemetry: the binary log. tlv.go's header and record codec, events.go's names, and the
  \<open>Writer\<close> and \<open>Reader\<close> of writer.go and reader.go. Timestamps, event types, versions and flags
  keep their width as words. The underlying \<open>io.Writer\<close> is a buffer that accepts every byte (so the
  \<open>fmt.Errorf\<close> branches for a failing sink do not arise) and the \<open>io.Reader\<close> the bytes left
  of a finite stream, which may end anywhere. The \<open>Writer\<close> has no lock: its functions here are calls of
  one goroutine, each of which ends before the next begins, and say nothing of a log that several goroutines
  write at the same time. The tags of a record are an association list with
  distinct keys, in the order the map happens to be iterated.
\<close>

section \<open>Records and events\<close>

record rec =
  rec_Timestamp :: "64 word"
  rec_EventType :: "16 word"
  rec_Tags :: "(string \<times> string) list"
  rec_Detail :: string

record file_header =
  hdr_Magic :: string
  hdr_Version :: "16 word"
  hdr_Flags :: "16 word"
  hdr_CreatedAt :: "64 word"

datatype tlv_error =
    ErrInvalidMagic
  | ErrUnsupportedVersion
  | ErrTruncatedHeader
  | ErrTruncatedRecord
  | ErrEOF
  | ErrClosedPipe

definition MagicBytes :: string where "MagicBytes = ''SCTL''"
definition Version :: "16 word" where "Version = 1"

definition eventNames :: "(16 word \<times> string) list" where
  "eventNames =
     [(0x01, ''SuiteStart''), (0x02, ''SuiteEnd''), (0x03, ''TestStart''), (0x04, ''TestPass''),
      (0x05, ''TestFail''), (0x06, ''TestSkip''), (0x07, ''StepStart''), (0x08, ''StepEnd''),
      (0x09, ''Assertion''), (0x0A, ''Request''), (0x0B, ''Response''), (0x0C, ''Error''),
      (0x0D, ''ConnectorSetup''), (0x0E, ''ConnectorTeardown''), (0x0F, ''Metric''),
      (0x10, ''InteractionStart''), (0x11, ''InteractionEnd'')]"

text \<open>\<open>%02X\<close>: at least two upper-case hexadecimal digits.\<close>

definition hex_digit :: "nat \<Rightarrow> char" where
  "hex_digit d = (if d < 10 then char_of (48 + d) else char_of (55 + d))"

fun hex_digits :: "nat \<Rightarrow> string" where
  "hex_digits n = (if n < 16 then [hex_digit n] else hex_digits (n div 16) @ [hex_digit (n mod 16)])"

declare hex_digits.simps [simp del]

definition EventType_String :: "16 word \<Rightarrow> string" where
  "EventType_String e =
     (case map_of eventNames e of
        Some name \<Rightarrow> name
      | None \<Rightarrow>
          (let h = hex_digits (unat e) in
           ''Unknown(0x'' @ (if length h < 2 then ''0'' @ h else h) @ '')''))"

section \<open>The header\<close>

definition WriteHeader :: "64 word \<Rightarrow> string" where
  "WriteHeader createdAt =
     MagicBytes @ le_bytes 2 (unat Version) @ le_bytes 2 0 @ le_bytes 8 (unat createdAt)"

definition parse_header :: "string \<Rightarrow> file_header" where
  "parse_header b =
     \<lparr>hdr_Magic = take 4 b, hdr_Version = word_of_nat (le_val (take 2 (drop 4 b))),
      hdr_Flags = word_of_nat (le_val (take 2 (drop 6 b))),
      hdr_CreatedAt = word_of_nat (le_val (take 8 (drop 8 b)))\<rparr>"

definition ReadHeader :: "string \<Rightarrow> (tlv_error + file_header) \<times> string" where
  "ReadHeader r =
     with_read 16 (\<lambda>_. ErrTruncatedHeader) r (\<lambda>b r'.
       let hdr = parse_header b in
       if hdr_Magic hdr \<noteq> MagicBytes then (Inl ErrInvalidMagic, r')
       else if hdr_Version hdr \<noteq> Version then (Inl ErrUnsupportedVersion, r')
       else (Inr hdr, r'))"

section \<open>Tags\<close>

text \<open>One key and its value in the buffer: the lengths are cut to 16 bits, the strings are not.\<close>

definition enc_tag :: "(string \<times> string) list \<Rightarrow> string \<Rightarrow> string" where
  "enc_tag tags k = (let v = the (map_of tags k) in
     le_bytes 2 (length k) @ k @ le_bytes 2 (length v) @ v)"

definition encodeTags :: "(string \<times> string) list \<Rightarrow> string \<times> nat" where
  "encodeTags tags =
     (if tags = [] then ([], 0)
      else (let keys = sort (map fst tags) in
        (concat (map (enc_tag tags) keys), length keys mod 2 ^ 16)))"

text \<open>One length-prefixed string at the front of \<open>data[offset:]\<close>.\<close>

definition take_string :: "string \<Rightarrow> (tlv_error + string \<times> string)" where
  "take_string d =
     (if length d < 2 then Inl ErrTruncatedRecord
      else (let n = le_val (take 2 d); d' = drop 2 d in
        if length d' < n then Inl ErrTruncatedRecord else Inr (take n d', drop n d')))"

primrec decodeTags :: "string \<Rightarrow> nat \<Rightarrow> (string \<times> string) list \<Rightarrow> tlv_error + (string \<times> string) list" where
  "decodeTags d 0 tags = Inr tags"
| "decodeTags d (Suc count) tags =
     (case take_string d of
        Inl e \<Rightarrow> Inl e
      | Inr (key, d1) \<Rightarrow>
          (case take_string d1 of
             Inl e \<Rightarrow> Inl e
           | Inr (val, d2) \<Rightarrow> decodeTags d2 count (AList.update key val tags)))"

section \<open>Records\<close>

definition EncodeRecord :: "rec \<Rightarrow> string" where
  "EncodeRecord r =
     (case encodeTags (rec_Tags r) of (tagsData, tagCount) \<Rightarrow>
        le_bytes 8 (unat (rec_Timestamp r)) @ le_bytes 2 (unat (rec_EventType r))
        @ le_bytes 2 tagCount @ le_bytes 4 (length tagsData) @ le_bytes 4 (length (rec_Detail r))
        @ tagsData @ rec_Detail r)"

definition DecodeRecord :: "string \<Rightarrow> (tlv_error + rec) \<times> string" where
  "DecodeRecord r0 =
     with_read 8 (\<lambda>e. if e = IO_EOF then ErrEOF else ErrTruncatedRecord) r0 (\<lambda>ts r1.
     with_read 2 (\<lambda>_. ErrTruncatedRecord) r1 (\<lambda>et r2.
     with_read 2 (\<lambda>_. ErrTruncatedRecord) r2 (\<lambda>tc r3.
     with_read 4 (\<lambda>_. ErrTruncatedRecord) r3 (\<lambda>tl r4.
     with_read 4 (\<lambda>_. ErrTruncatedRecord) r4 (\<lambda>dl r5.
       let fin = (\<lambda>tags r6.
             if le_val dl > 0 then
               with_read (le_val dl) (\<lambda>_. ErrTruncatedRecord) r6 (\<lambda>detail r7.
                 (Inr \<lparr>rec_Timestamp = word_of_nat (le_val ts), rec_EventType = word_of_nat (le_val et),
                        rec_Tags = tags, rec_Detail = detail\<rparr>, r7))
             else
               (Inr \<lparr>rec_Timestamp = word_of_nat (le_val ts), rec_EventType = word_of_nat (le_val et),
                      rec_Tags = tags, rec_Detail = []\<rparr>, r6))
       in
         if le_val tl > 0 then
           with_read (le_val tl) (\<lambda>_. ErrTruncatedRecord) r5 (\<lambda>td r6.
             case decodeTags td (le_val tc) [] of
               Inl e \<Rightarrow> (Inl e, r6)
             | Inr tags \<Rightarrow> fin tags r6)
         else fin [] r5)))))"

section \<open>Writer and Reader\<close>

record tlv_writer =
  tw_out :: string
  tw_headerDone :: bool
  tw_closed :: bool

definition NewWriter :: tlv_writer where
  "NewWriter = \<lparr>tw_out = [], tw_headerDone = False, tw_closed = False\<rparr>"

text \<open>\<open>now\<close> is what \<open>NowNano\<close> returns.\<close>

definition Writer_Write :: "64 word \<Rightarrow> rec \<Rightarrow> tlv_writer \<Rightarrow> tlv_error option \<times> tlv_writer" where
  "Writer_Write now r tw =
     (if tw_closed tw then (Some ErrClosedPipe, tw)
      else (let tw1 = (if \<not> tw_headerDone tw
                       then tw\<lparr>tw_out := tw_out tw @ WriteHeader now, tw_headerDone := True\<rparr>
                       else tw)
            in (None, tw1\<lparr>tw_out := tw_out tw1 @ EncodeRecord r\<rparr>)))"

definition Writer_Close :: "tlv_writer \<Rightarrow> tlv_writer" where
  "Writer_Close tw = (if tw_closed tw then tw else tw\<lparr>tw_closed := True\<rparr>)"

record tlv_reader =
  tr_rest :: string
  tr_headerDone :: bool
  tr_header :: file_header
  tr_closed :: bool

definition NewReader :: "string \<Rightarrow> tlv_reader" where
  "NewReader r =
     \<lparr>tr_rest = r, tr_headerDone = False,
      tr_header = \<lparr>hdr_Magic = replicate 4 (CHR 0x00), hdr_Version = 0, hdr_Flags = 0, hdr_CreatedAt = 0\<rparr>,
      tr_closed = False\<rparr>"

definition Reader_Next :: "tlv_reader \<Rightarrow> (tlv_error + rec) \<times> tlv_reader" where
  "Reader_Next tr =
     (if tr_closed tr then (Inl ErrClosedPipe, tr)
      else if \<not> tr_headerDone tr then
        (case ReadHeader (tr_rest tr) of
           (Inl e, r1) \<Rightarrow> (Inl e, tr\<lparr>tr_rest := r1\<rparr>)
         | (Inr h, r1) \<Rightarrow>
             (case DecodeRecord r1 of (res, r2) \<Rightarrow>
                (res, tr\<lparr>tr_rest := r2, tr_header := h, tr_headerDone := True\<rparr>)))
      else (case DecodeRecord (tr_rest tr) of (res, r1) \<Rightarrow> (res, tr\<lparr>tr_rest := r1\<rparr>)))"

definition Reader_Close :: "tlv_reader \<Rightarrow> tlv_reader" where
  "Reader_Close tr = (if tr_closed tr then tr else tr\<lparr>tr_closed := True\<rparr>)"

primrec write_all :: "64 word \<Rightarrow> rec list \<Rightarrow> tlv_writer \<Rightarrow> tlv_writer" where
  "write_all now [] tw = tw"
| "write_all now (r # rs) tw = write_all now rs (snd (Writer_Write now r tw))"

text \<open>Calling \<open>Next\<close> until it fails, at most \<open>n\<close> times.\<close>

primrec next_all :: "nat \<Rightarrow> tlv_reader \<Rightarrow> rec list \<times> tlv_error option" where
  "next_all 0 tr = ([], None)"
| "next_all (Suc n) tr =
     (case Reader_Next tr of
        (Inl e, tr') \<Rightarrow> ([], Some e)
      | (Inr r, tr') \<Rightarrow> (case next_all n tr' of (rs, e) \<Rightarrow> (r # rs, e)))"

section \<open>The tags' round trip\<close>

text \<open>The records the format can hold: distinct tag keys (a Go map), lengths that fit their
  fields.\<close>

definition wf_tags :: "(string \<times> string) list \<Rightarrow> bool" where
  "wf_tags tags \<longleftrightarrow> distinct (map fst tags) \<and> length tags < 2 ^ 16 \<and>
     (\<forall>(k, v) \<in> set tags. length k < 2 ^ 16 \<and> length v < 2 ^ 16)"

definition wf_rec :: "rec \<Rightarrow> bool" where
  "wf_rec r \<longleftrightarrow> wf_tags (rec_Tags r) \<and> length (fst (encodeTags (rec_Tags r))) < 2 ^ 32
     \<and> length (rec_Detail r) < 2 ^ 32"

text \<open>Two records are the same up to the order of the tags, which a Go map does not have.\<close>

definition same_rec :: "rec \<Rightarrow> rec \<Rightarrow> bool" where
  "same_rec r r' \<longleftrightarrow> rec_Timestamp r = rec_Timestamp r' \<and> rec_EventType r = rec_EventType r' \<and>
     map_of (rec_Tags r) = map_of (rec_Tags r') \<and> rec_Detail r = rec_Detail r'"

lemma encodeTags_eq:
  "encodeTags tags = (concat (map (enc_tag tags) (sort (map fst tags))), length tags mod 2 ^ 16)"
  by (simp add: encodeTags_def Let_def)

lemma take_string_le [simp]:
  "length k < 2 ^ 16 \<Longrightarrow> take_string (le_bytes 2 (length k) @ k @ d) = Inr (k, d)"
  by (simp add: take_string_def Let_def)

lemma decodeTags_step [simp]:
  assumes "length k < 2 ^ 16" "length (the (map_of tags k)) < 2 ^ 16"
  shows "decodeTags (enc_tag tags k @ d) (Suc n) acc =
    decodeTags d n (AList.update k (the (map_of tags k)) acc)"
  using assms by (simp add: enc_tag_def Let_def)

declare decodeTags.simps(2) [simp del]

lemma decodeTags_enc:
  assumes "\<forall>k \<in> set ks. length k < 2 ^ 16 \<and> length (the (map_of tags k)) < 2 ^ 16"
  shows "\<exists>out. decodeTags (concat (map (enc_tag tags) ks)) (length ks) acc = Inr out \<and>
    map_of out = map_of acc ++ (\<lambda>k. if k \<in> set ks then Some (the (map_of tags k)) else None)"
  using assms
proof (induction ks arbitrary: acc)
  case Nil
  then show ?case by (auto simp: map_add_def)
next
  case (Cons k ks)
  from Cons.IH[of "AList.update k (the (map_of tags k)) acc"] Cons.prems
  obtain out where "decodeTags (concat (map (enc_tag tags) ks)) (length ks) (AList.update k (the (map_of tags k)) acc) = Inr out"
    "map_of out = map_of (AList.update k (the (map_of tags k)) acc)
       ++ (\<lambda>k. if k \<in> set ks then Some (the (map_of tags k)) else None)" by auto
  moreover have "decodeTags (concat (map (enc_tag tags) (k # ks))) (length (k # ks)) acc =
      decodeTags (concat (map (enc_tag tags) ks)) (length ks) (AList.update k (the (map_of tags k)) acc)"
    using Cons.prems by simp
  ultimately show ?case
    by (auto simp: update_conv' map_add_def fun_eq_iff simp del: decodeTags.simps)
qed

lemma decodeTags_encodeTags:
  assumes "wf_tags tags" "encodeTags tags = (d, n)"
  shows "\<exists>out. decodeTags d n [] = Inr out \<and> map_of out = map_of tags"
proof -
  let ?ks = "sort (map fst tags)"
  from assms have d: "d = concat (map (enc_tag tags) ?ks)" and n: "n = length ?ks"
    by (auto simp: encodeTags_eq wf_tags_def)
  have bound: "\<forall>k \<in> set ?ks. length k < 2 ^ 16 \<and> length (the (map_of tags k)) < 2 ^ 16"
    using assms(1) by (fastforce simp: wf_tags_def)
  have "(\<lambda>k. if k \<in> set ?ks then Some (the (map_of tags k)) else None) = map_of tags"
    by (rule ext) (auto simp: domIff dom_map_of_conv_image_fst[symmetric])
  with decodeTags_enc[OF bound, of "[]"] show ?thesis by (auto simp: d n)
qed

section \<open>The records' round trip\<close>

lemma length_word_bytes [simp]:
  "unat (w :: 64 word) < 18446744073709551616" "unat (v :: 16 word) < 65536"
  using unsigned_less[of w, where 'a = nat] unsigned_less[of v, where 'a = nat] by simp_all

lemma word_le_bytes [simp]:
  "(word_of_nat (le_val (le_bytes 8 (unat w))) :: 64 word) = w"
  "(word_of_nat (le_val (le_bytes 2 (unat v))) :: 16 word) = v"
  by simp_all

lemma encodeTags_count: "snd (encodeTags tags) < 256 ^ 2"
  by (simp add: encodeTags_eq)

lemma encodeTags_empty: "fst (encodeTags tags) = [] \<longleftrightarrow> tags = []"
proof (cases tags)
  case (Cons t ts)
  then have "fst t \<in> set (sort (map fst tags))" by (simp add: set_insort_key)
  moreover have "enc_tag tags k \<noteq> []" for k
    using length_le_bytes[of 2 "length k"] by (auto simp: enc_tag_def Let_def simp del: length_le_bytes)
  ultimately have "fst (encodeTags tags) \<noteq> []" by (auto simp: encodeTags_eq)
  with Cons show ?thesis by simp
qed (simp add: encodeTags_eq)

lemma DecodeRecord_EncodeRecord:
  assumes "wf_rec r"
  shows "\<exists>r'. DecodeRecord (EncodeRecord r @ s) = (Inr r', s) \<and> same_rec r r'"
proof -
  obtain d n where dn: "encodeTags (rec_Tags r) = (d, n)" by fastforce
  have lens: "length d < 2 ^ 32" "length (rec_Detail r) < 2 ^ 32" "n < 256 ^ 2"
    using assms dn encodeTags_count[of "rec_Tags r"] by (simp_all add: wf_rec_def)
  from assms dn obtain tags where tags: "decodeTags d n [] = Inr tags" "map_of tags = map_of (rec_Tags r)"
    using decodeTags_encodeTags[of "rec_Tags r" d n] by (auto simp: wf_rec_def)
  define tags' where "tags' = (if d = [] then [] else tags)"
  have map: "map_of tags' = map_of (rec_Tags r)"
    using tags(2) encodeTags_empty[of "rec_Tags r"] dn by (auto simp: tags'_def)
  let ?r' = "\<lparr>rec_Timestamp = rec_Timestamp r, rec_EventType = rec_EventType r, rec_Tags = tags',
      rec_Detail = rec_Detail r\<rparr>"
  have "DecodeRecord (EncodeRecord r @ s) = (Inr ?r', s)"
    using lens tags(1)
    by (cases "rec_Detail r = []"; cases "d = []")
       (simp_all add: DecodeRecord_def EncodeRecord_def dn Let_def tags'_def)
  with map show ?thesis by (simp add: same_rec_def)
qed

lemma DecodeRecord_end: "DecodeRecord [] = (Inl ErrEOF, [])"
  by (simp add: DecodeRecord_def with_read_Nil)

interpretation tlv: stream_codec EncodeRecord DecodeRecord wf_rec same_rec ErrEOF
  by unfold_locales (simp_all add: DecodeRecord_EncodeRecord DecodeRecord_end)

lemma ReadHeader_WriteHeader:
  "\<exists>h. ReadHeader (WriteHeader t @ s) = (Inr h, s) \<and> hdr_CreatedAt h = t"
proof -
  have "length (WriteHeader t) = 16" by (simp add: WriteHeader_def MagicBytes_def)
  moreover have "parse_header (WriteHeader t) =
      \<lparr>hdr_Magic = MagicBytes, hdr_Version = Version, hdr_Flags = 0, hdr_CreatedAt = t\<rparr>"
    by (simp add: parse_header_def WriteHeader_def MagicBytes_def)
  ultimately show ?thesis by (simp add: ReadHeader_def Let_def)
qed

lemma write_all_open:
  "tw_headerDone tw \<Longrightarrow> \<not> tw_closed tw \<Longrightarrow>
   tw_out (write_all now rs tw) = tw_out tw @ concat (map EncodeRecord rs)"
  by (induction rs arbitrary: tw) (simp_all add: Writer_Write_def Let_def)

lemma write_all_new:
  "rs \<noteq> [] \<Longrightarrow> tw_out (write_all now rs NewWriter) = WriteHeader now @ concat (map EncodeRecord rs)"
  by (cases rs) (simp_all add: Writer_Write_def NewWriter_def write_all_open)

lemma next_all_open:
  "tr_headerDone tr \<Longrightarrow> \<not> tr_closed tr \<Longrightarrow> next_all n tr = read_until DecodeRecord n (tr_rest tr)"
  by (induction n arbitrary: tr)
     (auto simp: Reader_Next_def split: prod.splits sum.splits)

lemma next_all_new:
  assumes "0 < n"
  shows "next_all n (NewReader (WriteHeader t @ s)) = read_until DecodeRecord n s"
proof -
  obtain h where h: "ReadHeader (WriteHeader t @ s) = (Inr h, s)"
    using ReadHeader_WriteHeader by blast
  with assms show ?thesis
    by (cases n) (auto simp: Reader_Next_def NewReader_def next_all_open split: prod.splits sum.splits)
qed

text \<open>The log round trip. What a new \<open>Writer\<close> has written after any number of \<open>Write\<close> calls
  (at least one) is read back by a new \<open>Reader\<close> as the same records in the same order, and then
  EOF, for records whose lengths fit the format's 16 and 32 bit fields.\<close>

theorem Writer_Reader_roundtrip:
  assumes "\<forall>r \<in> set rs. wf_rec r" "rs \<noteq> []"
  shows "\<exists>rs'. next_all (length rs + 1) (NewReader (tw_out (write_all now rs NewWriter))) = (rs', Some ErrEOF)
           \<and> list_all2 same_rec rs rs'"
  using tlv.read_until_enc[OF assms(1), of "length rs + 1"] assms(2)
  by (simp add: write_all_new next_all_new del: next_all.simps read_until.simps)

theorem Writer_Reader_roundtrip_witness:
  "\<exists>rs'. next_all 2 (NewReader (tw_out (write_all 5
       [\<lparr>rec_Timestamp = 7, rec_EventType = 3, rec_Tags = [(''k'', ''v'')], rec_Detail = ''x''\<rparr>] NewWriter)))
     = (rs', Some ErrEOF) \<and> length rs' = 1"
proof -
  let ?r = "\<lparr>rec_Timestamp = 7, rec_EventType = 3, rec_Tags = [(''k'', ''v'')], rec_Detail = ''x''\<rparr>"
  have "\<forall>r \<in> set [?r]. wf_rec r" by (simp add: wf_rec_def wf_tags_def encodeTags_eq enc_tag_def Let_def)
  from Writer_Reader_roundtrip[OF this, of 5] obtain rs' where
    "next_all (length [?r] + 1) (NewReader (tw_out (write_all 5 [?r] NewWriter))) = (rs', Some ErrEOF)"
    "list_all2 same_rec [?r] rs'" by blast
  moreover have "length [?r] + 1 = 2" by simp
  ultimately show ?thesis by (metis list_all2_lengthD length_Cons list.size(3) One_nat_def)
qed

section \<open>Truncation\<close>

lemma DecodeRecord_cut:
  assumes "wf_rec r" "0 < k" "k < length (EncodeRecord r)"
  shows "DecodeRecord (take k (EncodeRecord r)) = (Inl ErrTruncatedRecord, [])"
proof -
  obtain d n where dn: "encodeTags (rec_Tags r) = (d, n)" by fastforce
  have lens: "length d < 2 ^ 32" "length (rec_Detail r) < 2 ^ 32" "n < 256 ^ 2"
    using assms(1) dn encodeTags_count[of "rec_Tags r"] by (simp_all add: wf_rec_def)
  from assms(1) dn obtain tags where tags: "decodeTags d n [] = Inr tags"
    using decodeTags_encodeTags[of "rec_Tags r" d n] by (auto simp: wf_rec_def)
  have k: "k < 20 + length d + length (rec_Detail r)"
    using assms(3) by (simp add: EncodeRecord_def dn)
  have cut_end: "with_read n (\<lambda>_. t) (take j (x @ [])) f =
      (if n \<le> j then f x [] else (Inl t, []))" if "length x = n" for n t j x f
    using that by (subst with_read_cut) auto
  show ?thesis
  proof (cases "d = []")
    case True
    with k lens assms(2) show ?thesis
      by (auto simp: DecodeRecord_def EncodeRecord_def dn Let_def with_read_cut cut_end[OF refl, simplified]
          simp del: take_append)
  next
    case False
    with k lens assms(2) tags show ?thesis
      by (auto simp: DecodeRecord_def EncodeRecord_def dn Let_def with_read_cut cut_end[OF refl, simplified]
          simp del: take_append)
  qed
qed

interpretation tlv_cut: cut_codec EncodeRecord DecodeRecord wf_rec same_rec ErrEOF ErrTruncatedRecord
  by unfold_locales (rule DecodeRecord_cut)

lemma ReadHeader_short: "length r < 16 \<Longrightarrow> ReadHeader r = (Inl ErrTruncatedHeader, [])"
  by (simp add: ReadHeader_def with_read_fails)

text \<open>Reading a log that was cut off. Of a log of any records, of which only the first
  \<open>k\<close> bytes reached the disk, the reader returns exactly the records that are complete there;
  after them it reports the end of the log when the cut falls between two records, and a
  truncated record, or header, when it does not.\<close>

theorem Reader_truncated_log:
  assumes "\<forall>r \<in> set rs. wf_rec r" "rs \<noteq> []"
  shows "\<exists>m rs'. m \<le> length rs \<and> list_all2 same_rec (take m rs) rs'
    \<and> (16 \<le> k \<longrightarrow> 16 + length (concat (map EncodeRecord (take m rs))) \<le> k)
    \<and> (m < length rs \<longrightarrow> k < 16 + length (concat (map EncodeRecord (take (Suc m) rs))))
    \<and> next_all (length rs + 1) (NewReader (take k (tw_out (write_all now rs NewWriter)))) =
        (rs', Some (if k < 16 then ErrTruncatedHeader
                    else if m = length rs \<or> k = 16 + length (concat (map EncodeRecord (take m rs)))
                    then ErrEOF else ErrTruncatedRecord))"
proof (cases "k < 16")
  case True
  have "length (WriteHeader now) = 16" by (simp add: WriteHeader_def MagicBytes_def)
  with True assms(2) show ?thesis
    by (intro exI[of _ 0] exI[of _ "[]"])
       (simp add: write_all_new Reader_Next_def NewReader_def ReadHeader_short trans_less_add1)
next
  case False
  have h: "length (WriteHeader now) = 16" by (simp add: WriteHeader_def MagicBytes_def)
  have "take k (tw_out (write_all now rs NewWriter)) =
      WriteHeader now @ take (k - 16) (concat (map EncodeRecord rs))"
    using False h assms(2) by (simp add: write_all_new)
  then have "next_all (length rs + 1) (NewReader (take k (tw_out (write_all now rs NewWriter)))) =
      read_until DecodeRecord (length rs + 1) (take (k - 16) (concat (map EncodeRecord rs)))"
    by (simp add: next_all_new del: next_all.simps read_until.simps)
  moreover obtain m ys where "m \<le> length rs" "list_all2 same_rec (take m rs) ys"
    "length (concat (map EncodeRecord (take m rs))) \<le> k - 16"
    "m < length rs \<longrightarrow> k - 16 < length (concat (map EncodeRecord (take (Suc m) rs)))"
    "read_until DecodeRecord (length rs + 1) (take (k - 16) (concat (map EncodeRecord rs))) =
       (ys, Some (if m = length rs \<or> k - 16 = length (concat (map EncodeRecord (take m rs)))
                  then ErrEOF else ErrTruncatedRecord))"
    using tlv_cut.read_until_cut[OF assms(1), of "length rs + 1" "k - 16"] by auto
  ultimately show ?thesis using False
    by (intro exI[of _ m] exI[of _ ys]) (auto simp del: next_all.simps read_until.simps)
qed

theorem Reader_truncated_log_witness:
  "\<exists>rs'. next_all 2 (NewReader (take 20 (tw_out (write_all 5
       [\<lparr>rec_Timestamp = 7, rec_EventType = 3, rec_Tags = [], rec_Detail = ''x''\<rparr>] NewWriter))))
     = (rs', Some ErrTruncatedRecord)"
proof -
  let ?r = "\<lparr>rec_Timestamp = 7, rec_EventType = 3, rec_Tags = [], rec_Detail = ''x''\<rparr>"
  have wf: "\<forall>r \<in> set [?r]. wf_rec r" by (simp add: wf_rec_def wf_tags_def encodeTags_eq)
  have len: "length (EncodeRecord ?r) = 21" by (simp add: EncodeRecord_def encodeTags_eq)
  from Reader_truncated_log[OF wf, of 20 5] obtain m rs' where m: "m \<le> length [?r]"
    "16 + length (concat (map EncodeRecord (take m [?r]))) \<le> 20"
    "next_all (length [?r] + 1) (NewReader (take 20 (tw_out (write_all 5 [?r] NewWriter)))) =
      (rs', Some (if m = length [?r] \<or> 20 = 16 + length (concat (map EncodeRecord (take m [?r])))
                  then ErrEOF else ErrTruncatedRecord))" by auto
  with len have "m = 0" by (cases m) auto
  with m(3) show ?thesis
    by (intro exI[of _ rs']) (simp add: numeral_2_eq_2 del: next_all.simps write_all.simps)
qed

section \<open>Canonical encoding\<close>

text \<open>The encoding of a record does not depend on the order in which Go iterates over the
  tag map: equal maps have equal encodings.\<close>

theorem EncodeRecord_canonical:
  assumes "distinct (map fst tags)" "distinct (map fst tags')" "map_of tags = map_of tags'"
  shows "EncodeRecord (r\<lparr>rec_Tags := tags\<rparr>) = EncodeRecord (r\<lparr>rec_Tags := tags'\<rparr>)"
proof -
  have "set (map fst tags) = set (map fst tags')"
    using assms(3) by (metis dom_map_of_conv_image_fst list.set_map)
  with assms(1,2) have "sort (map fst tags) = sort (map fst tags')" "length tags = length tags'"
    by (metis sorted_list_of_set_sort_remdups distinct_remdups_id) (metis distinct_card length_map assms(1,2) \<open>set (map fst tags) = set (map fst tags')\<close>)
  moreover have "enc_tag tags = enc_tag tags'" by (simp add: enc_tag_def assms(3) fun_eq_iff)
  ultimately have "encodeTags tags = encodeTags tags'" by (simp add: encodeTags_eq)
  then show ?thesis by (simp add: EncodeRecord_def)
qed

theorem EncodeRecord_canonical_witness:
  "EncodeRecord (\<lparr>rec_Timestamp = 1, rec_EventType = 2, rec_Tags = [], rec_Detail = []\<rparr>\<lparr>rec_Tags := [(''a'', ''1''), (''b'', ''2'')]\<rparr>)
     = EncodeRecord (\<lparr>rec_Timestamp = 1, rec_EventType = 2, rec_Tags = [], rec_Detail = []\<rparr>\<lparr>rec_Tags := [(''b'', ''2''), (''a'', ''1'')]\<rparr>)"
  by (rule EncodeRecord_canonical) auto

end
