(* ===== verification/Expr_Lexer.thy ===== *)
theory Expr_Lexer
  imports Go_Strings Token_Source
begin

text \<open>
  core/expression/token.go and lexer.go. The lexer's \<open>input\<close> and \<open>pos\<close> are kept as the runes that
  are left and the position, which only the errors show. The branch of \<open>Tokenize\<close>'s loop is
  \<open>lex_step\<close>; \<^const>\<open>None\<close> as its token is the end of the input.
\<close>

datatype etok_type = TokenIdent | TokenLParen | TokenRParen | TokenComma | TokenString | TokenNumber | TokenBool

record etoken =
  et_Type :: etok_type
  et_Value :: string

abbreviation etok :: "etok_type \<Rightarrow> string \<Rightarrow> etoken" where
  "etok ty v \<equiv> \<lparr>et_Type = ty, et_Value = v\<rparr>"

datatype lex_error =
    UnexpectedCharacter string nat
  | UnterminatedString nat
  | InvalidNumberAt nat

record lexer =
  lx_rest :: "nat list"
  lx_pos :: nat

definition NewLexer :: "string \<Rightarrow> lexer" where
  "NewLexer input = \<lparr>lx_rest = runes_of input, lx_pos = 0\<rparr>"

text \<open>\<open>l.pos += n\<close>.\<close>

definition skip :: "nat \<Rightarrow> lexer \<Rightarrow> lexer" where
  "skip n l = \<lparr>lx_rest = drop n (lx_rest l), lx_pos = lx_pos l + n\<rparr>"

definition isDigit :: "nat \<Rightarrow> bool" where
  "isDigit r \<longleftrightarrow> rn CHR ''0'' \<le> r \<and> r \<le> rn CHR ''9''"

definition isIdentStart :: "unicode_classes \<Rightarrow> nat \<Rightarrow> bool" where
  "isIdentStart uc r \<longleftrightarrow> is_letter_rune uc r \<or> r = rn CHR ''_''"

definition isIdentPart :: "unicode_classes \<Rightarrow> nat \<Rightarrow> bool" where
  "isIdentPart uc r \<longleftrightarrow> is_letter_rune uc r \<or> is_digit_rune uc r \<or> r = rn CHR ''_'' \<or> r = rn CHR ''.''"

text \<open>A loop \<open>for l.pos < len(l.input) && P(l.input[l.pos]) { l.pos++ }\<close>.\<close>

definition skipWhile :: "(nat \<Rightarrow> bool) \<Rightarrow> lexer \<Rightarrow> lexer" where
  "skipWhile P l = skip (length (takeWhile P (lx_rest l))) l"

definition skipWhitespace :: "lexer \<Rightarrow> lexer" where
  "skipWhitespace l = skipWhile is_space_rune l"

text \<open>\<open>readString\<close> after the opening quote.\<close>

fun string_loop :: "nat \<Rightarrow> string \<Rightarrow> nat \<Rightarrow> nat list \<Rightarrow> lex_error + (etoken \<times> lexer)" where
  "string_loop quote b pos [] = Inl (UnterminatedString pos)"
| "string_loop quote b pos [ch] =
     (if ch = quote then Inr (etok TokenString b, \<lparr>lx_rest = [], lx_pos = pos + 1\<rparr>)
      else string_loop quote (b @ encode_rune ch) (pos + 1) [])"
| "string_loop quote b pos (ch # nx # rest) =
     (if ch = rn BSL \<and> (nx = quote \<or> nx = rn BSL)
      then string_loop quote (b @ encode_rune nx) (pos + 2) rest
      else if ch = quote then Inr (etok TokenString b, \<lparr>lx_rest = nx # rest, lx_pos = pos + 1\<rparr>)
      else string_loop quote (b @ encode_rune ch) (pos + 1) (nx # rest))"

definition readString :: "nat \<Rightarrow> lexer \<Rightarrow> lex_error + (etoken \<times> lexer)" where
  "readString quote l = string_loop quote [] (lx_pos l + 1) (drop 1 (lx_rest l))"

definition at_digit :: "lexer \<Rightarrow> bool" where
  "at_digit l \<longleftrightarrow> lx_rest l \<noteq> [] \<and> isDigit (hd (lx_rest l))"

definition readNumber :: "lexer \<Rightarrow> lex_error + (etoken \<times> lexer)" where
  "readNumber l =
     (let tok = (\<lambda>l'. (etok TokenNumber (string_of_runes (take (lx_pos l' - lx_pos l) (lx_rest l))), l'));
          l1 = (if lx_rest l \<noteq> [] \<and> hd (lx_rest l) = rn CHR ''-'' then skip 1 l else l)
      in if \<not> at_digit l1 then Inl (InvalidNumberAt (lx_pos l))
         else (let l2 = skipWhile isDigit l1 in
           if lx_rest l2 \<noteq> [] \<and> hd (lx_rest l2) = rn CHR ''.''
           then (let l3 = skip 1 l2 in
             if \<not> at_digit l3 then Inl (InvalidNumberAt (lx_pos l)) else Inr (tok (skipWhile isDigit l3)))
           else Inr (tok l2)))"

definition readIdent :: "unicode_classes \<Rightarrow> lexer \<Rightarrow> etoken \<times> lexer" where
  "readIdent uc l =
     (let l' = skipWhile (isIdentPart uc) l;
          value = string_of_runes (takeWhile (isIdentPart uc) (lx_rest l))
      in (etok (if value = ''true'' \<or> value = ''false'' then TokenBool else TokenIdent) value, l'))"

definition lex_step :: "unicode_classes \<Rightarrow> lexer \<Rightarrow> lex_error + (etoken option \<times> lexer)" where
  "lex_step uc l0 =
     (let l = skipWhitespace l0 in
      case lx_rest l of
        [] \<Rightarrow> Inr (None, l)
      | ch # _ \<Rightarrow>
          if ch = rn CHR ''('' then Inr (Some (etok TokenLParen ''(''), skip 1 l)
          else if ch = rn CHR '')'' then Inr (Some (etok TokenRParen '')''), skip 1 l)
          else if ch = rn CHR '','' then Inr (Some (etok TokenComma '',''), skip 1 l)
          else if ch = rn DQ \<or> ch = rn SQ then map_sum id (map_prod Some id) (readString ch l)
          else if ch = rn CHR ''-'' \<or> isDigit ch then map_sum id (map_prod Some id) (readNumber l)
          else if isIdentStart uc ch then (case readIdent uc l of (tok, l') \<Rightarrow> Inr (Some tok, l'))
          else Inl (UnexpectedCharacter (encode_rune ch) (lx_pos l)))"

section \<open>Every token consumes input\<close>

lemma lx_skip [simp]: "lx_rest (skip n l) = drop n (lx_rest l)" "lx_pos (skip n l) = lx_pos l + n"
  by (simp_all add: skip_def)

lemma lx_skipWhile [simp]: "lx_rest (skipWhile P l) = dropWhile P (lx_rest l)"
  by (simp add: skipWhile_def dropWhile_eq_drop)

lemma length_dropWhile_less: "xs \<noteq> [] \<Longrightarrow> P (hd xs) \<Longrightarrow> length (dropWhile P xs) < length xs"
  by (cases xs) (simp_all add: length_dropWhile_le le_imp_less_Suc)

lemma string_loop_shrinks:
  "string_loop q b p rs = Inr (t, l) \<Longrightarrow> length (lx_rest l) < length rs"
  by (induction q b p rs rule: string_loop.induct) (auto split: if_splits)

lemma readString_shrinks:
  "readString q l = Inr (t, l') \<Longrightarrow> length (lx_rest l') < length (lx_rest l)"
  using string_loop_shrinks[of q "[]" "lx_pos l + 1" "drop 1 (lx_rest l)" t l']
  by (auto simp: readString_def)

lemma readNumber_shrinks:
  assumes "readNumber l = Inr (t, l')"
  shows "length (lx_rest l') < length (lx_rest l)"
proof -
  define l1 where "l1 = (if lx_rest l \<noteq> [] \<and> hd (lx_rest l) = rn CHR ''-'' then skip 1 l else l)"
  have d: "at_digit l1" using assms by (auto simp: readNumber_def l1_def Let_def split: if_splits)
  then have "length (dropWhile isDigit (lx_rest l1)) < length (lx_rest l1)"
    by (auto simp: at_digit_def intro: length_dropWhile_less)
  moreover have "length (lx_rest l1) \<le> length (lx_rest l)" by (auto simp: l1_def)
  moreover have "length (lx_rest l') \<le> length (dropWhile isDigit (lx_rest l1))"
    using assms d length_dropWhile_le[of isDigit "drop 1 (dropWhile isDigit (lx_rest l1))"]
    unfolding readNumber_def Let_def l1_def[symmetric]
    by (auto split: if_splits)
  ultimately show ?thesis by linarith
qed

lemma lex_step_progress:
  assumes "lex_step uc l = Inr (Some t, l')"
  shows "length (lx_rest l') < length (lx_rest l)"
proof -
  define k where "k = skipWhitespace l"
  have le: "length (lx_rest k) \<le> length (lx_rest l)"
    by (simp add: k_def skipWhitespace_def length_dropWhile_le)
  obtain ch r where r: "lx_rest k = ch # r"
    using assms by (cases "lx_rest k") (auto simp: lex_step_def k_def Let_def)
  have "length (lx_rest l') < length (lx_rest k)"
  proof (cases "ch = rn DQ \<or> ch = rn SQ \<or> ch = rn CHR ''-'' \<or> isDigit ch")
    case True
    then show ?thesis
      using assms r readString_shrinks[of ch k t l'] readNumber_shrinks[of k t l']
      by (cases "readString ch k"; cases "readNumber k")
         (auto simp: lex_step_def k_def[symmetric] Let_def isDigit_def split: if_splits)
  next
    case False
    have "isIdentStart uc ch \<Longrightarrow> isIdentPart uc ch" by (auto simp: isIdentStart_def isIdentPart_def)
    with False assms r length_dropWhile_less[of "lx_rest k" "isIdentPart uc"] show ?thesis
      by (auto simp: lex_step_def k_def[symmetric] Let_def readIdent_def split: if_splits)
  qed
  with le show ?thesis by linarith
qed

function lex_loop :: "unicode_classes \<Rightarrow> lexer \<Rightarrow> etoken list \<Rightarrow> lex_error + etoken list" where
  "lex_loop uc l tokens =
     (case lex_step uc l of
        Inl e \<Rightarrow> Inl e
      | Inr (None, l') \<Rightarrow> Inr tokens
      | Inr (Some tok, l') \<Rightarrow> lex_loop uc l' (tokens @ [tok]))"
  by pat_completeness auto
termination
  by (relation "measure (\<lambda>(uc, l, ts). length (lx_rest l))") (auto simp: lex_step_progress)

declare lex_loop.simps [simp del]

definition Tokenize :: "unicode_classes \<Rightarrow> lexer \<Rightarrow> lex_error + etoken list" where
  "Tokenize uc l = lex_loop uc l []"

interpretation expr_source: token_source "lex_step uc" "\<lambda>t. t = None" "case_option [] (\<lambda>t. [t])"
    "\<lambda>l. length (lx_rest l)" "lex_loop uc" for uc
proof
  show "lex_step uc l = Inr (t, l') \<Longrightarrow> t \<noteq> None \<Longrightarrow> length (lx_rest l') < length (lx_rest l)" for l t l'
    using lex_step_progress by blast
  show "lex_loop uc l acc = (case lex_step uc l of
      Inl e \<Rightarrow> Inl e
    | Inr (t, s') \<Rightarrow> if t = None then Inr (acc @ case_option [] (\<lambda>t. [t]) t)
        else lex_loop uc s' (acc @ case_option [] (\<lambda>t. [t]) t))" for l acc
    by (simp add: lex_loop.simps[of uc l acc] split: sum.split option.split prod.split)
qed

end
