(* ===== verification/Expr_Parser.thy ===== *)
theory Expr_Parser
  imports Expr_Lexer Parse_Monad Go_Float
begin

text \<open>
  core/expression/ast.go and parser.go: the parser of expression tokens. The parser's \<open>tokens\<close> and
  \<open>pos\<close> are the tokens that are left; \<open>depth\<close> is an argument, its decrement at return being the
  end of the call. Each call to \<open>parseExpr\<close> or turn of the argument loop costs a unit of fuel;
  one per token and one more suffice (\<open>expr_Parse_total\<close>).
\<close>

datatype expr =
    FuncCall string "expr list"
  | StringLit string
  | NumberLit f64 bool
  | BoolLit bool
  | VarRef string

datatype expr_error =
    LexError lex_error
  | EmptyExpression
  | TrailingToken string
  | MaxParseDepth
  | UnexpectedEnd
  | UnexpectedToken string
  | InvalidNumber string
  | ExpectedClose string
  | ExpectedCommaOrClose string string

type_synonym 'a eparse = "(expr_error, etoken, 'a) fueled"

definition maxParseDepth :: nat where "maxParseDepth = 256"

section \<open>Numbers\<close>

text \<open>The value of a number token. The lexer makes such tokens only of an optional minus sign, one or more digits
  and, for a float, a dot with one or more digits after it; on these the definitions are exact. They are not
  \<open>strconv\<close>'s functions on other strings, which the parser never passes to them. \<open>ParseFloat\<close> is the
  nearest double, an error when it is infinite.\<close>

definition dec_rat :: "string \<Rightarrow> rat" where
  "dec_rat s =
     (case split_on (CHR ''.'') s of
        [i, f] \<Rightarrow> of_nat (digits_val i) + of_nat (digits_val f) / 10 ^ length f
      | [i] \<Rightarrow> of_nat (digits_val i)
      | _ \<Rightarrow> 0)"

definition strip_sign :: "string \<Rightarrow> bool \<times> string" where
  "strip_sign s = (case s of c # cs \<Rightarrow> if c = CHR ''-'' then (True, cs) else (False, s) | [] \<Rightarrow> (False, []))"

definition ParseFloat :: "string \<Rightarrow> f64 option" where
  "ParseFloat s =
     (case strip_sign s of (neg, d) \<Rightarrow>
        let x = round_f64 (dec_rat d) in
        if is_fin x then Some (if neg then f64_neg x else x) else None)"

definition ParseInt :: "string \<Rightarrow> int option" where
  "ParseInt s =
     (case strip_sign s of (neg, d) \<Rightarrow>
        let i = (if neg then - int (digits_val d) else int (digits_val d)) in
        if in_int64 i then Some i else None)"

definition parseNumber :: "string \<Rightarrow> expr_error + expr" where
  "parseNumber s =
     (if CHR ''.'' \<in> set s then
        (case ParseFloat s of Some v \<Rightarrow> Inr (NumberLit v False) | None \<Rightarrow> Inl (InvalidNumber s))
      else
        (case ParseInt s of Some v \<Rightarrow> Inr (NumberLit (f64_of_int v) True) | None \<Rightarrow> Inl (InvalidNumber s)))"

section \<open>The parser\<close>

definition of_sum :: "'e + 'a \<Rightarrow> 't list \<Rightarrow> ('e, 't, 'a) fueled" where
  "of_sum r ts = (case r of Inl e \<Rightarrow> pfail e | Inr x \<Rightarrow> pret x ts)"

text \<open>\<open>depth\<close> is the parser's depth when the function is entered. \<open>args_loop\<close> is the loop of
  \<open>parseFuncCall\<close>, with the arguments so far.\<close>

function (sequential) parseExpr :: "nat \<Rightarrow> nat \<Rightarrow> etoken list \<Rightarrow> expr eparse"
  and parseIdentOrCall :: "nat \<Rightarrow> nat \<Rightarrow> string \<Rightarrow> etoken list \<Rightarrow> expr eparse"
  and parseFuncCall :: "nat \<Rightarrow> nat \<Rightarrow> string \<Rightarrow> etoken list \<Rightarrow> expr eparse"
  and args_loop :: "nat \<Rightarrow> nat \<Rightarrow> string \<Rightarrow> expr list \<Rightarrow> etoken list \<Rightarrow> expr eparse"
where
  "parseExpr 0 depth ts = None"
| "parseExpr (Suc n) depth ts =
     (if depth + 1 > maxParseDepth then pfail MaxParseDepth
      else (case ts of
        [] \<Rightarrow> pfail UnexpectedEnd
      | tok # ts' \<Rightarrow>
          (case et_Type tok of
             TokenString \<Rightarrow> pret (StringLit (et_Value tok)) ts'
           | TokenNumber \<Rightarrow> of_sum (parseNumber (et_Value tok)) ts'
           | TokenBool \<Rightarrow> pret (BoolLit (et_Value tok = ''true'')) ts'
           | TokenIdent \<Rightarrow> parseIdentOrCall n (depth + 1) (et_Value tok) ts'
           | _ \<Rightarrow> pfail (UnexpectedToken (et_Value tok)))))"
| "parseIdentOrCall n depth ident ts =
     (case ts of
        tok # ts' \<Rightarrow>
          if et_Type tok = TokenLParen then parseFuncCall n depth ident ts' else pret (VarRef ident) ts
      | [] \<Rightarrow> pret (VarRef ident) ts)"
| "parseFuncCall n depth name ts =
     (case ts of
        tok # ts' \<Rightarrow>
          if et_Type tok = TokenRParen then pret (FuncCall name []) ts'
          else pbind (parseExpr n depth ts) (\<lambda>arg ts''. args_loop n depth name [arg] ts'')
      | [] \<Rightarrow> pbind (parseExpr n depth ts) (\<lambda>arg ts''. args_loop n depth name [arg] ts''))"
| "args_loop 0 depth name args ts = None"
| "args_loop (Suc n) depth name args ts =
     (case ts of
        [] \<Rightarrow> pfail (ExpectedClose name)
      | tok # ts' \<Rightarrow>
          if et_Type tok = TokenRParen then pret (FuncCall name args) ts'
          else if et_Type tok \<noteq> TokenComma then pfail (ExpectedCommaOrClose name (et_Value tok))
          else pbind (parseExpr n depth ts') (\<lambda>arg ts''. args_loop n depth name (args @ [arg]) ts''))"
  by pat_completeness auto
termination
  by (relation "measure (case_sum (case_sum (\<lambda>(n, d, ts). 3 * n) (\<lambda>(n, d, i, ts). 3 * n + 2))
                                  (case_sum (\<lambda>(n, d, i, ts). 3 * n + 1) (\<lambda>(n, d, i, as, ts). 3 * n)))") auto

definition expr_fuel :: "etoken list \<Rightarrow> nat" where
  "expr_fuel ts = length ts + 1"

definition expr_Parse :: "etoken list \<Rightarrow> (expr_error + expr) option" where
  "expr_Parse ts =
     (if ts = [] then Some (Inl EmptyExpression)
      else (case parseExpr (expr_fuel ts) 0 ts of
        None \<Rightarrow> None
      | Some (Inl e) \<Rightarrow> Some (Inl e)
      | Some (Inr (e, [])) \<Rightarrow> Some (Inr e)
      | Some (Inr (e, tok # _)) \<Rightarrow> Some (Inl (TrailingToken (et_Value tok)))))"

lemmas expr_induct = parseExpr_parseIdentOrCall_parseFuncCall_args_loop.induct

lemma of_sum_simps [simp]:
  "answers (of_sum r ts)" "of_sum r ts = Some (Inr (x, ts')) \<longleftrightarrow> r = Inr x \<and> ts' = ts"
  by (auto simp: of_sum_def split: sum.splits)

lemma expr_consumes:
  "parseExpr n d ts = Some (Inr (x, ts')) \<Longrightarrow> length ts' < length ts"
  "parseIdentOrCall n d i ts = Some (Inr (x, ts')) \<Longrightarrow> length ts' \<le> length ts"
  "parseFuncCall n d i ts = Some (Inr (x, ts')) \<Longrightarrow> length ts' < length ts"
  "args_loop n d i as ts = Some (Inr (x, ts')) \<Longrightarrow> length ts' < length ts"
proof (induction n d ts and n d i ts and n d i ts and n d i as ts
    arbitrary: x ts' and x ts' and x ts' and x ts' rule: expr_induct)
  case (2 n depth ts)
  then show ?case
    by (fastforce split: if_splits list.splits etok_type.splits)
next
  case (3 n depth ident ts)
  then show ?case by (fastforce split: if_splits list.splits)
next
  case (4 n depth name ts)
  then show ?case by (fastforce simp: pbind_eq_Inr split: if_splits list.splits)
next
  case (6 n depth name as ts)
  then show ?case by (fastforce simp: pbind_eq_Inr split: if_splits list.splits)
qed simp_all

lemma expr_enough:
  "length ts + 1 \<le> n \<Longrightarrow> answers (parseExpr n d ts)"
  "length ts + 1 \<le> n \<Longrightarrow> answers (parseIdentOrCall n d i ts)"
  "length ts + 1 \<le> n \<Longrightarrow> answers (parseFuncCall n d i ts)"
  "length ts + 1 \<le> n \<Longrightarrow> answers (args_loop n d i as ts)"
proof (induction n d ts and n d i ts and n d i ts and n d i as ts rule: expr_induct)
  case (2 n depth ts)
  then show ?case by (auto split: list.splits etok_type.splits)
next
  case (3 n depth ident ts)
  then show ?case by (auto split: list.splits)
next
  case (4 n depth name ts)
  then show ?case
    using expr_consumes(1)[of n depth ts] by (fastforce split: list.splits)
next
  case (6 n depth name as ts)
  then show ?case
    using expr_consumes(1)[of n depth "tl ts"] by (fastforce split: list.splits)
qed simp_all

lemma expr_Parse_total: "\<exists>r. expr_Parse ts = Some r"
  using expr_enough(1)[of ts "expr_fuel ts" 0]
  by (auto simp: expr_Parse_def expr_fuel_def answers_def split: sum.splits list.splits)

section \<open>Depth\<close>

fun edepth :: "expr \<Rightarrow> nat" where
  "edepth (FuncCall name args) = Suc (fold max (map edepth args) 0)"
| "edepth _ = 1"

definition adepth :: "expr list \<Rightarrow> nat" where
  "adepth args = fold max (map edepth args) 0"

lemma fold_max: "fold max xs (m::nat) = max m (fold max xs 0)"
proof (induction xs arbitrary: m)
  case (Cons x xs)
  then show ?case by (metis fold_simps(2) max.assoc max_0L max_0R max.commute)
qed simp

lemma adepth_simps [simp]:
  "adepth [] = 0" "adepth (x # xs) = max (edepth x) (adepth xs)"
  "adepth (xs @ [x]) = max (adepth xs) (edepth x)"
  by (simp_all add: adepth_def fold_max[of _ "edepth x"] max.commute)

lemma edepth_call [simp]: "edepth (FuncCall name args) = Suc (adepth args)"
  by (simp add: adepth_def)

declare edepth.simps(1) [simp del]

lemma edepth_pos: "1 \<le> edepth e"
  by (cases e) simp_all

lemma parseNumber_depth: "parseNumber s = Inr e \<Longrightarrow> edepth e = 1"
  by (auto simp: parseNumber_def split: if_splits option.splits)

text \<open>What the parser accepts at depth \<open>d\<close> nests at most \<open>256 - d\<close> calls deep.\<close>

lemma parse_depth:
  "parseExpr n d ts = Some (Inr (x, ts')) \<Longrightarrow> edepth x + d \<le> maxParseDepth"
  "d \<le> maxParseDepth \<Longrightarrow> 1 \<le> d \<Longrightarrow> parseIdentOrCall n d i ts = Some (Inr (x, ts')) \<Longrightarrow> edepth x + d \<le> maxParseDepth + 1"
  "d \<le> maxParseDepth \<Longrightarrow> 1 \<le> d \<Longrightarrow> parseFuncCall n d i ts = Some (Inr (x, ts')) \<Longrightarrow> edepth x + d \<le> maxParseDepth + 1"
  "d \<le> maxParseDepth \<Longrightarrow> 1 \<le> d \<Longrightarrow> adepth as + d \<le> maxParseDepth \<Longrightarrow>
     args_loop n d i as ts = Some (Inr (x, ts')) \<Longrightarrow> edepth x + d \<le> maxParseDepth + 1"
proof (induction n d ts and n d i ts and n d i ts and n d i as ts
    arbitrary: x ts' and x ts' and x ts' and x ts' rule: expr_induct)
  case (2 n depth ts)
  then show ?case
    by (fastforce dest: parseNumber_depth split: if_splits list.splits etok_type.splits)
next
  case (3 n depth ident ts)
  then show ?case by (fastforce split: if_splits list.splits)
next
  case (4 n depth name ts)
  then show ?case by (fastforce simp: pbind_eq_Inr split: if_splits list.splits)
next
  case (6 n depth name as ts)
  show ?case
  proof (cases "ts \<noteq> [] \<and> et_Type (hd ts) = TokenComma")
    case False
    with "6.prems" show ?thesis by (cases ts) (auto split: if_splits)
  next
    case True
    then obtain tok r where ts: "ts = tok # r" "et_Type tok = TokenComma" by (cases ts) auto
    with "6.prems"(4) obtain arg r' where
      arg: "parseExpr n depth r = Some (Inr (arg, r'))"
      and loop: "args_loop n depth name (as @ [arg]) r' = Some (Inr (x, ts'))"
      by (auto simp: pbind_eq_Inr)
    have c: "et_Type tok \<noteq> TokenRParen" "\<not> et_Type tok \<noteq> TokenComma" using ts(2) by simp_all
    have "edepth arg + depth \<le> maxParseDepth" by (rule "6.IH"(1)[OF ts(1) c arg])
    with "6.prems"(3) have "adepth (as @ [arg]) + depth \<le> maxParseDepth" by simp
    then show ?thesis by (rule "6.IH"(2)[OF ts(1) c "6.prems"(1,2) _ loop])
  qed
qed simp_all

lemma expr_Parse_depth: "expr_Parse ts = Some (Inr e) \<Longrightarrow> edepth e \<le> maxParseDepth"
  using parse_depth(1)[of "expr_fuel ts" 0 ts e]
  by (auto simp: expr_Parse_def split: if_splits option.splits sum.splits list.splits)

section \<open>The grammar\<close>

text \<open>The language of the parser as a context-free grammar over token types.\<close>

inductive derives :: "etoken list \<Rightarrow> expr \<Rightarrow> bool"
  and derives_tail :: "etoken list \<Rightarrow> expr list \<Rightarrow> bool"
where
  d_string: "et_Type t = TokenString \<Longrightarrow> derives [t] (StringLit (et_Value t))"
| d_number: "et_Type t = TokenNumber \<Longrightarrow> parseNumber (et_Value t) = Inr e \<Longrightarrow> derives [t] e"
| d_bool: "et_Type t = TokenBool \<Longrightarrow> derives [t] (BoolLit (et_Value t = ''true''))"
| d_var: "et_Type t = TokenIdent \<Longrightarrow> derives [t] (VarRef (et_Value t))"
| d_call0: "et_Type t = TokenIdent \<Longrightarrow> et_Type l = TokenLParen \<Longrightarrow> et_Type r = TokenRParen \<Longrightarrow>
    derives [t, l, r] (FuncCall (et_Value t) [])"
| d_call: "et_Type t = TokenIdent \<Longrightarrow> et_Type l = TokenLParen \<Longrightarrow> et_Type r = TokenRParen \<Longrightarrow>
    derives us e \<Longrightarrow> derives_tail vs es \<Longrightarrow> derives (t # l # us @ vs @ [r]) (FuncCall (et_Value t) (e # es))"
| d_end: "derives_tail [] []"
| d_comma: "et_Type c = TokenComma \<Longrightarrow> derives us e \<Longrightarrow> derives_tail vs es \<Longrightarrow>
    derives_tail (c # us @ vs) (e # es)"

lemma derives_ne: "derives us e \<Longrightarrow> us \<noteq> []"
  by (erule derives.cases) simp_all

lemma derives_first: "derives us e \<Longrightarrow> et_Type (hd us) \<notin> {TokenLParen, TokenRParen, TokenComma}"
  by (erule derives.cases) simp_all

lemma parse_sound:
  "parseExpr n d ts = Some (Inr (x, ts')) \<Longrightarrow> \<exists>us. ts = us @ ts' \<and> derives us x"
  "parseIdentOrCall n d i ts = Some (Inr (x, ts')) \<Longrightarrow>
     \<exists>us. ts = us @ ts' \<and> (\<forall>t. et_Type t = TokenIdent \<longrightarrow> et_Value t = i \<longrightarrow> derives (t # us) x)"
  "parseFuncCall n d i ts = Some (Inr (x, ts')) \<Longrightarrow>
     \<exists>us. ts = us @ ts' \<and> (\<forall>t l. et_Type t = TokenIdent \<longrightarrow> et_Value t = i \<longrightarrow> et_Type l = TokenLParen
       \<longrightarrow> derives (t # l # us) x)"
  "args_loop n d i as ts = Some (Inr (x, ts')) \<Longrightarrow>
     \<exists>vs r es. ts = vs @ r # ts' \<and> et_Type r = TokenRParen \<and> derives_tail vs es \<and> x = FuncCall i (as @ es)"
proof (induction n d ts and n d i ts and n d i ts and n d i as ts
    arbitrary: x ts' and x ts' and x ts' and x ts' rule: expr_induct)
  case (2 n depth ts)
  from "2.prems" obtain tok r where ts: "ts = tok # r" and dep: "\<not> depth + 1 > maxParseDepth"
    by (cases ts) (auto split: if_splits)
  show ?case
  proof (cases "et_Type tok = TokenIdent")
    case True
    with "2.prems" ts dep have "parseIdentOrCall n (depth + 1) (et_Value tok) r = Some (Inr (x, ts'))" by simp
    from "2.IH"[OF dep ts True this] obtain us where "r = us @ ts'" "derives (tok # us) x" using True by auto
    with ts show ?thesis by (intro exI[of _ "tok # us"]) simp
  next
    case False
    with "2.prems" ts dep show ?thesis
      by (intro exI[of _ "[tok]"]) (auto intro: d_string d_number d_bool split: etok_type.splits)
  qed
next
  case (3 n depth ident ts)
  show ?case
  proof (cases "ts \<noteq> [] \<and> et_Type (hd ts) = TokenLParen")
    case True
    then obtain l r where l: "ts = l # r" "et_Type l = TokenLParen" by (cases ts) auto
    with "3.prems" have "parseFuncCall n depth ident r = Some (Inr (x, ts'))" by simp
    from "3.IH"[OF l this] l obtain us where "r = us @ ts'"
      "\<forall>t. et_Type t = TokenIdent \<longrightarrow> et_Value t = ident \<longrightarrow> derives (t # l # us) x" by blast
    with l show ?thesis by (intro exI[of _ "l # us"]) simp
  next
    case False
    with "3.prems" have "x = VarRef ident \<and> ts' = ts" by (cases ts) auto
    then show ?thesis by (intro exI[of _ "[]"]) (auto intro: d_var)
  qed
next
  case (4 n depth name ts)
  show ?case
  proof (cases "ts \<noteq> [] \<and> et_Type (hd ts) = TokenRParen")
    case True
    then obtain r rs where r: "ts = r # rs" "et_Type r = TokenRParen" by (cases ts) auto
    with "4.prems" show ?thesis by (intro exI[of _ "[r]"]) (auto intro: d_call0)
  next
    case False
    with "4.prems" have "pbind (parseExpr n depth ts) (\<lambda>arg ts''. args_loop n depth name [arg] ts'') = Some (Inr (x, ts'))"
      by (cases ts) auto
    then obtain arg r' where arg: "parseExpr n depth ts = Some (Inr (arg, r'))"
      and loop: "args_loop n depth name [arg] r' = Some (Inr (x, ts'))" by (auto simp: pbind_eq_Inr)
    have "(\<exists>us. ts = us @ r' \<and> derives us arg)
      \<and> (\<exists>vs r es. r' = vs @ r # ts' \<and> et_Type r = TokenRParen \<and> derives_tail vs es \<and> x = FuncCall name ([arg] @ es))"
    proof (cases ts)
      case Nil
      with "4.IH"(1)[OF Nil arg] "4.IH"(2)[OF Nil loop] show ?thesis by blast
    next
      case (Cons tok r)
      with False have nr: "\<not> et_Type tok = TokenRParen" by simp
      from "4.IH"(3)[OF Cons nr arg] "4.IH"(4)[OF Cons nr loop] show ?thesis by blast
    qed
    then obtain us vs r es where d: "ts = us @ r'" "derives us arg" "r' = vs @ r # ts'" "et_Type r = TokenRParen"
      "derives_tail vs es" "x = FuncCall name (arg # es)" by auto
    then show ?thesis
      by (intro exI[of _ "us @ vs @ [r]"]) (auto intro: d_call)
  qed
next
  case (6 n depth name as ts)
  show ?case
  proof (cases "ts \<noteq> [] \<and> et_Type (hd ts) = TokenComma")
    case False
    with "6.prems" show ?thesis
      by (cases ts) (auto intro!: exI[of _ "[]"] d_end split: if_splits)
  next
    case True
    then obtain tok r where ts: "ts = tok # r" "et_Type tok = TokenComma" by (cases ts) auto
    with "6.prems" obtain arg r' where
      arg: "parseExpr n depth r = Some (Inr (arg, r'))"
      and loop: "args_loop n depth name (as @ [arg]) r' = Some (Inr (x, ts'))"
      by (auto simp: pbind_eq_Inr)
    have c: "et_Type tok \<noteq> TokenRParen" "\<not> et_Type tok \<noteq> TokenComma" using ts(2) by simp_all
    from "6.IH"(1)[OF ts(1) c arg] "6.IH"(2)[OF ts(1) c loop] obtain us vs r0 es where
      d: "r = us @ r'" "derives us arg" "r' = vs @ r0 # ts'" "et_Type r0 = TokenRParen" "derives_tail vs es"
        "x = FuncCall name ((as @ [arg]) @ es)" by blast
    with ts show ?thesis
      by (intro exI[of _ "tok # us @ vs"] exI[of _ r0] exI[of _ "arg # es"]) (auto intro: d_comma)
  qed
qed simp_all

lemma parse_complete:
  "derives us e \<Longrightarrow> edepth e + d \<le> maxParseDepth \<Longrightarrow> length us + length ts + 1 \<le> n \<Longrightarrow>
     ts = [] \<or> et_Type (hd ts) \<noteq> TokenLParen \<Longrightarrow> parseExpr n d (us @ ts) = Some (Inr (e, ts))"
  "derives_tail vs es \<Longrightarrow> adepth es + d \<le> maxParseDepth \<Longrightarrow> length vs + length ts + 2 \<le> n \<Longrightarrow>
     et_Type r = TokenRParen \<Longrightarrow> args_loop n d name as (vs @ r # ts) = Some (Inr (FuncCall name (as @ es), ts))
     \<and> (\<forall>t. vs = [] \<or> et_Type (hd vs) = TokenComma)"
proof (induction arbitrary: n d ts and n d ts as r name rule: derives_derives_tail.inducts)
  case (d_string t)
  then show ?case by (cases n) auto
next
  case (d_number t e)
  then show ?case using parseNumber_depth[of "et_Value t" e] by (cases n) (auto simp: of_sum_def)
next
  case (d_bool t)
  then show ?case by (cases n) auto
next
  case (d_var t)
  then show ?case by (cases n) (auto split: list.split)
next
  case (d_call0 t l r)
  then show ?case by (cases n) auto
next
  case (d_call t l r us e vs es)
  then obtain m where n: "n = Suc m" by (cases n) auto
  have ne: "us \<noteq> []" "et_Type (hd us) \<noteq> TokenRParen" using d_call.hyps(4) derives_ne derives_first by blast+
  have tail: "args_loop m (d + 1) (et_Value t) [e] (vs @ r # ts) = Some (Inr (FuncCall (et_Value t) ([e] @ es), ts))"
    "vs = [] \<or> et_Type (hd vs) = TokenComma"
    using d_call.IH(2)[of "d + 1" ts m r "et_Value t" "[e]"] d_call.prems d_call.hyps(3) n by auto
  have "parseExpr m (d + 1) (us @ vs @ r # ts) = Some (Inr (e, vs @ r # ts))"
    using d_call.IH(1)[of "d + 1" "vs @ r # ts" m] d_call.prems d_call.hyps(3) n tail(2) by (cases vs) auto
  moreover have "us @ vs @ r # ts \<noteq> []" by simp
  ultimately have "parseFuncCall m (d + 1) (et_Value t) (us @ vs @ r # ts)
      = Some (Inr (FuncCall (et_Value t) (e # es), ts))"
    using ne tail(1) by (cases us) auto
  then show ?case using d_call.prems d_call.hyps n by auto
next
  case d_end
  then show ?case by (cases n) auto
next
  case (d_comma c us e vs es)
  then obtain m where n: "n = Suc m" by (cases n) auto
  have tail: "args_loop m d name (as @ [e]) (vs @ r # ts) = Some (Inr (FuncCall name ((as @ [e]) @ es), ts))"
    "vs = [] \<or> et_Type (hd vs) = TokenComma"
    using d_comma.IH(2)[of d ts m r name "as @ [e]"] d_comma.prems n by auto
  have "parseExpr m d (us @ vs @ r # ts) = Some (Inr (e, vs @ r # ts))"
    using d_comma.IH(1)[of d "vs @ r # ts" m] d_comma.prems n tail(2) by (cases vs) auto
  with tail d_comma.hyps n show ?case by auto
qed

lemma expr_Parse_iff: "expr_Parse ts = Some (Inr e) \<longleftrightarrow> derives ts e \<and> edepth e \<le> maxParseDepth"
proof
  assume p: "expr_Parse ts = Some (Inr e)"
  then have "parseExpr (expr_fuel ts) 0 ts = Some (Inr (e, []))"
    by (auto simp: expr_Parse_def split: if_splits option.splits sum.splits list.splits)
  from parse_sound(1)[OF this] have "derives ts e" by auto
  with expr_Parse_depth[OF p] show "derives ts e \<and> edepth e \<le> maxParseDepth" by simp
next
  assume a: "derives ts e \<and> edepth e \<le> maxParseDepth"
  then have "parseExpr (expr_fuel ts) 0 ts = Some (Inr (e, []))"
    using parse_complete(1)[of ts e 0 "[]" "expr_fuel ts"] by (simp add: expr_fuel_def)
  then show "expr_Parse ts = Some (Inr e)" using a derives_ne by (auto simp: expr_Parse_def)
qed

text \<open>C20: the parser accepts exactly the grammar. A token list parses to \<open>e\<close> if and only if the
  grammar derives \<open>e\<close> from the whole list and \<open>e\<close> nests at most 256 deep; and parsing always
  answers.\<close>

theorem expr_Parse_grammar:
  "(\<exists>r. expr_Parse ts = Some r) \<and>
   (expr_Parse ts = Some (Inr e) \<longleftrightarrow> derives ts e \<and> edepth e \<le> maxParseDepth)"
  using expr_Parse_total expr_Parse_iff by blast

end
