(* ===== verification/Registries.thy ===== *)
theory Registries
  imports Go_Prelude
begin

text \<open>
  The three registries of the program: connectors (core/connector/registry.go), fleet providers
  (core/fleet/registry.go) and expression functions (core/expression/registry.go). Each maps a name
  to what was registered under it first. The locales state what their clients (the engine, the
  orchestrator, the evaluator) rely on; every registry is an instance. The entries are opaque, a
  factory being a function of no argument.
\<close>

section \<open>The interface\<close>

locale registry =
  fixes empty :: 'r
    and register :: "'r \<Rightarrow> string \<Rightarrow> 'f \<Rightarrow> 'e option \<times> 'r"
    and lookup :: "'r \<Rightarrow> string \<Rightarrow> 'f option"
  assumes lookup_empty: "lookup empty n = None"
    and register_new: "lookup r n = None \<Longrightarrow> fst (register r n f) = None"
    and lookup_register: "lookup r n = None \<Longrightarrow> lookup (snd (register r n f)) m = (if m = n then Some f else lookup r m)"
    and register_dup: "lookup r n \<noteq> None \<Longrightarrow> fst (register r n f) \<noteq> None \<and> snd (register r n f) = r"
begin

definition register_all :: "(string \<times> 'f) list \<Rightarrow> 'r \<Rightarrow> 'r" where
  "register_all fs r = foldl (\<lambda>r (n, f). snd (register r n f)) r fs"

text \<open>The first registration of a name is the one that counts.\<close>

lemma lookup_register_all:
  "lookup (register_all fs r) n = (case lookup r n of Some f \<Rightarrow> Some f | None \<Rightarrow> map_of fs n)"
proof (induction fs arbitrary: r)
  case Nil
  then show ?case by (simp add: register_all_def split: option.split)
next
  case (Cons nf fs)
  obtain m f where nf: "nf = (m, f)" by fastforce
  have "lookup (register_all (nf # fs) r) n = lookup (register_all fs (snd (register r m f))) n"
    by (simp add: register_all_def nf)
  also have "\<dots> = (case lookup r n of Some f \<Rightarrow> Some f | None \<Rightarrow> map_of (nf # fs) n)"
  proof (cases "lookup r m")
    case None
    then show ?thesis by (auto simp: Cons.IH lookup_register nf split: option.split)
  next
    case (Some g)
    with register_dup[of r m f] show ?thesis by (auto simp: Cons.IH nf split: option.split)
  qed
  finally show ?case .
qed

lemma lookup_register_all_empty: "lookup (register_all fs empty) n = map_of fs n"
  by (simp add: lookup_register_all lookup_empty)

end

text \<open>A registry that also lists the names it holds, in some order, or in ascending order.\<close>

locale listed_registry = registry empty register lookup
  for empty :: 'r and register :: "'r \<Rightarrow> string \<Rightarrow> 'f \<Rightarrow> 'e option \<times> 'r" and lookup +
  fixes names :: "'r \<Rightarrow> string list" and inv :: "'r \<Rightarrow> bool"
  assumes inv_empty: "inv empty"
    and inv_register: "inv r \<Longrightarrow> inv (snd (register r n f))"
    and set_names: "inv r \<Longrightarrow> set (names r) = {n. lookup r n \<noteq> None}"
    and distinct_names: "inv r \<Longrightarrow> distinct (names r)"
begin

lemma inv_register_all: "inv r \<Longrightarrow> inv (register_all fs r)"
  by (induction fs arbitrary: r) (auto simp: register_all_def inv_register split: prod.splits)

lemma names_register_all:
  "set (names (register_all fs empty)) = fst ` set fs" "distinct (names (register_all fs empty))"
  using inv_register_all[OF inv_empty, of fs]
  by (auto simp: set_names distinct_names lookup_register_all_empty map_of_eq_None_iff)

end

locale sorted_registry = listed_registry +
  assumes sorted_names: "sorted (names r)"
begin

lemma names_determined:
  "names (register_all fs empty) = sort (remdups (map fst fs))"
proof (rule sorted_distinct_set_unique)
  show "set (names (register_all fs empty)) = set (sort (remdups (map fst fs)))"
    by (simp add: names_register_all)
qed (simp_all add: names_register_all sorted_names)

end

section \<open>The model's registries\<close>

type_synonym 'f reg = "(string \<times> 'f) list"

datatype reg_error = AlreadyRegistered string

definition NewRegistry :: "'f reg" where "NewRegistry = []"

definition connector_Register :: "'f reg \<Rightarrow> string \<Rightarrow> 'f \<Rightarrow> reg_error option \<times> 'f reg" where
  "connector_Register r name f =
     (if map_of r name \<noteq> None then (Some (AlreadyRegistered name), r)
      else (None, AList.update name f r))"

definition connector_Get :: "(unit \<Rightarrow> 'c) reg \<Rightarrow> string \<Rightarrow> 'c option" where
  "connector_Get r name = (case map_of r name of None \<Rightarrow> None | Some f \<Rightarrow> Some (f ()))"

definition connector_Names :: "'f reg \<Rightarrow> string list" where
  "connector_Names r = sort (map fst r)"

definition fleet_Register :: "'f reg \<Rightarrow> string \<Rightarrow> 'f \<Rightarrow> reg_error option \<times> 'f reg" where
  "fleet_Register r name f =
     (if map_of r name \<noteq> None then (Some (AlreadyRegistered name), r)
      else (None, AList.update name f r))"

definition fleet_Get :: "(unit \<Rightarrow> 'p) reg \<Rightarrow> string \<Rightarrow> 'p option" where
  "fleet_Get r name = (case map_of r name of None \<Rightarrow> None | Some f \<Rightarrow> Some (f ()))"

definition fleet_Names :: "'f reg \<Rightarrow> string list" where
  "fleet_Names r = sort (map fst r)"

definition expr_Register :: "'f reg \<Rightarrow> string \<Rightarrow> 'f \<Rightarrow> reg_error option \<times> 'f reg" where
  "expr_Register r name fn =
     (if map_of r name \<noteq> None then (Some (AlreadyRegistered name), r)
      else (None, AList.update name fn r))"

definition expr_Get :: "'f reg \<Rightarrow> string \<Rightarrow> 'f option" where
  "expr_Get r name = map_of r name"

text \<open>The order of these names is that of Go's iteration over the map.\<close>

definition expr_Names :: "'f reg \<Rightarrow> string list" where
  "expr_Names r = map fst r"

lemma update_new: "k \<notin> fst ` set xs \<Longrightarrow> AList.update k v xs = xs @ [(k, v)]"
  by (induction xs) auto

lemma distinct_update_fst: "distinct (map fst r) \<Longrightarrow> distinct (map fst (AList.update k v r))"
  by (rule distinct_update)

interpretation conn_reg: sorted_registry "NewRegistry :: 'f reg" connector_Register "map_of" connector_Names
    "\<lambda>r. distinct (map fst r)"
  by unfold_locales
     (auto simp: NewRegistry_def connector_Register_def connector_Names_def distinct_update_fst map_of_eq_None_iff
        update_conv')

interpretation fleet_reg: sorted_registry "NewRegistry :: 'f reg" fleet_Register "map_of" fleet_Names
    "\<lambda>r. distinct (map fst r)"
  by unfold_locales
     (auto simp: NewRegistry_def fleet_Register_def fleet_Names_def distinct_update_fst map_of_eq_None_iff
        update_conv')

interpretation expr_reg: listed_registry "NewRegistry :: 'f reg" expr_Register expr_Get expr_Names
    "\<lambda>r. distinct (map fst r)"
  by unfold_locales
     (auto simp: NewRegistry_def expr_Register_def expr_Get_def expr_Names_def distinct_update_fst map_of_eq_None_iff
        update_conv')

definition connector_register_all :: "(string \<times> 'f) list \<Rightarrow> 'f reg" where
  "connector_register_all fs = foldl (\<lambda>r (n, f). snd (connector_Register r n f)) NewRegistry fs"

definition fleet_register_all :: "(string \<times> 'f) list \<Rightarrow> 'f reg" where
  "fleet_register_all fs = foldl (\<lambda>r (n, f). snd (fleet_Register r n f)) NewRegistry fs"

definition expr_register_all :: "(string \<times> 'f) list \<Rightarrow> 'f reg" where
  "expr_register_all fs = foldl (\<lambda>r (n, f). snd (expr_Register r n f)) NewRegistry fs"

lemma expr_lookup_all: "expr_Get (expr_register_all fs) n = map_of fs n"
  using expr_reg.lookup_register_all_empty[unfolded expr_reg.register_all_def]
  by (simp add: expr_register_all_def)

text \<open>Whatever is registered, in whatever order and with whatever repetitions, looking a name up
  gives what was registered first under it (an error when nothing was), and the connector and
  fleet registries list every registered name once, in ascending order.\<close>

theorem registries_first_wins:
  "connector_Get (connector_register_all fs) n = map_option (\<lambda>f. f ()) (map_of fs n)
   \<and> connector_Names (connector_register_all fs) = sort (remdups (map fst fs))
   \<and> fleet_Get (fleet_register_all ps) n = map_option (\<lambda>f. f ()) (map_of ps n)
   \<and> fleet_Names (fleet_register_all ps) = sort (remdups (map fst ps))
   \<and> expr_Get (expr_register_all es) n = map_of es n"
  using conn_reg.lookup_register_all_empty[unfolded conn_reg.register_all_def, of fs n]
    conn_reg.names_determined[unfolded conn_reg.register_all_def, of fs]
    fleet_reg.lookup_register_all_empty[unfolded fleet_reg.register_all_def, of ps n]
    fleet_reg.names_determined[unfolded fleet_reg.register_all_def, of ps]
    expr_lookup_all[of es n]
  by (simp add: connector_register_all_def fleet_register_all_def connector_Get_def fleet_Get_def
      split: option.split)

end
