(* ===== verification/Expr_Eval.thy ===== *)
theory Expr_Eval
  imports Expr_Parser Go_Value Registries
begin

text \<open>
  core/expression/evaluator.go: evaluation of expression trees and \<open>EvalString\<close>, which lexes, parses
  and evaluates. Functions may have effects (random numbers, the clock, the environment), so they
  transform a state of any type; arguments are evaluated from left to right up to the first error.
  The resolver is an argument. A panic inside a function is an outcome \<open>FPanic\<close>: like an error it
  ends the evaluation.
\<close>

datatype func_error = FErr string | FPanic string

datatype eval_error =
    ParseError expr_error
  | MaxEvalDepth
  | UnresolvedVariable string
  | UnknownFunction string
  | FunctionError func_error

type_synonym 'w efunc = "gov list \<Rightarrow> 'w \<Rightarrow> (func_error + gov) \<times> 'w"

record 'w evaluator =
  ev_registry :: "'w efunc reg"
  ev_resolver :: "string \<Rightarrow> gov option"

definition NewEvaluator :: "'w efunc reg \<Rightarrow> (string \<Rightarrow> gov option) \<Rightarrow> 'w evaluator" where
  "NewEvaluator reg resolver = \<lparr>ev_registry = reg, ev_resolver = resolver\<rparr>"

definition maxEvalDepth :: nat where "maxEvalDepth = 256"

text \<open>\<open>depth\<close> is the evaluator's depth when the function is entered.\<close>

fun Eval :: "'w evaluator \<Rightarrow> nat \<Rightarrow> expr \<Rightarrow> 'w \<Rightarrow> (eval_error + gov) \<times> 'w"
  and eval_args :: "'w evaluator \<Rightarrow> nat \<Rightarrow> expr list \<Rightarrow> 'w \<Rightarrow> (eval_error + gov list) \<times> 'w"
where
  "Eval e depth x w =
     (if depth + 1 > maxEvalDepth then (Inl MaxEvalDepth, w)
      else (case x of
        StringLit s \<Rightarrow> (Inr (GStr s), w)
      | NumberLit v isInt \<Rightarrow> (Inr (if isInt then GInt (f64_to_int v) else GFloat v), w)
      | BoolLit b \<Rightarrow> (Inr (GBool b), w)
      | VarRef path \<Rightarrow>
          (case ev_resolver e path of
             Some v \<Rightarrow> (Inr v, w)
           | None \<Rightarrow>
               (if CHR ''.'' \<notin> set path then (Inr (GStr path), w)
                else (Inl (UnresolvedVariable path), w)))
      | FuncCall name args \<Rightarrow>
          (case expr_Get (ev_registry e) name of
             None \<Rightarrow> (Inl (UnknownFunction name), w)
           | Some fn \<Rightarrow>
               (case eval_args e (depth + 1) args w of
                  (Inl err, w') \<Rightarrow> (Inl err, w')
                | (Inr vs, w') \<Rightarrow>
                    (case fn vs w' of (r, w'') \<Rightarrow> (map_sum FunctionError id r, w''))))))"
| "eval_args e depth [] w = (Inr [], w)"
| "eval_args e depth (x # xs) w =
     (case Eval e depth x w of
        (Inl err, w') \<Rightarrow> (Inl err, w')
      | (Inr v, w') \<Rightarrow>
          (case eval_args e depth xs w' of
             (Inl err, w'') \<Rightarrow> (Inl err, w'')
           | (Inr vs, w'') \<Rightarrow> (Inr (v # vs), w'')))"

declare Eval.simps [simp del]

text \<open>\<^const>\<open>None\<close> would be the parser running out of fuel.\<close>

definition parse_string :: "unicode_classes \<Rightarrow> string \<Rightarrow> (expr_error + expr) option" where
  "parse_string uc input =
     (case Tokenize uc (NewLexer input) of
        Inl e \<Rightarrow> Some (Inl (LexError e))
      | Inr tokens \<Rightarrow> expr_Parse tokens)"

definition EvalString ::
  "unicode_classes \<Rightarrow> string \<Rightarrow> 'w efunc reg \<Rightarrow> (string \<Rightarrow> gov option) \<Rightarrow> 'w \<Rightarrow> ((eval_error + gov) \<times> 'w) option"
where
  "EvalString uc input reg resolver w =
     (case parse_string uc input of
        None \<Rightarrow> None
      | Some (Inl e) \<Rightarrow> Some (Inl (ParseError e), w)
      | Some (Inr x) \<Rightarrow> Some (Eval (NewEvaluator reg resolver) 0 x w))"

section \<open>The depth limit of the evaluator is never met\<close>

lemma eval_no_depth_error:
  "edepth x + d \<le> maxEvalDepth \<Longrightarrow> fst (Eval e d x w) \<noteq> Inl MaxEvalDepth"
  "adepth xs + d \<le> maxEvalDepth \<Longrightarrow> fst (eval_args e d xs w) \<noteq> Inl MaxEvalDepth"
proof (induction e d x w and e d xs w rule: Eval_eval_args.induct)
  case (1 e depth x w)
  have d: "\<not> depth + 1 > maxEvalDepth" using "1.prems" edepth_pos[of x] by linarith
  show ?case
  proof (cases x)
    case (FuncCall name args)
    show ?thesis
    proof (cases "expr_Get (ev_registry e) name")
      case (Some fn)
      have "fst (eval_args e (depth + 1) args w) \<noteq> Inl MaxEvalDepth"
        using "1.IH"[OF d FuncCall Some] "1.prems" FuncCall by simp
      then obtain ra w' where args: "eval_args e (depth + 1) args w = (ra, w')" "ra \<noteq> Inl MaxEvalDepth"
        by (cases "eval_args e (depth + 1) args w") simp
      show ?thesis
      proof (cases ra)
        case (Inl err)
        with args d FuncCall Some show ?thesis by (simp add: Eval.simps[of e depth _ w])
      next
        case (Inr vs)
        obtain r w'' where "fn vs w' = (r, w'')" by fastforce
        with args d FuncCall Some Inr show ?thesis by (cases r) (simp_all add: Eval.simps[of e depth _ w])
      qed
    qed (use d FuncCall in \<open>simp add: Eval.simps[of e depth _ w]\<close>)
  qed (use d in \<open>auto simp: Eval.simps[of e depth _ w] split: option.split\<close>)
next
  case (3 e depth x xs w)
  from "3.prems" have "edepth x + depth \<le> maxEvalDepth" "adepth xs + depth \<le> maxEvalDepth" by simp_all
  with 3 show ?case
    by (cases "Eval e depth x w"; cases "fst (Eval e depth x w)"; cases "eval_args e depth xs (snd (Eval e depth x w))")
       (auto split: sum.splits)
qed simp

text \<open>\<open>EvalString\<close> always answers and never with the evaluator's own depth error: the parser's
  limit on nesting already keeps every tree it builds within what \<open>Eval\<close> accepts.\<close>

theorem EvalString_total_depth:
  "\<exists>r w'. EvalString uc input reg resolver w = Some (r, w') \<and> r \<noteq> Inl MaxEvalDepth"
proof -
  obtain p where p: "parse_string uc input = Some p"
    using expr_Parse_total by (cases "Tokenize uc (NewLexer input)") (auto simp: parse_string_def)
  show ?thesis
  proof (cases p)
    case (Inl err)
    with p show ?thesis by (simp add: EvalString_def)
  next
    case (Inr x)
    with p have "\<exists>ts. expr_Parse ts = Some (Inr x)"
      by (auto simp: parse_string_def split: sum.splits)
    then have "edepth x \<le> maxEvalDepth"
      using expr_Parse_depth by (auto simp: maxParseDepth_def maxEvalDepth_def)
    with eval_no_depth_error(1)[of x 0 "NewEvaluator reg resolver" w] p Inr show ?thesis
      by (cases "Eval (NewEvaluator reg resolver) 0 x w") (simp add: EvalString_def)
  qed
qed

end
