(* ===== verification/Expr_Print.thy ===== *)
theory Expr_Print
  imports Expr_Eval
begin

text \<open>
  The concrete syntax of expressions: how each token may be written, that the lexer reads such text
  back, and, with the grammar of the parser, that every expression can be written and evaluates to
  what its tree says.
\<close>

definition escape :: "nat list \<Rightarrow> nat list" where
  "escape rs = concat (map (\<lambda>r. if r = rn DQ \<or> r = rn BSL then [rn BSL, r] else [r]) rs)"

inductive spells :: "unicode_classes \<Rightarrow> etoken \<Rightarrow> nat list \<Rightarrow> bool" for uc where
  s_lparen: "spells uc (etok TokenLParen ''('') [rn CHR ''('']"
| s_rparen: "spells uc (etok TokenRParen '')'') [rn CHR '')'']"
| s_comma: "spells uc (etok TokenComma '','') [rn CHR '','']"
| s_string: "spells uc (etok TokenString (string_of_runes rs)) (rn DQ # escape rs @ [rn DQ])"
| s_int: "m \<in> {[], [rn CHR ''-'']} \<Longrightarrow> ds \<noteq> [] \<Longrightarrow> list_all isDigit ds \<Longrightarrow>
    spells uc (etok TokenNumber (string_of_runes (m @ ds))) (m @ ds)"
| s_float: "m \<in> {[], [rn CHR ''-'']} \<Longrightarrow> ds \<noteq> [] \<Longrightarrow> list_all isDigit ds \<Longrightarrow> fs \<noteq> [] \<Longrightarrow> list_all isDigit fs \<Longrightarrow>
    spells uc (etok TokenNumber (string_of_runes (m @ ds @ rn CHR ''.'' # fs))) (m @ ds @ rn CHR ''.'' # fs)"
| s_word: "rs \<noteq> [] \<Longrightarrow> isIdentStart uc (hd rs) \<Longrightarrow> list_all (isIdentPart uc) rs \<Longrightarrow> \<not> is_space_rune (hd rs) \<Longrightarrow>
    spells uc (etok (if string_of_runes rs = ''true'' \<or> string_of_runes rs = ''false'' then TokenBool else TokenIdent)
                 (string_of_runes rs)) rs"

lemma escape_simps [simp]:
  "escape [] = []"
  "escape (r # rs) = (if r = rn DQ \<or> r = rn BSL then rn BSL # r # escape rs else r # escape rs)"
  by (simp_all add: escape_def)

lemma string_loop_escape:
  "string_loop (rn DQ) b p (escape rs @ rn DQ # rest) =
     Inr (etok TokenString (b @ string_of_runes rs), \<lparr>lx_rest = rest, lx_pos = p + length (escape rs) + 1\<rparr>)"
proof (induction rs arbitrary: b p)
  case Nil
  show ?case by (cases rest) (simp_all add: string_of_runes_def)
next
  case (Cons r rs)
  obtain c cs where c: "escape rs @ rn DQ # rest = c # cs" by (cases "escape rs") auto
  show ?case
  proof (cases "r = rn DQ \<or> r = rn BSL")
    case True
    then show ?thesis using Cons.IH by (auto simp: string_of_runes_def)
  next
    case False
    then have "string_loop (rn DQ) b p (r # c # cs) = string_loop (rn DQ) (b @ encode_rune r) (p + 1) (c # cs)"
      by auto
    with False Cons.IH c show ?thesis by (simp add: string_of_runes_def)
  qed
qed

lemma takeWhile_all: "list_all P xs \<Longrightarrow> \<not> P y \<Longrightarrow> takeWhile P (xs @ y # ys) = xs \<and> dropWhile P (xs @ y # ys) = y # ys"
  by (induction xs) auto

lemma lex_step_space:
  "lex_step uc \<lparr>lx_rest = rn SP # rs, lx_pos = p\<rparr> = lex_step uc \<lparr>lx_rest = rs, lx_pos = p + 1\<rparr>"
  by (simp add: lex_step_def skipWhitespace_def skipWhile_def skip_def is_space_rune_def)

lemma skipWhitespace_none:
  "lx_rest l = r # rs \<Longrightarrow> \<not> is_space_rune r \<Longrightarrow> skipWhitespace l = l"
  by (cases l) (simp add: skipWhitespace_def skipWhile_def skip_def)

lemma skipWhile_prefix:
  "list_all P xs \<Longrightarrow> \<not> P y \<Longrightarrow>
   skipWhile P \<lparr>lx_rest = xs @ y # ys, lx_pos = p\<rparr> = \<lparr>lx_rest = y # ys, lx_pos = p + length xs\<rparr>"
  by (simp add: skipWhile_def skip_def takeWhile_all)

text \<open>After the sign; \<open>number_from\<close> is \<open>readNumber\<close> there, begun at \<open>l\<close>.\<close>

definition number_from :: "lexer \<Rightarrow> lexer \<Rightarrow> lex_error + (etoken \<times> lexer)" where
  "number_from l l1 =
     (let tok = (\<lambda>l'. (etok TokenNumber (string_of_runes (take (lx_pos l' - lx_pos l) (lx_rest l))), l'))
      in if \<not> at_digit l1 then Inl (InvalidNumberAt (lx_pos l))
         else (let l2 = skipWhile isDigit l1 in
           if lx_rest l2 \<noteq> [] \<and> hd (lx_rest l2) = rn CHR ''.''
           then (let l3 = skip 1 l2 in
             if \<not> at_digit l3 then Inl (InvalidNumberAt (lx_pos l)) else Inr (tok (skipWhile isDigit l3)))
           else Inr (tok l2)))"

lemma readNumber_from:
  assumes "m \<in> {[], [rn CHR ''-'']}" "isDigit (hd r)" "r \<noteq> []"
  shows "readNumber \<lparr>lx_rest = m @ r, lx_pos = p\<rparr> =
    number_from \<lparr>lx_rest = m @ r, lx_pos = p\<rparr> \<lparr>lx_rest = r, lx_pos = p + length m\<rparr>"
proof -
  have "hd r \<noteq> 45" using assms(2) by (auto simp: isDigit_def)
  with assms have "(if m @ r \<noteq> [] \<and> hd (m @ r) = rn CHR ''-'' then skip 1 \<lparr>lx_rest = m @ r, lx_pos = p\<rparr>
      else \<lparr>lx_rest = m @ r, lx_pos = p\<rparr>) = \<lparr>lx_rest = r, lx_pos = p + length m\<rparr>"
    by (auto simp: skip_def)
  then show ?thesis unfolding readNumber_def number_from_def Let_def by simp
qed

lemma digits_hd: "ds \<noteq> [] \<Longrightarrow> list_all isDigit ds \<Longrightarrow> isDigit (hd (ds @ r)) \<and> ds @ r \<noteq> []"
  by (cases ds) simp_all

lemma not_digit [simp]: "\<not> isDigit 32" "\<not> isDigit 46"
  by (simp_all add: isDigit_def)

lemma readNumber_int:
  assumes "m \<in> {[], [rn CHR ''-'']}" "ds \<noteq> []" "list_all isDigit ds"
  shows "readNumber \<lparr>lx_rest = m @ ds @ rn SP # rest, lx_pos = p\<rparr> =
    Inr (etok TokenNumber (string_of_runes (m @ ds)), \<lparr>lx_rest = rn SP # rest, lx_pos = p + length m + length ds\<rparr>)"
proof -
  have "skipWhile isDigit \<lparr>lx_rest = ds @ rn SP # rest, lx_pos = p + length m\<rparr> =
      \<lparr>lx_rest = rn SP # rest, lx_pos = p + length m + length ds\<rparr>"
    using assms(3) by (intro skipWhile_prefix) simp_all
  then show ?thesis
    using digits_hd[OF assms(2,3)]
    by (subst readNumber_from[OF assms(1)]) (simp_all add: number_from_def at_digit_def Let_def)
qed

lemma readNumber_float:
  assumes "m \<in> {[], [rn CHR ''-'']}" "ds \<noteq> []" "list_all isDigit ds" "fs \<noteq> []" "list_all isDigit fs"
  shows "readNumber \<lparr>lx_rest = m @ ds @ rn CHR ''.'' # fs @ rn SP # rest, lx_pos = p\<rparr> =
    Inr (etok TokenNumber (string_of_runes (m @ ds @ rn CHR ''.'' # fs)),
      \<lparr>lx_rest = rn SP # rest, lx_pos = p + length m + length ds + 1 + length fs\<rparr>)"
proof -
  have a: "skipWhile isDigit \<lparr>lx_rest = ds @ rn CHR ''.'' # fs @ rn SP # rest, lx_pos = p + length m\<rparr> =
      \<lparr>lx_rest = rn CHR ''.'' # fs @ rn SP # rest, lx_pos = p + length m + length ds\<rparr>"
    using assms(3) by (intro skipWhile_prefix) simp_all
  have b: "skipWhile isDigit \<lparr>lx_rest = fs @ rn SP # rest, lx_pos = p + length m + length ds + 1\<rparr> =
      \<lparr>lx_rest = rn SP # rest, lx_pos = p + length m + length ds + 1 + length fs\<rparr>"
    using assms(5) by (intro skipWhile_prefix) simp_all
  define R where "R = m @ ds @ rn CHR ''.'' # fs @ rn SP # rest"
  define q where "q = p + length m + length ds"
  have "R = (m @ ds @ rn CHR ''.'' # fs) @ rn SP # rest" by (simp add: R_def)
  moreover have "q + 1 + length fs - p = length (m @ ds @ rn CHR ''.'' # fs)" by (simp add: q_def)
  ultimately have tk: "take (q + 1 + length fs - p) R = m @ ds @ rn CHR ''.'' # fs"
    by (metis append_eq_conv_conj)
  have "at_digit \<lparr>lx_rest = ds @ rn CHR ''.'' # fs @ rn SP # rest, lx_pos = p + length m\<rparr>"
    "at_digit \<lparr>lx_rest = fs @ rn SP # rest, lx_pos = q + 1\<rparr>"
    using digits_hd[OF assms(2,3), of "rn CHR ''.'' # fs @ rn SP # rest"] digits_hd[OF assms(4,5), of "rn SP # rest"]
    unfolding at_digit_def by (simp_all only: lexer.simps simp_thms)
  then have "number_from \<lparr>lx_rest = R, lx_pos = p\<rparr>
        \<lparr>lx_rest = ds @ rn CHR ''.'' # fs @ rn SP # rest, lx_pos = p + length m\<rparr>
      = Inr (etok TokenNumber (string_of_runes (take (q + 1 + length fs - p) R)),
          \<lparr>lx_rest = rn SP # rest, lx_pos = q + 1 + length fs\<rparr>)"
    unfolding number_from_def Let_def a b[folded q_def] q_def[symmetric]
    by (simp add: skip_def b[folded q_def, simplified])
  then show ?thesis
    using digits_hd[OF assms(2,3), of "rn CHR ''.'' # fs @ rn SP # rest"]
    unfolding tk unfolding R_def q_def
    by (subst readNumber_from[OF assms(1)]) simp_all
qed

lemma spells_step:
  assumes "spells uc t rs"
  shows "lex_step uc \<lparr>lx_rest = rs @ rn SP # rest, lx_pos = p\<rparr> =
    Inr (Some t, \<lparr>lx_rest = rn SP # rest, lx_pos = p + length rs\<rparr>)"
  using assms
proof cases
  case (s_string cs)
  then show ?thesis
    using string_loop_escape[of "[]" "p + 1" cs "rn SP # rest"]
    by (simp add: lex_step_def skipWhitespace_none is_space_rune_def readString_def Let_def string_of_runes_def)
next
  case (s_int m ds)
  then obtain d r where d: "m @ ds @ rn SP # rest = d # r" "d = rn CHR ''-'' \<or> isDigit d"
    by (cases ds) auto
  then have "\<not> is_space_rune d" "d \<noteq> 40" "d \<noteq> 41" "d \<noteq> 44" "d \<noteq> 34" "d \<noteq> 39"
    by (auto simp: is_space_rune_def isDigit_def)
  with d s_int readNumber_int[of m ds rest p] show ?thesis
    by (simp add: lex_step_def skipWhitespace_none Let_def)
next
  case (s_float m ds fs)
  then obtain d r where d: "m @ ds @ rn CHR ''.'' # fs @ rn SP # rest = d # r" "d = rn CHR ''-'' \<or> isDigit d"
    by (cases ds) auto
  then have "\<not> is_space_rune d" "d \<noteq> 40" "d \<noteq> 41" "d \<noteq> 44" "d \<noteq> 34" "d \<noteq> 39"
    by (auto simp: is_space_rune_def isDigit_def)
  with d s_float readNumber_float[of m ds fs rest p] show ?thesis
    by (simp add: lex_step_def skipWhitespace_none Let_def)
next
  case s_word
  then obtain d r where d: "rs = d # r" "isIdentStart uc d" "\<not> is_space_rune d" by (cases rs) auto
  then have n: "d \<noteq> 40" "d \<noteq> 41" "d \<noteq> 44" "d \<noteq> 34" "d \<noteq> 39" "d \<noteq> 45" "\<not> isDigit d"
    by (auto simp: isIdentStart_def is_letter_rune_def isDigit_def)
  have sp: "\<not> isIdentPart uc (rn SP)"
    by (simp add: isIdentPart_def is_letter_rune_def is_digit_rune_def)
  have "readIdent uc \<lparr>lx_rest = rs @ rn SP # rest, lx_pos = p\<rparr> = (t, \<lparr>lx_rest = rn SP # rest, lx_pos = p + length rs\<rparr>)"
    using s_word takeWhile_all[OF s_word(4) sp, of rest] skipWhile_prefix[OF s_word(4) sp, of rest p]
    by (simp add: readIdent_def Let_def)
  with d n show ?thesis
    by (simp add: lex_step_def skipWhitespace_none Let_def)
qed (simp_all add: lex_step_def skipWhitespace_none is_space_rune_def skip_def Let_def)

lemma lex_loop_spells:
  assumes "list_all2 (spells uc) ts rss"
  shows "lex_loop uc \<lparr>lx_rest = concat (map (\<lambda>rs. rs @ [rn SP]) rss), lx_pos = p\<rparr> acc = Inr (acc @ ts)
    \<and> lex_loop uc \<lparr>lx_rest = rn SP # concat (map (\<lambda>rs. rs @ [rn SP]) rss), lx_pos = p\<rparr> acc = Inr (acc @ ts)"
  using assms
proof (induction ts rss arbitrary: p acc rule: list_all2_induct)
  case Nil
  have "lex_step uc \<lparr>lx_rest = [], lx_pos = q\<rparr> = Inr (None, \<lparr>lx_rest = [], lx_pos = q\<rparr>)" for q
    by (simp add: lex_step_def skipWhitespace_def skipWhile_def skip_def)
  then show ?case
    by (simp add: lex_loop.simps[of uc _ acc] lex_step_space[of uc "[]", simplified])
next
  case (Cons t ts rs rss)
  let ?k = "concat (map (\<lambda>rs. rs @ [rn SP]) rss)"
  have "lex_loop uc \<lparr>lx_rest = rs @ rn SP # ?k, lx_pos = q\<rparr> acc = Inr (acc @ t # ts)" for q
    using spells_step[OF Cons.hyps(1), of ?k q] Cons.IH[of "q + length rs" "acc @ [t]"]
    by (simp add: lex_loop.simps[of uc _ acc])
  moreover have "lex_loop uc \<lparr>lx_rest = rn SP # rs', lx_pos = q\<rparr> acc = lex_loop uc \<lparr>lx_rest = rs', lx_pos = q + 1\<rparr> acc" for rs' q
    by (simp only: lex_loop.simps[of uc _ acc] lex_step_space)
  ultimately show ?case by (simp del: of_char_of)
qed

definition spelled :: "nat list list \<Rightarrow> string" where
  "spelled rss = string_of_runes (concat (map (\<lambda>rs. rs @ [rn SP]) rss))"

lemma Tokenize_spelled:
  assumes "list_all2 (spells uc) ts rss" "\<forall>rs \<in> set rss. \<forall>r \<in> set rs. valid_rune r"
  shows "Tokenize uc (NewLexer (spelled rss)) = Inr ts"
proof -
  have "\<forall>r \<in> set (concat (map (\<lambda>rs. rs @ [rn SP]) rss)). valid_rune r"
    using assms(2) by (auto simp: valid_rune_def)
  then show ?thesis
    using lex_loop_spells[OF assms(1), of 0 "[]"]
    by (simp add: Tokenize_def NewLexer_def spelled_def runes_of_string_of_runes)
qed

text \<open>C22: every expression can be written down and means what its tree says. For a tree \<open>e\<close> that
  the grammar derives from tokens \<open>ts\<close>, nested at most 256 deep, and any spelling of those tokens
  (strings quoted and escaped, numbers, identifiers, punctuation, separated by spaces),
  \<open>EvalString\<close> of the text is the evaluation of \<open>e\<close>.\<close>

theorem EvalString_spelled:
  assumes "derives ts e" "edepth e \<le> maxParseDepth"
    and "list_all2 (spells uc) ts rss" "\<forall>rs \<in> set rss. \<forall>r \<in> set rs. valid_rune r"
  shows "EvalString uc (spelled rss) reg resolver w = Some (Eval (NewEvaluator reg resolver) 0 e w)"
  using assms(1,2) Tokenize_spelled[OF assms(3,4)] expr_Parse_iff[of ts e]
  by (simp add: EvalString_def parse_string_def)

theorem EvalString_spelled_witness:
  "EvalString ascii_classes (spelled [rn DQ # escape (map rn ''a\"b'') @ [rn DQ]]) [] (\<lambda>_. None) ()
     = Some (Inr (GStr ''a\"b''), ())"
proof -
  have v: "string_of_runes (map rn ''a\"b'') = ''a\"b''"
    by (simp add: string_of_runes_def encode_rune_def char_of_def bit_Suc_0_iff)
  have "derives [etok TokenString ''a\"b''] (StringLit ''a\"b'')"
    using d_string[of "etok TokenString ''a\"b''"] by simp
  moreover have "list_all2 (spells ascii_classes) [etok TokenString ''a\"b'']
      [rn DQ # escape (map rn ''a\"b'') @ [rn DQ]]"
    using s_string[of ascii_classes "map rn ''a\"b''"] v by simp
  moreover have "edepth (StringLit ''a\"b'') \<le> maxParseDepth" by (simp add: maxParseDepth_def)
  moreover have "\<forall>rs \<in> set [rn DQ # escape (map rn ''a\"b'') @ [rn DQ]]. \<forall>r \<in> set rs. valid_rune r"
    by (simp add: valid_rune_def)
  ultimately show ?thesis
    using EvalString_spelled[of "[etok TokenString ''a\"b'']" "StringLit ''a\"b''" ascii_classes
        "[rn DQ # escape (map rn ''a\"b'') @ [rn DQ]]" "[]" "\<lambda>_. None" "()"]
    by (simp add: Eval.simps maxEvalDepth_def)
qed

section \<open>Integer literals\<close>

lemma digit_ascii: "is_digit c \<Longrightarrow> isDigit (rn c) \<and> valid_rune (rn c) \<and> encode_rune (rn c) = [c]"
  by (simp add: is_digit_def isDigit_def valid_rune_def encode_rune_def)

lemma digits_runes: "\<forall>c \<in> set s. is_digit c \<Longrightarrow> list_all isDigit (map rn s) \<and> string_of_runes (map rn s) = s"
  by (induction s) (simp_all add: string_of_runes_def digit_ascii)

lemma itoa_spells: "spells uc (etok TokenNumber (itoa n)) (map rn (itoa n))"
proof (cases "n < 0")
  case True
  let ?u = "utoa (nat (- n))"
  note d = digits_runes[OF utoa_digits[of "nat (- n)"]]
  have "string_of_runes ([rn CHR ''-''] @ map rn ?u) = CHR ''-'' # ?u"
    using d by (simp add: string_of_runes_def encode_rune_def char_of_def bit_Suc_0_iff)
  with s_int[of "[rn CHR ''-'']" "map rn ?u" uc] d True show ?thesis by (simp add: itoa_def)
next
  case False
  with s_int[of "[]" "map rn (utoa (nat n))" uc] digits_runes[OF utoa_digits[of "nat n"]]
  show ?thesis by (simp add: itoa_def)
qed

lemma utoa_no: "is_digit c = False \<Longrightarrow> c \<notin> set (utoa n)"
  using utoa_digits by auto

lemma ParseInt_itoa: "in_int64 n \<Longrightarrow> ParseInt (itoa n) = Some n"
proof (cases "n < 0")
  case False
  have "utoa (nat n) = c # cs \<Longrightarrow> c \<noteq> CHR ''-''" for c cs
    using utoa_no[of "CHR ''-''" "nat n"] by (auto simp: is_digit_def)
  then have "strip_sign (utoa (nat n)) = (False, utoa (nat n))"
    by (cases "utoa (nat n)") (auto simp: strip_sign_def)
  moreover assume "in_int64 n"
  ultimately show ?thesis using False by (simp add: ParseInt_def itoa_def)
qed (simp add: ParseInt_def itoa_def strip_sign_def)

lemma parseNumber_itoa: "in_int64 n \<Longrightarrow> parseNumber (itoa n) = Inr (NumberLit (f64_of_int n) True)"
  using utoa_no[of "CHR ''.''"] by (simp add: parseNumber_def ParseInt_itoa) (simp add: itoa_def is_digit_def)

lemma itoa_valid: "\<forall>c \<in> set (itoa n). valid_rune (rn c)"
proof -
  have "\<forall>c \<in> set (utoa m). valid_rune (rn c)" for m
    using utoa_digits[of m] digit_ascii by blast
  moreover have "valid_rune (rn CHR ''-'')" by (simp add: valid_rune_def)
  ultimately show ?thesis by (simp add: itoa_def)
qed

lemma EvalString_itoa:
  assumes "in_int64 n"
  shows "EvalString uc (spelled [map rn (itoa n)]) reg resolver w =
    Some (Inr (GInt (f64_to_int (f64_of_int n))), w)"
proof -
  have "derives [etok TokenNumber (itoa n)] (NumberLit (f64_of_int n) True)"
    using d_number[of "etok TokenNumber (itoa n)"] parseNumber_itoa[OF assms] by simp
  then have "expr_Parse [etok TokenNumber (itoa n)] = Some (Inr (NumberLit (f64_of_int n) True))"
    by (simp add: expr_Parse_iff maxParseDepth_def)
  moreover have "Tokenize uc (NewLexer (spelled [map rn (itoa n)])) = Inr [etok TokenNumber (itoa n)]"
    using itoa_spells itoa_valid by (intro Tokenize_spelled) auto
  ultimately show ?thesis
    by (simp add: EvalString_def parse_string_def Eval.simps maxEvalDepth_def)
qed

text \<open>Integer literals. An integer literal evaluates to its value as long as it is at most
  \<open>2^53\<close> in absolute value; \<open>2^53 + 1\<close> evaluates to \<open>2^53\<close>, since a literal passes through a
  \<open>float64\<close>.\<close>

theorem int_literal_exact:
  "(\<bar>n\<bar> \<le> 2 ^ 53 \<longrightarrow> EvalString uc (spelled [map rn (itoa n)]) reg resolver w = Some (Inr (GInt n), w))
   \<and> EvalString uc (spelled [map rn (itoa 9007199254740993)]) reg resolver w
       = Some (Inr (GInt 9007199254740992), w)"
proof
  show "\<bar>n\<bar> \<le> 2 ^ 53 \<longrightarrow> EvalString uc (spelled [map rn (itoa n)]) reg resolver w = Some (Inr (GInt n), w)"
    using EvalString_itoa[of n uc reg resolver w] f64_to_of_int[of n] by (simp add: in_int64_def abs_le_iff)
  have "f64_to_int (f64_of_int 9007199254740993) = 9007199254740992"
    by (simp add: f64_of_int_2p53 f64_to_int_def trunc_rat_def in_int64_def)
  then show "EvalString uc (spelled [map rn (itoa 9007199254740993)]) reg resolver w
       = Some (Inr (GInt 9007199254740992), w)"
    using EvalString_itoa[of 9007199254740993 uc reg resolver w] by (simp add: in_int64_def)
qed

theorem int_literal_exact_witness:
  "EvalString ascii_classes (spelled [map rn (itoa (-42))]) [] (\<lambda>_. None) () = Some (Inr (GInt (-42)), ())"
  using int_literal_exact[of "-42" ascii_classes "[]" "\<lambda>_. None" "()"] by simp

end
