(* ===== verification/Fixture.thy ===== *)
theory Fixture
  imports Expr_Print
begin

text \<open>
  core/fixture: the store of fixtures and captures, path navigation (fixture.go, capture.go), the
  interpolation of \<open>${...}\<close> references in strings and in nested values, and the expansion of
  parameterised tests (parameterized.go). The process environment is an argument; expression
  functions act on a state that is threaded through. The index \<open>i\<close> of \<open>Interpolate\<close> is the suffix of
  the input from it on. A map's association list is in the order Go iterates over the map.
\<close>

record 'w store =
  st_fixtures :: "(string \<times> gov) list"
  st_captures :: "(string \<times> gov) list"
  st_exprRegistry :: "'w efunc reg option"

definition NewStore :: "(string \<times> gov) list \<Rightarrow> 'w store" where
  "NewStore fixtures = \<lparr>st_fixtures = fixtures, st_captures = [], st_exprRegistry = None\<rparr>"

definition SetCapture :: "string \<Rightarrow> gov \<Rightarrow> 'w store \<Rightarrow> 'w store" where
  "SetCapture key value s = s\<lparr>st_captures := AList.update key value (st_captures s)\<rparr>"

definition GetCapture :: "string \<Rightarrow> 'w store \<Rightarrow> gov option" where
  "GetCapture key s = map_of (st_captures s) key"

definition SetExpressionRegistry :: "'w efunc reg \<Rightarrow> 'w store \<Rightarrow> 'w store" where
  "SetExpressionRegistry r s = s\<lparr>st_exprRegistry := Some r\<rparr>"

section \<open>Paths\<close>

fun walk :: "string list \<Rightarrow> gov \<Rightarrow> gov option" where
  "walk [] current = Some current"
| "walk (part # parts) current =
     (case current of
        GMap m \<Rightarrow> (case map_of m part of Some v \<Rightarrow> walk parts v | None \<Rightarrow> None)
      | _ \<Rightarrow> None)"

definition navigatePath :: "(string \<times> gov) list \<Rightarrow> string \<Rightarrow> gov option" where
  "navigatePath data path = walk (split_on (CHR ''.'') path) (GMap data)"

datatype extract_error = NilMap | NotAMap string | KeyNotFound string

fun extract_loop :: "string list \<Rightarrow> gov \<Rightarrow> extract_error + gov" where
  "extract_loop [] current = Inr current"
| "extract_loop (part # parts) current =
     (case current of
        GMap m \<Rightarrow> (case map_of m part of Some v \<Rightarrow> extract_loop parts v | None \<Rightarrow> Inl (KeyNotFound part))
      | _ \<Rightarrow> Inl (NotAMap part))"

definition Extract :: "(string \<times> gov) list option \<Rightarrow> string \<Rightarrow> extract_error + gov" where
  "Extract data path =
     (case data of
        None \<Rightarrow> Inl NilMap
      | Some m \<Rightarrow> extract_loop (split_on (CHR ''.'') path) (GMap m))"

text \<open>\<open>strings.SplitN(ref, ".", 2)\<close>: the parts before and after the first dot.\<close>

definition split_first :: "string \<Rightarrow> (string \<times> string) option" where
  "split_first ref =
     (case dropWhile (\<lambda>c. c \<noteq> CHR ''.'') ref of
        [] \<Rightarrow> None
      | _ # rest \<Rightarrow> Some (takeWhile (\<lambda>c. c \<noteq> CHR ''.'') ref, rest))"

definition Resolve :: "(string \<Rightarrow> string option) \<Rightarrow> 'w store \<Rightarrow> string \<Rightarrow> gov option" where
  "Resolve osenv s ref =
     (case split_first ref of
        None \<Rightarrow> None
      | Some (pre, rest) \<Rightarrow>
          if pre = ''fixture'' then navigatePath (st_fixtures s) rest
          else if pre = ''capture'' then navigatePath (st_captures s) rest
          else if pre = ''env'' then map_option GStr (osenv rest)
          else None)"

section \<open>Interpolation\<close>

text \<open>\<open>findExpressionEnd\<close>: how far the closing brace is from \<open>start\<close>. The text of an expression
  is passed over with its parentheses and quoted strings.\<close>

fun find_end :: "int \<Rightarrow> bool \<Rightarrow> bool \<Rightarrow> nat \<Rightarrow> string \<Rightarrow> nat option" where
  "find_end depth inSingle inDouble j [] = None"
| "find_end depth inSingle inDouble j [ch] =
     (if (ch = SQ \<and> \<not> inDouble) \<or> (ch = DQ \<and> \<not> inSingle) \<or> inSingle \<or> inDouble then None
      else if ch = CHR ''}'' \<and> depth = 0 then Some j else None)"
| "find_end depth inSingle inDouble j (ch # nx # rest) =
     (if (inSingle \<or> inDouble) \<and> ch = BSL then find_end depth inSingle inDouble (j + 2) rest
      else if ch = SQ \<and> \<not> inDouble then find_end depth (\<not> inSingle) inDouble (j + 1) (nx # rest)
      else if ch = DQ \<and> \<not> inSingle then find_end depth inSingle (\<not> inDouble) (j + 1) (nx # rest)
      else if inSingle \<or> inDouble then find_end depth inSingle inDouble (j + 1) (nx # rest)
      else if ch = CHR ''('' then find_end (depth + 1) inSingle inDouble (j + 1) (nx # rest)
      else if ch = CHR '')'' then find_end (depth - 1) inSingle inDouble (j + 1) (nx # rest)
      else if ch = CHR ''}'' \<and> depth = 0 then Some j
      else find_end depth inSingle inDouble (j + 1) (nx # rest))"

definition findExpressionEnd :: "string \<Rightarrow> nat option" where
  "findExpressionEnd rest = find_end 0 False False 0 rest"

datatype interp_error =
    ExpressionError string eval_error
  | NoExpressionRegistry string
  | UnresolvedReference string

record 'w interp =
  ip_classes :: unicode_classes
  ip_env :: "string \<Rightarrow> string option"
  ip_store :: "'w store"

definition evalExpression :: "'w interp \<Rightarrow> string \<Rightarrow> 'w \<Rightarrow> (interp_error + gov) \<times> 'w" where
  "evalExpression ip input w =
     (case st_exprRegistry (ip_store ip) of
        None \<Rightarrow> (Inl (NoExpressionRegistry input), w)
      | Some reg \<Rightarrow>
          (case the (EvalString (ip_classes ip) input reg (Resolve (ip_env ip) (ip_store ip)) w) of
             (r, w') \<Rightarrow> (map_sum (ExpressionError input) id r, w')))"

text \<open>The loop of \<open>Interpolate\<close> on the input from \<open>i\<close> on; the result is what it appends.\<close>

definition emit :: "string \<Rightarrow> ('e + string) \<times> 'w \<Rightarrow> ('e + string) \<times> 'w" where
  "emit s r = map_prod (map_sum id (\<lambda>t. s @ t)) id r"

function interp_loop :: "'w interp \<Rightarrow> string \<Rightarrow> 'w \<Rightarrow> (interp_error + string) \<times> 'w" where
  "interp_loop ip input w =
     (case input of
        [] \<Rightarrow> (Inr [], w)
      | c # cs \<Rightarrow>
          if has_prefix input (BSL # ''$'') then emit ''$'' (interp_loop ip (drop 2 input) w)
          else if has_prefix input ''${'' then
            (if has_prefix (drop 2 input) ''fn:'' then
               (case findExpressionEnd (drop 2 input) of
                  None \<Rightarrow> emit [c] (interp_loop ip cs w)
                | Some n \<Rightarrow>
                    (case evalExpression ip (drop 3 (take n (drop 2 input))) w of
                       (Inl e, w') \<Rightarrow> (Inl e, w')
                     | (Inr v, w') \<Rightarrow> emit (fmt_v v) (interp_loop ip (drop (2 + n + 1) input) w')))
             else
               (case index_of ''}'' input of
                  None \<Rightarrow> emit [c] (interp_loop ip cs w)
                | Some n \<Rightarrow>
                    (case Resolve (ip_env ip) (ip_store ip) (drop 2 (take n input)) of
                       None \<Rightarrow> (Inl (UnresolvedReference (drop 2 (take n input))), w)
                     | Some v \<Rightarrow> emit (fmt_v v) (interp_loop ip (drop (n + 1) input) w))))
          else emit [c] (interp_loop ip cs w))"
  by pat_completeness auto
termination
  by (relation "measure (\<lambda>(ip, input, w). length input)") auto

declare interp_loop.simps [simp del]

definition Interpolate :: "'w interp \<Rightarrow> string \<Rightarrow> 'w \<Rightarrow> (interp_error + string) \<times> 'w" where
  "Interpolate ip input w = interp_loop ip input w"

function interpolateValue :: "'w interp \<Rightarrow> gov \<Rightarrow> 'w \<Rightarrow> (interp_error + gov) \<times> 'w"
  and interpolateList :: "'w interp \<Rightarrow> gov list \<Rightarrow> 'w \<Rightarrow> (interp_error + gov list) \<times> 'w"
  and InterpolateMap :: "'w interp \<Rightarrow> (string \<times> gov) list \<Rightarrow> 'w \<Rightarrow> (interp_error + (string \<times> gov) list) \<times> 'w"
where
  "interpolateValue ip v w =
     (case v of
        GStr s \<Rightarrow> (case Interpolate ip s w of (r, w') \<Rightarrow> (map_sum id GStr r, w'))
      | GMap m \<Rightarrow> (case InterpolateMap ip m w of (r, w') \<Rightarrow> (map_sum id GMap r, w'))
      | GList xs \<Rightarrow> (case interpolateList ip xs w of (r, w') \<Rightarrow> (map_sum id GList r, w'))
      | _ \<Rightarrow> (Inr v, w))"
| "interpolateList ip [] w = (Inr [], w)"
| "interpolateList ip (x # xs) w =
     (case interpolateValue ip x w of
        (Inl e, w') \<Rightarrow> (Inl e, w')
      | (Inr y, w') \<Rightarrow>
          (case interpolateList ip xs w' of (r, w'') \<Rightarrow> (map_sum id (\<lambda>ys. y # ys) r, w'')))"
| "InterpolateMap ip [] w = (Inr [], w)"
| "InterpolateMap ip ((k, v) # m) w =
     (case interpolateValue ip v w of
        (Inl e, w') \<Rightarrow> (Inl e, w')
      | (Inr y, w') \<Rightarrow>
          (case InterpolateMap ip m w' of (r, w'') \<Rightarrow> (map_sum id (\<lambda>m'. (k, y) # m') r, w'')))"
  by pat_completeness auto
termination
  by (relation "measure (case_sum (\<lambda>(ip, v, w). size v)
        (case_sum (\<lambda>(ip, xs, w). size_list size xs) (\<lambda>(ip, m, w). size_list (size_prod (\<lambda>x. 0) size) m)))") auto

declare interpolateValue.simps [simp del]

section \<open>Where an expression ends\<close>

definition plain_char :: "char \<Rightarrow> bool" where
  "plain_char c \<longleftrightarrow> c \<notin> {SQ, DQ, CHR ''('', CHR '')'', CHR ''}''}"

lemma find_end_Cons:
  assumes "r \<noteq> []"
  shows "find_end d s q j (ch # r) =
     (if (s \<or> q) \<and> ch = BSL then find_end d s q (j + 2) (tl r)
      else if ch = SQ \<and> \<not> q then find_end d (\<not> s) q (j + 1) r
      else if ch = DQ \<and> \<not> s then find_end d s (\<not> q) (j + 1) r
      else if s \<or> q then find_end d s q (j + 1) r
      else if ch = CHR ''('' then find_end (d + 1) s q (j + 1) r
      else if ch = CHR '')'' then find_end (d - 1) s q (j + 1) r
      else if ch = CHR ''}'' \<and> d = 0 then Some j
      else find_end d s q (j + 1) r)"
  using assms by (cases r) simp_all

declare find_end.simps(3) [simp del]

lemma find_end_close [simp]: "find_end 0 False False j (CHR ''}'' # r) = Some j"
  by (cases r) (simp_all add: find_end.simps(3))

lemma find_end_plain:
  "\<forall>c \<in> set u. plain_char c \<Longrightarrow> v \<noteq> [] \<Longrightarrow>
   find_end d False False j (u @ v) = find_end d False False (j + length u) v"
  by (induction u arbitrary: j) (auto simp: find_end_Cons plain_char_def)

lemma find_end_quoted:
  "\<forall>c \<in> set u. c \<noteq> BSL \<and> c \<noteq> DQ \<Longrightarrow> v \<noteq> [] \<Longrightarrow>
   find_end d False True j (u @ v) = find_end d False True (j + length u) v"
  by (induction u arbitrary: j) (auto simp: find_end_Cons)

lemma encode_rune_bytes: "c \<in> set (encode_rune r) \<Longrightarrow> rn c = r \<or> 128 \<le> rn c"
proof -
  define r' where "r' = (if r > 1114111 \<or> (55296 \<le> r \<and> r \<le> 57343) then rune_error else r)"
  have e: "encode_rune r = (if r' < 128 then [char_of r']
      else if r' < 2048 then [char_of (192 + r' div 64), char_of (128 + r' mod 64)]
      else if r' < 65536 then
        [char_of (224 + r' div 4096), char_of (128 + r' div 64 mod 64), char_of (128 + r' mod 64)]
      else
        [char_of (240 + r' div 262144), char_of (128 + r' div 4096 mod 64),
         char_of (128 + r' div 64 mod 64), char_of (128 + r' mod 64)])"
    by (simp only: encode_rune_def Let_def r'_def)
  have b: "r' \<le> 1114111" by (auto simp: r'_def rune_error_def)
  have m: "128 + x mod 64 < 256" "128 \<le> 128 + x mod 64" for x :: nat
    using mod_less_divisor[of 64 x] by linarith+
  assume c: "c \<in> set (encode_rune r)"
  consider "r' < 128" | "128 \<le> r'" "r' < 2048" | "2048 \<le> r'" "r' < 65536" | "65536 \<le> r'" by linarith
  then show ?thesis
  proof cases
    case 1
    then have "r' = r" by (auto simp: r'_def rune_error_def split: if_splits)
    with 1 c show ?thesis by (auto simp: e)
  next
    case 2
    then have "192 + r' div 64 < 256" by (simp add: div_less_iff_less_mult)
    with 2 c m show ?thesis by (auto simp: e)
  next
    case 3
    then have "224 + r' div 4096 < 256" by (simp add: div_less_iff_less_mult)
    with 3 c m show ?thesis by (auto simp: e)
  next
    case 4
    have "240 + r' div 262144 < 256" using b by (simp add: div_less_iff_less_mult)
    with 4 c m show ?thesis by (auto simp: e)
  qed
qed

lemma rn_special: "rn c = r \<or> 128 \<le> rn c \<Longrightarrow> r \<notin> {34, 39, 40, 41, 125} \<Longrightarrow> plain_char c"
  by (auto simp: plain_char_def)

lemma runes_plain:
  "\<forall>r \<in> set rs. r \<notin> {34, 39, 40, 41, 125} \<Longrightarrow> \<forall>c \<in> set (string_of_runes rs). plain_char c"
  by (auto simp: string_of_runes_def dest!: encode_rune_bytes intro: rn_special)

lemma string_of_runes_simps [simp]:
  "string_of_runes [] = []" "string_of_runes (r # rs) = encode_rune r @ string_of_runes rs"
  "string_of_runes (rs @ ss) = string_of_runes rs @ string_of_runes ss"
  by (simp_all add: string_of_runes_def)

lemma encode_special [simp]:
  "encode_rune 34 = [DQ]" "encode_rune 92 = [BSL]"
  using encode_rune_ascii[of DQ] encode_rune_ascii[of BSL] by (simp_all add: is_ascii_def)

lemma find_end_escape:
  "v \<noteq> [] \<Longrightarrow> find_end d False True j (string_of_runes (escape rs) @ v) =
     find_end d False True (j + length (string_of_runes (escape rs))) v"
proof (induction rs arbitrary: j)
  case (Cons r rs)
  show ?case
  proof (cases "r = rn DQ \<or> r = rn BSL")
    case True
    then have "escape (r # rs) = rn BSL # r # escape rs" "\<exists>c. encode_rune r = [c]"
      using encode_special by (auto simp del: encode_special)
    then obtain c where "string_of_runes (escape (r # rs)) = BSL # c # string_of_runes (escape rs)"
      using encode_special by auto
    then show ?thesis using Cons by (simp add: find_end_Cons del: escape_simps)
  next
    case False
    then have "\<forall>c \<in> set (encode_rune r). c \<noteq> BSL \<and> c \<noteq> DQ"
      using encode_rune_bytes by fastforce
    with False Cons show ?thesis by (simp add: find_end_quoted add.assoc)
  qed
qed simp

fun net :: "etoken \<Rightarrow> int" where
  "net t = (if et_Type t = TokenLParen then 1 else if et_Type t = TokenRParen then -1 else 0)"

lemma digits_plain: "list_all isDigit ds \<Longrightarrow> \<forall>r \<in> set ds. r \<notin> {34, 39, 40, 41, 125}"
  by (auto simp: list_all_iff isDigit_def)

lemma ball_signs: "R \<subseteq> {45, 46} \<union> D \<Longrightarrow> \<forall>r \<in> D. P r \<Longrightarrow> P 45 \<Longrightarrow> P 46 \<Longrightarrow> \<forall>r \<in> R. P (r :: nat)"
  by blast

lemma spells_pass:
  assumes "spells uc t rs" "v \<noteq> []"
  shows "find_end d False False j (string_of_runes rs @ v) =
    find_end (d + net t) False False (j + length (string_of_runes rs)) v"
proof -
  have plain: ?thesis if "\<forall>r \<in> set rs. r \<notin> {34, 39, 40, 41, 125}" "net t = 0"
    using find_end_plain[OF runes_plain[OF that(1)] assms(2), of d j] that(2) by simp
  show ?thesis
  using assms(1)
proof cases
  case s_lparen
  then show ?thesis using assms(2) encode_rune_ascii[of "CHR ''(''"] by (simp add: find_end_Cons is_ascii_def)
next
  case s_rparen
  then show ?thesis using assms(2) encode_rune_ascii[of "CHR '')''"] by (simp add: find_end_Cons is_ascii_def)
next
  case s_comma
  then show ?thesis by (intro plain) simp_all
next
  case (s_string cs)
  then have "string_of_runes rs @ v = DQ # string_of_runes (escape cs) @ DQ # v" by simp
  moreover have "net t = 0" using s_string by simp
  ultimately show ?thesis using assms(2) s_string
    by (simp add: find_end_Cons find_end_escape)
next
  case (s_int m ds)
  then have "set rs \<subseteq> {45, 46} \<union> set ds" by auto
  then have "\<forall>r \<in> set rs. r \<notin> {34, 39, 40, 41, 125}"
    by (rule ball_signs) (use digits_plain[of ds] s_int in blast, simp_all)
  then show ?thesis using s_int by (intro plain) simp_all
next
  case (s_float m ds fs)
  then have "set rs \<subseteq> {45, 46} \<union> (set ds \<union> set fs)" by auto
  then have "\<forall>r \<in> set rs. r \<notin> {34, 39, 40, 41, 125}"
    by (rule ball_signs) (use digits_plain[of ds] digits_plain[of fs] s_float in blast, simp_all)
  then show ?thesis using s_float by (intro plain) simp_all
next
  case s_word
  then show ?thesis
    by (intro plain) (auto simp: list_all_iff isIdentPart_def is_letter_rune_def is_digit_rune_def)
qed
qed

lemma spelled_simps [simp]:
  "spelled [] = []" "spelled (rs # rss) = string_of_runes rs @ SP # spelled rss"
  using encode_rune_ascii[of SP] by (simp_all add: spelled_def is_ascii_def)

lemma find_end_spelled:
  assumes "list_all2 (spells uc) ts rss" "v \<noteq> []"
  shows "find_end d False False j (spelled rss @ v) =
    find_end (d + sum_list (map net ts)) False False (j + length (spelled rss)) v"
  using assms(1)
proof (induction arbitrary: d j rule: list_all2_induct)
  case (Cons t ts rs rss)
  have "find_end d False False j (spelled (rs # rss) @ v) =
      find_end (d + net t) False False (j + length (string_of_runes rs)) (SP # spelled rss @ v)"
    using spells_pass[OF Cons.hyps(1), of "SP # spelled rss @ v" d j] by simp
  also have "\<dots> = find_end (d + net t) False False (j + length (string_of_runes rs) + 1) (spelled rss @ v)"
    using assms(2) by (simp add: find_end_Cons)
  also note Cons.IH
  finally show ?case by (simp add: add.assoc)
qed simp

lemma derives_balanced:
  "derives ts e \<Longrightarrow> sum_list (map net ts) = 0"
  "derives_tail ts es \<Longrightarrow> sum_list (map net ts) = 0"
  by (induction rule: derives_derives_tail.inducts) simp_all

lemma findExpressionEnd_spelled:
  assumes "derives ts e" "list_all2 (spells uc) ts rss"
  shows "findExpressionEnd (''fn:'' @ spelled rss @ CHR ''}'' # v) = Some (3 + length (spelled rss))"
proof -
  have "find_end 0 False False 0 (''fn:'' @ spelled rss @ CHR ''}'' # v)
      = find_end 0 False False 3 (spelled rss @ CHR ''}'' # v)"
    by (subst find_end_plain) (simp_all add: plain_char_def eval_nat_numeral)
  also have "\<dots> = Some (3 + length (spelled rss))"
    by (simp add: find_end_spelled[OF assms(2)] derives_balanced(1)[OF assms(1)])
  finally show ?thesis by (simp add: findExpressionEnd_def)
qed

section \<open>Interpolation of a template\<close>

text \<open>A template as its author means it: literal text, references and expressions.\<close>

datatype segment = Lit string | Ref string | Fn expr "nat list list"

definition escape_dollar :: "string \<Rightarrow> string" where
  "escape_dollar s = concat (map (\<lambda>c. if c = CHR ''$'' then [BSL, c] else [c]) s)"

fun written :: "segment list \<Rightarrow> string" where
  "written [] = []"
| "written (Lit s # segs) = escape_dollar s @ written segs"
| "written (Ref r # segs) = ''${'' @ r @ ''}'' @ written segs"
| "written (Fn e rss # segs) = ''${fn:'' @ spelled rss @ ''}'' @ written segs"

text \<open>Text that ends in a backslash cannot be followed by a reference; a reference contains no
  closing brace and does not begin like an expression.\<close>

fun well_written :: "unicode_classes \<Rightarrow> segment list \<Rightarrow> bool" where
  "well_written uc [] \<longleftrightarrow> True"
| "well_written uc (Lit s # segs) \<longleftrightarrow>
     (s \<noteq> [] \<and> last s = BSL \<longrightarrow> \<not> has_prefix (written segs) ''$'') \<and> well_written uc segs"
| "well_written uc (Ref r # segs) \<longleftrightarrow>
     CHR ''}'' \<notin> set r \<and> \<not> has_prefix r ''fn:'' \<and> well_written uc segs"
| "well_written uc (Fn e rss # segs) \<longleftrightarrow>
     (\<exists>ts. derives ts e \<and> edepth e \<le> maxParseDepth \<and> list_all2 (spells uc) ts rss)
     \<and> (\<forall>rs \<in> set rss. \<forall>r \<in> set rs. valid_rune r) \<and> well_written uc segs"

text \<open>What the template stands for.\<close>

fun meaning :: "'w interp \<Rightarrow> segment list \<Rightarrow> 'w \<Rightarrow> (interp_error + string) \<times> 'w" where
  "meaning ip [] w = (Inr [], w)"
| "meaning ip (Lit s # segs) w = emit s (meaning ip segs w)"
| "meaning ip (Ref r # segs) w =
     (case Resolve (ip_env ip) (ip_store ip) r of
        None \<Rightarrow> (Inl (UnresolvedReference r), w)
      | Some v \<Rightarrow> emit (fmt_v v) (meaning ip segs w))"
| "meaning ip (Fn e rss # segs) w =
     (case st_exprRegistry (ip_store ip) of
        None \<Rightarrow> (Inl (NoExpressionRegistry (spelled rss)), w)
      | Some reg \<Rightarrow>
          (case Eval (NewEvaluator reg (Resolve (ip_env ip) (ip_store ip))) 0 e w of
             (Inl err, w') \<Rightarrow> (Inl (ExpressionError (spelled rss) err), w')
           | (Inr v, w') \<Rightarrow> emit (fmt_v v) (meaning ip segs w')))"

lemma emit_simps [simp]:
  "emit s (Inl e, w) = (Inl e, w)" "emit s (Inr t, w) = (Inr (s @ t), w)"
  "emit [] r = r" "emit s (emit t r) = emit (s @ t) r"
  by (cases r; cases "fst r"; simp add: emit_def)+

lemma interp_Nil [simp]: "interp_loop ip [] w = (Inr [], w)"
  by (simp add: interp_loop.simps)

lemma interp_escaped: "interp_loop ip (BSL # CHR ''$'' # x) w = emit ''$'' (interp_loop ip x w)"
  by (subst interp_loop.simps) (simp add: has_prefix_def)

lemma interp_plain:
  "c \<noteq> CHR ''$'' \<Longrightarrow> (c = BSL \<longrightarrow> \<not> has_prefix x ''$'') \<Longrightarrow>
   interp_loop ip (c # x) w = emit [c] (interp_loop ip x w)"
  by (subst interp_loop.simps) (cases x, auto simp: has_prefix_def)

lemma interp_ref:
  assumes "CHR ''}'' \<notin> set r" "\<not> has_prefix r ''fn:''"
  shows "interp_loop ip (''${'' @ r @ ''}'' @ x) w =
    (case Resolve (ip_env ip) (ip_store ip) r of
       None \<Rightarrow> (Inl (UnresolvedReference r), w)
     | Some v \<Rightarrow> emit (fmt_v v) (interp_loop ip x w))"
proof -
  have "index_of ''}'' (s @ CHR ''}'' # x) = Some (length s)" if "CHR ''}'' \<notin> set s" for s
    using that by (induction s) (auto simp: has_prefix_def)
  from this[of "''${'' @ r"] assms(1) have i: "index_of ''}'' (''${'' @ r @ CHR ''}'' # x) = Some (length r + 2)"
    by simp
  have p: "\<not> has_prefix (r @ CHR ''}'' # x) ''fn:''"
  proof
    assume "has_prefix (r @ CHR ''}'' # x) ''fn:''"
    then obtain y where "r @ CHR ''}'' # x = ''fn:'' @ y" by (auto simp: has_prefix_iff)
    then consider us where "r = ''fn:'' @ us" | us where "r @ us = ''fn:''" "CHR ''}'' # x = us @ y"
      unfolding append_eq_append_conv2 by blast
    then show False
    proof cases
      case 1
      with assms(2) show False by (auto simp: has_prefix_iff)
    next
      case 2
      then have "us = [] \<or> CHR ''}'' \<in> set us" by (cases us) auto
      moreover have "set us \<subseteq> set ''fn:''" using 2(1) by (metis set_append sup_ge2)
      ultimately have "us = []" by auto
      with 2(1) assms(2) show False by (simp add: has_prefix_def)
    qed
  qed
  show ?thesis
    using i p by (subst interp_loop.simps) (simp add: has_prefix_def[of "CHR ''$'' # _"] del: index_of.simps split: option.split)
qed

lemma interp_fn:
  assumes "derives ts e" "edepth e \<le> maxParseDepth" "list_all2 (spells (ip_classes ip)) ts rss"
    and "\<forall>rs \<in> set rss. \<forall>r \<in> set rs. valid_rune r"
  shows "interp_loop ip (''${fn:'' @ spelled rss @ ''}'' @ x) w =
    (case st_exprRegistry (ip_store ip) of
        None \<Rightarrow> (Inl (NoExpressionRegistry (spelled rss)), w)
      | Some reg \<Rightarrow>
          (case Eval (NewEvaluator reg (Resolve (ip_env ip) (ip_store ip))) 0 e w of
             (Inl err, w') \<Rightarrow> (Inl (ExpressionError (spelled rss) err), w')
           | (Inr v, w') \<Rightarrow> emit (fmt_v v) (interp_loop ip x w')))"
proof -
  have ev: "EvalString (ip_classes ip) (spelled rss) reg res w = Some (Eval (NewEvaluator reg res) 0 e w)" for reg and res
    using assms(1,2) Tokenize_spelled[OF assms(3,4)] expr_Parse_iff[of ts e]
    by (simp add: EvalString_def parse_string_def)
  have "findExpressionEnd (CHR ''f'' # CHR ''n'' # CHR '':'' # spelled rss @ CHR ''}'' # x) = Some (3 + length (spelled rss))"
    using findExpressionEnd_spelled[OF assms(1,3), of x] by simp
  moreover have "drop 3 (take (3 + length (spelled rss)) (CHR ''f'' # CHR ''n'' # CHR '':'' # spelled rss @ CHR ''}'' # x))
      = spelled rss"
    by (simp add: eval_nat_numeral)
  moreover have "drop (6 + length (spelled rss)) (''${'' @ CHR ''f'' # CHR ''n'' # CHR '':'' # spelled rss @ CHR ''}'' # x) = x"
    by (simp add: eval_nat_numeral)
  ultimately show ?thesis
    by (subst interp_loop.simps)
       (simp add: has_prefix_def evalExpression_def ev del: index_of.simps split: option.split sum.split prod.split)
qed

lemma escape_dollar_simps [simp]:
  "escape_dollar [] = []"
  "escape_dollar (c # s) = (if c = CHR ''$'' then BSL # c # escape_dollar s else c # escape_dollar s)"
  by (simp_all add: escape_dollar_def)

lemma escape_no_dollar: "has_prefix (escape_dollar s @ x) ''$'' \<Longrightarrow> s = [] \<and> has_prefix x ''$''"
  by (cases s) (auto simp: has_prefix_def split: if_splits)

lemma interp_lit:
  "(s \<noteq> [] \<and> last s = BSL \<longrightarrow> \<not> has_prefix x ''$'') \<Longrightarrow>
   interp_loop ip (escape_dollar s @ x) w = emit s (interp_loop ip x w)"
proof (induction s)
  case (Cons c s)
  have IH: "interp_loop ip (escape_dollar s @ x) w = emit s (interp_loop ip x w)"
    using Cons by (cases "s = []") auto
  show ?case
  proof (cases "c = CHR ''$''")
    case True
    then show ?thesis by (simp add: interp_escaped IH)
  next
    case False
    have "c = BSL \<longrightarrow> \<not> has_prefix (escape_dollar s @ x) ''$''"
      using Cons.prems escape_no_dollar by fastforce
    with False show ?thesis by (simp add: interp_plain IH)
  qed
qed simp

text \<open>C19: interpolation substitutes exactly what a template means. In a template of literal text
  (each dollar sign escaped), \<open>${reference}\<close>s and \<open>${fn:expression}\<close>s, \<open>Interpolate\<close> leaves the text
  as it was written, replaces each reference by its value and each expression by the evaluation of
  its tree, from left to right, and stops at the first reference that does not resolve or
  expression that fails; braces, quotes and parentheses inside an expression's strings do not
  end it.\<close>

theorem Interpolate_template:
  assumes "well_written (ip_classes ip) segs"
  shows "Interpolate ip (written segs) w = meaning ip segs w"
  using assms unfolding Interpolate_def
proof (induction ip segs w rule: meaning.induct)
  case (2 ip s segs w)
  then show ?case by (simp add: interp_lit)
next
  case (3 ip r segs w)
  then show ?case using interp_ref[of r ip "written segs" w] by (simp split: option.split)
next
  case (4 ip e rss segs w)
  then obtain ts where "derives ts e" "edepth e \<le> maxParseDepth" "list_all2 (spells (ip_classes ip)) ts rss"
    "\<forall>rs \<in> set rss. \<forall>r \<in> set rs. valid_rune r" by auto
  with interp_fn[OF this, of "written segs" w] 4 show ?case
    by (auto split: option.split sum.split prod.split)
qed simp

theorem Interpolate_template_witness:
  "Interpolate \<lparr>ip_classes = ascii_classes, ip_env = (\<lambda>_. None),
       ip_store = SetExpressionRegistry [] (NewStore [(''u'', GStr ''v'')])\<rparr>
     (written [Lit ''$'', Ref ''fixture.u'', Fn (StringLit ''}'') [rn DQ # escape (map rn ''}'') @ [rn DQ]]]) ()
   = (Inr ''$v}'', ())"
proof -
  have "derives [etok TokenString ''}''] (StringLit ''}'')"
    using d_string[of "etok TokenString ''}''"] by simp
  moreover have "list_all2 (spells ascii_classes) [etok TokenString ''}'']
      [rn DQ # escape (map rn ''}'') @ [rn DQ]]"
    using s_string[of ascii_classes "map rn ''}''"] encode_rune_ascii[of "CHR ''}''"] by (simp add: is_ascii_def)
  ultimately have "well_written ascii_classes [Lit ''$'', Ref ''fixture.u'', Fn (StringLit ''}'') [rn DQ # escape (map rn ''}'') @ [rn DQ]]]"
    by (auto simp: has_prefix_def valid_rune_def maxParseDepth_def intro!: exI[of _ "[etok TokenString ''}'']"])
  then show ?thesis
    by (subst Interpolate_template)
       (simp_all add: Resolve_def split_first_def navigatePath_def SetExpressionRegistry_def NewStore_def
          Eval.simps maxEvalDepth_def)
qed

section \<open>Paths\<close>

inductive at_path :: "string list \<Rightarrow> gov \<Rightarrow> gov \<Rightarrow> bool" where
  here: "at_path [] v v"
| there: "map_of m k = Some u \<Longrightarrow> at_path ks u v \<Longrightarrow> at_path (k # ks) (GMap m) v"

inductive_simps at_path_Nil [simp]: "at_path [] u v"
inductive_simps at_path_Cons [simp]: "at_path (k # ks) u v"

lemma walk_at_path: "walk ks u = Some v \<longleftrightarrow> at_path ks u v"
  by (induction ks u rule: walk.induct) (auto split: gov.splits option.splits)

lemma extract_loop_walk: "extract_loop ks u = Inr v \<longleftrightarrow> walk ks u = Some v"
  by (induction ks u rule: extract_loop.induct) (auto split: gov.splits option.splits)

lemma split_first_append: "CHR ''.'' \<notin> set p \<Longrightarrow> split_first (p @ CHR ''.'' # r) = Some (p, r)"
  by (induction p) (auto simp: split_first_def split: list.splits)

text \<open>References and extraction paths name nested values. When the keys \<open>ks\<close> contain no dot,
  \<open>fixture.k1...kn\<close> resolves to \<open>v\<close> just when following the keys through the maps of the fixtures
  leads to \<open>v\<close>, likewise for captures, and \<open>Extract\<close> of the dotted path reads the same value; a
  captured value is read back under its name and no other capture or fixture changes.\<close>

theorem paths_resolve:
  assumes "ks \<noteq> []" "\<forall>k \<in> set ks. CHR ''.'' \<notin> set k"
  shows "(Resolve osenv s (''fixture.'' @ join_on (CHR ''.'') ks) = Some v \<longleftrightarrow> at_path ks (GMap (st_fixtures s)) v)
    \<and> (Resolve osenv s (''capture.'' @ join_on (CHR ''.'') ks) = Some v \<longleftrightarrow> at_path ks (GMap (st_captures s)) v)
    \<and> (Extract (Some m) (join_on (CHR ''.'') ks) = Inr v \<longleftrightarrow> at_path ks (GMap m) v)
    \<and> Resolve osenv (SetCapture (hd ks) u s) (''capture.'' @ join_on (CHR ''.'') ks) = walk (tl ks) u
    \<and> (k \<noteq> hd ks \<longrightarrow> GetCapture k (SetCapture (hd ks) u s) = GetCapture k s)"
proof -
  have sf: "split_first (''fixture.'' @ r) = Some (''fixture'', r)" "split_first (''capture.'' @ r) = Some (''capture'', r)" for r
    using split_first_append[of "''fixture''" r] split_first_append[of "''capture''" r] by simp_all
  have sp: "split_on (CHR ''.'') (join_on (CHR ''.'') ks) = ks" by (rule split_join[OF assms(2,1)])
  obtain k0 ks' where ks: "ks = k0 # ks'" using assms(1) by (cases ks) auto
  show ?thesis
    unfolding Resolve_def sf by (simp add: navigatePath_def sp walk_at_path Extract_def extract_loop_walk)
       (simp add: ks SetCapture_def GetCapture_def)
qed

theorem paths_resolve_witness:
  "Resolve (\<lambda>_. None) (NewStore [(''a'', GMap [(''b'', GInt 1)])])
     (''fixture.'' @ join_on (CHR ''.'') [''a'', ''b'']) = Some (GInt 1)"
proof -
  have "at_path [''a'', ''b''] (GMap (st_fixtures (NewStore [(''a'', GMap [(''b'', GInt 1)])]))) (GInt 1)"
    by (simp add: NewStore_def)
  moreover have "\<forall>k \<in> set [''a'', ''b'']. CHR ''.'' \<notin> set k" by simp
  ultimately show ?thesis
    using paths_resolve[of "[''a'', ''b'']" "\<lambda>_. None" "NewStore [(''a'', GMap [(''b'', GInt 1)])]" "GInt 1" "[]" GNil "[]"]
    by blast
qed

section \<open>Nested values\<close>

text \<open>A value with the contents of its strings forgotten.\<close>

function shape :: "gov \<Rightarrow> gov" where
  "shape v =
     (case v of
        GStr s \<Rightarrow> GStr []
      | GList xs \<Rightarrow> GList (map shape xs)
      | GMap m \<Rightarrow> GMap (map (\<lambda>(k, v). (k, shape v)) m)
      | _ \<Rightarrow> v)"
  by pat_completeness auto
termination
  by (relation "measure size") (auto simp: less_Suc_eq_le size_member size_map_member)

declare shape.simps [simp del]

lemma shape_simps:
  "shape (GStr t) = GStr []" "shape (GList xs) = GList (map shape xs)"
  "shape (GMap m) = GMap (map (\<lambda>(k, v). (k, shape v)) m)"
  by (simp_all add: shape.simps)

lemma map_sum_eq_Inr: "map_sum f g r = Inr v \<longleftrightarrow> (\<exists>u. r = Inr u \<and> v = g u)"
  by (cases r) auto

lemma interpolate_shape:
  "fst (interpolateValue ip v w) = Inr v' \<Longrightarrow> shape v' = shape v"
  "fst (interpolateList ip xs w) = Inr xs' \<Longrightarrow> map shape xs' = map shape xs"
  "fst (InterpolateMap ip m w) = Inr m' \<Longrightarrow> map (\<lambda>(k, v). (k, shape v)) m' = map (\<lambda>(k, v). (k, shape v)) m"
proof (induction ip v w and ip xs w and ip m w arbitrary: v' and xs' and m'
    rule: interpolateValue_interpolateList_InterpolateMap.induct)
  case (1 ip v w)
  then show ?case
    by (cases v)
       (auto simp: interpolateValue.simps[of ip _ w] shape_simps map_sum_eq_Inr split: prod.splits)
next
  case (3 ip x xs w)
  then show ?case
    by (cases "interpolateValue ip x w"; cases "fst (interpolateValue ip x w)";
        cases "interpolateList ip xs (snd (interpolateValue ip x w))")
       (auto simp: map_sum_eq_Inr)
next
  case (5 ip k v m w)
  then show ?case
    by (cases "interpolateValue ip v w"; cases "fst (interpolateValue ip v w)";
        cases "InterpolateMap ip m (snd (interpolateValue ip v w))")
       (auto simp: map_sum_eq_Inr)
qed simp_all

text \<open>Interpolating a step's parameters changes only its strings: \<open>InterpolateMap\<close> keeps the keys,
  their order, the nesting, and every number, boolean and nil; and a document without a dollar
  sign is left as it is by \<open>Interpolate\<close>.\<close>

theorem InterpolateMap_shape:
  "(fst (InterpolateMap ip m w) = Inr m' \<longrightarrow> shape (GMap m') = shape (GMap m))
   \<and> (CHR ''$'' \<notin> set s \<longrightarrow> Interpolate ip s w = (Inr s, w))"
proof -
  have e: "CHR ''$'' \<notin> set s \<Longrightarrow> escape_dollar s = s" by (induction s) auto
  have "interp_loop ip (escape_dollar s @ []) w = emit s (interp_loop ip [] w)"
    by (rule interp_lit) (simp add: has_prefix_def)
  then have "CHR ''$'' \<notin> set s \<Longrightarrow> Interpolate ip s w = (Inr s, w)"
    using e by (simp add: Interpolate_def del: interp_loop.simps)
  then show ?thesis using interpolate_shape(3)[of ip m w m'] by (simp add: shape_simps)
qed

theorem InterpolateMap_shape_witness:
  "fst (InterpolateMap \<lparr>ip_classes = ascii_classes, ip_env = (\<lambda>_. None), ip_store = NewStore []\<rparr>
     [(''k'', GInt 1)] ()) = Inr [(''k'', GInt 1)]
   \<and> shape (GMap [(''k'', GInt 1)]) = shape (GMap [(''k'', GInt 1)])"
  using InterpolateMap_shape[of "\<lparr>ip_classes = ascii_classes, ip_env = (\<lambda>_. None), ip_store = NewStore []\<rparr>"
      "[(''k'', GInt 1)]" "()" "[(''k'', GInt 1)]" "[]"]
  by (simp add: interpolateValue.simps)

section \<open>Parameterised tests\<close>

record parameter_set =
  ps_Name :: string
  ps_Values :: "(string \<times> gov) list"

record expanded_test =
  xt_Name :: string
  xt_Steps :: "(string \<times> gov) list list"
  xt_Params :: "(string \<times> gov) list"

fun deepCopyValue :: "gov \<Rightarrow> gov"
  and deepCopyMap :: "(string \<times> gov) list \<Rightarrow> (string \<times> gov) list"
  and deepCopyList :: "gov list \<Rightarrow> gov list" where
  "deepCopyValue (GMap m) = GMap (deepCopyMap m)"
| "deepCopyValue (GList xs) = GList (deepCopyList xs)"
| "deepCopyValue v = v"
| "deepCopyMap [] = []"
| "deepCopyMap ((k, v) # m) = (k, deepCopyValue v) # deepCopyMap m"
| "deepCopyList [] = []"
| "deepCopyList (x # xs) = deepCopyValue x # deepCopyList xs"

definition deepCopySteps :: "(string \<times> gov) list list \<Rightarrow> (string \<times> gov) list list" where
  "deepCopySteps steps = map deepCopyMap steps"

definition Expand :: "string \<Rightarrow> (string \<times> gov) list list \<Rightarrow> parameter_set list \<Rightarrow> expanded_test list" where
  "Expand name steps params =
     map (\<lambda>ps. \<lparr>xt_Name = name @ '' ['' @ ps_Name ps @ '']'', xt_Steps = deepCopySteps steps,
       xt_Params = ps_Values ps\<rparr>) params"

lemma deepCopy_id [simp]:
  "deepCopyValue v = v" "deepCopyMap m = m" "deepCopyList xs = xs"
  by (induction v and m and xs rule: deepCopyValue_deepCopyMap_deepCopyList.induct) simp_all

end
