(* ===== verification/Go_Duration.thy ===== *)
theory Go_Duration
  imports Go_Value
begin

text \<open>
  \<open>time.ParseDuration\<close>: a sign and a sequence of decimal numbers with units. Numbers are \<open>uint64\<close>,
  checked against overflow as they are read, their sum wraps before it is checked; a fraction is scaled in \<open>float64\<close>. \<^const>\<open>None\<close> is an error.
\<close>

definition two63 :: nat where "two63 = 2 ^ 63"

text \<open>\<open>leadingInt\<close>.\<close>

fun leading_int :: "nat \<Rightarrow> string \<Rightarrow> (nat \<times> string) option" where
  "leading_int x [] = Some (x, [])"
| "leading_int x (c # cs) =
     (if \<not> is_digit c then Some (x, c # cs)
      else if x > two63 div 10 then None
      else if x * 10 + digit_val c > two63 then None
      else leading_int (x * 10 + digit_val c) cs)"

text \<open>\<open>leadingFraction\<close>: the digits, the power of ten they are divided by, and the rest.\<close>

fun leading_fraction :: "nat \<Rightarrow> f64 \<Rightarrow> bool \<Rightarrow> string \<Rightarrow> nat \<times> f64 \<times> string" where
  "leading_fraction x scale overflow [] = (x, scale, [])"
| "leading_fraction x scale overflow (c # cs) =
     (if \<not> is_digit c then (x, scale, c # cs)
      else if overflow \<or> x > (two63 - 1) div 10 \<or> x * 10 + digit_val c > two63
      then leading_fraction x scale True cs
      else leading_fraction (x * 10 + digit_val c) (f64_mul scale (Fin 10)) False cs)"

definition unit_map :: "(string \<times> nat) list" where
  "unit_map =
     [(''ns'', 1), (''us'', 1000), ([CHR 0xC2, CHR 0xB5] @ ''s'', 1000), ([CHR 0xCE, CHR 0xBC] @ ''s'', 1000),
      (''ms'', 1000000), (''s'', 1000000000), (''m'', 60000000000), (''h'', 3600000000000)]"

text \<open>One number with its unit; the value in nanoseconds.\<close>

definition duration_part :: "string \<Rightarrow> (nat \<times> string) option" where
  "duration_part s =
     (if s = [] \<or> \<not> (hd s = CHR ''.'' \<or> is_digit (hd s)) then None
      else (case leading_int 0 s of
          None \<Rightarrow> None
        | Some (v, s1) \<Rightarrow>
            (let dot = s1 \<noteq> [] \<and> hd s1 = CHR ''.'';
                 (f, scale, s2) = (if dot then leading_fraction 0 (Fin 1) False (tl s1) else (0, Fin 1, s1));
                 pre = length s \<noteq> length s1;
                 post = dot \<and> length (tl s1) \<noteq> length s2;
                 u = takeWhile (\<lambda>c. \<not> (c = CHR ''.'' \<or> is_digit c)) s2;
                 s3 = drop (length u) s2
             in if \<not> pre \<and> \<not> post then None
                else if u = [] then None
                else (case map_of unit_map u of
                    None \<Rightarrow> None
                  | Some un \<Rightarrow>
                      if v > two63 div un then None
                      else (let v1 = v * un;
                                v2 = (if f > 0
                                      then v1 + nat (f64_to_int (f64_mul (f64_of_int (int f)) (f64_div (f64_of_int (int un)) scale)))
                                      else v1)
                            in if v2 > two63 then None else Some (v2, s3))))))"

lemma leading_int_le: "leading_int x s = Some (y, r) \<Longrightarrow> length r \<le> length s"
  by (induction x s rule: leading_int.induct) (auto split: if_splits)

lemma leading_fraction_le: "leading_fraction x sc b s = (y, sc', r) \<Longrightarrow> length r \<le> length s"
  by (induction x sc b s rule: leading_fraction.induct) (auto split: if_splits)

lemma duration_part_less: "duration_part s = Some (v, r) \<Longrightarrow> length r < length s"
proof -
  assume a: "duration_part s = Some (v, r)"
  then obtain w s1 where li: "leading_int 0 s = Some (w, s1)"
    by (auto simp: duration_part_def split: if_splits option.splits)
  define fr where "fr = (if s1 \<noteq> [] \<and> hd s1 = CHR ''.'' then leading_fraction 0 (Fin 1) False (tl s1) else (0, Fin 1, s1))"
  obtain f sc s2 where f: "fr = (f, sc, s2)" by (cases fr)
  have "length s2 \<le> length s"
    using leading_int_le[OF li] leading_fraction_le[of 0 "Fin 1" False "tl s1" f sc s2] f
    by (cases "s1 \<noteq> [] \<and> hd s1 = CHR ''.''") (auto simp: fr_def)
  moreover have "r = drop (length (takeWhile (\<lambda>c. \<not> (c = CHR ''.'' \<or> is_digit c)) s2)) s2
      \<and> takeWhile (\<lambda>c. \<not> (c = CHR ''.'' \<or> is_digit c)) s2 \<noteq> []"
    using a li f[unfolded fr_def]
    by (simp add: duration_part_def Let_def split: if_splits option.splits)
  ultimately show ?thesis
    by (cases s2) (auto split: if_splits)
qed

function duration_loop :: "nat \<Rightarrow> string \<Rightarrow> nat option" where
  "duration_loop d s =
     (if s = [] then Some d
      else (case duration_part s of
          None \<Rightarrow> None
        | Some (v, r) \<Rightarrow> if (d + v) mod (2 * two63) > two63 then None else duration_loop ((d + v) mod (2 * two63)) r))"
  by pat_completeness auto
termination
  by (relation "measure (\<lambda>(d, s). length s)") (auto dest: duration_part_less)

declare duration_loop.simps [simp del]

definition parse_duration :: "string \<Rightarrow> int option" where
  "parse_duration s0 =
     (let neg = s0 \<noteq> [] \<and> hd s0 = CHR ''-'';
          s = (if s0 \<noteq> [] \<and> (hd s0 = CHR ''-'' \<or> hd s0 = CHR ''+'') then tl s0 else s0)
      in if s = ''0'' then Some 0
         else if s = [] then None
         else (case duration_loop 0 s of
             None \<Rightarrow> None
           | Some d \<Rightarrow> if neg then Some (- int d) else if d > two63 - 1 then None else Some (int d)))"

lemma duration_loop_le: "duration_loop d s = Some r \<Longrightarrow> d \<le> two63 \<Longrightarrow> r \<le> two63"
proof (induction d s rule: duration_loop.induct)
  case (1 d s)
  then show ?case
    by (subst (asm) duration_loop.simps[of d s]) (auto split: if_splits option.splits)
qed

text \<open>A duration that parses is an \<open>int64\<close>.\<close>

lemma parse_duration_range: "parse_duration s = Some d \<Longrightarrow> in_int64 d"
proof -
  assume a: "parse_duration s = Some d"
  have "nat \<bar>d\<bar> \<le> two63 \<and> (0 \<le> d \<longrightarrow> nat d < two63)"
    using a duration_loop_le[of 0] unfolding parse_duration_def Let_def
    by (fastforce simp: two63_def split: if_splits option.splits)
  then show ?thesis by (auto simp: in_int64_def two63_def)
qed

end
