(* ===== verification/Assertions.thy ===== *)
theory Assertions
  imports Fixture Go_Duration
begin

text \<open>
  core/assertion: the assertions, their evaluation and the builder. An assertion holds the
  parameters of its struct; \<open>Evaluate\<close> passes, fails with an \<open>AssertionError\<close>, or panics where Go
  does (\<open>==\<close> of two maps or two slices). A message is a constructor applied to the values its format
  prints, not the text. The regular expression engine is an argument of the builder: what
  \<open>regexp.Compile\<close> makes of a pattern, the predicate \<open>MatchString\<close>, is held by the assertion as \<open>re\<close>
  is. Values are those of \<^typ>\<open>gov\<close>; an \<open>Assertion\<close> among the builder's options is the one under
  the key \<open>assertion\<close> and is passed separately.
\<close>

section \<open>Assertions and their failures\<close>

datatype assertion =
    EqualAssertion gov
  | NotEqualAssertion gov
  | DeepEqualAssertion gov
  | ContainsAssertion string
  | NotContainsAssertion string
  | HasPrefixAssertion string
  | HasSuffixAssertion string
  | MatchesAssertion string "string \<Rightarrow> bool"
  | GreaterThanAssertion gov
  | LessThanAssertion gov
  | GreaterOrEqualAssertion gov
  | LessOrEqualAssertion gov
  | InRangeAssertion gov gov
  | JSONPathAssertion string gov
  | NotEmptyAssertion
  | StatusCodeAssertion int
  | StatusClassAssertion string int int
  | HeaderEqualsAssertion string gov
  | HeaderContainsAssertion string string
  | HeaderExistsAssertion string
  | ResponseTimeBelowAssertion int
  | LengthAssertion int
  | EmptyAssertion
  | CollectionNotEmptyAssertion
  | EachAssertion assertion
  | AnyAssertion assertion
  | AllAssertion assertion

fun Name :: "assertion \<Rightarrow> string" where
  "Name (EqualAssertion _) = ''equal''"
| "Name (NotEqualAssertion _) = ''not_equal''"
| "Name (DeepEqualAssertion _) = ''deep_equal''"
| "Name (ContainsAssertion _) = ''contains''"
| "Name (NotContainsAssertion _) = ''not_contains''"
| "Name (HasPrefixAssertion _) = ''has_prefix''"
| "Name (HasSuffixAssertion _) = ''has_suffix''"
| "Name (MatchesAssertion _ _) = ''matches''"
| "Name (GreaterThanAssertion _) = ''greater_than''"
| "Name (LessThanAssertion _) = ''less_than''"
| "Name (GreaterOrEqualAssertion _) = ''greater_or_equal''"
| "Name (LessOrEqualAssertion _) = ''less_or_equal''"
| "Name (InRangeAssertion _ _) = ''in_range''"
| "Name (JSONPathAssertion _ _) = ''json_path''"
| "Name NotEmptyAssertion = ''not_empty''"
| "Name (StatusCodeAssertion _) = ''status_code''"
| "Name (StatusClassAssertion _ _ _) = ''status_class''"
| "Name (HeaderEqualsAssertion _ _) = ''header_equals''"
| "Name (HeaderContainsAssertion _ _) = ''header_contains''"
| "Name (HeaderExistsAssertion _) = ''header_exists''"
| "Name (ResponseTimeBelowAssertion _) = ''response_time_below''"
| "Name (LengthAssertion _) = ''length''"
| "Name EmptyAssertion = ''empty''"
| "Name CollectionNotEmptyAssertion = ''collection_not_empty''"
| "Name (EachAssertion _) = ''each''"
| "Name (AnyAssertion _) = ''any''"
| "Name (AllAssertion _) = ''all''"

datatype assertion_error =
  AssertionError (ae_Assertion: string) (ae_Expected: gov) (ae_Actual: gov) (ae_Path: string) (ae_Message: message)
and message =
    NotEqualTo gov gov | EqualTo gov gov | NotDeeplyEqual gov gov
  | ExpectedString string
  | NotContaining string string | Containing string string | NoPrefix string string | NoSuffix string string
  | NoMatch string string
  | ActualNotNumeric gov string | ExpectedNotNumeric gov string | NotRelated string gov gov
  | BoundsNotNumeric | OutOfRange gov gov gov
  | ExpectedMap string | NotAMapAt string string | KeyNotFoundAt string string | OtherAtPath string gov gov
  | WasNil | EmptyValue string
  | ExpectedInteger string | OtherStatus int int | OtherClass string int
  | ExpectedHeaders string | HeaderNotFound string | HeaderOther string string string
  | HeaderNotContaining string string string | HeaderMissing string
  | ExpectedDuration string | TooSlow int int
  | NilLength int | OtherLength int int | NoLength string | NotEmptyLength string int | NoEmptiness string
  | ExpectedSlice string | ElementFailed nat assertion_error | NoElementPassed

datatype verdict = Passed | Failed assertion_error | Panicked

definition fail :: "string \<Rightarrow> gov \<Rightarrow> gov \<Rightarrow> message \<Rightarrow> verdict" where
  "fail name expected actual msg = Failed (AssertionError name expected actual [] msg)"

definition fail_at :: "string \<Rightarrow> string \<Rightarrow> gov \<Rightarrow> gov \<Rightarrow> message \<Rightarrow> verdict" where
  "fail_at path name expected actual msg = Failed (AssertionError name expected actual path msg)"

section \<open>Conversions\<close>

fun toFloat64 :: "gov \<Rightarrow> f64 option" where
  "toFloat64 (GNum k n) = Some (f64_of_int n)"
| "toFloat64 (GFloat32 x) = Some x"
| "toFloat64 (GFloat x) = Some x"
| "toFloat64 (GDur d) = Some (f64_of_int d)"
| "toFloat64 v = None"

fun toInt :: "gov \<Rightarrow> string + int" where
  "toInt (GNum k n) = Inr (wrap64 n)"
| "toInt (GFloat32 x) = Inr (f64_to_int x)"
| "toInt (GFloat x) = Inr (f64_to_int x)"
| "toInt v = Inl (type_name v)"

datatype duration_error = BadDurationType string | BadDurationText string

fun toDuration :: "gov \<Rightarrow> duration_error + int" where
  "toDuration (GDur d) = Inr d"
| "toDuration (GNum KInt n) = Inr n"
| "toDuration (GNum KInt64 n) = Inr n"
| "toDuration (GFloat x) = Inr (f64_to_int x)"
| "toDuration (GStr s) = (case parse_duration s of Some d \<Rightarrow> Inr d | None \<Rightarrow> Inl (BadDurationText s))"
| "toDuration v = Inl (BadDurationType (type_name v))"

definition numericEqual :: "gov \<Rightarrow> gov \<Rightarrow> bool" where
  "numericEqual a b =
     (case (toFloat64 a, toFloat64 b) of (Some af, Some bf) \<Rightarrow> f64_eq af bf | _ \<Rightarrow> False)"

text \<open>\<open>reflect.Value.Len\<close> of a slice, map or string, and its \<open>Kind\<close>.\<close>

fun value_len :: "gov \<Rightarrow> nat option" where
  "value_len (GStr s) = Some (length s)"
| "value_len (GList xs) = Some (length xs)"
| "value_len (GStrs ss) = Some (length ss)"
| "value_len (GMap m) = Some (length m)"
| "value_len (GStrMap m) = Some (length m)"
| "value_len (GHeaders m) = Some (length m)"
| "value_len v = None"

fun kind_of :: "gov \<Rightarrow> string" where
  "kind_of (GStr s) = ''string''"
| "kind_of (GList xs) = ''slice''"
| "kind_of (GStrs ss) = ''slice''"
| "kind_of v = ''map''"

fun toSlice :: "gov \<Rightarrow> message + gov list" where
  "toSlice (GList xs) = Inr xs"
| "toSlice (GStrs ss) = Inr (map GStr ss)"
| "toSlice v = Inl (ExpectedSlice (type_name v))"

text \<open>The path of keys walked so far is \<open>seen\<close>.\<close>

fun extract_path_loop :: "string list \<Rightarrow> string list \<Rightarrow> gov \<Rightarrow> message + gov" where
  "extract_path_loop seen [] current = Inr current"
| "extract_path_loop seen (part # parts) current =
     (case current of
        GMap cm \<Rightarrow>
          (case map_of cm part of
             Some v \<Rightarrow> extract_path_loop (seen @ [part]) parts v
           | None \<Rightarrow> Inl (KeyNotFoundAt part (join_on (CHR ''.'') (seen @ [part]))))
      | _ \<Rightarrow> Inl (NotAMapAt (join_on (CHR ''.'') seen) (type_name current)))"

definition extractPath :: "(string \<times> gov) list \<Rightarrow> string \<Rightarrow> message + gov" where
  "extractPath m path = extract_path_loop [] (split_on (CHR ''.'') path) (GMap m)"

text \<open>The headers in a map with lower-case names; names that differ only in case overwrite each
  other in the order of iteration.\<close>

definition headersFromActual :: "unicode_classes \<Rightarrow> gov \<Rightarrow> message + (string \<times> string list) list" where
  "headersFromActual uc actual =
     (case actual of
        GStrMap h \<Rightarrow> Inr (fold (\<lambda>(k, v). AList.update (to_lower uc k) [v]) h [])
      | GHeaders h \<Rightarrow> Inr (fold (\<lambda>(k, v). AList.update (to_lower uc k) v) h [])
      | _ \<Rightarrow> Inl (ExpectedHeaders (type_name actual)))"

section \<open>Evaluation\<close>

subsection \<open>equality.go\<close>

definition Evaluate_equal :: "gov \<Rightarrow> gov \<Rightarrow> verdict" where
  "Evaluate_equal expected actual =
     (case iface_eq actual expected of
        None \<Rightarrow> Panicked
      | Some eq \<Rightarrow>
          if eq then Passed
          else if numericEqual actual expected then Passed
          else fail ''equal'' expected actual (NotEqualTo actual expected))"

definition Evaluate_not_equal :: "gov \<Rightarrow> gov \<Rightarrow> verdict" where
  "Evaluate_not_equal expected actual =
     (case iface_eq actual expected of
        None \<Rightarrow> Panicked
      | Some eq \<Rightarrow>
          if \<not> eq \<and> \<not> numericEqual actual expected then Passed
          else fail ''not_equal'' expected actual (EqualTo actual expected))"

definition Evaluate_deep_equal :: "gov \<Rightarrow> gov \<Rightarrow> verdict" where
  "Evaluate_deep_equal expected actual =
     (if deep_equal actual expected then Passed
      else fail ''deep_equal'' expected actual (NotDeeplyEqual actual expected))"

subsection \<open>contains.go, regex.go\<close>

text \<open>The four string assertions and \<open>matches\<close> first require a string.\<close>

definition on_string :: "string \<Rightarrow> string \<Rightarrow> gov \<Rightarrow> (string \<Rightarrow> verdict) \<Rightarrow> verdict" where
  "on_string name expected actual f =
     (case actual of
        GStr s \<Rightarrow> f s
      | _ \<Rightarrow> fail name (GStr expected) actual (ExpectedString (type_name actual)))"

definition Evaluate_contains :: "string \<Rightarrow> gov \<Rightarrow> verdict" where
  "Evaluate_contains substr actual =
     on_string ''contains'' substr actual (\<lambda>s.
       if contains s substr then Passed
       else fail ''contains'' (GStr substr) actual (NotContaining s substr))"

definition Evaluate_not_contains :: "string \<Rightarrow> gov \<Rightarrow> verdict" where
  "Evaluate_not_contains substr actual =
     on_string ''not_contains'' substr actual (\<lambda>s.
       if \<not> contains s substr then Passed
       else fail ''not_contains'' (GStr substr) actual (Containing s substr))"

definition Evaluate_has_prefix :: "string \<Rightarrow> gov \<Rightarrow> verdict" where
  "Evaluate_has_prefix p actual =
     on_string ''has_prefix'' p actual (\<lambda>s.
       if has_prefix s p then Passed else fail ''has_prefix'' (GStr p) actual (NoPrefix s p))"

definition Evaluate_has_suffix :: "string \<Rightarrow> gov \<Rightarrow> verdict" where
  "Evaluate_has_suffix p actual =
     on_string ''has_suffix'' p actual (\<lambda>s.
       if has_suffix s p then Passed else fail ''has_suffix'' (GStr p) actual (NoSuffix s p))"

definition Evaluate_matches :: "string \<Rightarrow> (string \<Rightarrow> bool) \<Rightarrow> gov \<Rightarrow> verdict" where
  "Evaluate_matches pattern re actual =
     on_string ''matches'' pattern actual (\<lambda>s.
       if re s then Passed else fail ''matches'' (GStr pattern) actual (NoMatch s pattern))"

subsection \<open>numeric.go\<close>

text \<open>The four order assertions, which differ in their name and comparison.\<close>

definition Evaluate_order :: "string \<Rightarrow> (f64 \<Rightarrow> f64 \<Rightarrow> bool) \<Rightarrow> gov \<Rightarrow> gov \<Rightarrow> verdict" where
  "Evaluate_order name cmp expected actual =
     (case toFloat64 actual of
        None \<Rightarrow> fail name expected actual (ActualNotNumeric actual (type_name actual))
      | Some af \<Rightarrow>
          (case toFloat64 expected of
             None \<Rightarrow> fail name expected actual (ExpectedNotNumeric expected (type_name expected))
           | Some ef \<Rightarrow>
               if cmp af ef then Passed
               else fail name expected actual (NotRelated name actual expected)))"

definition Evaluate_greater_than :: "gov \<Rightarrow> gov \<Rightarrow> verdict" where
  "Evaluate_greater_than = Evaluate_order ''greater_than'' (\<lambda>a e. f64_lt e a)"

definition Evaluate_less_than :: "gov \<Rightarrow> gov \<Rightarrow> verdict" where
  "Evaluate_less_than = Evaluate_order ''less_than'' f64_lt"

definition Evaluate_greater_or_equal :: "gov \<Rightarrow> gov \<Rightarrow> verdict" where
  "Evaluate_greater_or_equal = Evaluate_order ''greater_or_equal'' (\<lambda>a e. f64_le e a)"

definition Evaluate_less_or_equal :: "gov \<Rightarrow> gov \<Rightarrow> verdict" where
  "Evaluate_less_or_equal = Evaluate_order ''less_or_equal'' f64_le"

definition range_text :: "gov \<Rightarrow> gov \<Rightarrow> gov" where
  "range_text lo hi = GStr (''['' @ fmt_v lo @ '', '' @ fmt_v hi @ '']'')"

definition Evaluate_in_range :: "gov \<Rightarrow> gov \<Rightarrow> gov \<Rightarrow> verdict" where
  "Evaluate_in_range lo hi actual =
     (case toFloat64 actual of
        None \<Rightarrow> fail ''in_range'' (range_text lo hi) actual (ActualNotNumeric actual (type_name actual))
      | Some af \<Rightarrow>
          (case (toFloat64 lo, toFloat64 hi) of
             (Some minF, Some maxF) \<Rightarrow>
               if f64_le minF af \<and> f64_le af maxF then Passed
               else fail ''in_range'' (range_text lo hi) actual (OutOfRange actual lo hi)
           | _ \<Rightarrow> fail ''in_range'' (range_text lo hi) actual BoundsNotNumeric))"

subsection \<open>json.go\<close>

definition Evaluate_json_path :: "string \<Rightarrow> gov \<Rightarrow> gov \<Rightarrow> verdict" where
  "Evaluate_json_path path expected actual =
     (case actual of
        GMap m \<Rightarrow>
          (case extractPath m path of
             Inl err \<Rightarrow> fail_at path ''json_path'' expected actual err
           | Inr v \<Rightarrow>
               if deep_equal v expected then Passed
               else if numericEqual v expected then Passed
               else fail_at path ''json_path'' expected v (OtherAtPath path v expected))
      | _ \<Rightarrow> fail_at path ''json_path'' expected actual (ExpectedMap (type_name actual)))"

definition Evaluate_not_empty :: "gov \<Rightarrow> verdict" where
  "Evaluate_not_empty actual =
     (let expected = GStr ''non-empty value'' in
      if actual = GNil then fail ''not_empty'' expected actual WasNil
      else if value_len actual = Some 0 then fail ''not_empty'' expected actual (EmptyValue (kind_of actual))
      else Passed)"

subsection \<open>status.go, timing.go\<close>

definition Evaluate_status_code :: "int \<Rightarrow> gov \<Rightarrow> verdict" where
  "Evaluate_status_code expected actual =
     (case toInt actual of
        Inl t \<Rightarrow> fail ''status_code'' (GInt expected) actual (ExpectedInteger (type_name actual))
      | Inr code \<Rightarrow>
          if code = expected then Passed
          else fail ''status_code'' (GInt expected) (GInt code) (OtherStatus expected code))"

definition NewStatusClassAssertion :: "string \<Rightarrow> string + assertion" where
  "NewStatusClassAssertion cls =
     (if cls = ''1xx'' then Inr (StatusClassAssertion cls 100 199)
      else if cls = ''2xx'' then Inr (StatusClassAssertion cls 200 299)
      else if cls = ''3xx'' then Inr (StatusClassAssertion cls 300 399)
      else if cls = ''4xx'' then Inr (StatusClassAssertion cls 400 499)
      else if cls = ''5xx'' then Inr (StatusClassAssertion cls 500 599)
      else Inl cls)"

definition Evaluate_status_class :: "string \<Rightarrow> int \<Rightarrow> int \<Rightarrow> gov \<Rightarrow> verdict" where
  "Evaluate_status_class cls minCode maxCode actual =
     (case toInt actual of
        Inl t \<Rightarrow> fail ''status_class'' (GStr cls) actual (ExpectedInteger (type_name actual))
      | Inr code \<Rightarrow>
          if code \<ge> minCode \<and> code \<le> maxCode then Passed
          else fail ''status_class'' (GStr cls) (GInt code) (OtherClass cls code))"

definition Evaluate_response_time_below :: "int \<Rightarrow> gov \<Rightarrow> verdict" where
  "Evaluate_response_time_below maxDuration actual =
     (case actual of
        GDur d \<Rightarrow>
          if d < maxDuration then Passed
          else fail ''response_time_below'' (GDur maxDuration) (GDur d) (TooSlow d maxDuration)
      | _ \<Rightarrow> fail ''response_time_below'' (GDur maxDuration) actual (ExpectedDuration (type_name actual)))"

subsection \<open>header.go\<close>

definition Evaluate_header_equals :: "unicode_classes \<Rightarrow> string \<Rightarrow> gov \<Rightarrow> gov \<Rightarrow> verdict" where
  "Evaluate_header_equals uc header expected actual =
     (case headersFromActual uc actual of
        Inl err \<Rightarrow> fail ''header_equals'' expected actual err
      | Inr headers \<Rightarrow>
          (case map_of headers (to_lower uc header) of
             Some (v # vs) \<Rightarrow>
               if fmt_v expected \<in> set (v # vs) then Passed
               else fail ''header_equals'' expected (GStr v) (HeaderOther header v (fmt_v expected))
           | _ \<Rightarrow> fail ''header_equals'' expected GNil (HeaderNotFound header)))"

definition Evaluate_header_contains :: "unicode_classes \<Rightarrow> string \<Rightarrow> string \<Rightarrow> gov \<Rightarrow> verdict" where
  "Evaluate_header_contains uc header substr actual =
     (case headersFromActual uc actual of
        Inl err \<Rightarrow> fail ''header_contains'' (GStr substr) actual err
      | Inr headers \<Rightarrow>
          (case map_of headers (to_lower uc header) of
             Some (v # vs) \<Rightarrow>
               if list_ex (\<lambda>v. contains v substr) (v # vs) then Passed
               else fail ''header_contains'' (GStr substr) (GStr v) (HeaderNotContaining header v substr)
           | _ \<Rightarrow> fail ''header_contains'' (GStr substr) GNil (HeaderNotFound header)))"

definition Evaluate_header_exists :: "unicode_classes \<Rightarrow> string \<Rightarrow> gov \<Rightarrow> verdict" where
  "Evaluate_header_exists uc header actual =
     (case headersFromActual uc actual of
        Inl err \<Rightarrow> fail ''header_exists'' (GStr header) actual err
      | Inr headers \<Rightarrow>
          (case map_of headers (to_lower uc header) of
             Some vs \<Rightarrow> Passed
           | None \<Rightarrow> fail ''header_exists'' (GStr header) GNil (HeaderMissing header)))"

subsection \<open>collection.go\<close>

definition Evaluate_length :: "int \<Rightarrow> gov \<Rightarrow> verdict" where
  "Evaluate_length expected actual =
     (if actual = GNil then
        if expected = 0 then Passed else fail ''length'' (GInt expected) GNil (NilLength expected)
      else (case value_len actual of
          Some n \<Rightarrow>
            if int n = expected then Passed
            else fail ''length'' (GInt expected) (GInt (int n)) (OtherLength expected (int n))
        | None \<Rightarrow> fail ''length'' (GInt expected) actual (NoLength (type_name actual))))"

definition Evaluate_empty :: "gov \<Rightarrow> verdict" where
  "Evaluate_empty actual =
     (if actual = GNil then Passed
      else (case value_len actual of
          Some n \<Rightarrow>
            if n = 0 then Passed
            else fail ''empty'' (GStr ''empty'') (GInt (int n)) (NotEmptyLength (kind_of actual) (int n))
        | None \<Rightarrow> fail ''empty'' (GStr ''empty'') actual (NoEmptiness (type_name actual))))"

definition Evaluate_collection_not_empty :: "gov \<Rightarrow> verdict" where
  "Evaluate_collection_not_empty actual =
     (let name = ''collection_not_empty''; expected = GStr ''non-empty collection'' in
      if actual = GNil then fail name expected GNil WasNil
      else (case value_len actual of
          Some n \<Rightarrow>
            if n > 0 then Passed else fail name expected (GInt (int n)) (EmptyValue (kind_of actual))
        | None \<Rightarrow> fail name expected actual (NoEmptiness (type_name actual))))"

text \<open>The loops of \<open>each\<close> and \<open>all\<close>, and of \<open>any\<close>; \<open>inner\<close> is the inner assertion's \<open>Evaluate\<close>.\<close>

fun each_loop :: "string \<Rightarrow> string \<Rightarrow> (gov \<Rightarrow> verdict) \<Rightarrow> nat \<Rightarrow> gov list \<Rightarrow> verdict" where
  "each_loop name inner_name inner i [] = Passed"
| "each_loop name inner_name inner i (item # items) =
     (case inner item of
        Passed \<Rightarrow> each_loop name inner_name inner (i + 1) items
      | Failed e \<Rightarrow> fail name (GStr (''all elements to pass '' @ inner_name)) item (ElementFailed i e)
      | Panicked \<Rightarrow> Panicked)"

fun any_loop :: "string \<Rightarrow> gov \<Rightarrow> (gov \<Rightarrow> verdict) \<Rightarrow> gov list \<Rightarrow> verdict" where
  "any_loop inner_name actual inner [] =
     fail ''any'' (GStr (''at least one element to pass '' @ inner_name)) actual NoElementPassed"
| "any_loop inner_name actual inner (item # items) =
     (case inner item of
        Passed \<Rightarrow> Passed
      | Failed e \<Rightarrow> any_loop inner_name actual inner items
      | Panicked \<Rightarrow> Panicked)"

definition Evaluate_each :: "string \<Rightarrow> string \<Rightarrow> (gov \<Rightarrow> verdict) \<Rightarrow> gov \<Rightarrow> verdict" where
  "Evaluate_each name inner_name inner actual =
     (case toSlice actual of
        Inl err \<Rightarrow> fail name (GStr ''iterable'') actual err
      | Inr items \<Rightarrow> each_loop name inner_name inner 0 items)"

definition Evaluate_all :: "string \<Rightarrow> (gov \<Rightarrow> verdict) \<Rightarrow> gov \<Rightarrow> verdict" where
  "Evaluate_all = Evaluate_each ''all''"

definition Evaluate_any :: "string \<Rightarrow> (gov \<Rightarrow> verdict) \<Rightarrow> gov \<Rightarrow> verdict" where
  "Evaluate_any inner_name inner actual =
     (case toSlice actual of
        Inl err \<Rightarrow> fail ''any'' (GStr ''iterable'') actual err
      | Inr items \<Rightarrow> any_loop inner_name actual inner items)"

fun Evaluate :: "unicode_classes \<Rightarrow> assertion \<Rightarrow> gov \<Rightarrow> verdict" where
  "Evaluate uc (EqualAssertion x) actual = Evaluate_equal x actual"
| "Evaluate uc (NotEqualAssertion x) actual = Evaluate_not_equal x actual"
| "Evaluate uc (DeepEqualAssertion x) actual = Evaluate_deep_equal x actual"
| "Evaluate uc (ContainsAssertion s) actual = Evaluate_contains s actual"
| "Evaluate uc (NotContainsAssertion s) actual = Evaluate_not_contains s actual"
| "Evaluate uc (HasPrefixAssertion s) actual = Evaluate_has_prefix s actual"
| "Evaluate uc (HasSuffixAssertion s) actual = Evaluate_has_suffix s actual"
| "Evaluate uc (MatchesAssertion p re) actual = Evaluate_matches p re actual"
| "Evaluate uc (GreaterThanAssertion x) actual = Evaluate_greater_than x actual"
| "Evaluate uc (LessThanAssertion x) actual = Evaluate_less_than x actual"
| "Evaluate uc (GreaterOrEqualAssertion x) actual = Evaluate_greater_or_equal x actual"
| "Evaluate uc (LessOrEqualAssertion x) actual = Evaluate_less_or_equal x actual"
| "Evaluate uc (InRangeAssertion lo hi) actual = Evaluate_in_range lo hi actual"
| "Evaluate uc (JSONPathAssertion p x) actual = Evaluate_json_path p x actual"
| "Evaluate uc NotEmptyAssertion actual = Evaluate_not_empty actual"
| "Evaluate uc (StatusCodeAssertion n) actual = Evaluate_status_code n actual"
| "Evaluate uc (StatusClassAssertion c lo hi) actual = Evaluate_status_class c lo hi actual"
| "Evaluate uc (HeaderEqualsAssertion h x) actual = Evaluate_header_equals uc h x actual"
| "Evaluate uc (HeaderContainsAssertion h s) actual = Evaluate_header_contains uc h s actual"
| "Evaluate uc (HeaderExistsAssertion h) actual = Evaluate_header_exists uc h actual"
| "Evaluate uc (ResponseTimeBelowAssertion d) actual = Evaluate_response_time_below d actual"
| "Evaluate uc (LengthAssertion n) actual = Evaluate_length n actual"
| "Evaluate uc EmptyAssertion actual = Evaluate_empty actual"
| "Evaluate uc CollectionNotEmptyAssertion actual = Evaluate_collection_not_empty actual"
| "Evaluate uc (EachAssertion a) actual = Evaluate_each ''each'' (Name a) (Evaluate uc a) actual"
| "Evaluate uc (AnyAssertion a) actual = Evaluate_any (Name a) (Evaluate uc a) actual"
| "Evaluate uc (AllAssertion a) actual = Evaluate_all (Name a) (Evaluate uc a) actual"

section \<open>The builder\<close>

datatype build_error =
    RequiresString string string
  | InvalidPattern string
  | RequiresMinMax
  | RequiresExpected
  | RequiresInteger string string
  | UnknownStatusClass string
  | RequiresHeader string
  | BadDuration duration_error
  | RequiresAssertion string
  | UnknownOperator string

definition string_arg :: "string \<Rightarrow> gov \<Rightarrow> (string \<Rightarrow> build_error + assertion) \<Rightarrow> build_error + assertion" where
  "string_arg operator expected f =
     (case expected of GStr s \<Rightarrow> f s | _ \<Rightarrow> Inl (RequiresString operator (type_name expected)))"

definition NewMatchesAssertion :: "(string \<Rightarrow> (string \<Rightarrow> bool) option) \<Rightarrow> string \<Rightarrow> build_error + assertion" where
  "NewMatchesAssertion compile pattern =
     (case compile pattern of None \<Rightarrow> Inl (InvalidPattern pattern) | Some re \<Rightarrow> Inr (MatchesAssertion pattern re))"

definition Build :: "(string \<Rightarrow> (string \<Rightarrow> bool) option) \<Rightarrow> string \<Rightarrow> gov \<Rightarrow> (string \<times> gov) list
    \<Rightarrow> assertion option \<Rightarrow> build_error + assertion" where
  "Build compile operator expected options inner =
     (if operator = ''equal'' \<or> operator = ''eq'' then Inr (EqualAssertion expected)
      else if operator = ''not_equal'' \<or> operator = ''neq'' then Inr (NotEqualAssertion expected)
      else if operator = ''deep_equal'' then Inr (DeepEqualAssertion expected)
      else if operator = ''contains'' then string_arg operator expected (\<lambda>s. Inr (ContainsAssertion s))
      else if operator = ''not_contains'' then string_arg operator expected (\<lambda>s. Inr (NotContainsAssertion s))
      else if operator = ''has_prefix'' then string_arg operator expected (\<lambda>s. Inr (HasPrefixAssertion s))
      else if operator = ''has_suffix'' then string_arg operator expected (\<lambda>s. Inr (HasSuffixAssertion s))
      else if operator = ''matches'' then string_arg operator expected (NewMatchesAssertion compile)
      else if operator = ''greater_than'' \<or> operator = ''gt'' then Inr (GreaterThanAssertion expected)
      else if operator = ''less_than'' \<or> operator = ''lt'' then Inr (LessThanAssertion expected)
      else if operator = ''greater_or_equal'' \<or> operator = ''gte'' then Inr (GreaterOrEqualAssertion expected)
      else if operator = ''less_or_equal'' \<or> operator = ''lte'' then Inr (LessOrEqualAssertion expected)
      else if operator = ''in_range'' then
        (case (map_of options ''min'', map_of options ''max'') of
           (Some lo, Some hi) \<Rightarrow> Inr (InRangeAssertion lo hi)
         | _ \<Rightarrow> Inl RequiresMinMax)
      else if operator = ''json_path'' then
        string_arg operator expected (\<lambda>path.
          case map_of options ''expected'' of
            None \<Rightarrow> Inl RequiresExpected
          | Some v \<Rightarrow> Inr (JSONPathAssertion path v))
      else if operator = ''not_empty'' then Inr NotEmptyAssertion
      else if operator = ''status_code'' then
        (case toInt expected of Inl t \<Rightarrow> Inl (RequiresInteger operator t) | Inr code \<Rightarrow> Inr (StatusCodeAssertion code))
      else if operator = ''status_class'' then
        string_arg operator expected (\<lambda>s.
          case NewStatusClassAssertion s of Inl c \<Rightarrow> Inl (UnknownStatusClass c) | Inr a \<Rightarrow> Inr a)
      else if operator = ''header_equals'' then
        (case map_of options ''header'' of
           Some (GStr h) \<Rightarrow> Inr (HeaderEqualsAssertion h expected)
         | _ \<Rightarrow> Inl (RequiresHeader operator))
      else if operator = ''header_contains'' then
        (case map_of options ''header'' of
           Some (GStr h) \<Rightarrow> string_arg operator expected (\<lambda>s. Inr (HeaderContainsAssertion h s))
         | _ \<Rightarrow> Inl (RequiresHeader operator))
      else if operator = ''header_exists'' then string_arg operator expected (\<lambda>h. Inr (HeaderExistsAssertion h))
      else if operator = ''response_time_below'' then
        (case toDuration expected of Inl e \<Rightarrow> Inl (BadDuration e) | Inr d \<Rightarrow> Inr (ResponseTimeBelowAssertion d))
      else if operator = ''length'' then
        (case toInt expected of Inl t \<Rightarrow> Inl (RequiresInteger operator t) | Inr l \<Rightarrow> Inr (LengthAssertion l))
      else if operator = ''empty'' then Inr EmptyAssertion
      else if operator = ''collection_not_empty'' then Inr CollectionNotEmptyAssertion
      else if operator = ''each'' then
        (case inner of None \<Rightarrow> Inl (RequiresAssertion operator) | Some a \<Rightarrow> Inr (EachAssertion a))
      else if operator = ''any'' then
        (case inner of None \<Rightarrow> Inl (RequiresAssertion operator) | Some a \<Rightarrow> Inr (AnyAssertion a))
      else if operator = ''all'' then
        (case inner of None \<Rightarrow> Inl (RequiresAssertion operator) | Some a \<Rightarrow> Inr (AllAssertion a))
      else Inl (UnknownOperator operator))"

end
