(* ===== verification/Assertion_Laws.thy ===== *)
theory Assertion_Laws
  imports Assertions
begin

text \<open>
  What the assertions decide: each verdict as a condition on the values, the duality of the
  opposite assertions, the order of the numbers, the quantifiers over collections, agreement of
  \<open>json_path\<close> with the capture paths of core/fixture, and what the builder builds.
\<close>

section \<open>Verdicts\<close>

abbreviation passes :: "unicode_classes \<Rightarrow> assertion \<Rightarrow> gov \<Rightarrow> bool" where
  "passes uc a v \<equiv> Evaluate uc a v = Passed"

lemma fail_simps [simp]:
  "fail n e a m \<noteq> Passed" "fail_at p n e a m \<noteq> Passed" "fail n e a m \<noteq> Panicked" "fail_at p n e a m \<noteq> Panicked"
  by (simp_all add: fail_def fail_at_def)

named_theorems verdicts \<open>the definitions of the assertions' Evaluate methods\<close>

declare Evaluate_equal_def [verdicts] Evaluate_not_equal_def [verdicts] Evaluate_deep_equal_def [verdicts]
  on_string_def [verdicts] Evaluate_contains_def [verdicts] Evaluate_not_contains_def [verdicts]
  Evaluate_has_prefix_def [verdicts] Evaluate_has_suffix_def [verdicts] Evaluate_matches_def [verdicts]
  Evaluate_order_def [verdicts] Evaluate_greater_than_def [verdicts] Evaluate_less_than_def [verdicts]
  Evaluate_greater_or_equal_def [verdicts] Evaluate_less_or_equal_def [verdicts] Evaluate_in_range_def [verdicts]
  Evaluate_length_def [verdicts] Evaluate_empty_def [verdicts] Evaluate_collection_not_empty_def [verdicts]
  Evaluate_not_empty_def [verdicts] Let_def [verdicts]

text \<open>C40: opposite assertions are opposite and say what they are named after. On a string exactly
  one of \<open>contains\<close> and \<open>not_contains\<close> passes; \<open>contains\<close>, \<open>has_prefix\<close> and \<open>has_suffix\<close> pass just
  for texts around, before and after the given one; \<open>equal\<close> and \<open>not_equal\<close> either both panic
  (two maps or two lists of one type) or exactly one passes; and \<open>empty\<close>, \<open>length 0\<close> and the
  negation of \<open>not_empty\<close> agree on everything that has a length, nil included.\<close>

theorem assertions_dual:
  "(passes uc (ContainsAssertion s) (GStr t) \<longleftrightarrow> (\<exists>a b. t = a @ s @ b))
   \<and> (passes uc (NotContainsAssertion s) (GStr t) \<longleftrightarrow> \<not> passes uc (ContainsAssertion s) (GStr t))
   \<and> (passes uc (HasPrefixAssertion s) (GStr t) \<longleftrightarrow> (\<exists>r. t = s @ r))
   \<and> (passes uc (HasSuffixAssertion s) (GStr t) \<longleftrightarrow> (\<exists>r. t = r @ s))
   \<and> (if iface_eq v x = None then Evaluate uc (EqualAssertion x) v = Panicked \<and> Evaluate uc (NotEqualAssertion x) v = Panicked
      else (passes uc (EqualAssertion x) v \<noteq> passes uc (NotEqualAssertion x) v))
   \<and> (if v = GNil \<or> value_len v \<noteq> None
      then (passes uc EmptyAssertion v \<longleftrightarrow> passes uc (LengthAssertion 0) v)
         \<and> (passes uc EmptyAssertion v \<longleftrightarrow> \<not> passes uc NotEmptyAssertion v)
         \<and> (passes uc EmptyAssertion v \<longleftrightarrow> \<not> passes uc CollectionNotEmptyAssertion v)
      else passes uc NotEmptyAssertion v \<and> \<not> passes uc EmptyAssertion v \<and> \<not> passes uc (LengthAssertion 0) v)"
proof -
  have "if iface_eq v x = None then Evaluate uc (EqualAssertion x) v = Panicked \<and> Evaluate uc (NotEqualAssertion x) v = Panicked
      else (passes uc (EqualAssertion x) v \<noteq> passes uc (NotEqualAssertion x) v)"
    by (cases "iface_eq v x") (simp_all add: verdicts)
  moreover have "if v = GNil \<or> value_len v \<noteq> None
      then (passes uc EmptyAssertion v \<longleftrightarrow> passes uc (LengthAssertion 0) v)
         \<and> (passes uc EmptyAssertion v \<longleftrightarrow> \<not> passes uc NotEmptyAssertion v)
         \<and> (passes uc EmptyAssertion v \<longleftrightarrow> \<not> passes uc CollectionNotEmptyAssertion v)
      else passes uc NotEmptyAssertion v \<and> \<not> passes uc EmptyAssertion v \<and> \<not> passes uc (LengthAssertion 0) v"
    by (cases "value_len v") (auto simp: verdicts)
  moreover have "passes uc (ContainsAssertion s) (GStr t) \<longleftrightarrow> (\<exists>a b. t = a @ s @ b)"
    "passes uc (NotContainsAssertion s) (GStr t) \<longleftrightarrow> \<not> passes uc (ContainsAssertion s) (GStr t)"
    "passes uc (HasPrefixAssertion s) (GStr t) \<longleftrightarrow> (\<exists>r. t = s @ r)"
    "passes uc (HasSuffixAssertion s) (GStr t) \<longleftrightarrow> (\<exists>r. t = r @ s)"
    by (simp_all add: verdicts contains_iff has_prefix_iff has_suffix_iff)
  ultimately show ?thesis by blast
qed

theorem assertions_dual_witness:
  "passes ascii_classes (EqualAssertion (GInt 1)) (GInt 1) \<noteq> passes ascii_classes (NotEqualAssertion (GInt 1)) (GInt 1)
   \<and> passes ascii_classes EmptyAssertion (GStr []) = passes ascii_classes (LengthAssertion 0) (GStr [])"
  using assertions_dual[where uc = ascii_classes and v = "GInt 1" and x = "GInt 1"]
    assertions_dual[where uc = ascii_classes and v = "GStr []"]
  by (simp add: iface_eq_def del: Evaluate.simps)

section \<open>Numbers\<close>

lemma toFloat64_iface_eq:
  assumes "toFloat64 v = Some a" "toFloat64 x = Some b"
  shows "\<exists>e. iface_eq v x = Some e \<and> (e \<or> numericEqual v x \<longleftrightarrow> f64_eq a b)"
  using assms
  by (cases v; cases x) (auto simp: iface_eq_def numericEqual_def f64_not_NaN)

lemma equal_numeric:
  assumes "toFloat64 v = Some a" "toFloat64 x = Some b"
  shows "passes uc (EqualAssertion x) v \<longleftrightarrow> f64_eq a b"
  using toFloat64_iface_eq[OF assms] by (auto simp: verdicts)

text \<open>The numeric assertions order the numbers. For two numeric values that are not NaN (of any
  two of Go's numeric types, durations included) exactly one of \<open>greater_than\<close>, \<open>equal\<close> and
  \<open>less_than\<close> passes, \<open>greater_or_equal\<close> and \<open>less_or_equal\<close> are the negations of \<open>less_than\<close> and
  \<open>greater_than\<close>, and \<open>in_range\<close> passes just when both bounds do; with a NaN none of the five
  passes; and a value that is not a number fails them all.\<close>

theorem numeric_order:
  "(case (toFloat64 v, toFloat64 x) of
      (Some a, Some b) \<Rightarrow>
        (if a \<noteq> NaN \<and> b \<noteq> NaN
         then (passes uc (GreaterThanAssertion x) v \<longleftrightarrow> \<not> passes uc (EqualAssertion x) v \<and> \<not> passes uc (LessThanAssertion x) v)
            \<and> (passes uc (EqualAssertion x) v \<longleftrightarrow> \<not> passes uc (GreaterThanAssertion x) v \<and> \<not> passes uc (LessThanAssertion x) v)
            \<and> (passes uc (GreaterOrEqualAssertion x) v \<longleftrightarrow> \<not> passes uc (LessThanAssertion x) v)
            \<and> (passes uc (LessOrEqualAssertion x) v \<longleftrightarrow> \<not> passes uc (GreaterThanAssertion x) v)
         else \<not> passes uc (GreaterThanAssertion x) v \<and> \<not> passes uc (EqualAssertion x) v \<and> \<not> passes uc (LessThanAssertion x) v
            \<and> \<not> passes uc (GreaterOrEqualAssertion x) v \<and> \<not> passes uc (LessOrEqualAssertion x) v)
    | _ \<Rightarrow> \<not> passes uc (GreaterThanAssertion x) v \<and> \<not> passes uc (LessThanAssertion x) v
            \<and> \<not> passes uc (GreaterOrEqualAssertion x) v \<and> \<not> passes uc (LessOrEqualAssertion x) v)
   \<and> (passes uc (InRangeAssertion lo hi) v \<longleftrightarrow>
        passes uc (GreaterOrEqualAssertion lo) v \<and> passes uc (LessOrEqualAssertion hi) v)"
proof
  show "passes uc (InRangeAssertion lo hi) v \<longleftrightarrow>
        passes uc (GreaterOrEqualAssertion lo) v \<and> passes uc (LessOrEqualAssertion hi) v"
    by (auto simp: verdicts split: option.splits)
  show "case (toFloat64 v, toFloat64 x) of
      (Some a, Some b) \<Rightarrow>
        (if a \<noteq> NaN \<and> b \<noteq> NaN
         then (passes uc (GreaterThanAssertion x) v \<longleftrightarrow> \<not> passes uc (EqualAssertion x) v \<and> \<not> passes uc (LessThanAssertion x) v)
            \<and> (passes uc (EqualAssertion x) v \<longleftrightarrow> \<not> passes uc (GreaterThanAssertion x) v \<and> \<not> passes uc (LessThanAssertion x) v)
            \<and> (passes uc (GreaterOrEqualAssertion x) v \<longleftrightarrow> \<not> passes uc (LessThanAssertion x) v)
            \<and> (passes uc (LessOrEqualAssertion x) v \<longleftrightarrow> \<not> passes uc (GreaterThanAssertion x) v)
         else \<not> passes uc (GreaterThanAssertion x) v \<and> \<not> passes uc (EqualAssertion x) v \<and> \<not> passes uc (LessThanAssertion x) v
            \<and> \<not> passes uc (GreaterOrEqualAssertion x) v \<and> \<not> passes uc (LessOrEqualAssertion x) v)
    | _ \<Rightarrow> \<not> passes uc (GreaterThanAssertion x) v \<and> \<not> passes uc (LessThanAssertion x) v
            \<and> \<not> passes uc (GreaterOrEqualAssertion x) v \<and> \<not> passes uc (LessOrEqualAssertion x) v"
  proof (cases "toFloat64 v"; cases "toFloat64 x")
    fix a b
    assume ab: "toFloat64 v = Some a" "toFloat64 x = Some b"
    then show ?thesis
      using f64_trichotomy[of a b] f64_lt_asym[of a b] f64_lt_asym[of b a] f64_not_lt[of a b] f64_not_lt[of b a]
        f64_eq_sym[of a b] equal_numeric[OF ab]
      by (auto simp: verdicts f64_le_def simp del: Evaluate.simps(1))
  qed (simp_all add: verdicts)
qed

theorem numeric_order_witness:
  "passes ascii_classes (GreaterThanAssertion (GInt 1)) (GFloat (Fin 2)) \<longleftrightarrow>
     \<not> passes ascii_classes (EqualAssertion (GInt 1)) (GFloat (Fin 2)) \<and> \<not> passes ascii_classes (LessThanAssertion (GInt 1)) (GFloat (Fin 2))"
proof -
  have t: "toFloat64 (GFloat (Fin 2)) = Some (Fin 2)" "toFloat64 (GInt 1) = Some (Fin 1)"
    using f64_of_int_exact[of 1] by simp_all
  have ne: "Fin 2 \<noteq> NaN \<and> Fin 1 \<noteq> NaN" by simp
  show ?thesis
    using numeric_order[where uc = ascii_classes and v = "GFloat (Fin 2)" and x = "GInt 1"]
    unfolding t option.case prod.case if_P[OF ne] by blast
qed

text \<open>\<open>equal\<close> on integers is exact up to \<open>2^53\<close>; beyond, integers of different types are compared as
  \<open>float64\<close>, also integers of one type that differ, so \<open>2^53\<close> passes as equal to \<open>2^53 + 1\<close>.\<close>

theorem equal_integers:
  "(\<bar>i\<bar> \<le> 2 ^ 53 \<and> \<bar>j\<bar> \<le> 2 ^ 53 \<longrightarrow> (passes uc (EqualAssertion (GNum k j)) (GNum k' i) \<longleftrightarrow> i = j))
   \<and> passes uc (EqualAssertion (GInt 9007199254740993)) (GInt 9007199254740992)"
proof -
  have "f64_of_int 9007199254740992 = Fin 9007199254740992" using f64_of_int_exact[of 9007199254740992] by simp
  then show ?thesis
    by (auto simp: equal_numeric f64_of_int_exact f64_of_int_2p53 f64_eq_def simp del: Evaluate.simps)
qed

theorem equal_integers_witness:
  "passes ascii_classes (EqualAssertion (GNum KInt64 3)) (GInt 3)"
  using equal_integers[of 3 3 ascii_classes KInt64 KInt] by simp

section \<open>Quantifiers over collections\<close>

lemma each_loop_passed: "each_loop n m inner i xs = Passed \<longleftrightarrow> (\<forall>x \<in> set xs. inner x = Passed)"
  by (induction n m inner i xs rule: each_loop.induct) (auto split: verdict.splits)

lemma each_loop_failed:
  assumes "\<forall>x \<in> set xs. inner x = Passed" "inner y = Failed e"
  shows "each_loop n m inner i (xs @ y # ys)
    = fail n (GStr (''all elements to pass '' @ m)) y (ElementFailed (i + length xs) e)"
  using assms(1) by (induction xs arbitrary: i) (simp_all add: assms(2))

lemma any_loop_passed:
  "any_loop m v inner xs = Passed \<longleftrightarrow>
     (\<exists>ys z zs. xs = ys @ z # zs \<and> inner z = Passed \<and> (\<forall>y \<in> set ys. inner y \<noteq> Panicked))"
proof (induction xs)
  case (Cons x xs)
  show ?case
  proof (cases "inner x")
    case Passed
    then show ?thesis by simp (metis append_Nil empty_iff list.set(1))
  next
    case (Failed e)
    then show ?thesis
      by (auto simp: Cons.IH Cons_eq_append_conv; metis set_ConsD verdict.distinct(5))
  next
    case Panicked
    then show ?thesis by (auto simp: Cons_eq_append_conv)
  qed
qed simp

text \<open>\<open>each\<close> and \<open>all\<close> are the universal quantifier over a list and \<open>any\<close> the existential one.
  \<open>each\<close> passes just when the inner assertion passes on every element, otherwise it reports the
  first element that fails and its index; \<open>all\<close> agrees with \<open>each\<close>; \<open>any\<close> passes just when the
  inner assertion passes on some element before which it never panics; a value that is not a list
  fails all three.\<close>

theorem quantifiers:
  "(case toSlice v of
      Inr items \<Rightarrow>
        (passes uc (EachAssertion a) v \<longleftrightarrow> (\<forall>x \<in> set items. passes uc a x))
        \<and> (\<forall>xs y ys e. items = xs @ y # ys \<and> (\<forall>x \<in> set xs. passes uc a x) \<and> Evaluate uc a y = Failed e \<longrightarrow>
             Evaluate uc (EachAssertion a) v = Failed (AssertionError ''each''
               (GStr (''all elements to pass '' @ Name a)) y [] (ElementFailed (length xs) e)))
        \<and> (passes uc (AnyAssertion a) v \<longleftrightarrow>
             (\<exists>xs y ys. items = xs @ y # ys \<and> passes uc a y \<and> (\<forall>x \<in> set xs. Evaluate uc a x \<noteq> Panicked)))
    | Inl err \<Rightarrow> (\<exists>e. Evaluate uc (EachAssertion a) v = Failed e) \<and> (\<exists>e. Evaluate uc (AnyAssertion a) v = Failed e))
   \<and> (passes uc (AllAssertion a) v \<longleftrightarrow> passes uc (EachAssertion a) v)"
proof (cases "toSlice v")
  case (Inl err)
  then show ?thesis by (simp add: Evaluate_each_def Evaluate_all_def Evaluate_any_def fail_def)
next
  case (Inr items)
  then show ?thesis
    by (auto simp: Evaluate_each_def Evaluate_all_def Evaluate_any_def each_loop_passed any_loop_passed each_loop_failed)
       (auto simp: fail_def)
qed

theorem quantifiers_witness:
  "passes ascii_classes (EachAssertion (EqualAssertion (GInt 1))) (GList [GInt 1, GInt 1])"
proof -
  have "passes ascii_classes (EqualAssertion (GInt 1)) (GInt 1)"
    by (simp add: Evaluate_equal_def iface_eq_def)
  then show ?thesis
    using quantifiers[where uc = ascii_classes and v = "GList [GInt 1, GInt 1]" and a = "EqualAssertion (GInt 1)"]
    by (simp del: Evaluate.simps)
qed

section \<open>Paths\<close>

lemma extract_path_loop_eq:
  "(case extract_path_loop seen ks v of Inr r \<Rightarrow> Some r | Inl e \<Rightarrow> None) =
   (case extract_loop ks v of Inr r \<Rightarrow> Some r | Inl e \<Rightarrow> None)"
  by (induction seen ks v rule: extract_path_loop.induct) (auto split: gov.splits option.splits)

lemma extractPath_Extract: "extractPath m path = Inr v \<longleftrightarrow> Extract (Some m) path = Inr v"
proof -
  have "(case extractPath m path of Inr r \<Rightarrow> Some r | Inl e \<Rightarrow> None) =
      (case Extract (Some m) path of Inr r \<Rightarrow> Some r | Inl e \<Rightarrow> None)"
    by (simp add: extractPath_def Extract_def extract_path_loop_eq)
  then show ?thesis by (cases "extractPath m path"; cases "Extract (Some m) path") auto
qed

text \<open>\<open>json_path\<close> looks where captures look. It passes on a result map just when \<open>Extract\<close> of the
  same path gives a value that is deeply equal to the expected one, or equal to it as a number.\<close>

theorem json_path_Extract:
  "passes uc (JSONPathAssertion path x) (GMap m) \<longleftrightarrow>
     (\<exists>v. Extract (Some m) path = Inr v \<and> (deep_equal v x \<or> passes uc (EqualAssertion x) v \<and> toFloat64 v \<noteq> None))"
proof (cases "extractPath m path")
  case (Inl e)
  moreover have "Extract (Some m) path \<noteq> Inr v" for v using Inl extractPath_Extract[of m path v] by simp
  ultimately show ?thesis by (simp add: Evaluate_json_path_def)
next
  case (Inr v)
  have "numericEqual v x \<or> deep_equal v x \<longleftrightarrow> deep_equal v x \<or> passes uc (EqualAssertion x) v \<and> toFloat64 v \<noteq> None"
  proof (cases "toFloat64 v"; cases "toFloat64 x")
    fix a b assume ab: "toFloat64 v = Some a" "toFloat64 x = Some b"
    with equal_numeric[OF ab, of uc] show ?thesis by (auto simp: numericEqual_def)
  next
    fix a assume "toFloat64 v = Some a" "toFloat64 x = None"
    then have "\<not> passes uc (EqualAssertion x) v"
      by (cases v; cases x) (auto simp: verdicts iface_eq_def numericEqual_def)
    with \<open>toFloat64 x = None\<close> show ?thesis by (simp add: numericEqual_def split: option.split)
  qed (auto simp: numericEqual_def)
  with Inr extractPath_Extract[of m path v] show ?thesis
    by (auto simp: Evaluate_json_path_def)
qed

section \<open>Headers and status classes\<close>

lemma map_of_fold_update:
  "map_of (fold (\<lambda>(k, v). AList.update (f k) (g v)) h acc) n =
     (case map_of (rev (map (\<lambda>(k, v). (f k, g v)) h)) n of Some v \<Rightarrow> Some v | None \<Rightarrow> map_of acc n)"
  by (induction h arbitrary: acc) (auto simp: update_conv' split: option.splits)

lemma headers_lookup:
  "headersFromActual uc (GHeaders h) = Inr hs \<Longrightarrow>
     map_of hs n = map_of (rev (map (\<lambda>(k, v). (to_lower uc k, v)) h)) n"
  "headersFromActual uc (GStrMap g) = Inr hs \<Longrightarrow>
     map_of hs n = map_of (rev (map (\<lambda>(k, v). (to_lower uc k, [v])) g)) n"
  using map_of_fold_update[of "to_lower uc" "\<lambda>v. v" h "[]" n] map_of_fold_update[of "to_lower uc" "\<lambda>v. [v]" g "[]" n]
  by (auto simp: headersFromActual_def split: option.splits)

text \<open>Header assertions ignore the case of header names. When no two names of the header map
  differ only in case, \<open>header_exists\<close>, \<open>header_equals\<close> and \<open>header_contains\<close> pass just when the map
  has a name that is equal to the given one up to case and, for the last two, one of its values is
  the printed expected value or contains the given text.\<close>

theorem headers_ignore_case:
  assumes "distinct (map (\<lambda>(k, v). to_lower uc k) h)"
  shows "(passes uc (HeaderExistsAssertion n) (GHeaders h) \<longleftrightarrow> (\<exists>(k, vs) \<in> set h. to_lower uc k = to_lower uc n))
    \<and> (passes uc (HeaderEqualsAssertion n x) (GHeaders h) \<longleftrightarrow>
         (\<exists>(k, vs) \<in> set h. to_lower uc k = to_lower uc n \<and> fmt_v x \<in> set vs))
    \<and> (passes uc (HeaderContainsAssertion n s) (GHeaders h) \<longleftrightarrow>
         (\<exists>(k, vs) \<in> set h. to_lower uc k = to_lower uc n \<and> (\<exists>v \<in> set vs. contains v s)))"
proof -
  let ?l = "map (\<lambda>(k, v). (to_lower uc k, v)) h"
  obtain hs where hs: "headersFromActual uc (GHeaders h) = Inr hs"
    by (simp add: headersFromActual_def)
  have d: "distinct (map fst (rev ?l))"
    using assms by (simp add: rev_map[symmetric] comp_def case_prod_unfold)
  have l: "map_of hs (to_lower uc n) = Some vs \<longleftrightarrow> (\<exists>k. (k, vs) \<in> set h \<and> to_lower uc k = to_lower uc n)" for vs
  proof -
    have "map_of (rev ?l) (to_lower uc n) = Some vs \<longleftrightarrow> (to_lower uc n, vs) \<in> set (rev ?l)"
      using d by (rule map_of_eq_Some_iff)
    then show ?thesis using headers_lookup(1)[OF hs] by force
  qed
  have ex: "(\<exists>(k, vs) \<in> set h. to_lower uc k = to_lower uc n \<and> P vs) \<longleftrightarrow>
      (\<exists>vs. map_of hs (to_lower uc n) = Some vs \<and> P vs)" for P
    unfolding l by auto
  show ?thesis
    using ex[of "\<lambda>_. True"] ex[of "\<lambda>vs. fmt_v x \<in> set vs"] ex[of "\<lambda>vs. \<exists>v \<in> set vs. contains v s"]
    by (auto simp: Evaluate_header_exists_def Evaluate_header_equals_def Evaluate_header_contains_def hs
          list_ex_iff split: option.splits list.splits)
qed

theorem headers_ignore_case_witness:
  "passes ascii_classes (HeaderExistsAssertion ''AB'') (GHeaders [(''ab'', [''v''])])"
proof -
  have "to_lower ascii_classes ''ab'' = to_lower ascii_classes ''AB''"
    by (simp add: to_lower_def runes_of_ascii is_ascii_def lower_rune_def)
  then show ?thesis
    using headers_ignore_case[of ascii_classes "[(''ab'', [''v''])]" "''AB''"] by simp
qed

section \<open>The builder\<close>

definition operators :: "(string \<times> string) list" where
  "operators =
     [(''equal'', ''equal''), (''eq'', ''equal''), (''not_equal'', ''not_equal''), (''neq'', ''not_equal''),
      (''deep_equal'', ''deep_equal''), (''contains'', ''contains''), (''not_contains'', ''not_contains''),
      (''has_prefix'', ''has_prefix''), (''has_suffix'', ''has_suffix''), (''matches'', ''matches''),
      (''greater_than'', ''greater_than''), (''gt'', ''greater_than''), (''less_than'', ''less_than''),
      (''lt'', ''less_than''), (''greater_or_equal'', ''greater_or_equal''), (''gte'', ''greater_or_equal''),
      (''less_or_equal'', ''less_or_equal''), (''lte'', ''less_or_equal''), (''in_range'', ''in_range''),
      (''json_path'', ''json_path''), (''not_empty'', ''not_empty''), (''status_code'', ''status_code''),
      (''status_class'', ''status_class''), (''header_equals'', ''header_equals''),
      (''header_contains'', ''header_contains''), (''header_exists'', ''header_exists''),
      (''response_time_below'', ''response_time_below''), (''length'', ''length''), (''empty'', ''empty''),
      (''collection_not_empty'', ''collection_not_empty''), (''each'', ''each''), (''any'', ''any''), (''all'', ''all'')]"

lemma string_arg_cases:
  "string_arg oper x f = Inr a \<Longrightarrow> (\<And>s. f s = Inr a \<Longrightarrow> P) \<Longrightarrow> P"
  by (auto simp: string_arg_def split: gov.splits)

lemma class_bounds:
  "NewStatusClassAssertion c = Inr a \<Longrightarrow>
     \<exists>d \<in> {1..5}. a = StatusClassAssertion c (int d * 100) (int d * 100 + 99) \<and> hd c = digit_char d"
proof -
  have "digit_char 1 = CHR ''1''" "digit_char 2 = CHR ''2''" "digit_char 3 = CHR ''3''"
    "digit_char 4 = CHR ''4''" "digit_char 5 = CHR ''5''"
    by (simp_all add: digit_char_def char_of_def bit_Suc_0_iff)
  moreover assume "NewStatusClassAssertion c = Inr a"
  ultimately show ?thesis
    by (auto simp: NewStatusClassAssertion_def atLeastAtMost_iff split: if_splits
        intro: bexI[of _ 1] bexI[of _ 2] bexI[of _ 3] bexI[of _ 4] bexI[of _ 5])
qed

text \<open>A status class \<open>Dxx\<close> that the builder accepts passes just on the codes whose hundreds digit is
  \<open>D\<close>, and \<open>D\<close> is one of 1 to 5.\<close>

theorem status_class_hundreds:
  assumes "NewStatusClassAssertion c = Inr a" "in_int64 code"
  shows "(passes uc a (GInt code) \<longleftrightarrow> code div 100 = int (digit_val (hd c))) \<and> digit_val (hd c) \<in> {1..5}"
proof -
  obtain d where d: "d \<in> {1..5}" "a = StatusClassAssertion c (int d * 100) (int d * 100 + 99)" "hd c = digit_char d"
    using class_bounds[OF assms(1)] by blast
  have "int d * 100 \<le> code \<and> code \<le> int d * 100 + 99 \<longleftrightarrow> code div 100 = int d" by linarith
  with d assms(2) show ?thesis by (simp add: Evaluate_status_class_def)
qed

theorem status_class_hundreds_witness:
  "passes ascii_classes (StatusClassAssertion ''4xx'' 400 499) (GInt 404) \<longleftrightarrow> (404 :: int) div 100 = int (digit_val (hd ''4xx''))"
  using status_class_hundreds[of "''4xx''" "StatusClassAssertion ''4xx'' 400 499" 404 ascii_classes]
  by (simp add: NewStatusClassAssertion_def in_int64_def)

lemma class_known: "NewStatusClassAssertion c = Inr a \<Longrightarrow> Name a = ''status_class''"
  by (auto dest!: class_bounds)

lemma Build_known:
  "list_all (\<lambda>(oper, n). case Build compile oper x opts inner of
      Inr a \<Rightarrow> Name a = n | Inl (UnknownOperator o') \<Rightarrow> False | _ \<Rightarrow> True) operators"
  unfolding operators_def list.pred_inject prod.case
  by (intro conjI TrueI)
     (simp_all add: Build_def string_arg_def NewMatchesAssertion_def class_known
        split: option.split sum.split gov.split)

lemma Build_unknown: "map_of operators oper = None \<Longrightarrow> Build compile oper x opts inner = Inl (UnknownOperator oper)"
  unfolding map_of_eq_None_iff operators_def Build_def by simp

lemma Build_alias:
  "list_all (\<lambda>oper. Build compile oper x opts inner = Build compile (the (map_of operators oper)) x opts inner)
     [''eq'', ''neq'', ''gt'', ''lt'', ''gte'', ''lte'']"
  unfolding operators_def list.pred_inject by (intro conjI TrueI) (simp_all add: Build_def)

text \<open>The builder knows exactly its operators. It rejects an operator as unknown just when it is not
  in the table of names and aliases; whatever it builds for a known operator is the assertion the
  table names; and an alias (\<open>eq\<close>, \<open>neq\<close>, \<open>gt\<close>, \<open>lt\<close>, \<open>gte\<close>, \<open>lte\<close>) builds what the full name
  does.\<close>

theorem Build_operators:
  "(Build compile oper x opts inner = Inl (UnknownOperator oper) \<longleftrightarrow> map_of operators oper = None)
   \<and> (Build compile oper x opts inner = Inr a \<longrightarrow> map_of operators oper = Some (Name a))
   \<and> (oper \<in> {''eq'', ''neq'', ''gt'', ''lt'', ''gte'', ''lte''} \<longrightarrow>
        Build compile oper x opts inner = Build compile (the (map_of operators oper)) x opts inner)"
proof -
  have k: "(Build compile oper x opts inner = Inr a \<longrightarrow> Name a = n) \<and> Build compile oper x opts inner \<noteq> Inl (UnknownOperator oper)"
    if "map_of operators oper = Some n" for n
    using Build_known[of compile x opts inner] map_of_SomeD[OF that]
    by (cases "Build compile oper x opts inner") (fastforce simp: list_all_iff)+
  have "oper \<in> {''eq'', ''neq'', ''gt'', ''lt'', ''gte'', ''lte''} \<longrightarrow>
        Build compile oper x opts inner = Build compile (the (map_of operators oper)) x opts inner"
    using Build_alias[of compile x opts inner] unfolding list_all_iff by (simp only: list.set) blast
  with k Build_unknown[of oper compile x opts inner] show ?thesis
    by (cases "map_of operators oper") auto
qed

theorem Build_operators_witness:
  "map_of operators ''gt'' = Some (Name (GreaterThanAssertion (GInt 1)))"
  using Build_operators[of "\<lambda>_. None" "''gt''" "GInt 1" "[]" None "GreaterThanAssertion (GInt 1)"]
  by (simp add: Build_def)

end
