(* ===== verification/Retry.thy ===== *)
theory Retry
  imports Go_Value
begin

text \<open>
  core/retry: retries with exponential backoff, polling, and running under a timeout. The function that
  is retried, the context and the timers act on a state of any type: \<open>ctx_err\<close> is \<open>ctx.Err()\<close>, and a
  \<open>select\<close> is a function that says which case became ready first. \<open>math.Pow\<close> is an argument.
  \<open>Do\<close> also returns what it did, its calls and its waits.
\<close>

section \<open>Do\<close>

record policy =
  MaxAttempts :: int
  InitialWait :: int
  MaxWait :: int
  Multiplier :: f64

definition DefaultPolicy :: policy where
  "DefaultPolicy = \<lparr>MaxAttempts = 3, InitialWait = 100000000, MaxWait = 5000000000, Multiplier = Fin 2\<rparr>"

record ('e, 'w) retry_env =
  re_fn :: "'w \<Rightarrow> 'e option \<times> 'w"
  re_ctx_err :: "'w \<Rightarrow> 'e option"
  re_sleep :: "int \<Rightarrow> 'w \<Rightarrow> bool \<times> 'w"
  re_pow :: "f64 \<Rightarrow> f64 \<Rightarrow> f64"

datatype 'e event = Called "'e option" | Waited int

definition backoff :: "(f64 \<Rightarrow> f64 \<Rightarrow> f64) \<Rightarrow> policy \<Rightarrow> int \<Rightarrow> int" where
  "backoff pow p attempt =
     (let wait = f64_to_int (f64_mul (f64_of_int (InitialWait p)) (pow (Multiplier p) (f64_of_int attempt)))
      in if wait > MaxWait p then MaxWait p else wait)"

text \<open>The loop from \<open>attempt\<close> on, \<open>lastErr\<close> being the error of the attempt before.\<close>

function do_loop :: "('e, 'w) retry_env \<Rightarrow> policy \<Rightarrow> int \<Rightarrow> 'e option \<Rightarrow> 'w \<Rightarrow> 'e option \<times> 'e event list \<times> 'w" where
  "do_loop env p attempt lastErr w =
     (if \<not> attempt < MaxAttempts p then (lastErr, [], w)
      else (case re_ctx_err env w of
          Some err \<Rightarrow> (Some err, [], w)
        | None \<Rightarrow>
            (case re_fn env w of
               (None, w1) \<Rightarrow> (None, [Called None], w1)
             | (Some e, w1) \<Rightarrow>
                 if attempt + 1 \<ge> MaxAttempts p then (Some e, [Called (Some e)], w1)
                 else (let wait = backoff (re_pow env) p attempt in
                   case re_sleep env wait w1 of
                     (False, w2) \<Rightarrow> (re_ctx_err env w2, [Called (Some e), Waited wait], w2)
                   | (True, w2) \<Rightarrow>
                       (case do_loop env p (attempt + 1) (Some e) w2 of
                          (r, es, w3) \<Rightarrow> (r, Called (Some e) # Waited wait # es, w3))))))"
  by pat_completeness auto
termination
  by (relation "measure (\<lambda>(env, p, attempt, lastErr, w). nat (MaxAttempts p - attempt))") auto

declare do_loop.simps [simp del]

definition Do :: "('e, 'w) retry_env \<Rightarrow> policy \<Rightarrow> 'w \<Rightarrow> 'e option \<times> 'e event list \<times> 'w" where
  "Do env p w = do_loop env p 0 None w"

text \<open>The events of a run that fails \<open>n\<close> times with a backoff after each: the errors \<open>errs\<close> and the
  waits from attempt \<open>k\<close> on.\<close>

fun failures :: "(int \<Rightarrow> int) \<Rightarrow> int \<Rightarrow> 'e list \<Rightarrow> 'e event list" where
  "failures b k [] = []"
| "failures b k (e # errs) = Called (Some e) # Waited (b k) # failures b (k + 1) errs"

text \<open>A context that is never cancelled.\<close>

definition uncancelled :: "('e, 'w) retry_env \<Rightarrow> bool" where
  "uncancelled env \<longleftrightarrow> (\<forall>w. re_ctx_err env w = None) \<and> (\<forall>d w. fst (re_sleep env d w))"

lemma do_loop_uncancelled:
  assumes "uncancelled env" "attempt < MaxAttempts p"
  shows "\<exists>errs w'. int (length errs) < MaxAttempts p - attempt \<and>
     (do_loop env p attempt lastErr w = (None, failures (backoff (re_pow env) p) attempt errs @ [Called None], w')
      \<or> (\<exists>e. int (length errs) + 1 = MaxAttempts p - attempt \<and>
          do_loop env p attempt lastErr w = (Some e, failures (backoff (re_pow env) p) attempt errs @ [Called (Some e)], w')))"
  using assms(2)
proof (induction "nat (MaxAttempts p - attempt)" arbitrary: attempt lastErr w rule: less_induct)
  case less
  note u = assms(1)[unfolded uncancelled_def]
  obtain r w1 where fn: "re_fn env w = (r, w1)" by fastforce
  show ?case
  proof (cases r)
    case None
    then show ?thesis using less.prems u fn
      by (intro exI[of _ "[]"] exI[of _ w1]) (simp add: do_loop.simps[of env p attempt])
  next
    case (Some e)
    show ?thesis
    proof (cases "attempt + 1 \<ge> MaxAttempts p")
      case True
      with less.prems u fn Some show ?thesis
        by (intro exI[of _ "[]"] exI[of _ w1]) (simp add: do_loop.simps[of env p attempt])
    next
      case False
      obtain w2 where sl: "re_sleep env (backoff (re_pow env) p attempt) w1 = (True, w2)"
        using u by (metis (full_types) prod.collapse)
      have "nat (MaxAttempts p - (attempt + 1)) < nat (MaxAttempts p - attempt)" "attempt + 1 < MaxAttempts p"
        using False by simp_all
      from less.hyps[OF this, of "Some e" w2] obtain errs w' where
        IH: "int (length errs) < MaxAttempts p - (attempt + 1)"
          "do_loop env p (attempt + 1) (Some e) w2 = (None, failures (backoff (re_pow env) p) (attempt + 1) errs @ [Called None], w')
           \<or> (\<exists>e'. int (length errs) + 1 = MaxAttempts p - (attempt + 1) \<and>
             do_loop env p (attempt + 1) (Some e) w2 =
               (Some e', failures (backoff (re_pow env) p) (attempt + 1) errs @ [Called (Some e')], w'))"
        by blast
      have d: "do_loop env p attempt lastErr w =
          (case do_loop env p (attempt + 1) (Some e) w2 of
             (r, es, w3) \<Rightarrow> (r, Called (Some e) # Waited (backoff (re_pow env) p attempt) # es, w3))"
        using less.prems u fn Some False sl by (simp add: do_loop.simps[of env p attempt] Let_def)
      show ?thesis
        using IH by (intro exI[of _ "e # errs"] exI[of _ w']) (auto simp: d)
    qed
  qed
qed

text \<open>C23: retrying. Under a context that is not cancelled and a policy of at least one attempt, \<open>Do\<close>
  calls the function until its first success, at most \<open>MaxAttempts\<close> times; between two calls it waits
  the backoff of the attempt that failed; it returns no error when the last call succeeded, and the
  error of the last call when all \<open>MaxAttempts\<close> calls failed. A cancelled context is reported without
  a call, and a policy without attempts returns no error without a call.\<close>

theorem Do_retries:
  "(uncancelled env \<and> 0 < MaxAttempts p \<longrightarrow>
      (\<exists>errs w'. int (length errs) < MaxAttempts p \<and>
        (Do env p w = (None, failures (backoff (re_pow env) p) 0 errs @ [Called None], w')
         \<or> (\<exists>e. int (length errs) + 1 = MaxAttempts p \<and>
              Do env p w = (Some e, failures (backoff (re_pow env) p) 0 errs @ [Called (Some e)], w')))))
   \<and> (re_ctx_err env w = Some err \<and> 0 < MaxAttempts p \<longrightarrow> Do env p w = (Some err, [], w))
   \<and> (MaxAttempts p \<le> 0 \<longrightarrow> Do env p w = (None, [], w))"
proof -
  have "uncancelled env \<and> 0 < MaxAttempts p \<longrightarrow>
      (\<exists>errs w'. int (length errs) < MaxAttempts p \<and>
        (Do env p w = (None, failures (backoff (re_pow env) p) 0 errs @ [Called None], w')
         \<or> (\<exists>e. int (length errs) + 1 = MaxAttempts p \<and>
              Do env p w = (Some e, failures (backoff (re_pow env) p) 0 errs @ [Called (Some e)], w'))))"
    using do_loop_uncancelled[of env 0 p None w] by (auto simp: Do_def)
  then show ?thesis by (simp add: Do_def do_loop.simps[of env p 0])
qed

text \<open>An environment whose function fails as often as its state says.\<close>

definition failing_env :: "(nat, nat) retry_env" where
  "failing_env = \<lparr>re_fn = (\<lambda>n. if n = 0 then (None, 0) else (Some n, n - 1)), re_ctx_err = (\<lambda>_. None),
     re_sleep = (\<lambda>d w. (True, w)), re_pow = (\<lambda>x y. Fin (2 ^ nat \<lfloor>rat_of y\<rfloor>))\<rparr>"

theorem Do_retries_witness:
  "\<exists>errs w'. int (length errs) < 3 \<and>
     (Do failing_env DefaultPolicy 1 = (None, failures (backoff (re_pow failing_env) DefaultPolicy) 0 errs @ [Called None], w')
      \<or> (\<exists>e. int (length errs) + 1 = 3 \<and>
           Do failing_env DefaultPolicy 1 = (Some e, failures (backoff (re_pow failing_env) DefaultPolicy) 0 errs @ [Called (Some e)], w')))"
  using Do_retries[of failing_env DefaultPolicy 1] by (simp add: DefaultPolicy_def uncancelled_def failing_env_def)

section \<open>The backoff\<close>

lemma round_f64_exact:
  assumes "0 < q" "q / pow2 (ulp_exp q) = of_int k" "q < 2 ^ 1024"
  shows "round_f64 q = Fin q"
  using assms round_pos_exact[of q k] by (simp add: round_f64_def Let_def)

text \<open>The waits. With multiplier 2 (and a \<open>math.Pow\<close> that is exact on powers of two) the wait after
  attempt \<open>k\<close> is the initial wait doubled \<open>k\<close> times, cut off at \<open>MaxWait\<close>, as long as the doubled
  wait is at most \<open>2^53\<close> nanoseconds (104 days). For larger \<open>k\<close> the conversion to \<open>Duration\<close> may
  overflow: under the default policy the wait after attempt 37 is the least \<open>int64\<close>, which no longer
  waits at all.\<close>

theorem backoff_doubles:
  assumes "\<forall>k \<in> {0..1023}. pow (Fin 2) (f64_of_int k) = Fin (2 ^ nat k)"
  shows "(Multiplier p = Fin 2 \<and> k \<in> {0..1023} \<and> 0 \<le> InitialWait p \<and> InitialWait p * 2 ^ nat k \<le> 2 ^ 53 \<longrightarrow>
      backoff pow p k = min (InitialWait p * 2 ^ nat k) (MaxWait p))
    \<and> backoff pow DefaultPolicy 37 = - (2 ^ 63)"
proof
  have one: "(1 :: int) \<le> 2 ^ nat k" by simp
  show "Multiplier p = Fin 2 \<and> k \<in> {0..1023} \<and> 0 \<le> InitialWait p \<and> InitialWait p * 2 ^ nat k \<le> 2 ^ 53 \<longrightarrow>
      backoff pow p k = min (InitialWait p * 2 ^ nat k) (MaxWait p)"
  proof
    assume a: "Multiplier p = Fin 2 \<and> k \<in> {0..1023} \<and> 0 \<le> InitialWait p \<and> InitialWait p * 2 ^ nat k \<le> 2 ^ 53"
    then have i: "InitialWait p \<le> 2 ^ 53"
      using mult_left_mono[OF one, of "InitialWait p"] by simp
    let ?n = "InitialWait p * 2 ^ nat k"
    have "f64_mul (f64_of_int (InitialWait p)) (Fin (2 ^ nat k)) = Fin (of_int ?n)"
    proof (cases "InitialWait p = 0")
      case False
      then show ?thesis using a i round_f64_int[of ?n]
        by (simp add: f64_mul_def f64_of_int_exact)
    qed (simp add: f64_mul_def f64_of_int_exact signed_zero_def)
    moreover have "0 \<le> ?n" "?n \<le> 2 ^ 53" using a by simp_all
    then have "in_int64 ?n" by (simp add: in_int64_def)
    then have "f64_to_int (Fin (of_int ?n)) = ?n"
      using trunc_rat_int[of ?n] by (simp add: f64_to_int_def del: of_int_mult)
    ultimately show "backoff pow p k = min ?n (MaxWait p)"
      using a assms by (simp add: backoff_def Let_def min_def del: of_int_mult)
  qed
  have "ilog2 13743895347200000000 = 63" by (simp add: ilog2.simps)
  then have "ulp_exp (of_int 13743895347200000000) = 11" by (subst ulp_exp_int) simp_all
  then have "round_f64 13743895347200000000 = Fin 13743895347200000000"
    by (intro round_f64_exact[where k = 6710886400000000]) (simp_all add: pow2_def)
  moreover have "pow (Fin 2) (f64_of_int 37) = Fin 137438953472" using assms by auto
  moreover have "f64_of_int 100000000 = Fin 100000000" using f64_of_int_exact[of 100000000] by simp
  ultimately show "backoff pow DefaultPolicy 37 = - (2 ^ 63)"
    by (simp add: backoff_def DefaultPolicy_def f64_mul_def f64_to_int_def trunc_rat_def in_int64_def)
qed

theorem backoff_doubles_witness:
  "backoff (\<lambda>x y. Fin (2 ^ nat \<lfloor>rat_of y\<rfloor>)) DefaultPolicy 37 = - (2 ^ 63)"
proof (rule conjunct2, rule backoff_doubles)
  show "\<forall>k \<in> {0..1023}. Fin (2 ^ nat \<lfloor>rat_of (f64_of_int k)\<rfloor>) = Fin (2 ^ nat k)"
    by (auto simp: f64_of_int_exact)
qed

section \<open>Until\<close>

record PollOptions =
  Interval :: int
  Timeout :: int

text \<open>The case of the \<open>select\<close> that became ready: the deadline, the context, or the interval's timer.\<close>

datatype poll_case = Deadline | CtxDone | Tick

datatype 'e poll_error = FnError 'e | CtxError 'e | PollTimeout

text \<open>
  What \<open>Until\<close> calls. \<open>pe_now\<close> reads the monotonic clock, in nanoseconds; \<open>pe_select dl tick w\<close> is the
  \<open>select\<close> entered in the state \<open>w\<close> with a timer due at \<open>dl\<close> for the deadline and one due at \<open>tick\<close> for
  the interval, and returns the case it took and the state then. The timer of the interval is made at the
  moment its \<open>select\<close> is entered, as the source makes it in the \<open>case\<close> itself.
\<close>

record ('e, 'w) poll_env =
  pe_now :: "'w \<Rightarrow> int"
  pe_fn :: "'w \<Rightarrow> ('e + bool) \<times> 'w"
  pe_ctx_err :: "'w \<Rightarrow> 'e option"
  pe_select :: "int \<Rightarrow> int \<Rightarrow> 'w \<Rightarrow> poll_case \<times> 'w"

text \<open>\<open>time.After\<close> called at \<open>t\<close>: when its timer is due. A duration that is not positive is over at once,
  and a sum that does not fit into 64 bits is the last instant there is.\<close>

definition After :: "int \<Rightarrow> int \<Rightarrow> int" where
  "After t d = (if d \<le> 0 then t else if t + d < 2 ^ 63 then t + d else 2 ^ 63 - 1)"

text \<open>The loop, with the timer of the deadline; each turn that has to wait makes a timer of its own for
  the interval. \<^const>\<open>None\<close> outside would be a loop that never ends.\<close>

partial_function (option) until_loop ::
  "('e, 'w) poll_env \<Rightarrow> PollOptions \<Rightarrow> int \<Rightarrow> nat \<Rightarrow> 'w \<Rightarrow> ('e poll_error option \<times> nat \<times> 'w) option" where
  "until_loop env opts deadline polls w =
     (case pe_ctx_err env w of
        Some err \<Rightarrow> Some (Some (CtxError err), polls, w)
      | None \<Rightarrow>
          (case pe_fn env w of
             (Inl err, w1) \<Rightarrow> Some (Some (FnError err), polls + 1, w1)
           | (Inr ok, w1) \<Rightarrow>
               if ok then Some (None, polls + 1, w1)
               else (case pe_select env deadline (After (pe_now env w1) (Interval opts)) w1 of
                   (Deadline, w2) \<Rightarrow> Some (Some PollTimeout, polls + 1, w2)
                 | (CtxDone, w2) \<Rightarrow> Some (map_option CtxError (pe_ctx_err env w2), polls + 1, w2)
                 | (Tick, w2) \<Rightarrow> until_loop env opts deadline (polls + 1) w2)))"

definition Until :: "('e, 'w) poll_env \<Rightarrow> PollOptions \<Rightarrow> 'w \<Rightarrow> ('e poll_error option \<times> nat \<times> 'w) option" where
  "Until env opts w = until_loop env opts (After (pe_now env w) (Timeout opts)) 0 w"

text \<open>
  What the clock, the \<open>select\<close> and the context promise, whatever the options: the clock does not go back
  and has not run out; a timer's case is taken no earlier than the timer is due; a \<open>select\<close> that
  finds the deadline's timer due and the other not does not wait for the other; and a context that is
  done has an error.
\<close>

definition clock_laws :: "('e, 'w) poll_env \<Rightarrow> bool" where
  "clock_laws env \<longleftrightarrow>
     (\<forall>w. pe_now env w < 2 ^ 63 - 1)
     \<and> (\<forall>w r w'. pe_fn env w = (r, w') \<longrightarrow> pe_now env w \<le> pe_now env w')
     \<and> (\<forall>dl tick w c w'. pe_select env dl tick w = (c, w') \<longrightarrow> pe_now env w \<le> pe_now env w')
     \<and> (\<forall>dl tick w w'. pe_select env dl tick w = (Deadline, w') \<longrightarrow> dl \<le> pe_now env w')
     \<and> (\<forall>dl tick w w'. pe_select env dl tick w = (Tick, w') \<longrightarrow>
          tick \<le> pe_now env w' \<and> \<not> (dl \<le> pe_now env w \<and> pe_now env w < tick))
     \<and> (\<forall>dl tick w w'. pe_select env dl tick w = (CtxDone, w') \<longrightarrow> pe_ctx_err env w' \<noteq> None)"

text \<open>What a result of polling says, \<open>dl\<close> being the deadline.\<close>

definition poll_verdict :: "('e, 'w) poll_env \<Rightarrow> int \<Rightarrow> 'e poll_error option \<Rightarrow> 'w \<Rightarrow> bool" where
  "poll_verdict env dl r w' \<longleftrightarrow>
     (case r of
        None \<Rightarrow> \<exists>v. pe_fn env v = (Inr True, w')
      | Some (FnError e) \<Rightarrow> \<exists>v. pe_fn env v = (Inl e, w')
      | Some (CtxError e) \<Rightarrow> pe_ctx_err env w' = Some e
      | Some PollTimeout \<Rightarrow> dl \<le> pe_now env w')"

lemma After_reached: "t < 2 ^ 63 - 1 \<Longrightarrow> u < 2 ^ 63 - 1 \<Longrightarrow> After t d \<le> u \<Longrightarrow> t + d \<le> u"
  by (auto simp: After_def split: if_splits)

lemma After_later: "t < 2 ^ 63 - 1 \<Longrightarrow> 0 < d \<Longrightarrow> t < After t d"
  by (simp add: After_def)

lemma After_upper: "t < 2 ^ 63 - 1 \<Longrightarrow> After t d \<le> t + max 0 d"
  by (simp add: After_def)

lemma clock_lawsD:
  assumes "clock_laws env"
  shows "pe_now env w < 2 ^ 63 - 1"
    and "pe_fn env w = (r, w') \<Longrightarrow> pe_now env w \<le> pe_now env w'"
    and "pe_select env dl tick w = (c, w') \<Longrightarrow> pe_now env w \<le> pe_now env w'"
    and "pe_select env dl tick w = (Deadline, w') \<Longrightarrow> dl \<le> pe_now env w'"
    and "pe_select env dl tick w = (Tick, w') \<Longrightarrow> tick \<le> pe_now env w'"
    and "pe_select env dl tick w = (Tick, w') \<Longrightarrow> \<not> (dl \<le> pe_now env w \<and> pe_now env w < tick)"
    and "pe_select env dl tick w = (CtxDone, w') \<Longrightarrow> \<exists>e. pe_ctx_err env w' = Some e"
proof -
  note l = assms[unfolded clock_laws_def]
  show "pe_now env w < 2 ^ 63 - 1" using l by (elim conjE) (rule spec)
  show "pe_fn env w = (r, w') \<Longrightarrow> pe_now env w \<le> pe_now env w'" using l by (elim conjE) metis
  show "pe_select env dl tick w = (c, w') \<Longrightarrow> pe_now env w \<le> pe_now env w'" using l by (elim conjE) metis
  show "pe_select env dl tick w = (Deadline, w') \<Longrightarrow> dl \<le> pe_now env w'" using l by (elim conjE) metis
  show "pe_select env dl tick w = (Tick, w') \<Longrightarrow> tick \<le> pe_now env w'" using l by (elim conjE) metis
  show "pe_select env dl tick w = (Tick, w') \<Longrightarrow> \<not> (dl \<le> pe_now env w \<and> pe_now env w < tick)" using l by (elim conjE) metis
  show "pe_select env dl tick w = (CtxDone, w') \<Longrightarrow> \<exists>e. pe_ctx_err env w' = Some e" using l by (elim conjE) auto
qed

lemma tick_taken:
  assumes "clock_laws env" "0 < d" "pe_select env dl (After (pe_now env w) d) w = (Tick, w')"
  shows "pe_now env w < dl \<and> pe_now env w + d \<le> pe_now env w'"
proof -
  have b: "pe_now env w < 2 ^ 63 - 1" "pe_now env w' < 2 ^ 63 - 1"
    and "After (pe_now env w) d \<le> pe_now env w'" "\<not> (dl \<le> pe_now env w \<and> pe_now env w < After (pe_now env w) d)"
    using clock_lawsD(1,5,6)[OF assms(1)] assms(3) by blast+
  then show ?thesis using After_later[OF b(1) assms(2)] After_reached[OF b] by auto
qed

lemma until_loop_ends:
  assumes "clock_laws env" "0 < Interval opts"
  shows "\<exists>r n w'. until_loop env opts dl polls w = Some (r, polls + n, w') \<and> poll_verdict env dl r w' \<and>
    (2 \<le> n \<longrightarrow> (int n - 2) * Interval opts < dl - pe_now env w) \<and>
    pe_now env w \<le> pe_now env w' \<and> (int n - 1) * Interval opts \<le> pe_now env w' - pe_now env w"
proof (induction "nat (dl - pe_now env w + Interval opts)" arbitrary: polls w rule: less_induct)
  case less
  note k = clock_lawsD[OF assms(1)]
  show ?case
  proof (cases "pe_ctx_err env w")
    case (Some e)
    then show ?thesis using assms(2)
      by (intro exI[of _ "Some (CtxError e)"] exI[of _ 0] exI[of _ w])
        (simp add: until_loop.simps[of env opts dl polls w] poll_verdict_def)
  next
    case None
    obtain r w1 where fn: "pe_fn env w = (r, w1)" by fastforce
    then have t1: "pe_now env w \<le> pe_now env w1" using k(2) by blast
    obtain c w2 where sel: "pe_select env dl (After (pe_now env w1) (Interval opts)) w1 = (c, w2)" by fastforce
    then have t2: "pe_now env w1 \<le> pe_now env w2" using k(3) by blast
    show ?thesis
    proof (cases "r = Inr False \<and> c = Tick")
      case True
      have t3: "pe_now env w1 < dl" "pe_now env w1 + Interval opts \<le> pe_now env w2"
        using tick_taken[OF assms] sel True by auto
      have "nat (dl - pe_now env w2 + Interval opts) < nat (dl - pe_now env w + Interval opts)"
        using t1 t3 assms(2) by linarith
      from less.hyps[OF this, of "polls + 1"] obtain r' n w' where
        IH: "until_loop env opts dl (polls + 1) w2 = Some (r', polls + 1 + n, w')" "poll_verdict env dl r' w'"
          "2 \<le> n \<longrightarrow> (int n - 2) * Interval opts < dl - pe_now env w2"
          "pe_now env w2 \<le> pe_now env w'" "(int n - 1) * Interval opts \<le> pe_now env w' - pe_now env w2" by blast
      have "(int (Suc n) - 2) * Interval opts < dl - pe_now env w" if "2 \<le> Suc n"
      proof (cases "2 \<le> n")
        case True
        then have "(int n - 2) * Interval opts < dl - pe_now env w2" using IH(3) by blast
        then show ?thesis using t1 t3 by (simp add: algebra_simps)
      next
        case False
        then have "n = 1" using that by simp
        then show ?thesis using t1 t3 by simp
      qed
      moreover have "(int (Suc n) - 1) * Interval opts \<le> pe_now env w' - pe_now env w"
        using IH(5) t1 t3 by (simp add: algebra_simps)
      moreover have "pe_now env w \<le> pe_now env w'" using IH(4) t1 t2 by linarith
      ultimately show ?thesis
        using IH(1,2) True None fn sel
        by (intro exI[of _ r'] exI[of _ "Suc n"] exI[of _ w']) (simp add: until_loop.simps[of env opts dl polls w])
    next
      case False
      let ?one = "\<lambda>r w'. until_loop env opts dl polls w = Some (r, polls + 1, w') \<and> poll_verdict env dl r w' \<and>
        pe_now env w \<le> pe_now env w'"
      have "\<exists>r w'. ?one r w'"
      proof (cases r)
        case (Inl e)
        then have "?one (Some (FnError e)) w1" using None fn t1
          by (auto simp: until_loop.simps[of env opts dl polls w] poll_verdict_def)
        then show ?thesis by blast
      next
        case (Inr ok)
        consider ok | "\<not> ok" "c = Deadline" | "\<not> ok" "c = CtxDone" using False Inr by (cases c) auto
        then show ?thesis
        proof cases
          case 1
          then have "?one None w1" using None fn t1 Inr
            by (auto simp: until_loop.simps[of env opts dl polls w] poll_verdict_def)
          then show ?thesis by blast
        next
          case 2
          then have "dl \<le> pe_now env w2" using k(4) sel by blast
          then have "?one (Some PollTimeout) w2" using None fn t1 t2 Inr 2 sel
            by (auto simp: until_loop.simps[of env opts dl polls w] poll_verdict_def)
          then show ?thesis by blast
        next
          case 3
          then obtain e where "pe_ctx_err env w2 = Some e" using k(7) sel by blast
          then have "?one (Some (CtxError e)) w2" using None fn t1 t2 Inr 3 sel
            by (auto simp: until_loop.simps[of env opts dl polls w] poll_verdict_def)
          then show ?thesis by blast
        qed
      qed
      then obtain r w' where "?one r w'" by blast
      then show ?thesis by (intro exI[of _ r] exI[of _ 1] exI[of _ w']) simp
    qed
  qed
qed

text \<open>C24: polling ends, at the pace and by the deadline of its options. With a clock and a \<open>select\<close> that
  keep their laws and a positive \<open>Interval\<close>, \<open>Until\<close> returns: it calls the function at most
  \<open>Timeout / Interval\<close> (rounded up) times and once more, and with \<open>Interval\<close> between any two calls. It
  returns nil only when a call returned true, an error only when the function or the context gave it, and
  the timeout no earlier than \<open>Timeout\<close> after it was called.\<close>

theorem Until_terminates:
  assumes "clock_laws env" "0 < Interval opts"
  shows "\<exists>r n w'. Until env opts w = Some (r, n, w')
    \<and> int n \<le> (max 0 (Timeout opts) + Interval opts - 1) div Interval opts + 1
    \<and> (int n - 1) * Interval opts \<le> pe_now env w' - pe_now env w
    \<and> (case r of
         None \<Rightarrow> \<exists>v. pe_fn env v = (Inr True, w')
       | Some (FnError e) \<Rightarrow> \<exists>v. pe_fn env v = (Inl e, w')
       | Some (CtxError e) \<Rightarrow> pe_ctx_err env w' = Some e
       | Some PollTimeout \<Rightarrow> pe_now env w + Timeout opts \<le> pe_now env w')"
proof -
  let ?I = "Interval opts" and ?dl = "After (pe_now env w) (Timeout opts)"
  have t: "pe_now env v < 2 ^ 63 - 1" for v by (rule clock_lawsD(1)[OF assms(1)])
  obtain r n w' where u: "until_loop env opts ?dl 0 w = Some (r, n, w')" "poll_verdict env ?dl r w'"
      "2 \<le> n \<longrightarrow> (int n - 2) * ?I < ?dl - pe_now env w" "(int n - 1) * ?I \<le> pe_now env w' - pe_now env w"
    using until_loop_ends[OF assms, of ?dl 0 w] by auto
  have "int n \<le> (max 0 (Timeout opts) + ?I - 1) div ?I + 1"
  proof (cases "2 \<le> n")
    case True
    then have "(int n - 2) * ?I \<le> max 0 (Timeout opts) - 1"
      using u(3) After_upper[OF t, of w "Timeout opts"] by linarith
    then have "(int n - 1) * ?I \<le> max 0 (Timeout opts) + ?I - 1" by (simp add: algebra_simps)
    from zdiv_mono1[OF this assms(2)] show ?thesis using assms(2) by simp
  next
    case False
    moreover have "0 \<le> (max 0 (Timeout opts) + ?I - 1) div ?I" using assms(2) by (simp add: pos_imp_zdiv_nonneg_iff)
    ultimately show ?thesis by linarith
  qed
  with u(1,2,4) show ?thesis using After_reached[OF t t, of w "Timeout opts" w']
    by (intro exI[of _ r] exI[of _ n] exI[of _ w'])
      (auto simp: Until_def poll_verdict_def split: option.splits poll_error.splits)
qed

text \<open>A clock that is read from the state: a call takes three nanoseconds, the timers are punctual, and the
  context is cancelled after a thousand.\<close>

definition clock_env :: "(unit, nat) poll_env" where
  "clock_env = \<lparr>pe_now = (\<lambda>t. min (int t) 1001), pe_fn = (\<lambda>t. (Inr False, t + 3)),
     pe_ctx_err = (\<lambda>t. if t > 1000 then Some () else None),
     pe_select = (\<lambda>dl tick t. if tick < dl \<and> tick \<le> 1000 then (Tick, max t (nat tick))
       else if dl \<le> 1000 then (Deadline, max t (nat dl)) else (CtxDone, max t 1001))\<rparr>"

theorem Until_terminates_witness:
  "\<exists>r n w'. Until clock_env \<lparr>Interval = 10, Timeout = 95\<rparr> 0 = Some (r, n, w') \<and> int n \<le> 11"
proof -
  have "clock_laws clock_env" by (auto simp: clock_laws_def clock_env_def split: if_splits)
  from Until_terminates[OF this, of "\<lparr>Interval = 10, Timeout = 95\<rparr>" 0] show ?thesis by auto
qed

section \<open>WithTimeout\<close>

datatype 'e timeout_result = FnResult "'e option" | ParentError 'e | TimeoutError int string

text \<open>The \<open>select\<close> of \<open>WithTimeout\<close>: the function returned, or the derived context was done; in the
  second case the parent context's error, if it has one, is reported.\<close>

datatype 'e timeout_case = Returned "'e option" | TimerDone "'e option"

definition WithTimeout :: "'e option \<Rightarrow> int \<Rightarrow> 'e timeout_case \<Rightarrow> 'e timeout_result" where
  "WithTimeout ctx_err d sel =
     (case ctx_err of
        Some err \<Rightarrow> ParentError err
      | None \<Rightarrow>
          (case sel of
             Returned err \<Rightarrow> FnResult err
           | TimerDone (Some err) \<Rightarrow> ParentError err
           | TimerDone None \<Rightarrow> TimeoutError d ''operation did not complete in time''))"

end
