(* ===== verification/Coverage.thy ===== *)
theory Coverage
  imports Go_Value
begin

text \<open>
  core/coverage: the tracker of what a run executed, its report, the percentages and the gate. The
  tracker's maps are association lists; each method runs under the mutex, so a concurrent execution is
  some sequence of these operations. The refinement theorem says what the report shows of a test in
  terms of that sequence.
\<close>

section \<open>The tracker\<close>

record test_data =
  td_name :: string
  td_stepCount :: int
  td_assertionCount :: int
  td_ran :: bool
  td_skipped :: bool
  td_executedSteps :: int
  td_passedAsserts :: int
  td_failedAsserts :: int

record suite_data =
  sd_name :: string
  sd_testCount :: int
  sd_tests :: "(string \<times> test_data) list"
  sd_order :: "string list"

record tracker =
  tr_suites :: "(string \<times> suite_data) list"
  tr_order :: "string list"

definition NewTracker :: tracker where
  "NewTracker = \<lparr>tr_suites = [], tr_order = []\<rparr>"

definition RegisterSuite :: "string \<Rightarrow> int \<Rightarrow> tracker \<Rightarrow> tracker" where
  "RegisterSuite name testCount t =
     (if map_of (tr_suites t) name \<noteq> None then t
      else t\<lparr>tr_suites := AList.update name
               \<lparr>sd_name = name, sd_testCount = testCount, sd_tests = [], sd_order = []\<rparr> (tr_suites t),
             tr_order := tr_order t @ [name]\<rparr>)"

definition new_test :: "string \<Rightarrow> int \<Rightarrow> int \<Rightarrow> test_data" where
  "new_test test stepCount assertionCount =
     \<lparr>td_name = test, td_stepCount = stepCount, td_assertionCount = assertionCount, td_ran = False,
      td_skipped = False, td_executedSteps = 0, td_passedAsserts = 0, td_failedAsserts = 0\<rparr>"

definition RegisterTest :: "string \<Rightarrow> string \<Rightarrow> int \<Rightarrow> int \<Rightarrow> tracker \<Rightarrow> tracker" where
  "RegisterTest suite test stepCount assertionCount t =
     (case map_of (tr_suites t) suite of
        None \<Rightarrow> t
      | Some s \<Rightarrow>
          if map_of (sd_tests s) test \<noteq> None then t
          else t\<lparr>tr_suites := AList.update suite
                   (s\<lparr>sd_tests := AList.update test (new_test test stepCount assertionCount) (sd_tests s),
                      sd_order := sd_order s @ [test]\<rparr>) (tr_suites t)\<rparr>)"

definition findTest :: "tracker \<Rightarrow> string \<Rightarrow> string \<Rightarrow> test_data option" where
  "findTest t suite test =
     (case map_of (tr_suites t) suite of None \<Rightarrow> None | Some s \<Rightarrow> map_of (sd_tests s) test)"

text \<open>What the \<open>Record\<close> methods have in common: a change through the pointer \<open>findTest\<close> returns.\<close>

definition change_test :: "(test_data \<Rightarrow> test_data) \<Rightarrow> string \<Rightarrow> string \<Rightarrow> tracker \<Rightarrow> tracker" where
  "change_test f suite test t =
     (case findTest t suite test of
        None \<Rightarrow> t
      | Some td \<Rightarrow>
          (let s = the (map_of (tr_suites t) suite) in
           t\<lparr>tr_suites := AList.update suite (s\<lparr>sd_tests := AList.update test (f td) (sd_tests s)\<rparr>) (tr_suites t)\<rparr>))"

definition RecordTestRun :: "string \<Rightarrow> string \<Rightarrow> tracker \<Rightarrow> tracker" where
  "RecordTestRun = change_test (\<lambda>td. td\<lparr>td_ran := True\<rparr>)"

definition RecordTestSkip :: "string \<Rightarrow> string \<Rightarrow> tracker \<Rightarrow> tracker" where
  "RecordTestSkip = change_test (\<lambda>td. td\<lparr>td_skipped := True\<rparr>)"

definition RecordStep :: "string \<Rightarrow> string \<Rightarrow> tracker \<Rightarrow> tracker" where
  "RecordStep = change_test (\<lambda>td. td\<lparr>td_executedSteps := td_executedSteps td + 1\<rparr>)"

definition RecordAssertion :: "string \<Rightarrow> string \<Rightarrow> bool \<Rightarrow> tracker \<Rightarrow> tracker" where
  "RecordAssertion suite test passed =
     change_test (\<lambda>td. if passed then td\<lparr>td_passedAsserts := td_passedAsserts td + 1\<rparr>
                       else td\<lparr>td_failedAsserts := td_failedAsserts td + 1\<rparr>) suite test"

section \<open>The report\<close>

record test_coverage =
  cv_Name :: string
  cv_Ran :: bool
  cv_Skipped :: bool
  cv_TotalSteps :: int
  cv_ExecutedSteps :: int
  cv_TotalAssertions :: int
  cv_PassedAssertions :: int
  cv_FailedAssertions :: int

record suite_coverage =
  sc_Suite :: string
  sc_Tests :: "test_coverage list"
  sc_TotalTests :: int
  sc_RanTests :: int
  sc_SkippedTests :: int

definition test_report :: "test_data \<Rightarrow> test_coverage" where
  "test_report td =
     \<lparr>cv_Name = td_name td, cv_Ran = td_ran td, cv_Skipped = td_skipped td, cv_TotalSteps = td_stepCount td,
      cv_ExecutedSteps = td_executedSteps td, cv_TotalAssertions = td_assertionCount td,
      cv_PassedAssertions = td_passedAsserts td, cv_FailedAssertions = td_failedAsserts td\<rparr>"

definition suite_report :: "suite_data \<Rightarrow> suite_coverage" where
  "suite_report s =
     (let tds = map (\<lambda>n. the (map_of (sd_tests s) n)) (sd_order s) in
      \<lparr>sc_Suite = sd_name s, sc_Tests = map test_report tds, sc_TotalTests = sd_testCount s,
       sc_RanTests = int (length (filter td_ran tds)),
       sc_SkippedTests = int (length (filter td_skipped tds))\<rparr>)"

definition Results :: "tracker \<Rightarrow> suite_coverage list" where
  "Results t = map (\<lambda>n. suite_report (the (map_of (tr_suites t) n))) (tr_order t)"

definition percent_of :: "int \<Rightarrow> int \<Rightarrow> f64" where
  "percent_of part whole = f64_mul (f64_div (f64_of_int part) (f64_of_int whole)) (f64_of_int 100)"

definition TotalPercent :: "tracker \<Rightarrow> f64" where
  "TotalPercent t =
     (let totalTests = sum_list (map sc_TotalTests (Results t));
          ranTests = sum_list (map sc_RanTests (Results t))
      in if totalTests = 0 then Fin 0 else percent_of ranTests totalTests)"

definition suite_Percent :: "suite_coverage \<Rightarrow> f64" where
  "suite_Percent s = (if sc_TotalTests s = 0 then Fin 0 else percent_of (sc_RanTests s) (sc_TotalTests s))"

definition test_Percent :: "test_coverage \<Rightarrow> f64" where
  "test_Percent t =
     (if \<not> cv_Ran t then Fin 0
      else (let hasSteps = cv_TotalSteps t > 0;
                hasAssertions = cv_TotalAssertions t > 0 in
        if \<not> hasSteps \<and> \<not> hasAssertions then f64_of_int 100
        else (let (s, c) = (if hasSteps then (f64_add (Fin 0) (percent_of (cv_ExecutedSteps t) (cv_TotalSteps t)), Fin 1)
                            else (Fin 0, Fin 0));
                  (s, c) = (if hasAssertions
                            then (f64_add s (percent_of (cv_PassedAssertions t) (cv_TotalAssertions t)), f64_add c (Fin 1))
                            else (s, c))
              in f64_div s c)))"

text \<open>\<open>Gate.Check\<close>: \<^const>\<open>None\<close> when the gate is passed, otherwise the actual percentage.\<close>

definition gate_Check :: "f64 \<Rightarrow> tracker \<Rightarrow> f64 option" where
  "gate_Check threshold t = (if f64_lt (TotalPercent t) threshold then Some (TotalPercent t) else None)"

section \<open>Executions\<close>

datatype cov_op =
    CovSuite string int | CovTest string string int int
  | CovRun string string | CovSkip string string | CovStep string string | CovAssert string string bool

fun cov_exec :: "cov_op \<Rightarrow> tracker \<Rightarrow> tracker" where
  "cov_exec (CovSuite s n) = RegisterSuite s n"
| "cov_exec (CovTest s t k a) = RegisterTest s t k a"
| "cov_exec (CovRun s t) = RecordTestRun s t"
| "cov_exec (CovSkip s t) = RecordTestSkip s t"
| "cov_exec (CovStep s t) = RecordStep s t"
| "cov_exec (CovAssert s t b) = RecordAssertion s t b"

definition cov_execute :: "cov_op list \<Rightarrow> tracker" where
  "cov_execute ops = fold cov_exec ops NewTracker"

text \<open>What a sequence of operations does to one test that it finds registered as \<open>td\<close>.\<close>

definition progress :: "string \<Rightarrow> string \<Rightarrow> cov_op list \<Rightarrow> test_data \<Rightarrow> test_data" where
  "progress s t ops td =
     td\<lparr>td_ran := td_ran td \<or> CovRun s t \<in> set ops,
        td_skipped := td_skipped td \<or> CovSkip s t \<in> set ops,
        td_executedSteps := td_executedSteps td + int (count_list ops (CovStep s t)),
        td_passedAsserts := td_passedAsserts td + int (count_list ops (CovAssert s t True)),
        td_failedAsserts := td_failedAsserts td + int (count_list ops (CovAssert s t False))\<rparr>"

lemma findTest_change:
  "findTest (change_test f s t tr) s' t' =
     (if s' = s \<and> t' = t then map_option f (findTest tr s t) else findTest tr s' t')"
  by (auto simp: change_test_def findTest_def Let_def update_conv' split: option.splits)

lemma findTest_RegisterSuite: "findTest (RegisterSuite s n tr) s' t' = findTest tr s' t'"
  by (auto simp: RegisterSuite_def findTest_def update_conv' split: option.splits)

lemma findTest_RegisterTest:
  "findTest (RegisterTest s t k a tr) s' t' =
     (if s' = s \<and> t' = t \<and> findTest tr s t = None \<and> map_of (tr_suites tr) s \<noteq> None
      then Some (new_test t k a) else findTest tr s' t')"
  by (auto simp: RegisterTest_def findTest_def update_conv' split: option.splits)

lemmas findTest_exec =
  findTest_change findTest_RegisterSuite findTest_RegisterTest
  RecordTestRun_def RecordTestSkip_def RecordStep_def RecordAssertion_def

lemma findTest_step:
  "findTest tr s t = Some td \<Longrightarrow> findTest (cov_exec x tr) s t = Some (progress s t [x] td)"
  by (cases x) (auto simp: findTest_exec progress_def)

lemma progress_Cons: "progress s t (x # ops) td = progress s t ops (progress s t [x] td)"
  by (simp add: progress_def)

lemma findTest_fold:
  "findTest tr s t = Some td \<Longrightarrow> findTest (fold cov_exec ops tr) s t = Some (progress s t ops td)"
proof (induction ops arbitrary: tr td)
  case (Cons x ops)
  show ?case using Cons.IH[OF findTest_step[OF Cons.prems, of x]] progress_Cons[of s t x ops td] by simp
qed (simp add: progress_def)

text \<open>The tracker counts what happens to a test after its registration. After any sequence of
  operations in which a test is registered (in a known suite, for the first time), its entry shows
  the totals it was registered with, whether a run and a skip followed, and how many steps, passed
  and failed assertions followed; operations on other tests, and later registrations, do not change
  it.\<close>

theorem tracker_counts:
  assumes "findTest (cov_execute pre) s t = None" "map_of (tr_suites (cov_execute pre)) s \<noteq> None"
  shows "findTest (cov_execute (pre @ CovTest s t k a # post)) s t =
    Some \<lparr>td_name = t, td_stepCount = k, td_assertionCount = a, td_ran = (CovRun s t \<in> set post),
          td_skipped = (CovSkip s t \<in> set post), td_executedSteps = int (count_list post (CovStep s t)),
          td_passedAsserts = int (count_list post (CovAssert s t True)),
          td_failedAsserts = int (count_list post (CovAssert s t False))\<rparr>"
proof -
  have "findTest (cov_exec (CovTest s t k a) (cov_execute pre)) s t = Some (new_test t k a)"
    using assms by (simp add: findTest_RegisterTest)
  from findTest_fold[OF this, of post] show ?thesis
    by (simp add: cov_execute_def progress_def new_test_def)
qed

theorem tracker_counts_witness:
  "findTest (cov_execute ([CovSuite ''s'' 1] @ CovTest ''s'' ''t'' 2 0 # [CovRun ''s'' ''t'', CovStep ''s'' ''t''])) ''s'' ''t'' =
    Some \<lparr>td_name = ''t'', td_stepCount = 2, td_assertionCount = 0, td_ran = True,
          td_skipped = False, td_executedSteps = 1, td_passedAsserts = 0, td_failedAsserts = 0\<rparr>"
  using tracker_counts[of "[CovSuite ''s'' 1]" "''s''" "''t''" 2 0 "[CovRun ''s'' ''t'', CovStep ''s'' ''t'']"]
  by (simp add: cov_execute_def RegisterSuite_def NewTracker_def findTest_def)

section \<open>The report is complete\<close>

definition suite_ok :: "string \<Rightarrow> suite_data \<Rightarrow> bool" where
  "suite_ok n s \<longleftrightarrow> sd_name s = n \<and> sd_order s = map fst (sd_tests s) \<and> distinct (sd_order s)
     \<and> (\<forall>(m, td) \<in> set (sd_tests s). td_name td = m)"

definition tracker_ok :: "tracker \<Rightarrow> bool" where
  "tracker_ok t \<longleftrightarrow> tr_order t = map fst (tr_suites t) \<and> distinct (tr_order t)
     \<and> (\<forall>(n, s) \<in> set (tr_suites t). suite_ok n s)"

lemma keys_update: "map fst (AList.update k v m) = (if map_of m k = None then map fst m @ [k] else map fst m)"
  by (induction m) (auto simp: map_of_eq_None_iff)

lemma in_update: "x \<in> set (AList.update k v m) \<Longrightarrow> x = (k, v) \<or> x \<in> set m"
  by (induction m) (auto split: if_splits)

lemma tracker_ok_put:
  assumes "tracker_ok t" "suite_ok n s" "map_of (tr_suites t) n \<noteq> None"
  shows "tracker_ok (t\<lparr>tr_suites := AList.update n s (tr_suites t)\<rparr>)"
  using assms by (auto simp: tracker_ok_def keys_update dest!: in_update)

lemma suite_ok_of: "tracker_ok t \<Longrightarrow> map_of (tr_suites t) n = Some s \<Longrightarrow> suite_ok n s"
  by (auto simp: tracker_ok_def dest: map_of_SomeD)

lemma tracker_ok_change:
  assumes "tracker_ok t" "\<And>td. td_name (f td) = td_name td"
  shows "tracker_ok (change_test f n m t)"
proof (cases "map_of (tr_suites t) n")
  case (Some s)
  show ?thesis
  proof (cases "map_of (sd_tests s) m")
    case (Some td)
    have "suite_ok n s" using suite_ok_of[OF assms(1) \<open>map_of (tr_suites t) n = Some s\<close>] .
    moreover have "td_name (f td) = m"
      using \<open>suite_ok n s\<close> Some assms(2) by (auto simp: suite_ok_def dest: map_of_SomeD)
    ultimately have "suite_ok n (s\<lparr>sd_tests := AList.update m (f td) (sd_tests s)\<rparr>)"
      using Some by (auto simp: suite_ok_def keys_update dest!: in_update)
    then show ?thesis
      using tracker_ok_put[OF assms(1)] Some \<open>map_of (tr_suites t) n = Some s\<close>
      by (simp add: change_test_def findTest_def)
  qed (use assms(1) Some in \<open>simp add: change_test_def findTest_def\<close>)
qed (use assms(1) in \<open>simp add: change_test_def findTest_def\<close>)

lemma tracker_ok_exec: "tracker_ok t \<Longrightarrow> tracker_ok (cov_exec x t)"
proof (cases x)
  case (CovSuite n c)
  assume "tracker_ok t"
  with CovSuite show ?thesis
    by (auto simp: RegisterSuite_def tracker_ok_def keys_update suite_ok_def map_of_eq_None_iff dest!: in_update)
next
  case (CovTest n m k a)
  assume ok: "tracker_ok t"
  show ?thesis
  proof (cases "map_of (tr_suites t) n")
    case (Some s)
    show ?thesis
    proof (cases "map_of (sd_tests s) m")
      case None
      have "suite_ok n (s\<lparr>sd_tests := AList.update m (new_test m k a) (sd_tests s), sd_order := sd_order s @ [m]\<rparr>)"
        using suite_ok_of[OF ok Some] None
        by (auto simp: suite_ok_def keys_update new_test_def map_of_eq_None_iff dest!: in_update)
      with tracker_ok_put[OF ok] Some None show ?thesis by (simp add: CovTest RegisterTest_def)
    qed (use ok Some in \<open>simp add: CovTest RegisterTest_def\<close>)
  qed (use ok in \<open>simp add: CovTest RegisterTest_def\<close>)
qed (simp_all add: RecordTestRun_def RecordTestSkip_def RecordStep_def RecordAssertion_def tracker_ok_change)

lemma tracker_ok_fold: "tracker_ok t \<Longrightarrow> tracker_ok (fold cov_exec ops t)"
  by (induction ops arbitrary: t) (simp_all add: tracker_ok_exec)

lemma tracker_ok_execute: "tracker_ok (cov_execute ops)"
  unfolding cov_execute_def by (rule tracker_ok_fold) (simp add: tracker_ok_def NewTracker_def)

lemma map_of_keys: "distinct (map fst m) \<Longrightarrow> map (\<lambda>n. f (the (map_of m n))) (map fst m) = map (\<lambda>(n, v). f v) m"
  by (auto simp: map_of_eq_Some_iff)

lemma Results_ok:
  assumes "tracker_ok t"
  shows "Results t = map (\<lambda>(n, s). suite_report s) (tr_suites t)"
    and "(n, s) \<in> set (tr_suites t) \<Longrightarrow> sc_Tests (suite_report s) = map (\<lambda>(m, td). test_report td) (sd_tests s)"
    and "(n, s) \<in> set (tr_suites t) \<Longrightarrow>
      sc_RanTests (suite_report s) = int (length (filter cv_Ran (sc_Tests (suite_report s))))"
proof -
  show "Results t = map (\<lambda>(n, s). suite_report s) (tr_suites t)"
  proof -
    have eq: "tr_order t = map fst (tr_suites t)" and "distinct (tr_order t)"
      using assms unfolding tracker_ok_def by blast+
    then have "distinct (map fst (tr_suites t))" by metis
    with eq show ?thesis unfolding Results_def using map_of_keys[of "tr_suites t" suite_report] by simp
  qed
  assume "(n, s) \<in> set (tr_suites t)"
  with assms have s: "suite_ok n s" by (auto simp: tracker_ok_def)
  show "sc_Tests (suite_report s) = map (\<lambda>(m, td). test_report td) (sd_tests s)"
  proof -
    have eq: "sd_order s = map fst (sd_tests s)" and "distinct (sd_order s)"
      using s unfolding suite_ok_def by blast+
    then have "distinct (map fst (sd_tests s))" by metis
    with eq show ?thesis using map_of_keys[of "sd_tests s" test_report] by (simp add: suite_report_def Let_def comp_def)
  qed
  show "sc_RanTests (suite_report s) = int (length (filter cv_Ran (sc_Tests (suite_report s))))"
    by (simp add: suite_report_def Let_def filter_map comp_def test_report_def)
qed

lemma suite_names_exec:
  "(map_of (tr_suites (cov_exec x t)) n \<noteq> None) = (map_of (tr_suites t) n \<noteq> None \<or> (\<exists>c. x = CovSuite n c))"
  by (cases x)
     (auto simp: RegisterSuite_def RegisterTest_def RecordTestRun_def RecordTestSkip_def RecordStep_def
        RecordAssertion_def change_test_def findTest_def Let_def update_conv' split: option.splits)

lemma suite_names_fold:
  "(map_of (tr_suites (fold cov_exec ops t)) n \<noteq> None) = (map_of (tr_suites t) n \<noteq> None \<or> (\<exists>c. CovSuite n c \<in> set ops))"
proof (induction ops arbitrary: t)
  case (Cons x ops)
  show ?case unfolding fold_Cons comp_apply Cons.IH suite_names_exec by auto
qed simp

text \<open>The report is complete and lists nothing twice. After any sequence of operations it has one
  entry for each registered suite, and in a suite's entry one entry for each registered test, which
  is that test's data; the counts of run and skipped tests are those of the listed tests.\<close>

theorem Results_complete:
  "distinct (map sc_Suite (Results (cov_execute ops)))
   \<and> set (map sc_Suite (Results (cov_execute ops))) = {n. \<exists>c. CovSuite n c \<in> set ops}
   \<and> (\<forall>sc \<in> set (Results (cov_execute ops)).
        distinct (map cv_Name (sc_Tests sc))
        \<and> (\<forall>m. (\<exists>tc \<in> set (sc_Tests sc). cv_Name tc = m) \<longleftrightarrow> findTest (cov_execute ops) (sc_Suite sc) m \<noteq> None)
        \<and> (\<forall>tc \<in> set (sc_Tests sc). \<exists>td. findTest (cov_execute ops) (sc_Suite sc) (cv_Name tc) = Some td \<and> tc = test_report td)
        \<and> sc_RanTests sc = int (length (filter cv_Ran (sc_Tests sc)))
        \<and> sc_SkippedTests sc = int (length (filter cv_Skipped (sc_Tests sc))))"
proof -
  let ?t = "cov_execute ops"
  have ok: "tracker_ok ?t" by (rule tracker_ok_execute)
  note R = Results_ok(1)[OF ok]
  have d: "distinct (map fst (tr_suites ?t))" and so: "\<And>n s. (n, s) \<in> set (tr_suites ?t) \<Longrightarrow> suite_ok n s"
    using ok by (auto simp: tracker_ok_def)
  have names: "map sc_Suite (Results ?t) = map fst (tr_suites ?t)"
    unfolding R using so by (auto simp: suite_report_def suite_ok_def Let_def)
  have "set (map fst (tr_suites ?t)) = {n. map_of (tr_suites ?t) n \<noteq> None}"
    by (auto simp: map_of_eq_None_iff simp del: not_None_eq)
  then have reg: "set (map fst (tr_suites ?t)) = {n. \<exists>c. CovSuite n c \<in> set ops}"
    unfolding cov_execute_def suite_names_fold by (simp add: NewTracker_def)
  have each: "distinct (map cv_Name (sc_Tests sc))
        \<and> (\<forall>m. (\<exists>tc \<in> set (sc_Tests sc). cv_Name tc = m) \<longleftrightarrow> findTest ?t (sc_Suite sc) m \<noteq> None)
        \<and> (\<forall>tc \<in> set (sc_Tests sc). \<exists>td. findTest ?t (sc_Suite sc) (cv_Name tc) = Some td \<and> tc = test_report td)
        \<and> sc_RanTests sc = int (length (filter cv_Ran (sc_Tests sc)))
        \<and> sc_SkippedTests sc = int (length (filter cv_Skipped (sc_Tests sc)))"
    if sc: "sc \<in> set (Results ?t)" for sc
  proof -
    from sc obtain n s where ns: "(n, s) \<in> set (tr_suites ?t)" "sc = suite_report s" unfolding R by auto
    note T = Results_ok(2)[OF ok ns(1)]
    have s: "suite_ok n s" using so ns by blast
    have m: "map_of (tr_suites ?t) n = Some s" using ns d by (simp add: map_of_eq_Some_iff)
    have n: "sc_Suite sc = n" using s ns by (simp add: suite_report_def suite_ok_def Let_def)
    have nm: "map cv_Name (sc_Tests sc) = map fst (sd_tests s)"
      using s unfolding ns(2) T by (auto simp: suite_ok_def test_report_def)
    have f: "findTest ?t (sc_Suite sc) k = map_of (sd_tests s) k" for k using m n by (simp add: findTest_def)
    have ds: "distinct (map fst (sd_tests s))" using s by (metis suite_ok_def)
    have a: "(\<exists>tc \<in> set (sc_Tests sc). cv_Name tc = k) \<longleftrightarrow> map_of (sd_tests s) k \<noteq> None" for k
    proof -
      have "k \<in> set (map cv_Name (sc_Tests sc)) \<longleftrightarrow> k \<in> set (map fst (sd_tests s))" by (simp only: nm)
      then show ?thesis unfolding map_of_eq_None_iff by force
    qed
    have b: "\<exists>td. map_of (sd_tests s) (cv_Name tc) = Some td \<and> tc = test_report td" if "tc \<in> set (sc_Tests sc)" for tc
      using that s ds unfolding ns(2) T by (fastforce simp: suite_ok_def test_report_def map_of_eq_Some_iff)
    have "sc_SkippedTests sc = int (length (filter cv_Skipped (sc_Tests sc)))"
      unfolding ns(2) by (simp add: suite_report_def Let_def filter_map comp_def test_report_def)
    with Results_ok(3)[OF ok ns(1)] nm ds a b f ns(2) show ?thesis by (simp del: not_None_eq)
  qed
  show ?thesis using names d reg each by (simp only: ball_simps) blast
qed

theorem Results_complete_witness:
  "distinct (map sc_Suite (Results (cov_execute [CovSuite ''s'' 1, CovTest ''s'' ''t'' 0 0])))"
  using Results_complete[of "[CovSuite ''s'' 1, CovTest ''s'' ''t'' 0 0]"] by blast

section \<open>The gate\<close>

lemma percent_of_full: "1 \<le> n \<Longrightarrow> n \<le> 2 ^ 53 \<Longrightarrow> percent_of n n = Fin 100"
  using round_f64_int[of 1] round_f64_int[of 100] f64_of_int_exact[of n] f64_of_int_exact[of 100]
  by (simp add: percent_of_def f64_div_def f64_mul_def)

text \<open>The gate. When every declared test ran (and there are between 1 and \<open>2^53\<close> of them), the total
  is exactly 100 and every threshold up to 100 is met; when no test is declared the total is 0, so
  every positive threshold fails, even of an empty run.\<close>

theorem gate_full:
  assumes "map sc_RanTests (Results t) = map sc_TotalTests (Results t)"
  defines "n \<equiv> sum_list (map sc_TotalTests (Results t))"
  shows "(1 \<le> n \<and> n \<le> 2 ^ 53 \<and> f64_le q (Fin 100) \<longrightarrow> TotalPercent t = Fin 100 \<and> gate_Check q t = None)
    \<and> (n = 0 \<and> f64_lt (Fin 0) q \<longrightarrow> gate_Check q t = Some (Fin 0))"
proof -
  have "TotalPercent t = (if n = 0 then Fin 0 else percent_of n n)"
    by (simp add: TotalPercent_def Let_def assms)
  moreover have "f64_le q (Fin 100) \<Longrightarrow> \<not> f64_lt (Fin 100) q" using f64_lt_asym by blast
  ultimately show ?thesis by (auto simp: gate_Check_def percent_of_full)
qed

theorem gate_full_witness:
  "gate_Check (Fin 98) (cov_execute [CovSuite ''s'' 1, CovTest ''s'' ''t'' 0 0, CovRun ''s'' ''t'']) = None"
proof -
  let ?t = "cov_execute [CovSuite ''s'' 1, CovTest ''s'' ''t'' 0 0, CovRun ''s'' ''t'']"
  have "map sc_RanTests (Results ?t) = map sc_TotalTests (Results ?t)" "sum_list (map sc_TotalTests (Results ?t)) = 1"
    by (simp_all add: cov_execute_def NewTracker_def RegisterSuite_def RegisterTest_def RecordTestRun_def change_test_def
        findTest_def new_test_def Results_def suite_report_def Let_def)
  with gate_full[of ?t "Fin 98"] show ?thesis by (simp add: f64_le_def f64_lt_def)
qed

end
