(* ===== verification/Schema_Types.thy ===== *)
theory Schema_Types
  imports Go_Value
begin

text \<open>
  core/schema/test.go and config.go: the test-suite and configuration data the other components work
  on. A pointer to a struct is an option, a nil slice or map the empty list, an \<open>ExecutionMode\<close>
  the string it is.
\<close>

record fleet_provider =
  fp_Provider :: string
  fp_Weight :: int
  fp_TTL :: int
  fp_Config :: "(string \<times> gov) list"

record fleet_config =
  fc_Providers :: "fleet_provider list"

definition ModeSequential :: string where "ModeSequential = ''sequential''"
definition ModeRandom :: string where "ModeRandom = ''random''"
definition ModeConcurrent :: string where "ModeConcurrent = ''concurrent''"
definition ModeWeighted :: string where "ModeWeighted = ''weighted''"

definition validExecutionModes :: "string list" where
  "validExecutionModes = [ModeSequential, ModeRandom, ModeConcurrent, ModeWeighted]"

record execution =
  ex_Mode :: string
  ex_Concurrency :: int
  ex_Duration :: string
  ex_Repeat :: int
  ex_Interval :: string
  ex_Fleet :: "fleet_config option"

record test_step =
  ts_Connector :: string
  ts_Action :: string
  ts_Parameters :: "(string \<times> gov) list"
  ts_Assert :: "(string \<times> gov) list list"
  ts_Capture :: "(string \<times> string) list"
  ts_Timeout :: string

record test_case =
  tc_Name :: string
  tc_Connector :: string
  tc_Tags :: "string list"
  tc_Skip :: bool
  tc_Weight :: int
  tc_Steps :: "test_step list"

record interaction =
  in_Name :: string
  in_Weight :: int
  in_Mode :: string
  in_Tests :: "test_case list"

record test_suite =
  su_Suite :: string
  su_Tags :: "string list"
  su_Setup :: "test_step list"
  su_Teardown :: "test_step list"
  su_Fixtures :: "(string \<times> gov) list"
  su_Tests :: "test_case list"
  su_Execution :: "execution option"
  su_Interactions :: "interaction list"

definition knownStepFields :: "string list" where
  "knownStepFields = [''connector'', ''action'', ''assert'', ''capture'', ''timeout'']"

record reporter_config =
  rc_Type :: string
  rc_Output :: string

record coverage_config =
  cc_Threshold :: f64

record browsers_config =
  br_Chromium :: bool
  br_Firefox :: bool
  br_WebKit :: bool

record telemetry_config =
  te_Enabled :: bool
  te_Output :: string

record config =
  cf_Version :: string
  cf_Tests :: "string list"
  cf_Parallelism :: int
  cf_Timeout :: string
  cf_Reporters :: "reporter_config list"
  cf_Coverage :: coverage_config
  cf_Browsers :: browsers_config
  cf_Connectors :: "(string \<times> (string \<times> gov) list) list"
  cf_Telemetry :: telemetry_config

definition validReporterTypes :: "string list" where
  "validReporterTypes = [''ansi'', ''json'']"

end
