(* ===== verification/Runner.thy ===== *)
theory Runner
  imports Assertions Coverage Registries Schema_Types
begin

text \<open>
  core/engine/runner.go: running one test. Connectors, the context and the functions of expressions act
  on a world of any type. The state of a run is that world, the test's fixture store, the coverage
  tracker and a log of everything the runner tells its telemetry writer, its reporter and the
  connectors, in order. The log is the model's; the code keeps no such list. Elapsed times and
  timestamps are left out. A function returns \<^const>\<open>Inl\<close> when the code panics, which happens in
  an assertion, in an expression function or in a connector's method; the deferred \<open>Teardown\<close> still runs.
  The functions are the calls of one goroutine.
\<close>

section \<open>What the runner talks to\<close>

record conn_step =
  cs_Action :: string
  cs_Parameters :: "(string \<times> gov) list"
  cs_Timeout :: int

datatype conn_call = SetupCall "(string \<times> gov) list" | ExecuteCall conn_step | TeardownCall

text \<open>\<open>cn_panic\<close> says with what a call panics, if it does; the world after the call is that of the method
  all the same. \<open>rn_err_text\<close> is what \<open>Error()\<close> says of the error inside a step's error.\<close>

record 'w connector =
  cn_Setup :: "(string \<times> gov) list \<Rightarrow> 'w \<Rightarrow> string option \<times> 'w"
  cn_Execute :: "conn_step \<Rightarrow> 'w \<Rightarrow> (string + (string \<times> gov) list option) \<times> 'w"
  cn_Teardown :: "'w \<Rightarrow> string option \<times> 'w"
  cn_panic :: "conn_call \<Rightarrow> 'w \<Rightarrow> string option"

datatype tel_event =
    SuiteStart | SuiteEnd | TestStart | TestPass | TestFail | TestSkip | StepStart | StepEnd | Assertion
  | Error | ConnectorSetup | ConnectorTeardown | InteractionStart | InteractionEnd

datatype assert_failure =
    MissingOperator
  | BuildFailed string build_error
  | FieldNotFound string extract_error
  | AssertionFailed assertion_error

datatype step_error =
    ContextError string
  | NoConnector string
  | ConnectorError string
  | SetupError string
  | InterpolationError interp_error
  | ExecuteError string
  | CaptureError string string extract_error
  | AssertError assert_failure
  | FleetSetupError

record step_result =
  sr_Name :: string
  sr_Passed :: bool
  sr_Error :: "step_error option"

record test_result =
  rt_Passed :: bool
  rt_Steps :: "step_result list"

record test_info =
  ti_Name :: string
  ti_Suite :: string
  ti_Tags :: "string list"

datatype happening =
    Telemetry tel_event "(string \<times> string) list"
  | OnSuiteStart string int
  | OnTestStart test_info
  | OnStepResult test_info step_result
  | OnTestEnd test_info test_result
  | OnSuiteEnd string int int int
  | Setup string bool
  | Execute string string
  | Teardown string

record 'w runner =
  rn_registry :: "(unit \<Rightarrow> 'w connector) reg"
  rn_telemetry :: bool
  rn_classes :: unicode_classes
  rn_env :: "string \<Rightarrow> string option"
  rn_compile :: "string \<Rightarrow> (string \<Rightarrow> bool) option"
  rn_ctx_err :: "'w \<Rightarrow> string option"
  rn_err_text :: "step_error \<Rightarrow> string"

record 'w run_state =
  rs_world :: 'w
  rs_store :: "'w store"
  rs_coverage :: "tracker option"
  rs_log :: "happening list"

record test_context =
  cx_Suite :: string
  cx_Test :: string

definition logged :: "happening \<Rightarrow> 'w run_state \<Rightarrow> 'w run_state" where
  "logged h s = s\<lparr>rs_log := rs_log s @ [h]\<rparr>"

definition on_coverage :: "(tracker \<Rightarrow> tracker) \<Rightarrow> 'w run_state \<Rightarrow> 'w run_state" where
  "on_coverage f s = s\<lparr>rs_coverage := map_option f (rs_coverage s)\<rparr>"

definition emitTelemetry :: "'w runner \<Rightarrow> tel_event \<Rightarrow> test_context \<Rightarrow> (string \<times> string) list \<Rightarrow> 'w run_state \<Rightarrow> 'w run_state" where
  "emitTelemetry rr event cx extra s =
     (if rn_telemetry rr
      then logged (Telemetry event (fold (\<lambda>(k, v). AList.update k v) extra
             [(''suite'', cx_Suite cx), (''test'', cx_Test cx)])) s
      else s)"

definition stepName :: "test_step \<Rightarrow> nat \<Rightarrow> string" where
  "stepName step index =
     (if ts_Action step \<noteq> [] then ''step['' @ utoa index @ '']:'' @ ts_Action step
      else ''step['' @ utoa index @ '']'')"

section \<open>Assertions of a step\<close>

definition text_at :: "(string \<times> gov) list \<Rightarrow> string \<Rightarrow> string" where
  "text_at m k = (case map_of m k of Some (GStr t) \<Rightarrow> t | _ \<Rightarrow> [])"

text \<open>The options come from a test file, so none of them is an \<open>Assertion\<close> value. The verdict's
  failure is the error of \<open>a.Evaluate\<close>.\<close>

definition evaluateAssertion ::
  "'w runner \<Rightarrow> (string \<times> gov) list option \<Rightarrow> (string \<times> gov) list \<Rightarrow> string + assert_failure option" where
  "evaluateAssertion rr data assertMap =
     (let field = text_at assertMap ''field'';
          operator = text_at assertMap ''operator'';
          expected = (case map_of assertMap ''expected'' of Some v \<Rightarrow> v | None \<Rightarrow> GNil);
          options = filter (\<lambda>(k, v). k \<notin> {''field'', ''operator'', ''expected''}) assertMap
      in if operator = [] then Inr (Some MissingOperator)
         else (case Build (rn_compile rr) operator expected options None of
             Inl err \<Rightarrow> Inr (Some (BuildFailed operator err))
           | Inr a \<Rightarrow>
               (case (if field \<noteq> [] then Extract data field
                      else Inr (GMap (case data of Some m \<Rightarrow> m | None \<Rightarrow> []))) of
                  Inl err \<Rightarrow> Inr (Some (FieldNotFound field err))
                | Inr actual \<Rightarrow>
                    (case Evaluate (rn_classes rr) a actual of
                       Passed \<Rightarrow> Inr None
                     | Failed e \<Rightarrow> Inr (Some (AssertionFailed e))
                     | Panicked \<Rightarrow> Inl ''comparing uncomparable type''))))"

section \<open>A step\<close>

type_synonym ('w, 'a) run = "'w run_state \<Rightarrow> (string + 'a) \<times> 'w run_state"

definition passed_step :: "string \<Rightarrow> step_result" where
  "passed_step name = \<lparr>sr_Name = name, sr_Passed = True, sr_Error = None\<rparr>"

definition failed_step :: "string \<Rightarrow> step_error \<Rightarrow> step_result" where
  "failed_step name err = \<lparr>sr_Name = name, sr_Passed = False, sr_Error = Some err\<rparr>"

text \<open>An expression function that panics takes the whole evaluation with it.\<close>

fun panic_of :: "interp_error \<Rightarrow> string option" where
  "panic_of (ExpressionError _ (FunctionError (FPanic msg))) = Some msg"
| "panic_of _ = None"

text \<open>The loops over the captures and the assertions of a step: \<^const>\<open>None\<close> when they complete. The
  captures come in the order of Go's iteration over the map.\<close>

fun capture_loop ::
  "'w runner \<Rightarrow> test_context \<Rightarrow> string \<Rightarrow> (string \<times> gov) list option \<Rightarrow> (string \<times> string) list
    \<Rightarrow> 'w run_state \<Rightarrow> step_error option \<times> 'w run_state" where
  "capture_loop rr cx name data [] s = (None, s)"
| "capture_loop rr cx name data ((var, path) # captures) s =
     (case Extract data path of
        Inl err \<Rightarrow> (Some (CaptureError var path err), emitTelemetry rr Error cx [(''step'', name), (''error'', rn_err_text rr (CaptureError var path err))] s)
      | Inr v \<Rightarrow> capture_loop rr cx name data captures (s\<lparr>rs_store := SetCapture var v (rs_store s)\<rparr>))"

fun assert_loop ::
  "'w runner \<Rightarrow> test_context \<Rightarrow> string \<Rightarrow> (string \<times> gov) list option \<Rightarrow> (string \<times> gov) list list
    \<Rightarrow> ('w, step_error option) run" where
  "assert_loop rr cx name data [] s = (Inr None, s)"
| "assert_loop rr cx name data (am # asserts) s =
     (case evaluateAssertion rr data am of
        Inl msg \<Rightarrow> (Inl msg, s)
      | Inr (Some err) \<Rightarrow>
          (Inr (Some (AssertError err)),
           on_coverage (RecordAssertion (cx_Suite cx) (cx_Test cx) False)
             (emitTelemetry rr Assertion cx [(''step'', name), (''passed'', ''false'')] s))
      | Inr None \<Rightarrow>
          assert_loop rr cx name data asserts
            (on_coverage (RecordAssertion (cx_Suite cx) (cx_Test cx) True)
              (emitTelemetry rr Assertion cx [(''step'', name), (''passed'', ''true'')] s)))"

definition step_timeout :: "string \<Rightarrow> int" where
  "step_timeout t = (case parse_duration t of Some d \<Rightarrow> d | None \<Rightarrow> 0)"

text \<open>The part of \<open>runStep\<close> between the connector's \<open>Setup\<close> and the deferred \<open>Teardown\<close>.\<close>

definition step_body ::
  "'w runner \<Rightarrow> test_context \<Rightarrow> test_step \<Rightarrow> string \<Rightarrow> 'w connector \<Rightarrow> ('w, step_result) run" where
  "step_body rr cx step name conn s0 =
     (case InterpolateMap \<lparr>ip_classes = rn_classes rr, ip_env = rn_env rr, ip_store = rs_store s0\<rparr>
          (ts_Parameters step) (rs_world s0) of
        (Inl err, w) \<Rightarrow>
          (case panic_of err of
             Some msg \<Rightarrow> (Inl msg, s0\<lparr>rs_world := w\<rparr>)
           | None \<Rightarrow>
               (Inr (failed_step name (InterpolationError err)),
                emitTelemetry rr Error cx [(''step'', name), (''error'', rn_err_text rr (InterpolationError err))] (s0\<lparr>rs_world := w\<rparr>)))
      | (Inr params, w) \<Rightarrow>
          (let cStep = \<lparr>cs_Action = ts_Action step, cs_Parameters = params, cs_Timeout = step_timeout (ts_Timeout step)\<rparr> in
           case cn_Execute conn cStep w of
             (r, w') \<Rightarrow>
               (let s1 = logged (Execute (ts_Connector step) (ts_Action step)) (s0\<lparr>rs_world := w'\<rparr>) in
                if cn_panic conn (ExecuteCall cStep) w \<noteq> None then (Inl (the (cn_panic conn (ExecuteCall cStep) w)), s1)
                else case r of
                  Inl err \<Rightarrow>
                    (Inr (failed_step name (ExecuteError err)),
                     emitTelemetry rr Error cx [(''step'', name), (''error'', err)] s1)
                | Inr data \<Rightarrow>
                    (let s2 = on_coverage (RecordStep (cx_Suite cx) (cx_Test cx)) s1 in
                     case capture_loop rr cx name data (ts_Capture step) s2 of
                       (Some err, s3) \<Rightarrow> (Inr (failed_step name err), s3)
                     | (None, s3) \<Rightarrow>
                         (case assert_loop rr cx name data (ts_Assert step) s3 of
                            (Inl msg, s4) \<Rightarrow> (Inl msg, s4)
                          | (Inr (Some err), s4) \<Rightarrow> (Inr (failed_step name err), s4)
                          | (Inr None, s4) \<Rightarrow>
                              (Inr (passed_step name), emitTelemetry rr StepEnd cx [(''step'', name)] s4))))))"

definition runStep ::
  "'w runner \<Rightarrow> test_context \<Rightarrow> test_step \<Rightarrow> nat \<Rightarrow> (string \<times> gov) list \<Rightarrow> ('w, step_result) run" where
  "runStep rr cx step index config s0 =
     (let name = stepName step index;
          s1 = emitTelemetry rr StepStart cx [(''step'', name)] s0;
          connName = ts_Connector step
      in if connName = [] then (Inr (failed_step name (NoConnector name)), s1)
         else (case connector_Get (rn_registry rr) connName of
             None \<Rightarrow> (Inr (failed_step name (ConnectorError connName)),
                      emitTelemetry rr Error cx [(''step'', name), (''error'', rn_err_text rr (ConnectorError connName))] s1)
           | Some conn \<Rightarrow>
               (let s2 = emitTelemetry rr ConnectorSetup cx [(''connector'', connName)] s1 in
                case cn_Setup conn config (rs_world s2) of
                  (e, w) \<Rightarrow>
                    if cn_panic conn (SetupCall config) (rs_world s2) \<noteq> None
                    then (Inl (the (cn_panic conn (SetupCall config) (rs_world s2))),
                          logged (Setup connName False) (s2\<lparr>rs_world := w\<rparr>))
                    else (case e of
                        Some err \<Rightarrow>
                          (Inr (failed_step name (SetupError err)),
                           emitTelemetry rr Error cx [(''step'', name), (''error'', err)]
                             (logged (Setup connName False) (s2\<lparr>rs_world := w\<rparr>)))
                      | None \<Rightarrow>
                          (case step_body rr cx step name conn (logged (Setup connName True) (s2\<lparr>rs_world := w\<rparr>)) of
                             (r, s3) \<Rightarrow>
                               (let s4 = emitTelemetry rr ConnectorTeardown cx [(''connector'', connName)] s3 in
                                (if cn_panic conn TeardownCall (rs_world s4) \<noteq> None
                                 then Inl (the (cn_panic conn TeardownCall (rs_world s4))) else r,
                                 logged (Teardown connName) (s4\<lparr>rs_world := snd (cn_Teardown conn (rs_world s4))\<rparr>))))))))"

section \<open>A test\<close>

text \<open>The loop over the steps from index \<open>i\<close> on; the results are those of these steps.\<close>

fun step_loop ::
  "'w runner \<Rightarrow> test_context \<Rightarrow> test_case \<Rightarrow> (string \<times> gov) list \<Rightarrow> nat \<Rightarrow> test_step list
    \<Rightarrow> ('w, step_result list) run" where
  "step_loop rr cx test config i [] s = (Inr [], s)"
| "step_loop rr cx test config i (step0 # steps) s =
     (case rn_ctx_err rr (rs_world s) of
        Some err \<Rightarrow> (Inr [failed_step (stepName step0 i) (ContextError err)], s)
      | None \<Rightarrow>
          (let step = (if ts_Connector step0 = [] then step0\<lparr>ts_Connector := tc_Connector test\<rparr> else step0) in
           case runStep rr cx step i config s of
             (Inl msg, s1) \<Rightarrow> (Inl msg, s1)
           | (Inr sr, s1) \<Rightarrow>
               (let s2 = logged (OnStepResult \<lparr>ti_Name = cx_Test cx, ti_Suite = cx_Suite cx, ti_Tags = []\<rparr> sr) s1 in
                if \<not> sr_Passed sr then (Inr [sr], s2)
                else (case step_loop rr cx test config (i + 1) steps s2 of
                    (Inl msg, s3) \<Rightarrow> (Inl msg, s3)
                  | (Inr srs, s3) \<Rightarrow> (Inr (sr # srs), s3)))))"

definition RunTest :: "'w runner \<Rightarrow> test_context \<Rightarrow> test_case \<Rightarrow> (string \<times> gov) list \<Rightarrow> ('w, test_result) run" where
  "RunTest rr cx test config s0 =
     (case step_loop rr cx test config 0 (tc_Steps test) (emitTelemetry rr TestStart cx [] s0) of
        (Inl msg, s1) \<Rightarrow> (Inl msg, s1)
      | (Inr srs, s1) \<Rightarrow>
          (let passed = list_all sr_Passed srs;
               s2 = emitTelemetry rr (if passed then TestPass else TestFail) cx [] s1
           in (Inr \<lparr>rt_Passed = passed, rt_Steps = srs\<rparr>,
               on_coverage (RecordTestRun (cx_Suite cx) (cx_Test cx)) s2)))"

section \<open>Connector calls\<close>

fun is_call :: "happening \<Rightarrow> bool" where
  "is_call (Setup c ok) = True"
| "is_call (Execute c a) = True"
| "is_call (Teardown c) = True"
| "is_call _ = False"

definition calls :: "'w run_state \<Rightarrow> happening list" where
  "calls s = filter is_call (rs_log s)"

text \<open>The lifecycle a connector is promised: what was set up is torn down, after at most one execution;
  what failed to set up is left alone.\<close>

inductive lifecycle :: "happening list \<Rightarrow> bool" where
  lc_nil: "lifecycle []"
| lc_failed: "lifecycle hs \<Longrightarrow> lifecycle (Setup c False # hs)"
| lc_idle: "lifecycle hs \<Longrightarrow> lifecycle (Setup c True # Teardown c # hs)"
| lc_used: "lifecycle hs \<Longrightarrow> lifecycle (Setup c True # Execute c a # Teardown c # hs)"

declare lifecycle.intros [intro]

lemma lifecycle_append: "lifecycle a \<Longrightarrow> lifecycle b \<Longrightarrow> lifecycle (a @ b)"
  by (induction rule: lifecycle.induct) auto

lemma calls_simps [simp]:
  "calls (emitTelemetry rr e cx x s) = calls s"
  "calls (on_coverage f s) = calls s"
  "calls (s\<lparr>rs_world := w\<rparr>) = calls s"
  "calls (s\<lparr>rs_store := st\<rparr>) = calls s"
  "calls (logged (Setup c ok) s) = calls s @ [Setup c ok]"
  "calls (logged (Execute c a) s) = calls s @ [Execute c a]"
  "calls (logged (Teardown c) s) = calls s @ [Teardown c]"
  "calls (logged (OnStepResult ti sr) s) = calls s"
  by (simp_all add: calls_def emitTelemetry_def on_coverage_def logged_def)

lemma calls_capture_loop [simp]: "calls (snd (capture_loop rr cx name data cs s)) = calls s"
  by (induction rr cx name data cs s rule: capture_loop.induct) (simp_all split: sum.split)

lemma calls_assert_loop [simp]: "calls (snd (assert_loop rr cx name data as s)) = calls s"
  by (induction rr cx name data as s rule: assert_loop.induct) (simp_all split: sum.split option.split)

lemma calls_step_body:
  "calls (snd (step_body rr cx step name conn s)) \<in> {calls s, calls s @ [Execute (ts_Connector step) (ts_Action step)]}"
proof (cases "InterpolateMap \<lparr>ip_classes = rn_classes rr, ip_env = rn_env rr, ip_store = rs_store s\<rparr>
    (ts_Parameters step) (rs_world s)")
  case (Pair r w)
  show ?thesis
  proof (cases r)
    case (Inl err)
    with Pair show ?thesis by (simp add: step_body_def split: option.split)
  next
    case (Inr params)
    obtain x w' where x: "cn_Execute conn \<lparr>cs_Action = ts_Action step, cs_Parameters = params,
        cs_Timeout = step_timeout (ts_Timeout step)\<rparr> w = (x, w')" by fastforce
    show ?thesis
    proof (cases x)
      case (Inr data)
      define s2 where "s2 = on_coverage (RecordStep (cx_Suite cx) (cx_Test cx))
        (logged (Execute (ts_Connector step) (ts_Action step)) (s\<lparr>rs_world := w'\<rparr>))"
      have c2: "calls s2 = calls s @ [Execute (ts_Connector step) (ts_Action step)]" by (simp add: s2_def)
      obtain e s3 where c: "capture_loop rr cx name data (ts_Capture step) s2 = (e, s3)" by fastforce
      obtain f s4 where a: "assert_loop rr cx name data (ts_Assert step) s3 = (f, s4)" by fastforce
      have "calls s3 = calls s2" "calls s4 = calls s3"
        using calls_capture_loop[of rr cx name data "ts_Capture step" s2]
          calls_assert_loop[of rr cx name data "ts_Assert step" s3] c a by simp_all
      with Pair \<open>r = Inr params\<close> x Inr c a c2 show ?thesis
        by (simp add: step_body_def Let_def s2_def[symmetric] split: option.split sum.split)
    qed (use Pair Inr x in \<open>simp add: step_body_def Let_def\<close>)
  qed
qed

lemma calls_runStep: "\<exists>u. calls (snd (runStep rr cx step i config s)) = calls s @ u \<and> lifecycle u"
proof (cases "ts_Connector step = []")
  case True
  then show ?thesis by (auto simp: runStep_def Let_def)
next
  case False
  show ?thesis
  proof (cases "connector_Get (rn_registry rr) (ts_Connector step)")
    case None
    with False show ?thesis by (auto simp: runStep_def Let_def)
  next
    case (Some conn)
    let ?c = "ts_Connector step" and ?n = "stepName step i"
    define s2 where "s2 = emitTelemetry rr ConnectorSetup cx [(''connector'', ?c)]
      (emitTelemetry rr StepStart cx [(''step'', ?n)] s)"
    obtain e w where set: "cn_Setup conn config (rs_world s2) = (e, w)" by fastforce
    show ?thesis
    proof (cases "e = None \<and> cn_panic conn (SetupCall config) (rs_world s2) = None")
      case True
      obtain r s3 where b: "step_body rr cx step ?n conn (logged (Setup ?c True) (s2\<lparr>rs_world := w\<rparr>)) = (r, s3)"
        by fastforce
      have "calls s3 = calls s @ [Setup ?c True] \<or> calls s3 = calls s @ [Setup ?c True, Execute ?c (ts_Action step)]"
        using calls_step_body[of rr cx step ?n conn "logged (Setup ?c True) (s2\<lparr>rs_world := w\<rparr>)"] b
        by (simp add: s2_def)
      then have "calls (snd (runStep rr cx step i config s)) = calls s @ [Setup ?c True, Teardown ?c]
          \<or> calls (snd (runStep rr cx step i config s)) = calls s @ [Setup ?c True, Execute ?c (ts_Action step), Teardown ?c]"
        using False Some set True b by (auto simp: runStep_def Let_def s2_def[symmetric])
      then show ?thesis by blast
    next
      assume "\<not> (e = None \<and> cn_panic conn (SetupCall config) (rs_world s2) = None)"
      then have "calls (snd (runStep rr cx step i config s)) = calls s @ [Setup ?c False]"
        using False Some set
        by (cases e; cases "cn_panic conn (SetupCall config) (rs_world s2)")
          (simp_all add: runStep_def Let_def s2_def[symmetric], simp_all add: s2_def)
      then show ?thesis by blast
    qed
  qed
qed

lemma calls_step_loop: "\<exists>u. calls (snd (step_loop rr cx test config i steps s)) = calls s @ u \<and> lifecycle u"
proof (induction steps arbitrary: i s)
  case (Cons step0 steps)
  show ?case
  proof (cases "rn_ctx_err rr (rs_world s)")
    case None
    define step where "step = (if ts_Connector step0 = [] then step0\<lparr>ts_Connector := tc_Connector test\<rparr> else step0)"
    obtain r s1 where r: "runStep rr cx step i config s = (r, s1)" by fastforce
    obtain u where u: "calls s1 = calls s @ u" "lifecycle u"
      using calls_runStep[of rr cx step i config s] r by auto
    show ?thesis
    proof (cases r)
      case (Inl msg)
      with None r u show ?thesis by (auto simp: Let_def step_def[symmetric])
    next
      case (Inr sr)
      let ?s2 = "logged (OnStepResult \<lparr>ti_Name = cx_Test cx, ti_Suite = cx_Suite cx, ti_Tags = []\<rparr> sr) s1"
      obtain v where v: "calls (snd (step_loop rr cx test config (i + 1) steps ?s2)) = calls s1 @ v" "lifecycle v"
        using Cons.IH[of "i + 1" ?s2] by auto
      obtain r' s3 where "step_loop rr cx test config (i + 1) steps ?s2 = (r', s3)" by fastforce
      with None r u v Inr lifecycle_append[of u v] show ?thesis
        by (cases r') (auto simp: Let_def step_def[symmetric])
    qed
  qed auto
qed auto

text \<open>However a test ends (passed, failed at any stage, cancelled, or with a panic), its calls to connectors
  are completed lifecycles.\<close>

lemma calls_RunTest:
  "\<exists>u. calls (snd (RunTest rr cx test config s)) = calls s @ u \<and> lifecycle u"
proof -
  obtain u where u: "calls (snd (step_loop rr cx test config 0 (tc_Steps test) (emitTelemetry rr TestStart cx [] s))) = calls s @ u"
      "lifecycle u"
    using calls_step_loop[of rr cx test config 0 "tc_Steps test" "emitTelemetry rr TestStart cx [] s"] by auto
  obtain r s1 where "step_loop rr cx test config 0 (tc_Steps test) (emitTelemetry rr TestStart cx [] s) = (r, s1)" by fastforce
  with u show ?thesis by (cases r) (auto simp: RunTest_def Let_def)
qed

section \<open>The result of a test\<close>

lemma sr_passed_simps [simp]:
  "sr_Passed (passed_step n)" "\<not> sr_Passed (failed_step n e)"
  "sr_Name (passed_step n) = n" "sr_Name (failed_step n e) = n"
  by (simp_all add: passed_step_def failed_step_def)

lemma stepName_connector [simp]: "stepName (s\<lparr>ts_Connector := c\<rparr>) i = stepName s i"
  by (simp add: stepName_def)

lemma runStep_name: "runStep rr cx step i config s = (Inr sr, s') \<Longrightarrow> sr_Name sr = stepName step i"
  by (auto simp: runStep_def step_body_def Let_def split: if_splits option.splits prod.splits sum.splits)

lemma step_loop_results:
  "step_loop rr cx test config i steps s = (Inr srs, s') \<Longrightarrow>
     length srs \<le> length steps
     \<and> map sr_Name srs = map (\<lambda>(j, st). stepName st j) (zip [i..<i + length srs] steps)
     \<and> (length srs < length steps \<longrightarrow> srs \<noteq> [] \<and> \<not> sr_Passed (last srs))
     \<and> list_all sr_Passed (butlast srs)"
proof (induction steps arbitrary: i s srs s')
  case (Cons step0 steps)
  show ?case
  proof (cases "rn_ctx_err rr (rs_world s)")
    case None
    define step where "step = (if ts_Connector step0 = [] then step0\<lparr>ts_Connector := tc_Connector test\<rparr> else step0)"
    have nm: "stepName step i = stepName step0 i" by (simp add: step_def)
    obtain r s1 where r: "runStep rr cx step i config s = (r, s1)" by fastforce
    show ?thesis
    proof (cases r)
      case (Inl msg)
      with None r Cons.prems show ?thesis by (simp add: Let_def step_def[symmetric])
    next
      case (Inr sr)
      let ?s2 = "logged (OnStepResult \<lparr>ti_Name = cx_Test cx, ti_Suite = cx_Suite cx, ti_Tags = []\<rparr> sr) s1"
      have n: "sr_Name sr = stepName step0 i" using runStep_name r Inr nm by metis
      show ?thesis
      proof (cases "sr_Passed sr")
        case False
        with None r Inr n Cons.prems show ?thesis by (auto simp: Let_def step_def[symmetric])
      next
        case True
        obtain r' s3 where l: "step_loop rr cx test config (i + 1) steps ?s2 = (r', s3)" by fastforce
        show ?thesis
        proof (cases r')
          case (Inr srs')
          with None r \<open>r = Inr sr\<close> True l Cons.prems have e: "srs = sr # srs'"
            by (simp add: Let_def step_def[symmetric])
          have "i + length srs = Suc i + length srs'" "i < i + length srs" by (simp_all add: e)
          then have z: "zip [i..<i + length srs] (step0 # steps) = (i, step0) # zip [Suc i..<Suc i + length srs'] steps"
            by (simp only: upt_conv_Cons zip_Cons_Cons)
          show ?thesis using Cons.IH[OF l[unfolded Inr]] n True z by (auto simp: e)
        qed (use None r \<open>r = Inr sr\<close> True l Cons.prems in \<open>simp add: Let_def step_def[symmetric]\<close>)
      qed
    qed
  qed (use Cons.prems in auto)
qed simp

text \<open>C11: a test fails fast. Unless the code panics, a test's result lists the steps from the first on, in
  order and under their names, up to the first one that fails; every step but the last listed passed;
  and the test passes just when all its steps are listed and passed.\<close>

theorem RunTest_fail_fast:
  assumes "RunTest rr cx test config s = (Inr res, s')"
  shows "length (rt_Steps res) \<le> length (tc_Steps test)
    \<and> map sr_Name (rt_Steps res) = map (\<lambda>(j, st). stepName st j) (zip [0..<length (rt_Steps res)] (tc_Steps test))
    \<and> list_all sr_Passed (butlast (rt_Steps res))
    \<and> (rt_Passed res \<longleftrightarrow> length (rt_Steps res) = length (tc_Steps test) \<and> list_all sr_Passed (rt_Steps res))"
proof -
  obtain srs s1 where l: "step_loop rr cx test config 0 (tc_Steps test) (emitTelemetry rr TestStart cx [] s) = (Inr srs, s1)"
    and r: "res = \<lparr>rt_Passed = list_all sr_Passed srs, rt_Steps = srs\<rparr>"
    using assms by (auto simp: RunTest_def Let_def split: prod.splits sum.splits)
  note R = step_loop_results[OF l]
  have "list_all sr_Passed srs \<Longrightarrow> length srs = length (tc_Steps test)"
    using R by (metis last_in_set le_neq_implies_less list_all_iff)
  with R r show ?thesis by auto
qed

text \<open>A runner whose only connector returns a status, and a test that asserts on it.\<close>

definition demo_runner :: "unit runner" where
  "demo_runner = \<lparr>rn_registry = [(''demo'', \<lambda>_. \<lparr>cn_Setup = (\<lambda>c w. (None, w)),
       cn_Execute = (\<lambda>s w. (Inr (Some [(''status'', GInt 200)]), w)), cn_Teardown = (\<lambda>w. (None, w)),
       cn_panic = (\<lambda>call w. None)\<rparr>)],
     rn_telemetry = True, rn_classes = ascii_classes, rn_env = (\<lambda>_. None), rn_compile = (\<lambda>_. None), rn_ctx_err = (\<lambda>_. None),
     rn_err_text = (\<lambda>_. ''error'')\<rparr>"

definition demo_step :: test_step where
  "demo_step = \<lparr>ts_Connector = ''demo'', ts_Action = ''get'', ts_Parameters = [],
     ts_Assert = [[(''field'', GStr ''status''), (''operator'', GStr ''eq''), (''expected'', GInt 200)]],
     ts_Capture = [(''st'', ''status'')], ts_Timeout = []\<rparr>"

definition demo_state :: "unit run_state" where
  "demo_state = \<lparr>rs_world = (), rs_store = NewStore [], rs_coverage = None, rs_log = []\<rparr>"

lemma demo_step_passes:
  "\<exists>s'. runStep demo_runner cx demo_step i config s = (Inr (passed_step (stepName demo_step i)), s')"
proof -
  have "split_on CHR ''.'' ''status'' = [''status'']" by simp
  then have "evaluateAssertion demo_runner (Some [(''status'', GInt 200)])
      [(''field'', GStr ''status''), (''operator'', GStr ''eq''), (''expected'', GInt 200)] = Inr None"
    by (simp add: evaluateAssertion_def text_at_def Build_def Extract_def Evaluate_equal_def iface_eq_def)
  then show ?thesis
    by (simp add: runStep_def step_body_def Let_def demo_runner_def demo_step_def connector_Get_def
        Extract_def step_timeout_def)
qed

definition demo_test :: test_case where
  "demo_test = \<lparr>tc_Name = ''t'', tc_Connector = [], tc_Tags = [], tc_Skip = False, tc_Weight = 0, tc_Steps = [demo_step]\<rparr>"

lemma demo_test_passes:
  "\<exists>s'. RunTest demo_runner cx demo_test config s
    = (Inr \<lparr>rt_Passed = True, rt_Steps = [passed_step (stepName demo_step 0)]\<rparr>, s')"
proof -
  obtain s1 where "runStep demo_runner cx demo_step 0 config (emitTelemetry demo_runner TestStart cx [] s)
      = (Inr (passed_step (stepName demo_step 0)), s1)"
    using demo_step_passes by blast
  moreover have "ts_Connector demo_step \<noteq> []" by (simp add: demo_step_def)
  moreover have "rn_ctx_err demo_runner w = None" for w by (simp add: demo_runner_def)
  ultimately show ?thesis by (simp add: RunTest_def demo_test_def Let_def)
qed

theorem RunTest_fail_fast_witness:
  "map sr_Name [passed_step (stepName demo_step 0)] = map (\<lambda>(j, st). stepName st j) (zip [0..<1] [demo_step])"
proof -
  obtain s' where "RunTest demo_runner \<lparr>cx_Suite = ''s'', cx_Test = ''t''\<rparr> demo_test [] demo_state
    = (Inr \<lparr>rt_Passed = True, rt_Steps = [passed_step (stepName demo_step 0)]\<rparr>, s')"
    using demo_test_passes by blast
  from RunTest_fail_fast[OF this] show ?thesis by (simp add: demo_test_def)
qed

text \<open>What a step that passes has done.\<close>

lemma capture_loop_ok:
  "capture_loop rr cx name data cs s = (None, s') \<Longrightarrow>
     (\<forall>(var, path) \<in> set cs. \<exists>v. Extract data path = Inr v)
     \<and> st_captures (rs_store s') = fold (\<lambda>(var, path). AList.update var (projr (Extract data path))) cs (st_captures (rs_store s))
     \<and> st_fixtures (rs_store s') = st_fixtures (rs_store s)"
proof (induction cs arbitrary: s)
  case (Cons c cs)
  obtain var path where c: "c = (var, path)" by fastforce
  with Cons.prems obtain v where v: "Extract data path = Inr v" by (auto split: sum.splits)
  from Cons.IH[of "s\<lparr>rs_store := SetCapture var v (rs_store s)\<rparr>"] Cons.prems c v
  show ?case by (simp add: SetCapture_def)
qed simp

lemma assert_loop_ok:
  "assert_loop rr cx name data as s = (Inr None, s') \<Longrightarrow>
     (\<forall>am \<in> set as. evaluateAssertion rr data am = Inr None) \<and> rs_store s' = rs_store s"
  by (induction as arbitrary: s)
     (auto simp: on_coverage_def emitTelemetry_def logged_def split: sum.splits option.splits if_splits)

text \<open>C9: a passed step means what it says. When a step passes, its connector is registered and was set
  up, the parameters were interpolated with the captures and fixtures of that moment, the connector
  executed the action with them and returned some data, every capture path leads to a value in that
  data and is stored under its name for the steps that follow (and nothing else is), and every
  assertion of the step holds on the data.\<close>

theorem passed_step_sound:
  assumes "runStep rr cx step i config s = (Inr sr, s')" "sr_Passed sr"
  shows "\<exists>conn w w1 params w2 data w3.
    connector_Get (rn_registry rr) (ts_Connector step) = Some conn
    \<and> cn_Setup conn config (rs_world s) = (None, w)
    \<and> InterpolateMap \<lparr>ip_classes = rn_classes rr, ip_env = rn_env rr, ip_store = rs_store s\<rparr> (ts_Parameters step) w
        = (Inr params, w1)
    \<and> cn_Execute conn \<lparr>cs_Action = ts_Action step, cs_Parameters = params, cs_Timeout = step_timeout (ts_Timeout step)\<rparr> w1
        = (Inr data, w2)
    \<and> (\<forall>(var, path) \<in> set (ts_Capture step). \<exists>v. Extract data path = Inr v)
    \<and> st_captures (rs_store s') =
        fold (\<lambda>(var, path). AList.update var (projr (Extract data path))) (ts_Capture step) (st_captures (rs_store s))
    \<and> (\<forall>am \<in> set (ts_Assert step). evaluateAssertion rr data am = Inr None)"
proof -
  let ?n = "stepName step i"
  have em [simp]: "rs_world (emitTelemetry rr e cx x t) = rs_world t" "rs_store (emitTelemetry rr e cx x t) = rs_store t"
    "rs_world (logged h t) = rs_world t" "rs_store (logged h t) = rs_store t"
    "rs_store (on_coverage f t) = rs_store t" for e x t h f
    by (simp_all add: emitTelemetry_def logged_def on_coverage_def)
  have c: "ts_Connector step \<noteq> []"
    using assms by (auto simp: runStep_def Let_def)
  then obtain conn where conn: "connector_Get (rn_registry rr) (ts_Connector step) = Some conn"
    using assms by (auto simp: runStep_def Let_def split: option.splits)
  obtain e w where set: "cn_Setup conn config (rs_world s) = (e, w)" by fastforce
  have np: "cn_panic conn (SetupCall config) (rs_world s) = None"
    using assms c conn set by (auto simp: runStep_def Let_def split: if_splits)
  with assms c conn set have e: "e = None" by (cases e) (auto simp: runStep_def Let_def)
  define s1 where "s1 = logged (Setup (ts_Connector step) True)
    ((emitTelemetry rr ConnectorSetup cx [(''connector'', ts_Connector step)]
      (emitTelemetry rr StepStart cx [(''step'', ?n)] s))\<lparr>rs_world := w\<rparr>)"
  have s1: "rs_world s1 = w" "rs_store s1 = rs_store s" by (simp_all add: s1_def)
  obtain r s3 where b: "step_body rr cx step ?n conn s1 = (r, s3)" by fastforce
  with assms c conn set e np have r: "r = Inr sr" "rs_store s' = rs_store s3"
    by (auto simp: runStep_def Let_def s1_def[symmetric] split: if_splits)
  obtain rp w1 where p: "InterpolateMap \<lparr>ip_classes = rn_classes rr, ip_env = rn_env rr, ip_store = rs_store s\<rparr>
    (ts_Parameters step) w = (rp, w1)" by fastforce
  with b r assms(2) obtain params where rp: "rp = Inr params"
    by (cases rp) (auto simp: step_body_def s1 split: option.splits)
  obtain x w2 where x: "cn_Execute conn \<lparr>cs_Action = ts_Action step, cs_Parameters = params,
      cs_Timeout = step_timeout (ts_Timeout step)\<rparr> w1 = (x, w2)" by fastforce
  have nx: "cn_panic conn (ExecuteCall \<lparr>cs_Action = ts_Action step, cs_Parameters = params,
      cs_Timeout = step_timeout (ts_Timeout step)\<rparr>) w1 = None"
    using b r p rp x by (auto simp: step_body_def s1 Let_def split: if_splits)
  with b r p rp x assms(2) obtain data where data: "x = Inr data"
    by (cases x) (auto simp: step_body_def s1 Let_def)
  define s2 where "s2 = on_coverage (RecordStep (cx_Suite cx) (cx_Test cx))
    (logged (Execute (ts_Connector step) (ts_Action step)) (s1\<lparr>rs_world := w2\<rparr>))"
  have s2: "rs_store s2 = rs_store s" by (simp add: s2_def s1)
  obtain ce s4 where ce: "capture_loop rr cx ?n data (ts_Capture step) s2 = (ce, s4)" by fastforce
  with b r p rp x nx data assms(2) have ce0: "ce = None"
    by (cases ce) (auto simp: step_body_def s1 Let_def s2_def[symmetric])
  obtain ar s5 where ar: "assert_loop rr cx ?n data (ts_Assert step) s4 = (ar, s5)" by fastforce
  with b r p rp x nx data ce ce0 assms(2) have ar0: "ar = Inr None" "rs_store s3 = rs_store s5"
    by (auto simp: step_body_def s1 Let_def s2_def[symmetric] split: sum.splits option.splits)
  show ?thesis
    using conn set e p rp x data capture_loop_ok[OF ce[unfolded ce0]] assert_loop_ok[OF ar[unfolded ar0(1)]] r(2) ar0(2) s2
    by (intro exI[of _ conn] exI[of _ w] exI[of _ w1] exI[of _ params] exI[of _ w2] exI[of _ data]) simp
qed

theorem passed_step_sound_witness:
  "\<exists>s'. runStep demo_runner \<lparr>cx_Suite = ''s'', cx_Test = ''t''\<rparr> demo_step 0 [] demo_state
      = (Inr (passed_step (stepName demo_step 0)), s')
    \<and> (\<exists>data. evaluateAssertion demo_runner data (hd (ts_Assert demo_step)) = Inr None)"
proof -
  obtain s' where r: "runStep demo_runner \<lparr>cx_Suite = ''s'', cx_Test = ''t''\<rparr> demo_step 0 [] demo_state
      = (Inr (passed_step (stepName demo_step 0)), s')"
    using demo_step_passes by blast
  from passed_step_sound[OF this] r show ?thesis by (auto simp: demo_step_def)
qed

text \<open>The operators \<open>each\<close>, \<open>any\<close> and \<open>all\<close> cannot be used from a test file: the runner's options
  hold no \<open>Assertion\<close>, so every such assertion fails to build, whatever the data.\<close>

theorem quantifiers_unusable:
  assumes "map_of assertMap ''operator'' = Some (GStr oper)" "oper \<in> {''each'', ''any'', ''all''}"
  shows "evaluateAssertion rr data assertMap = Inr (Some (BuildFailed oper (RequiresAssertion oper)))"
  using assms by (auto simp: evaluateAssertion_def text_at_def Build_def)

theorem quantifiers_unusable_witness:
  "evaluateAssertion demo_runner None [(''operator'', GStr ''each'')] = Inr (Some (BuildFailed ''each'' (RequiresAssertion ''each'')))"
  by (rule quantifiers_unusable) simp_all

end
