(* ===== verification/Fleet.thy ===== *)
theory Fleet
  imports Registries Schema_Types
begin

text \<open>
  core/fleet: the weighted distribution of weight.go and the orchestrator of orchestrator.go.
  Go's \<open>int\<close> arithmetic is written out with \<open>wrap64\<close>. The random source is an argument: \<open>intn n\<close>
  stands for the result of \<open>rng.IntN(n)\<close>. Providers are the environment: what their operations
  answer is a function of the calls made so far, and every call is recorded in \<open>or_log\<close>. The order
  of an association list stands for Go's iteration order over the map; the mutex makes each
  operation atomic and does not appear.
\<close>

section \<open>Weights\<close>

definition sum64 :: "int list \<Rightarrow> int" where
  "sum64 ws = foldl (\<lambda>s w. wrap64 (s + w)) 0 ws"

text \<open>The loop of \<open>SelectByWeight\<close> over the weights from index \<open>i\<close> on; \<open>fallback\<close> is the index it
  falls back to.\<close>

fun select_loop :: "int \<Rightarrow> int \<Rightarrow> nat \<Rightarrow> int list \<Rightarrow> int \<Rightarrow> int" where
  "select_loop r cumulative i [] fallback = fallback"
| "select_loop r cumulative i (w # ws) fallback =
     (let c = wrap64 (cumulative + w) in
      if r < c then int i else select_loop r c (Suc i) ws fallback)"

text \<open>\<^const>\<open>None\<close> is the panic of \<open>IntN\<close> on a negative argument.\<close>

definition SelectByWeight :: "int list \<Rightarrow> (int \<Rightarrow> int) \<Rightarrow> int option" where
  "SelectByWeight weights intn =
     (let weightTotal = sum64 weights in
      if weightTotal = 0 then Some 0
      else if weightTotal < 0 then None
      else Some (select_loop (intn weightTotal) 0 0 weights (int (length weights) - 1)))"

text \<open>The loop that hands out the remainder, one to each bin of positive weight in turn. It does
  not end when no weight is positive.\<close>

partial_function (option) rem_loop :: "int list \<Rightarrow> nat \<Rightarrow> int \<Rightarrow> int list \<Rightarrow> int list option" where
  [code]: "rem_loop weights i remainder result =
     (if remainder \<le> 0 then Some result
      else (let idx = i mod length weights in
        if weights ! idx > 0
        then rem_loop weights (Suc i) (remainder - 1) (result[idx := wrap64 (result ! idx + 1)])
        else rem_loop weights (Suc i) remainder result))"

definition DistributeByWeight :: "int list \<Rightarrow> int \<Rightarrow> int list option" where
  "DistributeByWeight weights items =
     (if weights = [] \<or> items = 0 then Some (replicate (length weights) 0)
      else (let weightSum = sum64 weights in
        if weightSum = 0 then Some (replicate (length weights) 0)
        else (let result = map (\<lambda>w. wrap64 (tdiv (wrap64 (items * w)) weightSum)) weights;
                  assigned = sum64 result
              in rem_loop weights 0 (wrap64 (items - assigned)) result)))"

lemma sum64_append: "sum64 (xs @ [x]) = wrap64 (sum64 xs + x)"
  by (simp add: sum64_def)

lemma sum64_exact:
  "\<forall>w \<in> set ws. 0 \<le> w \<Longrightarrow> sum_list ws < 2 ^ 63 \<Longrightarrow> sum64 ws = sum_list ws"
proof (induction ws rule: rev_induct)
  case (snoc x xs)
  then have "0 \<le> sum_list xs" by (simp add: sum_list_nonneg)
  with snoc show ?case by (simp add: sum64_append in_int64_def)
qed (simp add: sum64_def)

subsection \<open>Selection by weight\<close>

lemma select_loop_spec:
  assumes "\<forall>w \<in> set ws. 0 \<le> w" "0 \<le> c" "c + sum_list ws < 2 ^ 63" "c \<le> r" "r < c + sum_list ws"
  shows "\<exists>k < length ws. select_loop r c i ws fallback = int (i + k)
    \<and> c + sum_list (take k ws) \<le> r \<and> r < c + sum_list (take (Suc k) ws)"
  using assms
proof (induction ws arbitrary: c i)
  case (Cons w ws)
  have nn: "0 \<le> sum_list ws" using Cons.prems(1) by (simp add: sum_list_nonneg)
  have w: "wrap64 (c + w) = c + w"
    using Cons.prems nn by (auto simp: in_int64_def)
  show ?case
  proof (cases "r < c + w")
    case True
    with Cons.prems w show ?thesis by (intro exI[of _ 0]) (simp add: Let_def)
  next
    case False
    have "\<exists>k < length ws. select_loop r (c + w) (Suc i) ws fallback = int (Suc i + k)
      \<and> c + w + sum_list (take k ws) \<le> r \<and> r < c + w + sum_list (take (Suc k) ws)"
      using Cons.prems False by (intro Cons.IH) (auto simp: algebra_simps)
    then obtain k where "k < length ws" "select_loop r (c + w) (Suc i) ws fallback = int (Suc i + k)"
      "c + w + sum_list (take k ws) \<le> r" "r < c + w + sum_list (take (Suc k) ws)" by blast
    with False w show ?thesis
      by (intro exI[of _ "Suc k"]) (simp add: Let_def algebra_simps)
  qed
qed simp

lemma cum_mono:
  assumes "\<forall>w \<in> set ws. (0::int) \<le> w" "j \<le> k"
  shows "sum_list (take j ws) \<le> sum_list (take k ws)"
proof -
  have "take k ws = take j ws @ take (k - j) (drop j ws)"
    using assms(2) by (metis le_add_diff_inverse take_add)
  moreover have "0 \<le> sum_list (take (k - j) (drop j ws))"
    using assms(1) by (intro sum_list_nonneg) (auto dest!: in_set_takeD in_set_dropD)
  ultimately show ?thesis by simp
qed

lemma cum_interval_unique:
  assumes "\<forall>w \<in> set ws. (0::int) \<le> w"
    and "sum_list (take j ws) \<le> r" "r < sum_list (take (Suc j) ws)"
    and "sum_list (take k ws) \<le> r" "r < sum_list (take (Suc k) ws)"
  shows "j = k"
  using assms cum_mono[OF assms(1), of "Suc j" k] cum_mono[OF assms(1), of "Suc k" j]
  by (cases j k rule: linorder_cases) auto

lemma SelectByWeight_spec:
  assumes "\<forall>w \<in> set ws. 0 \<le> w" "0 < sum_list ws" "sum_list ws < 2 ^ 63"
    and "0 \<le> intn (sum_list ws)" "intn (sum_list ws) < sum_list ws"
  shows "\<exists>k < length ws. SelectByWeight ws intn = Some (int k)
    \<and> sum_list (take k ws) \<le> intn (sum_list ws) \<and> intn (sum_list ws) < sum_list (take (Suc k) ws)"
  using select_loop_spec[of ws 0 "intn (sum_list ws)" 0 "int (length ws) - 1"] assms
  by (simp add: SelectByWeight_def sum64_exact Let_def)

text \<open>Weighted selection is proportional. Over the \<open>total\<close> equally likely results of
  \<open>rng.IntN(total)\<close>, index \<open>k\<close> is selected by exactly \<open>weights[k]\<close> of them; so an index of weight 0
  never is, and the fallback after the loop is not reached.\<close>

theorem SelectByWeight_proportional:
  assumes "\<forall>w \<in> set ws. 0 \<le> w" "0 < sum_list ws" "sum_list ws < 2 ^ 63" "k < length ws"
  shows "int (card {r \<in> {0..<sum_list ws}. SelectByWeight ws (\<lambda>n. r) = Some (int k)}) = ws ! k"
proof -
  have "SelectByWeight ws (\<lambda>n. r) = Some (int k) \<longleftrightarrow> sum_list (take k ws) \<le> r \<and> r < sum_list (take (Suc k) ws)"
    if "0 \<le> r" "r < sum_list ws" for r
  proof -
    from SelectByWeight_spec[OF assms(1-3), of "\<lambda>n. r"] that obtain j where
      "SelectByWeight ws (\<lambda>n. r) = Some (int j)" "sum_list (take j ws) \<le> r" "r < sum_list (take (Suc j) ws)"
      by blast
    then show ?thesis using cum_interval_unique[OF assms(1)] by fastforce
  qed
  moreover have "0 \<le> sum_list (take k ws)" "sum_list (take (Suc k) ws) \<le> sum_list ws"
    using cum_mono[OF assms(1), of 0 k] cum_mono[OF assms(1), of "Suc k" "length ws"] assms(4) by simp_all
  ultimately have "{r \<in> {0..<sum_list ws}. SelectByWeight ws (\<lambda>n. r) = Some (int k)} =
      {sum_list (take k ws)..<sum_list (take (Suc k) ws)}"
    by auto
  moreover have "sum_list (take (Suc k) ws) = sum_list (take k ws) + ws ! k"
    using assms(4) by (simp add: take_Suc_conv_app_nth)
  moreover have "0 \<le> ws ! k" using assms(1,4) by simp
  ultimately show ?thesis by simp
qed

theorem SelectByWeight_proportional_witness:
  "int (card {r \<in> {0..<100}. SelectByWeight [70, 0, 30] (\<lambda>n. r) = Some (int 2)}) = 30"
  using SelectByWeight_proportional[of "[70, 0, 30]" 2] by simp

subsection \<open>Distribution by weight\<close>

text \<open>What the remainder loop adds to each bin in its first pass.\<close>

fun give :: "int list \<Rightarrow> int \<Rightarrow> int list" where
  "give [] R = []"
| "give (w # ws) R = (if w > 0 \<and> R > 0 then 1 # give ws (R - 1) else 0 # give ws R)"

abbreviation positives :: "int list \<Rightarrow> int" where
  "positives ws \<equiv> int (length (filter (\<lambda>w. w > 0) ws))"

lemma length_give [simp]: "length (give ws R) = length ws"
  by (induction ws R rule: give.induct) simp_all

lemma give_none: "R \<le> 0 \<Longrightarrow> give ws R = replicate (length ws) 0"
  by (induction ws R rule: give.induct) simp_all

lemma sum_give: "0 \<le> R \<Longrightarrow> R \<le> positives ws \<Longrightarrow> sum_list (give ws R) = R"
  by (induction ws R rule: give.induct) auto

lemma give_nth: "k < length ws \<Longrightarrow> give ws R ! k \<in> {0, 1} \<and> (ws ! k \<le> 0 \<longrightarrow> give ws R ! k = 0)"
  by (induction ws R arbitrary: k rule: give.induct) (auto simp: nth_Cons split: nat.splits)

lemma map2_zero: "length xs = n \<Longrightarrow> map2 (+) xs (replicate n (0::int)) = xs"
  by (induction xs arbitrary: n) auto

lemma rem_loop_give:
  assumes "length res = length ws" "i \<le> length ws" "R \<le> positives (drop i ws)"
    and "\<forall>x \<in> set (drop i res). 0 \<le> x \<and> x < 2 ^ 62"
  shows "rem_loop ws i R res = Some (take i res @ map2 (+) (drop i res) (give (drop i ws) R))"
  using assms
proof (induction "length ws - i" arbitrary: i R res)
  case 0
  then have "i = length ws" by simp
  with 0 show ?case by (simp add: rem_loop.simps)
next
  case (Suc n)
  show ?case
  proof (cases "R \<le> 0")
    case True
    with Suc.prems show ?thesis by (simp add: rem_loop.simps[of ws i R res] give_none map2_zero)
  next
    case False
    have i: "i < length ws" using Suc.hyps(2) by simp
    then have d: "drop i ws = ws ! i # drop (Suc i) ws" "drop i res = res ! i # drop (Suc i) res"
      using Suc.prems(1) by (simp_all add: Cons_nth_drop_Suc)
    have n: "n = length ws - Suc i" using Suc.hyps(2) by simp
    show ?thesis
    proof (cases "ws ! i > 0")
      case True
      have x: "0 \<le> res ! i" "res ! i < 2 ^ 62" using Suc.prems(4) d(2) by auto
      then have w: "wrap64 (res ! i + 1) = res ! i + 1" by (simp add: in_int64_def)
      let ?res' = "res[i := res ! i + 1]"
      have "rem_loop ws i R res = rem_loop ws (Suc i) (R - 1) ?res'"
        using True False i w by (simp add: rem_loop.simps[of ws i R res] Let_def)
      also have "\<dots> = Some (take (Suc i) ?res' @ map2 (+) (drop (Suc i) ?res') (give (drop (Suc i) ws) (R - 1)))"
        using Suc.prems d True i by (intro Suc.hyps(1)[OF n]) auto
      finally show ?thesis using True False i d Suc.prems(1)
        by (simp add: take_Suc_conv_app_nth take_update_swap drop_update_cancel list_update_append)
    next
      case False
      have "rem_loop ws i R res = rem_loop ws (Suc i) R res"
        using False \<open>\<not> R \<le> 0\<close> i by (simp add: rem_loop.simps[of ws i R res] Let_def)
      also have "\<dots> = Some (take (Suc i) res @ map2 (+) (drop (Suc i) res) (give (drop (Suc i) ws) R))"
        using Suc.prems d False i by (intro Suc.hyps(1)[OF n]) auto
      finally show ?thesis using False i d Suc.prems(1)
        by (simp add: take_Suc_conv_app_nth)
    qed
  qed
qed

text \<open>The shares before the remainder is handed out.\<close>

lemma share_sum_le:
  fixes S n :: int
  assumes "0 < S" "0 \<le> n"
  shows "sum_list (map (\<lambda>w. n * w div S) ws) * S + sum_list (map (\<lambda>w. n * w mod S) ws) = n * sum_list ws"
proof (induction ws)
  case (Cons a ws)
  have "n * a div S * S + n * a mod S = n * a" by (rule div_mult_mod_eq)
  with Cons show ?case by (simp add: distrib_left distrib_right)
qed simp

lemma mod_sum_bound:
  fixes S n :: int
  assumes "0 < S" "\<forall>w \<in> set ws. 0 \<le> w"
  shows "0 \<le> sum_list (map (\<lambda>w. n * w mod S) ws)"
    and "sum_list (map (\<lambda>w. n * w mod S) ws) \<le> positives ws * (S - 1)"
proof -
  show "0 \<le> sum_list (map (\<lambda>w. n * w mod S) ws)"
    using assms(1) by (intro sum_list_nonneg) auto
  show "sum_list (map (\<lambda>w. n * w mod S) ws) \<le> positives ws * (S - 1)"
    using assms(2)
  proof (induction ws)
    case (Cons w ws)
    have "n * w mod S \<le> (if w > 0 then S - 1 else 0)"
      using Cons.prems assms(1) pos_mod_bound[OF assms(1), of "n * w"] by auto
    with Cons show ?case by (auto simp: algebra_simps)
  qed simp
qed

lemma remainder_bounds:
  fixes S n :: int
  assumes "0 < S" "0 \<le> n" "\<forall>w \<in> set ws. 0 \<le> w" "S = sum_list ws"
  defines "R \<equiv> n - sum_list (map (\<lambda>w. n * w div S) ws)"
  shows "0 \<le> R" "R \<le> positives ws"
proof -
  let ?m = "sum_list (map (\<lambda>w. n * w mod S) ws)"
  have "R * S = ?m"
    using share_sum_le[OF assms(1,2), of ws] by (simp add: R_def left_diff_distrib assms(4)[symmetric])
  with mod_sum_bound[OF assms(1,3), of n] have m: "0 \<le> R * S" "R * S \<le> positives ws * (S - 1)" by simp_all
  from m(1) assms(1) show "0 \<le> R" by (simp add: zero_le_mult_iff)
  have "positives ws * (S - 1) \<le> positives ws * S" by (simp add: right_diff_distrib)
  with m(2) have "R * S \<le> positives ws * S" by linarith
  with assms(1) show "R \<le> positives ws" by simp
qed

lemma member_le_sum_list_int: "\<forall>w \<in> set ws. (0::int) \<le> w \<Longrightarrow> w \<in> set ws \<Longrightarrow> w \<le> sum_list ws"
  by (induction ws) (auto simp: sum_list_nonneg add_increasing add_increasing2)

lemma DistributeByWeight_eq:
  assumes nn: "\<forall>w \<in> set ws. 0 \<le> w" and S: "S = sum_list ws" "0 < S" and n: "0 \<le> n" "n * S < 2 ^ 62"
    and Sb: "S < 2 ^ 62"
  defines "shares \<equiv> map (\<lambda>w. n * w div S) ws"
  shows "DistributeByWeight ws n = Some (map2 (+) shares (give ws (n - sum_list shares)))"
proof (cases "n = 0")
  case True
  have "give ws 0 = replicate (length ws) 0" by (simp add: give_none)
  moreover have "shares = replicate (length ws) 0" by (simp add: shares_def True map_replicate_const)
  ultimately show ?thesis by (simp add: DistributeByWeight_def True map2_zero sum_list_replicate)
next
  case False
  have ne: "ws \<noteq> []" using S by auto
  have S64: "sum64 ws = S" using nn S(1) Sb by (simp add: sum64_exact)
  have w: "0 \<le> w \<and> w \<le> S \<and> n * w \<le> n * S" if "w \<in> set ws" for w
    using that nn member_le_sum_list_int[OF nn that] n(1) S(1) by (auto intro: mult_left_mono)
  have share: "wrap64 (tdiv (wrap64 (n * w)) S) = n * w div S \<and> 0 \<le> n * w div S \<and> n * w div S \<le> n"
    if "w \<in> set ws" for w
  proof -
    have b: "0 \<le> n * w" "n * w < 2 ^ 62" using w[OF that] n by (auto simp: order_le_less_trans)
    have "n * w div S \<le> n * S div S" using w[OF that] S(2) by (intro zdiv_mono1) auto
    then have q: "0 \<le> n * w div S" "n * w div S \<le> n" using b S(2) by (simp_all add: pos_imp_zdiv_nonneg_iff)
    have "n \<le> n * S" using n(1) S(2) by (simp add: mult_le_cancel_left1)
    then have "n < 2 ^ 62" using n(2) by linarith
    with b q show ?thesis by (simp add: tdiv_nonneg S(2) in_int64_def)
  qed
  then have sh: "map (\<lambda>w. wrap64 (tdiv (wrap64 (n * w)) S)) ws = shares" by (simp add: shares_def)
  have len: "length shares = length ws" by (simp add: shares_def)
  note R = remainder_bounds[OF S(2) n(1) nn S(1), folded shares_def]
  have n62: "n < 2 ^ 62"
  proof -
    have "n \<le> n * S" using n(1) S(2) by (simp add: mult_le_cancel_left1)
    then show ?thesis using n(2) by linarith
  qed
  have nn': "\<forall>x \<in> set shares. 0 \<le> x \<and> x < 2 ^ 62"
    using share n62 by (fastforce simp: shares_def)
  then have s0: "0 \<le> sum_list shares" by (simp add: sum_list_nonneg)
  have s64: "sum64 shares = sum_list shares" using nn' R(1) n62 by (intro sum64_exact) auto
  have "wrap64 (n - sum_list shares) = n - sum_list shares" using s0 R(1) n62 by (simp add: in_int64_def)
  then have "DistributeByWeight ws n = rem_loop ws 0 (n - sum_list shares) shares"
    using False ne S(2) unfolding DistributeByWeight_def Let_def S64 sh s64 by simp
  also have "\<dots> = Some (map2 (+) shares (give ws (n - sum_list shares)))"
    using rem_loop_give[of shares ws 0 "n - sum_list shares"] R(2) nn' len by simp
  finally show ?thesis .
qed

lemma sum_map2_add: "length xs = length ys \<Longrightarrow> sum_list (map2 (+) xs ys) = sum_list xs + (sum_list ys :: int)"
  by (induction xs ys rule: list_induct2) simp_all

text \<open>Fair distribution. For weights that are not negative and not all zero, and as long as
  \<open>total * sum\<close> stays in range, \<open>DistributeByWeight\<close> returns; the parts add up to exactly
  \<open>total\<close>, each is the exact share rounded down or one more, and a bin of weight 0 gets nothing.\<close>

theorem DistributeByWeight_fair:
  assumes "\<forall>w \<in> set ws. 0 \<le> w" "0 < sum_list ws" "sum_list ws < 2 ^ 62" "0 \<le> n" "n * sum_list ws < 2 ^ 62"
  shows "\<exists>parts. DistributeByWeight ws n = Some parts \<and> length parts = length ws \<and> sum_list parts = n
    \<and> (\<forall>k < length ws. parts ! k - n * ws ! k div sum_list ws \<in> {0, 1} \<and> (ws ! k = 0 \<longrightarrow> parts ! k = 0))"
proof -
  let ?shares = "map (\<lambda>w. n * w div sum_list ws) ws"
  let ?parts = "map2 (+) ?shares (give ws (n - sum_list ?shares))"
  have e: "DistributeByWeight ws n = Some ?parts"
    using DistributeByWeight_eq[OF assms(1) refl assms(2,4,5,3)] .
  have "sum_list ?parts = n"
    using remainder_bounds[OF assms(2,4,1) refl] by (simp add: sum_map2_add sum_give)
  moreover have "?parts ! k - n * ws ! k div sum_list ws \<in> {0, 1} \<and> (ws ! k = 0 \<longrightarrow> ?parts ! k = 0)"
    if "k < length ws" for k
    using give_nth[OF that, of "n - sum_list ?shares"] that by auto
  ultimately show ?thesis using e by (intro exI[of _ ?parts]) simp
qed

theorem DistributeByWeight_fair_witness:
  "\<exists>parts. DistributeByWeight [1, 0, 2] 10 = Some parts \<and> sum_list parts = 10 \<and> parts ! 1 = 0"
  using DistributeByWeight_fair[of "[1, 0, 2]" 10] by fastforce

section \<open>The orchestrator\<close>

record host =
  ho_ID :: string
  ho_Address :: string
  ho_Provider :: string
  ho_Meta :: "(string \<times> string) list"
  ho_BornAt :: int

text \<open>A provider instance is what a factory made, told apart by when it was made.\<close>

record provider =
  pv_Kind :: string
  pv_Id :: nat

datatype fleet_call =
    CallSetup provider "(string \<times> gov) list"
  | CallAcquire provider nat
  | CallRelease provider "host list"
  | CallTeardown provider
  | CallExecute provider host string

datatype fleet_error =
    ErrNotRegistered string
  | ErrSetup string string
  | ErrNoHosts string
  | ErrNoProvider string string
  | ErrAcquire string string
  | ErrRelease string string
  | ErrProvider string

text \<open>The environment: the answers of the providers, given the calls before.\<close>

record 'x fleet_env =
  en_Setup :: "fleet_call list \<Rightarrow> provider \<Rightarrow> (string \<times> gov) list \<Rightarrow> string option"
  en_Acquire :: "fleet_call list \<Rightarrow> provider \<Rightarrow> nat \<Rightarrow> string + host list"
  en_Release :: "fleet_call list \<Rightarrow> provider \<Rightarrow> host list \<Rightarrow> string option"
  en_Teardown :: "fleet_call list \<Rightarrow> provider \<Rightarrow> string option"
  en_Execute :: "fleet_call list \<Rightarrow> provider \<Rightarrow> host \<Rightarrow> string \<Rightarrow> string + 'x"

record orch =
  or_registry :: "(unit \<Rightarrow> string) reg"
  or_config :: fleet_config
  or_providers :: "(string \<times> provider) list"
  or_hosts :: "(string \<times> host list) list"
  or_ttls :: "(string \<times> int) list"
  or_log :: "fleet_call list"

definition NewOrchestrator :: "(unit \<Rightarrow> string) reg \<Rightarrow> fleet_config \<Rightarrow> orch" where
  "NewOrchestrator reg cfg =
     \<lparr>or_registry = reg, or_config = cfg, or_providers = [], or_hosts = [], or_ttls = [], or_log = []\<rparr>"

abbreviation called :: "fleet_call \<Rightarrow> orch \<Rightarrow> orch" where
  "called c o' \<equiv> o'\<lparr>or_log := or_log o' @ [c]\<rparr>"

text \<open>A missing key of a Go map reads as the zero value.\<close>

definition hosts_of :: "orch \<Rightarrow> string \<Rightarrow> host list" where
  "hosts_of s p = (case map_of (or_hosts s) p of Some hs \<Rightarrow> hs | None \<Rightarrow> [])"

definition ttl_of :: "orch \<Rightarrow> string \<Rightarrow> int" where
  "ttl_of s p = (case map_of (or_ttls s) p of Some t \<Rightarrow> t | None \<Rightarrow> 0)"

definition set_hosts :: "string \<Rightarrow> host list \<Rightarrow> orch \<Rightarrow> orch" where
  "set_hosts p hs s = s\<lparr>or_hosts := AList.update p hs (or_hosts s)\<rparr>"

fun setup_loop :: "'x fleet_env \<Rightarrow> fleet_provider list \<Rightarrow> orch \<Rightarrow> fleet_error option \<times> orch" where
  "setup_loop env [] s = (None, s)"
| "setup_loop env (fp # fps) s =
     (case fleet_Get (or_registry s) (fp_Provider fp) of
        None \<Rightarrow> (Some (ErrNotRegistered (fp_Provider fp)), s)
      | Some kind \<Rightarrow>
          (let prov = \<lparr>pv_Kind = kind, pv_Id = length (or_log s)\<rparr>;
               s1 = called (CallSetup prov (fp_Config fp)) s
           in (case en_Setup env (or_log s) prov (fp_Config fp) of
                 Some e \<Rightarrow> (Some (ErrSetup (fp_Provider fp) e), s1)
               | None \<Rightarrow> setup_loop env fps
                   (s1\<lparr>or_providers := AList.update (fp_Provider fp) prov (or_providers s1),
                       or_ttls := AList.update (fp_Provider fp) (fp_TTL fp) (or_ttls s1)\<rparr>))))"

definition Setup :: "'x fleet_env \<Rightarrow> orch \<Rightarrow> fleet_error option \<times> orch" where
  "Setup env s = setup_loop env (fc_Providers (or_config s)) s"

text \<open>\<^const>\<open>None\<close> is a panic: \<open>IntN\<close> of a negative total, or an index outside the list.\<close>

definition SelectProvider :: "orch \<Rightarrow> (int \<Rightarrow> int) \<Rightarrow> string option" where
  "SelectProvider s intn =
     (case SelectByWeight (map fp_Weight (fc_Providers (or_config s))) intn of
        None \<Rightarrow> None
      | Some idx \<Rightarrow>
          if 0 \<le> idx \<and> nat idx < length (fc_Providers (or_config s))
          then Some (fp_Provider (fc_Providers (or_config s) ! nat idx)) else None)"

definition SelectHost :: "string \<Rightarrow> orch \<Rightarrow> (fleet_error + host) \<times> orch" where
  "SelectHost p s =
     (case hosts_of s p of
        [] \<Rightarrow> (Inl (ErrNoHosts p), s)
      | h # hs \<Rightarrow> (Inr h, set_hosts p (hs @ [h]) s))"

definition AddHosts :: "string \<Rightarrow> host list \<Rightarrow> orch \<Rightarrow> orch" where
  "AddHosts p hs s = set_hosts p (hosts_of s p @ hs) s"

definition Execute :: "'x fleet_env \<Rightarrow> host \<Rightarrow> string \<Rightarrow> orch \<Rightarrow> (fleet_error + 'x) \<times> orch" where
  "Execute env h cmd s =
     (case map_of (or_providers s) (ho_Provider h) of
        None \<Rightarrow> (Inl (ErrNoProvider (ho_Provider h) (ho_ID h)), s)
      | Some prov \<Rightarrow>
          (map_sum ErrProvider id (en_Execute env (or_log s) prov h cmd), called (CallExecute prov h cmd) s))"

definition minute :: int where "minute = 60000000000"

definition expired :: "int \<Rightarrow> int \<Rightarrow> host \<Rightarrow> bool" where
  "expired now ttl h \<longleftrightarrow> now - ho_BornAt h \<ge> wrap64 (ttl * minute)"

text \<open>One turn of the loop of \<open>CheckTTL\<close>; \<open>now\<close> is the time it read.\<close>

definition check_one :: "'x fleet_env \<Rightarrow> int \<Rightarrow> string \<Rightarrow> provider \<Rightarrow> orch \<Rightarrow> fleet_error option \<times> orch" where
  "check_one env now name prov s =
     (let ttl = ttl_of s name in
      if ttl \<le> 0 then (None, s)
      else
        (let old = filter (expired now ttl) (hosts_of s name);
             s1 = set_hosts name (filter (\<lambda>h. \<not> expired now ttl h) (hosts_of s name)) s
         in if old = [] then (None, s1)
            else
              (case en_Acquire env (or_log s1) prov (length old) of
                 Inl e \<Rightarrow> (Some (ErrAcquire name e), called (CallAcquire prov (length old)) s1)
               | Inr new \<Rightarrow>
                   (let s2 = called (CallAcquire prov (length old)) s1;
                        s3 = set_hosts name (hosts_of s2 name @ new) s2
                    in (map_option (ErrRelease name) (en_Release env (or_log s3) prov old),
                        called (CallRelease prov old) s3)))))"

fun check_loop :: "'x fleet_env \<Rightarrow> int \<Rightarrow> (string \<times> provider) list \<Rightarrow> orch \<Rightarrow> fleet_error option \<times> orch" where
  "check_loop env now [] s = (None, s)"
| "check_loop env now ((name, prov) # ps) s =
     (case check_one env now name prov s of
        (Some e, s') \<Rightarrow> (Some e, s')
      | (None, s') \<Rightarrow> check_loop env now ps s')"

definition CheckTTL :: "'x fleet_env \<Rightarrow> int \<Rightarrow> orch \<Rightarrow> fleet_error option \<times> orch" where
  "CheckTTL env now s = check_loop env now (or_providers s) s"

definition first_err :: "fleet_error option \<Rightarrow> string option \<Rightarrow> fleet_error option" where
  "first_err e x = (case e of Some _ \<Rightarrow> e | None \<Rightarrow> map_option ErrProvider x)"

fun teardown_loop :: "'x fleet_env \<Rightarrow> (string \<times> provider) list \<Rightarrow> fleet_error option \<Rightarrow> orch \<Rightarrow> fleet_error option \<times> orch" where
  "teardown_loop env [] err s = (err, s)"
| "teardown_loop env ((name, prov) # ps) err s =
     (let hs = hosts_of s name;
          s1 = set_hosts name [] s;
          (err1, s2) = (if hs \<noteq> [] then (first_err err (en_Release env (or_log s1) prov hs),
                                          called (CallRelease prov hs) s1)
                        else (err, s1));
          err2 = first_err err1 (en_Teardown env (or_log s2) prov)
      in teardown_loop env ps err2 (called (CallTeardown prov) s2))"

definition Teardown :: "'x fleet_env \<Rightarrow> orch \<Rightarrow> fleet_error option \<times> orch" where
  "Teardown env s = teardown_loop env (or_providers s) None s"

subsection \<open>The pools\<close>

lemma hosts_set [simp]: "hosts_of (set_hosts p hs s) q = (if q = p then hs else hosts_of s q)"
  by (simp add: hosts_of_def set_hosts_def update_conv')

lemma hosts_called [simp]: "hosts_of (s\<lparr>or_log := l\<rparr>) q = hosts_of s q"
  by (simp add: hosts_of_def)

lemma ttl_simps [simp]: "ttl_of (set_hosts p hs s) q = ttl_of s q" "ttl_of (s\<lparr>or_log := l\<rparr>) q = ttl_of s q"
  by (simp_all add: ttl_of_def set_hosts_def)

lemma set_hosts_simps [simp]:
  "or_log (set_hosts p hs s) = or_log s" "or_providers (set_hosts p hs s) = or_providers s"
  "or_config (set_hosts p hs s) = or_config s" "or_registry (set_hosts p hs s) = or_registry s"
  by (simp_all add: set_hosts_def)

text \<open>Selecting \<open>n\<close> times in a row.\<close>

primrec select_many :: "string \<Rightarrow> nat \<Rightarrow> orch \<Rightarrow> (fleet_error + host) list \<times> orch" where
  "select_many p 0 s = ([], s)"
| "select_many p (Suc n) s =
     (case SelectHost p s of (r, s') \<Rightarrow> (case select_many p n s' of (rs, s'') \<Rightarrow> (r # rs, s'')))"

lemma SelectHost_rotate:
  "hosts_of s p \<noteq> [] \<Longrightarrow>
   SelectHost p s = (Inr (hd (hosts_of s p)), set_hosts p (rotate1 (hosts_of s p)) s)"
  by (auto simp: SelectHost_def split: list.split)

lemma select_many_rotate:
  "hosts_of s p \<noteq> [] \<Longrightarrow>
   fst (select_many p n s) = map (\<lambda>i. Inr (hosts_of s p ! (i mod length (hosts_of s p)))) [0..<n]
   \<and> hosts_of (snd (select_many p n s)) q = (if q = p then rotate n (hosts_of s p) else hosts_of s q)"
proof (induction n arbitrary: s)
  case (Suc n)
  let ?hs = "hosts_of s p"
  let ?s = "set_hosts p (rotate1 ?hs) s"
  have IH: "fst (select_many p n ?s) = map (\<lambda>i. Inr (rotate1 ?hs ! (i mod length ?hs))) [0..<n]"
    "hosts_of (snd (select_many p n ?s)) q = (if q = p then rotate n (rotate1 ?hs) else hosts_of s q)"
    using Suc.IH[of ?s] Suc.prems by auto
  have len: "0 < length ?hs" using Suc.prems by simp
  have "rotate1 ?hs ! (i mod length ?hs) = ?hs ! (Suc i mod length ?hs)" for i
    using len nth_rotate1[of "i mod length ?hs" ?hs] by (simp add: mod_Suc_eq)
  with IH SelectHost_rotate[OF Suc.prems] Suc.prems show ?case
    by (cases "select_many p n ?s")
       (simp add: map_upt_Suc hd_conv_nth rotate1_rotate_swap del: upt_Suc)
qed simp

text \<open>Round robin. The \<open>i\<close>-th of any number of selections from a provider's pool is host
  number \<open>i\<close> modulo the size of the pool: every host is selected equally often, no selection
  fails, and the pools of the other providers are not touched.\<close>

theorem SelectHost_round_robin:
  assumes "hosts_of s p \<noteq> []"
  shows "fst (select_many p n s) = map (\<lambda>i. Inr (hosts_of s p ! (i mod length (hosts_of s p)))) [0..<n]
    \<and> hosts_of (snd (select_many p n s)) p = rotate n (hosts_of s p)
    \<and> (\<forall>q. q \<noteq> p \<longrightarrow> hosts_of (snd (select_many p n s)) q = hosts_of s q)"
  using select_many_rotate[OF assms, of n] by simp

subsection \<open>Expired hosts\<close>

definition due :: "int \<Rightarrow> orch \<Rightarrow> string \<Rightarrow> host list" where
  "due now s name = (if ttl_of s name \<le> 0 then [] else filter (expired now (ttl_of s name)) (hosts_of s name))"

definition kept :: "int \<Rightarrow> orch \<Rightarrow> string \<Rightarrow> host list" where
  "kept now s name =
     (if ttl_of s name \<le> 0 then hosts_of s name else filter (\<lambda>h. \<not> expired now (ttl_of s name) h) (hosts_of s name))"

text \<open>The calls that recycling one provider's hosts makes.\<close>

definition recycle_calls :: "int \<Rightarrow> orch \<Rightarrow> string \<times> provider \<Rightarrow> fleet_call list" where
  "recycle_calls now s np =
     (case due now s (fst np) of [] \<Rightarrow> [] | d \<Rightarrow> [CallAcquire (snd np) (length d), CallRelease (snd np) d])"

lemma check_one_ok:
  assumes "check_one env now name prov s = (None, s')"
  shows "or_log s' = or_log s @ recycle_calls now s (name, prov)"
    and "\<exists>new. hosts_of s' name = kept now s name @ new \<and> (due now s name = [] \<longrightarrow> new = [])"
    and "q \<noteq> name \<Longrightarrow> hosts_of s' q = hosts_of s q"
    and "ttl_of s' = ttl_of s"
  using assms
  by (auto simp: check_one_def Let_def recycle_calls_def due_def kept_def fun_eq_iff
      split: if_splits sum.splits list.splits)

lemma check_loop_ok:
  assumes "check_loop env now ps s = (None, s')" "distinct (map fst ps)"
  shows "or_log s' = or_log s @ concat (map (recycle_calls now s) ps)
    \<and> (\<forall>np \<in> set ps. \<exists>new. hosts_of s' (fst np) = kept now s (fst np) @ new \<and> (due now s (fst np) = [] \<longrightarrow> new = []))
    \<and> (\<forall>q. q \<notin> fst ` set ps \<longrightarrow> hosts_of s' q = hosts_of s q)"
  using assms
proof (induction ps arbitrary: s)
  case (Cons np ps)
  obtain name prov where np: "np = (name, prov)" by fastforce
  from Cons.prems obtain s1 where one: "check_one env now name prov s = (None, s1)"
    and rest: "check_loop env now ps s1 = (None, s')"
    by (auto simp: np split: prod.splits option.splits)
  note ok = check_one_ok[OF one]
  have same: "due now s1 q = due now s q" "kept now s1 q = kept now s q" if "q \<in> fst ` set ps" for q
  proof -
    have "q \<noteq> name" using that Cons.prems(2) by (auto simp: np)
    then show "due now s1 q = due now s q" "kept now s1 q = kept now s q"
      using ok(3)[of q] ok(4) by (simp_all add: due_def kept_def)
  qed
  then have "concat (map (recycle_calls now s1) ps) = concat (map (recycle_calls now s) ps)"
    by (intro arg_cong[where f = concat]) (auto simp: recycle_calls_def)
  moreover have "name \<notin> fst ` set ps" using Cons.prems(2) by (simp add: np)
  ultimately show ?case
    using Cons.IH[OF rest] Cons.prems(2) ok same by (auto simp: np)
qed simp

text \<open>Recycling. When \<open>CheckTTL\<close> succeeds, each provider's pool is its hosts that are not past
  their TTL, followed by the replacements; as many replacements were asked for as hosts had
  expired, and exactly the expired hosts were released, after the replacements had been acquired.
  Nothing else was called.\<close>

theorem CheckTTL_recycles:
  assumes "CheckTTL env now s = (None, s')" "distinct (map fst (or_providers s))"
  shows "or_log s' = or_log s @ concat (map (recycle_calls now s) (or_providers s))
    \<and> (\<forall>np \<in> set (or_providers s).
         \<exists>new. hosts_of s' (fst np) = kept now s (fst np) @ new \<and> (due now s (fst np) = [] \<longrightarrow> new = []))"
  using check_loop_ok[of env now "or_providers s" s s'] assms by (simp add: CheckTTL_def)

subsection \<open>Teardown\<close>

definition teardown_calls :: "orch \<Rightarrow> string \<times> provider \<Rightarrow> fleet_call list" where
  "teardown_calls s np =
     (case hosts_of s (fst np) of [] \<Rightarrow> [] | hs \<Rightarrow> [CallRelease (snd np) hs]) @ [CallTeardown (snd np)]"

lemma teardown_loop_spec:
  assumes "distinct (map fst ps)"
  shows "or_log (snd (teardown_loop env ps err s)) = or_log s @ concat (map (teardown_calls s) ps)
    \<and> (\<forall>q. hosts_of (snd (teardown_loop env ps err s)) q = (if q \<in> fst ` set ps then [] else hosts_of s q))"
  using assms
proof (induction ps arbitrary: s err)
  case (Cons np ps)
  obtain name prov where np: "np = (name, prov)" by fastforce
  define s1 where "s1 = called (CallTeardown prov)
    (if hosts_of s name \<noteq> [] then called (CallRelease prov (hosts_of s name)) (set_hosts name [] s)
     else set_hosts name [] s)"
  have step: "\<exists>e. teardown_loop env (np # ps) err s = teardown_loop env ps e s1"
    by (auto simp: np s1_def Let_def)
  have s1: "or_log s1 = or_log s @ teardown_calls s np"
      "hosts_of s1 q = (if q = name then [] else hosts_of s q)" for q
    by (auto simp: s1_def teardown_calls_def np split: list.split)
  have "name \<notin> fst ` set ps" using Cons.prems by (simp add: np)
  with s1 have "concat (map (teardown_calls s1) ps) = concat (map (teardown_calls s) ps)"
    by (intro arg_cong[where f = concat]) (auto simp: teardown_calls_def)
  moreover from step obtain e where "teardown_loop env (np # ps) err s = teardown_loop env ps e s1" by blast
  ultimately show ?case
    using Cons.IH[where s = s1 and err = e] Cons.prems s1 by (simp add: np del: teardown_loop.simps)
qed simp

text \<open>Teardown is complete. Whatever errors the providers report, \<open>Teardown\<close> releases every
  host that is still in a pool, once and to its own provider, tears every provider down after
  its hosts were released, and leaves the pools empty.\<close>

theorem Teardown_complete:
  assumes "distinct (map fst (or_providers s))"
  shows "or_log (snd (Teardown env s)) = or_log s @ concat (map (teardown_calls s) (or_providers s))
    \<and> (\<forall>np \<in> set (or_providers s). hosts_of (snd (Teardown env s)) (fst np) = [])"
  using teardown_loop_spec[OF assms, of env None s] by (auto simp: Teardown_def)

section \<open>A concrete fleet\<close>

definition demo_host :: "string \<Rightarrow> int \<Rightarrow> host" where
  "demo_host i born = \<lparr>ho_ID = i, ho_Address = ''a'', ho_Provider = ''static'', ho_Meta = [], ho_BornAt = born\<rparr>"

definition demo_provider :: provider where
  "demo_provider = \<lparr>pv_Kind = ''static'', pv_Id = 0\<rparr>"

text \<open>A provider that always answers, with fresh hosts.\<close>

definition demo_env :: "unit fleet_env" where
  "demo_env = \<lparr>en_Setup = (\<lambda>log p c. None), en_Acquire = (\<lambda>log p n. Inr (replicate n (demo_host ''new'' 999999999999))),
     en_Release = (\<lambda>log p hs. None), en_Teardown = (\<lambda>log p. None), en_Execute = (\<lambda>log p h c. Inr ())\<rparr>"

definition demo_orch :: orch where
  "demo_orch = \<lparr>or_registry = [(''static'', \<lambda>u. ''static'')], or_config = \<lparr>fc_Providers = []\<rparr>,
     or_providers = [(''static'', demo_provider)],
     or_hosts = [(''static'', [demo_host ''old'' 0, demo_host ''young'' 900000000000])],
     or_ttls = [(''static'', 5)], or_log = []\<rparr>"

lemmas demo_defs = demo_host_def demo_provider_def demo_env_def demo_orch_def

theorem SelectHost_round_robin_witness:
  "fst (select_many ''static'' 3 demo_orch) =
     [Inr (demo_host ''old'' 0), Inr (demo_host ''young'' 900000000000), Inr (demo_host ''old'' 0)]"
proof -
  have h: "hosts_of demo_orch ''static'' = [demo_host ''old'' 0, demo_host ''young'' 900000000000]"
    by (simp add: hosts_of_def demo_orch_def)
  have "[0..<3] = [0, 1, 2::nat]" by (simp add: upt_rec)
  with SelectHost_round_robin[of demo_orch "''static''" 3] show ?thesis by (simp add: h numeral_2_eq_2)
qed

theorem CheckTTL_recycles_witness:
  "fst (CheckTTL demo_env 1000000000000 demo_orch) = None \<and>
   or_log (snd (CheckTTL demo_env 1000000000000 demo_orch)) =
     [CallAcquire demo_provider 1, CallRelease demo_provider [demo_host ''old'' 0]]"
proof -
  have h: "hosts_of demo_orch ''static'' = [demo_host ''old'' 0, demo_host ''young'' 900000000000]"
    "ttl_of demo_orch ''static'' = 5" "or_providers demo_orch = [(''static'', demo_provider)]"
    by (simp_all add: hosts_of_def ttl_of_def demo_orch_def)
  have w: "wrap64 (5 * minute) = 300000000000" by (simp add: minute_def wrap64_def)
  have none: "fst (CheckTTL demo_env 1000000000000 demo_orch) = None"
    by (simp add: CheckTTL_def check_one_def h demo_env_def Let_def split: prod.splits option.splits)
  from CheckTTL_recycles[of demo_env 1000000000000 demo_orch "snd (CheckTTL demo_env 1000000000000 demo_orch)"] none
  have "or_log (snd (CheckTTL demo_env 1000000000000 demo_orch)) =
      or_log demo_orch @ recycle_calls 1000000000000 demo_orch (''static'', demo_provider)"
    by (simp add: h prod_eq_iff)
  also have "\<dots> = [CallAcquire demo_provider 1, CallRelease demo_provider [demo_host ''old'' 0]]"
    by (simp add: recycle_calls_def due_def h expired_def w) (simp add: demo_host_def demo_orch_def)
  finally show ?thesis using none by simp
qed

theorem Teardown_complete_witness:
  "or_log (snd (Teardown demo_env demo_orch)) =
     [CallRelease demo_provider [demo_host ''old'' 0, demo_host ''young'' 900000000000], CallTeardown demo_provider]"
  using Teardown_complete[of demo_orch demo_env]
  by (simp add: demo_orch_def teardown_calls_def hosts_of_def)

end
