(* ===== verification/Dispatch.thy ===== *)
theory Dispatch
  imports Fleet Schema_Types "HOL-Library.Multiset"
begin

text \<open>
  core/engine: dispatcher.go's orders of execution and loop.go's repeated passes. A work function acts on
  a state of any type and may panic (\<open>Some msg\<close>); \<open>stop\<close> says whether the context is done. Random
  numbers come as arguments: the number drawn for each position of the shuffle, and a function from the
  state for each weighted selection. The sequential, random and weighted dispatchers are exactly these loops. Of the
  concurrent dispatcher, \<open>Dispatch\<close> has only the executions in which each item is done before the next begins, in
  an order that is a parameter; all its interleavings, and the cancellation that can hang it, are in theory Concurrent_Dispatch, where \<open>serial_execution\<close> shows that the
  one in the order of the items is among them.
\<close>

type_synonym 'w work = "nat \<Rightarrow> 'w \<Rightarrow> string option \<times> 'w"

section \<open>Sequential and random dispatch\<close>

text \<open>The loop that runs the indices of a list while the context is not done.\<close>

fun run_indices :: "('w \<Rightarrow> bool) \<Rightarrow> 'w work \<Rightarrow> nat list \<Rightarrow> 'w \<Rightarrow> string option \<times> 'w" where
  "run_indices stop work [] w = (None, w)"
| "run_indices stop work (i # is) w =
     (if stop w then (None, w)
      else (case work i w of
          (Some msg, w') \<Rightarrow> (Some msg, w')
        | (None, w') \<Rightarrow> run_indices stop work is w'))"

definition Sequential_Dispatch :: "('w \<Rightarrow> bool) \<Rightarrow> nat \<Rightarrow> 'w work \<Rightarrow> 'w \<Rightarrow> string option \<times> 'w" where
  "Sequential_Dispatch stop cnt work w = run_indices stop work [0..<cnt] w"

definition swap :: "'a list \<Rightarrow> nat \<Rightarrow> nat \<Rightarrow> 'a list" where
  "swap xs i j = xs[i := xs ! j, j := xs ! i]"

text \<open>The Fisher-Yates loop from position \<open>i\<close> down to 1; \<open>draw i\<close> is \<open>rand.Int(i + 1)\<close>.\<close>

fun shuffle_loop :: "(nat \<Rightarrow> nat) \<Rightarrow> nat \<Rightarrow> 'a list \<Rightarrow> 'a list" where
  "shuffle_loop draw 0 xs = xs"
| "shuffle_loop draw (Suc i) xs = shuffle_loop draw i (swap xs (Suc i) (draw (Suc i)))"

definition shuffle :: "(nat \<Rightarrow> nat) \<Rightarrow> nat \<Rightarrow> nat list" where
  "shuffle draw cnt = shuffle_loop draw (cnt - 1) [0..<cnt]"

definition Random_Dispatch :: "('w \<Rightarrow> bool) \<Rightarrow> (nat \<Rightarrow> nat) \<Rightarrow> nat \<Rightarrow> 'w work \<Rightarrow> 'w \<Rightarrow> string option \<times> 'w" where
  "Random_Dispatch stop draw cnt work w = run_indices stop work (shuffle draw cnt) w"

section \<open>Weighted dispatch\<close>

definition selectByWeight :: "int list \<Rightarrow> int \<Rightarrow> int" where
  "selectByWeight weights r = select_loop r 0 0 weights (int (length weights) - 1)"

text \<open>\<open>draw n w\<close> is \<open>mrand.IntN(n)\<close>, which panics unless \<open>n\<close> is positive.\<close>

fun weighted_loop :: "('w \<Rightarrow> bool) \<Rightarrow> (int \<Rightarrow> 'w \<Rightarrow> int) \<Rightarrow> int list \<Rightarrow> int \<Rightarrow> nat \<Rightarrow> 'w work \<Rightarrow> 'w \<Rightarrow> string option \<times> 'w" where
  "weighted_loop stop draw weights tot 0 work w = (None, w)"
| "weighted_loop stop draw weights tot (Suc n) work w =
     (if stop w then (None, w)
      else if tot < 0 then (Some ''invalid argument to IntN'', w)
      else (case work (nat (selectByWeight weights (draw tot w))) w of
          (Some msg, w') \<Rightarrow> (Some msg, w')
        | (None, w') \<Rightarrow> weighted_loop stop draw weights tot n work w'))"

definition Weighted_Dispatch ::
  "('w \<Rightarrow> bool) \<Rightarrow> (int \<Rightarrow> 'w \<Rightarrow> int) \<Rightarrow> int list \<Rightarrow> nat \<Rightarrow> 'w work \<Rightarrow> 'w \<Rightarrow> string option \<times> 'w" where
  "Weighted_Dispatch stop draw weights cnt work w =
     (let tot = sum64 weights in
      if tot = 0 then (None, w) else weighted_loop stop draw weights tot cnt work w)"

section \<open>Dispatchers\<close>

datatype dispatcher =
    SequentialDispatcher
  | RandomDispatcher
  | ConcurrentDispatcher int
  | WeightedDispatcher "int list"

definition NewConcurrentDispatcher :: "int \<Rightarrow> dispatcher" where
  "NewConcurrentDispatcher concurrency = ConcurrentDispatcher (if concurrency < 1 then 1 else concurrency)"

definition NewDispatcher :: "string \<Rightarrow> int \<Rightarrow> int list \<Rightarrow> dispatcher" where
  "NewDispatcher mode concurrency weights =
     (if mode = ModeRandom then RandomDispatcher
      else if mode = ModeConcurrent then NewConcurrentDispatcher concurrency
      else if mode = ModeWeighted then WeightedDispatcher weights
      else SequentialDispatcher)"

text \<open>The items of a concurrent dispatch each recover from a panic; the first panic is raised again when
  all items are done.\<close>

fun run_all :: "('w \<Rightarrow> bool) \<Rightarrow> 'w work \<Rightarrow> nat list \<Rightarrow> 'w \<Rightarrow> string option \<times> 'w" where
  "run_all stop work [] w = (None, w)"
| "run_all stop work (i # is) w =
     (if stop w then (None, w)
      else (case work i w of (p, w1) \<Rightarrow>
        (case run_all stop work is w1 of (q, w2) \<Rightarrow> (if p \<noteq> None then p else q, w2))))"

text \<open>What the dispatchers take from outside: the context, the random numbers and the order in which
  concurrent items get to run.\<close>

record 'w dispatch_env =
  de_stop :: "'w \<Rightarrow> bool"
  de_shuffle :: "'w \<Rightarrow> nat \<Rightarrow> nat"
  de_draw :: "int \<Rightarrow> 'w \<Rightarrow> int"
  de_order :: "int \<Rightarrow> nat \<Rightarrow> 'w \<Rightarrow> nat list"

fun Dispatch :: "'w dispatch_env \<Rightarrow> dispatcher \<Rightarrow> nat \<Rightarrow> 'w work \<Rightarrow> 'w \<Rightarrow> string option \<times> 'w" where
  "Dispatch en SequentialDispatcher cnt work w = Sequential_Dispatch (de_stop en) cnt work w"
| "Dispatch en RandomDispatcher cnt work w = Random_Dispatch (de_stop en) (de_shuffle en w) cnt work w"
| "Dispatch en (ConcurrentDispatcher c) cnt work w =
     run_all (de_stop en) work (if c = 1 then [0..<cnt] else de_order en c cnt w) w"
| "Dispatch en (WeightedDispatcher ws) cnt work w = Weighted_Dispatch (de_stop en) (de_draw en) ws cnt work w"

section \<open>Repeated passes\<close>

record loop_controller =
  lc_repeat :: int
  lc_duration :: int
  lc_interval :: int

definition NewLoopController :: "int \<Rightarrow> int \<Rightarrow> int \<Rightarrow> loop_controller" where
  "NewLoopController rep duration interval = \<lparr>lc_repeat = rep, lc_duration = duration, lc_interval = interval\<rparr>"

text \<open>The context of the passes is done when the outer one is or its time is up; \<open>sleep\<close> says whether the
  context ended before the interval.\<close>

record 'w loop_env =
  le_done :: "'w \<Rightarrow> bool"
  le_now :: "'w \<Rightarrow> int"
  le_sleep :: "int \<Rightarrow> 'w \<Rightarrow> bool \<times> 'w"

definition run_done :: "'w loop_env \<Rightarrow> loop_controller \<Rightarrow> int \<Rightarrow> 'w \<Rightarrow> bool" where
  "run_done en lc start w \<longleftrightarrow> le_done en w \<or> lc_duration lc > 0 \<and> start + lc_duration lc \<le> le_now en w"

text \<open>\<^const>\<open>None\<close> is a loop that never ends.\<close>

partial_function (option) loop_run ::
  "'w loop_env \<Rightarrow> loop_controller \<Rightarrow> ('w \<Rightarrow> bool) \<Rightarrow> (('w \<Rightarrow> bool) \<Rightarrow> int \<Rightarrow> 'w \<Rightarrow> string option \<times> 'w)
    \<Rightarrow> int \<Rightarrow> 'w \<Rightarrow> (string option \<times> 'w) option" where
  "loop_run en lc stop pass n w =
     (if stop w then Some (None, w)
      else if lc_repeat lc > 0 \<and> n + 1 > lc_repeat lc then Some (None, w)
      else (let (p, w1) = pass stop (n + 1) w in
        if p \<noteq> None then Some (p, w1)
        else if lc_repeat lc > 0 \<and> n + 1 \<ge> lc_repeat lc then Some (None, w1)
        else if lc_interval lc > 0 then
          (let (d, w2) = le_sleep en (lc_interval lc) w1 in
           if d then Some (None, w2) else loop_run en lc stop pass (n + 1) w2)
        else loop_run en lc stop pass (n + 1) w1))"

definition Loop_Run ::
  "'w loop_env \<Rightarrow> loop_controller \<Rightarrow> (('w \<Rightarrow> bool) \<Rightarrow> int \<Rightarrow> 'w \<Rightarrow> string option \<times> 'w) \<Rightarrow> 'w
    \<Rightarrow> (string option \<times> 'w) option" where
  "Loop_Run en lc pass w = loop_run en lc (run_done en lc (le_now en w)) pass 0 w"

section \<open>The shuffle\<close>

lemma length_swap [simp]: "length (swap xs i j) = length xs"
  by (simp add: swap_def)

lemma nth_swap:
  "i < length xs \<Longrightarrow> j < length xs \<Longrightarrow> k < length xs \<Longrightarrow>
   swap xs i j ! k = (if k = j then xs ! i else if k = i then xs ! j else xs ! k)"
  by (simp add: swap_def nth_list_update)

lemma mset_swap_nth: "i < length xs \<Longrightarrow> j < length xs \<Longrightarrow> mset (swap xs i j) = mset xs"
  by (cases "i = j") (simp_all add: swap_def mset_swap)

lemma swap_swap: "i < length xs \<Longrightarrow> j < length xs \<Longrightarrow> swap (swap xs i j) i j = xs"
  by (intro nth_equalityI) (simp_all add: nth_swap)

lemma length_shuffle_loop [simp]: "length (shuffle_loop d n xs) = length xs"
  by (induction d n xs rule: shuffle_loop.induct) simp_all

text \<open>Positions above \<open>n\<close> are not touched.\<close>

lemma shuffle_loop_above:
  "(\<forall>i \<in> {1..n}. d i \<le> i) \<Longrightarrow> n < length xs \<Longrightarrow> n < k \<Longrightarrow> k < length xs \<Longrightarrow> shuffle_loop d n xs ! k = xs ! k"
proof (induction d n xs rule: shuffle_loop.induct)
  case (2 d i xs)
  have "d (Suc i) \<le> Suc i" using "2.prems"(1) by auto
  with 2 show ?case by (auto simp: nth_swap)
qed simp

lemma mset_shuffle_loop:
  "(\<forall>i \<in> {1..n}. d i \<le> i) \<Longrightarrow> n < length xs \<Longrightarrow> mset (shuffle_loop d n xs) = mset xs"
proof (induction d n xs rule: shuffle_loop.induct)
  case (2 d i xs)
  have "d (Suc i) \<le> Suc i" using "2.prems"(1) by auto
  with 2 show ?case by (simp add: mset_swap_nth)
qed simp

lemma shuffle_loop_inj:
  "(\<forall>i \<in> {1..n}. d i \<le> i) \<Longrightarrow> (\<forall>i \<in> {1..n}. d' i \<le> i) \<Longrightarrow> n < length xs \<Longrightarrow> distinct xs \<Longrightarrow>
   shuffle_loop d n xs = shuffle_loop d' n xs \<Longrightarrow> \<forall>i \<in> {1..n}. d i = d' i"
proof (induction n arbitrary: xs)
  case (Suc n)
  let ?xs = "swap xs (Suc n) (d (Suc n))" and ?xs' = "swap xs (Suc n) (d' (Suc n))"
  have b: "d (Suc n) \<le> Suc n" "d' (Suc n) \<le> Suc n" using Suc.prems(1,2) by auto
  have d: "\<forall>i \<in> {1..n}. d i \<le> i" "\<forall>i \<in> {1..n}. d' i \<le> i" using Suc.prems(1,2) by auto
  have "?xs ! Suc n = ?xs' ! Suc n"
    using shuffle_loop_above[OF d(1), of ?xs "Suc n"] shuffle_loop_above[OF d(2), of ?xs' "Suc n"] Suc.prems(3,5)
    by simp
  then have "xs ! d (Suc n) = xs ! d' (Suc n)" using b Suc.prems(3) by (simp add: nth_swap split: if_splits)
  then have e: "d (Suc n) = d' (Suc n)"
    using b Suc.prems(3,4) by (simp add: nth_eq_iff_index_eq)
  have "distinct ?xs"
    using Suc.prems(3,4) b by (metis mset_swap_nth le_less_trans mset_eq_imp_distinct_iff)
  then have "\<forall>i \<in> {1..n}. d i = d' i"
    using Suc.IH[OF d, of ?xs] Suc.prems(3,5) e by simp
  with e show ?case by (auto simp: le_Suc_eq)
qed simp

lemma shuffle_loop_surj:
  "n < length xs \<Longrightarrow> distinct xs \<Longrightarrow> mset ys = mset xs \<Longrightarrow> (\<forall>k. n < k \<and> k < length xs \<longrightarrow> ys ! k = xs ! k) \<Longrightarrow>
   \<exists>d. (\<forall>i \<in> {1..n}. d i \<le> i) \<and> shuffle_loop d n xs = ys"
proof (induction n arbitrary: xs)
  case 0
  have len: "length ys = length xs" using 0(3) by (metis size_mset)
  obtain x xs' where xs: "xs = x # xs'" using 0(1) by (cases xs) auto
  obtain y ys' where ys: "ys = y # ys'" using len xs by (cases ys) auto
  have "ys' = xs'" using 0(4) len xs ys by (intro nth_equalityI) (auto dest: spec[of _ "Suc _"])
  then have "ys = xs" using 0(3) xs ys by simp
  then show ?case by auto
next
  case (Suc n)
  have len: "length ys = length xs" using Suc.prems(3) by (metis size_mset)
  have "ys ! Suc n \<in> set xs" using Suc.prems(1,3) len by (metis nth_mem set_mset_mset)
  then obtain j where j: "j < length xs" "xs ! j = ys ! Suc n" by (auto simp: in_set_conv_nth)
  have dy: "distinct ys" using Suc.prems(2,3) by (metis mset_eq_imp_distinct_iff)
  have jn: "j \<le> Suc n"
  proof (rule ccontr)
    assume "\<not> j \<le> Suc n"
    then have "ys ! j = ys ! Suc n" using Suc.prems(4) j by simp
    then show False using dy j(1) len Suc.prems(1) \<open>\<not> j \<le> Suc n\<close> by (simp add: nth_eq_iff_index_eq)
  qed
  let ?xs = "swap xs (Suc n) j"
  have "distinct ?xs" "mset ys = mset ?xs"
    using Suc.prems(1-3) j(1) by (metis mset_swap_nth mset_eq_imp_distinct_iff)+
  moreover have "\<forall>k. n < k \<and> k < length ?xs \<longrightarrow> ys ! k = ?xs ! k"
    using Suc.prems(1,4) j jn by (auto simp: nth_swap)
  ultimately obtain d where d: "\<forall>i \<in> {1..n}. d i \<le> i" "shuffle_loop d n ?xs = ys"
    using Suc.IH[of ?xs] Suc.prems(1) by auto
  define e where "e = (\<lambda>i. if i = Suc n then j else d i)"
  have cong: "m \<le> n \<Longrightarrow> shuffle_loop e m zs = shuffle_loop d m zs" for m and zs :: "'a list"
    by (induction m arbitrary: zs) (auto simp: e_def)
  have "shuffle_loop e (Suc n) xs = ys" using d(2) cong[of n] by (simp add: e_def)
  moreover have "\<forall>i \<in> {1..Suc n}. e i \<le> i" using d(1) jn by (auto simp: e_def)
  ultimately show ?case by blast
qed

definition draws_ok :: "nat \<Rightarrow> (nat \<Rightarrow> nat) \<Rightarrow> bool" where
  "draws_ok cnt d \<longleftrightarrow> (\<forall>i \<in> {1..cnt - 1}. d i \<le> i) \<and> (\<forall>i. i \<notin> {1..cnt - 1} \<longrightarrow> d i = 0)"

text \<open>C25: random dispatch is a uniform shuffle. Whatever is drawn within bounds, the dispatcher runs
  every index exactly once; and each order of the indices comes from exactly one sequence of draws, so
  with uniform and independent draws all orders are equally likely.\<close>

theorem shuffle_uniform:
  "(draws_ok cnt d \<longrightarrow> mset (shuffle d cnt) = mset [0..<cnt])
   \<and> (mset ys = mset [0..<cnt] \<longrightarrow> (\<exists>!d. draws_ok cnt d \<and> shuffle d cnt = ys))"
proof (cases "cnt = 0")
  case True
  then show ?thesis by (auto simp: shuffle_def draws_ok_def)
next
  case False
  then have n: "cnt - 1 < length [0..<cnt]" by simp
  have perm: "draws_ok cnt d \<longrightarrow> mset (shuffle d cnt) = mset [0..<cnt]"
    using mset_shuffle_loop[OF _ n] by (simp add: draws_ok_def shuffle_def)
  have "\<exists>!d. draws_ok cnt d \<and> shuffle d cnt = ys" if ys: "mset ys = mset [0..<cnt]"
  proof -
    obtain d where d: "\<forall>i \<in> {1..cnt - 1}. d i \<le> i" "shuffle_loop d (cnt - 1) [0..<cnt] = ys"
      using shuffle_loop_surj[OF n distinct_upt ys] False by fastforce
    define e where "e i = (if i \<in> {1..cnt - 1} then d i else 0)" for i
    have cong: "m \<le> cnt - 1 \<Longrightarrow> shuffle_loop e m zs = shuffle_loop d m zs" for m and zs :: "nat list"
      by (induction m arbitrary: zs) (auto simp: e_def)
    have e: "draws_ok cnt e \<and> shuffle e cnt = ys"
      using d cong by (simp add: draws_ok_def shuffle_def) (simp add: e_def)
    moreover have "d' = e" if d': "draws_ok cnt d' \<and> shuffle d' cnt = ys" for d'
    proof
      fix i
      have "\<forall>i \<in> {1..cnt - 1}. d' i = e i"
        using shuffle_loop_inj[of "cnt - 1" d' e "[0..<cnt]"] d' e n by (simp add: draws_ok_def shuffle_def)
      then show "d' i = e i" using d' e by (cases "i \<in> {1..cnt - 1}") (auto simp: draws_ok_def)
    qed
    ultimately show ?thesis by blast
  qed
  with perm show ?thesis by blast
qed

theorem shuffle_uniform_witness: "mset (shuffle (\<lambda>_. 0) 3) = mset [0..<3]"
  using shuffle_uniform[of 3 "\<lambda>_. 0" "[]"] by (simp add: draws_ok_def)

section \<open>The passes of a loop\<close>

text \<open>The log of passes a pass function and a pause keep, and the progress they make on the clock.\<close>

definition logs_passes ::
  "'w loop_env \<Rightarrow> (('w \<Rightarrow> bool) \<Rightarrow> int \<Rightarrow> 'w \<Rightarrow> string option \<times> 'w) \<Rightarrow> ('w \<Rightarrow> int list) \<Rightarrow> bool" where
  "logs_passes en pass passes \<longleftrightarrow>
     (\<forall>stop n w. passes (snd (pass stop n w)) = passes w @ [n]) \<and>
     (\<forall>d w. passes (snd (le_sleep en d w)) = passes w)"

text \<open>A pass that is begun before the context is done takes time, and no pause goes back in time.\<close>

definition takes_time ::
  "'w loop_env \<Rightarrow> ('w \<Rightarrow> bool) \<Rightarrow> (('w \<Rightarrow> bool) \<Rightarrow> int \<Rightarrow> 'w \<Rightarrow> string option \<times> 'w) \<Rightarrow> bool" where
  "takes_time en stop pass \<longleftrightarrow>
     (\<forall>n w. \<not> stop w \<longrightarrow> le_now en w < le_now en (snd (pass stop n w))) \<and>
     (\<forall>d w. le_now en w \<le> le_now en (snd (le_sleep en d w)))"

lemma upto_append: "i \<le> j + 1 \<Longrightarrow> [i..j] @ [j + 1] = [i..j + 1]"
  by (simp add: upto_rec2)

definition cut_short :: "'w loop_env \<Rightarrow> loop_controller \<Rightarrow> ('w \<Rightarrow> bool) \<Rightarrow> 'w \<Rightarrow> bool" where
  "cut_short en lc stop w \<longleftrightarrow> stop w \<or> (\<exists>v. le_sleep en (lc_interval lc) v = (True, w))"

lemma loop_run_step:
  assumes "\<not> stop w" "\<not> (lc_repeat lc > 0 \<and> n + 1 > lc_repeat lc)" "pass stop (n + 1) w = (p, w1)"
    "le_sleep en (lc_interval lc) w1 = (d, w2)"
  shows "loop_run en lc stop pass n w =
    (if p \<noteq> None then Some (p, w1)
     else if lc_repeat lc > 0 \<and> n + 1 \<ge> lc_repeat lc then Some (None, w1)
     else if lc_interval lc > 0 then (if d then Some (None, w2) else loop_run en lc stop pass (n + 1) w2)
     else loop_run en lc stop pass (n + 1) w1)"
  by (subst loop_run.simps) (simp only: assms Let_def prod.case if_False)

lemma loop_run_bounded:
  assumes P: "logs_passes en pass passes" and "0 < lc_repeat lc" "0 \<le> n" "n \<le> lc_repeat lc" "passes w = ps @ [1..n]"
  shows "\<exists>r w' m. loop_run en lc stop pass n w = Some (r, w') \<and> passes w' = ps @ [1..m] \<and> m \<le> lc_repeat lc
    \<and> (m < lc_repeat lc \<longrightarrow> r \<noteq> None \<or> cut_short en lc stop w')"
  using assms(2-)
proof (induction "nat (lc_repeat lc - n)" arbitrary: n w rule: less_induct)
  case less
  show ?case
  proof (cases "stop w \<or> n + 1 > lc_repeat lc")
    case True
    with less.prems show ?thesis by (subst loop_run.simps) (auto simp: cut_short_def)
  next
    case False
    obtain p w1 where p: "pass stop (n + 1) w = (p, w1)" by fastforce
    have "passes (snd (pass stop (n + 1) w)) = passes w @ [n + 1]" using P by (simp add: logs_passes_def)
    with p less.prems have w1: "passes w1 = ps @ [1..n + 1]" by (simp add: upto_append)
    obtain d w2 where d: "le_sleep en (lc_interval lc) w1 = (d, w2)" by fastforce
    have "passes (snd (le_sleep en (lc_interval lc) w1)) = passes w1" using P by (simp add: logs_passes_def)
    with d w1 have w2: "passes w2 = ps @ [1..n + 1]" by simp
    have IH: "passes v = ps @ [1..n + 1] \<Longrightarrow> \<exists>r w' m. loop_run en lc stop pass (n + 1) v = Some (r, w')
        \<and> passes w' = ps @ [1..m] \<and> m \<le> lc_repeat lc
        \<and> (m < lc_repeat lc \<longrightarrow> r \<noteq> None \<or> cut_short en lc stop w')" for v
      using less.hyps[of "n + 1" v] less.prems False by simp
    have cut: "d \<Longrightarrow> cut_short en lc stop w2" using d by (auto simp: cut_short_def)
    have step: "loop_run en lc stop pass n w =
      (if p \<noteq> None then Some (p, w1)
       else if lc_repeat lc > 0 \<and> n + 1 \<ge> lc_repeat lc then Some (None, w1)
       else if lc_interval lc > 0 then (if d then Some (None, w2) else loop_run en lc stop pass (n + 1) w2)
       else loop_run en lc stop pass (n + 1) w1)"
      using False by (intro loop_run_step p d) auto
    consider "p \<noteq> None" | "p = None" "n + 1 = lc_repeat lc" | "p = None" "n + 1 < lc_repeat lc" "lc_interval lc > 0" "d"
      | "p = None" "n + 1 < lc_repeat lc" "lc_interval lc > 0" "\<not> d" | "p = None" "n + 1 < lc_repeat lc" "\<not> lc_interval lc > 0"
      using False by linarith
    then show ?thesis
    proof cases
      case 1 then show ?thesis using False w1 unfolding step by (intro exI[of _ p] exI[of _ w1] exI[of _ "n + 1"]) simp
    next
      case 2 then show ?thesis using less.prems w1 unfolding step by (intro exI[of _ p] exI[of _ w1] exI[of _ "n + 1"]) simp
    next
      case 3 then show ?thesis using cut w2 unfolding step by (intro exI[of _ p] exI[of _ w2] exI[of _ "n + 1"]) simp
    next
      case 4 then show ?thesis using IH[OF w2] unfolding step by simp
    next
      case 5 then show ?thesis using IH[OF w1] unfolding step by simp
    qed
  qed
qed

lemma loop_run_timed:
  assumes T: "takes_time en stop pass" and D: "\<And>v. start + lc_duration lc \<le> le_now en v \<Longrightarrow> stop v"
  shows "loop_run en lc stop pass n w \<noteq> None"
proof (induction "nat (start + lc_duration lc - le_now en w)" arbitrary: n w rule: less_induct)
  case less
  show ?case
  proof (cases "stop w")
    case True
    then show ?thesis by (subst loop_run.simps) simp
  next
    case False
    then have now: "le_now en w < start + lc_duration lc" using D by force
    obtain p w1 where p: "pass stop (n + 1) w = (p, w1)" by fastforce
    have w1: "le_now en w < le_now en w1" using T p False unfolding takes_time_def by (metis snd_conv)
    obtain d w2 where d: "le_sleep en (lc_interval lc) w1 = (d, w2)" by fastforce
    have w2: "le_now en w1 \<le> le_now en w2" using T d unfolding takes_time_def by (metis snd_conv)
    have "loop_run en lc stop pass (n + 1) w1 \<noteq> None" "loop_run en lc stop pass (n + 1) w2 \<noteq> None"
      using less.hyps[of w1] less.hyps[of w2] now w1 w2 by simp_all
    with False p d show ?thesis by (subst loop_run.simps) (simp add: Let_def)
  qed
qed

text \<open>The loop over the passes keeps its bounds. With a repeat count it ends after the passes 1, 2, and
  so on up to at most that count, and short of it only when a pass panicked, its context was done or the
  pause before the next pass was interrupted; with a time limit it ends as well, as long as passes take
  time.\<close>

theorem Loop_Run_bounded:
  "(logs_passes en pass passes \<and> 0 < lc_repeat lc \<longrightarrow>
     (\<exists>r w' m. Loop_Run en lc pass w = Some (r, w') \<and> passes w' = passes w @ [1..m] \<and> m \<le> lc_repeat lc
       \<and> (m < lc_repeat lc \<longrightarrow> r \<noteq> None \<or> cut_short en lc (run_done en lc (le_now en w)) w')))
   \<and> (takes_time en (run_done en lc (le_now en w)) pass \<and> 0 < lc_duration lc \<longrightarrow> Loop_Run en lc pass w \<noteq> None)"
proof (intro conjI impI)
  assume "logs_passes en pass passes \<and> 0 < lc_repeat lc"
  then show "\<exists>r w' m. Loop_Run en lc pass w = Some (r, w') \<and> passes w' = passes w @ [1..m] \<and> m \<le> lc_repeat lc
      \<and> (m < lc_repeat lc \<longrightarrow> r \<noteq> None \<or> cut_short en lc (run_done en lc (le_now en w)) w')"
    using loop_run_bounded[of en pass passes lc 0 w "passes w"] by (simp add: Loop_Run_def)
next
  assume "takes_time en (run_done en lc (le_now en w)) pass \<and> 0 < lc_duration lc"
  then show "Loop_Run en lc pass w \<noteq> None"
    unfolding Loop_Run_def by (intro loop_run_timed[where start = "le_now en w"]) (auto simp: run_done_def)
qed

text \<open>A world that is a clock and the list of passes run.\<close>

definition clock_loop_env :: "(int \<times> int list) loop_env" where
  "clock_loop_env = \<lparr>le_done = (\<lambda>_. False), le_now = fst, le_sleep = (\<lambda>d (t, ps). (False, (t + max 0 d, ps)))\<rparr>"

definition clock_pass :: "(int \<times> int list \<Rightarrow> bool) \<Rightarrow> int \<Rightarrow> int \<times> int list \<Rightarrow> string option \<times> (int \<times> int list)" where
  "clock_pass stop n w = (None, (fst w + 5, snd w @ [n]))"

theorem Loop_Run_bounded_witness:
  "(\<exists>r w' m. Loop_Run clock_loop_env (NewLoopController 3 0 10) clock_pass (0, []) = Some (r, w')
      \<and> snd w' = [1..m] \<and> m \<le> 3)
   \<and> Loop_Run clock_loop_env (NewLoopController 0 100 10) clock_pass (0, []) \<noteq> None"
proof -
  have P: "logs_passes clock_loop_env clock_pass snd" "takes_time clock_loop_env stop clock_pass" for stop
    by (simp_all add: logs_passes_def takes_time_def clock_loop_env_def clock_pass_def split_beta)
  have "lc_repeat (NewLoopController 3 0 10) = 3" "lc_duration (NewLoopController 0 100 10) = 100"
    by (simp_all add: NewLoopController_def)
  with P Loop_Run_bounded[of clock_loop_env clock_pass snd "NewLoopController 3 0 10" "(0, [])"]
    Loop_Run_bounded[of clock_loop_env clock_pass snd "NewLoopController 0 100 10" "(0, [])"]
  show ?thesis by (metis append_Nil snd_conv zero_less_numeral)
qed

section \<open>What dispatch and loop keep\<close>

text \<open>The contract between a dispatcher or a loop and what it is given to run: an invariant of every piece
  of work is one of the dispatch, and an invariant of every pass and every pause is one of the loop.\<close>

locale kept_work =
  fixes P :: "'w \<Rightarrow> bool"
    and work :: "nat \<Rightarrow> 'w \<Rightarrow> string option \<times> 'w"
  assumes work_keeps: "work i w = (p, w') \<Longrightarrow> P w \<Longrightarrow> P w'"
begin

lemma run_indices_keeps: "run_indices stop work is w = (p, w') \<Longrightarrow> P w \<Longrightarrow> P w'"
  by (induction "is" arbitrary: w) (auto split: if_splits prod.splits option.splits dest: work_keeps)

lemma run_all_keeps: "run_all stop work is w = (p, w') \<Longrightarrow> P w \<Longrightarrow> P w'"
proof (induction "is" arbitrary: w p w')
  case (Cons i "is")
  obtain q w1 where q: "work i w = (q, w1)" by fastforce
  obtain r w2 where r: "run_all stop work is w1 = (r, w2)" by fastforce
  show ?case
    using Cons.prems Cons.IH[OF r] q r work_keeps[OF q] by (cases "stop w") auto
qed simp

lemma weighted_keeps: "weighted_loop stop draw weights tot n work w = (p, w') \<Longrightarrow> P w \<Longrightarrow> P w'"
  by (induction n arbitrary: w) (auto split: if_splits prod.splits option.splits dest: work_keeps)

lemma Dispatch_keeps: "Dispatch en d cnt work w = (p, w') \<Longrightarrow> P w \<Longrightarrow> P w'"
  by (cases d)
     (auto simp: Sequential_Dispatch_def Random_Dispatch_def Weighted_Dispatch_def Let_def
       split: if_splits dest: run_indices_keeps run_all_keeps weighted_keeps)

end

locale kept_passes =
  fixes P :: "'w \<Rightarrow> bool"
    and en :: "'w loop_env"
    and pass :: "('w \<Rightarrow> bool) \<Rightarrow> int \<Rightarrow> 'w \<Rightarrow> string option \<times> 'w"
  assumes pass_keeps: "pass stop n w = (p, w') \<Longrightarrow> P w \<Longrightarrow> P w'"
    and sleep_keeps: "le_sleep en d w = (b, w') \<Longrightarrow> P w \<Longrightarrow> P w'"
begin

lemma loop_run_keeps:
  assumes "loop_run en lc stop pass n w = Some r" "P w"
  shows "P (snd r)"
proof -
  have "loop_run en lc stop pass n w = Some r \<Longrightarrow> en = en \<longrightarrow> pass = pass \<longrightarrow> P w \<longrightarrow> P (snd r)"
  proof (rule loop_run.raw_induct[where P = "\<lambda>en' lc stop pass' n w r. en' = en \<longrightarrow> pass' = pass \<longrightarrow> P w \<longrightarrow> P (snd r)"])
  fix f en' lc stop pass' n w r
  assume IH: "\<And>en' lc stop pass' n w r. f en' lc stop pass' n w = Some r \<Longrightarrow> en' = en \<longrightarrow> pass' = pass \<longrightarrow> P w \<longrightarrow> P (snd r)"
    and r: "(if stop w then Some (None, w)
        else if 0 < lc_repeat lc \<and> lc_repeat lc < n + 1 then Some (None, w)
        else let (p, w1) = pass' stop (n + 1) w
             in if p \<noteq> None then Some (p, w1)
                else if 0 < lc_repeat lc \<and> lc_repeat lc \<le> n + 1 then Some (None, w1)
                else if 0 < lc_interval lc
                then let (d, w2) = le_sleep en' (lc_interval lc) w1
                     in if d then Some (None, w2) else f en' lc stop pass' (n + 1) w2
                else f en' lc stop pass' (n + 1) w1) = Some r"
  show "en' = en \<longrightarrow> pass' = pass \<longrightarrow> P w \<longrightarrow> P (snd r)"
  proof (intro impI)
    assume e: "en' = en" "pass' = pass" and w: "P w"
    obtain p w1 where p: "pass stop (n + 1) w = (p, w1)" by fastforce
    have w1: "P w1" by (rule pass_keeps[OF p w])
    obtain d w2 where d: "le_sleep en (lc_interval lc) w1 = (d, w2)" by fastforce
    have w2: "P w2" by (rule sleep_keeps[OF d w1])
    note r' = r[unfolded e p d Let_def prod.case]
    have IH': "f en lc stop pass (n + 1) v = Some r \<Longrightarrow> P v \<Longrightarrow> P (snd r)" for v using IH by blast
    show "P (snd r)" using r' IH'[of w1] IH'[of w2] w w1 w2 by (auto split: if_splits)
  qed
  qed
  with assms show ?thesis by simp
qed

lemma Loop_Run_keeps: "Loop_Run en lc pass w = Some r \<Longrightarrow> P w \<Longrightarrow> P (snd r)"
  unfolding Loop_Run_def by (rule loop_run_keeps)

end

end
