(* ===== verification/Step_Systems.thy ===== *)
theory Step_Systems
  imports Go_Prelude
begin

text \<open>
  The contract of the parts of the program that are modelled as step relations and come to an end: in good states every step leads to a good
  state and takes some of a finite amount of work, and as long as the system is not over there is a step. The pool of suites, the concurrent
  dispatcher and the load test are interpretations, in the theories that model them.
\<close>

locale stopping_system =
  fixes step :: "'s \<Rightarrow> 's \<Rightarrow> bool"
    and good :: "'s \<Rightarrow> bool"
    and left :: "'s \<Rightarrow> nat"
    and over :: "'s \<Rightarrow> bool"
  assumes step_good: "good s \<Longrightarrow> step s t \<Longrightarrow> good t"
    and step_left: "good s \<Longrightarrow> step s t \<Longrightarrow> left t < left s"
    and can_step: "good s \<Longrightarrow> \<not> over s \<Longrightarrow> \<exists>t. step s t"
begin

lemma reach_good: "step\<^sup>*\<^sup>* s t \<Longrightarrow> good s \<Longrightarrow> good t"
  by (induction rule: rtranclp_induct) (auto intro: step_good)

lemma comes_to_end: "good s \<Longrightarrow> \<exists>t. step\<^sup>*\<^sup>* s t \<and> over t"
proof (induction "left s" arbitrary: s rule: less_induct)
  case less
  show ?case
  proof (cases "over s")
    case False
    then obtain t where t: "step s t" using can_step[OF less.prems] by blast
    from less.hyps[OF step_left[OF less.prems t] step_good[OF less.prems t]] t show ?thesis
      by (meson converse_rtranclp_into_rtranclp)
  qed blast
qed

lemma run_bounded:
  assumes "good (f 0)" "\<And>j. j < k \<Longrightarrow> step (f j) (f (Suc j))"
  shows "good (f k) \<and> k + left (f k) \<le> left (f 0)"
  using assms(2)
proof (induction k)
  case (Suc k)
  then have ih: "good (f k)" "k + left (f k) \<le> left (f 0)" and st: "step (f k) (f (Suc k))" by auto
  from step_left[OF ih(1) st] step_good[OF ih(1) st] ih(2) show ?case by simp
qed (use assms in simp)

lemma run_ends_over:
  assumes "good (f 0)" "\<And>j. j < k \<Longrightarrow> step (f j) (f (Suc j))"
  shows "k \<le> left (f 0) \<and> (over (f k) \<or> (\<exists>t. step (f k) t))"
  using run_bounded[OF assms] can_step by (meson add_leD1)

end

end
