(* ===== verification/Concurrent_Dispatch.thy ===== *)
theory Concurrent_Dispatch
  imports Dispatch Step_Systems
begin

text \<open>
  core/engine/dispatcher.go, \<open>ConcurrentDispatcher.Dispatch\<close>, as a step relation. The dispatching
  goroutine and the goroutines it starts interleave; the context may be cancelled at any moment. The
  semaphore is a channel of capacity \<open>c\<close>, of which only the number of tokens matters. A goroutine
  that is \<open>Begun\<close> has not looked at the context yet, one that is \<open>Working\<close> is inside the work
  function, one that is \<open>Leaving\<close> runs its deferred calls: it takes a token from the channel, waiting for
  one if there is none, and then calls \<open>wg.Done\<close>. After \<open>wg.Wait\<close> the dispatching goroutine leaves the
  function, with a panic of its own if any was recorded: \<open>cd_raised\<close> is the item whose panic value it
  raises again.
\<close>

datatype main_phase = Looping | Selecting | Selected | Waiting | Returned

datatype worker_phase = Begun | Working | Leaving

record cd_state =
  cd_main :: main_phase
  cd_next :: nat
  cd_sem :: nat
  cd_workers :: "nat \<rightharpoonup> worker_phase"
  cd_cancelled :: bool
  cd_ran :: "nat list"
  cd_panics :: "nat list"
  cd_raised :: "nat option"

definition cd_start :: cd_state where
  "cd_start = \<lparr>cd_main = Looping, cd_next = 0, cd_sem = 0, cd_workers = Map.empty, cd_cancelled = False,
     cd_ran = [], cd_panics = [], cd_raised = None\<rparr>"

text \<open>The context's own step is \<open>cancel\<close>; the rest is the code's. \<open>panicking i\<close> says whether the work
  on item \<open>i\<close> panics.\<close>

inductive cd_step :: "nat \<Rightarrow> nat \<Rightarrow> (nat \<Rightarrow> bool) \<Rightarrow> cd_state \<Rightarrow> cd_state \<Rightarrow> bool"
  for c cnt panicking where
  stop_all: "cd_main s = Looping \<Longrightarrow> cd_next s \<ge> cnt \<Longrightarrow> cd_step c cnt panicking s (s\<lparr>cd_main := Waiting\<rparr>)"
| stop_cancelled: "cd_main s = Looping \<Longrightarrow> cd_next s < cnt \<Longrightarrow> cd_cancelled s \<Longrightarrow>
    cd_step c cnt panicking s (s\<lparr>cd_main := Waiting\<rparr>)"
| enter: "cd_main s = Looping \<Longrightarrow> cd_next s < cnt \<Longrightarrow> \<not> cd_cancelled s \<Longrightarrow>
    cd_step c cnt panicking s (s\<lparr>cd_main := Selecting\<rparr>)"
| acquire: "cd_main s = Selecting \<Longrightarrow> cd_sem s < c \<Longrightarrow>
    cd_step c cnt panicking s (s\<lparr>cd_main := Selected, cd_sem := cd_sem s + 1\<rparr>)"
| select_done: "cd_main s = Selecting \<Longrightarrow> cd_cancelled s \<Longrightarrow>
    cd_step c cnt panicking s (s\<lparr>cd_main := Selected\<rparr>)"
| drain: "cd_main s = Selected \<Longrightarrow> cd_cancelled s \<Longrightarrow>
    cd_step c cnt panicking s (s\<lparr>cd_main := Waiting, cd_sem := cd_sem s - 1\<rparr>)"
| launch: "cd_main s = Selected \<Longrightarrow> \<not> cd_cancelled s \<Longrightarrow>
    cd_step c cnt panicking s
      (s\<lparr>cd_main := Looping, cd_next := cd_next s + 1, cd_workers := (cd_workers s)(cd_next s \<mapsto> Begun)\<rparr>)"
| skip: "cd_workers s i = Some Begun \<Longrightarrow> cd_cancelled s \<Longrightarrow>
    cd_step c cnt panicking s (s\<lparr>cd_workers := (cd_workers s)(i \<mapsto> Leaving)\<rparr>)"
| begin_work: "cd_workers s i = Some Begun \<Longrightarrow> \<not> cd_cancelled s \<Longrightarrow>
    cd_step c cnt panicking s (s\<lparr>cd_workers := (cd_workers s)(i \<mapsto> Working), cd_ran := cd_ran s @ [i]\<rparr>)"
| end_work: "cd_workers s i = Some Working \<Longrightarrow>
    cd_step c cnt panicking s
      (s\<lparr>cd_workers := (cd_workers s)(i \<mapsto> Leaving),
         cd_panics := (if panicking i then cd_panics s @ [i] else cd_panics s)\<rparr>)"
| release: "cd_workers s i = Some Leaving \<Longrightarrow> cd_sem s > 0 \<Longrightarrow>
    cd_step c cnt panicking s (s\<lparr>cd_workers := (cd_workers s)(i := None), cd_sem := cd_sem s - 1\<rparr>)"
| return: "cd_main s = Waiting \<Longrightarrow> cd_workers s = Map.empty \<Longrightarrow>
    cd_step c cnt panicking s
      (s\<lparr>cd_main := Returned, cd_raised := (if cd_panics s \<noteq> [] then Some (cd_panics s ! 0) else None)\<rparr>)"

inductive cd_reach :: "nat \<Rightarrow> nat \<Rightarrow> (nat \<Rightarrow> bool) \<Rightarrow> cd_state \<Rightarrow> cd_state \<Rightarrow> bool" for c cnt panicking where
  here: "cd_reach c cnt panicking s s"
| move: "cd_reach c cnt panicking s t \<Longrightarrow> cd_step c cnt panicking t u \<Longrightarrow> cd_reach c cnt panicking s u"
| cancel: "cd_reach c cnt panicking s t \<Longrightarrow> cd_reach c cnt panicking s (t\<lparr>cd_cancelled := True\<rparr>)"

section \<open>What every interleaving keeps\<close>

definition busy :: "cd_state \<Rightarrow> nat" where
  "busy s = card (dom (cd_workers s))"

text \<open>Tokens: one for every goroutine that has not released its own, and one for the dispatcher between
  the select and the launch, as long as the context is not cancelled.\<close>

definition slots_ok :: "nat \<Rightarrow> nat \<Rightarrow> cd_state \<Rightarrow> bool" where
  "slots_ok c cnt s \<longleftrightarrow>
     dom (cd_workers s) \<subseteq> {..<cd_next s} \<and> cd_next s \<le> cnt \<and> busy s \<le> c \<and> cd_sem s \<le> c \<and>
     (cd_main s \<in> {Selecting, Selected} \<longrightarrow> cd_next s < cnt) \<and>
     (cd_main s = Returned \<longrightarrow> cd_workers s = Map.empty) \<and>
     (cd_main s \<in> {Looping, Selecting} \<longrightarrow> cd_sem s = busy s) \<and>
     (\<not> cd_cancelled s \<longrightarrow>
        cd_sem s = busy s + (if cd_main s = Selected then 1 else 0) \<and>
        (cd_main s \<in> {Waiting, Returned} \<longrightarrow> cd_next s = cnt))"

text \<open>Items: started in order, worked on at most once; every panic is recorded.\<close>

definition items_ok :: "(nat \<Rightarrow> bool) \<Rightarrow> cd_state \<Rightarrow> bool" where
  "items_ok panicking s \<longleftrightarrow>
     dom (cd_workers s) \<subseteq> {..<cd_next s} \<and> distinct (cd_ran s) \<and> set (cd_ran s) \<subseteq> {..<cd_next s} \<and>
     (\<forall>i. cd_workers s i = Some Begun \<longrightarrow> i \<notin> set (cd_ran s)) \<and>
     (\<forall>i. cd_workers s i = Some Working \<longrightarrow> i \<in> set (cd_ran s)) \<and>
     (\<not> cd_cancelled s \<longrightarrow> {i. i < cd_next s \<and> cd_workers s i \<noteq> Some Begun} \<subseteq> set (cd_ran s)) \<and>
     set (cd_panics s) = {i \<in> set (cd_ran s). panicking i \<and> cd_workers s i \<noteq> Some Working}"

lemma dom_change: "m i = Some y \<Longrightarrow> dom (m(i \<mapsto> x)) = dom m"
  by auto

lemma not_empty: "m i = Some y \<Longrightarrow> m \<noteq> Map.empty"
  by auto

lemma card_dom_new: "dom m \<subseteq> {..<n::nat} \<Longrightarrow> card (dom (m(n \<mapsto> x))) = Suc (card (dom m))"
proof -
  assume d: "dom m \<subseteq> {..<n::nat}"
  then have n: "n \<notin> dom m" by (metis lessThan_iff less_irrefl subsetD)
  have "finite (dom m)" by (rule finite_subset[OF d]) simp
  with n show ?thesis by simp
qed

lemma card_dom_gone: "dom m \<subseteq> {..<n::nat} \<Longrightarrow> m i = Some y \<Longrightarrow> Suc (card (dom (m(i := None)))) = card (dom m)"
proof -
  assume d: "dom m \<subseteq> {..<n::nat}" and i: "m i = Some y"
  have "finite (dom m)" by (rule finite_subset[OF d]) simp
  with i have "Suc (card (dom m - {i})) = card (dom m)" by (intro card_Suc_Diff1) auto
  then show ?thesis by simp
qed

lemma slots_start: "slots_ok c cnt cd_start"
  by (simp add: slots_ok_def cd_start_def busy_def)

lemma slots_step:
  assumes s: "slots_ok c cnt s" and "cd_step c cnt panicking s t"
  shows "slots_ok c cnt t"
  using assms(2)
proof (cases rule: cd_step.cases)
  case stop_all
  with s show ?thesis by (auto simp add: slots_ok_def busy_def dom_change del: dom_fun_upd)
next
  case stop_cancelled
  with s show ?thesis by (simp add: slots_ok_def busy_def dom_change del: dom_fun_upd)
next
  case enter
  with s show ?thesis by (simp add: slots_ok_def busy_def dom_change del: dom_fun_upd)
next
  case acquire
  with s show ?thesis by (simp add: slots_ok_def busy_def dom_change del: dom_fun_upd)
next
  case select_done
  with s show ?thesis by (simp add: slots_ok_def busy_def dom_change del: dom_fun_upd)
next
  case drain
  with s show ?thesis by (auto simp add: slots_ok_def busy_def dom_change del: dom_fun_upd)
next
  case launch
  with s card_dom_new[of "cd_workers s" "cd_next s" Begun] show ?thesis
    by (simp add: slots_ok_def busy_def del: dom_fun_upd) auto
next
  case (skip i)
  with s have "cd_main s \<noteq> Returned" by (auto simp: slots_ok_def)
  with s skip show ?thesis by (simp add: slots_ok_def busy_def dom_change del: dom_fun_upd)
next
  case (begin_work i)
  with s have "cd_main s \<noteq> Returned" by (auto simp: slots_ok_def)
  with s begin_work show ?thesis by (simp add: slots_ok_def busy_def dom_change del: dom_fun_upd)
next
  case (end_work i)
  with s have "cd_main s \<noteq> Returned" by (auto simp: slots_ok_def)
  with s end_work show ?thesis by (simp add: slots_ok_def busy_def dom_change del: dom_fun_upd)
next
  case (release i)
  then have t: "cd_main t = cd_main s" "cd_next t = cd_next s" "cd_sem t = cd_sem s - 1"
    "cd_cancelled t = cd_cancelled s" "dom (cd_workers t) \<subseteq> dom (cd_workers s)" by auto
  have "busy s = Suc (busy t)"
    using s release card_dom_gone[of "cd_workers s" "cd_next s" i Leaving] by (simp add: slots_ok_def busy_def)
  moreover have "cd_main s \<noteq> Returned" using s release by (auto simp: slots_ok_def)
  moreover have "dom (cd_workers t) \<subseteq> {..<cd_next s}" using s t(5) by (auto simp only: slots_ok_def)
  ultimately show ?thesis using s unfolding slots_ok_def t(1-4) by auto
next
  case return
  with s show ?thesis by (simp add: slots_ok_def busy_def dom_change del: dom_fun_upd)
qed

lemma items_start: "items_ok panicking cd_start"
  by (simp add: items_ok_def cd_start_def)

lemma items_step: "items_ok panicking s \<Longrightarrow> cd_step c cnt panicking s t \<Longrightarrow> items_ok panicking t"
  by (erule cd_step.cases) (auto simp: items_ok_def split: if_splits)

text \<open>The dispatch raises a panic only when it leaves, and then the first that was recorded.\<close>

definition raise_ok :: "cd_state \<Rightarrow> bool" where
  "raise_ok s \<longleftrightarrow> cd_raised s =
     (if cd_main s = Returned \<and> cd_panics s \<noteq> [] then Some (cd_panics s ! 0) else None)"

lemma raise_start: "raise_ok cd_start"
  by (simp add: raise_ok_def cd_start_def)

lemma raise_step: "raise_ok s \<Longrightarrow> slots_ok c cnt s \<Longrightarrow> cd_step c cnt panicking s t \<Longrightarrow> raise_ok t"
  by (erule cd_step.cases) (auto simp: raise_ok_def slots_ok_def)

lemma slots_reach: "cd_reach c cnt panicking s t \<Longrightarrow> slots_ok c cnt s \<Longrightarrow> slots_ok c cnt t"
proof (induction rule: cd_reach.induct)
  case (cancel s t)
  then show ?case by (simp add: slots_ok_def busy_def)
qed (auto intro: slots_step)

lemma items_reach: "cd_reach c cnt panicking s t \<Longrightarrow> items_ok panicking s \<Longrightarrow> items_ok panicking t"
proof (induction rule: cd_reach.induct)
  case (cancel s t)
  then show ?case by (simp add: items_ok_def)
qed (auto intro: items_step)

lemma raise_reach: "cd_reach c cnt panicking s t \<Longrightarrow> slots_ok c cnt s \<Longrightarrow> raise_ok s \<Longrightarrow> raise_ok t"
proof (induction rule: cd_reach.induct)
  case (move s t u)
  then show ?case by (blast intro: raise_step slots_reach)
next
  case (cancel s t)
  then show ?case by (simp add: raise_ok_def)
qed


section \<open>Serial executions\<close>

text \<open>The execution in which every item is done before the next is begun, which theory Dispatch runs: it is
  one of the dispatcher's, whatever the concurrency, and raises the panic of the first item that panics.\<close>

lemma reach_step: "cd_reach c cnt panicking s t \<Longrightarrow> cd_step c cnt panicking t u \<Longrightarrow> u = v \<Longrightarrow> cd_reach c cnt panicking s v"
  by (simp add: move)

definition served :: "(nat \<Rightarrow> bool) \<Rightarrow> nat \<Rightarrow> cd_state" where
  "served panicking k = cd_start\<lparr>cd_next := k, cd_ran := [0..<k], cd_panics := filter panicking [0..<k]\<rparr>"

lemma serve_one:
  assumes "1 \<le> c" "k < cnt" "cd_reach c cnt panicking cd_start (served panicking k)"
  shows "cd_reach c cnt panicking cd_start (served panicking (Suc k))"
proof -
  note d = served_def cd_start_def
  let ?s = "served panicking k"
  have "cd_reach c cnt panicking cd_start (?s\<lparr>cd_main := Selecting\<rparr>)"
    by (rule reach_step[OF assms(3) enter]) (use assms(2) in \<open>simp_all add: d\<close>)
  then have "cd_reach c cnt panicking cd_start (?s\<lparr>cd_main := Selected, cd_sem := 1\<rparr>)"
    by (rule reach_step[OF _ acquire]) (use assms(1) in \<open>simp_all add: d\<close>)
  then have "cd_reach c cnt panicking cd_start (?s\<lparr>cd_sem := 1, cd_next := Suc k, cd_workers := [k \<mapsto> Begun]\<rparr>)"
    by (rule reach_step[OF _ launch]) (simp_all add: d)
  then have "cd_reach c cnt panicking cd_start
      (?s\<lparr>cd_sem := 1, cd_next := Suc k, cd_workers := [k \<mapsto> Working], cd_ran := [0..<Suc k]\<rparr>)"
    by (rule reach_step[OF _ begin_work[where i = k]]) (simp_all add: d)
  then have "cd_reach c cnt panicking cd_start
      (?s\<lparr>cd_sem := 1, cd_next := Suc k, cd_workers := [k \<mapsto> Leaving], cd_ran := [0..<Suc k], cd_panics := filter panicking [0..<Suc k]\<rparr>)"
    by (rule reach_step[OF _ end_work[where i = k]]) (simp_all add: d)
  then show ?thesis
    by (rule reach_step[OF _ release[where i = k]]) (simp_all add: d fun_eq_iff)
qed

lemma serial_execution:
  assumes "1 \<le> c"
  shows "\<exists>s. cd_reach c cnt panicking cd_start s \<and> cd_main s = Returned \<and> cd_ran s = [0..<cnt]
    \<and> cd_raised s = find panicking [0..<cnt]"
proof -
  have "k \<le> cnt \<Longrightarrow> cd_reach c cnt panicking cd_start (served panicking k)" for k
    by (induction k) (simp add: served_def cd_start_def here, use assms in \<open>simp add: serve_one\<close>)
  then have "cd_reach c cnt panicking cd_start (served panicking cnt)" by simp
  then have w: "cd_reach c cnt panicking cd_start ((served panicking cnt)\<lparr>cd_main := Waiting\<rparr>)"
    by (rule reach_step[OF _ stop_all]) (simp_all add: served_def cd_start_def)
  have f: "find panicking xs = (if filter panicking xs \<noteq> [] then Some (filter panicking xs ! 0) else None)" for xs
    by (induction xs) auto
  have "cd_reach c cnt panicking cd_start
      ((served panicking cnt)\<lparr>cd_main := Returned, cd_raised := find panicking [0..<cnt]\<rparr>)"
    by (intro reach_step[OF w return]) (simp_all add: served_def cd_start_def f)
  then show ?thesis
    by (intro exI[of _ "(served panicking cnt)\<lparr>cd_main := Returned, cd_raised := find panicking [0..<cnt]\<rparr>"])
      (simp add: served_def cd_start_def)
qed

section \<open>Progress\<close>

text \<open>What is left to do; every step of the code takes some of it.\<close>

fun main_left :: "main_phase \<Rightarrow> nat" where
  "main_left Returned = 0"
| "main_left Waiting = 1"
| "main_left Selected = 2"
| "main_left Selecting = 3"
| "main_left Looping = 4"

fun worker_left :: "worker_phase option \<Rightarrow> nat" where
  "worker_left None = 0"
| "worker_left (Some Leaving) = 1"
| "worker_left (Some Working) = 2"
| "worker_left (Some Begun) = 3"

definition work_left :: "nat \<Rightarrow> cd_state \<Rightarrow> nat" where
  "work_left cnt s = 6 * (cnt - cd_next s) + main_left (cd_main s) + (\<Sum>i<cnt. worker_left (cd_workers s i))"

lemma workers_left_upd:
  "i < (cnt::nat) \<Longrightarrow> (\<Sum>j<cnt. worker_left ((m(i := x)) j)) + worker_left (m i) = (\<Sum>j<cnt. worker_left (m j)) + worker_left x"
proof -
  assume i: "i < (cnt::nat)"
  have "(\<Sum>j<cnt. worker_left ((m(i := x)) j)) = worker_left x + (\<Sum>j \<in> {..<cnt} - {i}. worker_left ((m(i := x)) j))"
    using i by (subst sum.remove[of _ i]) auto
  moreover have "(\<Sum>j<cnt. worker_left (m j)) = worker_left (m i) + (\<Sum>j \<in> {..<cnt} - {i}. worker_left (m j))"
    using i by (subst sum.remove[of _ i]) auto
  moreover have "(\<Sum>j \<in> {..<cnt} - {i}. worker_left ((m(i := x)) j)) = (\<Sum>j \<in> {..<cnt} - {i}. worker_left (m j))"
    by (intro sum.cong) auto
  ultimately show ?thesis by simp
qed

lemma worker_moves:
  assumes "i < cnt" "cd_workers t = (cd_workers s)(i := x)" "worker_left x < worker_left (cd_workers s i)"
    "cd_main t = cd_main s" "cd_next t = cd_next s"
  shows "work_left cnt t < work_left cnt s"
  using workers_left_upd[OF assms(1), of "cd_workers s" x] assms(3) unfolding work_left_def assms(2,4,5) by linarith

lemma work_left_step:
  assumes s: "slots_ok c cnt s" and st: "cd_step c cnt panicking s t"
  shows "work_left cnt t < work_left cnt s"
proof -
  have sub: "dom (cd_workers s) \<subseteq> {..<cd_next s}" and n: "cd_next s \<le> cnt" using s by (simp_all add: slots_ok_def)
  have dm: "i < cnt" if "cd_workers s i = Some y" for i y
  proof -
    have "i \<in> dom (cd_workers s)" using that by auto
    with sub n show ?thesis by auto
  qed
  have fresh: "cd_workers s (cd_next s) = None" using sub by (auto simp: domIff[symmetric])
  show ?thesis
    using st
  proof (cases rule: cd_step.cases)
    case launch
    then have "cd_next s < cnt" using s by (simp add: slots_ok_def)
    then obtain k where k: "cnt - cd_next s = Suc k" "cnt - cd_next t = k"
      using launch by (auto simp: Suc_diff_Suc intro: that[of "cnt - Suc (cd_next s)"])
    have "(\<Sum>j<cnt. worker_left (((cd_workers s)(cd_next s \<mapsto> Begun)) j)) = (\<Sum>j<cnt. worker_left (cd_workers s j)) + 3"
      using workers_left_upd[OF \<open>cd_next s < cnt\<close>, of "cd_workers s" "Some Begun"] fresh by (simp del: fun_upd_apply)
    moreover have "cd_workers t = (cd_workers s)(cd_next s \<mapsto> Begun)" "main_left (cd_main t) = 4" "main_left (cd_main s) = 2"
      by (simp_all add: launch)
    ultimately show ?thesis unfolding work_left_def k by (simp del: fun_upd_apply)
  next
    case (skip i) then show ?thesis by (intro worker_moves[of i _ _ _ "Some Leaving"]) (auto intro: dm)
  next
    case (begin_work i) then show ?thesis by (intro worker_moves[of i _ _ _ "Some Working"]) (auto intro: dm)
  next
    case (end_work i) then show ?thesis by (intro worker_moves[of i _ _ _ "Some Leaving"]) (auto intro: dm)
  next
    case (release i) then show ?thesis by (intro worker_moves[of i _ _ _ None]) (auto intro: dm)
  qed (simp_all add: work_left_def)
qed

lemma uncancelled_moves:
  assumes s: "slots_ok c cnt s" and c: "1 \<le> c" "\<not> cd_cancelled s" "cd_main s \<noteq> Returned"
  shows "\<exists>t. cd_step c cnt panicking s t"
proof (cases "\<exists>i. cd_workers s i \<noteq> None")
  case True
  then obtain i p where i: "cd_workers s i = Some p" by blast
  have "finite (dom (cd_workers s))" using s by (auto simp: slots_ok_def intro: finite_subset)
  with i have "busy s \<noteq> 0" by (auto simp: busy_def)
  with s c have "cd_sem s > 0" by (simp add: slots_ok_def)
  with i c show ?thesis by (cases p) (blast intro: cd_step.intros)+
next
  case False
  then have e: "cd_workers s = Map.empty" by auto
  then have "busy s = 0" by (simp add: busy_def)
  with s c have "cd_main s = Selecting \<Longrightarrow> cd_sem s < c" by (simp add: slots_ok_def)
  with e c show ?thesis by (cases "cd_main s"; cases "cd_next s < cnt") (auto intro: cd_step.intros simp: not_less)
qed

lemma cd_step_keeps_context: "cd_step c cnt panicking s t \<Longrightarrow> cd_cancelled t = cd_cancelled s"
  by (erule cd_step.cases) simp_all

interpretation dispatches: stopping_system "cd_step c cnt panicking" "\<lambda>s. slots_ok c cnt s \<and> \<not> cd_cancelled s \<and> 1 \<le> c" "work_left cnt"
    "\<lambda>s. cd_main s = Returned" for c cnt panicking
  by unfold_locales (auto intro: slots_step work_left_step uncancelled_moves simp: cd_step_keeps_context)

text \<open>C6: a concurrent dispatch that is not cancelled returns: as long as it has not returned some
  goroutine can move, every step of any of them takes some of the finite work left, and so it can get to its return.\<close>

theorem concurrent_dispatch_returns:
  assumes "cd_reach c cnt panicking cd_start s" "1 \<le> c"
  shows "(\<not> cd_cancelled s \<and> cd_main s \<noteq> Returned \<longrightarrow> (\<exists>t. cd_step c cnt panicking s t))
    \<and> (\<forall>t. cd_step c cnt panicking s t \<longrightarrow> work_left cnt t < work_left cnt s)
    \<and> (\<not> cd_cancelled s \<longrightarrow> (\<exists>t. (cd_step c cnt panicking)\<^sup>*\<^sup>* s t \<and> cd_main t = Returned))"
  using slots_reach[OF assms(1) slots_start] assms(2) uncancelled_moves work_left_step
    dispatches.comes_to_end[of c cnt s panicking] by blast

section \<open>Cancellation\<close>

text \<open>A dispatcher that gave up with fewer tokens in the channel than goroutines that need one.\<close>

definition starved :: "cd_state \<Rightarrow> bool" where
  "starved s \<longleftrightarrow> cd_main s = Waiting \<and> cd_cancelled s \<and> finite (dom (cd_workers s)) \<and> cd_sem s < busy s"

definition never_returns :: "nat \<Rightarrow> nat \<Rightarrow> (nat \<Rightarrow> bool) \<Rightarrow> cd_state \<Rightarrow> bool" where
  "never_returns c cnt panicking s \<longleftrightarrow> (\<forall>t. cd_reach c cnt panicking s t \<longrightarrow> cd_main t \<noteq> Returned)"

lemma starved_step:
  assumes s: "starved s" and "cd_step c cnt panicking s t"
  shows "starved t"
  using assms(2)
proof (cases rule: cd_step.cases)
  case (release i)
  then have "i \<in> dom (cd_workers s)" by auto
  with s release have "busy s = Suc (busy t)"
    by (simp add: busy_def starved_def card_Suc_Diff1 del: card_Diff_insert)
  moreover have "cd_sem s = Suc (cd_sem t)" using release by simp
  ultimately have "cd_sem t < busy t" using s by (simp add: starved_def)
  with s release show ?thesis by (simp add: starved_def)
next
  case return
  with s show ?thesis by (simp add: starved_def busy_def)
qed (use s in \<open>simp_all add: starved_def busy_def insert_absorb domI\<close>)

lemma starved_cancel: "starved s \<Longrightarrow> starved (s\<lparr>cd_cancelled := True\<rparr>)"
  by (simp add: starved_def busy_def)

lemma starved_reach: "cd_reach c cnt panicking s t \<Longrightarrow> starved s \<Longrightarrow> starved t"
  by (induction rule: cd_reach.induct) (blast intro: starved_step starved_cancel)+

text \<open>C8: cancelling a concurrent dispatch can hang it. When the context is cancelled while the dispatcher
  waits for a slot and some goroutine has not finished, the select may see the cancellation without having put a
  token into the channel; the drain that follows then takes the token of a running goroutine, whose
  deferred release waits for ever, and so does the dispatcher.\<close>

theorem cancelled_dispatch_hangs:
  assumes "cd_reach c cnt panicking cd_start s" "cd_main s = Selecting" "cd_cancelled s" "cd_workers s \<noteq> Map.empty"
  shows "\<exists>t. cd_reach c cnt panicking s t \<and> never_returns c cnt panicking t"
proof -
  let ?t = "s\<lparr>cd_main := Selected\<rparr>"
  let ?u = "?t\<lparr>cd_main := Waiting, cd_sem := cd_sem ?t - 1\<rparr>"
  have S: "slots_ok c cnt s" by (rule slots_reach[OF assms(1) slots_start])
  have f: "finite (dom (cd_workers s))" using S by (auto simp: slots_ok_def intro: finite_subset)
  then have "busy s > 0" using assms(4) by (auto simp: busy_def card_gt_0_iff)
  moreover have "cd_sem s = busy s" using S assms(2) by (simp add: slots_ok_def)
  ultimately have "starved ?u" using f assms(3) by (simp add: starved_def busy_def)
  then have "never_returns c cnt panicking ?u" using starved_reach by (fastforce simp: never_returns_def starved_def)
  moreover have "cd_reach c cnt panicking s ?t" using assms by (intro cd_reach.move[OF cd_reach.here] select_done)
  then have "cd_reach c cnt panicking s ?u" using assms by (intro cd_reach.move[OF _ drain]) simp_all
  ultimately show ?thesis by blast
qed

text \<open>One slot, two items: the context is cancelled while the first is worked on.\<close>

definition cd_full :: cd_state where
  "cd_full = \<lparr>cd_main = Selecting, cd_next = 1, cd_sem = 1, cd_workers = [0 \<mapsto> Working], cd_cancelled = False,
     cd_ran = [0], cd_panics = [], cd_raised = None\<rparr>"

lemma cd_full_reach: "cd_reach 1 2 panicking cd_start cd_full"
proof -
  have "cd_reach 1 2 panicking cd_start (cd_start\<lparr>cd_main := Selecting\<rparr>)"
    by (rule move[OF here enter]) (simp_all add: cd_start_def)
  then have "cd_reach 1 2 panicking cd_start (cd_start\<lparr>cd_main := Selected, cd_sem := 1\<rparr>)"
    by (rule move) (use acquire[of "cd_start\<lparr>cd_main := Selecting\<rparr>" 1 2 panicking] in \<open>simp add: cd_start_def\<close>)
  then have "cd_reach 1 2 panicking cd_start
      (cd_start\<lparr>cd_main := Looping, cd_sem := 1, cd_next := 1, cd_workers := [0 \<mapsto> Begun]\<rparr>)"
    by (rule move) (use launch[of "cd_start\<lparr>cd_main := Selected, cd_sem := 1\<rparr>" 1 2 panicking] in \<open>simp add: cd_start_def\<close>)
  then have "cd_reach 1 2 panicking cd_start
      (cd_start\<lparr>cd_main := Looping, cd_sem := 1, cd_next := 1, cd_workers := [0 \<mapsto> Working], cd_ran := [0]\<rparr>)"
    by (rule move) (use begin_work[of "cd_start\<lparr>cd_main := Looping, cd_sem := 1, cd_next := 1, cd_workers := [0 \<mapsto> Begun]\<rparr>" 0 1 2 panicking]
      in \<open>simp add: cd_start_def\<close>)
  then show ?thesis
    by (rule move) (use enter[of "cd_start\<lparr>cd_main := Looping, cd_sem := 1, cd_next := 1, cd_workers := [0 \<mapsto> Working], cd_ran := [0]\<rparr>" 2 1 panicking]
      in \<open>simp add: cd_start_def cd_full_def\<close>)
qed

text \<open>One item, which panics: the dispatch is left with that panic.\<close>

definition cd_failed :: cd_state where
  "cd_failed = \<lparr>cd_main = Returned, cd_next = 1, cd_sem = 0, cd_workers = Map.empty, cd_cancelled = False,
     cd_ran = [0], cd_panics = [0], cd_raised = Some 0\<rparr>"

lemma cd_failed_reach: "cd_reach 1 1 (\<lambda>_. True) cd_start cd_failed"
proof -
  have "cd_reach 1 1 (\<lambda>_. True) cd_start
    \<lparr>cd_main = Selecting, cd_next = 0, cd_sem = 0, cd_workers = Map.empty, cd_cancelled = False,
     cd_ran = [], cd_panics = [], cd_raised = None\<rparr>"
    by (rule reach_step[OF here enter]) (simp_all add: cd_start_def)
  then have "cd_reach 1 1 (\<lambda>_. True) cd_start
    \<lparr>cd_main = Selected, cd_next = 0, cd_sem = 1, cd_workers = Map.empty, cd_cancelled = False,
     cd_ran = [], cd_panics = [], cd_raised = None\<rparr>"
    by (rule reach_step[OF _ acquire]) simp_all
  then have "cd_reach 1 1 (\<lambda>_. True) cd_start
    \<lparr>cd_main = Looping, cd_next = 1, cd_sem = 1, cd_workers = [0 \<mapsto> Begun], cd_cancelled = False,
     cd_ran = [], cd_panics = [], cd_raised = None\<rparr>"
    by (rule reach_step[OF _ launch]) simp_all
  then have "cd_reach 1 1 (\<lambda>_. True) cd_start
    \<lparr>cd_main = Looping, cd_next = 1, cd_sem = 1, cd_workers = [0 \<mapsto> Working], cd_cancelled = False,
     cd_ran = [0], cd_panics = [], cd_raised = None\<rparr>"
    by (rule reach_step[OF _ begin_work[where i = 0]]) simp_all
  then have "cd_reach 1 1 (\<lambda>_. True) cd_start
    \<lparr>cd_main = Looping, cd_next = 1, cd_sem = 1, cd_workers = [0 \<mapsto> Leaving], cd_cancelled = False,
     cd_ran = [0], cd_panics = [0], cd_raised = None\<rparr>"
    by (rule reach_step[OF _ end_work[where i = 0]]) simp_all
  then have "cd_reach 1 1 (\<lambda>_. True) cd_start
    \<lparr>cd_main = Looping, cd_next = 1, cd_sem = 0, cd_workers = Map.empty, cd_cancelled = False,
     cd_ran = [0], cd_panics = [0], cd_raised = None\<rparr>"
    by (rule reach_step[OF _ release[where i = 0]]) simp_all
  then have "cd_reach 1 1 (\<lambda>_. True) cd_start
    \<lparr>cd_main = Waiting, cd_next = 1, cd_sem = 0, cd_workers = Map.empty, cd_cancelled = False,
     cd_ran = [0], cd_panics = [0], cd_raised = None\<rparr>"
    by (rule reach_step[OF _ stop_all]) simp_all
  then show ?thesis unfolding cd_failed_def by (rule reach_step[OF _ return]) simp_all
qed


theorem concurrent_dispatch_returns_witness: "\<exists>t. cd_step 1 2 (\<lambda>_. False) cd_full t"
  using concurrent_dispatch_returns[OF cd_full_reach[of "\<lambda>_. False"]] by (simp add: cd_full_def)

theorem cancelled_dispatch_hangs_witness:
  "\<exists>t. cd_reach 1 2 (\<lambda>_. False) (cd_full\<lparr>cd_cancelled := True\<rparr>) t \<and> never_returns 1 2 (\<lambda>_. False) t"
  by (rule cancelled_dispatch_hangs[OF cancel[OF cd_full_reach]]) (simp_all add: cd_full_def fun_eq_iff)

end
