(* ===== verification/Engine.thy ===== *)
theory Engine
  imports Runner Concurrent_Dispatch Go_Duration
begin

text \<open>
  core/engine: engine.go, suite.go, context.go and parallel.go, on top of the runner (theory Runner), the
  dispatchers and the loop (theory Dispatch) and the fleet orchestrator (theory Fleet). A suite runs on
  the state of its runner and on the \<open>SuiteResult\<close> it fills in. Elapsed times are left out. A panic
  (\<^const>\<open>Inl\<close>) ends the run.

  The functions here are the executions in which one item of work is done after the other. With a
  parallelism of at most 1 and no concurrent mode (\<open>sequential_run\<close>) the program has no other. Otherwise
  they are the serial ones among the interleavings of its goroutines: a concurrent dispatch runs its items, and the pool
  its suites, each as a whole and in an order that is a parameter, a cancelled dispatch has no goroutine
  left that could hang it, and a panic of one suite leaves no other suite half done. What holds of all interleavings is
  in theories Concurrent_Dispatch and Suite_Pool.
\<close>

section \<open>Results of suites\<close>

record suite_result =
  sur_Suite :: string
  sur_Results :: "test_result list"
  sur_Passed :: int
  sur_Failed :: int
  sur_Skipped :: int

definition summarise :: "suite_result \<Rightarrow> suite_result" where
  "summarise sr = fold (\<lambda>r sr. if rt_Passed r then sr\<lparr>sur_Passed := sur_Passed sr + 1\<rparr>
     else sr\<lparr>sur_Failed := sur_Failed sr + 1\<rparr>) (sur_Results sr) sr"

definition exit_OK :: int where "exit_OK = 0"
definition exit_TestFailure :: int where "exit_TestFailure = 1"

definition ExitCode :: "suite_result list \<Rightarrow> int" where
  "ExitCode results = (if \<exists>sr \<in> set results. sur_Failed sr > 0 then exit_TestFailure else exit_OK)"

section \<open>The engine\<close>

text \<open>The options of an engine, and what it takes from outside: the clock, the pauses, the random numbers, the
  order of concurrent work and the fleet's providers.\<close>

type_synonym 'w suite_state = "'w run_state \<times> suite_result"

record ('w, 'x) engine =
  eg_runner :: "'w runner"
  eg_parallelism :: int
  eg_connectorConfigs :: "(string \<times> (string \<times> gov) list) list option"
  eg_exprRegistry :: "'w efunc reg option"
  eg_fleetRegistry :: "(unit \<Rightarrow> string) reg option"
  eg_now :: "'w \<Rightarrow> int"
  eg_sleep :: "int \<Rightarrow> 'w \<Rightarrow> bool \<times> 'w"
  eg_shuffle :: "'w suite_state \<Rightarrow> nat \<Rightarrow> nat"
  eg_draw :: "int \<Rightarrow> 'w suite_state \<Rightarrow> int"
  eg_order :: "int \<Rightarrow> nat \<Rightarrow> 'w suite_state \<Rightarrow> nat list"
  eg_fleet_env :: "'x fleet_env"

definition record_event :: "'w runner \<Rightarrow> tel_event \<Rightarrow> (string \<times> string) list \<Rightarrow> 'w run_state \<Rightarrow> 'w run_state" where
  "record_event rr event tags s = (if rn_telemetry rr then logged (Telemetry event tags) s else s)"

definition NewTestContext :: "('w, 'x) engine \<Rightarrow> test_suite \<Rightarrow> 'w run_state \<Rightarrow> 'w run_state" where
  "NewTestContext e suite s =
     s\<lparr>rs_store := (let st = NewStore (su_Fixtures suite) in
        case eg_exprRegistry e of None \<Rightarrow> st | Some r \<Rightarrow> SetExpressionRegistry r st)\<rparr>"

text \<open>The connector configuration of a test: a copy of the engine's for its connector.\<close>

definition connector_config :: "('w, 'x) engine \<Rightarrow> test_case \<Rightarrow> (string \<times> gov) list" where
  "connector_config e test =
     (case eg_connectorConfigs e of
        None \<Rightarrow> []
      | Some configs \<Rightarrow>
          if tc_Connector test = [] then []
          else (case map_of configs (tc_Connector test) of None \<Rightarrow> [] | Some cc \<Rightarrow> cc))"

definition test_info_of :: "test_suite \<Rightarrow> test_case \<Rightarrow> test_info" where
  "test_info_of suite test = \<lparr>ti_Name = tc_Name test, ti_Suite = su_Suite suite, ti_Tags = tc_Tags test\<rparr>"

text \<open>A test that is not skipped, in the context the caller has set up: \<open>OnTestStart\<close>, the run, the result
  appended, \<open>OnTestEnd\<close>.\<close>

definition run_one ::
  "('w, 'x) engine \<Rightarrow> 'w runner \<Rightarrow> test_suite \<Rightarrow> test_case \<Rightarrow> 'w suite_state \<Rightarrow> string option \<times> 'w suite_state" where
  "run_one e rr suite test st =
     (case st of (s, sr) \<Rightarrow>
       (let info = test_info_of suite test in
        case RunTest rr \<lparr>cx_Suite = su_Suite suite, cx_Test = tc_Name test\<rparr> test (connector_config e test)
            (logged (OnTestStart info) s) of
          (Inl msg, s1) \<Rightarrow> (Some msg, (s1, sr))
        | (Inr result, s1) \<Rightarrow>
            (None, (logged (OnTestEnd info result) s1, sr\<lparr>sur_Results := sur_Results sr @ [result]\<rparr>))))"

section \<open>Simple suites\<close>

definition register_coverage :: "test_suite \<Rightarrow> tracker \<Rightarrow> tracker" where
  "register_coverage suite tr0 = fold (\<lambda>test tr.
     RegisterTest (su_Suite suite) (tc_Name test) (int (length (tc_Steps test)))
       (int (sum_list (map (\<lambda>st. length (ts_Assert st)) (tc_Steps test))))
       (RegisterSuite (su_Suite suite) (int (length (su_Tests suite))) tr)) (su_Tests suite) tr0"

fun simple_loop ::
  "('w, 'x) engine \<Rightarrow> test_suite \<Rightarrow> test_case list \<Rightarrow> 'w suite_state \<Rightarrow> string option \<times> 'w suite_state" where
  "simple_loop e suite [] st = (None, st)"
| "simple_loop e suite (test # tests) (s, sr) =
     (if tc_Skip test then
        simple_loop e suite tests
          (record_event (eg_runner e) TestSkip [(''suite'', su_Suite suite), (''test'', tc_Name test)]
            (on_coverage (RecordTestSkip (su_Suite suite) (tc_Name test)) s),
           sr\<lparr>sur_Skipped := sur_Skipped sr + 1\<rparr>)
      else (case run_one e (eg_runner e) suite test (NewTestContext e suite s, sr) of
          (Some msg, st) \<Rightarrow> (Some msg, st)
        | (None, st) \<Rightarrow> simple_loop e suite tests st))"

definition start_suite :: "('w, 'x) engine \<Rightarrow> test_suite \<Rightarrow> nat \<Rightarrow> 'w run_state \<Rightarrow> 'w run_state" where
  "start_suite e suite cnt s =
     record_event (eg_runner e) SuiteStart [(''suite'', su_Suite suite)]
       (logged (OnSuiteStart (su_Suite suite) (int cnt)) s)"

definition end_suite :: "('w, 'x) engine \<Rightarrow> test_suite \<Rightarrow> suite_result \<Rightarrow> 'w run_state \<Rightarrow> 'w run_state" where
  "end_suite e suite sr s =
     record_event (eg_runner e) SuiteEnd [(''suite'', su_Suite suite)]
       (logged (OnSuiteEnd (su_Suite suite) (sur_Passed sr) (sur_Failed sr) (sur_Skipped sr)) s)"

definition new_result :: "test_suite \<Rightarrow> suite_result" where
  "new_result suite = \<lparr>sur_Suite = su_Suite suite, sur_Results = [], sur_Passed = 0, sur_Failed = 0, sur_Skipped = 0\<rparr>"

definition finish_suite ::
  "('w, 'x) engine \<Rightarrow> test_suite \<Rightarrow> string option \<times> 'w suite_state \<Rightarrow> (string + suite_result) \<times> 'w run_state" where
  "finish_suite e suite r =
     (case r of
        (Some msg, (s, sr)) \<Rightarrow> (Inl msg, s)
      | (None, (s, sr)) \<Rightarrow> (let sr' = summarise sr in (Inr sr', end_suite e suite sr' s)))"

definition runSuiteSimple ::
  "('w, 'x) engine \<Rightarrow> test_suite \<Rightarrow> 'w run_state \<Rightarrow> (string + suite_result) \<times> 'w run_state" where
  "runSuiteSimple e suite s =
     finish_suite e suite
       (simple_loop e suite (su_Tests suite)
         (on_coverage (register_coverage suite) (start_suite e suite (length (su_Tests suite)) s), new_result suite))"

section \<open>Interactions\<close>

text \<open>A weight that is not positive counts as 1.\<close>

definition weight_or_1 :: "int \<Rightarrow> int" where
  "weight_or_1 w = (if w \<le> 0 then 1 else w)"

definition dispatch_env_of :: "('w, 'x) engine \<Rightarrow> ('w suite_state \<Rightarrow> bool) \<Rightarrow> 'w suite_state dispatch_env" where
  "dispatch_env_of e stop = \<lparr>de_stop = stop, de_shuffle = eg_shuffle e, de_draw = eg_draw e, de_order = eg_order e\<rparr>"

text \<open>The work on test \<open>i\<close> of an interaction. \<open>rr\<close> is the engine's runner in the context of the pass.\<close>

definition interaction_work ::
  "('w, 'x) engine \<Rightarrow> 'w runner \<Rightarrow> interaction \<Rightarrow> test_suite \<Rightarrow> bool \<Rightarrow> 'w suite_state work" where
  "interaction_work e rr ia suite shared i st =
     (if i \<ge> length (in_Tests ia) then (Some ''index out of range'', st)
      else (let test = in_Tests ia ! i in
        case st of (s, sr) \<Rightarrow>
          if tc_Skip test then (None, (s, sr\<lparr>sur_Skipped := sur_Skipped sr + 1\<rparr>))
          else run_one e rr suite test (if shared then s else NewTestContext e suite s, sr)))"

definition runInteraction ::
  "('w, 'x) engine \<Rightarrow> 'w runner \<Rightarrow> ('w suite_state \<Rightarrow> bool) \<Rightarrow> interaction \<Rightarrow> test_suite \<Rightarrow> int \<Rightarrow> string
    \<Rightarrow> 'w suite_state \<Rightarrow> string option \<times> 'w suite_state" where
  "runInteraction e rr stop ia suite passNum providerName st =
     (let mode = (if in_Mode ia = [] then ModeSequential else in_Mode ia);
          s1 = record_event rr InteractionStart
            ([(''suite'', su_Suite suite), (''interaction'', in_Name ia), (''mode'', mode), (''pass'', itoa passNum)]
             @ (if providerName \<noteq> [] then [(''provider'', providerName)] else []))
            (NewTestContext e suite (fst st))
      in case Dispatch (dispatch_env_of e stop)
           (NewDispatcher mode 0 (map (\<lambda>t. weight_or_1 (tc_Weight t)) (in_Tests ia)))
           (length (in_Tests ia)) (interaction_work e rr ia suite (mode = ModeSequential)) (s1, snd st) of
         (Some msg, st') \<Rightarrow> (Some msg, st')
       | (None, (s2, sr)) \<Rightarrow>
           (None, (record_event rr InteractionEnd
             [(''suite'', su_Suite suite), (''interaction'', in_Name ia), (''pass'', itoa passNum)] s2, sr)))"

section \<open>Suites with an execution block\<close>

definition parseDuration :: "string \<Rightarrow> int" where
  "parseDuration s = (if s = [] then 0 else case parse_duration s of Some d \<Rightarrow> d | None \<Rightarrow> 0)"

definition loop_env_of :: "('w, 'x) engine \<Rightarrow> 'w suite_state loop_env" where
  "loop_env_of e = \<lparr>le_done = (\<lambda>(s, sr). rn_ctx_err (eg_runner e) (rs_world s) \<noteq> None),
     le_now = (\<lambda>(s, sr). eg_now e (rs_world s)),
     le_sleep = (\<lambda>d (s, sr). case eg_sleep e d (rs_world s) of (b, w) \<Rightarrow> (b, (s\<lparr>rs_world := w\<rparr>, sr)))\<rparr>"

text \<open>The runner's context inside the passes: done when the engine's is, or when the time is up.\<close>

definition in_pass :: "('w, 'x) engine \<Rightarrow> int \<Rightarrow> int \<Rightarrow> 'w runner" where
  "in_pass e duration start =
     (let rr = eg_runner e in
      rr\<lparr>rn_ctx_err := (\<lambda>w. case rn_ctx_err rr w of
            Some err \<Rightarrow> Some err
          | None \<Rightarrow> if duration > 0 \<and> start + duration \<le> eg_now e w then Some ''context deadline exceeded'' else None)\<rparr>)"

definition interactions_of :: "test_suite \<Rightarrow> interaction list" where
  "interactions_of suite =
     (if su_Interactions suite = [] \<and> su_Tests suite \<noteq> []
      then [\<lparr>in_Name = su_Suite suite, in_Weight = 0, in_Mode = ModeSequential, in_Tests = su_Tests suite\<rparr>]
      else su_Interactions suite)"

definition execution_of :: "test_suite \<Rightarrow> execution" where
  "execution_of suite = (case su_Execution suite of
     Some ex \<Rightarrow> ex
   | None \<Rightarrow> \<lparr>ex_Mode = ModeSequential, ex_Concurrency = 0, ex_Duration = [], ex_Repeat = 1, ex_Interval = [], ex_Fleet = None\<rparr>)"

text \<open>The work on interaction \<open>i\<close> in pass \<open>n\<close>: choose a provider of the fleet, if there is one.\<close>

definition pass_work ::
  "('w, 'x) engine \<Rightarrow> 'w runner \<Rightarrow> orch option \<Rightarrow> test_suite \<Rightarrow> ('w suite_state \<Rightarrow> bool) \<Rightarrow> int \<Rightarrow> 'w suite_state work" where
  "pass_work e rr orch suite stop n i st =
     (let inters = interactions_of suite in
      if i \<ge> length inters then (Some ''index out of range'', st)
      else (case orch of
          None \<Rightarrow> runInteraction e rr stop (inters ! i) suite n [] st
        | Some oc \<Rightarrow>
            (case SelectProvider oc (\<lambda>k. eg_draw e k st) of
               None \<Rightarrow> (Some ''invalid argument to IntN'', st)
             | Some p \<Rightarrow> runInteraction e rr stop (inters ! i) suite n p st)))"

text \<open>The passes; \<^const>\<open>None\<close> if they never end.\<close>

definition run_passes ::
  "('w, 'x) engine \<Rightarrow> orch option \<Rightarrow> test_suite \<Rightarrow> 'w suite_state \<Rightarrow> (string option \<times> 'w suite_state) option" where
  "run_passes e orch suite st =
     (let ex = execution_of suite;
          inters = interactions_of suite;
          duration = parseDuration (ex_Duration ex);
          interval = parseDuration (ex_Interval ex);
          rep = (if ex_Repeat ex = 0 \<and> duration = 0 then 1 else ex_Repeat ex);
          outer = NewDispatcher (ex_Mode ex) (ex_Concurrency ex) (map (\<lambda>i. weight_or_1 (in_Weight i)) inters);
          cnt = (if ex_Mode ex = ModeWeighted then 1 else length inters);
          rr = in_pass e duration (eg_now e (rs_world (fst st)))
      in Loop_Run (loop_env_of e) (NewLoopController rep duration interval)
           (\<lambda>stop n. Dispatch (dispatch_env_of e stop) outer cnt (pass_work e rr orch suite stop n)) st)"

text \<open>The result of a suite whose fleet could not be set up.\<close>

definition fleet_failure :: "test_suite \<Rightarrow> suite_result" where
  "fleet_failure suite = (new_result suite)\<lparr>sur_Failed := 1,
     sur_Results := [\<lparr>rt_Passed = False, rt_Steps = [failed_step ''fleet-setup'' FleetSetupError]\<rparr>]\<rparr>"

text \<open>The last component is the orchestrator after the deferred teardown.\<close>

definition runSuiteWithExecution ::
  "('w, 'x) engine \<Rightarrow> test_suite \<Rightarrow> 'w run_state \<Rightarrow> ((string + suite_result) \<times> 'w run_state \<times> orch option) option" where
  "runSuiteWithExecution e suite s =
     (let total = sum_list (map (\<lambda>i. length (in_Tests i)) (interactions_of suite));
          s1 = start_suite e suite total s
      in case (eg_fleetRegistry e, ex_Fleet (execution_of suite)) of
           (Some reg, Some cfg) \<Rightarrow>
             (case Fleet.Setup (eg_fleet_env e) (NewOrchestrator reg cfg) of
                (Some err, orch) \<Rightarrow>
                  Some (Inr (fleet_failure suite),
                    logged (OnSuiteEnd (su_Suite suite) 0 1 0) (logged (OnSuiteStart (su_Suite suite) (int total)) s1), Some orch)
              | (None, orch) \<Rightarrow>
                  (case run_passes e (Some orch) suite (s1, new_result suite) of
                     None \<Rightarrow> None
                   | Some r \<Rightarrow>
                       (case finish_suite e suite r of
                          (res, s2) \<Rightarrow> Some (res, s2, Some (snd (Fleet.Teardown (eg_fleet_env e) orch))))))
         | _ \<Rightarrow>
             (case run_passes e None suite (s1, new_result suite) of
                None \<Rightarrow> None
              | Some r \<Rightarrow> (case finish_suite e suite r of (res, s2) \<Rightarrow> Some (res, s2, None))))"

definition runSuite :: "('w, 'x) engine \<Rightarrow> test_suite \<Rightarrow> 'w run_state \<Rightarrow> ((string + suite_result) \<times> 'w run_state) option" where
  "runSuite e suite s =
     (if su_Execution suite = None \<and> su_Interactions suite = [] then Some (runSuiteSimple e suite s)
      else map_option (\<lambda>(res, s', orch). (res, s')) (runSuiteWithExecution e suite s))"

text \<open>\<open>Engine.Run\<close>: the pool runs every index once; each result goes to its suite's place.\<close>

fun run_suites ::
  "('w, 'x) engine \<Rightarrow> test_suite list \<Rightarrow> nat list \<Rightarrow> suite_result option list \<Rightarrow> 'w run_state
    \<Rightarrow> ((string + suite_result option list) \<times> 'w run_state) option" where
  "run_suites e suites [] results s = Some (Inr results, s)"
| "run_suites e suites (i # is) results s =
     (case runSuite e (suites ! i) s of
        None \<Rightarrow> None
      | Some (Inl msg, s') \<Rightarrow> Some (Inl msg, s')
      | Some (Inr sr, s') \<Rightarrow> run_suites e suites is (results[i := Some sr]) s')"

definition Engine_Run ::
  "('w, 'x) engine \<Rightarrow> nat list \<Rightarrow> test_suite list \<Rightarrow> 'w run_state
    \<Rightarrow> ((string + suite_result option list) \<times> 'w run_state) option" where
  "Engine_Run e order suites s =
     run_suites e suites (if eg_parallelism e \<le> 1 then [0..<length suites] else order)
       (replicate (length suites) None) s"

section \<open>Sequential runs\<close>

definition sequential_suite :: "test_suite \<Rightarrow> bool" where
  "sequential_suite suite \<longleftrightarrow> ex_Mode (execution_of suite) \<noteq> ModeConcurrent
     \<and> list_all (\<lambda>ia. in_Mode ia \<noteq> ModeConcurrent) (interactions_of suite)"

definition sequential_run :: "int \<Rightarrow> test_suite list \<Rightarrow> bool" where
  "sequential_run parallelism suites \<longleftrightarrow> parallelism \<le> 1 \<and> list_all sequential_suite suites"

text \<open>A sequential run does not depend on the orders in which concurrent work would be done.\<close>

lemma Dispatch_order: "\<nexists>c. d = ConcurrentDispatcher c \<Longrightarrow> Dispatch (en\<lparr>de_order := ord\<rparr>) d = Dispatch en d"
  by (intro ext) (cases d; simp)

lemma NewDispatcher_sequential: "mode \<noteq> ModeConcurrent \<Longrightarrow> \<nexists>c. NewDispatcher mode k ws = ConcurrentDispatcher c"
  by (simp add: NewDispatcher_def)

lemma order_irrelevant [simp]:
  "run_one (e\<lparr>eg_order := ord\<rparr>) = run_one e"
  "NewTestContext (e\<lparr>eg_order := ord\<rparr>) = NewTestContext e"
  "interaction_work (e\<lparr>eg_order := ord\<rparr>) = interaction_work e"
  "start_suite (e\<lparr>eg_order := ord\<rparr>) = start_suite e"
  "finish_suite (e\<lparr>eg_order := ord\<rparr>) = finish_suite e"
  "in_pass (e\<lparr>eg_order := ord\<rparr>) = in_pass e"
  "loop_env_of (e\<lparr>eg_order := ord\<rparr>) = loop_env_of e"
  "dispatch_env_of (e\<lparr>eg_order := ord\<rparr>) stop = (dispatch_env_of e stop)\<lparr>de_order := ord\<rparr>"
proof -
  have c: "connector_config (e\<lparr>eg_order := ord\<rparr>) = connector_config e"
    by (intro ext) (simp add: connector_config_def)
  show ro: "run_one (e\<lparr>eg_order := ord\<rparr>) = run_one e" by (intro ext) (simp add: run_one_def c)
  show nt: "NewTestContext (e\<lparr>eg_order := ord\<rparr>) = NewTestContext e" by (intro ext) (simp add: NewTestContext_def)
  show "interaction_work (e\<lparr>eg_order := ord\<rparr>) = interaction_work e" by (intro ext) (unfold interaction_work_def ro nt, rule refl)
  show "start_suite (e\<lparr>eg_order := ord\<rparr>) = start_suite e" by (intro ext) (simp add: start_suite_def)
  have es: "end_suite (e\<lparr>eg_order := ord\<rparr>) = end_suite e" by (intro ext) (simp add: end_suite_def)
  show "finish_suite (e\<lparr>eg_order := ord\<rparr>) = finish_suite e" by (intro ext) (unfold finish_suite_def es, rule refl)
  have f: "eg_runner (e\<lparr>eg_order := ord\<rparr>) = eg_runner e" "eg_now (e\<lparr>eg_order := ord\<rparr>) = eg_now e" by simp_all
  show "in_pass (e\<lparr>eg_order := ord\<rparr>) = in_pass e" by (intro ext) (unfold in_pass_def f, rule refl)
  show "loop_env_of (e\<lparr>eg_order := ord\<rparr>) = loop_env_of e" by (simp add: loop_env_of_def)
  show "dispatch_env_of (e\<lparr>eg_order := ord\<rparr>) stop = (dispatch_env_of e stop)\<lparr>de_order := ord\<rparr>"
    by (simp add: dispatch_env_of_def)
qed

lemma simple_loop_order: "simple_loop (e\<lparr>eg_order := ord\<rparr>) suite tests st = simple_loop e suite tests st"
proof (induction tests arbitrary: st)
  case (Cons test tests)
  obtain s sr where "st = (s, sr)" by fastforce
  then show ?case by (simp add: Cons.IH split: prod.split option.split)
qed (cases st; simp)

lemma runInteraction_order:
  assumes "in_Mode ia \<noteq> ModeConcurrent"
  shows "runInteraction (e\<lparr>eg_order := ord\<rparr>) rr stop ia suite n pn st = runInteraction e rr stop ia suite n pn st"
proof -
  have "(if in_Mode ia = [] then ModeSequential else in_Mode ia) \<noteq> ModeConcurrent"
    using assms by (simp add: ModeSequential_def ModeConcurrent_def)
  note D = Dispatch_order[OF NewDispatcher_sequential[OF this]]
  show ?thesis unfolding runInteraction_def Let_def order_irrelevant D by (rule refl)
qed

lemma pass_work_order:
  "sequential_suite suite \<Longrightarrow> pass_work (e\<lparr>eg_order := ord\<rparr>) rr orch suite stop n = pass_work e rr orch suite stop n"
  by (intro ext) (simp add: pass_work_def Let_def sequential_suite_def list_all_length runInteraction_order split: option.split)

lemma run_passes_order:
  assumes "sequential_suite suite"
  shows "run_passes (e\<lparr>eg_order := ord\<rparr>) orch suite st = run_passes e orch suite st"
proof -
  have "ex_Mode (execution_of suite) \<noteq> ModeConcurrent" using assms by (simp add: sequential_suite_def)
  note D = Dispatch_order[OF NewDispatcher_sequential[OF this]]
  have "eg_now (e\<lparr>eg_order := ord\<rparr>) = eg_now e" by simp
  then show ?thesis
    unfolding run_passes_def Let_def order_irrelevant pass_work_order[OF assms] D by (simp only:)
qed

lemma runSuite_order:
  "sequential_suite suite \<Longrightarrow> runSuite (e\<lparr>eg_order := ord\<rparr>) suite s = runSuite e suite s"
  by (simp add: runSuite_def runSuiteSimple_def runSuiteWithExecution_def simple_loop_order run_passes_order Let_def
      split: option.split prod.split)

lemma run_suites_order:
  "list_all sequential_suite suites \<Longrightarrow> set is \<subseteq> {..<length suites} \<Longrightarrow>
   run_suites (e\<lparr>eg_order := ord\<rparr>) suites is results s = run_suites e suites is results s"
  by (induction "is" arbitrary: results s) (simp_all add: list_all_length runSuite_order split: option.split sum.split)

lemma Engine_Run_order:
  assumes "sequential_run (eg_parallelism e) suites"
  shows "Engine_Run (e\<lparr>eg_order := ord\<rparr>) order' suites s = Engine_Run e order suites s"
proof -
  have "set [0..<length suites] \<subseteq> {..<length suites}" by auto
  then show ?thesis using assms by (simp add: Engine_Run_def sequential_run_def run_suites_order)
qed

section \<open>Invariants of a suite's run\<close>

text \<open>What a property of the state and the result must survive to be kept by whole suites: a test, a
  skipped test, an event, a fresh test context and whatever happens in the world.\<close>

locale suite_invariant =
  fixes P :: "'w suite_state \<Rightarrow> bool"
    and e :: "('w, 'x) engine"
  assumes run_one_keeps: "run_one e rr suite test st = (p, st') \<Longrightarrow> P st \<Longrightarrow> P st'"
    and skip_keeps: "P (s, sr) \<Longrightarrow> P (s, sr\<lparr>sur_Skipped := sur_Skipped sr + 1\<rparr>)"
    and event_keeps: "P (s, sr) \<Longrightarrow> P (record_event rr event tags s, sr)"
    and coverage_keeps: "P (s, sr) \<Longrightarrow> P (on_coverage f s, sr)"
    and context_keeps: "P (s, sr) \<Longrightarrow> P (NewTestContext e suite s, sr)"
    and world_keeps: "P (s, sr) \<Longrightarrow> P (s\<lparr>rs_world := w\<rparr>, sr)"
begin

lemma simple_loop_keeps: "simple_loop e suite tests st = (p, st') \<Longrightarrow> P st \<Longrightarrow> P st'"
proof (induction tests arbitrary: st)
  case (Cons test tests)
  obtain s sr where st: "st = (s, sr)" by fastforce
  show ?case
  proof (cases "tc_Skip test")
    case True
    with Cons.prems(1) st Cons.IH[OF _ skip_keeps[OF event_keeps[OF coverage_keeps[OF Cons.prems(2)[unfolded st]]]]]
    show ?thesis by simp
  next
    case False
    obtain q st1 where q: "run_one e (eg_runner e) suite test (NewTestContext e suite s, sr) = (q, st1)"
      by (cases "run_one e (eg_runner e) suite test (NewTestContext e suite s, sr)")
    have "P st1" using run_one_keeps[OF q context_keeps] Cons.prems(2) st by simp
    with False q st Cons.prems(1) Cons.IH[of st1] show ?thesis by (cases q) auto
  qed
qed simp

lemma interaction_work_keeps: "interaction_work e rr ia suite shared i st = (p, st') \<Longrightarrow> P st \<Longrightarrow> P st'"
  by (cases st) (auto simp: interaction_work_def Let_def split: if_splits intro: skip_keeps context_keeps dest!: run_one_keeps)

end

sublocale suite_invariant < interaction: kept_work P "interaction_work e rr ia suite shared" for rr ia suite shared
  by unfold_locales (rule interaction_work_keeps)

context suite_invariant begin

lemma runInteraction_keeps:
  assumes "runInteraction e rr stop ia suite n pn st = (p, st')" "P st"
  shows "P st'"
proof -
  obtain s sr where st: "st = (s, sr)" by fastforce
  let ?d = "NewDispatcher (if in_Mode ia = [] then ModeSequential else in_Mode ia) 0
    (map (\<lambda>t. weight_or_1 (tc_Weight t)) (in_Tests ia))"
  have start: "P (record_event rr event tags (NewTestContext e suite s), sr)" for event tags
    using assms(2) st by (auto intro: event_keeps context_keeps)
  show ?thesis
    using assms(1) st interaction.Dispatch_keeps[OF _ start]
    by (auto simp: runInteraction_def Let_def split: prod.splits option.splits intro!: event_keeps)
qed

lemma pass_work_keeps: "pass_work e rr orch suite stop n i st = (p, st') \<Longrightarrow> P st \<Longrightarrow> P st'"
  by (auto simp: pass_work_def Let_def split: if_splits option.splits dest: runInteraction_keeps)

end

sublocale suite_invariant < pass: kept_work P "pass_work e rr orch suite stop n" for rr orch suite stop n
  by unfold_locales (rule pass_work_keeps)

sublocale suite_invariant < passes: kept_passes P "loop_env_of e"
    "\<lambda>stop n. Dispatch (dispatch_env_of e stop) outer cnt (pass_work e rr orch suite stop n)" for outer cnt rr orch suite
  by unfold_locales
    (auto simp: loop_env_of_def split: prod.splits intro: world_keeps dest: pass.Dispatch_keeps)

context suite_invariant begin

lemma run_passes_keeps: "run_passes e orch suite st = Some (p, st') \<Longrightarrow> P st \<Longrightarrow> P st'"
  unfolding run_passes_def Let_def by (drule passes.Loop_Run_keeps) simp_all

end

section \<open>Connector calls of a whole run\<close>

definition calls_from :: "happening list \<Rightarrow> 'w suite_state \<Rightarrow> bool" where
  "calls_from cs st \<longleftrightarrow> (\<exists>u. calls (fst st) = cs @ u \<and> lifecycle u)"

lemma calls_events [simp]:
  "calls (record_event rr event tags s) = calls s"
  "calls (NewTestContext e suite s) = calls s"
  "calls (logged (OnTestStart ti) s) = calls s"
  "calls (logged (OnTestEnd ti r) s) = calls s"
  "calls (logged (OnSuiteStart n k) s) = calls s"
  "calls (logged (OnSuiteEnd n a b c) s) = calls s"
  by (simp_all add: record_event_def calls_def logged_def NewTestContext_def)

lemma run_one_calls: "run_one e rr suite test st = (p, st') \<Longrightarrow> calls_from cs st \<Longrightarrow> calls_from cs st'"
proof -
  assume r: "run_one e rr suite test st = (p, st')" and c: "calls_from cs st"
  obtain s sr where st: "st = (s, sr)" by fastforce
  define cx where "cx = \<lparr>cx_Suite = su_Suite suite, cx_Test = tc_Name test\<rparr>"
  define s0 where "s0 = logged (OnTestStart (test_info_of suite test)) s"
  obtain q s1 where q: "RunTest rr cx test (connector_config e test) s0 = (q, s1)"
    by (cases "RunTest rr cx test (connector_config e test) s0")
  obtain u where "calls s1 = calls s0 @ u" "lifecycle u"
    using calls_RunTest[of rr cx test "connector_config e test" s0] q by auto
  moreover obtain v where "calls s = cs @ v" "lifecycle v" using c st by (auto simp: calls_from_def)
  moreover have "calls s0 = calls s" by (simp add: s0_def)
  ultimately have "calls s1 = cs @ (v @ u)" "lifecycle (v @ u)" by (simp_all add: lifecycle_append)
  moreover have "calls (fst st') = calls s1"
    using r st q by (cases q) (auto simp: run_one_def Let_def cx_def[symmetric] s0_def[symmetric])
  ultimately show ?thesis by (auto simp: calls_from_def)
qed

interpretation lifecycles: suite_invariant "calls_from cs" e for cs e
  by unfold_locales (auto simp: calls_from_def intro: run_one_calls[unfolded calls_from_def])

lemma finish_suite_calls: "finish_suite e suite (p, (s, sr)) = (r, s') \<Longrightarrow> calls s' = calls s"
  by (auto simp: finish_suite_def end_suite_def Let_def split: option.splits)

lemma runSuite_calls:
  assumes "runSuite e suite s = Some (r, s')"
  shows "\<exists>u. calls s' = calls s @ u \<and> lifecycle u"
proof -
  have start: "calls_from (calls s) (start_suite e suite n s, new_result suite)" for n
    by (auto simp: calls_from_def start_suite_def)
  have fin: "\<exists>u. calls s' = calls s @ u \<and> lifecycle u"
    if "finish_suite e suite (p, st) = (r', s')" "calls_from (calls s) st" for p st r' s'
    using that finish_suite_calls[of e suite p "fst st" "snd st"] by (auto simp: calls_from_def)
  show ?thesis
  proof (cases "su_Execution suite = None \<and> su_Interactions suite = []")
    case True
    then have f: "runSuiteSimple e suite s = (r, s')" using assms by (simp add: runSuite_def)
    let ?st = "(on_coverage (register_coverage suite) (start_suite e suite (length (su_Tests suite)) s), new_result suite)"
    obtain p st where l: "simple_loop e suite (su_Tests suite) ?st = (p, st)"
      by (cases "simple_loop e suite (su_Tests suite) ?st")
    with f have "finish_suite e suite (p, st) = (r, s')" by (simp add: runSuiteSimple_def)
    with fin lifecycles.simple_loop_keeps[OF l lifecycles.coverage_keeps[OF start]] show ?thesis by blast
  next
    case False
    have passes: "calls_from (calls s) st"
      if "run_passes e orch suite (start_suite e suite n s, new_result suite) = Some (p, st)" for orch n p st
      using lifecycles.run_passes_keeps[OF that start] .
    obtain orch where x: "runSuiteWithExecution e suite s = Some (r, s', orch)"
      using False assms by (auto simp: runSuite_def)
    let ?n = "sum_list (map (\<lambda>i. length (in_Tests i)) (interactions_of suite))"
    consider o' p st where "run_passes e o' suite (start_suite e suite ?n s, new_result suite) = Some (p, st)"
        "finish_suite e suite (p, st) = (r, s')"
      | "calls s' = calls s"
      using x unfolding runSuiteWithExecution_def Let_def
      by (auto simp: start_suite_def split: option.splits prod.splits)
    then show ?thesis
      using passes fin by cases (blast, auto)
  qed
qed

lemma run_suites_calls:
  "run_suites e suites is results s = Some (r, s') \<Longrightarrow> \<exists>u. calls s' = calls s @ u \<and> lifecycle u"
proof (induction "is" arbitrary: results s)
  case (Cons i "is")
  then obtain q s1 where q: "runSuite e (suites ! i) s = Some (q, s1)" by (auto split: option.splits)
  obtain u where u: "calls s1 = calls s @ u" "lifecycle u" using runSuite_calls[OF q] by blast
  show ?case
  proof (cases q)
    case Inl
    with Cons.prems q u show ?thesis by auto
  next
    case (Inr sr)
    with Cons.prems q have "run_suites e suites is (results[i := Some sr]) s1 = Some (r, s')" by simp
    from Cons.IH[OF this] u show ?thesis by (auto intro: lifecycle_append)
  qed
qed auto


section \<open>Verdicts\<close>

definition untallied :: "string \<Rightarrow> 'w suite_state \<Rightarrow> bool" where
  "untallied n st \<longleftrightarrow> sur_Suite (snd st) = n \<and> sur_Passed (snd st) = 0 \<and> sur_Failed (snd st) = 0"

text \<open>A verdict: the totals are those of the results.\<close>

definition fair_verdict :: "test_suite \<Rightarrow> suite_result \<Rightarrow> bool" where
  "fair_verdict suite sr \<longleftrightarrow> sur_Suite sr = su_Suite suite
     \<and> sur_Passed sr = int (length (filter rt_Passed (sur_Results sr)))
     \<and> sur_Failed sr = int (length (filter (\<lambda>t. \<not> rt_Passed t) (sur_Results sr)))"

lemma run_one_untallied: "run_one e rr suite test st = (p, st') \<Longrightarrow> untallied n st \<Longrightarrow> untallied n st'"
  by (cases st) (auto simp: run_one_def untallied_def Let_def split: prod.splits sum.splits)

interpretation tallies: suite_invariant "untallied name" e for name e
proof unfold_locales
  show "run_one e rr suite test st = (p, st') \<Longrightarrow> untallied name st \<Longrightarrow> untallied name st'" for rr suite test st p st'
    by (rule run_one_untallied)
qed (simp_all add: untallied_def)

lemma summarise_fold:
  "fold (\<lambda>r sr. if rt_Passed r then sr\<lparr>sur_Passed := sur_Passed sr + 1\<rparr> else sr\<lparr>sur_Failed := sur_Failed sr + 1\<rparr>) rs sr
   = sr\<lparr>sur_Passed := sur_Passed sr + int (length (filter rt_Passed rs)),
        sur_Failed := sur_Failed sr + int (length (filter (\<lambda>t. \<not> rt_Passed t) rs))\<rparr>"
  by (induction rs arbitrary: sr) auto

lemma summarise_eq:
  "summarise sr = sr\<lparr>sur_Passed := sur_Passed sr + int (length (filter rt_Passed (sur_Results sr))),
     sur_Failed := sur_Failed sr + int (length (filter (\<lambda>t. \<not> rt_Passed t) (sur_Results sr)))\<rparr>"
  by (simp add: summarise_def summarise_fold)

lemma finish_suite_verdict:
  "finish_suite e suite (p, st) = (Inr sr, s') \<Longrightarrow> untallied (su_Suite suite) st \<Longrightarrow> fair_verdict suite sr"
  by (cases st) (auto simp: finish_suite_def untallied_def fair_verdict_def summarise_eq Let_def split: option.splits)

lemma runSuite_verdict:
  assumes "runSuite e suite s = Some (Inr sr, s')"
  shows "fair_verdict suite sr"
proof -
  have start: "untallied (su_Suite suite) (t, new_result suite)" for t :: "'a run_state"
    by (simp add: untallied_def new_result_def)
  show ?thesis
  proof (cases "su_Execution suite = None \<and> su_Interactions suite = []")
    case True
    then have f: "runSuiteSimple e suite s = (Inr sr, s')" using assms by (simp add: runSuite_def)
    let ?st = "(on_coverage (register_coverage suite) (start_suite e suite (length (su_Tests suite)) s), new_result suite)"
    obtain p st where l: "simple_loop e suite (su_Tests suite) ?st = (p, st)"
      by (cases "simple_loop e suite (su_Tests suite) ?st")
    with f have "finish_suite e suite (p, st) = (Inr sr, s')" by (simp add: runSuiteSimple_def)
    from finish_suite_verdict[OF this tallies.simple_loop_keeps[OF l start]] show ?thesis .
  next
    case False
    obtain orch where x: "runSuiteWithExecution e suite s = Some (Inr sr, s', orch)"
      using False assms by (auto simp: runSuite_def)
    let ?n = "sum_list (map (\<lambda>i. length (in_Tests i)) (interactions_of suite))"
    consider o' p st where "run_passes e o' suite (start_suite e suite ?n s, new_result suite) = Some (p, st)"
        "finish_suite e suite (p, st) = (Inr sr, s')"
      | "sr = fleet_failure suite"
      using x unfolding runSuiteWithExecution_def Let_def by (auto split: option.splits prod.splits)
    then show ?thesis
    proof cases
      case (1 o' p st)
      show ?thesis using finish_suite_verdict[OF 1(2) tallies.run_passes_keeps[OF 1(1) start]] .
    next
      case 2
      then show ?thesis by (simp add: fair_verdict_def fleet_failure_def new_result_def)
    qed
  qed
qed

lemma run_suites_each:
  "run_suites e suites is results s = Some (Inr rs, s') \<Longrightarrow> distinct is \<Longrightarrow> set is \<subseteq> {..<length suites} \<Longrightarrow>
   length results = length suites \<Longrightarrow>
   length rs = length suites
   \<and> (\<forall>i < length suites. if i \<in> set is
       then \<exists>sr t t'. rs ! i = Some sr \<and> runSuite e (suites ! i) t = Some (Inr sr, t') else rs ! i = results ! i)"
proof (induction "is" arbitrary: results s)
  case (Cons i "is")
  then obtain sr s1 where q: "runSuite e (suites ! i) s = Some (Inr sr, s1)"
    by (auto split: option.splits sum.splits)
  with Cons.prems have r: "run_suites e suites is (results[i := Some sr]) s1 = Some (Inr rs, s')" by simp
  have i: "i < length suites" "i \<notin> set is" using Cons.prems by auto
  show ?case
    using Cons.IH[OF r] Cons.prems i q by (auto simp: nth_list_update)
qed simp

text \<open>Every suite has a result, which is the one its run gave.\<close>

lemma Engine_Run_each:
  assumes "Engine_Run e order suites s = Some (Inr rs, s')" "mset order = mset [0..<length suites]"
  shows "length rs = length suites"
    "i < length suites \<Longrightarrow> \<exists>sr t t'. rs ! i = Some sr \<and> runSuite e (suites ! i) t = Some (Inr sr, t')"
proof -
  define ix where "ix = (if eg_parallelism e \<le> 1 then [0..<length suites] else order)"
  have m: "mset ix = mset [0..<length suites]" using assms(2) by (simp add: ix_def)
  have d: "distinct ix" using mset_eq_imp_distinct_iff[OF m] by simp
  have d2: "set ix = {..<length suites}" using mset_eq_setD[OF m] by (simp add: lessThan_atLeast0)
  have r: "run_suites e suites ix (replicate (length suites) None) s = Some (Inr rs, s')"
    using assms(1) unfolding Engine_Run_def ix_def .
  show "length rs = length suites"
    "i < length suites \<Longrightarrow> \<exists>sr t t'. rs ! i = Some sr \<and> runSuite e (suites ! i) t = Some (Inr sr, t')"
    using run_suites_each[OF r d] d2 by simp_all
qed

lemma run_verdict:
  assumes "Engine_Run e order suites s = Some (Inr rs, s')" "mset order = mset [0..<length suites]"
  shows "length rs = length suites
    \<and> (\<forall>i < length suites. \<exists>sr. rs ! i = Some sr \<and> fair_verdict (suites ! i) sr)
    \<and> (ExitCode (map the rs) = 0 \<longleftrightarrow> (\<forall>sr. Some sr \<in> set rs \<longrightarrow> list_all rt_Passed (sur_Results sr)))"
proof -
  have R: "length rs = length suites" "\<And>i. i < length suites \<Longrightarrow> \<exists>sr. rs ! i = Some sr \<and> fair_verdict (suites ! i) sr"
    using Engine_Run_each[OF assms] runSuite_verdict by (metis, metis)
  have V: "\<exists>sr suite. r = Some sr \<and> fair_verdict suite sr" if "r \<in> set rs" for r
    using that R by (metis in_set_conv_nth)
  have "(\<exists>sr \<in> set (map the rs). sur_Failed sr > 0) \<longleftrightarrow> (\<exists>sr. Some sr \<in> set rs \<and> \<not> list_all rt_Passed (sur_Results sr))"
  proof -
    have f: "sur_Failed sr > 0 \<longleftrightarrow> \<not> list_all rt_Passed (sur_Results sr)" if "Some sr \<in> set rs" for sr
    proof -
      have "sur_Failed sr = int (length (filter (\<lambda>t. \<not> rt_Passed t) (sur_Results sr)))"
        using V[OF that] by (auto simp only: fair_verdict_def option.inject)
      then show ?thesis by (simp add: list_all_iff filter_empty_conv)
    qed
    have "sr \<in> set (map the rs) \<longleftrightarrow> Some sr \<in> set rs" for sr
    proof
      assume "sr \<in> set (map the rs)"
      then obtain r where "r \<in> set rs" "sr = the r" by auto
      with V[of r] show "Some sr \<in> set rs" by auto
    next
      assume "Some sr \<in> set rs"
      then show "sr \<in> set (map the rs)" by (force simp only: set_map intro: rev_image_eqI[of "Some sr"] option.sel[symmetric])
    qed
    with f show ?thesis by blast
  qed
  then have "ExitCode (map the rs) = 0 \<longleftrightarrow> (\<forall>sr. Some sr \<in> set rs \<longrightarrow> list_all rt_Passed (sur_Results sr))"
    unfolding ExitCode_def exit_OK_def exit_TestFailure_def by simp
  with R show ?thesis by blast
qed

text \<open>The verdict of a run. When a run of the engine over some suites ends without a panic there is one
  result per suite, at its place, whose totals of passed and failed tests are those of its test results;
  and the exit code is 0 just when every test that was run passed.\<close>

theorem Engine_verdict:
  assumes "Engine_Run e order suites s = Some (Inr rs, s')" "mset order = mset [0..<length suites]"
  shows "length rs = length suites
    \<and> (\<forall>i < length suites. \<exists>sr. rs ! i = Some sr \<and> fair_verdict (suites ! i) sr)
    \<and> (ExitCode (map the rs) = 0 \<longleftrightarrow> (\<forall>sr. Some sr \<in> set rs \<longrightarrow> list_all rt_Passed (sur_Results sr)))"
  by (rule run_verdict[OF assms])

section \<open>Reports of simple suites\<close>

lemma run_one_results:
  "run_one e rr suite test (s, sr) = (None, st) \<Longrightarrow>
   \<exists>r. snd st = sr\<lparr>sur_Results := sur_Results sr @ [r]\<rparr>"
  by (auto simp: run_one_def Let_def split: prod.splits sum.splits)

lemma simple_loop_results:
  "simple_loop e suite tests (s, sr) = (None, (s', sr')) \<Longrightarrow>
   length (sur_Results sr') = length (sur_Results sr) + length (filter (\<lambda>t. \<not> tc_Skip t) tests)
   \<and> sur_Skipped sr' = sur_Skipped sr + int (length (filter tc_Skip tests))"
proof (induction tests arbitrary: s sr)
  case (Cons test tests)
  show ?case
  proof (cases "tc_Skip test")
    case True
    with Cons.prems have "simple_loop e suite tests
      (record_event (eg_runner e) TestSkip [(''suite'', su_Suite suite), (''test'', tc_Name test)]
         (on_coverage (RecordTestSkip (su_Suite suite) (tc_Name test)) s),
       sr\<lparr>sur_Skipped := sur_Skipped sr + 1\<rparr>) = (None, (s', sr'))" by simp
    from Cons.IH[OF this] True show ?thesis by simp
  next
    case False
    obtain q st where q: "run_one e (eg_runner e) suite test (NewTestContext e suite s, sr) = (q, st)"
      by (cases "run_one e (eg_runner e) suite test (NewTestContext e suite s, sr)")
    with False Cons.prems have q0: "q = None" and l: "simple_loop e suite tests st = (None, (s', sr'))"
      by (auto split: option.splits)
    obtain r where r: "snd st = sr\<lparr>sur_Results := sur_Results sr @ [r]\<rparr>" using run_one_results q q0 by metis
    then obtain s2 where "st = (s2, sr\<lparr>sur_Results := sur_Results sr @ [r]\<rparr>)" by (cases st) auto
    with Cons.IH[of s2 "sr\<lparr>sur_Results := sur_Results sr @ [r]\<rparr>"] l False show ?thesis by simp
  qed
qed simp

text \<open>C12: the report of a suite of plain tests. Unless the code panics, every test that is not skipped has one
  result, every test that is skipped is counted, and the reporter is told at the end the same totals as
  the result has, which add up to the number of tests.\<close>

theorem runSuiteSimple_report:
  assumes "runSuiteSimple e suite s = (Inr sr, s')"
  shows "length (sur_Results sr) = length (filter (\<lambda>t. \<not> tc_Skip t) (su_Tests suite))
    \<and> sur_Skipped sr = int (length (filter tc_Skip (su_Tests suite)))
    \<and> sur_Passed sr + sur_Failed sr + sur_Skipped sr = int (length (su_Tests suite))
    \<and> OnSuiteEnd (su_Suite suite) (sur_Passed sr) (sur_Failed sr) (sur_Skipped sr) \<in> set (rs_log s')"
proof -
  let ?st = "(on_coverage (register_coverage suite) (start_suite e suite (length (su_Tests suite)) s), new_result suite)"
  obtain p s1 sr1 where l: "simple_loop e suite (su_Tests suite) ?st = (p, (s1, sr1))"
    by (cases "simple_loop e suite (su_Tests suite) ?st") auto
  with assms have p: "p = None" "sr = summarise sr1" "s' = end_suite e suite sr s1"
    by (auto simp: runSuiteSimple_def finish_suite_def Let_def split: option.splits)
  have un: "untallied (su_Suite suite) ?st" by (simp add: untallied_def new_result_def)
  have U: "sur_Passed sr1 = 0" "sur_Failed sr1 = 0"
    using tallies.simple_loop_keeps[OF l un] by (simp_all add: untallied_def)
  have R: "length (sur_Results sr1) = length (filter (\<lambda>t. \<not> tc_Skip t) (su_Tests suite))"
    "sur_Skipped sr1 = int (length (filter tc_Skip (su_Tests suite)))"
    using simple_loop_results[OF l[unfolded p(1)]] by (simp_all add: new_result_def)
  have S: "length (filter P xs) + length (filter (\<lambda>x. \<not> P x) xs) = length xs" for P and xs :: "'c list"
    by (rule sum_length_filter_compl)
  have "OnSuiteEnd (su_Suite suite) (sur_Passed sr) (sur_Failed sr) (sur_Skipped sr) \<in> set (rs_log s')"
    unfolding p(3) by (simp add: end_suite_def record_event_def logged_def)
  moreover have "sur_Passed sr + sur_Failed sr = int (length (sur_Results sr1))"
    using U S[of rt_Passed "sur_Results sr1"] unfolding p(2) summarise_eq by simp
  moreover have "sur_Results sr = sur_Results sr1" "sur_Skipped sr = sur_Skipped sr1"
    by (simp_all add: p(2) summarise_eq)
  moreover have "int (length (sur_Results sr1)) + sur_Skipped sr1 = int (length (su_Tests suite))"
    using R S[of tc_Skip "su_Tests suite"] by simp
  ultimately show ?thesis using R by simp
qed

section \<open>A run\<close>

definition demo_engine :: "(unit, unit) engine" where
  "demo_engine = \<lparr>eg_runner = demo_runner, eg_parallelism = 1, eg_connectorConfigs = None, eg_exprRegistry = None,
     eg_fleetRegistry = None, eg_now = (\<lambda>_. 0), eg_sleep = (\<lambda>_ w. (False, w)), eg_shuffle = (\<lambda>_ _. 0),
     eg_draw = (\<lambda>_ _. 0), eg_order = (\<lambda>_ n _. [0..<n]), eg_fleet_env = demo_env\<rparr>"

definition demo_suite :: test_suite where
  "demo_suite = \<lparr>su_Suite = ''s'', su_Tags = [], su_Setup = [], su_Teardown = [], su_Fixtures = [],
     su_Tests = [demo_test, demo_test\<lparr>tc_Skip := True\<rparr>], su_Execution = None, su_Interactions = []\<rparr>"

lemma demo_suite_passes:
  "\<exists>s'. runSuiteSimple demo_engine demo_suite s =
     (Inr \<lparr>sur_Suite = ''s'', sur_Results = [\<lparr>rt_Passed = True, rt_Steps = [passed_step (stepName demo_step 0)]\<rparr>],
        sur_Passed = 1, sur_Failed = 0, sur_Skipped = 1\<rparr>, s')"
proof -
  have skip: "\<not> tc_Skip demo_test" by (simp add: demo_test_def)
  have "\<exists>s1. run_one demo_engine demo_runner demo_suite demo_test (t, sr) =
      (None, (s1, sr\<lparr>sur_Results := sur_Results sr @ [\<lparr>rt_Passed = True, rt_Steps = [passed_step (stepName demo_step 0)]\<rparr>]\<rparr>))" for t sr
    using demo_test_passes[of "\<lparr>cx_Suite = su_Suite demo_suite, cx_Test = tc_Name demo_test\<rparr>" "connector_config demo_engine demo_test"
      "logged (OnTestStart (test_info_of demo_suite demo_test)) t"]
    by (auto simp: run_one_def Let_def)
  then obtain s1 where "run_one demo_engine demo_runner demo_suite demo_test
      (NewTestContext demo_engine demo_suite (on_coverage (register_coverage demo_suite) (start_suite demo_engine demo_suite 2 s)), new_result demo_suite) =
      (None, (s1, (new_result demo_suite)\<lparr>sur_Results := sur_Results (new_result demo_suite) @ [\<lparr>rt_Passed = True, rt_Steps = [passed_step (stepName demo_step 0)]\<rparr>]\<rparr>))"
    by blast
  then show ?thesis
    using skip by (simp add: runSuiteSimple_def demo_suite_def demo_engine_def numeral_2_eq_2 finish_suite_def new_result_def summarise_def Let_def)
qed

theorem runSuiteSimple_report_witness:
  "\<exists>sr s'. runSuiteSimple demo_engine demo_suite demo_state = (Inr sr, s') \<and> sur_Passed sr + sur_Failed sr + sur_Skipped sr = 2"
proof -
  obtain sr s' where r: "runSuiteSimple demo_engine demo_suite demo_state = (Inr sr, s')"
    using demo_suite_passes by blast
  from runSuiteSimple_report[OF r] r show ?thesis by (auto simp: demo_suite_def)
qed

lemma demo_run: "\<exists>sr s'. Engine_Run demo_engine [0] [demo_suite] demo_state = Some (Inr [Some sr], s')"
proof -
  obtain sr s' where "runSuiteSimple demo_engine demo_suite demo_state = (Inr sr, s')"
    using demo_suite_passes by blast
  moreover have "su_Execution demo_suite = None" "su_Interactions demo_suite = []" by (simp_all add: demo_suite_def)
  ultimately show ?thesis by (simp add: Engine_Run_def runSuite_def)
qed


theorem Engine_verdict_witness:
  "\<exists>sr s'. Engine_Run demo_engine [0] [demo_suite] demo_state = Some (Inr [Some sr], s') \<and> fair_verdict demo_suite sr"
proof -
  obtain sr s' where r: "Engine_Run demo_engine [0] [demo_suite] demo_state = Some (Inr [Some sr], s')"
    using demo_run by blast
  from Engine_verdict[OF r] r show ?thesis by auto
qed

end
