(* ===== verification/Schema_Parse.thy ===== *)
theory Schema_Parse
  imports Yaml_Decode Schema_Types Go_Duration
begin

text \<open>
  core/schema: parse.go and validate.go. A suite is decoded twice, into a generic map and into its struct; the
  steps, the interactions and the configurations of fleet providers are then read again from the generic map.
  Validation collects messages; here they are values of a datatype, in the order of the source.
\<close>

section \<open>Validation\<close>

datatype place = SuiteTest nat | InteractionTest nat nat

datatype validation_error =
    SuiteNameRequired
  | BothTestsAndInteractions
  | NothingToRun
  | TestNameRequired place
  | TestStepRequired place
  | TestWeightNegative place
  | StepActionRequired place nat
  | InteractionNameRequired nat
  | InteractionWeightNegative nat
  | InteractionModeInvalid nat string
  | InteractionTestRequired nat
  | ModeInvalid string
  | ConcurrencyNegative
  | ConcurrencyRequired
  | DurationInvalid string
  | IntervalInvalid string
  | RepeatNegative
  | DurationRequired
  | WeightedUnbounded
  | ProviderRequired
  | ProviderNameRequired nat
  | ProviderWeightNegative nat
  | ProviderTTLNegative nat
  | ProviderWeightsSum int
  | TestPathRequired
  | ParallelismNegative
  | ReporterTypeInvalid nat string

text \<open>\<open>ve.add\<close> under a condition.\<close>

definition complain :: "bool \<Rightarrow> 'e \<Rightarrow> 'e list" where
  "complain b e = (if b then [e] else [])"

lemma complain_Nil [simp]: "complain b e = [] \<longleftrightarrow> \<not> b"
  by (simp add: complain_def)

lemma set_complain [simp]: "set (complain b e) = (if b then {e} else {})"
  by (simp add: complain_def)

text \<open>The loop \<open>for i, x := range xs\<close> that collects messages.\<close>

definition each_index :: "(nat \<Rightarrow> 'a \<Rightarrow> 'e list) \<Rightarrow> 'a list \<Rightarrow> 'e list" where
  "each_index f xs = concat (map (\<lambda>i. f i (xs ! i)) [0..<length xs])"

lemma each_index_Nil: "each_index f xs = [] \<longleftrightarrow> (\<forall>i < length xs. f i (xs ! i) = [])"
  by (auto simp: each_index_def)

lemma set_each_index: "e \<in> set (each_index f xs) \<longleftrightarrow> (\<exists>i < length xs. e \<in> set (f i (xs ! i)))"
  by (auto simp: each_index_def)

definition validateTests :: "(nat \<Rightarrow> place) \<Rightarrow> test_case list \<Rightarrow> validation_error list" where
  "validateTests pl tests =
     each_index (\<lambda>i t.
       complain (tc_Name t = []) (TestNameRequired (pl i)) @
       complain (tc_Steps t = []) (TestStepRequired (pl i)) @
       complain (tc_Weight t < 0) (TestWeightNegative (pl i)) @
       each_index (\<lambda>j s. complain (ts_Action s = []) (StepActionRequired (pl i) j)) (tc_Steps t)) tests"

definition total_weight :: "fleet_provider list \<Rightarrow> int" where
  "total_weight ps = foldl (\<lambda>tot p. wrap64 (tot + fp_Weight p)) 0 ps"

definition validateFleetConfig :: "fleet_config \<Rightarrow> validation_error list" where
  "validateFleetConfig fleet =
     (if fc_Providers fleet = [] then [ProviderRequired]
      else
        each_index (\<lambda>i p.
          complain (fp_Provider p = []) (ProviderNameRequired i) @
          complain (fp_Weight p < 0) (ProviderWeightNegative i) @
          complain (fp_TTL p < 0) (ProviderTTLNegative i)) (fc_Providers fleet) @
        (let totalWeight = total_weight (fc_Providers fleet)
         in complain (totalWeight \<noteq> 100) (ProviderWeightsSum totalWeight)))"

definition validateExecution :: "execution \<Rightarrow> validation_error list" where
  "validateExecution ex =
     complain (ex_Mode ex \<noteq> [] \<and> ex_Mode ex \<notin> set validExecutionModes) (ModeInvalid (ex_Mode ex)) @
     complain (ex_Concurrency ex < 0) ConcurrencyNegative @
     complain (ex_Mode ex = ModeConcurrent \<and> ex_Concurrency ex = 0) ConcurrencyRequired @
     complain (ex_Duration ex \<noteq> [] \<and> parse_duration (ex_Duration ex) = None) (DurationInvalid (ex_Duration ex)) @
     complain (ex_Interval ex \<noteq> [] \<and> parse_duration (ex_Interval ex) = None) (IntervalInvalid (ex_Interval ex)) @
     complain (ex_Repeat ex < 0) RepeatNegative @
     complain (ex_Repeat ex = 0 \<and> ex_Duration ex = []) DurationRequired @
     complain (ex_Mode ex = ModeWeighted \<and> \<not> ex_Duration ex \<noteq> [] \<and> \<not> ex_Repeat ex > 0) WeightedUnbounded @
     (case ex_Fleet ex of Some fleet \<Rightarrow> validateFleetConfig fleet | None \<Rightarrow> [])"

definition validateInteraction :: "nat \<Rightarrow> interaction \<Rightarrow> validation_error list" where
  "validateInteraction i x =
     complain (in_Name x = []) (InteractionNameRequired i) @
     complain (in_Weight x < 0) (InteractionWeightNegative i) @
     complain (in_Mode x \<noteq> [] \<and> in_Mode x \<notin> set validExecutionModes) (InteractionModeInvalid i (in_Mode x)) @
     complain (in_Tests x = []) (InteractionTestRequired i) @
     validateTests (InteractionTest i) (in_Tests x)"

definition ValidateSuite :: "test_suite \<Rightarrow> validation_error list" where
  "ValidateSuite suite =
     (let hasTests = su_Tests suite \<noteq> []; hasInteractions = su_Interactions suite \<noteq> [] in
      complain (su_Suite suite = []) SuiteNameRequired @
      complain (hasTests \<and> hasInteractions) BothTestsAndInteractions @
      complain (\<not> hasTests \<and> \<not> hasInteractions) NothingToRun @
      (if hasTests then validateTests SuiteTest (su_Tests suite) else []) @
      (if hasInteractions then each_index validateInteraction (su_Interactions suite) else []) @
      (case su_Execution suite of Some ex \<Rightarrow> validateExecution ex | None \<Rightarrow> []))"

definition ValidateConfig :: "config \<Rightarrow> validation_error list" where
  "ValidateConfig c =
     complain (cf_Tests c = []) TestPathRequired @
     complain (cf_Parallelism c < 0) ParallelismNegative @
     each_index (\<lambda>i r. complain (rc_Type r \<notin> set validReporterTypes) (ReporterTypeInvalid i (rc_Type r))) (cf_Reporters c)"

section \<open>Steps\<close>

definition gstr :: "gov option \<Rightarrow> string" where
  "gstr v = (case v of Some (GStr s) \<Rightarrow> s | _ \<Rightarrow> [])"

definition gint :: "gov option \<Rightarrow> int" where
  "gint v = (case v of Some (GNum KInt i) \<Rightarrow> i | _ \<Rightarrow> 0)"

definition gbool :: "gov option \<Rightarrow> bool" where
  "gbool v = (case v of Some (GBool b) \<Rightarrow> b | _ \<Rightarrow> False)"

definition glist :: "gov option \<Rightarrow> gov list" where
  "glist v = (case v of Some (GList vs) \<Rightarrow> vs | _ \<Rightarrow> [])"

text \<open>The entries of a list that are maps, and those of a list or a map that are strings.\<close>

definition map_items :: "gov list \<Rightarrow> (string \<times> gov) list list" where
  "map_items vs = List.map_filter (\<lambda>v. case v of GMap m \<Rightarrow> Some m | _ \<Rightarrow> None) vs"

definition string_items :: "gov list \<Rightarrow> string list" where
  "string_items vs = List.map_filter (\<lambda>v. case v of GStr s \<Rightarrow> Some s | _ \<Rightarrow> None) vs"

definition string_entries :: "(string \<times> gov) list \<Rightarrow> (string \<times> string) list" where
  "string_entries m = List.map_filter (\<lambda>(k, v). case v of GStr s \<Rightarrow> Some (k, s) | _ \<Rightarrow> None) m"

definition ParseTestStep :: "(string \<times> gov) list \<Rightarrow> test_step" where
  "ParseTestStep raw =
     \<lparr>ts_Connector = gstr (map_of raw ''connector''),
      ts_Action = gstr (map_of raw ''action''),
      ts_Parameters = filter (\<lambda>(k, v). k \<notin> set knownStepFields) raw,
      ts_Assert = map_items (glist (map_of raw ''assert'')),
      ts_Capture = (case map_of raw ''capture'' of Some (GMap m) \<Rightarrow> string_entries m | _ \<Rightarrow> []),
      ts_Timeout = gstr (map_of raw ''timeout'')\<rparr>"

definition parseStepsFromRaw :: "(string \<times> gov) list \<Rightarrow> string \<Rightarrow> test_step list" where
  "parseStepsFromRaw raw key = map ParseTestStep (map_items (glist (map_of raw key)))"

section \<open>Interactions and fleets\<close>

definition parse_inner_test :: "(string \<times> gov) list \<Rightarrow> test_case" where
  "parse_inner_test tm =
     \<lparr>tc_Name = gstr (map_of tm ''name''),
      tc_Connector = gstr (map_of tm ''connector''),
      tc_Tags = string_items (glist (map_of tm ''tags'')),
      tc_Skip = gbool (map_of tm ''skip''),
      tc_Weight = gint (map_of tm ''weight''),
      tc_Steps = parseStepsFromRaw tm ''steps''\<rparr>"

definition parse_interaction :: "(string \<times> gov) list \<Rightarrow> interaction" where
  "parse_interaction im =
     \<lparr>in_Name = gstr (map_of im ''name''),
      in_Weight = gint (map_of im ''weight''),
      in_Mode = gstr (map_of im ''mode''),
      in_Tests = map parse_inner_test (map_items (glist (map_of im ''tests'')))\<rparr>"

definition parseInteractions :: "gov \<Rightarrow> interaction list" where
  "parseInteractions raw = map parse_interaction (map_items (glist (Some raw)))"

text \<open>A loop over the items of a document that updates what is at the same index, for items that are maps.\<close>

fun each_map :: "((string \<times> gov) list \<Rightarrow> 'a \<Rightarrow> 'a) \<Rightarrow> gov list \<Rightarrow> 'a list \<Rightarrow> 'a list" where
  "each_map f (v # vs) (x # xs) = (case v of GMap m \<Rightarrow> f m x | _ \<Rightarrow> x) # each_map f vs xs"
| "each_map f vs xs = xs"

definition provider_config :: "(string \<times> gov) list \<Rightarrow> fleet_provider \<Rightarrow> fleet_provider" where
  "provider_config pm p =
     (if fp_Provider p = [] then p
      else (case map_of pm (fp_Provider p) of Some (GMap cfg) \<Rightarrow> p\<lparr>fp_Config := cfg\<rparr> | _ \<Rightarrow> p))"

definition parseFleetProviderConfigs :: "(string \<times> gov) list \<Rightarrow> fleet_config \<Rightarrow> fleet_config" where
  "parseFleetProviderConfigs raw fleet =
     (case map_of raw ''execution'' of
        Some (GMap execMap) \<Rightarrow>
          (case map_of execMap ''fleet'' of
             Some (GMap fleetMap) \<Rightarrow>
               (case map_of fleetMap ''providers'' of
                  Some (GList providersList) \<Rightarrow> fleet\<lparr>fc_Providers := each_map provider_config providersList (fc_Providers fleet)\<rparr>
                | _ \<Rightarrow> fleet)
           | _ \<Rightarrow> fleet)
      | _ \<Rightarrow> fleet)"

section \<open>The types that are decoded\<close>

definition provider_type :: gotype where
  "provider_type = TStruct
     [(''Provider'', ''provider'', TString), (''Weight'', ''weight'', TInt), (''TTL'', ''ttl'', TInt),
      (''Config'', ''-'', TMap TAny)]"

definition fleet_type :: gotype where
  "fleet_type = TStruct [(''Providers'', ''providers'', TSlice provider_type)]"

definition execution_type :: gotype where
  "execution_type = TStruct
     [(''Mode'', ''mode'', TString), (''Concurrency'', ''concurrency'', TInt), (''Duration'', ''duration'', TString),
      (''Repeat'', ''repeat'', TInt), (''Interval'', ''interval'', TString), (''Fleet'', ''fleet'', TPtr fleet_type)]"

definition step_fields :: "(string \<times> string \<times> gotype) list" where
  "step_fields =
     [(''Connector'', ''connector'', TString), (''Action'', ''action'', TString), (''Parameters'', ''-'', TMap TAny),
      (''Assert'', ''assert'', TSlice (TMap TAny)), (''Capture'', ''capture'', TMap TString),
      (''Timeout'', ''timeout'', TString)]"

definition test_fields :: "(string \<times> string \<times> gotype) list" where
  "test_fields =
     [(''Name'', ''name'', TString), (''Connector'', ''connector'', TString), (''Tags'', ''tags'', TSlice TString),
      (''Skip'', ''skip'', TBool), (''Weight'', ''weight'', TInt), (''Steps'', ''steps'', TSlice (TStruct step_fields))]"

definition interaction_fields :: "(string \<times> string \<times> gotype) list" where
  "interaction_fields =
     [(''Name'', ''name'', TString), (''Weight'', ''weight'', TInt), (''Mode'', ''mode'', TString),
      (''Tests'', ''tests'', TSlice (TStruct test_fields))]"

definition suite_fields :: "(string \<times> string \<times> gotype) list" where
  "suite_fields =
     [(''Suite'', ''suite'', TString), (''Tags'', ''tags'', TSlice TString),
      (''Setup'', ''setup'', TSlice (TStruct step_fields)), (''Teardown'', ''teardown'', TSlice (TStruct step_fields)),
      (''Fixtures'', ''fixtures'', TMap TAny), (''Tests'', ''tests'', TSlice (TStruct test_fields)),
      (''Execution'', ''execution'', TPtr execution_type),
      (''Interactions'', ''interactions'', TSlice (TStruct interaction_fields))]"

definition config_fields :: "(string \<times> string \<times> gotype) list" where
  "config_fields =
     [(''Version'', ''version'', TString), (''Tests'', ''tests'', TSlice TString), (''Parallelism'', ''parallelism'', TInt),
      (''Timeout'', ''timeout'', TString),
      (''Reporters'', ''reporters'', TSlice (TStruct [(''Type'', ''type'', TString), (''Output'', ''output'', TString)])),
      (''Coverage'', ''coverage'', TStruct [(''Threshold'', ''threshold'', TFloat)]),
      (''Browsers'', ''browsers'',
        TStruct [(''Chromium'', ''chromium'', TBool), (''Firefox'', ''firefox'', TBool), (''WebKit'', ''webkit'', TBool)]),
      (''Connectors'', ''connectors'', TMap (TMap TAny)),
      (''Telemetry'', ''telemetry'', TStruct [(''Enabled'', ''enabled'', TBool), (''Output'', ''output'', TString)])]"

text \<open>Reading the values of these types as the records of the model.\<close>

definition vstr :: "gval \<Rightarrow> string" where "vstr v = (case v of VString s \<Rightarrow> s | _ \<Rightarrow> [])"
definition vint :: "gval \<Rightarrow> int" where "vint v = (case v of VInt i \<Rightarrow> i | _ \<Rightarrow> 0)"
definition vbool :: "gval \<Rightarrow> bool" where "vbool v = (case v of VBool b \<Rightarrow> b | _ \<Rightarrow> False)"
definition vfloat :: "gval \<Rightarrow> f64" where "vfloat v = (case v of VFloat x \<Rightarrow> x | _ \<Rightarrow> Fin 0)"
definition vany :: "gval \<Rightarrow> gov" where "vany v = (case v of VAny g \<Rightarrow> g | _ \<Rightarrow> GNil)"
definition vitems :: "gval \<Rightarrow> gval list" where "vitems v = (case v of VSlice (Some vs) \<Rightarrow> vs | _ \<Rightarrow> [])"
definition ventries :: "gval \<Rightarrow> (string \<times> gval) list" where "ventries v = (case v of VMap (Some m) \<Rightarrow> m | _ \<Rightarrow> [])"
definition vfields :: "gval \<Rightarrow> gval list" where "vfields v = (case v of VStruct vs \<Rightarrow> vs | _ \<Rightarrow> [])"
definition vptr :: "gval \<Rightarrow> gval option" where "vptr v = (case v of VPtr p \<Rightarrow> p | _ \<Rightarrow> None)"
definition vmap :: "gval \<Rightarrow> (string \<times> gov) list" where "vmap v = map (\<lambda>(k, x). (k, vany x)) (ventries v)"

lemmas v_readers = vstr_def vint_def vbool_def vfloat_def vany_def vitems_def ventries_def vfields_def vptr_def vmap_def

definition step_of :: "gval \<Rightarrow> test_step" where
  "step_of v = (let f = (\<lambda>i. vfields v ! i) in
     \<lparr>ts_Connector = vstr (f 0), ts_Action = vstr (f 1), ts_Parameters = vmap (f 2),
      ts_Assert = map vmap (vitems (f 3)), ts_Capture = map (\<lambda>(k, x). (k, vstr x)) (ventries (f 4)),
      ts_Timeout = vstr (f 5)\<rparr>)"

definition test_of :: "gval \<Rightarrow> test_case" where
  "test_of v = (let f = (\<lambda>i. vfields v ! i) in
     \<lparr>tc_Name = vstr (f 0), tc_Connector = vstr (f 1), tc_Tags = map vstr (vitems (f 2)), tc_Skip = vbool (f 3),
      tc_Weight = vint (f 4), tc_Steps = map step_of (vitems (f 5))\<rparr>)"

definition interaction_of :: "gval \<Rightarrow> interaction" where
  "interaction_of v = (let f = (\<lambda>i. vfields v ! i) in
     \<lparr>in_Name = vstr (f 0), in_Weight = vint (f 1), in_Mode = vstr (f 2), in_Tests = map test_of (vitems (f 3))\<rparr>)"

definition provider_of :: "gval \<Rightarrow> fleet_provider" where
  "provider_of v = (let f = (\<lambda>i. vfields v ! i) in
     \<lparr>fp_Provider = vstr (f 0), fp_Weight = vint (f 1), fp_TTL = vint (f 2), fp_Config = vmap (f 3)\<rparr>)"

definition exec_of :: "gval \<Rightarrow> execution" where
  "exec_of v = (let f = (\<lambda>i. vfields v ! i) in
     \<lparr>ex_Mode = vstr (f 0), ex_Concurrency = vint (f 1), ex_Duration = vstr (f 2), ex_Repeat = vint (f 3),
      ex_Interval = vstr (f 4),
      ex_Fleet = map_option (\<lambda>x. \<lparr>fc_Providers = map provider_of (vitems (vfields x ! 0))\<rparr>) (vptr (f 5))\<rparr>)"

definition suite_of :: "gval \<Rightarrow> test_suite" where
  "suite_of v = (let f = (\<lambda>i. vfields v ! i) in
     \<lparr>su_Suite = vstr (f 0), su_Tags = map vstr (vitems (f 1)), su_Setup = map step_of (vitems (f 2)),
      su_Teardown = map step_of (vitems (f 3)), su_Fixtures = vmap (f 4), su_Tests = map test_of (vitems (f 5)),
      su_Execution = map_option exec_of (vptr (f 6)), su_Interactions = map interaction_of (vitems (f 7))\<rparr>)"

definition config_of :: "gval \<Rightarrow> config" where
  "config_of v = (let f = (\<lambda>i. vfields v ! i); g = (\<lambda>i j. vfields (vfields v ! i) ! j) in
     \<lparr>cf_Version = vstr (f 0), cf_Tests = map vstr (vitems (f 1)), cf_Parallelism = vint (f 2), cf_Timeout = vstr (f 3),
      cf_Reporters = map (\<lambda>x. \<lparr>rc_Type = vstr (vfields x ! 0), rc_Output = vstr (vfields x ! 1)\<rparr>) (vitems (f 4)),
      cf_Coverage = \<lparr>cc_Threshold = vfloat (g 5 0)\<rparr>,
      cf_Browsers = \<lparr>br_Chromium = vbool (g 6 0), br_Firefox = vbool (g 6 1), br_WebKit = vbool (g 6 2)\<rparr>,
      cf_Connectors = map (\<lambda>(k, x). (k, vmap x)) (ventries (f 7)),
      cf_Telemetry = \<lparr>te_Enabled = vbool (g 8 0), te_Output = vstr (g 8 1)\<rparr>\<rparr>)"

section \<open>Parsing\<close>

datatype schema_error = SchemaYaml decode_error | SchemaInvalid "validation_error list"

text \<open>What \<open>ParseSuite\<close> reads again from the generic map.\<close>

definition reparse :: "(string \<times> gov) list \<Rightarrow> test_suite \<Rightarrow> test_suite" where
  "reparse raw suite =
     suite\<lparr>su_Setup := parseStepsFromRaw raw ''setup'',
           su_Teardown := parseStepsFromRaw raw ''teardown'',
           su_Tests := each_map (\<lambda>tm t. t\<lparr>tc_Steps := parseStepsFromRaw tm ''steps''\<rparr>)
             (glist (map_of raw ''tests'')) (su_Tests suite),
           su_Interactions := (case map_of raw ''interactions'' of
               Some v \<Rightarrow> parseInteractions v | None \<Rightarrow> su_Interactions suite),
           su_Execution := map_option (\<lambda>ex. ex\<lparr>ex_Fleet := map_option (parseFleetProviderConfigs raw) (ex_Fleet ex)\<rparr>)
             (su_Execution suite)\<rparr>"

definition ParseSuite :: "unicode_classes \<Rightarrow> string \<Rightarrow> (schema_error + test_suite) option" where
  "ParseSuite uc data =
     (case Unmarshal uc data (TMap TAny) (VMap None) of
        None \<Rightarrow> None
      | Some (Inl e) \<Rightarrow> Some (Inl (SchemaYaml e))
      | Some (Inr raw) \<Rightarrow>
          (case Unmarshal uc data (TStruct suite_fields) (zero_of (TStruct suite_fields)) of
             None \<Rightarrow> None
           | Some (Inl e) \<Rightarrow> Some (Inl (SchemaYaml e))
           | Some (Inr v) \<Rightarrow>
               (let suite = reparse (vmap raw) (suite_of v); errs = ValidateSuite suite
                in if errs \<noteq> [] then Some (Inl (SchemaInvalid errs)) else Some (Inr suite))))"

definition ParseConfig :: "unicode_classes \<Rightarrow> string \<Rightarrow> (schema_error + config) option" where
  "ParseConfig uc data =
     (case Unmarshal uc data (TStruct config_fields) (zero_of (TStruct config_fields)) of
        None \<Rightarrow> None
      | Some (Inl e) \<Rightarrow> Some (Inl (SchemaYaml e))
      | Some (Inr v) \<Rightarrow>
          (let c = config_of v; errs = ValidateConfig c
           in if errs \<noteq> [] then Some (Inl (SchemaInvalid errs)) else Some (Inr c)))"

section \<open>What is read again\<close>

definition entries :: "unicode_classes \<Rightarrow> (string \<times> node) list \<Rightarrow> (string \<times> gov) list" where
  "entries uc ps = foldl (\<lambda>m (k, v). AList.update k v m) [] (map (\<lambda>(k, n). (k, nodeToInterface uc n)) ps)"

lemma map_of_foldl_update:
  "map_of (foldl (\<lambda>m (k, v). AList.update k v m) m kvs) k = (case map_of (rev kvs) k of None \<Rightarrow> map_of m k | Some v \<Rightarrow> Some v)"
proof (induction kvs arbitrary: m)
  case (Cons kv kvs)
  obtain j v where "kv = (j, v)" by fastforce
  with Cons show ?case by (simp add: map_add_def update_conv' split: option.split)
qed simp

lemma map_of_entries: "map_of (entries uc ps) k = map_option (nodeToInterface uc) (map_of (rev ps) k)"
  by (simp add: entries_def map_of_foldl_update rev_map map_of_map[unfolded comp_def] split: option.split)

lemma foldl_update_any:
  "vmap (VMap (Some (foldl (\<lambda>m (k, v). AList.update k (VAny v) m) m kvs)))
   = foldl (\<lambda>m (k, v). AList.update k v m) (vmap (VMap (Some m))) kvs"
proof (induction kvs arbitrary: m)
  case (Cons kv kvs)
  obtain j v where "kv = (j, v)" by fastforce
  moreover have "vmap (VMap (Some (AList.update j (VAny v) m))) = AList.update j v (vmap (VMap (Some m)))"
    by (induction m) (auto simp: v_readers)
  ultimately show ?case using Cons by simp
qed simp

lemma map_pairs_any:
  "map_pairs (\<lambda>n t v. decodeInto uc n t v) TAny ps m
   = Inr (foldl (\<lambda>m (k, v). AList.update k (VAny v) m) m (map (\<lambda>(k, n). (k, nodeToInterface uc n)) ps))"
  by (induction ps arbitrary: m) (auto simp: decodeInto.simps)

text \<open>The generic map of a document.\<close>

lemma raw_document:
  assumes "Unmarshal uc data (TMap TAny) (VMap None) = Some (Inr raw)"
  obtains ps l c where "Parse data = Some (Inr (MappingNode ps l c))" "vmap raw = entries uc ps"
proof -
  obtain n where n: "Parse data = Some (Inr n)" "decodeInto uc n (TMap TAny) (VMap None) = Inr raw"
    using assms by (auto simp: Unmarshal_def split: option.splits sum.splits)
  then obtain ps l c where p: "n = MappingNode ps l c"
    by (cases n) (auto simp: decodeInto.simps decodeSequence.simps[of uc _ "TMap TAny"])
  with n have "raw = VMap (Some (foldl (\<lambda>m (k, v). AList.update k (VAny v) m) [] (map (\<lambda>(k, n). (k, nodeToInterface uc n)) ps)))"
    by (simp add: decodeInto.simps[of uc _ "TMap TAny"] decodeMapping.simps[of uc _ "TMap TAny"] map_pairs_any)
  with foldl_update_any have "vmap raw = entries uc ps" by (simp add: entries_def v_readers)
  with n p that show thesis by blast
qed

lemma find_holds: "find P xs = Some x \<Longrightarrow> P x"
  by (auto simp: find_Some_iff)

lemma field_index_name: "field_index uc fs k = Some i \<Longrightarrow> i < length fs \<and> (case fs ! i of (n, tag, t) \<Rightarrow> field_name uc n tag = Some k)"
  unfolding field_index_def
  by (rule conjI, use find_in in fastforce) (drule find_holds, simp)

text \<open>The last entry of a field decides, for a type whose decoding does not look at the old value.\<close>

lemma struct_pairs_field:
  assumes "struct_pairs dec uc fs ps vs = Inr vs'" "field_index uc fs k = Some i" "snd (snd (fs ! i)) = t" "i < length vs"
    "\<And>n v. dec n t v = dec n t (zero_of t)"
  shows "case map_of (rev ps) k of None \<Rightarrow> vs' ! i = vs ! i | Some n \<Rightarrow> dec n t (zero_of t) = Inr (vs' ! i)"
  using assms(1,4)
proof (induction ps arbitrary: vs)
  case (Cons p ps)
  obtain j n where p: "p = (j, n)" by fastforce
  show ?case
  proof (cases "field_index uc fs j")
    case None
    then have "j \<noteq> k" using assms(2) by auto
    with Cons.IH[of vs] Cons.prems None p show ?thesis by (cases "map_of (rev ps) k") (auto simp: map_add_def)
  next
    case (Some h)
    then obtain v where v: "dec n (snd (snd (fs ! h))) (vs ! h) = Inr v" "struct_pairs dec uc fs ps (vs[h := v]) = Inr vs'"
      using Cons.prems(1) p by (auto split: sum.splits)
    note IH = Cons.IH[OF v(2)]
    show ?thesis
    proof (cases "j = k")
      case True
      with Some assms(2) have "h = i" by simp
      with v(1) assms(3,5) have "dec n t (zero_of t) = Inr v" by metis
      with IH Cons.prems(2) p True \<open>h = i\<close> show ?thesis by (simp add: map_add_def split: option.splits)
    next
      case False
      have "h \<noteq> i" using field_index_name[OF Some] field_index_name[OF assms(2)] False by (auto split: prod.splits)
      with IH Cons.prems(2) p False show ?thesis by (simp add: map_add_def split: option.splits)
    qed
  qed
qed simp

lemma slice_decoded:
  "decodeInto uc n (TSlice e) v = Inr x \<longleftrightarrow>
     (\<exists>cs l c vs. n = SequenceNode cs l c \<and> x = VSlice (Some vs) \<and> list_all2 (\<lambda>n x. decodeInto uc n e (zero_of e) = Inr x) cs vs)"
proof -
  have "seq_items (\<lambda>n t v. decodeInto uc n t v) e cs = Inr vs \<longleftrightarrow> list_all2 (\<lambda>n x. decodeInto uc n e (zero_of e) = Inr x) cs vs"
    for cs vs
    by (induction cs arbitrary: vs) (auto simp: rbind_eq_Inr list_all2_Cons1)
  then show ?thesis
    by (cases n) (auto simp: decodeInto.simps[of uc _ "TSlice e"] decodeMapping.simps[of uc _ "TSlice e"]
        decodeSequence.simps[of uc _ "TSlice e"] map_sum_Inr)
qed

lemma struct_decoded:
  assumes "decodeInto uc n (TStruct fs) (zero_of (TStruct fs)) = Inr x"
  obtains ps l c vs where "n = MappingNode ps l c" "nodeToInterface uc n = GMap (entries uc ps)" "x = VStruct vs"
    "struct_pairs (\<lambda>n t v. decodeInto uc n t v) uc fs ps (map (\<lambda>(n, tag, t). zero_of t) fs) = Inr vs"
  using assms
  by (cases n) (auto simp: decodeInto.simps[of uc _ "TStruct fs"] decodeMapping.simps[of uc _ "TStruct fs"]
      decodeSequence.simps[of uc _ "TStruct fs"] map_sum_Inr entries_def)

lemma slice_field:
  assumes "struct_pairs (\<lambda>n t v. decodeInto uc n t v) uc fs ps (map (\<lambda>(n, tag, t). zero_of t) fs) = Inr vs"
    "field_index uc fs k = Some i" "snd (snd (fs ! i)) = TSlice e"
  shows "\<exists>ns. glist (map_of (entries uc ps) k) = map (nodeToInterface uc) ns
    \<and> list_all2 (\<lambda>n x. decodeInto uc n e (zero_of e) = Inr x) ns (vitems (vs ! i))"
proof -
  have i: "i < length fs" using field_index_name[OF assms(2)] by simp
  then have z: "map (\<lambda>(n, tag, t). zero_of t) fs ! i = VSlice None" using assms(3) by (simp add: split_beta)
  have "decodeInto uc n (TSlice e) v = decodeInto uc n (TSlice e) (zero_of (TSlice e))" for n v
    by (cases n) (auto simp: decodeInto.simps[of uc _ "TSlice e"] decodeMapping.simps[of uc _ "TSlice e"]
        decodeSequence.simps[of uc _ "TSlice e"])
  from struct_pairs_field[OF assms, OF _ this] i z show ?thesis
    by (auto simp: map_of_entries glist_def slice_decoded vitems_def simp del: zero_of.simps split: option.splits)
qed

text \<open>A step of the model is what \<open>ParseTestStep\<close> makes of a map of the document: every entry that is not one of the
  known fields is a parameter, and no known field is.\<close>

definition step_read :: "gov \<Rightarrow> test_step \<Rightarrow> bool" where
  "step_read v s \<longleftrightarrow> (\<exists>m. v = GMap m \<and> s = ParseTestStep m \<and>
     (\<forall>k. map_of (ts_Parameters s) k = (if k \<in> set knownStepFields then None else map_of m k)))"

definition steps_read :: "gov option \<Rightarrow> test_step list \<Rightarrow> bool" where
  "steps_read v ss \<longleftrightarrow> list_all2 step_read (glist v) ss"

definition test_read :: "gov \<Rightarrow> test_case \<Rightarrow> bool" where
  "test_read v t \<longleftrightarrow> (\<exists>m. v = GMap m \<and> steps_read (map_of m ''steps'') (tc_Steps t))"

definition interaction_read :: "gov \<Rightarrow> interaction \<Rightarrow> bool" where
  "interaction_read v x \<longleftrightarrow> (\<exists>m. v = GMap m \<and> list_all2 test_read (glist (map_of m ''tests'')) (in_Tests x))"

lemma map_items_maps: "map_items (map GMap ms) = ms"
  by (induction ms) (simp_all add: map_items_def)

lemma struct_items:
  assumes "list_all2 (\<lambda>n x. decodeInto uc n (TStruct fs) (zero_of (TStruct fs)) = Inr x) ns xs"
  shows "\<exists>ms. map (nodeToInterface uc) ns = map GMap ms \<and> length ms = length xs
    \<and> (\<forall>i < length xs. \<exists>ps vs. ms ! i = entries uc ps \<and> xs ! i = VStruct vs
         \<and> struct_pairs (\<lambda>n t v. decodeInto uc n t v) uc fs ps (map (\<lambda>(n, tag, t). zero_of t) fs) = Inr vs)"
  using assms
proof (induction rule: list_all2_induct)
  case (Cons n ns x xs)
  obtain ps l c vs where n: "n = MappingNode ps l c" "nodeToInterface uc n = GMap (entries uc ps)" "x = VStruct vs"
    "struct_pairs (\<lambda>n t v. decodeInto uc n t v) uc fs ps (map (\<lambda>(n, tag, t). zero_of t) fs) = Inr vs"
    using struct_decoded[OF Cons.hyps(1)] .
  obtain ms where ms: "map (nodeToInterface uc) ns = map GMap ms" "length ms = length xs"
    "\<forall>i < length xs. \<exists>ps vs. ms ! i = entries uc ps \<and> xs ! i = VStruct vs
         \<and> struct_pairs (\<lambda>n t v. decodeInto uc n t v) uc fs ps (map (\<lambda>(n, tag, t). zero_of t) fs) = Inr vs"
    using Cons.IH by blast
  show ?case
  proof (intro exI[of _ "entries uc ps # ms"] conjI allI impI)
    fix i assume "i < length (x # xs)"
    then show "\<exists>qs vs. (entries uc ps # ms) ! i = entries uc qs \<and> (x # xs) ! i = VStruct vs
         \<and> struct_pairs (\<lambda>n t v. decodeInto uc n t v) uc fs qs (map (\<lambda>(n, tag, t). zero_of t) fs) = Inr vs"
      using n ms(3) by (cases i) auto
  qed (use n ms in auto)
qed simp

lemma parsed_steps:
  assumes "struct_pairs (\<lambda>n t v. decodeInto uc n t v) uc fs ps (map (\<lambda>(n, tag, t). zero_of t) fs) = Inr vs"
    "field_index uc fs k = Some i" "snd (snd (fs ! i)) = TSlice (TStruct step_fields)"
  shows "steps_read (map_of (entries uc ps) k) (parseStepsFromRaw (entries uc ps) k)"
proof -
  obtain ns where ns: "glist (map_of (entries uc ps) k) = map (nodeToInterface uc) ns"
    "list_all2 (\<lambda>n x. decodeInto uc n (TStruct step_fields) (zero_of (TStruct step_fields)) = Inr x) ns (vitems (vs ! i))"
    using slice_field[OF assms] by blast
  then obtain ms where ms: "glist (map_of (entries uc ps) k) = map GMap ms" using struct_items[OF ns(2)] by auto
  have p: "map_of (ts_Parameters (ParseTestStep m)) j = (if j \<in> set knownStepFields then None else map_of m j)" for m j
    by (induction m) (auto simp: ParseTestStep_def)
  have "list_all2 step_read (map GMap ms) (map ParseTestStep ms)"
    by (auto simp: list_all2_conv_all_nth step_read_def p)
  then show ?thesis by (simp add: steps_read_def parseStepsFromRaw_def ms map_items_maps)
qed

lemma test_steps_field: "field_index uc test_fields ''steps'' = Some 5" "snd (snd (test_fields ! 5)) = TSlice (TStruct step_fields)"
  by (simp_all add: field_index_def test_fields_def field_name_def upt_rec)

lemma interaction_tests_field:
  "field_index uc interaction_fields ''tests'' = Some 3" "snd (snd (interaction_fields ! 3)) = TSlice (TStruct test_fields)"
  by (simp_all add: field_index_def interaction_fields_def field_name_def upt_rec)

lemma suite_field:
  "field_index uc suite_fields ''setup'' = Some 2" "snd (snd (suite_fields ! 2)) = TSlice (TStruct step_fields)"
  "field_index uc suite_fields ''teardown'' = Some 3" "snd (snd (suite_fields ! 3)) = TSlice (TStruct step_fields)"
  "field_index uc suite_fields ''tests'' = Some 5" "snd (snd (suite_fields ! 5)) = TSlice (TStruct test_fields)"
  "field_index uc suite_fields ''interactions'' = Some 7" "snd (snd (suite_fields ! 7)) = TSlice (TStruct interaction_fields)"
  by (simp_all add: field_index_def suite_fields_def field_name_def upt_rec)

lemma each_map_maps: "length ms = length xs \<Longrightarrow> each_map f (map GMap ms) xs = map2 f ms xs"
  by (induction ms xs rule: list_induct2) simp_all

lemma parsed_tests:
  assumes "struct_pairs (\<lambda>n t v. decodeInto uc n t v) uc fs ps (map (\<lambda>(n, tag, t). zero_of t) fs) = Inr vs"
    "field_index uc fs k = Some i" "snd (snd (fs ! i)) = TSlice (TStruct test_fields)"
  obtains ms where "glist (map_of (entries uc ps) k) = map GMap ms" "length ms = length (vitems (vs ! i))"
    "\<forall>j < length ms. steps_read (map_of (ms ! j) ''steps'') (parseStepsFromRaw (ms ! j) ''steps'')"
proof -
  obtain ns where ns: "glist (map_of (entries uc ps) k) = map (nodeToInterface uc) ns"
    "list_all2 (\<lambda>n x. decodeInto uc n (TStruct test_fields) (zero_of (TStruct test_fields)) = Inr x) ns (vitems (vs ! i))"
    using slice_field[OF assms] by blast
  from struct_items[OF ns(2)] obtain ms where ms: "map (nodeToInterface uc) ns = map GMap ms" "length ms = length (vitems (vs ! i))"
    "\<forall>j < length ms. \<exists>qs ws. ms ! j = entries uc qs
       \<and> struct_pairs (\<lambda>n t v. decodeInto uc n t v) uc test_fields qs (map (\<lambda>(n, tag, t). zero_of t) test_fields) = Inr ws"
    by metis
  then have "\<forall>j < length ms. steps_read (map_of (ms ! j) ''steps'') (parseStepsFromRaw (ms ! j) ''steps'')"
    using parsed_steps test_steps_field by metis
  with ns(1) ms that show thesis by simp
qed

lemma inner_tests_read:
  assumes "glist v = map GMap ms" "\<forall>j < length ms. steps_read (map_of (ms ! j) ''steps'') (parseStepsFromRaw (ms ! j) ''steps'')"
  shows "list_all2 test_read (glist v) (map parse_inner_test (map_items (glist v)))"
  using assms by (auto simp: map_items_maps list_all2_conv_all_nth test_read_def parse_inner_test_def)

lemma parsed_interactions:
  assumes "struct_pairs (\<lambda>n t v. decodeInto uc n t v) uc fs ps (map (\<lambda>(n, tag, t). zero_of t) fs) = Inr vs"
    "field_index uc fs k = Some i" "snd (snd (fs ! i)) = TSlice (TStruct interaction_fields)"
  shows "list_all2 interaction_read (glist (map_of (entries uc ps) k))
    (case map_of (entries uc ps) k of Some v \<Rightarrow> parseInteractions v | None \<Rightarrow> map interaction_of (vitems (vs ! i)))"
proof -
  obtain ns where ns: "glist (map_of (entries uc ps) k) = map (nodeToInterface uc) ns"
    "list_all2 (\<lambda>n x. decodeInto uc n (TStruct interaction_fields) (zero_of (TStruct interaction_fields)) = Inr x) ns (vitems (vs ! i))"
    using slice_field[OF assms] by blast
  show ?thesis
  proof (cases "map_of (entries uc ps) k")
    case None
    with ns show ?thesis by (simp add: glist_def)
  next
    case (Some v)
    from struct_items[OF ns(2)] obtain ms where ms: "map (nodeToInterface uc) ns = map GMap ms"
      "\<forall>j < length ms. \<exists>qs ws. ms ! j = entries uc qs \<and> struct_pairs (\<lambda>n t v. decodeInto uc n t v) uc interaction_fields qs
         (map (\<lambda>(n, tag, t). zero_of t) interaction_fields) = Inr ws"
      by metis
    have "list_all2 test_read (glist (map_of (ms ! j) ''tests''))
        (map parse_inner_test (map_items (glist (map_of (ms ! j) ''tests''))))" if j: "j < length ms" for j
    proof -
      obtain qs ws where q: "ms ! j = entries uc qs" "struct_pairs (\<lambda>n t v. decodeInto uc n t v) uc interaction_fields qs
         (map (\<lambda>(n, tag, t). zero_of t) interaction_fields) = Inr ws"
        using ms(2) j by blast
      obtain ks where "glist (map_of (entries uc qs) ''tests'') = map GMap ks"
        "\<forall>j < length ks. steps_read (map_of (ks ! j) ''steps'') (parseStepsFromRaw (ks ! j) ''steps'')"
        by (rule parsed_tests[OF q(2) interaction_tests_field])
      then show ?thesis unfolding q(1) by (rule inner_tests_read)
    qed
    then have "list_all2 interaction_read (map GMap ms) (map parse_interaction ms)"
      by (intro list_all2_all_nthI) (simp_all add: interaction_read_def parse_interaction_def)
    with ns(1) ms(1) Some show ?thesis by (simp add: parseInteractions_def map_items_maps)
  qed
qed

definition suite_read :: "(string \<times> gov) list \<Rightarrow> test_suite \<Rightarrow> bool" where
  "suite_read raw su \<longleftrightarrow>
     steps_read (map_of raw ''setup'') (su_Setup su) \<and>
     steps_read (map_of raw ''teardown'') (su_Teardown su) \<and>
     list_all2 test_read (glist (map_of raw ''tests'')) (su_Tests su) \<and>
     list_all2 interaction_read (glist (map_of raw ''interactions'')) (su_Interactions su)"

lemma reparse_reads:
  assumes "struct_pairs (\<lambda>n t v. decodeInto uc n t v) uc suite_fields ps (map (\<lambda>(n, tag, t). zero_of t) suite_fields) = Inr vs"
  shows "suite_read (entries uc ps) (reparse (entries uc ps) (suite_of (VStruct vs)))"
proof -
  obtain ms where ms: "glist (map_of (entries uc ps) ''tests'') = map GMap ms" "length ms = length (vitems (vs ! 5))"
    "\<forall>j < length ms. steps_read (map_of (ms ! j) ''steps'') (parseStepsFromRaw (ms ! j) ''steps'')"
    by (rule parsed_tests[OF assms suite_field(5,6)])
  then have "list_all2 test_read (map GMap ms) (map2 (\<lambda>tm t. t\<lparr>tc_Steps := parseStepsFromRaw tm ''steps''\<rparr>) ms
      (map test_of (vitems (vs ! 5))))"
    by (auto simp: list_all2_conv_all_nth test_read_def)
  moreover have "su_Tests (reparse (entries uc ps) (suite_of (VStruct vs)))
      = map2 (\<lambda>tm t. t\<lparr>tc_Steps := parseStepsFromRaw tm ''steps''\<rparr>) ms (map test_of (vitems (vs ! 5)))"
    using ms by (simp add: reparse_def suite_of_def vfields_def each_map_maps Let_def)
  ultimately have t: "list_all2 test_read (glist (map_of (entries uc ps) ''tests'')) (su_Tests (reparse (entries uc ps) (suite_of (VStruct vs))))"
    using ms(1) by simp
  have i: "su_Interactions (reparse (entries uc ps) (suite_of (VStruct vs)))
      = (case map_of (entries uc ps) ''interactions'' of Some v \<Rightarrow> parseInteractions v | None \<Rightarrow> map interaction_of (vitems (vs ! 7)))"
    by (simp add: reparse_def suite_of_def vfields_def Let_def split: option.split)
  have "su_Setup (reparse (entries uc ps) (suite_of (VStruct vs))) = parseStepsFromRaw (entries uc ps) ''setup''"
    "su_Teardown (reparse (entries uc ps) (suite_of (VStruct vs))) = parseStepsFromRaw (entries uc ps) ''teardown''"
    by (simp_all add: reparse_def)
  with t i parsed_steps[OF assms suite_field(1,2)] parsed_steps[OF assms suite_field(3,4)]
    parsed_interactions[OF assms suite_field(7,8)]
  show ?thesis by (simp add: suite_read_def)
qed

text \<open>C17: no step gets lost between a document and a suite. When \<open>ParseSuite\<close> accepts a document, its tests, its
  interactions with their tests, and the steps of setup, teardown and every test are in one-to-one
  correspondence, in order, with the entries of the document; each step has exactly the unknown fields of its
  entry as parameters; and the suite is valid.\<close>

theorem ParseSuite_reads:
  assumes "ParseSuite uc data = Some (Inr su)"
  shows "\<exists>raw. Unmarshal uc data (TMap TAny) (VMap None) = Some (Inr raw) \<and> suite_read (vmap raw) su \<and> ValidateSuite su = []"
proof -
  obtain raw v where raw: "Unmarshal uc data (TMap TAny) (VMap None) = Some (Inr raw)"
    and v: "Unmarshal uc data (TStruct suite_fields) (zero_of (TStruct suite_fields)) = Some (Inr v)"
    and su: "su = reparse (vmap raw) (suite_of v)" "ValidateSuite su = []"
    using assms by (auto simp: ParseSuite_def Let_def split: option.splits sum.splits if_splits)
  obtain ps l c where ps: "Parse data = Some (Inr (MappingNode ps l c))" "vmap raw = entries uc ps"
    using raw_document[OF raw] .
  have "decodeInto uc (MappingNode ps l c) (TStruct suite_fields) (zero_of (TStruct suite_fields)) = Inr v"
    using v ps(1) by (simp add: Unmarshal_def)
  then obtain vs where "v = VStruct vs"
    "struct_pairs (\<lambda>n t v. decodeInto uc n t v) uc suite_fields ps (map (\<lambda>(n, tag, t). zero_of t) suite_fields) = Inr vs"
    by (rule struct_decoded) simp
  then show ?thesis using reparse_reads raw su ps(2) by metis
qed

section \<open>What validation accepts\<close>

definition sound_test :: "test_case \<Rightarrow> bool" where
  "sound_test t \<longleftrightarrow> tc_Name t \<noteq> [] \<and> tc_Steps t \<noteq> [] \<and> 0 \<le> tc_Weight t \<and> (\<forall>s \<in> set (tc_Steps t). ts_Action s \<noteq> [])"

definition sound_mode :: "string \<Rightarrow> bool" where
  "sound_mode m \<longleftrightarrow> m \<in> {[], ModeSequential, ModeRandom, ModeConcurrent, ModeWeighted}"

definition sound_interaction :: "interaction \<Rightarrow> bool" where
  "sound_interaction x \<longleftrightarrow> in_Name x \<noteq> [] \<and> 0 \<le> in_Weight x \<and> sound_mode (in_Mode x) \<and> in_Tests x \<noteq> []
     \<and> (\<forall>t \<in> set (in_Tests x). sound_test t)"

definition sound_provider :: "fleet_provider \<Rightarrow> bool" where
  "sound_provider p \<longleftrightarrow> fp_Provider p \<noteq> [] \<and> 0 \<le> fp_Weight p \<and> 0 \<le> fp_TTL p"

definition sound_fleet :: "fleet_config \<Rightarrow> bool" where
  "sound_fleet fl \<longleftrightarrow> fc_Providers fl \<noteq> [] \<and> (\<forall>p \<in> set (fc_Providers fl). sound_provider p)
     \<and> sum_list (map fp_Weight (fc_Providers fl)) mod 2 ^ 64 = 100"

definition sound_time :: "string \<Rightarrow> bool" where
  "sound_time s \<longleftrightarrow> s = [] \<or> (\<exists>d. parse_duration s = Some d)"

definition sound_execution :: "execution \<Rightarrow> bool" where
  "sound_execution ex \<longleftrightarrow> sound_mode (ex_Mode ex) \<and> 0 \<le> ex_Concurrency ex \<and> 0 \<le> ex_Repeat ex
     \<and> sound_time (ex_Duration ex) \<and> sound_time (ex_Interval ex)
     \<and> (ex_Mode ex = ModeConcurrent \<longrightarrow> 0 < ex_Concurrency ex)
     \<and> (0 < ex_Repeat ex \<or> ex_Duration ex \<noteq> [])
     \<and> (\<forall>fl. ex_Fleet ex = Some fl \<longrightarrow> sound_fleet fl)"

definition sound_suite :: "test_suite \<Rightarrow> bool" where
  "sound_suite su \<longleftrightarrow> su_Suite su \<noteq> [] \<and> (su_Tests su = []) \<noteq> (su_Interactions su = [])
     \<and> (\<forall>t \<in> set (su_Tests su). sound_test t) \<and> (\<forall>x \<in> set (su_Interactions su). sound_interaction x)
     \<and> (\<forall>ex. su_Execution su = Some ex \<longrightarrow> sound_execution ex)"

lemma validateTests_sound: "validateTests pl ts = [] \<longleftrightarrow> (\<forall>t \<in> set ts. sound_test t)"
  unfolding validateTests_def each_index_Nil all_set_conv_all_nth sound_test_def
  by (simp add: each_index_Nil not_less)

lemma sound_modes: "m \<noteq> [] \<and> m \<notin> set validExecutionModes \<longleftrightarrow> \<not> sound_mode m"
  by (simp add: sound_mode_def validExecutionModes_def)

lemma validateInteraction_sound: "validateInteraction i x = [] \<longleftrightarrow> sound_interaction x"
  by (simp add: validateInteraction_def sound_modes validateTests_sound sound_interaction_def not_less)

lemma total_weight_sum: "total_weight ps mod 2 ^ 64 = sum_list (map fp_Weight ps) mod 2 ^ 64"
proof -
  have "foldl (\<lambda>tot p. wrap64 (tot + fp_Weight p)) a ps mod 2 ^ 64 = (a + sum_list (map fp_Weight ps)) mod 2 ^ 64" for a
  proof (induction ps arbitrary: a)
    case (Cons p ps)
    have "(wrap64 (a + fp_Weight p) + sum_list (map fp_Weight ps)) mod 2 ^ 64 = (a + fp_Weight p + sum_list (map fp_Weight ps)) mod 2 ^ 64"
      by (intro mod_add_cong wrap64_mod refl)
    with Cons show ?case by (simp add: add.assoc)
  qed simp
  from this[of 0] show ?thesis by (simp add: total_weight_def)
qed

lemma total_weight_100: "total_weight ps = 100 \<longleftrightarrow> sum_list (map fp_Weight ps) mod 2 ^ 64 = 100"
proof -
  have "in_int64 (foldl (\<lambda>tot p. wrap64 (tot + fp_Weight p)) a ps)" if "in_int64 a" for a
    using that by (induction ps arbitrary: a) simp_all
  from this[of 0] have "in_int64 (total_weight ps)" by (simp add: total_weight_def in_int64_def)
  then have "total_weight ps = 100 \<longleftrightarrow> total_weight ps mod 2 ^ 64 = 100"
    using wrap64_cong[of "total_weight ps" 100] by (auto simp: in_int64_def)
  with total_weight_sum[of ps] show ?thesis by simp
qed

lemma validateFleetConfig_sound: "validateFleetConfig fl = [] \<longleftrightarrow> sound_fleet fl"
  by (simp add: validateFleetConfig_def Let_def each_index_Nil all_set_conv_all_nth sound_provider_def sound_fleet_def
      total_weight_100 not_less)

lemma bad_time: "d \<noteq> [] \<and> parse_duration d = None \<longleftrightarrow> \<not> sound_time d"
  by (auto simp: sound_time_def)

lemma validateExecution_sound: "validateExecution ex = [] \<longleftrightarrow> sound_execution ex"
proof -
  have "(case ex_Fleet ex of Some fleet \<Rightarrow> validateFleetConfig fleet | None \<Rightarrow> []) = [] \<longleftrightarrow> (\<forall>fl. ex_Fleet ex = Some fl \<longrightarrow> sound_fleet fl)"
    by (simp add: validateFleetConfig_sound split: option.split)
  then show ?thesis
    unfolding validateExecution_def sound_execution_def append_is_Nil_conv complain_Nil sound_modes bad_time
    by (auto simp: not_less order_le_less)
qed

text \<open>C18: validation finds exactly the defects. \<open>ValidateSuite\<close> has no complaint just for the suites that have a
  name, either tests or interactions, named tests of steps that all have an action, weights that are not
  negative, known modes, durations that parse, a bound on the number of passes or their time, and a fleet of named
  providers whose weights sum up to 100 (as a 64-bit sum).\<close>

theorem ValidateSuite_exact: "ValidateSuite su = [] \<longleftrightarrow> sound_suite su"
  by (auto simp: ValidateSuite_def Let_def validateTests_sound each_index_Nil validateInteraction_sound all_set_conv_all_nth
      validateExecution_sound sound_suite_def split: option.splits)

text \<open>A suite of one test.\<close>

definition demo_yaml :: string where
  "demo_yaml = ''suite: s\<newline>tests:\<newline>  - name: t\<newline>    steps:\<newline>      - action: a\<newline>        path: p''"

lemma Parse_demo_yaml:
  "Parse demo_yaml = Some (Inr (MappingNode
     [(''suite'', ScalarNode ''s'' 1 8),
      (''tests'', SequenceNode
        [MappingNode
          [(''name'', ScalarNode ''t'' 3 11),
           (''steps'', SequenceNode
             [MappingNode [(''action'', ScalarNode ''a'' 5 17), (''path'', ScalarNode ''p'' 6 15)] 5 9] 5 7)] 3 5] 3 3)] 1 1))"
  (is "_ = Some (Inr ?n)")
proof -
  let ?ts = "[mk_token TokenMappingKey ''suite'' 1 1 0, mk_token TokenScalar ''s'' 1 8 0,
    mk_token TokenMappingKey ''tests'' 2 1 0, mk_token TokenSequenceEntry [] 3 3 2, mk_token TokenMappingKey ''name'' 3 5 0,
    mk_token TokenScalar ''t'' 3 11 0, mk_token TokenMappingKey ''steps'' 4 5 4, mk_token TokenSequenceEntry [] 5 7 6,
    mk_token TokenMappingKey ''action'' 5 9 0, mk_token TokenScalar ''a'' 5 17 0, mk_token TokenMappingKey ''path'' 6 9 8,
    mk_token TokenScalar ''p'' 6 15 0, mk_token TokenEOF [] 6 16 0]"
  have "ScanAll demo_yaml = Inr ?ts" unfolding demo_yaml_def by (simp add: yaml_eval)
  moreover have "parseDocument (parse_fuel ?ts) ?ts = Some (Inr (?n, [mk_token TokenEOF [] 6 16 0]))"
    by (simp add: parse_fuel_def parseDocument_def parseNode_def peek_tok_def next_tok_def mk_token_def eval_nat_numeral
        next_mapIndent_def scalar_of_def Let_def)
  ultimately show ?thesis by (simp add: Parse_def)
qed

lemma interpretScalar_word:
  assumes "c \<in> {CHR ''s'', CHR ''t'', CHR ''a'', CHR ''p''}"
  shows "interpretScalar uc [c] = GStr [c]"
proof -
  have "to_lower uc [c] = [c]" using assms by (intro to_lower_plain) (auto simp: is_ascii_def)
  then show ?thesis using assms
    by (auto simp: interpretScalar_def isInteger_def digit_rest_def isFloat_def is_digit_def)
qed

definition demo_parsed :: test_suite where
  "demo_parsed =
     \<lparr>su_Suite = ''s'', su_Tags = [], su_Setup = [], su_Teardown = [], su_Fixtures = [],
      su_Tests =
        [\<lparr>tc_Name = ''t'', tc_Connector = [], tc_Tags = [], tc_Skip = False, tc_Weight = 0,
          tc_Steps =
            [\<lparr>ts_Connector = [], ts_Action = ''a'', ts_Parameters = [(''path'', GStr ''p'')], ts_Assert = [],
              ts_Capture = [], ts_Timeout = []\<rparr>]\<rparr>],
      su_Execution = None, su_Interactions = []\<rparr>"

lemma ParseSuite_demo: "ParseSuite ascii_classes demo_yaml = Some (Inr demo_parsed)"
proof -
  have s: "interpretScalar uc [c] = GStr [c]" if "c \<in> {CHR ''s'', CHR ''t'', CHR ''a'', CHR ''p''}" for uc c
    using that by (rule interpretScalar_word)
  have raw: "\<exists>raw. Unmarshal ascii_classes demo_yaml (TMap TAny) (VMap None) = Some (Inr raw) \<and>
    vmap raw = [(''suite'', GStr ''s''), (''tests'', GList [GMap [(''name'', GStr ''t''),
      (''steps'', GList [GMap [(''action'', GStr ''a''), (''path'', GStr ''p'')]])]])]"
    by (simp add: Unmarshal_def Parse_demo_yaml decode_eval s vmap_def ventries_def vany_def)
  have v: "\<exists>v. Unmarshal ascii_classes demo_yaml (TStruct suite_fields) (zero_of (TStruct suite_fields)) = Some (Inr v) \<and>
    suite_of v = demo_parsed\<lparr>su_Tests := [hd (su_Tests demo_parsed)\<lparr>tc_Steps := [hd (tc_Steps (hd (su_Tests demo_parsed)))\<lparr>ts_Parameters := []\<rparr>]\<rparr>]\<rparr>"
    by (simp add: Unmarshal_def Parse_demo_yaml decode_eval suite_fields_def test_fields_def step_fields_def field_index_def
        field_name_def upt_rec suite_of_def test_of_def step_of_def v_readers demo_parsed_def Let_def)
  have re: "reparse [(''suite'', GStr ''s''), (''tests'', GList [GMap [(''name'', GStr ''t''),
      (''steps'', GList [GMap [(''action'', GStr ''a''), (''path'', GStr ''p'')]])]])]
     (demo_parsed\<lparr>su_Tests := [hd (su_Tests demo_parsed)\<lparr>tc_Steps := [hd (tc_Steps (hd (su_Tests demo_parsed)))\<lparr>ts_Parameters := []\<rparr>]\<rparr>]\<rparr>) = demo_parsed"
    by (simp add: reparse_def demo_parsed_def parseStepsFromRaw_def glist_def map_items_def ParseTestStep_def gstr_def
        knownStepFields_def)
  have "ValidateSuite demo_parsed = []"
    by (simp add: ValidateSuite_def demo_parsed_def validateTests_def each_index_def complain_def)
  with raw v re show ?thesis by (auto simp: ParseSuite_def Let_def)
qed

theorem ParseSuite_reads_witness:
  "\<exists>raw. Unmarshal ascii_classes demo_yaml (TMap TAny) (VMap None) = Some (Inr raw) \<and> suite_read (vmap raw) demo_parsed"
  using ParseSuite_reads[OF ParseSuite_demo] by blast

end
