(* ===== verification/Accepted_Suites.thy ===== *)
theory Accepted_Suites
  imports Engine Schema_Parse
begin

text \<open>
  Validation and engine together: which of the suites that core/schema accepts make the engine's loop over the
  passes end.
\<close>

lemma loop_run_counts:
  assumes "0 < lc_repeat lc"
  shows "loop_run en lc stop pass n w \<noteq> None"
proof (induction "nat (lc_repeat lc - n)" arbitrary: n w rule: less_induct)
  case less
  show ?case
  proof (cases "stop w \<or> n + 1 > lc_repeat lc")
    case True
    with assms show ?thesis by (subst loop_run.simps) auto
  next
    case False
    obtain p w1 where p: "pass stop (n + 1) w = (p, w1)" by fastforce
    obtain d w2 where d: "le_sleep en (lc_interval lc) w1 = (d, w2)" by fastforce
    have "loop_run en lc stop pass (n + 1) v \<noteq> None" for v
      using less.hyps[of "n + 1" v] False by simp
    moreover have "loop_run en lc stop pass n w =
      (if p \<noteq> None then Some (p, w1)
       else if lc_repeat lc > 0 \<and> n + 1 \<ge> lc_repeat lc then Some (None, w1)
       else if lc_interval lc > 0 then (if d then Some (None, w2) else loop_run en lc stop pass (n + 1) w2)
       else loop_run en lc stop pass (n + 1) w1)"
      using False by (intro loop_run_step p d) auto
    ultimately show ?thesis by simp
  qed
qed

lemma loop_run_endless:
  assumes "lc_repeat lc \<le> 0" "\<And>w. \<not> stop w" "\<And>n w. fst (pass stop n w) = None" "\<And>d w. \<not> fst (le_sleep en d w)"
  shows "loop_run en lc stop pass n w = None"
proof -
  have "loop_run en lc stop pass n w = Some r \<Longrightarrow> en = en \<and> lc = lc \<and> stop = stop \<and> pass = pass \<longrightarrow> False" for r
  proof (rule loop_run.raw_induct[where P = "\<lambda>en' lc' stop' pass' n w r. en' = en \<and> lc' = lc \<and> stop' = stop \<and> pass' = pass \<longrightarrow> False"])
    fix f en' lc' stop' pass' n w r
    assume IH: "\<And>en' lc' stop' pass' n w r. f en' lc' stop' pass' n w = Some r \<Longrightarrow>
        en' = en \<and> lc' = lc \<and> stop' = stop \<and> pass' = pass \<longrightarrow> False"
      and r: "(if stop' w then Some (None, w)
        else if 0 < lc_repeat lc' \<and> lc_repeat lc' < n + 1 then Some (None, w)
        else let (p, w1) = pass' stop' (n + 1) w
             in if p \<noteq> None then Some (p, w1)
                else if 0 < lc_repeat lc' \<and> lc_repeat lc' \<le> n + 1 then Some (None, w1)
                else if 0 < lc_interval lc'
                then let (d, w2) = le_sleep en' (lc_interval lc') w1
                     in if d then Some (None, w2) else f en' lc' stop' pass' (n + 1) w2
                else f en' lc' stop' pass' (n + 1) w1) = Some r"
    show "en' = en \<and> lc' = lc \<and> stop' = stop \<and> pass' = pass \<longrightarrow> False"
    proof
      assume e: "en' = en \<and> lc' = lc \<and> stop' = stop \<and> pass' = pass"
      obtain p w1 where p: "pass stop (n + 1) w = (p, w1)" by fastforce
      obtain d w2 where d: "le_sleep en (lc_interval lc) w1 = (d, w2)" by fastforce
      have pd: "p = None" "\<not> d" using assms(3)[of "n + 1" w] assms(4)[of "lc_interval lc" w1] p d by auto
      have IH': "f en lc stop pass (n + 1) v \<noteq> Some r" for v using IH by blast
      from r e p d pd assms(1,2) IH' show False by (simp split: if_splits)
    qed
  qed
  then show ?thesis by (cases "loop_run en lc stop pass n w") auto
qed

text \<open>A pass of the suite, as \<^const>\<open>run_passes\<close> gives it to the loop.\<close>

definition suite_pass ::
  "('w, 'x) engine \<Rightarrow> orch option \<Rightarrow> test_suite \<Rightarrow> 'w suite_state \<Rightarrow> ('w suite_state \<Rightarrow> bool) \<Rightarrow> int \<Rightarrow> 'w suite_state
    \<Rightarrow> string option \<times> 'w suite_state" where
  "suite_pass e orch su st stop n =
     (let ex = execution_of su; inters = interactions_of su
      in Dispatch (dispatch_env_of e stop)
           (NewDispatcher (ex_Mode ex) (ex_Concurrency ex) (map (\<lambda>i. weight_or_1 (in_Weight i)) inters))
           (if ex_Mode ex = ModeWeighted then 1 else length inters)
           (pass_work e (in_pass e (parseDuration (ex_Duration ex)) (eg_now e (rs_world (fst st)))) orch su stop n))"

definition suite_loop :: "test_suite \<Rightarrow> loop_controller" where
  "suite_loop su =
     (let ex = execution_of su; duration = parseDuration (ex_Duration ex)
      in NewLoopController (if ex_Repeat ex = 0 \<and> duration = 0 then 1 else ex_Repeat ex) duration (parseDuration (ex_Interval ex)))"

lemma run_passes_loop: "run_passes e orch su st = Loop_Run (loop_env_of e) (suite_loop su) (suite_pass e orch su st) st"
  unfolding run_passes_def suite_pass_def[abs_def] suite_loop_def Let_def by (rule refl)

definition time_limit :: "test_suite \<Rightarrow> int" where
  "time_limit su = parseDuration (ex_Duration (execution_of su))"

lemma accepted_repeat:
  assumes "ValidateSuite su = []"
  shows "0 \<le> ex_Repeat (execution_of su)"
  using assms unfolding ValidateSuite_exact sound_suite_def
  by (auto simp: execution_of_def sound_execution_def split: option.splits)

text \<open>Nothing outside the program stops the passes: the context stays alive, no pause is interrupted and
  no pass panics.\<close>

definition undisturbed :: "('w, 'x) engine \<Rightarrow> orch option \<Rightarrow> test_suite \<Rightarrow> 'w suite_state \<Rightarrow> bool" where
  "undisturbed e orch su st \<longleftrightarrow> (\<forall>w. \<not> le_done (loop_env_of e) w) \<and> (\<forall>d w. \<not> fst (le_sleep (loop_env_of e) d w))
     \<and> (\<forall>stop n w. fst (suite_pass e orch su st stop n w) = None)"

text \<open>A pass takes time, if it is begun before the time is up, and pauses do not go back in time.\<close>

definition passes_take_time :: "('w, 'x) engine \<Rightarrow> orch option \<Rightarrow> test_suite \<Rightarrow> 'w suite_state \<Rightarrow> bool" where
  "passes_take_time e orch su st \<longleftrightarrow>
     takes_time (loop_env_of e) (run_done (loop_env_of e) (suite_loop su) (le_now (loop_env_of e) st)) (suite_pass e orch su st)"

text \<open>C13: what validation guarantees of the passes. Take a suite that \<open>ValidateSuite\<close> accepts and that has no
  concurrent mode. The passes of the engine over it end when it has a repeat count or its duration is zero; they
  end as well when its duration is positive and each pass that is begun in time takes some time. They do not
  end when its duration is negative and it has no repeat count, which validation accepts: then the time limit is never reached, and
  passes that nothing disturbs (the context stays alive, no pause is interrupted and no pass panics) go on for ever.\<close>

theorem accepted_suite_passes:
  assumes "ValidateSuite su = []" "sequential_suite su"
  shows "(0 < ex_Repeat (execution_of su) \<or> time_limit su = 0 \<longrightarrow> run_passes e orch su st \<noteq> None)
    \<and> (0 < time_limit su \<and> passes_take_time e orch su st \<longrightarrow> run_passes e orch su st \<noteq> None)
    \<and> (ex_Repeat (execution_of su) = 0 \<and> time_limit su < 0 \<and> undisturbed e orch su st \<longrightarrow> run_passes e orch su st = None)"
proof (intro conjI impI)
  assume "0 < ex_Repeat (execution_of su) \<or> time_limit su = 0"
  moreover have "0 \<le> ex_Repeat (execution_of su)" by (rule accepted_repeat[OF assms(1)])
  ultimately show "run_passes e orch su st \<noteq> None"
    unfolding run_passes_loop Loop_Run_def
    by (intro loop_run_counts) (auto simp: suite_loop_def NewLoopController_def time_limit_def Let_def)
next
  assume "0 < time_limit su \<and> passes_take_time e orch su st"
  then show "run_passes e orch su st \<noteq> None"
    unfolding run_passes_loop Loop_Run_def passes_take_time_def
    by (intro loop_run_timed[where start = "le_now (loop_env_of e) st"])
      (auto simp: run_done_def suite_loop_def NewLoopController_def time_limit_def Let_def)
next
  assume h: "ex_Repeat (execution_of su) = 0 \<and> time_limit su < 0 \<and> undisturbed e orch su st"
  show "run_passes e orch su st = None"
    unfolding run_passes_loop Loop_Run_def using h
    by (intro loop_run_endless) (auto simp: suite_loop_def NewLoopController_def time_limit_def run_done_def undisturbed_def Let_def)
qed

text \<open>A suite with a negative duration whose only test is skipped.\<close>

definition endless_suite :: test_suite where
  "endless_suite = demo_parsed\<lparr>
     su_Tests := [hd (su_Tests demo_parsed)\<lparr>tc_Skip := True\<rparr>],
     su_Execution := Some \<lparr>ex_Mode = [], ex_Concurrency = 0, ex_Duration = ''-1s'', ex_Repeat = 0, ex_Interval = [],
       ex_Fleet = None\<rparr>\<rparr>"

lemma endless_duration: "parse_duration ''-1s'' = Some (- 1000000000)"
  by (simp add: parse_duration_def duration_loop.simps duration_part_def Let_def is_digit_def digit_val_def two63_def unit_map_def)

lemma endless_accepted: "ValidateSuite endless_suite = []"
  by (simp add: ValidateSuite_def endless_suite_def demo_parsed_def validateTests_def each_index_def complain_def
      validateExecution_def validExecutionModes_def endless_duration ModeConcurrent_def ModeWeighted_def)

lemma endless_undisturbed: "undisturbed demo_engine None endless_suite st"
proof -
  have "fst (suite_pass demo_engine None endless_suite st stop n w) = None" for stop n w
    by (simp add: suite_pass_def endless_suite_def demo_parsed_def execution_of_def interactions_of_def NewDispatcher_def
        ModeRandom_def ModeConcurrent_def ModeWeighted_def ModeSequential_def Sequential_Dispatch_def dispatch_env_of_def
        pass_work_def runInteraction_def interaction_work_def Let_def split: prod.split option.split)
  then show ?thesis by (auto simp: undisturbed_def loop_env_of_def demo_engine_def demo_runner_def)
qed

text \<open>A suite that may take five nanoseconds, with a connector whose \<open>Setup\<close> takes one and fails; the world is the clock.\<close>

definition timed_engine :: "(int, unit) engine" where
  "timed_engine = \<lparr>eg_runner = \<lparr>rn_registry = [(''demo'', \<lambda>_. \<lparr>cn_Setup = (\<lambda>c t. (Some ''down'', t + 1)),
         cn_Execute = (\<lambda>s t. (Inl ''down'', t)), cn_Teardown = (\<lambda>t. (None, t)), cn_panic = (\<lambda>call t. None)\<rparr>)],
       rn_telemetry = False, rn_classes = ascii_classes, rn_env = (\<lambda>_. None), rn_compile = (\<lambda>_. None), rn_ctx_err = (\<lambda>_. None),
       rn_err_text = (\<lambda>_. ''error'')\<rparr>,
     eg_parallelism = 1, eg_connectorConfigs = None, eg_exprRegistry = None, eg_fleetRegistry = None, eg_now = (\<lambda>t. t),
     eg_sleep = (\<lambda>d t. (False, t + max 0 d)), eg_shuffle = (\<lambda>_ _. 0), eg_draw = (\<lambda>_ _. 0), eg_order = (\<lambda>_ n _. [0..<n]),
     eg_fleet_env = demo_env\<rparr>"

definition timed_suite :: test_suite where
  "timed_suite = demo_parsed\<lparr>
     su_Tests := [hd (su_Tests demo_parsed)\<lparr>tc_Connector := ''demo''\<rparr>],
     su_Execution := Some \<lparr>ex_Mode = [], ex_Concurrency = 0, ex_Duration = ''5ns'', ex_Repeat = 0, ex_Interval = [],
       ex_Fleet = None\<rparr>\<rparr>"

definition timed_state :: "int run_state" where
  "timed_state = \<lparr>rs_world = 0, rs_store = NewStore [], rs_coverage = None, rs_log = []\<rparr>"

lemma timed_duration: "parse_duration ''5ns'' = Some 5"
  by (simp add: parse_duration_def duration_loop.simps duration_part_def Let_def is_digit_def digit_val_def two63_def unit_map_def)

lemma timed_accepted: "ValidateSuite timed_suite = []" "sequential_suite timed_suite"
  by (simp_all add: ValidateSuite_def timed_suite_def demo_parsed_def validateTests_def each_index_def complain_def
      validateExecution_def validExecutionModes_def timed_duration ModeConcurrent_def ModeWeighted_def ModeSequential_def
      sequential_suite_def execution_of_def interactions_of_def)

lemma timed_pass:
  assumes stop: "\<And>w. stop w \<longleftrightarrow> 5 \<le> rs_world (fst w)" and "\<not> stop w"
  shows "rs_world (fst (snd (suite_pass timed_engine None timed_suite (timed_state, sr0) stop n w))) = rs_world (fst w) + 1"
proof -
  obtain s sr where w: "w = (s, sr)" by fastforce
  have k: "(5 \<le> rs_world s) = False" using assms(2) stop[of w] w by simp
  show ?thesis
    unfolding suite_pass_def
    by (simp add: w stop k timed_suite_def demo_parsed_def execution_of_def interactions_of_def NewDispatcher_def
        ModeRandom_def ModeConcurrent_def ModeWeighted_def ModeSequential_def Sequential_Dispatch_def dispatch_env_of_def
        pass_work_def runInteraction_def interaction_work_def run_one_def RunTest_def runStep_def in_pass_def timed_engine_def
        NewTestContext_def record_event_def emitTelemetry_def logged_def on_coverage_def connector_Get_def failed_step_def
        parseDuration_def timed_duration timed_state_def Let_def split: prod.split option.split)
qed

lemma timed_takes_time: "passes_take_time timed_engine None timed_suite (timed_state, new_result timed_suite)"
proof -
  let ?en = "loop_env_of timed_engine" and ?st = "(timed_state, new_result timed_suite)"
  have stop: "run_done ?en (suite_loop timed_suite) (le_now ?en ?st) w \<longleftrightarrow> 5 \<le> rs_world (fst w)" for w
    by (cases w) (simp add: run_done_def suite_loop_def loop_env_of_def timed_engine_def timed_suite_def execution_of_def
        NewLoopController_def parseDuration_def timed_duration timed_state_def Let_def)
  note timed_pass[of "run_done ?en (suite_loop timed_suite) (le_now ?en ?st)", OF stop]
  moreover have "le_now ?en w = rs_world (fst w)" for w by (cases w) (simp add: loop_env_of_def timed_engine_def)
  moreover have "rs_world (fst w) \<le> rs_world (fst (snd (le_sleep ?en d w)))" for d w
    by (cases w) (simp add: loop_env_of_def timed_engine_def)
  ultimately show ?thesis by (simp add: passes_take_time_def takes_time_def)
qed

theorem accepted_suite_passes_witness:
  "ValidateSuite endless_suite = [] \<and> run_passes demo_engine None endless_suite (demo_state, new_result endless_suite) = None
   \<and> run_passes demo_engine None demo_parsed (demo_state, new_result endless_suite) \<noteq> None
   \<and> run_passes timed_engine None timed_suite (timed_state, new_result timed_suite) \<noteq> None"
proof -
  have q: "sequential_suite endless_suite" "sequential_suite demo_parsed"
    by (simp_all add: sequential_suite_def endless_suite_def demo_parsed_def execution_of_def interactions_of_def
        ModeSequential_def ModeConcurrent_def)
  have "time_limit endless_suite < 0" "ex_Repeat (execution_of endless_suite) = 0"
    by (simp_all add: time_limit_def execution_of_def endless_suite_def parseDuration_def endless_duration)
  with accepted_suite_passes[OF endless_accepted q(1), of demo_engine None "(demo_state, new_result endless_suite)"] endless_undisturbed
  have "run_passes demo_engine None endless_suite (demo_state, new_result endless_suite) = None" by blast
  moreover have "ValidateSuite demo_parsed = []"
    by (simp add: ValidateSuite_def demo_parsed_def validateTests_def each_index_def complain_def)
  moreover have "0 < ex_Repeat (execution_of demo_parsed)" by (simp add: demo_parsed_def execution_of_def)
  moreover have "0 < time_limit timed_suite"
    by (simp add: time_limit_def execution_of_def timed_suite_def parseDuration_def timed_duration)
  ultimately show ?thesis
    using accepted_suite_passes[of demo_parsed demo_engine None "(demo_state, new_result endless_suite)"] q(2) endless_accepted
      accepted_suite_passes[OF timed_accepted, of timed_engine None "(timed_state, new_result timed_suite)"] timed_takes_time by blast
qed

end
