(* ===== verification/Config.thy ===== *)
theory Config
  imports Schema_Parse
begin

text \<open>
  core/config: the defaults, the configuration file read over them, the command-line flags and their merge into the
  configuration. The file system is a parameter (the contents of a path, or an error); the loop of \<open>flag.FlagSet.Parse\<close>
  and the values of its flags are written out as far as \<open>ParseFlags\<close> uses them. \<open>Load\<close>, which joins a directory
  with the name of the file, is not modelled.
\<close>

section \<open>Defaults and files\<close>

definition Defaults :: config where
  "Defaults =
     \<lparr>cf_Version = [], cf_Tests = [], cf_Parallelism = 1, cf_Timeout = ''30s'',
      cf_Reporters = [\<lparr>rc_Type = ''ansi'', rc_Output = []\<rparr>],
      cf_Coverage = \<lparr>cc_Threshold = Fin 98\<rparr>,
      cf_Browsers = \<lparr>br_Chromium = False, br_Firefox = False, br_WebKit = False\<rparr>,
      cf_Connectors = [],
      cf_Telemetry = \<lparr>te_Enabled = True, te_Output = ''scrutineer.log''\<rparr>\<rparr>"

text \<open>A configuration as the decoder sees it; a nil slice or map is the empty one of the model.\<close>

definition slice_value :: "gval list \<Rightarrow> gval" where
  "slice_value vs = VSlice (if vs = [] then None else Some vs)"

definition map_value :: "(string \<times> gval) list \<Rightarrow> gval" where
  "map_value m = VMap (if m = [] then None else Some m)"

definition config_value :: "config \<Rightarrow> gval" where
  "config_value c = VStruct
     [VString (cf_Version c), slice_value (map VString (cf_Tests c)), VInt (cf_Parallelism c), VString (cf_Timeout c),
      slice_value (map (\<lambda>r. VStruct [VString (rc_Type r), VString (rc_Output r)]) (cf_Reporters c)),
      VStruct [VFloat (cc_Threshold (cf_Coverage c))],
      VStruct [VBool (br_Chromium (cf_Browsers c)), VBool (br_Firefox (cf_Browsers c)), VBool (br_WebKit (cf_Browsers c))],
      map_value (map (\<lambda>(k, m). (k, map_value (map (\<lambda>(j, v). (j, VAny v)) m))) (cf_Connectors c)),
      VStruct [VBool (te_Enabled (cf_Telemetry c)), VString (te_Output (cf_Telemetry c))]]"

lemma config_of_value: "config_of (config_value c) = c"
proof -
  have m: "vmap (map_value (map (\<lambda>(j, v). (j, VAny v)) m)) = m" for m
    by (cases m) (auto simp: map_value_def v_readers split_beta comp_def)
  have "ventries (map_value xs) = xs" "vitems (slice_value vs) = vs" for xs vs
    by (simp_all add: map_value_def slice_value_def v_readers)
  moreover have "map (\<lambda>x. \<lparr>rc_Type = rc_Type x, rc_Output = rc_Output x\<rparr>) rs = rs" for rs :: "reporter_config list"
    by (induction rs) simp_all
  ultimately show ?thesis using m
    by (intro config.equality) (simp_all add: config_of_def config_value_def v_readers(1-4,8) Let_def comp_def split_beta)
qed

datatype load_error = ReadingFailed string | ParsingFailed decode_error

definition LoadFromFile :: "unicode_classes \<Rightarrow> (string \<Rightarrow> string + string) \<Rightarrow> string \<Rightarrow> (load_error + config) option" where
  "LoadFromFile uc read path =
     (case read path of
        Inl err \<Rightarrow> Some (Inl (ReadingFailed err))
      | Inr data \<Rightarrow>
          (case Unmarshal uc data (TStruct config_fields) (config_value Defaults) of
             None \<Rightarrow> None
           | Some (Inl e) \<Rightarrow> Some (Inl (ParsingFailed e))
           | Some (Inr v) \<Rightarrow> Some (Inr (config_of v))))"

section \<open>Flags\<close>

record flags =
  fl_ConfigFile :: string
  fl_Parallelism :: int
  fl_Timeout :: string
  fl_Format :: string
  fl_Verbose :: bool
  fl_Tags :: "string list"

definition no_flags :: flags where
  "no_flags = \<lparr>fl_ConfigFile = [], fl_Parallelism = 0, fl_Timeout = [], fl_Format = [], fl_Verbose = False, fl_Tags = []\<rparr>"

definition tags_String :: "string list \<Rightarrow> string" where
  "tags_String tags = (if tags = [] then [] else join_on CHR '','' tags)"

definition tags_Set :: "string list \<Rightarrow> string \<Rightarrow> string list" where
  "tags_Set tags val = tags @ filter (\<lambda>t. t \<noteq> []) (map trim_space (split_on CHR '','' val))"

definition Merge :: "config \<Rightarrow> flags \<Rightarrow> config" where
  "Merge cfg fl =
     (let c1 = (if fl_Parallelism fl \<noteq> 0 then cfg\<lparr>cf_Parallelism := fl_Parallelism fl\<rparr> else cfg);
          c2 = (if fl_Timeout fl \<noteq> [] then c1\<lparr>cf_Timeout := fl_Timeout fl\<rparr> else c1);
          c3 = (if fl_Format fl \<noteq> [] then c2\<lparr>cf_Reporters := [\<lparr>rc_Type = fl_Format fl, rc_Output = []\<rparr>]\<rparr> else c2);
          c4 = (if fl_Verbose fl then c3\<lparr>cf_Telemetry := (cf_Telemetry c3)\<lparr>te_Enabled := True\<rparr>\<rparr> else c3)
      in if fl_Tags fl \<noteq> [] then c4\<lparr>cf_Tests := fl_Tags fl\<rparr> else c4)"

subsection \<open>The flag package\<close>

definition lower_char :: "char \<Rightarrow> char" where
  "lower_char c = (if 65 \<le> rn c \<and> rn c \<le> 90 then char_of (rn c + 32) else c)"

text \<open>\<open>strconv.ParseInt(s, 0, 64)\<close>: the prefix of a number names its base, and underscores may separate digits.\<close>

definition base_prefix :: "string \<Rightarrow> nat \<times> string" where
  "base_prefix s =
     (case s of
        c # d # e # ds \<Rightarrow>
          if c \<noteq> CHR ''0'' then (10, s)
          else if lower_char d = CHR ''b'' then (2, e # ds)
          else if lower_char d = CHR ''o'' then (8, e # ds)
          else if lower_char d = CHR ''x'' then (16, e # ds)
          else (8, d # e # ds)
      | c # ds \<Rightarrow> if c = CHR ''0'' then (8, ds) else (10, s)
      | [] \<Rightarrow> (10, s))"

definition base_digit :: "char \<Rightarrow> nat option" where
  "base_digit c =
     (if is_digit c then Some (digit_val c)
      else if 97 \<le> rn (lower_char c) \<and> rn (lower_char c) \<le> 122 then Some (rn (lower_char c) - 87)
      else None)"

fun base_digits :: "nat \<Rightarrow> nat \<Rightarrow> string \<Rightarrow> nat option" where
  "base_digits base n [] = Some n"
| "base_digits base n (c # cs) =
     (if c = CHR ''_'' then base_digits base n cs
      else (case base_digit c of
          None \<Rightarrow> None
        | Some d \<Rightarrow> if d \<ge> base \<or> n * base + d \<ge> 2 ^ 64 then None else base_digits base (n * base + d) cs))"

fun separators_ok :: "bool \<Rightarrow> char \<Rightarrow> string \<Rightarrow> bool" where
  "separators_ok hex i [] = (i \<noteq> CHR ''_'')"
| "separators_ok hex i (c # cs) =
     (if is_digit c \<or> hex \<and> 97 \<le> rn (lower_char c) \<and> rn (lower_char c) \<le> 102 then separators_ok hex CHR ''0'' cs
      else if c = CHR ''_'' then i = CHR ''0'' \<and> separators_ok hex CHR ''_'' cs
      else i \<noteq> CHR ''_'' \<and> separators_ok hex CHR ''!'' cs)"

definition underscoreOK :: "string \<Rightarrow> bool" where
  "underscoreOK s =
     (case s of
        c # d # ds \<Rightarrow>
          if c = CHR ''0'' \<and> lower_char d \<in> {CHR ''b'', CHR ''o'', CHR ''x''}
          then separators_ok (lower_char d = CHR ''x'') CHR ''0'' ds
          else separators_ok False CHR ''^'' s
      | _ \<Rightarrow> separators_ok False CHR ''^'' s)"

definition parse_uint0 :: "string \<Rightarrow> nat option" where
  "parse_uint0 s =
     (if s = [] then None
      else (case base_prefix s of (base, ds) \<Rightarrow>
        (case base_digits base 0 ds of
           None \<Rightarrow> None
         | Some n \<Rightarrow> if CHR ''_'' \<in> set ds \<and> \<not> underscoreOK s then None else Some n)))"

definition parse_int0 :: "string \<Rightarrow> int option" where
  "parse_int0 s =
     (case signed_digits s of (neg, ds) \<Rightarrow>
       (case parse_uint0 ds of
          None \<Rightarrow> None
        | Some n \<Rightarrow>
            if \<not> neg \<and> n \<ge> 2 ^ 63 then None
            else if neg \<and> n > 2 ^ 63 then None
            else Some (if neg then - int n else int n)))"

definition parse_bool :: "string \<Rightarrow> bool option" where
  "parse_bool s =
     (if s \<in> {''1'', ''t'', ''T'', ''true'', ''TRUE'', ''True''} then Some True
      else if s \<in> {''0'', ''f'', ''F'', ''false'', ''FALSE'', ''False''} then Some False
      else None)"

datatype flag_error =
    BadFlagSyntax string
  | FlagUndefined string
  | HelpRequested
  | FlagNeedsArgument string
  | FlagInvalid string string

text \<open>Setting a flag that takes a value.\<close>

definition set_flag :: "string \<Rightarrow> string \<Rightarrow> flags \<Rightarrow> flags option" where
  "set_flag name val f =
     (if name = ''config'' then Some (f\<lparr>fl_ConfigFile := val\<rparr>)
      else if name = ''parallelism'' then map_option (\<lambda>n. f\<lparr>fl_Parallelism := n\<rparr>) (parse_int0 val)
      else if name = ''timeout'' then Some (f\<lparr>fl_Timeout := val\<rparr>)
      else if name = ''format'' then Some (f\<lparr>fl_Format := val\<rparr>)
      else if name = ''verbose'' then map_option (\<lambda>b. f\<lparr>fl_Verbose := b\<rparr>) (parse_bool val)
      else Some (f\<lparr>fl_Tags := tags_Set (fl_Tags f) val\<rparr>))"

definition flag_names :: "string list" where
  "flag_names = [''config'', ''parallelism'', ''timeout'', ''format'', ''verbose'', ''tags'']"

text \<open>A flag's name and the value after its first \<open>=\<close>, which cannot come first.\<close>

definition split_value :: "string \<Rightarrow> string \<times> string option" where
  "split_value name =
     (case name of
        [] \<Rightarrow> ([], None)
      | c # cs \<Rightarrow>
          (c # takeWhile (\<lambda>d. d \<noteq> CHR ''='') cs,
           if CHR ''='' \<in> set cs then Some (tl (dropWhile (\<lambda>d. d \<noteq> CHR ''='') cs)) else None))"

fun parse_args :: "flags \<Rightarrow> string list \<Rightarrow> flag_error + flags" where
  "parse_args f [] = Inr f"
| "parse_args f (s # args) =
     (if length s < 2 \<or> hd s \<noteq> CHR ''-'' then Inr f
      else if s = ''--'' then Inr f
      else (let name0 = (if s ! 1 = CHR ''-'' then drop 2 s else drop 1 s) in
        if name0 = [] \<or> hd name0 = CHR ''-'' \<or> hd name0 = CHR ''='' then Inl (BadFlagSyntax s)
        else (case split_value name0 of (name, given) \<Rightarrow>
          if name \<notin> set flag_names then Inl (if name = ''help'' \<or> name = ''h'' then HelpRequested else FlagUndefined name)
          else if name = ''verbose'' then
            (let val = (case given of Some v \<Rightarrow> v | None \<Rightarrow> ''true'') in
             case set_flag name val f of None \<Rightarrow> Inl (FlagInvalid name val) | Some f' \<Rightarrow> parse_args f' args)
          else (case given of
              Some val \<Rightarrow> (case set_flag name val f of None \<Rightarrow> Inl (FlagInvalid name val) | Some f' \<Rightarrow> parse_args f' args)
            | None \<Rightarrow>
                (case args of
                   [] \<Rightarrow> Inl (FlagNeedsArgument name)
                 | val # args' \<Rightarrow>
                     (case set_flag name val f of None \<Rightarrow> Inl (FlagInvalid name val) | Some f' \<Rightarrow> parse_args f' args'))))))"

definition ParseFlags :: "string list \<Rightarrow> flag_error + flags" where
  "ParseFlags args = parse_args no_flags args"

section \<open>Layers\<close>

text \<open>The last entry of a key in the mapping a document is.\<close>

definition file_entry :: "string \<Rightarrow> string \<Rightarrow> node option" where
  "file_entry data k = (case Parse data of Some (Inr (MappingNode ps l c)) \<Rightarrow> map_of (rev ps) k | _ \<Rightarrow> None)"

definition node_text :: "node \<Rightarrow> string" where
  "node_text n = (case n of ScalarNode s l c \<Rightarrow> s | _ \<Rightarrow> [])"

definition node_items :: "node \<Rightarrow> node list" where
  "node_items n = (case n of SequenceNode cs l c \<Rightarrow> cs | _ \<Rightarrow> [])"

definition node_int :: "unicode_classes \<Rightarrow> node \<Rightarrow> int" where
  "node_int uc n = (case interpretScalar uc (node_text n) of GNum k i \<Rightarrow> i | GFloat x \<Rightarrow> f64_to_int x | _ \<Rightarrow> 0)"

lemma decode_TString: "decodeInto uc n TString v = Inr x \<longleftrightarrow> (\<exists>s l c. n = ScalarNode s l c \<and> x = VString s)"
  by (cases n) (auto simp: decodeInto.simps[of uc _ TString] decodeMapping.simps[of uc _ TString]
      decodeSequence.simps[of uc _ TString])

lemma decode_TInt: "decodeInto uc n TInt v = Inr x \<Longrightarrow> x = VInt (node_int uc n)"
  by (cases n) (auto simp: decodeInto.simps[of uc _ TInt] decodeMapping.simps[of uc _ TInt] decodeSequence.simps[of uc _ TInt]
      node_int_def node_text_def split: gov.splits num_kind.splits)

lemma decode_forgets:
  assumes "t \<in> {TString, TInt, TSlice e}"
  shows "decodeInto uc n t v = decodeInto uc n t (zero_of t)"
  using assms
  by (cases n) (auto simp: decodeInto.simps[of uc _ TString] decodeMapping.simps[of uc _ TString] decodeSequence.simps[of uc _ TString]
      decodeInto.simps[of uc _ TInt] decodeMapping.simps[of uc _ TInt] decodeSequence.simps[of uc _ TInt]
      decodeInto.simps[of uc _ "TSlice e"] decodeMapping.simps[of uc _ "TSlice e"] decodeSequence.simps[of uc _ "TSlice e"])

lemma text_items:
  "list_all2 (\<lambda>n x. decodeInto uc n TString (zero_of TString) = Inr x) cs vs \<Longrightarrow> map vstr vs = map node_text cs"
  by (induction rule: list_all2_induct) (auto simp: decode_TString vstr_def node_text_def)

lemma struct_over:
  assumes "decodeInto uc n (TStruct fs) (VStruct vs) = Inr v"
  obtains ps l c ws where "n = MappingNode ps l c" "v = VStruct ws"
    "struct_pairs (\<lambda>n t v. decodeInto uc n t v) uc fs ps vs = Inr ws"
  using assms
  by (cases n) (auto simp: decodeInto.simps[of uc _ "TStruct fs"] decodeMapping.simps[of uc _ "TStruct fs"]
      decodeSequence.simps[of uc _ "TStruct fs"] map_sum_Inr)

lemma config_field:
  "field_index uc config_fields ''tests'' = Some 1" "snd (snd (config_fields ! 1)) = TSlice TString"
  "field_index uc config_fields ''parallelism'' = Some 2" "snd (snd (config_fields ! 2)) = TInt"
  "field_index uc config_fields ''timeout'' = Some 3" "snd (snd (config_fields ! 3)) = TString"
  "field_index uc config_fields ''reporters'' = Some 4"
  "snd (snd (config_fields ! 4)) = TSlice (TStruct [(''Type'', ''type'', TString), (''Output'', ''output'', TString)])"
  by (simp_all add: field_index_def config_fields_def field_name_def upt_rec)

lemma decoded_fields:
  assumes "struct_pairs (\<lambda>n t v. decodeInto uc n t v) uc config_fields ps ws = Inr vs" "length ws = 9"
  shows "case map_of (rev ps) ''tests'' of None \<Rightarrow> vs ! 1 = ws ! 1 | Some n \<Rightarrow> map vstr (vitems (vs ! 1)) = map node_text (node_items n)"
    and "case map_of (rev ps) ''parallelism'' of None \<Rightarrow> vs ! 2 = ws ! 2 | Some n \<Rightarrow> vs ! 2 = VInt (node_int uc n)"
    and "case map_of (rev ps) ''timeout'' of None \<Rightarrow> vs ! 3 = ws ! 3 | Some n \<Rightarrow> vs ! 3 = VString (node_text n)"
    and "map_of (rev ps) ''reporters'' = None \<Longrightarrow> vs ! 4 = ws ! 4"
proof -
  note field = struct_pairs_field[OF assms(1)]
  have f: "decodeInto uc n (TSlice e) v = decodeInto uc n (TSlice e) (zero_of (TSlice e))"
    "decodeInto uc n TInt v = decodeInto uc n TInt (zero_of TInt)"
    "decodeInto uc n TString v = decodeInto uc n TString (zero_of TString)" for n v e
    by (rule decode_forgets, simp)+
  show "case map_of (rev ps) ''tests'' of None \<Rightarrow> vs ! 1 = ws ! 1 | Some n \<Rightarrow> map vstr (vitems (vs ! 1)) = map node_text (node_items n)"
    using field[OF config_field(1,2) _ f(1)] assms(2) text_items
    by (auto simp: slice_decoded vitems_def node_items_def simp del: zero_of.simps split: option.splits)
  show "case map_of (rev ps) ''parallelism'' of None \<Rightarrow> vs ! 2 = ws ! 2 | Some n \<Rightarrow> vs ! 2 = VInt (node_int uc n)"
    using field[OF config_field(3,4) _ f(2)] assms(2) by (auto dest: decode_TInt split: option.splits)
  show "case map_of (rev ps) ''timeout'' of None \<Rightarrow> vs ! 3 = ws ! 3 | Some n \<Rightarrow> vs ! 3 = VString (node_text n)"
    using field[OF config_field(5,6) _ f(3)] assms(2) by (auto simp: decode_TString node_text_def split: option.splits)
  show "vs ! 4 = ws ! 4" if "map_of (rev ps) ''reporters'' = None"
    using field[OF config_field(7,8) _ f(1)] assms(2) that by simp
qed

text \<open>The layers of the configuration. In what \<open>Merge\<close> makes of a configuration file and the flags, a flag that is
  set wins, then the last entry of the file, then the default: for the parallelism, the timeout, the list of
  tests (where the tags of the command line take the place of the paths) and, without an entry of the file, the reporters.\<close>

theorem config_layers:
  assumes "read path = Inr data" "LoadFromFile uc read path = Some (Inr cfg)"
  shows "cf_Parallelism (Merge cfg fl) =
      (if fl_Parallelism fl \<noteq> 0 then fl_Parallelism fl
       else (case file_entry data ''parallelism'' of Some n \<Rightarrow> node_int uc n | None \<Rightarrow> cf_Parallelism Defaults))
    \<and> cf_Timeout (Merge cfg fl) =
      (if fl_Timeout fl \<noteq> [] then fl_Timeout fl
       else (case file_entry data ''timeout'' of Some n \<Rightarrow> node_text n | None \<Rightarrow> cf_Timeout Defaults))
    \<and> cf_Tests (Merge cfg fl) =
      (if fl_Tags fl \<noteq> [] then fl_Tags fl
       else (case file_entry data ''tests'' of Some n \<Rightarrow> map node_text (node_items n) | None \<Rightarrow> cf_Tests Defaults))
    \<and> (file_entry data ''reporters'' = None \<longrightarrow> cf_Reporters (Merge cfg fl) =
      (if fl_Format fl \<noteq> [] then [\<lparr>rc_Type = fl_Format fl, rc_Output = []\<rparr>] else cf_Reporters Defaults))"
proof -
  obtain n v where n: "Parse data = Some (Inr n)" "decodeInto uc n (TStruct config_fields) (config_value Defaults) = Inr v"
    "cfg = config_of v"
    using assms by (auto simp: LoadFromFile_def Unmarshal_def split: option.splits sum.splits)
  obtain ws where w: "config_value Defaults = VStruct ws" "length ws = 9" by (simp add: config_value_def)
  obtain ps l c vs where p: "n = MappingNode ps l c" "v = VStruct vs"
    "struct_pairs (\<lambda>n t v. decodeInto uc n t v) uc config_fields ps ws = Inr vs"
    using struct_over n(2) w(1) by metis
  have e: "file_entry data k = map_of (rev ps) k" for k using n(1) p(1) by (simp add: file_entry_def)
  note d = decoded_fields[OF p(3) w(2)]
  have r: "cf_Tests cfg = map vstr (vitems (vs ! 1))" "cf_Parallelism cfg = vint (vs ! 2)" "cf_Timeout cfg = vstr (vs ! 3)"
    "cf_Reporters cfg = map (\<lambda>x. \<lparr>rc_Type = vstr (vfields x ! 0), rc_Output = vstr (vfields x ! 1)\<rparr>) (vitems (vs ! 4))"
    by (simp_all add: n(3) p(2) config_of_def vfields_def Let_def)
  have cD: "config_of (VStruct ws) = Defaults" using config_of_value[of Defaults] w(1) by simp
  have D: "cf_Tests Defaults = map vstr (vitems (ws ! 1))" "cf_Parallelism Defaults = vint (ws ! 2)" "cf_Timeout Defaults = vstr (ws ! 3)"
    "cf_Reporters Defaults = map (\<lambda>x. \<lparr>rc_Type = vstr (vfields x ! 0), rc_Output = vstr (vfields x ! 1)\<rparr>) (vitems (ws ! 4))"
    unfolding cD[symmetric] by (simp_all add: config_of_def vfields_def Let_def)
  have "cf_Parallelism (Merge cfg fl) = (if fl_Parallelism fl \<noteq> 0 then fl_Parallelism fl else cf_Parallelism cfg)"
    "cf_Timeout (Merge cfg fl) = (if fl_Timeout fl \<noteq> [] then fl_Timeout fl else cf_Timeout cfg)"
    "cf_Tests (Merge cfg fl) = (if fl_Tags fl \<noteq> [] then fl_Tags fl else cf_Tests cfg)"
    "cf_Reporters (Merge cfg fl) = (if fl_Format fl \<noteq> [] then [\<lparr>rc_Type = fl_Format fl, rc_Output = []\<rparr>] else cf_Reporters cfg)"
    by (simp_all add: Merge_def Let_def)
  then show ?thesis using d by (auto simp: e r D vint_def vstr_def split: option.splits)
qed

theorem config_layers_witness:
  "\<exists>cfg. LoadFromFile ascii_classes (\<lambda>_. Inr ''a: 12'') ''scrutineer.yaml'' = Some (Inr cfg)
    \<and> cf_Parallelism (Merge cfg (no_flags\<lparr>fl_Parallelism := 4\<rparr>)) = 4 \<and> cf_Timeout (Merge cfg no_flags) = ''30s''"
proof -
  have "\<exists>cfg. LoadFromFile ascii_classes (\<lambda>_. Inr ''a: 12'') ''scrutineer.yaml'' = Some (Inr cfg)"
    by (simp add: LoadFromFile_def Unmarshal_def Parse_demo decode_eval field_index_def config_fields_def field_name_def upt_rec
        config_value_def)
  then obtain cfg where c: "LoadFromFile ascii_classes (\<lambda>_. Inr ''a: 12'') ''scrutineer.yaml'' = Some (Inr cfg)" by blast
  have e: "file_entry ''a: 12'' k = None" if "k \<noteq> ''a''" for k using that by (simp add: file_entry_def Parse_demo)
  from c config_layers[OF refl c, of "no_flags\<lparr>fl_Parallelism := 4\<rparr>"] config_layers[OF refl c, of no_flags] show ?thesis
    by (auto simp: e no_flags_def Defaults_def)
qed

end
