(* ===== verification/Go_Encoding.thy ===== *)
theory Go_Encoding
  imports Go_Strings
begin

text \<open>
  The encodings of Go's standard library that the program uses, on strings of bytes: lower-case hex
  (\<open>encoding/hex\<close>, \<open>%x\<close>), standard base64 (\<open>encoding/base64\<close>) and query escaping (\<open>net/url\<close>).
\<close>

section \<open>Hex\<close>

definition hex_digit :: "nat \<Rightarrow> char" where
  "hex_digit n = (if n < 10 then char_of (48 + n) else char_of (87 + n))"

definition hex_upper :: "nat \<Rightarrow> char" where
  "hex_upper n = (if n < 10 then char_of (48 + n) else char_of (55 + n))"

definition hex_val :: "char \<Rightarrow> nat option" where
  "hex_val c =
     (let n = (of_char c :: nat) in
      if 48 \<le> n \<and> n \<le> 57 then Some (n - 48)
      else if 97 \<le> n \<and> n \<le> 102 then Some (n - 87)
      else if 65 \<le> n \<and> n \<le> 70 then Some (n - 55)
      else None)"

definition hex_byte :: "char \<Rightarrow> string" where
  "hex_byte c = [hex_digit (of_char c div 16), hex_digit (of_char c mod 16)]"

definition hex_encode :: "string \<Rightarrow> string" where
  "hex_encode s = concat (map hex_byte s)"

lemma length_hex_encode [simp]: "length (hex_encode s) = 2 * length s"
  by (induction s) (simp_all add: hex_encode_def hex_byte_def)

section \<open>Base64\<close>

definition b64_char :: "nat \<Rightarrow> char" where
  "b64_char n =
     (if n < 26 then char_of (65 + n)
      else if n < 52 then char_of (71 + n)
      else if n < 62 then char_of (n - 4)
      else if n = 62 then CHR ''+'' else CHR ''/'')"

definition b64_val :: "char \<Rightarrow> nat option" where
  "b64_val c =
     (let n = (of_char c :: nat) in
      if 65 \<le> n \<and> n \<le> 90 then Some (n - 65)
      else if 97 \<le> n \<and> n \<le> 122 then Some (n - 71)
      else if 48 \<le> n \<and> n \<le> 57 then Some (n + 4)
      else if c = CHR ''+'' then Some 62
      else if c = CHR ''/'' then Some 63
      else None)"

fun b64_groups :: "nat list \<Rightarrow> string" where
  "b64_groups [] = []"
| "b64_groups [a] = [b64_char (a div 4), b64_char (a mod 4 * 16), CHR ''='', CHR ''='']"
| "b64_groups [a, b] =
     [b64_char (a div 4), b64_char (a mod 4 * 16 + b div 16), b64_char (b mod 16 * 4), CHR ''='']"
| "b64_groups (a # b # c # bs) =
     [b64_char (a div 4), b64_char (a mod 4 * 16 + b div 16), b64_char (b mod 16 * 4 + c div 64), b64_char (c mod 64)]
     @ b64_groups bs"

definition b64_encode :: "string \<Rightarrow> string" where
  "b64_encode s = b64_groups (map of_char s)"

text \<open>Decoding is not strict: the unused bits before the padding are not looked at, and line ends are
  skipped.\<close>

fun b64_quads :: "string \<Rightarrow> nat list option" where
  "b64_quads [] = Some []"
| "b64_quads (p # q # r # s # cs) =
     (case (b64_val p, b64_val q) of
        (Some x, Some y) \<Rightarrow>
          (if r = CHR ''='' then (if s = CHR ''='' \<and> cs = [] then Some [x * 4 + y div 16] else None)
           else (case b64_val r of
               None \<Rightarrow> None
             | Some z \<Rightarrow>
                 if s = CHR ''='' then (if cs = [] then Some [x * 4 + y div 16, y mod 16 * 16 + z div 4] else None)
                 else (case (b64_val s, b64_quads cs) of
                     (Some u, Some bs) \<Rightarrow>
                       Some ((x * 4 + y div 16) # (y mod 16 * 16 + z div 4) # (z mod 4 * 64 + u) # bs)
                   | _ \<Rightarrow> None)))
      | _ \<Rightarrow> None)"
| "b64_quads _ = None"

definition b64_decode :: "string \<Rightarrow> string option" where
  "b64_decode s = map_option (map char_of) (b64_quads (filter (\<lambda>c. c \<noteq> CHR 0x0A \<and> c \<noteq> CHR 0x0D) s))"

lemma of_char_less [simp]: "(of_char c :: nat) < 256"
  by (metis char_of_eq_iff of_char_mod_256 mod_less_divisor zero_less_numeral)

lemma b64_char_val: "n < 64 \<Longrightarrow> b64_val (b64_char n) = Some n"
  by (auto simp: b64_char_def b64_val_def Let_def)

lemma b64_char_plain: "n < 64 \<Longrightarrow> b64_char n \<noteq> CHR ''='' \<and> b64_char n \<noteq> CHR 0x0A \<and> b64_char n \<noteq> CHR 0x0D"
proof -
  assume n: "n < 64"
  have "b64_val (CHR ''='') = None" "b64_val (CHR 0x0A) = None" "b64_val (CHR 0x0D) = None"
    by (simp_all add: b64_val_def)
  with b64_char_val[OF n] show ?thesis by (metis option.distinct(1))
qed

lemma b64_bits: "(b::nat) < 256 \<Longrightarrow> b div 16 < 16" "(b::nat) < 256 \<Longrightarrow> b div 64 < 4"
  by simp_all

lemma b64_small:
  fixes a b c :: nat
  shows "a < 256 \<Longrightarrow> a div 4 < 64" "a mod 4 * 16 < 64" "b < 256 \<Longrightarrow> a mod 4 * 16 + b div 16 < 64"
    "b mod 16 * 4 < 64" "c < 256 \<Longrightarrow> b mod 16 * 4 + c div 64 < 64" "c mod 64 < 64"
proof -
  have "a mod 4 < 4" "b mod 16 < 16" by simp_all
  then show "a < 256 \<Longrightarrow> a div 4 < 64" "a mod 4 * 16 < 64" "b < 256 \<Longrightarrow> a mod 4 * 16 + b div 16 < 64"
    "b mod 16 * 4 < 64" "c < 256 \<Longrightarrow> b mod 16 * 4 + c div 64 < 64" "c mod 64 < 64"
    using b64_bits[of b] b64_bits[of c] by (simp, linarith, linarith, linarith, linarith, simp)
qed

lemma b64_quads_groups:
  "\<forall>b \<in> set bs. b < 256 \<Longrightarrow> b64_quads (b64_groups bs) = Some bs"
proof (induction bs rule: b64_groups.induct)
  case (2 a)
  then show ?case by (simp add: b64_char_val b64_char_plain b64_small)
next
  case (3 a b)
  then show ?case by (simp add: b64_char_val b64_char_plain b64_small b64_bits)
next
  case (4 a b c bs)
  then show ?case by (simp add: b64_char_val b64_char_plain b64_small b64_bits)
qed simp

lemma b64_groups_plain:
  "\<forall>b \<in> set bs. b < 256 \<Longrightarrow> filter (\<lambda>c. c \<noteq> CHR 0x0A \<and> c \<noteq> CHR 0x0D) (b64_groups bs) = b64_groups bs"
  by (induction bs rule: b64_groups.induct) (simp_all add: b64_char_plain b64_small)

lemma b64_roundtrip: "b64_decode (b64_encode s) = Some s"
proof -
  have "\<forall>b \<in> set (map of_char s :: nat list). b < 256" by auto
  then show ?thesis by (simp add: b64_decode_def b64_encode_def b64_groups_plain b64_quads_groups comp_def)
qed

section \<open>Query escaping\<close>

definition unreserved :: "char \<Rightarrow> bool" where
  "unreserved c \<longleftrightarrow>
     (let n = (of_char c :: nat) in
      48 \<le> n \<and> n \<le> 57 \<or> 65 \<le> n \<and> n \<le> 90 \<or> 97 \<le> n \<and> n \<le> 122 \<or> c \<in> {CHR ''-'', CHR ''_'', CHR ''.'', CHR ''~''})"

definition escape_byte :: "char \<Rightarrow> string" where
  "escape_byte c =
     (if unreserved c then [c]
      else if c = CHR '' '' then ''+''
      else [CHR ''%'', hex_upper (of_char c div 16), hex_upper (of_char c mod 16)])"

definition QueryEscape :: "string \<Rightarrow> string" where
  "QueryEscape s = concat (map escape_byte s)"

fun QueryUnescape :: "string \<Rightarrow> string option" where
  "QueryUnescape [] = Some []"
| "QueryUnescape (c # cs) =
     (if c = CHR ''%'' then
        (case cs of
           a # b # ds \<Rightarrow>
             (case (hex_val a, hex_val b, QueryUnescape ds) of
                (Some x, Some y, Some t) \<Rightarrow> Some (char_of (16 * x + y) # t)
              | _ \<Rightarrow> None)
         | _ \<Rightarrow> None)
      else map_option (\<lambda>t. (if c = CHR ''+'' then CHR '' '' else c) # t) (QueryUnescape cs))"

lemma hex_upper_val: "n < 16 \<Longrightarrow> hex_val (hex_upper n) = Some n"
  by (simp add: hex_upper_def hex_val_def Let_def)

lemma QueryUnescape_byte:
  "QueryUnescape (escape_byte c @ t) = map_option ((#) c) (QueryUnescape t)"
proof -
  have "unreserved c \<Longrightarrow> c \<noteq> CHR ''%'' \<and> c \<noteq> CHR ''+''" by (auto simp: unreserved_def)
  moreover have "hex_val (hex_upper (of_char c div 16)) = Some (of_char c div 16)"
    using of_char_less[of c] by (intro hex_upper_val less_mult_imp_div_less) simp
  ultimately show ?thesis
    by (auto simp: escape_byte_def hex_upper_val map_option_case split: option.split)
qed

lemma QueryUnescape_Escape: "QueryUnescape (QueryEscape s) = Some s"
  by (induction s) (simp_all add: QueryEscape_def QueryUnescape_byte)

end
