(* ===== verification/Expr_Builtins.thy ===== *)
theory Expr_Builtins
  imports Expr_Print Go_Encoding Go_Duration
begin

text \<open>
  core/expression/builtins.go: the functions available to expressions. What they take from outside is a
  record of operations on a world of any type: random numbers, the clock and its formats, the
  environment, the database driver; the digests and \<open>json.Marshal\<close> are functions of it too. The text
  of an error names the function and what is wrong; operands that Go formats into it with \<open>%q\<close> are left out.
\<close>

record 'w outside =
  ou_classes :: unicode_classes
  ou_rand_Int :: "int \<Rightarrow> 'w \<Rightarrow> (string + int) \<times> 'w"
  ou_rand_Read :: "nat \<Rightarrow> 'w \<Rightarrow> (string + string) \<times> 'w"
  ou_Float64 :: "'w \<Rightarrow> f64 \<times> 'w"
  ou_Format :: "string \<Rightarrow> 'w \<Rightarrow> string"
  ou_Unix :: "'w \<Rightarrow> int"
  ou_add_time :: "string \<Rightarrow> int \<Rightarrow> string option"
  ou_LookupEnv :: "string \<Rightarrow> 'w \<Rightarrow> string option"
  ou_Marshal :: "gov \<Rightarrow> string + string"
  ou_md5 :: "string \<Rightarrow> string"
  ou_sha256 :: "string \<Rightarrow> string"
  ou_sha512 :: "string \<Rightarrow> string"
  ou_hmac :: "string \<Rightarrow> string \<Rightarrow> string"
  ou_Query :: "(string \<Rightarrow> string \<Rightarrow> 'w \<Rightarrow> (string + (string \<times> gov) list list) \<times> 'w) option"

section \<open>Conversions\<close>

fun toInt :: "gov \<Rightarrow> string + int" where
  "toInt (GNum KInt i) = Inr i"
| "toInt (GNum KInt64 i) = Inr i"
| "toInt (GFloat v) = Inr (f64_to_int v)"
| "toInt (GStr s) = Inl ''expected number, got string''"
| "toInt v = Inl (''expected number, got '' @ type_name v)"

fun toFloat :: "gov \<Rightarrow> string + f64" where
  "toFloat (GFloat v) = Inr v"
| "toFloat (GNum KInt i) = Inr (f64_of_int i)"
| "toFloat (GNum KInt64 i) = Inr (f64_of_int i)"
| "toFloat (GStr s) = Inl ''expected number, got string''"
| "toFloat v = Inl (''expected number, got '' @ type_name v)"

text \<open>\<open>toString\<close> never fails.\<close>

fun toString :: "gov \<Rightarrow> string" where
  "toString (GStr s) = s"
| "toString v = fmt_v v"

text \<open>An error of the function \<open>name\<close>, and the errors of its arguments under its name.\<close>

definition err :: "string \<Rightarrow> string \<Rightarrow> func_error + 'a" where
  "err name msg = Inl (FErr (name @ '': '' @ msg))"

definition under :: "string \<Rightarrow> string + 'a \<Rightarrow> func_error + 'a" where
  "under name r = map_sum (\<lambda>msg. FErr (name @ '': '' @ msg)) id r"

definition arity_err :: "string \<Rightarrow> string \<Rightarrow> gov list \<Rightarrow> func_error + 'a" where
  "arity_err name expected args = err name (''expected '' @ expected @ '', got '' @ utoa (length args))"

text \<open>A function without effects.\<close>

definition pure_fn :: "(gov list \<Rightarrow> func_error + gov) \<Rightarrow> 'w efunc" where
  "pure_fn f args w = (f args, w)"

section \<open>Strings\<close>

definition string_fn :: "string \<Rightarrow> (string \<Rightarrow> func_error + gov) \<Rightarrow> gov list \<Rightarrow> func_error + gov" where
  "string_fn name f args = (case args of [a] \<Rightarrow> f (toString a) | _ \<Rightarrow> arity_err name ''1 arg'' args)"

definition builtinUpper :: "unicode_classes \<Rightarrow> gov list \<Rightarrow> func_error + gov" where
  "builtinUpper uc = string_fn ''upper'' (\<lambda>s. Inr (GStr (to_upper uc s)))"

definition builtinLower :: "unicode_classes \<Rightarrow> gov list \<Rightarrow> func_error + gov" where
  "builtinLower uc = string_fn ''lower'' (\<lambda>s. Inr (GStr (to_lower uc s)))"

definition builtinTrim :: "gov list \<Rightarrow> func_error + gov" where
  "builtinTrim = string_fn ''trim'' (\<lambda>s. Inr (GStr (trim_space s)))"

definition builtinConcat :: "gov list \<Rightarrow> func_error + gov" where
  "builtinConcat args = Inr (GStr (concat (map fmt_v args)))"

definition builtinSubstring :: "gov list \<Rightarrow> func_error + gov" where
  "builtinSubstring args =
     (case args of
        [s, a, b] \<Rightarrow>
          rbind (under ''substring: start'' (toInt a)) (\<lambda>start.
          rbind (under ''substring: end'' (toInt b)) (\<lambda>stop.
            let runes = runes_of (toString s) in
            if start < 0 \<or> stop > int (length runes) \<or> start > stop
            then err ''substring'' (''index out of bounds ['' @ itoa start @ '':'' @ itoa stop
              @ ''] for string of length '' @ utoa (length runes))
            else Inr (GStr (string_of_runes (drop (nat start) (take (nat stop) runes))))))
      | _ \<Rightarrow> arity_err ''substring'' ''3 args (string, start, end)'' args)"

definition builtinReplace :: "gov list \<Rightarrow> func_error + gov" where
  "builtinReplace args =
     (case args of
        [s, old, new] \<Rightarrow> Inr (GStr (replace_all (toString s) (toString old) (toString new)))
      | _ \<Rightarrow> arity_err ''replace'' ''3 args (string, old, new)'' args)"

definition builtinLength :: "gov list \<Rightarrow> func_error + gov" where
  "builtinLength = string_fn ''length'' (\<lambda>s. Inr (GInt (int (length (runes_of s)))))"

text \<open>\<open>crypto/rand.Int\<close> panics unless its bound is positive.\<close>

definition rand_Int :: "'w outside \<Rightarrow> string \<Rightarrow> int \<Rightarrow> 'w \<Rightarrow> (func_error + int) \<times> 'w" where
  "rand_Int ou name bound w =
     (if bound \<le> 0 then (Inl (FPanic ''crypto/rand: argument to Int is <= 0''), w)
      else (case ou_rand_Int ou bound w of (r, w') \<Rightarrow> (under name r, w')))"

definition charsets :: "(string \<times> string) list" where
  "charsets =
     [(''alpha'', ''abcdefghijklmnopqrstuvwxyzABCDEFGHIJKLMNOPQRSTUVWXYZ''),
      (''alphanumeric'', ''abcdefghijklmnopqrstuvwxyzABCDEFGHIJKLMNOPQRSTUVWXYZ0123456789''),
      (''numeric'', ''0123456789''),
      (''hex'', ''0123456789abcdef''),
      (''ascii'', ''abcdefghijklmnopqrstuvwxyzABCDEFGHIJKLMNOPQRSTUVWXYZ0123456789!@#$%^&*()-_=+[]{}|;:,.<>?/~'' @ [CHR 0x60])]"

fun random_chars :: "'w outside \<Rightarrow> string \<Rightarrow> nat \<Rightarrow> 'w \<Rightarrow> (func_error + string) \<times> 'w" where
  "random_chars ou cs 0 w = (Inr [], w)"
| "random_chars ou cs (Suc n) w =
     (case rand_Int ou ''random_string'' (int (length cs)) w of
        (Inl e, w1) \<Rightarrow> (Inl e, w1)
      | (Inr k, w1) \<Rightarrow>
          (case random_chars ou cs n w1 of (r, w2) \<Rightarrow> (map_sum id (\<lambda>t. (cs ! nat k) # t) r, w2)))"

definition builtinRandomString :: "'w outside \<Rightarrow> 'w efunc" where
  "builtinRandomString ou args w =
     (case args of
        [c, a, b] \<Rightarrow>
          (case c of
             GStr csName \<Rightarrow>
               (case map_of charsets csName of
                  None \<Rightarrow> (err ''random_string'' ''unknown charset (valid: alpha, alphanumeric, numeric, hex, ascii)'', w)
                | Some cs \<Rightarrow>
                    (case under ''random_string: min'' (toInt a) of
                       Inl e \<Rightarrow> (Inl e, w)
                     | Inr minLen \<Rightarrow>
                         (case under ''random_string: max'' (toInt b) of
                            Inl e \<Rightarrow> (Inl e, w)
                          | Inr maxLen \<Rightarrow>
                              if minLen < 0 \<or> maxLen < minLen
                              then (err ''random_string'' (''invalid range ['' @ itoa minLen @ '', '' @ itoa maxLen @ '']''), w)
                              else (case (if maxLen > minLen
                                     then rand_Int ou ''random_string'' (wrap64 (maxLen - minLen + 1)) w else (Inr 0, w)) of
                                  (Inl e, w1) \<Rightarrow> (Inl e, w1)
                                | (Inr n, w1) \<Rightarrow>
                                    (case random_chars ou cs (nat (minLen + n)) w1 of (r, w2) \<Rightarrow> (map_sum id GStr r, w2))))))
           | _ \<Rightarrow> (err ''random_string'' ''charset must be a string'', w))
      | _ \<Rightarrow> (arity_err ''random_string'' ''3 args (charset, min, max)'' args, w))"

text \<open>The bits of version and variant are set on bytes; \<open>%08x\<close> of four bytes is their hex.\<close>

definition set_bits :: "nat \<Rightarrow> nat \<Rightarrow> char \<Rightarrow> char" where
  "set_bits m k c = char_of (of_char c mod m + k)"

definition builtinUUID :: "'w outside \<Rightarrow> 'w efunc" where
  "builtinUUID ou args w =
     (if args \<noteq> [] then (arity_err ''uuid'' ''0 args'' args, w)
      else (case ou_rand_Read ou 16 w of
          (Inl e, w') \<Rightarrow> (err ''uuid'' e, w')
        | (Inr bs, w') \<Rightarrow>
            (let u = bs[6 := set_bits 16 64 (bs ! 6), 8 := set_bits 64 128 (bs ! 8)];
                 part = (\<lambda>a b. hex_encode (drop a (take b u)))
             in (Inr (GStr (part 0 4 @ ''-'' @ part 4 6 @ ''-'' @ part 6 8 @ ''-'' @ part 8 10 @ ''-'' @ part 10 16)), w'))))"

section \<open>Numbers\<close>

definition builtinRandomInt :: "'w outside \<Rightarrow> 'w efunc" where
  "builtinRandomInt ou args w =
     (case args of
        [a, b] \<Rightarrow>
          (case under ''random_int: min'' (toInt a) of
             Inl e \<Rightarrow> (Inl e, w)
           | Inr minVal \<Rightarrow>
               (case under ''random_int: max'' (toInt b) of
                  Inl e \<Rightarrow> (Inl e, w)
                | Inr maxVal \<Rightarrow>
                    if minVal > maxVal
                    then (err ''random_int'' (''min ('' @ itoa minVal @ '') > max ('' @ itoa maxVal @ '')''), w)
                    else if minVal = maxVal then (Inr (GInt minVal), w)
                    else (case rand_Int ou ''random_int'' (wrap64 (wrap64 (maxVal - minVal) + 1)) w of
                        (Inl e, w') \<Rightarrow> (Inl e, w')
                      | (Inr n, w') \<Rightarrow> (Inr (GInt (wrap64 (minVal + n))), w'))))
      | _ \<Rightarrow> (arity_err ''random_int'' ''2 args (min, max)'' args, w))"

definition builtinRandomFloat :: "'w outside \<Rightarrow> 'w efunc" where
  "builtinRandomFloat ou args w =
     (case args of
        [a, b] \<Rightarrow>
          (case under ''random_float: min'' (toFloat a) of
             Inl e \<Rightarrow> (Inl e, w)
           | Inr minVal \<Rightarrow>
               (case under ''random_float: max'' (toFloat b) of
                  Inl e \<Rightarrow> (Inl e, w)
                | Inr maxVal \<Rightarrow>
                    if f64_lt maxVal minVal then (err ''random_float'' ''min > max'', w)
                    else (case ou_Float64 ou w of (r, w') \<Rightarrow>
                        (Inr (GFloat (f64_add minVal (f64_mul r (f64_sub maxVal minVal)))), w'))))
      | _ \<Rightarrow> (arity_err ''random_float'' ''2 args (min, max)'' args, w))"

definition float_fn :: "string \<Rightarrow> (f64 \<Rightarrow> gov) \<Rightarrow> gov list \<Rightarrow> func_error + gov" where
  "float_fn name f args =
     (case args of [a] \<Rightarrow> rbind (under name (toFloat a)) (\<lambda>v. Inr (f v)) | _ \<Rightarrow> arity_err name ''1 arg'' args)"

definition builtinAbs :: "gov list \<Rightarrow> func_error + gov" where
  "builtinAbs = float_fn ''abs'' (\<lambda>v. GFloat (f64_abs v))"

definition builtinCeil :: "gov list \<Rightarrow> func_error + gov" where
  "builtinCeil = float_fn ''ceil'' (\<lambda>v. GInt (f64_to_int (f64_ceil v)))"

definition builtinFloor :: "gov list \<Rightarrow> func_error + gov" where
  "builtinFloor = float_fn ''floor'' (\<lambda>v. GInt (f64_to_int (f64_floor v)))"

definition builtinRound :: "gov list \<Rightarrow> func_error + gov" where
  "builtinRound = float_fn ''round'' (\<lambda>v. GInt (f64_to_int (f64_round v)))"

definition float_fn2 :: "string \<Rightarrow> (f64 \<Rightarrow> f64 \<Rightarrow> f64) \<Rightarrow> gov list \<Rightarrow> func_error + gov" where
  "float_fn2 name f args =
     (case args of
        [x, y] \<Rightarrow> rbind (under name (toFloat x)) (\<lambda>a. rbind (under name (toFloat y)) (\<lambda>b. Inr (GFloat (f a b))))
      | _ \<Rightarrow> arity_err name ''2 args'' args)"

definition builtinMin :: "gov list \<Rightarrow> func_error + gov" where
  "builtinMin = float_fn2 ''min'' f64_min"

definition builtinMax :: "gov list \<Rightarrow> func_error + gov" where
  "builtinMax = float_fn2 ''max'' f64_max"

definition builtinMod :: "gov list \<Rightarrow> func_error + gov" where
  "builtinMod args =
     (case args of
        [x, y] \<Rightarrow>
          rbind (under ''mod'' (toInt x)) (\<lambda>a.
          rbind (under ''mod'' (toInt y)) (\<lambda>b.
            if b = 0 then err ''mod'' ''division by zero'' else Inr (GInt (tmod a b))))
      | _ \<Rightarrow> arity_err ''mod'' ''2 args'' args)"

section \<open>Time\<close>

definition clock_fn :: "string \<Rightarrow> ('w \<Rightarrow> gov) \<Rightarrow> 'w efunc" where
  "clock_fn name f args w = (if args \<noteq> [] then arity_err name ''0 args'' args else Inr (f w), w)"

definition RFC3339 :: string where "RFC3339 = ''2006-01-02T15:04:05Z07:00''"
definition RFC3339Nano :: string where "RFC3339Nano = ''2006-01-02T15:04:05.999999999Z07:00''"

definition builtinNow :: "'w outside \<Rightarrow> 'w efunc" where
  "builtinNow ou = clock_fn ''now'' (\<lambda>w. GStr (ou_Format ou RFC3339 w))"

definition builtinNowUnix :: "'w outside \<Rightarrow> 'w efunc" where
  "builtinNowUnix ou = clock_fn ''now_unix'' (\<lambda>w. GNum KInt64 (ou_Unix ou w))"

definition builtinNowISO :: "'w outside \<Rightarrow> 'w efunc" where
  "builtinNowISO ou = clock_fn ''now_iso'' (\<lambda>w. GStr (ou_Format ou ''2006-01-02T15:04:05Z07:00'' w))"

definition builtinNowRFC3339 :: "'w outside \<Rightarrow> 'w efunc" where
  "builtinNowRFC3339 ou = clock_fn ''now_rfc3339'' (\<lambda>w. GStr (ou_Format ou RFC3339Nano w))"

definition builtinFormatTime :: "'w outside \<Rightarrow> 'w efunc" where
  "builtinFormatTime ou args w =
     (case args of
        [a] \<Rightarrow> (Inr (GStr (ou_Format ou (toString a) w)), w)
      | _ \<Rightarrow> (arity_err ''format_time'' ''1 arg (layout)'' args, w))"

text \<open>\<open>ou_add_time t d\<close> parses, adds and formats; the time is parsed before the duration.\<close>

definition builtinAddDuration :: "'w outside \<Rightarrow> gov list \<Rightarrow> func_error + gov" where
  "builtinAddDuration ou args =
     (case args of
        [t, d] \<Rightarrow>
          (case ou_add_time ou (toString t) 0 of
             None \<Rightarrow> err ''add_duration'' ''invalid time''
           | Some _ \<Rightarrow>
               (case parse_duration (toString d) of
                  None \<Rightarrow> err ''add_duration'' ''invalid duration''
                | Some n \<Rightarrow> Inr (GStr (the (ou_add_time ou (toString t) n)))))
      | _ \<Rightarrow> arity_err ''add_duration'' ''2 args (time_str, duration)'' args)"

section \<open>Encodings and digests\<close>

definition builtinBase64Encode :: "gov list \<Rightarrow> func_error + gov" where
  "builtinBase64Encode = string_fn ''base64_encode'' (\<lambda>s. Inr (GStr (b64_encode s)))"

definition builtinBase64Decode :: "gov list \<Rightarrow> func_error + gov" where
  "builtinBase64Decode = string_fn ''base64_decode''
     (\<lambda>s. case b64_decode s of None \<Rightarrow> err ''base64_decode'' ''illegal base64 data'' | Some t \<Rightarrow> Inr (GStr t))"

definition builtinURLEncode :: "gov list \<Rightarrow> func_error + gov" where
  "builtinURLEncode = string_fn ''url_encode'' (\<lambda>s. Inr (GStr (QueryEscape s)))"

definition builtinURLDecode :: "gov list \<Rightarrow> func_error + gov" where
  "builtinURLDecode = string_fn ''url_decode''
     (\<lambda>s. case QueryUnescape s of None \<Rightarrow> err ''url_decode'' ''invalid URL escape'' | Some t \<Rightarrow> Inr (GStr t))"

definition builtinJSONEncode :: "'w outside \<Rightarrow> gov list \<Rightarrow> func_error + gov" where
  "builtinJSONEncode ou args =
     (case args of [a] \<Rightarrow> map_sum id GStr (under ''json_encode'' (ou_Marshal ou a)) | _ \<Rightarrow> arity_err ''json_encode'' ''1 arg'' args)"

definition digest_fn :: "string \<Rightarrow> (string \<Rightarrow> string) \<Rightarrow> gov list \<Rightarrow> func_error + gov" where
  "digest_fn name h = string_fn name (\<lambda>s. Inr (GStr (hex_encode (h s))))"

definition builtinMD5 :: "'w outside \<Rightarrow> gov list \<Rightarrow> func_error + gov" where
  "builtinMD5 ou = digest_fn ''md5'' (ou_md5 ou)"

definition builtinSHA256 :: "'w outside \<Rightarrow> gov list \<Rightarrow> func_error + gov" where
  "builtinSHA256 ou = digest_fn ''sha256'' (ou_sha256 ou)"

definition builtinSHA512 :: "'w outside \<Rightarrow> gov list \<Rightarrow> func_error + gov" where
  "builtinSHA512 ou = digest_fn ''sha512'' (ou_sha512 ou)"

definition builtinHMACSHA256 :: "'w outside \<Rightarrow> gov list \<Rightarrow> func_error + gov" where
  "builtinHMACSHA256 ou args =
     (case args of
        [k, d] \<Rightarrow> Inr (GStr (hex_encode (ou_hmac ou (toString k) (toString d))))
      | _ \<Rightarrow> arity_err ''hmac_sha256'' ''2 args (key, data)'' args)"

section \<open>Environment and database\<close>

definition builtinEnv :: "'w outside \<Rightarrow> 'w efunc" where
  "builtinEnv ou args w =
     (case args of
        [n] \<Rightarrow>
          (case ou_LookupEnv ou (toString n) w of
             None \<Rightarrow> (err ''env'' ''variable not set'', w)
           | Some v \<Rightarrow> (Inr (GStr v), w))
      | _ \<Rightarrow> (arity_err ''env'' ''1 arg'' args, w))"

definition builtinEnvOr :: "'w outside \<Rightarrow> 'w efunc" where
  "builtinEnvOr ou args w =
     (case args of
        [n, d] \<Rightarrow>
          (case ou_LookupEnv ou (toString n) w of
             None \<Rightarrow> (Inr (GStr (toString d)), w)
           | Some v \<Rightarrow> (Inr (GStr v), w))
      | _ \<Rightarrow> (arity_err ''env_or'' ''2 args (name, default)'' args, w))"

definition getDBOpener :: "'w outside \<Rightarrow> string + (string \<Rightarrow> string \<Rightarrow> 'w \<Rightarrow> (string + (string \<times> gov) list list) \<times> 'w)" where
  "getDBOpener ou = (case ou_Query ou of
     None \<Rightarrow> Inl ''no database driver registered (call expression.RegisterDBOpener)''
   | Some q \<Rightarrow> Inr q)"

definition db_fn :: "'w outside \<Rightarrow> string \<Rightarrow> ((string \<times> gov) list list \<Rightarrow> func_error + gov) \<Rightarrow> 'w efunc" where
  "db_fn ou name f args w =
     (case args of
        [d, q] \<Rightarrow>
          (case under name (getDBOpener ou) of
             Inl e \<Rightarrow> (Inl e, w)
           | Inr query \<Rightarrow>
               (case query (toString d) (toString q) w of (r, w') \<Rightarrow> (rbind (under name r) f, w')))
      | _ \<Rightarrow> (arity_err name ''2 args (dsn, query)'' args, w))"

definition builtinDBQuery :: "'w outside \<Rightarrow> 'w efunc" where
  "builtinDBQuery ou = db_fn ou ''db_query'' (\<lambda>rows. Inr (GList (map GMap rows)))"

definition builtinDBQueryOne :: "'w outside \<Rightarrow> 'w efunc" where
  "builtinDBQueryOne ou = db_fn ou ''db_query_one''
     (\<lambda>rows. case rows of [] \<Rightarrow> err ''db_query_one'' ''no rows returned'' | r # _ \<Rightarrow> Inr (GMap r))"

definition builtinDBCount :: "'w outside \<Rightarrow> 'w efunc" where
  "builtinDBCount ou = db_fn ou ''db_count'' (\<lambda>rows. Inr (GInt (int (length rows))))"

section \<open>The registry\<close>

definition builtins :: "'w outside \<Rightarrow> (string \<times> 'w efunc) list" where
  "builtins ou =
       [(''random_string'', builtinRandomString ou), (''uuid'', builtinUUID ou),
        (''upper'', pure_fn (builtinUpper (ou_classes ou))), (''lower'', pure_fn (builtinLower (ou_classes ou))),
        (''trim'', pure_fn builtinTrim), (''concat'', pure_fn builtinConcat), (''substring'', pure_fn builtinSubstring),
        (''replace'', pure_fn builtinReplace), (''length'', pure_fn builtinLength),
        (''random_int'', builtinRandomInt ou), (''random_float'', builtinRandomFloat ou),
        (''abs'', pure_fn builtinAbs), (''ceil'', pure_fn builtinCeil), (''floor'', pure_fn builtinFloor),
        (''round'', pure_fn builtinRound), (''min'', pure_fn builtinMin), (''max'', pure_fn builtinMax),
        (''mod'', pure_fn builtinMod),
        (''now'', builtinNow ou), (''now_unix'', builtinNowUnix ou), (''now_iso'', builtinNowISO ou),
        (''now_rfc3339'', builtinNowRFC3339 ou), (''format_time'', builtinFormatTime ou),
        (''add_duration'', pure_fn (builtinAddDuration ou)),
        (''base64_encode'', pure_fn builtinBase64Encode), (''base64_decode'', pure_fn builtinBase64Decode),
        (''url_encode'', pure_fn builtinURLEncode), (''url_decode'', pure_fn builtinURLDecode),
        (''json_encode'', pure_fn (builtinJSONEncode ou)),
        (''md5'', pure_fn (builtinMD5 ou)), (''sha256'', pure_fn (builtinSHA256 ou)),
        (''sha512'', pure_fn (builtinSHA512 ou)), (''hmac_sha256'', pure_fn (builtinHMACSHA256 ou)),
        (''env'', builtinEnv ou), (''env_or'', builtinEnvOr ou),
        (''db_query'', builtinDBQuery ou), (''db_query_one'', builtinDBQueryOne ou), (''db_count'', builtinDBCount ou)]"

definition registerBuiltins :: "'w outside \<Rightarrow> 'w efunc reg \<Rightarrow> 'w efunc reg" where
  "registerBuiltins ou r = foldl (\<lambda>r (name, fn). snd (expr_Register r name fn)) r (builtins ou)"

section \<open>Round trips through expressions\<close>

lemma expr_Get_builtins:
  "expr_Get (registerBuiltins ou NewRegistry) ''base64_encode'' = Some (pure_fn builtinBase64Encode)"
  "expr_Get (registerBuiltins ou NewRegistry) ''base64_decode'' = Some (pure_fn builtinBase64Decode)"
  "expr_Get (registerBuiltins ou NewRegistry) ''url_encode'' = Some (pure_fn builtinURLEncode)"
  "expr_Get (registerBuiltins ou NewRegistry) ''url_decode'' = Some (pure_fn builtinURLDecode)"
  unfolding registerBuiltins_def expr_register_all_def[symmetric] expr_lookup_all
  by (simp_all add: builtins_def)

text \<open>A call of a function on one argument that evaluates to \<open>v\<close>.\<close>

lemma Eval_call1:
  assumes "expr_Get (ev_registry e) name = Some (pure_fn f)" "d < maxEvalDepth" "Eval e (d + 1) x w = (Inr v, w')" "f [v] = Inr r"
  shows "Eval e d (FuncCall name [x]) w = (Inr r, w')"
  using assms by (simp add: Eval.simps[of e d] pure_fn_def)

text \<open>The encodings undo each other inside expressions. With the built-in functions registered, an
  expression that decodes what it has encoded, in base64 or as a URL query, has the value of the string
  it started from, whatever its bytes, as long as the nesting stays below the evaluator's bound.\<close>

theorem encodings_roundtrip:
  assumes "ev_registry e = registerBuiltins ou NewRegistry" "d + 1 < maxEvalDepth" "Eval e (d + 2) x w = (Inr (GStr s), w')"
  shows "Eval e d (FuncCall ''base64_decode'' [FuncCall ''base64_encode'' [x]]) w = (Inr (GStr s), w')
    \<and> Eval e d (FuncCall ''url_decode'' [FuncCall ''url_encode'' [x]]) w = (Inr (GStr s), w')"
proof -
  note G = expr_Get_builtins[of ou, folded assms(1)]
  have "Eval e (d + 1) (FuncCall ''base64_encode'' [x]) w = (Inr (GStr (b64_encode s)), w')"
    using assms(2,3) by (intro Eval_call1[OF G(1), where v = "GStr s"]) (simp_all add: builtinBase64Encode_def string_fn_def)
  moreover have "Eval e (d + 1) (FuncCall ''url_encode'' [x]) w = (Inr (GStr (QueryEscape s)), w')"
    using assms(2,3) by (intro Eval_call1[OF G(3), where v = "GStr s"]) (simp_all add: builtinURLEncode_def string_fn_def)
  ultimately show ?thesis
    using assms(2)
    by (auto intro!: Eval_call1[OF G(2)] Eval_call1[OF G(4)]
        simp: builtinBase64Decode_def builtinURLDecode_def string_fn_def b64_roundtrip QueryUnescape_Escape)
qed

section \<open>Random values\<close>

text \<open>What \<open>crypto/rand\<close> promises: a number below its bound.\<close>

definition rand_ok :: "'w outside \<Rightarrow> bool" where
  "rand_ok ou \<longleftrightarrow> (\<forall>b w n w'. 0 < b \<longrightarrow> ou_rand_Int ou b w = (Inr n, w') \<longrightarrow> 0 \<le> n \<and> n < b)"

lemma rand_Int_below:
  assumes "rand_ok ou" "rand_Int ou name b w = (Inr n, w')"
  shows "0 \<le> n \<and> n < b"
proof -
  obtain r w1 where r: "ou_rand_Int ou b w = (r, w1)" by fastforce
  have "0 < b" using assms(2) by (auto simp: rand_Int_def split: if_splits)
  moreover from this r assms(2) have "r = Inr n" by (cases r) (auto simp: rand_Int_def under_def)
  ultimately show ?thesis using assms(1) r unfolding rand_ok_def by blast
qed

lemma rand_Int_panics: "rand_Int ou name b w = (Inl (FPanic m), w') \<Longrightarrow> b \<le> 0"
  by (auto simp: rand_Int_def under_def map_sum_def split: if_splits prod.splits sum.splits)

lemma wrap64_over: "2 ^ 63 \<le> x \<Longrightarrow> x < 2 ^ 64 \<Longrightarrow> wrap64 x = x - 2 ^ 64"
  by (subst wrap64_cong[of x "x - 2 ^ 64"]) (simp_all add: in_int64_def)

text \<open>\<open>random_int\<close> and its range. A number that \<open>random_int(lo, hi)\<close> returns lies between the two, and it
  never panics as long as the range has fewer than \<open>2^63\<close> numbers; with a wider range the size of the range
  wraps around and the call always panics, which nothing between it and the engine recovers from.\<close>

theorem random_int_range:
  assumes "rand_ok ou" "toInt a = Inr lo" "toInt b = Inr hi" "in_int64 lo" "in_int64 hi" "lo < hi"
  shows "(if hi - lo + 1 < 2 ^ 63
     then (\<forall>v. fst (builtinRandomInt ou [a, b] w) = Inr v \<longrightarrow> (\<exists>n. v = GInt n \<and> lo \<le> n \<and> n \<le> hi))
       \<and> (\<forall>m. fst (builtinRandomInt ou [a, b] w) \<noteq> Inl (FPanic m))
     else \<exists>m. fst (builtinRandomInt ou [a, b] w) = Inl (FPanic m))"
proof -
  let ?k = "wrap64 (wrap64 (hi - lo) + 1)"
  obtain r w' where r: "rand_Int ou ''random_int'' ?k w = (r, w')" by (cases "rand_Int ou ''random_int'' ?k w")
  have e: "builtinRandomInt ou [a, b] w = (map_sum id (\<lambda>n. GInt (wrap64 (lo + n))) r, w')"
    using assms r by (auto simp: builtinRandomInt_def under_def split: sum.split)
  show ?thesis
  proof (cases "hi - lo + 1 < 2 ^ 63")
    case True
    then have k: "?k = hi - lo + 1"
      using assms(4-6) by (simp add: wrap64_id in_int64_def)
    have wr: "wrap64 (lo + n) = lo + n" if "0 \<le> n" "n < ?k" for n
      using that assms(4,5) unfolding k by (intro wrap64_id) (simp add: in_int64_def)
    have "\<exists>n. v = GInt n \<and> lo \<le> n \<and> n \<le> hi" if mv: "map_sum id (\<lambda>n. GInt (wrap64 (lo + n))) r = Inr v" for v
    proof -
      obtain n where n: "r = Inr n" "v = GInt (wrap64 (lo + n))" using mv by (cases r) auto
      with rand_Int_below[OF assms(1)] r have b: "0 \<le> n" "n < ?k" by blast+
      with wr have "wrap64 (lo + n) = lo + n" by blast
      with n(2) b show ?thesis by (intro exI[of _ "lo + n"]) (simp add: k)
    qed
    moreover have "r \<noteq> Inl (FPanic m)" for m
      using rand_Int_panics[of ou _ ?k w m w'] r k assms(6) by auto
    ultimately show ?thesis using True by (cases r) (auto simp: e)
  next
    case False
    then consider "hi - lo = 2 ^ 63 - 1" | "2 ^ 63 \<le> hi - lo" "hi - lo < 2 ^ 64"
      using assms(4-6) by (fastforce simp: in_int64_def)
    then have "?k \<le> 0"
    proof cases
      case 1
      then show ?thesis by (simp add: wrap64_def)
    next
      case 2
      then have "wrap64 (hi - lo) = hi - lo - 2 ^ 64" by (intro wrap64_over) simp_all
      moreover from this 2 have "in_int64 (wrap64 (hi - lo) + 1)" by (simp add: in_int64_def)
      ultimately show ?thesis using 2 by simp
    qed
    then have "r = Inl (FPanic ''crypto/rand: argument to Int is <= 0'')"
      using r by (simp add: rand_Int_def)
    then show ?thesis using False by (simp add: e)
  qed
qed

lemma random_chars_ok:
  assumes "rand_ok ou" "cs \<noteq> []"
  shows "random_chars ou cs n w = (r, w') \<Longrightarrow>
    (case r of Inr t \<Rightarrow> length t = n \<and> set t \<subseteq> set cs | Inl (FErr _) \<Rightarrow> True | Inl (FPanic _) \<Rightarrow> False)"
proof (induction n arbitrary: w r w')
  case (Suc n)
  obtain q w1 where q: "rand_Int ou ''random_string'' (int (length cs)) w = (q, w1)" by fastforce
  show ?case
  proof (cases q)
    case (Inl e)
    have "e \<noteq> FPanic m" for m using rand_Int_panics q Inl assms(2) by fastforce
    with Inl q Suc.prems show ?thesis by (cases e) auto
  next
    case (Inr k)
    have "0 \<le> k" "nat k < length cs" using rand_Int_below[OF assms(1)] q Inr by fastforce+
    then have k: "cs ! nat k \<in> set cs" by simp
    obtain r2 w2 where r2: "random_chars ou cs n w1 = (r2, w2)" by fastforce
    from Suc.IH[OF r2] Suc.prems q Inr r2 k show ?thesis by (cases r2) auto
  qed
qed simp

lemma charsets_ne: "map_of charsets name = Some cs \<Longrightarrow> cs \<noteq> []"
  by (auto simp: charsets_def split: if_splits)

text \<open>The strings of \<open>random_string\<close>: between the smallest and the largest length asked for, and made of the
  characters of the set that was named; and the call does not panic unless the largest length is that of
  the largest integer.\<close>

theorem random_string_shape:
  assumes "rand_ok ou" "toInt a = Inr lo" "toInt b = Inr hi" "in_int64 lo" "hi < 2 ^ 63 - 1"
  shows "case fst (builtinRandomString ou [GStr name, a, b] w) of
      Inr v \<Rightarrow> \<exists>t cs. v = GStr t \<and> map_of charsets name = Some cs \<and> lo \<le> int (length t) \<and> int (length t) \<le> hi
        \<and> set t \<subseteq> set cs
    | Inl (FErr _) \<Rightarrow> True
    | Inl (FPanic _) \<Rightarrow> False"
proof (cases "map_of charsets name")
  case None
  then show ?thesis by (simp add: builtinRandomString_def err_def)
next
  case (Some cs)
  show ?thesis
  proof (cases "lo < 0 \<or> hi < lo")
    case True
    with Some assms show ?thesis by (simp add: builtinRandomString_def err_def under_def)
  next
    case False
    let ?draw = "if hi > lo then rand_Int ou ''random_string'' (wrap64 (hi - lo + 1)) w else (Inr 0, w)"
    obtain q w1 where q: "?draw = (q, w1)" by (cases ?draw)
    have k: "wrap64 (hi - lo + 1) = hi - lo + 1" using False assms(5) by (intro wrap64_id) (simp add: in_int64_def)
    have e: "builtinRandomString ou [GStr name, a, b] w = (case q of
        Inl e \<Rightarrow> (Inl e, w1)
      | Inr n \<Rightarrow> (case random_chars ou cs (nat (lo + n)) w1 of (r, w2) \<Rightarrow> (map_sum id GStr r, w2)))"
      using Some assms(2,3) False q by (simp add: builtinRandomString_def under_def)
    show ?thesis
    proof (cases q)
      case (Inl x)
      have "x \<noteq> FPanic m" for m
        using q Inl k False rand_Int_panics[of ou "''random_string''" "hi - lo + 1" w m w1] by (auto split: if_splits)
      then show ?thesis using Inl e by (cases x) auto
    next
      case (Inr n)
      have n: "0 \<le> n" "lo + n \<le> hi"
        using q Inr k False rand_Int_below[OF assms(1), of "''random_string''" "hi - lo + 1" w n w1] by (auto split: if_splits)
      obtain r w2 where r: "random_chars ou cs (nat (lo + n)) w1 = (r, w2)" by fastforce
      from random_chars_ok[OF assms(1) charsets_ne[OF Some] r] show ?thesis
        using e Inr r n False Some by (cases r) auto
    qed
  qed
qed

section \<open>UUIDs\<close>

definition uuid4 :: "string \<Rightarrow> bool" where
  "uuid4 u \<longleftrightarrow> (\<exists>a b c d e. u = a @ ''-'' @ b @ ''-'' @ c @ ''-'' @ d @ ''-'' @ e
     \<and> map length [a, b, c, d, e] = [8, 4, 4, 4, 12]
     \<and> set (a @ b @ c @ d @ e) \<subseteq> set ''0123456789abcdef'' \<and> hd c = CHR ''4'' \<and> hd d \<in> set ''89ab'')"

lemma uuid4I:
  "map length [a, b, c, d, e] = [8, 4, 4, 4, 12] \<Longrightarrow> set (a @ b @ c @ d @ e) \<subseteq> set ''0123456789abcdef'' \<Longrightarrow>
   hd c = CHR ''4'' \<Longrightarrow> hd d \<in> set ''89ab'' \<Longrightarrow> uuid4 (a @ ''-'' @ b @ ''-'' @ c @ ''-'' @ d @ ''-'' @ e)"
  unfolding uuid4_def by (intro exI conjI) (rule refl)

lemma hex_digit_in: "n < 16 \<Longrightarrow> hex_digit n \<in> set ''0123456789abcdef''"
proof -
  assume "n < 16"
  then have "n \<in> set [0..<16]" by simp
  moreover have "\<forall>n \<in> set [0..<16]. hex_digit n \<in> set ''0123456789abcdef''"
    by code_simp
  ultimately show ?thesis by blast
qed

lemma hex_encode_digits: "set (hex_encode s) \<subseteq> set ''0123456789abcdef''"
proof -
  have "of_char c div 16 < (16::nat)" for c :: char
    using of_char_less[of c] by (intro less_mult_imp_div_less) simp
  then have "set (hex_byte c) \<subseteq> set ''0123456789abcdef''" for c
    unfolding hex_byte_def using hex_digit_in by simp
  then show ?thesis by (auto simp only: hex_encode_def set_concat set_map)
qed

lemma hd_hex_part:
  "i < j \<Longrightarrow> j \<le> length u \<Longrightarrow> hd (hex_encode (drop i (take j u))) = hex_digit (of_char (u ! i) div 16)"
  by (simp add: hex_encode_def Cons_nth_drop_Suc[symmetric] hex_byte_def)

lemma version_digit: "hex_digit (of_char (set_bits 16 64 c) div 16) = CHR ''4''"
proof -
  have "hex_digit 4 = CHR ''4''" by code_simp
  moreover have "(of_char (set_bits 16 64 c) :: nat) = of_char c mod 16 + 64"
    by (simp add: set_bits_def)
  moreover have "(of_char c mod 16 + 64 :: nat) div 16 = 4" by simp
  ultimately show ?thesis by simp
qed

lemma variant_digit: "hex_digit (of_char (set_bits 64 128 c) div 16) \<in> set ''89ab''"
proof -
  define x :: nat where "x = of_char c mod 64 div 16"
  have "x < 4" by (simp add: x_def)
  then have "8 + x \<in> set [8..<12]" by (simp only: set_upt atLeastLessThan_iff) linarith
  moreover have "\<forall>y \<in> set [8..<12]. hex_digit y \<in> set ''89ab''" by code_simp
  moreover have "of_char (set_bits 64 128 c) div 16 = 8 + x"
    by (simp add: set_bits_def x_def)
  ultimately show ?thesis by (simp only:)
qed

text \<open>What \<open>uuid()\<close> returns is the text of a version 4 UUID of the standard variant, whatever the random bytes are.\<close>

theorem uuid_shape:
  assumes "ou_rand_Read ou 16 w = (Inr bs, w')" "length bs = 16"
  shows "\<exists>u. builtinUUID ou [] w = (Inr (GStr u), w') \<and> uuid4 u"
proof -
  define u where "u = bs[6 := set_bits 16 64 (bs ! 6), 8 := set_bits 64 128 (bs ! 8)]"
  define part where "part = (\<lambda>a b. hex_encode (drop a (take b u)))"
  have len: "length u = 16" by (simp add: u_def assms(2))
  have "length (part a b) = 2 * (b - a)" if "b \<le> 16" for a b
    using that len by (simp add: part_def)
  then have "map length [part 0 4, part 4 6, part 6 8, part 8 10, part 10 16] = [8, 4, 4, 4, 12]" by simp
  moreover have "set (part 0 4 @ part 4 6 @ part 6 8 @ part 8 10 @ part 10 16) \<subseteq> set ''0123456789abcdef''"
    unfolding part_def using hex_encode_digits by (simp only: set_append Un_least)
  moreover have "hd (part 6 8) = CHR ''4''"
    using version_digit hd_hex_part[of 6 8 u] len assms(2) by (simp add: part_def u_def)
  moreover have "hd (part 8 10) \<in> set ''89ab''"
    using variant_digit[of "bs ! 8"] hd_hex_part[of 8 10 u] len assms(2) by (simp add: part_def u_def)
  ultimately have "uuid4 (part 0 4 @ ''-'' @ part 4 6 @ ''-'' @ part 6 8 @ ''-'' @ part 8 10 @ ''-'' @ part 10 16)"
    by (rule uuid4I)
  moreover have "builtinUUID ou [] w =
    (Inr (GStr (part 0 4 @ ''-'' @ part 4 6 @ ''-'' @ part 6 8 @ ''-'' @ part 8 10 @ ''-'' @ part 10 16)), w')"
    by (simp only: builtinUUID_def Let_def assms(1) part_def u_def prod.case sum.case if_False simp_thms)
  ultimately show ?thesis by blast
qed

section \<open>An environment\<close>

definition demo_outside :: "unit outside" where
  "demo_outside = \<lparr>ou_classes = ascii_classes, ou_rand_Int = (\<lambda>b w. (Inr 0, w)), ou_rand_Read = (\<lambda>n w. (Inr (replicate n CHR 0x00), w)),
     ou_Float64 = (\<lambda>w. (Fin 0, w)), ou_Format = (\<lambda>l w. l), ou_Unix = (\<lambda>w. 0), ou_add_time = (\<lambda>t d. None),
     ou_LookupEnv = (\<lambda>n w. None), ou_Marshal = (\<lambda>v. Inl ''unsupported''), ou_md5 = id, ou_sha256 = id, ou_sha512 = id,
     ou_hmac = (\<lambda>k. id), ou_Query = None\<rparr>"

lemma demo_rand_ok: "rand_ok demo_outside"
  by (simp add: rand_ok_def demo_outside_def)

theorem random_int_range_witness:
  "\<exists>m. fst (builtinRandomInt demo_outside [GInt (- (2 ^ 62)), GInt (2 ^ 62)] ()) = Inl (FPanic m)"
  using random_int_range[OF demo_rand_ok, of "GInt (- (2 ^ 62))" "- (2 ^ 62)" "GInt (2 ^ 62)" "2 ^ 62" "()"]
  by (simp add: in_int64_def)

theorem random_string_shape_witness:
  "case fst (builtinRandomString demo_outside [GStr ''hex'', GInt 2, GInt 5] ()) of
      Inr v \<Rightarrow> \<exists>t cs. v = GStr t \<and> map_of charsets ''hex'' = Some cs \<and> 2 \<le> int (length t) \<and> int (length t) \<le> 5 \<and> set t \<subseteq> set cs
    | Inl (FErr _) \<Rightarrow> True
    | Inl (FPanic _) \<Rightarrow> False"
  by (rule random_string_shape[OF demo_rand_ok]) (simp_all add: in_int64_def)

theorem uuid_shape_witness: "\<exists>u. builtinUUID demo_outside [] () = (Inr (GStr u), ()) \<and> uuid4 u"
  by (rule uuid_shape[where bs = "replicate 16 (CHR 0x00)"]) (simp_all add: demo_outside_def)

theorem encodings_roundtrip_witness:
  "Eval (NewEvaluator (registerBuiltins demo_outside NewRegistry) (\<lambda>_. None)) 0
     (FuncCall ''base64_decode'' [FuncCall ''base64_encode'' [StringLit ''a+b c'']]) () = (Inr (GStr ''a+b c''), ())"
  using encodings_roundtrip[of "NewEvaluator (registerBuiltins demo_outside NewRegistry) (\<lambda>_. None)" demo_outside 0
    "StringLit ''a+b c''" "()" "''a+b c''" "()"]
  by (simp add: NewEvaluator_def Eval.simps maxEvalDepth_def)

end
