(* ===== verification/Websocket.thy ===== *)
theory Websocket
  imports Stream_Codec Go_Encoding Go_Strings "HOL-Library.Word"
begin

text \<open>
  connector/browser/cdp: websocket.go, a client for text frames. A connection is the bytes the server has sent and
  that are not yet read, the bytes that wait in the buffered writer, and those that went out. What comes from outside
  is in the state as well: the masks drawn from the system's random numbers (none left is an error), and whether the
  network still takes bytes. The bytes of the model's strings are 8-bit words where the code computes with bits. The
  hash SHA-1 is a parameter, and so are the parts of the parsed URL.
\<close>

unbundle bit_operations_syntax

section \<open>Frames\<close>

definition opText :: "8 word" where "opText = 0x1"
definition opClose :: "8 word" where "opClose = 0x8"
definition opPing :: "8 word" where "opPing = 0x9"
definition opPong :: "8 word" where "opPong = 0xA"

definition byte_of :: "8 word \<Rightarrow> char" where "byte_of w = char_of (unat w)"
definition word_of :: "char \<Rightarrow> 8 word" where "word_of c = of_nat (of_char c)"

lemma word_of_byte [simp]: "word_of (byte_of w) = w"
proof -
  have "unat w < 256" using unsigned_less[of w, where ?'a=nat] by simp
  then show ?thesis by (simp add: word_of_def byte_of_def)
qed

lemma byte_of_word [simp]: "byte_of (word_of c) = c"
proof -
  have "(of_char c :: nat) < 256" by simp
  then have "unat (of_nat (of_char c) :: 8 word) = of_char c" by (simp add: unat_of_nat)
  then show ?thesis by (simp add: word_of_def byte_of_def)
qed

definition apply_mask :: "string \<Rightarrow> string \<Rightarrow> string" where
  "apply_mask msk payload =
     map (\<lambda>i. byte_of (word_of (payload ! i) XOR word_of (msk ! (i mod 4)))) [0..<length payload]"

lemma length_apply_mask [simp]: "length (apply_mask msk payload) = length payload"
  by (simp add: apply_mask_def)

lemma apply_mask_twice [simp]: "apply_mask msk (apply_mask msk payload) = payload"
  by (rule nth_equalityI) (simp_all add: apply_mask_def word_bw_assocs(3))

definition frame_header :: "8 word \<Rightarrow> nat \<Rightarrow> string" where
  "frame_header opcode len =
     byte_of (0x80 OR opcode) #
     (if len \<le> 125 then [byte_of (0x80 OR of_nat len)]
      else if len \<le> 65535 then byte_of (0x80 OR 126) # be_bytes 2 len
      else byte_of (0x80 OR 127) # be_bytes 8 len)"

datatype ws_error =
    ConnectionClosed
  | RandFailed
  | WriteFailed
  | ReadFrameHeader io_error
  | ReadFrameLength io_error
  | ReadExtLength io_error
  | ReadMask io_error
  | ReadPayload io_error
  | MakesliceLen
  | ClosedByServer

record ws_conn =
  ws_in :: string
  ws_buf :: string
  ws_out :: string
  ws_closed :: bool
  ws_masks :: "string list"
  ws_down :: bool

definition writeFrame :: "8 word \<Rightarrow> string \<Rightarrow> ws_conn \<Rightarrow> ws_error option \<times> ws_conn" where
  "writeFrame opcode payload ws =
     (if ws_closed ws then (Some ConnectionClosed, ws)
      else (let b = ws_buf ws @ frame_header opcode (length payload) in
        case ws_masks ws of
          [] \<Rightarrow> (Some RandFailed, ws\<lparr>ws_buf := b\<rparr>)
        | msk # masks \<Rightarrow>
            (let b' = b @ msk @ apply_mask msk payload; ws1 = ws\<lparr>ws_masks := masks\<rparr> in
             if ws_down ws then (Some WriteFailed, ws1\<lparr>ws_buf := b'\<rparr>)
             else (None, ws1\<lparr>ws_buf := [], ws_out := ws_out ws @ b'\<rparr>))))"

definition WriteText :: "string \<Rightarrow> ws_conn \<Rightarrow> ws_error option \<times> ws_conn" where
  "WriteText data ws = writeFrame opText data ws"

text \<open>A slice of more bytes than the address space of the platform has cannot be made: \<open>make\<close> panics.\<close>

definition maxAlloc :: nat where "maxAlloc = 2 ^ 48"

definition read_payload :: "8 word \<Rightarrow> string option \<Rightarrow> nat \<Rightarrow> string \<Rightarrow> (ws_error + 8 word \<times> string) \<times> string" where
  "read_payload opcode msk len r =
     (if len > maxAlloc then (Inl MakesliceLen, r)
      else with_read len ReadPayload r (\<lambda>payload r'.
        (Inr (opcode, case msk of Some m \<Rightarrow> apply_mask m payload | None \<Rightarrow> payload), r')))"

definition read_mask :: "8 word \<Rightarrow> bool \<Rightarrow> nat \<Rightarrow> string \<Rightarrow> (ws_error + 8 word \<times> string) \<times> string" where
  "read_mask opcode masked len r =
     (if masked then with_read 4 ReadMask r (\<lambda>m r'. read_payload opcode (Some m) len r')
      else read_payload opcode None len r)"

definition readFrame :: "string \<Rightarrow> (ws_error + 8 word \<times> string) \<times> string" where
  "readFrame r0 =
     with_read 1 ReadFrameHeader r0 (\<lambda>x0 r1.
       (let opcode = word_of (hd x0) AND 0x0F in
        with_read 1 ReadFrameLength r1 (\<lambda>x1 r2.
          (let b1 = word_of (hd x1);
               masked = (b1 AND 0x80 \<noteq> 0);
               len = unat (b1 AND 0x7F)
           in if len = 126 then with_read 2 ReadExtLength r2 (\<lambda>buf r3. read_mask opcode masked (be_val buf) r3)
              else if len = 127 then with_read 8 ReadExtLength r2 (\<lambda>buf r3. read_mask opcode masked (be_val buf) r3)
              else read_mask opcode masked len r2))))"

lemma read_mask_length: "read_mask opcode masked len r = (x, r') \<Longrightarrow> length r' \<le> length r"
proof -
  have p: "read_payload op m l s = (y, s') \<Longrightarrow> length s' \<le> length s" for op m l s y s'
    by (auto simp: read_payload_def with_read_def read_full_def split: if_splits)
  show "read_mask opcode masked len r = (x, r') \<Longrightarrow> length r' \<le> length r"
    by (auto simp: read_mask_def with_read_def read_full_def split: if_splits dest!: p)
qed

lemma readFrame_shorter: "readFrame r = (Inr x, r') \<Longrightarrow> length r' < length r"
  by (auto simp: readFrame_def with_read_def read_full_def Let_def split: if_splits dest!: read_mask_length)

section \<open>Messages\<close>

definition pong_reply :: "8 word \<Rightarrow> string \<Rightarrow> ws_conn \<Rightarrow> ws_conn" where
  "pong_reply opcode payload ws = (if opcode = opPing then snd (writeFrame opPong payload ws) else ws)"

lemma writeFrame_in [simp]: "ws_in (snd (writeFrame opcode payload ws)) = ws_in ws"
  by (simp add: writeFrame_def Let_def split: list.split)

lemma pong_reply_in [simp]: "ws_in (pong_reply opcode payload ws) = ws_in ws"
  by (simp add: pong_reply_def)

function ReadMessage :: "ws_conn \<Rightarrow> (ws_error + string) \<times> ws_conn" where
  "ReadMessage ws =
     (case readFrame (ws_in ws) of
        (Inl e, r) \<Rightarrow> (Inl e, ws\<lparr>ws_in := r\<rparr>)
      | (Inr (opcode, payload), r) \<Rightarrow>
          (let ws1 = ws\<lparr>ws_in := r\<rparr> in
           if opcode = opText then (Inr payload, ws1)
           else if opcode = opClose then (Inl ClosedByServer, (snd (writeFrame opClose [] ws1))\<lparr>ws_closed := True\<rparr>)
           else ReadMessage (pong_reply opcode payload ws1)))"
  by pat_completeness auto
termination
  by (relation "measure (\<lambda>ws. length (ws_in ws))") (auto dest!: sym readFrame_shorter)

declare ReadMessage.simps [simp del]

text \<open>\<open>Close\<close>, up to closing the network connection.\<close>

definition ws_Close :: "ws_conn \<Rightarrow> ws_conn" where
  "ws_Close ws = (if \<not> ws_closed ws then snd (writeFrame opClose [] (ws\<lparr>ws_closed := True\<rparr>)) else ws)"

section \<open>What is on the wire\<close>

text \<open>A frame of RFC 6455 that is not fragmented, with or without a mask.\<close>

definition wire_frame :: "string option \<Rightarrow> 8 word \<Rightarrow> string \<Rightarrow> string" where
  "wire_frame m opcode payload =
     (let bit = (if m = None then 0 else 0x80); len = length payload in
      byte_of (0x80 OR opcode) #
      (if len \<le> 125 then [byte_of (bit OR of_nat len)]
       else if len \<le> 65535 then byte_of (bit OR 126) # be_bytes 2 len
       else byte_of (bit OR 127) # be_bytes 8 len) @
      (case m of None \<Rightarrow> payload | Some key \<Rightarrow> key @ apply_mask key payload))"

definition frame_ok :: "string option \<Rightarrow> 8 word \<Rightarrow> string \<Rightarrow> bool" where
  "frame_ok m opcode payload \<longleftrightarrow> opcode AND 0x0F = opcode \<and> length payload \<le> maxAlloc \<and> (\<forall>key. m = Some key \<longrightarrow> length key = 4)"

lemma writeFrame_wire:
  "\<not> ws_closed ws \<Longrightarrow> \<not> ws_down ws \<Longrightarrow> ws_masks ws = key # keys \<Longrightarrow> ws_buf ws = [] \<Longrightarrow>
   writeFrame opcode payload ws = (None, ws\<lparr>ws_masks := keys, ws_buf := [], ws_out := ws_out ws @ wire_frame (Some key) opcode payload\<rparr>)"
  by (simp add: writeFrame_def wire_frame_def frame_header_def Let_def)

lemma len_bits: "len < 128 \<Longrightarrow> (of_nat len :: 8 word) AND 127 = of_nat len"
proof -
  assume l: "len < 128"
  have "(127 :: 8 word) = mask 7" by (simp add: mask_eq_exp_minus_1)
  then have "(of_nat len :: 8 word) AND 127 = take_bit 7 (of_nat len)" by (simp add: take_bit_eq_mask)
  also have "\<dots> = of_nat len" using l by (simp add: take_bit_of_nat take_bit_nat_eq_self)
  finally show ?thesis .
qed

lemma second_byte:
  assumes "len < 128" "b \<in> {0, 0x80}"
  shows "unat ((b OR of_nat len :: 8 word) AND 0x7F) = len" "((b OR of_nat len :: 8 word) AND 0x80 \<noteq> 0) = (b = 0x80)"
proof -
  have n: "unat (of_nat len :: 8 word) = len" using assms(1) by (simp add: unat_of_nat)
  have "(b OR of_nat len) AND 0x7F = (b AND 0x7F) OR (of_nat len AND 0x7F)" by (simp add: bit.conj_disj_distrib2)
  also have "\<dots> = of_nat len" using assms len_bits[of len] by auto
  finally show "unat ((b OR of_nat len :: 8 word) AND 0x7F) = len" using n by simp
  have "(of_nat len :: 8 word) AND 0x80 = (of_nat len AND 0x7F) AND 0x80" using assms(1) by (simp only: len_bits)
  also have "\<dots> = of_nat len AND (0x7F AND 0x80)" by (simp only: and.assoc)
  finally have "(of_nat len :: 8 word) AND 0x80 = 0" by simp
  then show "((b OR of_nat len :: 8 word) AND 0x80 \<noteq> 0) = (b = 0x80)"
    using assms(2) by (auto simp: bit.conj_disj_distrib2)
qed

lemma readFrame_wire:
  assumes "frame_ok m opcode payload"
  shows "readFrame (wire_frame m opcode payload @ rest) = (Inr (opcode, payload), rest)"
proof -
  let ?len = "length payload" and ?b = "if m = None then 0 else 0x80 :: 8 word"
  have len: "?len \<le> 2 ^ 48" "?len < 256 ^ 8" using assms by (simp_all add: frame_ok_def maxAlloc_def)
  have op: "(0x80 OR opcode) AND 0x0F = opcode" using assms by (simp add: frame_ok_def bit.conj_disj_distrib2)
  have body: "read_mask opcode (m \<noteq> None) ?len ((case m of None \<Rightarrow> payload | Some key \<Rightarrow> key @ apply_mask key payload) @ rest)
      = (Inr (opcode, payload), rest)"
    using assms len by (cases m) (simp_all add: read_mask_def read_payload_def frame_ok_def maxAlloc_def)
  have two: "readFrame (byte_of w0 # byte_of w1 # r) =
     (let len = unat (w1 AND 0x7F); masked = (w1 AND 0x80 \<noteq> 0)
      in if len = 126 then with_read 2 ReadExtLength r (\<lambda>buf r3. read_mask (w0 AND 0x0F) masked (be_val buf) r3)
         else if len = 127 then with_read 8 ReadExtLength r (\<lambda>buf r3. read_mask (w0 AND 0x0F) masked (be_val buf) r3)
         else read_mask (w0 AND 0x0F) masked len r)" for w0 w1 r
    by (simp add: readFrame_def with_read_def read_full_def Let_def)
  have b: "?b \<in> {0, 0x80}" "(?b = 0x80) = (m \<noteq> None)" by simp_all
  let ?body = "(case m of None \<Rightarrow> payload | Some key \<Rightarrow> key @ apply_mask key payload) @ rest"
  consider "?len \<le> 125" | "125 < ?len" "?len \<le> 65535" | "65535 < ?len" by linarith
  then show ?thesis
  proof cases
    case 1
    then have w: "wire_frame m opcode payload @ rest = byte_of (0x80 OR opcode) # byte_of (?b OR of_nat ?len) # ?body"
      by (simp add: wire_frame_def Let_def)
    have "?len < 128" using 1 by simp
    note s = second_byte[OF this b(1)]
    show ?thesis unfolding w two Let_def s b(2) op using 1 body by simp
  next
    case 2
    then have w: "wire_frame m opcode payload @ rest = byte_of (0x80 OR opcode) # byte_of (?b OR of_nat 126) # be_bytes 2 ?len @ ?body"
      by (simp add: wire_frame_def Let_def)
    have "(126::nat) < 128" by simp
    note s = second_byte[OF this b(1)]
    have "be_val (be_bytes 2 ?len) = ?len" using 2 by simp
    then show ?thesis unfolding w two Let_def s b(2) op using body by simp
  next
    case 3
    then have w: "wire_frame m opcode payload @ rest = byte_of (0x80 OR opcode) # byte_of (?b OR of_nat 127) # be_bytes 8 ?len @ ?body"
      by (simp add: wire_frame_def Let_def)
    have "(127::nat) < 128" by simp
    note s = second_byte[OF this b(1)]
    have "be_val (be_bytes 8 ?len) = ?len" using len by simp
    then show ?thesis unfolding w two Let_def s b(2) op using body by simp
  qed
qed

section \<open>Sending and receiving\<close>

interpretation frames: stream_codec "\<lambda>(m, opcode, payload). wire_frame m opcode payload" readFrame
  "\<lambda>(m, opcode, payload). frame_ok m opcode payload" "\<lambda>(m, opcode, payload) y. y = (opcode, payload)" "ReadFrameHeader IO_EOF"
proof unfold_locales
  fix x :: "string option \<times> 8 word \<times> string" and r
  show "(case x of (m, opcode, payload) \<Rightarrow> frame_ok m opcode payload) \<Longrightarrow>
    \<exists>y. readFrame ((case x of (m, opcode, payload) \<Rightarrow> wire_frame m opcode payload) @ r) = (Inr y, r)
      \<and> (case x of (m, opcode, payload) \<Rightarrow> \<lambda>y. y = (opcode, payload)) y"
    by (cases x) (simp add: readFrame_wire)
qed (simp add: readFrame_def with_read_Nil)

text \<open>A connection that can send: open, up, nothing left over in the buffer and enough masks.\<close>

definition can_send :: "nat \<Rightarrow> ws_conn \<Rightarrow> bool" where
  "can_send n ws \<longleftrightarrow> \<not> ws_closed ws \<and> \<not> ws_down ws \<and> ws_buf ws = [] \<and> n \<le> length (ws_masks ws)
     \<and> (\<forall>key \<in> set (ws_masks ws). length key = 4)"

definition send_all :: "string list \<Rightarrow> ws_conn \<Rightarrow> ws_conn" where
  "send_all msgs ws = fold (\<lambda>msg ws. snd (WriteText msg ws)) msgs ws"

lemma can_send_frame:
  assumes "can_send (Suc n) ws"
  obtains key keys where "ws_masks ws = key # keys" "length key = 4"
    "writeFrame opcode payload ws = (None, ws\<lparr>ws_masks := keys, ws_out := ws_out ws @ wire_frame (Some key) opcode payload\<rparr>)"
    "can_send n (ws\<lparr>ws_masks := keys, ws_out := ws_out ws @ wire_frame (Some key) opcode payload\<rparr>)"
proof -
  obtain key keys where k: "ws_masks ws = key # keys" using assms by (cases "ws_masks ws") (auto simp: can_send_def)
  have "ws\<lparr>ws_masks := keys, ws_buf := [], ws_out := x\<rparr> = ws\<lparr>ws_masks := keys, ws_out := x\<rparr>" for x
    using assms by (cases ws) (simp add: can_send_def)
  then show thesis using that[OF k] k assms writeFrame_wire[of ws key keys opcode payload] by (auto simp: can_send_def)
qed

lemma send_all_wire:
  "can_send (length msgs) ws \<Longrightarrow>
   ws_out (send_all msgs ws) = ws_out ws @ concat (map2 (\<lambda>key msg. wire_frame (Some key) opText msg) (ws_masks ws) msgs)"
proof (induction msgs arbitrary: ws)
  case (Cons msg msgs)
  then have "can_send (Suc (length msgs)) ws" by simp
  then obtain key keys where k: "ws_masks ws = key # keys"
    "writeFrame opText msg ws = (None, ws\<lparr>ws_masks := keys, ws_out := ws_out ws @ wire_frame (Some key) opText msg\<rparr>)"
    "can_send (length msgs) (ws\<lparr>ws_masks := keys, ws_out := ws_out ws @ wire_frame (Some key) opText msg\<rparr>)"
    by (rule can_send_frame[of "length msgs" ws opText msg])
  from Cons.IH[OF k(3)] k(1,2) show ?case by (simp add: send_all_def WriteText_def)
qed (simp add: send_all_def)

lemma op_low [simp]: "opText AND 15 = opText" "opPing AND 15 = opPing" "opPong AND 15 = opPong" "opClose AND 15 = opClose"
  by (simp_all add: opText_def opPing_def opPong_def opClose_def)

text \<open>C38: messages survive the wire. Whatever texts are sent on an open connection, of any bytes and of any length up to
  the largest a frame can have in memory, with whatever masks: a reader of the frames sees these texts in order, each whole, and
  then the end.\<close>

theorem messages_sent:
  assumes "can_send (length msgs) ws" "\<forall>msg \<in> set msgs. length msg \<le> maxAlloc"
  shows "\<exists>bytes. ws_out (send_all msgs ws) = ws_out ws @ bytes
    \<and> read_until readFrame (length msgs + 1) bytes = (map (\<lambda>msg. (opText, msg)) msgs, Some (ReadFrameHeader IO_EOF))"
proof -
  let ?xs = "map2 (\<lambda>key msg. (Some key, opText, msg)) (ws_masks ws) msgs"
  have len: "length msgs \<le> length (ws_masks ws)" using assms(1) by (simp add: can_send_def)
  have "\<forall>x \<in> set ?xs. case x of (m, opcode, payload) \<Rightarrow> frame_ok m opcode payload"
    using assms by (auto simp: frame_ok_def can_send_def dest: set_zip_leftD set_zip_rightD)
  from frames.read_until_enc[OF this, of "length msgs + 1"] len obtain ys where ys:
    "read_until readFrame (length msgs + 1) (concat (map (\<lambda>(m, opcode, payload). wire_frame m opcode payload) ?xs))
      = (ys, Some (ReadFrameHeader IO_EOF))"
    "list_all2 (\<lambda>(m, opcode, payload) y. y = (opcode, payload)) ?xs ys" by auto
  have "ys = map (\<lambda>msg. (opText, msg)) msgs"
    using ys(2) len by (intro nth_equalityI) (auto simp: list_all2_conv_all_nth)
  moreover have m: "map (\<lambda>(m, opcode, payload). wire_frame m opcode payload) ?xs
      = map2 (\<lambda>key msg. wire_frame (Some key) opText msg) (ws_masks ws) msgs"
    by (simp add: comp_def split_beta)
  ultimately show ?thesis using ys(1)[unfolded m] send_all_wire[OF assms(1)] by blast
qed

text \<open>The frames before a text frame: those that are neither text nor close.\<close>

definition wire_all :: "(string option \<times> 8 word \<times> string) list \<Rightarrow> string" where
  "wire_all fs = concat (map (\<lambda>(m, opcode, payload). wire_frame m opcode payload) fs)"

definition control_frames :: "(string option \<times> 8 word \<times> string) list \<Rightarrow> bool" where
  "control_frames fs \<longleftrightarrow> (\<forall>(m, opcode, payload) \<in> set fs. frame_ok m opcode payload \<and> opcode \<noteq> opText \<and> opcode \<noteq> opClose)"

definition pings :: "(string option \<times> 8 word \<times> string) list \<Rightarrow> string list" where
  "pings fs = map (\<lambda>(m, opcode, payload). payload) (filter (\<lambda>(m, opcode, payload). opcode = opPing) fs)"

text \<open>Control frames are handled transparently. \<open>ReadMessage\<close> returns the payload of the first text frame and leaves the bytes
  behind it; before that it has answered every ping, in order, with a pong of the same payload under a fresh mask,
  and has sent nothing else.\<close>

theorem ReadMessage_text:
  assumes "ws_in ws = wire_all fs @ wire_frame m opText text @ rest" "control_frames fs" "frame_ok m opText text"
    "can_send (length (pings fs)) ws"
  shows "ReadMessage ws = (Inr text, ws\<lparr>ws_in := rest, ws_masks := drop (length (pings fs)) (ws_masks ws),
    ws_out := ws_out ws @ concat (map2 (\<lambda>key payload. wire_frame (Some key) opPong payload) (ws_masks ws) (pings fs))\<rparr>)"
  using assms
proof (induction fs arbitrary: ws)
  case Nil
  then show ?case
    by (subst ReadMessage.simps) (simp add: wire_all_def readFrame_wire pings_def)
next
  case (Cons f fs)
  obtain m' opcode payload where f: "f = (m', opcode, payload)" by (cases f) auto
  let ?r = "wire_all fs @ wire_frame m opText text @ rest"
  have ok: "frame_ok m' opcode payload" "opcode \<noteq> opText" "opcode \<noteq> opClose" "control_frames fs"
    using Cons.prems(2) f by (auto simp: control_frames_def)
  have rd: "readFrame (ws_in ws) = (Inr (opcode, payload), ?r)"
    using Cons.prems(1) f readFrame_wire[OF ok(1)] by (simp add: wire_all_def)
  have step: "ReadMessage ws = ReadMessage (pong_reply opcode payload (ws\<lparr>ws_in := ?r\<rparr>))"
    using ok(2,3) by (subst ReadMessage.simps) (simp add: rd)
  show ?case
  proof (cases "opcode = opPing")
    case False
    then have p: "pings (f # fs) = pings fs" by (simp add: pings_def f)
    have "can_send (length (pings fs)) (ws\<lparr>ws_in := ?r\<rparr>)" using Cons.prems(4) p by (simp add: can_send_def)
    from Cons.IH[OF _ ok(4) Cons.prems(3) this] step False p show ?thesis by (simp add: pong_reply_def)
  next
    case True
    then have p: "pings (f # fs) = payload # pings fs" by (simp add: pings_def f)
    have "can_send (Suc (length (pings fs))) (ws\<lparr>ws_in := ?r\<rparr>)" using Cons.prems(4) p by (simp add: can_send_def)
    then obtain key keys where k: "ws_masks ws = key # keys"
      "writeFrame opPong payload (ws\<lparr>ws_in := ?r\<rparr>) =
        (None, ws\<lparr>ws_in := ?r, ws_masks := keys, ws_out := ws_out ws @ wire_frame (Some key) opPong payload\<rparr>)"
      "can_send (length (pings fs)) (ws\<lparr>ws_in := ?r, ws_masks := keys, ws_out := ws_out ws @ wire_frame (Some key) opPong payload\<rparr>)"
      by (rule can_send_frame[of "length (pings fs)" "ws\<lparr>ws_in := ?r\<rparr>" opPong payload]) simp
    from Cons.IH[OF _ ok(4) Cons.prems(3) k(3)] step True k(1,2) p show ?thesis by (simp add: pong_reply_def)
  qed
qed

text \<open>\<open>Close\<close> marks the connection as closed before it writes, so the close frame never goes out.\<close>

lemma Close_silent: "ws_out (ws_Close ws) = ws_out ws \<and> ws_buf (ws_Close ws) = ws_buf ws"
  by (simp add: ws_Close_def writeFrame_def)

text \<open>An open connection to a server that has sent a ping and a text.\<close>

definition demo_ws :: ws_conn where
  "demo_ws = \<lparr>ws_in = wire_frame None opPing ''p'' @ wire_frame None opText ''hi'' @ [], ws_buf = [], ws_out = [],
     ws_closed = False, ws_masks = [''abcd'', ''efgh''], ws_down = False\<rparr>"

theorem messages_sent_witness:
  "\<exists>bytes. ws_out (send_all [''x'', []] demo_ws) = bytes
    \<and> read_until readFrame 3 bytes = ([(opText, ''x''), (opText, [])], Some (ReadFrameHeader IO_EOF))"
proof -
  have "can_send (length [''x'', []]) demo_ws" by (simp add: can_send_def demo_ws_def)
  moreover have "\<forall>msg \<in> set [''x'', []]. length msg \<le> maxAlloc" by (simp add: maxAlloc_def)
  ultimately show ?thesis using messages_sent[of "[''x'', []]" demo_ws] by (simp add: demo_ws_def eval_nat_numeral)
qed

theorem ReadMessage_text_witness:
  "fst (ReadMessage demo_ws) = Inr ''hi'' \<and> ws_out (snd (ReadMessage demo_ws)) = wire_frame (Some ''abcd'') opPong ''p''"
proof -
  have "ws_in demo_ws = wire_all [(None, opPing, ''p'')] @ wire_frame None opText ''hi'' @ []"
    by (simp add: demo_ws_def wire_all_def)
  moreover have "control_frames [(None, opPing, ''p'')]"
    by (simp add: control_frames_def frame_ok_def maxAlloc_def) (simp add: opPing_def opText_def opClose_def)
  moreover have "frame_ok None opText ''hi''" by (simp add: frame_ok_def maxAlloc_def)
  moreover have "can_send (length (pings [(None, opPing, ''p'')])) demo_ws" by (simp add: can_send_def pings_def demo_ws_def)
  ultimately show ?thesis
    using ReadMessage_text[of demo_ws "[(None, opPing, ''p'')]" None "''hi''" "[]"] by (simp add: pings_def demo_ws_def)
qed

section \<open>The handshake\<close>

record url_parts =
  up_Scheme :: string
  up_Host :: string
  up_RequestURI :: string

datatype dial_error =
    ParseURL string
  | DialFailed string
  | GenerateKey
  | WriteHandshake
  | ReadStatus
  | UnexpectedStatus string
  | ReadHeaders
  | AcceptInvalid

definition CRLF :: string where "CRLF = [CHR 0x0D, CHR 0x0A]"

definition dial_host :: "url_parts \<Rightarrow> string" where
  "dial_host u =
     (if contains (up_Host u) '':'' then up_Host u
      else if up_Scheme u = ''ws'' then up_Host u @ '':80''
      else if up_Scheme u = ''wss'' then up_Host u @ '':443''
      else up_Host u @ '':80'')"

definition handshake_request :: "url_parts \<Rightarrow> string \<Rightarrow> string" where
  "handshake_request u key =
     ''GET '' @ up_RequestURI u @ '' HTTP/1.1'' @ CRLF @
     ''Host: '' @ up_Host u @ CRLF @
     ''Upgrade: websocket'' @ CRLF @
     ''Connection: Upgrade'' @ CRLF @
     ''Sec-WebSocket-Key: '' @ key @ CRLF @
     ''Sec-WebSocket-Version: 13'' @ CRLF @ CRLF"

definition computeAcceptKey :: "(string \<Rightarrow> string) \<Rightarrow> string \<Rightarrow> string" where
  "computeAcceptKey sha1 key = b64_encode (sha1 (key @ ''258EAFA5-E914-47DA-95CA-C5AB0DC85B11''))"

text \<open>\<open>reader.ReadString\<close> up to a line feed.\<close>

definition read_line :: "string \<Rightarrow> (string \<times> string) option" where
  "read_line r =
     (if CHR 0x0A \<in> set r
      then Some (takeWhile (\<lambda>c. c \<noteq> CHR 0x0A) r @ [CHR 0x0A], tl (dropWhile (\<lambda>c. c \<noteq> CHR 0x0A) r))
      else None)"

lemma read_line_split: "read_line r = Some (l, r') \<Longrightarrow> r = l @ r' \<and> l \<noteq> []"
proof -
  assume a: "read_line r = Some (l, r')"
  let ?P = "\<lambda>c. c \<noteq> CHR 0x0A"
  have m: "CHR 0x0A \<in> set r" using a by (simp add: read_line_def split: if_splits)
  then have ne: "dropWhile ?P r \<noteq> []" by (auto simp: dropWhile_eq_Nil_conv)
  then have "dropWhile ?P r = CHR 0x0A # tl (dropWhile ?P r)"
    using hd_dropWhile[of ?P r] by (cases "dropWhile ?P r") auto
  then have "r = takeWhile ?P r @ [CHR 0x0A] @ tl (dropWhile ?P r)"
    using takeWhile_dropWhile_id[of ?P r] by (metis append_Cons append_Nil)
  with a m show "r = l @ r' \<and> l \<noteq> []" by (auto simp: read_line_def)
qed

definition is_accept :: "unicode_classes \<Rightarrow> string \<Rightarrow> string \<Rightarrow> bool" where
  "is_accept uc expected line \<longleftrightarrow>
     has_prefix (to_lower uc line) ''sec-websocket-accept:'' \<and>
     trim_space (drop (length ''sec-websocket-accept:'') line) = expected"

function header_loop :: "unicode_classes \<Rightarrow> string \<Rightarrow> bool \<Rightarrow> string \<Rightarrow> dial_error + string" where
  "header_loop uc expected found r =
     (case read_line r of
        None \<Rightarrow> Inl ReadHeaders
      | Some (l, r') \<Rightarrow>
          (let line = trim_space l in
           if line = [] then (if found then Inr r' else Inl AcceptInvalid)
           else header_loop uc expected (found \<or> is_accept uc expected line) r'))"
  by pat_completeness auto
termination
  by (relation "measure (\<lambda>(uc, expected, found, r). length r)") (auto dest: read_line_split)

declare header_loop.simps [simp del]

definition handshake :: "unicode_classes \<Rightarrow> (string \<Rightarrow> string) \<Rightarrow> string \<Rightarrow> string \<Rightarrow> dial_error + string" where
  "handshake uc sha1 key r =
     (case read_line r of
        None \<Rightarrow> Inl ReadStatus
      | Some (statusLine, r') \<Rightarrow>
          if \<not> contains statusLine ''101'' then Inl (UnexpectedStatus (trim_space statusLine))
          else header_loop uc (computeAcceptKey sha1 key) False r')"

text \<open>The network: a connection to a host, with what the server will send on it and whether it takes bytes; the random bytes of
  the key, then those of the masks.\<close>

definition dialWebSocket ::
  "unicode_classes \<Rightarrow> (string \<Rightarrow> string) \<Rightarrow> (string \<Rightarrow> string + url_parts) \<Rightarrow> (string \<Rightarrow> string + string \<times> bool)
    \<Rightarrow> string list \<Rightarrow> string \<Rightarrow> dial_error + ws_conn" where
  "dialWebSocket uc sha1 parse dial rand rawURL =
     (case parse rawURL of
        Inl err \<Rightarrow> Inl (ParseURL err)
      | Inr u \<Rightarrow>
          (case dial (dial_host u) of
             Inl err \<Rightarrow> Inl (DialFailed err)
           | Inr (response, down) \<Rightarrow>
               (case rand of
                  [] \<Rightarrow> Inl GenerateKey
                | keyBytes # masks \<Rightarrow>
                    (let key = b64_encode keyBytes in
                     if down then Inl WriteHandshake
                     else (case handshake uc sha1 key response of
                         Inl e \<Rightarrow> Inl e
                       | Inr r \<Rightarrow> Inr \<lparr>ws_in = r, ws_buf = [], ws_out = handshake_request u key, ws_closed = False,
                           ws_masks = masks, ws_down = down\<rparr>)))))"

definition accepted_response :: "unicode_classes \<Rightarrow> string \<Rightarrow> string \<Rightarrow> string \<Rightarrow> bool" where
  "accepted_response uc expected response r \<longleftrightarrow>
     (\<exists>status hs blank. response = status @ concat hs @ blank @ r \<and> contains status ''101'' \<and> trim_space blank = []
       \<and> (\<exists>h \<in> set hs. is_accept uc expected (trim_space h)))"

lemma header_loop_accepts:
  "header_loop uc expected found r0 = Inr r \<Longrightarrow>
   \<exists>hs blank. r0 = concat hs @ blank @ r \<and> trim_space blank = [] \<and> (found \<or> (\<exists>h \<in> set hs. is_accept uc expected (trim_space h)))"
proof (induction uc expected found r0 rule: header_loop.induct)
  case (1 uc expected found r0)
  from "1.prems" obtain l r' where l: "read_line r0 = Some (l, r')"
    by (subst (asm) header_loop.simps) (auto split: option.splits)
  note r0 = read_line_split[OF l, THEN conjunct1]
  show ?case
  proof (cases "trim_space l = []")
    case True
    then have "header_loop uc expected found r0 = (if found then Inr r' else Inl AcceptInvalid)"
      using l by (subst header_loop.simps) simp
    with "1.prems" have "found" "r' = r" by (simp_all split: if_splits)
    with r0 True show ?thesis by (intro exI[of _ "[]"] exI[of _ l]) simp
  next
    case False
    with "1.prems" l have "header_loop uc expected (found \<or> is_accept uc expected (trim_space l)) r' = Inr r"
      by (subst (asm) header_loop.simps) (simp add: Let_def)
    from "1.IH"[OF l refl refl False this] obtain hs blank where
      "r' = concat hs @ blank @ r" "trim_space blank = []"
      "(found \<or> is_accept uc expected (trim_space l)) \<or> (\<exists>h \<in> set hs. is_accept uc expected (trim_space h))" by blast
    with r0 show ?thesis by (intro exI[of _ "l # hs"] exI[of _ blank]) auto
  qed
qed

text \<open>The handshake checks the server. A connection only comes about when the server's response is a status line that
  contains 101, headers one of which is the accept key of the client's key (which went out in the request), and a
  blank line; what follows the blank line is what frames are read from.\<close>

theorem dial_checks_server:
  assumes "dialWebSocket uc sha1 parse dial (keyBytes # masks) rawURL = Inr ws"
  shows "\<exists>u response down. parse rawURL = Inr u \<and> dial (dial_host u) = Inr (response, down)
    \<and> ws_out ws = handshake_request u (b64_encode keyBytes)
    \<and> accepted_response uc (computeAcceptKey sha1 (b64_encode keyBytes)) response (ws_in ws)"
proof -
  obtain u response down r where d: "parse rawURL = Inr u" "dial (dial_host u) = Inr (response, down)" "\<not> down"
    "handshake uc sha1 (b64_encode keyBytes) response = Inr r"
    "ws = \<lparr>ws_in = r, ws_buf = [], ws_out = handshake_request u (b64_encode keyBytes), ws_closed = False,
       ws_masks = masks, ws_down = down\<rparr>"
    using assms by (auto simp: dialWebSocket_def Let_def split: sum.splits if_splits)
  obtain status r' where s: "read_line response = Some (status, r')" "contains status ''101''"
    "header_loop uc (computeAcceptKey sha1 (b64_encode keyBytes)) False r' = Inr r"
    using d(4) by (auto simp: handshake_def split: option.splits if_splits)
  from header_loop_accepts[OF s(3)] obtain hs blank where h: "r' = concat hs @ blank @ r" "trim_space blank = []"
    "\<exists>h \<in> set hs. is_accept uc (computeAcceptKey sha1 (b64_encode keyBytes)) (trim_space h)" by blast
  have "accepted_response uc (computeAcceptKey sha1 (b64_encode keyBytes)) response r"
    unfolding accepted_response_def using read_line_split[OF s(1)] s(2) h by blast
  with d show ?thesis by auto
qed

theorem dial_checks_server_witness:
  "\<exists>ws. dialWebSocket ascii_classes (\<lambda>_. []) (\<lambda>_. Inr \<lparr>up_Scheme = ''ws'', up_Host = ''h'', up_RequestURI = ''/''\<rparr>)
      (\<lambda>h. if h = ''h:80'' then Inr (''101'' @ [CHR 0x0A] @ ''sec-websocket-accept:'' @ [CHR 0x0A, CHR 0x0A], False) else Inl ''refused'')
      [''k''] ''ws://h/'' = Inr ws
    \<and> accepted_response ascii_classes (computeAcceptKey (\<lambda>_. []) (b64_encode ''k''))
        (''101'' @ [CHR 0x0A] @ ''sec-websocket-accept:'' @ [CHR 0x0A, CHR 0x0A]) (ws_in ws)"
proof -
  let ?u = "\<lparr>up_Scheme = ''ws'', up_Host = ''h'', up_RequestURI = ''/''\<rparr>" and ?k = "computeAcceptKey (\<lambda>_. []) (b64_encode ''k'')"
  let ?h = "''sec-websocket-accept:'' @ [CHR 0x0A]"
  let ?dial = "\<lambda>h. if h = ''h:80'' then Inr (''101'' @ [CHR 0x0A] @ ''sec-websocket-accept:'' @ [CHR 0x0A, CHR 0x0A], False) else Inl ''refused''"
  have trim: "trim_space [CHR 0x0A] = []" "trim_space ?h = ''sec-websocket-accept:''" "trim_space [] = []" by code_simp+
  have "to_lower ascii_classes ''sec-websocket-accept:'' = ''sec-websocket-accept:''"
    by (rule to_lower_plain) (simp add: is_ascii_def)
  then have acc: "is_accept ascii_classes ?k ''sec-websocket-accept:''"
    using trim(3) by (simp add: is_accept_def has_prefix_def computeAcceptKey_def b64_encode_def)
  have l: "read_line (''101'' @ [CHR 0x0A] @ ?h @ [CHR 0x0A]) = Some (''101'' @ [CHR 0x0A], ?h @ [CHR 0x0A])"
    "read_line (?h @ [CHR 0x0A]) = Some (?h, [CHR 0x0A])" "read_line [CHR 0x0A] = Some ([CHR 0x0A], [])"
    by (simp_all add: read_line_def)
  have "header_loop ascii_classes ?k True [CHR 0x0A] = Inr []"
    by (subst header_loop.simps) (simp only: l(3) option.case prod.case Let_def trim(1) if_True refl)
  then have "header_loop ascii_classes ?k False (?h @ [CHR 0x0A]) = Inr []"
    using acc by (subst header_loop.simps) (simp only: l(2) option.case prod.case Let_def trim(2), simp)
  moreover have "contains (''101'' @ [CHR 0x0A]) ''101''" by (simp add: contains_iff) (metis append_Nil append_Cons)
  ultimately have "handshake ascii_classes (\<lambda>_. []) (b64_encode ''k'') (''101'' @ [CHR 0x0A] @ ?h @ [CHR 0x0A]) = Inr []"
    unfolding handshake_def l(1) by simp
  moreover have "dial_host ?u = ''h:80''" by (simp add: dial_host_def contains_def has_prefix_def)
  ultimately obtain ws where d: "dialWebSocket ascii_classes (\<lambda>_. []) (\<lambda>_. Inr ?u) ?dial [''k''] ''ws://h/'' = Inr ws"
    by (simp add: dialWebSocket_def Let_def)
  from dial_checks_server[OF d] d \<open>dial_host ?u = ''h:80''\<close> show ?thesis by auto
qed

end
