(* ===== verification/Suite_Pool.thy ===== *)
theory Suite_Pool
  imports Engine Step_Systems
begin

text \<open>
  core/engine/parallel.go: the pool that runs the suites, as a step relation over the goroutine that starts the work and the goroutines it
  starts. The semaphore is a channel of capacity \<open>size\<close> of which only the number of tokens matters. A goroutine that is \<open>Inside\<close> runs the
  function; a \<open>Freeing\<close> one takes its token back from the channel, and a \<open>Exiting\<close> one calls \<open>wg.Done\<close>. The theorem is what
  theory Engine assumes of the order in which suites run.
\<close>

section \<open>Steps\<close>

datatype goroutine = Launched | Inside | Freeing | Exiting | Gone

datatype pool_main = Starting | Joining | Returned

record suite_pool =
  sp_main :: pool_main
  sp_goroutines :: "goroutine list"
  sp_tokens :: nat
  sp_ran :: "nat list"

text \<open>\<open>NewPool\<close>: a size below 1 counts as 1.\<close>

definition NewPool :: "int \<Rightarrow> nat" where
  "NewPool limit = (if limit < 1 then 1 else nat limit)"

definition suite_pool_start :: suite_pool where
  "suite_pool_start = \<lparr>sp_main = Starting, sp_goroutines = [], sp_tokens = 0, sp_ran = []\<rparr>"

inductive suite_pool_step :: "nat \<Rightarrow> nat \<Rightarrow> suite_pool \<Rightarrow> suite_pool \<Rightarrow> bool" for n cnt where
  launch: "sp_main s = Starting \<Longrightarrow> length (sp_goroutines s) < cnt \<Longrightarrow> sp_tokens s < n \<Longrightarrow>
    suite_pool_step n cnt s (s\<lparr>sp_goroutines := sp_goroutines s @ [Launched], sp_tokens := sp_tokens s + 1\<rparr>)"
| all_started: "sp_main s = Starting \<Longrightarrow> length (sp_goroutines s) \<ge> cnt \<Longrightarrow> suite_pool_step n cnt s (s\<lparr>sp_main := Joining\<rparr>)"
| join: "sp_main s = Joining \<Longrightarrow> \<forall>g \<in> set (sp_goroutines s). g = Gone \<Longrightarrow> suite_pool_step n cnt s (s\<lparr>sp_main := Returned\<rparr>)"
| call: "i < length (sp_goroutines s) \<Longrightarrow> sp_goroutines s ! i = Launched \<Longrightarrow>
    suite_pool_step n cnt s (s\<lparr>sp_goroutines := (sp_goroutines s)[i := Inside], sp_ran := sp_ran s @ [i]\<rparr>)"
| ended: "i < length (sp_goroutines s) \<Longrightarrow> sp_goroutines s ! i = Inside \<Longrightarrow>
    suite_pool_step n cnt s (s\<lparr>sp_goroutines := (sp_goroutines s)[i := Freeing]\<rparr>)"
| release: "i < length (sp_goroutines s) \<Longrightarrow> sp_goroutines s ! i = Freeing \<Longrightarrow> 0 < sp_tokens s \<Longrightarrow>
    suite_pool_step n cnt s (s\<lparr>sp_goroutines := (sp_goroutines s)[i := Exiting], sp_tokens := sp_tokens s - 1\<rparr>)"
| leave: "i < length (sp_goroutines s) \<Longrightarrow> sp_goroutines s ! i = Exiting \<Longrightarrow>
    suite_pool_step n cnt s (s\<lparr>sp_goroutines := (sp_goroutines s)[i := Gone]\<rparr>)"

section \<open>What every interleaving keeps\<close>

definition holds_token :: "goroutine \<Rightarrow> nat" where
  "holds_token g = (if g \<in> {Launched, Inside, Freeing} then 1 else 0)"

definition called_once :: "nat list \<Rightarrow> goroutine list \<Rightarrow> bool" where
  "called_once is gs \<longleftrightarrow> distinct is \<and> (\<forall>i. i \<in> set is \<longleftrightarrow> i < length gs \<and> gs ! i \<noteq> Launched)"

lemma called_once_launch: "called_once is gs \<Longrightarrow> called_once is (gs @ [Launched])"
  by (auto simp: called_once_def nth_append less_Suc_eq)

lemma called_once_call: "called_once is gs \<Longrightarrow> i < length gs \<Longrightarrow> gs ! i = Launched \<Longrightarrow> called_once (is @ [i]) (gs[i := Inside])"
  by (auto simp: called_once_def nth_list_update)

lemma called_once_on: "called_once is gs \<Longrightarrow> gs ! i \<noteq> Launched \<Longrightarrow> g \<noteq> Launched \<Longrightarrow> called_once is (gs[i := g])"
  unfolding called_once_def by (metis length_list_update nth_list_update_eq nth_list_update_neq)

definition suite_pool_ok :: "nat \<Rightarrow> nat \<Rightarrow> suite_pool \<Rightarrow> bool" where
  "suite_pool_ok n cnt s \<longleftrightarrow> sp_tokens s = sum_list (map holds_token (sp_goroutines s)) \<and> sp_tokens s \<le> n
     \<and> length (sp_goroutines s) \<le> cnt
     \<and> called_once (sp_ran s) (sp_goroutines s)
     \<and> (sp_main s \<noteq> Starting \<longrightarrow> length (sp_goroutines s) = cnt)
     \<and> (sp_main s = Returned \<longrightarrow> (\<forall>g \<in> set (sp_goroutines s). g = Gone))"

lemma not_gone: "suite_pool_ok n cnt s \<Longrightarrow> i < length (sp_goroutines s) \<Longrightarrow> sp_goroutines s ! i \<noteq> Gone \<Longrightarrow> sp_main s \<noteq> Returned"
  using nth_mem[of i "sp_goroutines s"] unfolding suite_pool_ok_def by blast

lemma suite_pool_step_ok:
  assumes "suite_pool_ok n cnt s" "suite_pool_step n cnt s t"
  shows "suite_pool_ok n cnt t"
  using assms(2)
proof (cases rule: suite_pool_step.cases)
  case launch
  with assms(1) called_once_launch show ?thesis by (auto simp: suite_pool_ok_def holds_token_def)
next
  case all_started
  with assms(1) show ?thesis by (auto simp: suite_pool_ok_def)
next
  case join
  with assms(1) show ?thesis by (auto simp: suite_pool_ok_def)
next
  case (call i)
  have "called_once (sp_ran s @ [i]) ((sp_goroutines s)[i := Inside])"
    using assms(1) call(2,3) by (simp add: suite_pool_ok_def called_once_call)
  then show ?thesis
    using call assms(1) not_gone[OF assms(1) call(2)] sum_update[OF call(2), of holds_token Inside] by (simp add: suite_pool_ok_def holds_token_def)
next
  case (ended i)
  have "called_once (sp_ran s) ((sp_goroutines s)[i := Freeing])"
    using assms(1) ended(3) by (simp add: suite_pool_ok_def called_once_on)
  then show ?thesis
    using ended assms(1) not_gone[OF assms(1) ended(2)] sum_update[OF ended(2), of holds_token Freeing] by (simp add: suite_pool_ok_def holds_token_def)
next
  case (release i)
  have "called_once (sp_ran s) ((sp_goroutines s)[i := Exiting])"
    using assms(1) release(3) by (simp add: suite_pool_ok_def called_once_on)
  then show ?thesis
    using release assms(1) not_gone[OF assms(1) release(2)] sum_update[OF release(2), of holds_token Exiting] by (auto simp: suite_pool_ok_def holds_token_def)
next
  case (leave i)
  have "called_once (sp_ran s) ((sp_goroutines s)[i := Gone])"
    using assms(1) leave(3) by (simp add: suite_pool_ok_def called_once_on)
  then show ?thesis
    using leave assms(1) not_gone[OF assms(1) leave(2)] sum_update[OF leave(2), of holds_token Gone] by (simp add: suite_pool_ok_def holds_token_def)
qed

section \<open>It returns\<close>

definition goroutine_todo :: "goroutine \<Rightarrow> nat" where
  "goroutine_todo g = (case g of Launched \<Rightarrow> 4 | Inside \<Rightarrow> 3 | Freeing \<Rightarrow> 2 | Exiting \<Rightarrow> 1 | Gone \<Rightarrow> 0)"

definition suite_pool_todo :: "nat \<Rightarrow> suite_pool \<Rightarrow> nat" where
  "suite_pool_todo cnt s = 5 * (cnt - length (sp_goroutines s)) + sum_list (map goroutine_todo (sp_goroutines s))
     + (case sp_main s of Starting \<Rightarrow> 2 | Joining \<Rightarrow> 1 | Returned \<Rightarrow> 0)"

lemma suite_pool_step_todo:
  assumes "suite_pool_step n cnt s t"
  shows "suite_pool_todo cnt t < suite_pool_todo cnt s"
  using assms
proof (cases rule: suite_pool_step.cases)
  case (call i)
  with sum_update[OF call(2), of goroutine_todo Inside] show ?thesis by (simp add: suite_pool_todo_def goroutine_todo_def)
next
  case (ended i)
  with sum_update[OF ended(2), of goroutine_todo Freeing] show ?thesis by (simp add: suite_pool_todo_def goroutine_todo_def)
next
  case (release i)
  with sum_update[OF release(2), of goroutine_todo Exiting] show ?thesis by (simp add: suite_pool_todo_def goroutine_todo_def)
next
  case (leave i)
  with sum_update[OF leave(2), of goroutine_todo Gone] show ?thesis by (simp add: suite_pool_todo_def goroutine_todo_def)
qed (auto simp: suite_pool_todo_def goroutine_todo_def)

lemma suite_pool_can_step:
  assumes "suite_pool_ok n cnt s" "0 < n" "sp_main s \<noteq> Returned"
  shows "\<exists>t. suite_pool_step n cnt s t"
proof (cases "\<forall>g \<in> set (sp_goroutines s). g = Gone")
  case True
  then have "sum_list (map holds_token (sp_goroutines s)) = 0" by (auto simp: holds_token_def)
  with assms have "sp_tokens s < n" by (simp add: suite_pool_ok_def)
  moreover have "sp_main s = Starting \<or> sp_main s = Joining" using assms(3) by (cases "sp_main s") simp_all
  ultimately show ?thesis using True launch[of s cnt n] all_started[of s cnt n] join[of s n cnt] by (meson not_le)
next
  case False
  then obtain i where i: "i < length (sp_goroutines s)" "sp_goroutines s ! i \<noteq> Gone" by (metis in_set_conv_nth)
  show ?thesis
  proof (cases "sp_goroutines s ! i")
    case Freeing
    then have "holds_token (sp_goroutines s ! i) \<le> sum_list (map holds_token (sp_goroutines s))"
      using i by (intro member_le_sum_list) (metis image_eqI list.set_map nth_mem, simp)
    with Freeing assms(1) have "0 < sp_tokens s" by (simp add: suite_pool_ok_def holds_token_def)
    with i Freeing show ?thesis by (blast intro: release)
  qed (use i in \<open>auto intro: call ended leave\<close>)
qed

text \<open>Every run of the pool that is not over can go on, and none goes on for ever.\<close>

interpretation suites: stopping_system "suite_pool_step n cnt" "\<lambda>s. suite_pool_ok n cnt s \<and> 0 < n" "suite_pool_todo cnt"
    "\<lambda>s. sp_main s = Returned" for n cnt
  by unfold_locales (auto intro: suite_pool_step_ok suite_pool_step_todo suite_pool_can_step)

lemma suite_pool_steps:
  assumes "(suite_pool_step (NewPool limit) cnt)\<^sup>*\<^sup>* suite_pool_start s"
  shows "suite_pool_ok (NewPool limit) cnt s \<and> 0 < NewPool limit"
proof -
  have "suite_pool_ok (NewPool limit) cnt suite_pool_start \<and> 0 < NewPool limit"
    by (simp add: suite_pool_ok_def suite_pool_start_def called_once_def NewPool_def)
  from suites.reach_good[OF assms this] show ?thesis .
qed

lemma suite_pool_perm:
  assumes "suite_pool_ok n cnt s" "sp_main s = Returned"
  shows "mset (sp_ran s) = mset [0..<cnt]"
proof (rule set_eq_iff_mset_eq_distinct[THEN iffD1])
  show "distinct (sp_ran s)" using assms(1) by (simp add: suite_pool_ok_def called_once_def)
  show "set (sp_ran s) = set [0..<cnt]"
  proof -
    have g: "sp_goroutines s ! i = Gone" if "i < cnt" for i
      using assms that nth_mem[of i "sp_goroutines s"] by (simp add: suite_pool_ok_def)
    have "i \<in> set (sp_ran s) \<longleftrightarrow> i < cnt \<and> sp_goroutines s ! i \<noteq> Launched" for i
      using assms by (auto simp: suite_pool_ok_def called_once_def)
    with g have "i \<in> set (sp_ran s) \<longleftrightarrow> i < cnt" for i by (cases "i < cnt") simp_all
    then show ?thesis by (intro set_eqI) simp
  qed
qed simp

text \<open>What theory Engine shows of an order of the suites thus holds of the order in which the pool runs them.\<close>

lemma suite_pool_verdict:
  assumes "(suite_pool_step (NewPool limit) (length suites))\<^sup>*\<^sup>* suite_pool_start s" "sp_main s = Returned"
    "Engine_Run e (sp_ran s) suites s0 = Some (Inr rs, s1)"
  shows "ExitCode (map the rs) = 0 \<longleftrightarrow> (\<forall>sr. Some sr \<in> set rs \<longrightarrow> list_all rt_Passed (sur_Results sr))"
  using run_verdict[OF assms(3) suite_pool_perm[OF conjunct1[OF suite_pool_steps[OF assms(1)]] assms(2)]] by blast

text \<open>C7: the pool of suites. However the goroutines of the pool interleave, never more functions run at once than its size, none is called twice,
  and from wherever it is the pool can return; every step brings it nearer to that; and when it has returned every function has been
  called exactly once, so that the order of the calls is one that theory Engine assumes.\<close>

theorem suite_pool_runs_all:
  assumes "(suite_pool_step (NewPool limit) cnt)\<^sup>*\<^sup>* suite_pool_start s"
  shows "length (filter (\<lambda>g. g = Inside) (sp_goroutines s)) \<le> NewPool limit \<and> distinct (sp_ran s)
    \<and> (\<exists>t. (suite_pool_step (NewPool limit) cnt)\<^sup>*\<^sup>* s t \<and> sp_main t = Returned)
    \<and> (\<forall>t. suite_pool_step (NewPool limit) cnt s t \<longrightarrow> suite_pool_todo cnt t < suite_pool_todo cnt s)
    \<and> (sp_main s = Returned \<longrightarrow> mset (sp_ran s) = mset [0..<cnt])"
proof -
  note steps = suite_pool_steps[OF assms]
  note ok = conjunct1[OF steps]
  have "length (filter (\<lambda>g. g = Inside) gs) \<le> sum_list (map holds_token gs)" for gs
    by (induction gs) (auto simp: holds_token_def)
  then have "length (filter (\<lambda>g. g = Inside) (sp_goroutines s)) \<le> NewPool limit" using ok by (metis suite_pool_ok_def order_trans)
  moreover have "distinct (sp_ran s)" using ok by (simp add: suite_pool_ok_def called_once_def)
  ultimately show ?thesis using suites.comes_to_end[OF steps] suite_pool_step_todo suite_pool_perm[OF ok] by blast
qed

theorem suite_pool_runs_all_witness: "\<exists>t. (suite_pool_step (NewPool 0) 2)\<^sup>*\<^sup>* suite_pool_start t \<and> sp_main t = Returned"
proof -
  have "(suite_pool_step (NewPool 0) 2)\<^sup>*\<^sup>* suite_pool_start suite_pool_start" by blast
  from suite_pool_runs_all[OF this] show ?thesis by blast
qed

end
