(* ===== verification/Loadtest.thy ===== *)
theory Loadtest
  imports Runner Fleet "HOL-Library.Multiset"
begin

text \<open>
  loadtest: the ramp-up schedule, the metrics, the orchestrator as far as it is a function of what its workers send and of
  when the test's time is up, and the distributed runs. Times are integers of nanoseconds. The messages of errors
  are collected in a Go map, whose order is arbitrary; here they are a list without repetitions. The goroutines of a pool
  and the text of \<open>Summary\<close> are in theory Worker\_Pool. The ssh connector of a node is one that does not panic: a panic
  would end the process.
\<close>

text \<open>The values that are there.\<close>

fun present :: "'a option list \<Rightarrow> 'a list" where
  "present [] = []"
| "present (Some x # xs) = x # present xs"
| "present (None # xs) = present xs"

lemma set_present: "set (present xs) = {x. Some x \<in> set xs}"
  by (induction xs rule: present.induct) auto

section \<open>The ramp-up\<close>

record load_config =
  lc_Concurrency :: int
  lc_Duration :: int
  lc_RampUp :: int

record ramp_step =
  rs_At :: int
  rs_Workers :: int

definition Schedule :: "int \<Rightarrow> int \<Rightarrow> ramp_step list" where
  "Schedule concurrency rampUp =
     (if concurrency \<le> 0 then []
      else if concurrency = 1 \<or> rampUp \<le> 0 then [\<lparr>rs_At = 0, rs_Workers = concurrency\<rparr>]
      else map (\<lambda>i. \<lparr>rs_At = tdiv (wrap64 (rampUp * int i)) (concurrency - 1), rs_Workers = int i + 1\<rparr>) [0..<nat concurrency])"

text \<open>The sizes of the pools the orchestrator starts; \<open>late t\<close> says whether the test's context is done before the step at
  \<open>t\<close>.\<close>

fun launch :: "(int \<Rightarrow> bool) \<Rightarrow> ramp_step list \<Rightarrow> int \<Rightarrow> int list" where
  "launch late [] activeWorkers = []"
| "launch late (step # steps) activeWorkers =
     (if rs_At step > 0 \<and> late (rs_At step) then []
      else (let newWorkers = rs_Workers step - activeWorkers in
        if newWorkers > 0 then newWorkers # launch late steps (rs_Workers step)
        else launch late steps activeWorkers))"

section \<open>Metrics\<close>

record snapshot =
  ms_TotalRequests :: int
  ms_SuccessCount :: int
  ms_ErrorCount :: int
  ms_MeanLatency :: int
  ms_P50Latency :: int
  ms_P95Latency :: int
  ms_P99Latency :: int
  ms_MinLatency :: int
  ms_MaxLatency :: int
  ms_RequestsPerSec :: f64
  ms_StartTime :: int
  ms_ElapsedTime :: int

record metrics =
  me_latencies :: "int list"
  me_errors :: int
  me_startTime :: int

definition NewMetrics :: "int \<Rightarrow> metrics" where
  "NewMetrics now = \<lparr>me_latencies = [], me_errors = 0, me_startTime = now\<rparr>"

definition Record :: "int \<Rightarrow> string option \<Rightarrow> metrics \<Rightarrow> metrics" where
  "Record elapsed err m =
     (let m1 = m\<lparr>me_latencies := me_latencies m @ [elapsed]\<rparr>
      in if err \<noteq> None then m1\<lparr>me_errors := me_errors m1 + 1\<rparr> else m1)"

definition seconds :: "int \<Rightarrow> f64" where
  "seconds d = f64_add (f64_of_int (tdiv d 1000000000)) (f64_div (f64_of_int (tmod d 1000000000)) (Fin 1000000000))"

definition percentile :: "int list \<Rightarrow> f64 \<Rightarrow> int" where
  "percentile srt p =
     (if srt = [] then 0
      else if length srt = 1 then srt ! 0
      else (let idx = f64_mul (f64_div p (Fin 100)) (f64_of_int (int (length srt) - 1));
                lower = f64_to_int (f64_floor idx);
                upper = f64_to_int (f64_ceil idx)
            in if lower = upper then srt ! nat lower
               else (let frac = f64_sub idx (f64_of_int lower) in
                 f64_to_int (f64_add (f64_mul (f64_of_int (srt ! nat lower)) (f64_sub (Fin 1) frac))
                   (f64_mul (f64_of_int (srt ! nat upper)) frac)))))"

definition no_snapshot :: snapshot where
  "no_snapshot = \<lparr>ms_TotalRequests = 0, ms_SuccessCount = 0, ms_ErrorCount = 0, ms_MeanLatency = 0, ms_P50Latency = 0,
     ms_P95Latency = 0, ms_P99Latency = 0, ms_MinLatency = 0, ms_MaxLatency = 0, ms_RequestsPerSec = Fin 0,
     ms_StartTime = 0, ms_ElapsedTime = 0\<rparr>"

definition Snapshot :: "int \<Rightarrow> metrics \<Rightarrow> snapshot" where
  "Snapshot now m =
     (let elapsed = now - me_startTime m;
          total = int (length (me_latencies m));
          snap = no_snapshot\<lparr>ms_TotalRequests := total, ms_SuccessCount := total - me_errors m, ms_ErrorCount := me_errors m,
            ms_StartTime := me_startTime m, ms_ElapsedTime := elapsed\<rparr>
      in if total = 0 then snap
         else (let srt = sort (me_latencies m);
                   tot = sum64 srt
               in snap\<lparr>
                 ms_RequestsPerSec := (if elapsed > 0 then f64_div (f64_of_int total) (seconds elapsed) else Fin 0),
                 ms_MinLatency := srt ! 0,
                 ms_MaxLatency := last srt,
                 ms_MeanLatency := tdiv tot total,
                 ms_P50Latency := percentile srt (Fin 50),
                 ms_P95Latency := percentile srt (Fin 95),
                 ms_P99Latency := percentile srt (Fin 99)\<rparr>))"

section \<open>Results\<close>

record results =
  re_Config :: load_config
  re_Metrics :: snapshot
  re_Errors :: "string list"

text \<open>What the collecting goroutine makes of the results of the workers.\<close>

definition collect :: "(int \<times> string option) list \<Rightarrow> metrics \<Rightarrow> metrics" where
  "collect rs m = fold (\<lambda>(elapsed, err). Record elapsed err) rs m"

definition unique_errors :: "(int \<times> string option) list \<Rightarrow> string list" where
  "unique_errors rs = remdups (present (map snd rs))"

definition Orchestrator_Run :: "load_config \<Rightarrow> int \<Rightarrow> int \<Rightarrow> (int \<times> string option) list \<Rightarrow> results" where
  "Orchestrator_Run cfg start now rs =
     \<lparr>re_Config = cfg, re_Metrics = Snapshot now (collect rs (NewMetrics start)), re_Errors = unique_errors rs\<rparr>"

section \<open>Distributed runs\<close>

record node_config =
  nd_Host :: string
  nd_Port :: int
  nd_User :: string
  nd_KeyFile :: string

record distributed_config =
  dc_Nodes :: "node_config list"
  dc_Binary :: string
  dc_TestConfig :: string

datatype dist_error =
    NoNodes
  | BinaryRequired
  | TestConfigRequired
  | HostRequired nat
  | UserRequired nat
  | KeyFileRequired nat
  | SSHSetup string
  | SSHExec string
  | StdoutType
  | RemoteExited int string
  | ParseResults
  | NodeError string dist_error

definition validate_node :: "nat \<Rightarrow> node_config \<Rightarrow> dist_error option" where
  "validate_node i n =
     (if nd_Host n = [] then Some (HostRequired i)
      else if nd_User n = [] then Some (UserRequired i)
      else if nd_KeyFile n = [] then Some (KeyFileRequired i)
      else None)"

fun validate_nodes :: "nat \<Rightarrow> node_config list \<Rightarrow> dist_error option" where
  "validate_nodes i [] = None"
| "validate_nodes i (n # ns) = (case validate_node i n of Some e \<Rightarrow> Some e | None \<Rightarrow> validate_nodes (i + 1) ns)"

definition Validate :: "distributed_config \<Rightarrow> dist_error option" where
  "Validate dc =
     (if dc_Nodes dc = [] then Some NoNodes
      else if dc_Binary dc = [] then Some BinaryRequired
      else if dc_TestConfig dc = [] then Some TestConfigRequired
      else validate_nodes 0 (dc_Nodes dc))"

definition SplitConcurrency :: "int \<Rightarrow> nat \<Rightarrow> int list" where
  "SplitConcurrency concurrency n =
     (if n = 0 \<or> concurrency \<le> 0 then []
      else (let base = tdiv concurrency (int n); remainder = tmod concurrency (int n)
            in map (\<lambda>i. if int i < remainder then base + 1 else base) [0..<n]))"

definition buildRemoteCommand :: "string \<Rightarrow> string \<Rightarrow> int \<Rightarrow> string" where
  "buildRemoteCommand binary testConfig concurrency =
     binary @ '' loadtest --config '' @ testConfig @ '' --concurrency '' @ itoa concurrency @ '' --format json''"

definition buildNodeConfig :: "node_config \<Rightarrow> (string \<times> gov) list" where
  "buildNodeConfig n =
     [(''host'', GStr (nd_Host n)), (''port'', GInt (if nd_Port n = 0 then 22 else nd_Port n)), (''user'', GStr (nd_User n)),
      (''key_file'', GStr (nd_KeyFile n)), (''host_key_check'', GBool False)]"

definition buildExecStep :: "string \<Rightarrow> conn_step" where
  "buildExecStep cmd = \<lparr>cs_Action = ''exec'', cs_Parameters = [(''command'', GStr cmd)], cs_Timeout = 30 * 60 * 1000000000\<rparr>"

text \<open>\<open>json\<close> is the decoding of \<open>Results\<close> by encoding/json.\<close>

definition ParseNodeOutput :: "(string \<Rightarrow> results option) \<Rightarrow> string \<Rightarrow> int \<Rightarrow> string \<Rightarrow> dist_error + results" where
  "ParseNodeOutput json stdout exitCode stderr =
     (if exitCode \<noteq> 0 then Inl (RemoteExited exitCode stderr)
      else (case json stdout of None \<Rightarrow> Inl ParseResults | Some r \<Rightarrow> Inr r))"

definition extractResult :: "(string \<Rightarrow> results option) \<Rightarrow> (string \<times> gov) list \<Rightarrow> dist_error + results" where
  "extractResult json data =
     (case map_of data ''stdout'' of
        Some (GStr stdout) \<Rightarrow>
          ParseNodeOutput json stdout
            (case map_of data ''exit_code'' of Some (GNum KInt i) \<Rightarrow> i | _ \<Rightarrow> 0)
            (case map_of data ''stderr'' of Some (GStr s) \<Rightarrow> s | _ \<Rightarrow> [])
      | _ \<Rightarrow> Inl StdoutType)"

definition executeOnNode ::
  "(string \<Rightarrow> results option) \<Rightarrow> 'w connector \<Rightarrow> node_config \<Rightarrow> string \<Rightarrow> 'w \<Rightarrow> (dist_error + results) \<times> 'w" where
  "executeOnNode json conn n cmd w =
     (case cn_Setup conn (buildNodeConfig n) w of
        (Some err, w1) \<Rightarrow> (Inl (SSHSetup err), w1)
      | (None, w1) \<Rightarrow>
          (case cn_Execute conn (buildExecStep cmd) w1 of
             (Inl err, w2) \<Rightarrow> (Inl (SSHExec err), snd (cn_Teardown conn w2))
           | (Inr data, w2) \<Rightarrow> (extractResult json (case data of Some m \<Rightarrow> m | None \<Rightarrow> []), snd (cn_Teardown conn w2))))"

text \<open>The nodes run one after the other. \<^const>\<open>None\<close> is an index out of the range of the splits.\<close>

fun distribute_loop ::
  "(node_config \<Rightarrow> string \<Rightarrow> 'w \<Rightarrow> (dist_error + results) \<times> 'w) \<Rightarrow> distributed_config \<Rightarrow> int list \<Rightarrow> nat \<Rightarrow> node_config list \<Rightarrow> 'w
    \<Rightarrow> (dist_error + results) list option \<times> 'w" where
  "distribute_loop exec cfg splits i [] w = (Some [], w)"
| "distribute_loop exec cfg splits i (n # ns) w =
     (if i \<ge> length splits then (None, w)
      else (case exec n (buildRemoteCommand (dc_Binary cfg) (dc_TestConfig cfg) (splits ! i)) w of
          (r, w1) \<Rightarrow>
            (case distribute_loop exec cfg splits (i + 1) ns w1 of
               (None, w2) \<Rightarrow> (None, w2)
             | (Some rs, w2) \<Rightarrow> (Some ((case r of Inl e \<Rightarrow> Inl (NodeError (nd_Host n) e) | Inr x \<Rightarrow> Inr x) # rs), w2))))"

definition Distribute ::
  "(node_config \<Rightarrow> string \<Rightarrow> 'w \<Rightarrow> (dist_error + results) \<times> 'w) \<Rightarrow> distributed_config \<Rightarrow> int \<Rightarrow> 'w
    \<Rightarrow> (results option list \<times> dist_error option) option \<times> 'w" where
  "Distribute exec cfg concurrency w =
     (case Validate cfg of
        Some e \<Rightarrow> (Some ([], Some e), w)
      | None \<Rightarrow>
          (case distribute_loop exec cfg (SplitConcurrency concurrency (length (dc_Nodes cfg))) 0 (dc_Nodes cfg) w of
             (None, w1) \<Rightarrow> (None, w1)
           | (Some rs, w1) \<Rightarrow>
               (Some (map (\<lambda>r. case r of Inr x \<Rightarrow> Some x | Inl e \<Rightarrow> None) rs,
                  (case List.map_filter (\<lambda>r. case r of Inl e \<Rightarrow> Some e | Inr x \<Rightarrow> None) rs of [] \<Rightarrow> None | e # es \<Rightarrow> Some e)), w1)))"

record totals =
  to_requests :: int
  to_success :: int
  to_errors :: int
  to_latencySum :: int
  to_min :: int
  to_max :: int
  to_first :: bool

definition add_totals :: "results \<Rightarrow> totals \<Rightarrow> totals" where
  "add_totals r t =
     (let m = re_Metrics r in
      \<lparr>to_requests = wrap64 (to_requests t + ms_TotalRequests m),
       to_success = wrap64 (to_success t + ms_SuccessCount m),
       to_errors = wrap64 (to_errors t + ms_ErrorCount m),
       to_latencySum = wrap64 (to_latencySum t + wrap64 (ms_MeanLatency m * ms_TotalRequests m)),
       to_min = (if to_first t \<or> ms_MinLatency m < to_min t then ms_MinLatency m else to_min t),
       to_max = (if to_first t \<or> ms_MaxLatency m > to_max t then ms_MaxLatency m else to_max t),
       to_first = False\<rparr>)"

definition AggregateResults :: "results option list \<Rightarrow> load_config \<Rightarrow> results" where
  "AggregateResults all cfg =
     (let rs = present all;
          t = fold add_totals rs \<lparr>to_requests = 0, to_success = 0, to_errors = 0, to_latencySum = 0, to_min = 0, to_max = 0,
            to_first = True\<rparr>;
          elapsed = fold (\<lambda>r e. if ms_ElapsedTime (re_Metrics r) > e then ms_ElapsedTime (re_Metrics r) else e) rs 0
      in \<lparr>re_Config = cfg,
          re_Metrics = no_snapshot\<lparr>ms_TotalRequests := to_requests t, ms_SuccessCount := to_success t, ms_ErrorCount := to_errors t,
            ms_MeanLatency := (if to_requests t > 0 then tdiv (to_latencySum t) (to_requests t) else 0),
            ms_MinLatency := to_min t, ms_MaxLatency := to_max t,
            ms_RequestsPerSec := (if elapsed > 0 then f64_div (f64_of_int (to_requests t)) (seconds elapsed) else Fin 0),
            ms_ElapsedTime := elapsed\<rparr>,
          re_Errors = remdups (concat (map re_Errors rs))\<rparr>)"

section \<open>Splitting\<close>

lemma sum_first: "r \<le> n \<Longrightarrow> sum_list (map (\<lambda>i. if i < r then b + 1 else b) [0..<n]) = int n * b + int (r :: nat)" for b :: int
proof (induction n)
  case (Suc n)
  show ?case
  proof (cases "r \<le> n")
    case True
    with Suc show ?thesis by (simp add: algebra_simps)
  next
    case False
    with Suc.prems have r: "r = Suc n" by simp
    have "map (\<lambda>i. if i < r then b + 1 else b) [0..<Suc n] = map (\<lambda>i. b + 1) [0..<Suc n]" by (rule map_cong) (auto simp: r)
    then have "sum_list (map (\<lambda>i. if i < r then b + 1 else b) [0..<Suc n]) = sum_list (map (\<lambda>i. b + 1) [0..<Suc n])" by (rule arg_cong)
    then show ?thesis by (simp add: r sum_list_triv algebra_simps)
  qed
qed simp

text \<open>The concurrency is split evenly. \<open>SplitConcurrency\<close> gives every node its share, rounded down or up, larger
  shares first; the shares add up to the whole.\<close>

theorem split_even:
  assumes "0 < concurrency" "0 < n"
  shows "length (SplitConcurrency concurrency n) = n \<and> sum_list (SplitConcurrency concurrency n) = concurrency
    \<and> (\<forall>i < n. SplitConcurrency concurrency n ! i
          = concurrency div int n + (if i < nat (concurrency mod int n) then 1 else 0))"
proof -
  let ?b = "concurrency div int n" and ?r = "nat (concurrency mod int n)"
  have e: "SplitConcurrency concurrency n = map (\<lambda>i. if i < ?r then ?b + 1 else ?b) [0..<n]"
    using assms by (auto simp: SplitConcurrency_def tdiv_nonneg tmod_nonneg Let_def)
  have "concurrency mod int n < int n" using assms by simp
  then have "?r \<le> n" by linarith
  moreover have "int n * ?b + int ?r = concurrency" using assms by simp
  ultimately show ?thesis unfolding e by (simp add: sum_first)
qed

theorem split_even_witness: "SplitConcurrency 7 3 = [3, 2, 2] \<and> sum_list (SplitConcurrency 7 3) = 7"
proof -
  have "SplitConcurrency 7 3 = [3, 2, 2]" by (simp add: SplitConcurrency_def tdiv_def tmod_def upt_rec)
  with split_even[of 7 3] show ?thesis by simp
qed

section \<open>Ramping up\<close>

definition in_time :: "(int \<Rightarrow> bool) \<Rightarrow> bool" where
  "in_time late \<longleftrightarrow> (\<forall>t. \<not> late t)"

lemma launch_total:
  "sorted (map rs_Workers steps) \<Longrightarrow> (\<forall>s \<in> set steps. a \<le> rs_Workers s) \<Longrightarrow>
   (\<forall>p \<in> set (launch late steps a). 0 < p)
   \<and> a + sum_list (launch late steps a) \<le> Max (insert a (rs_Workers ` set steps))
   \<and> (in_time late \<longrightarrow> a + sum_list (launch late steps a) = Max (insert a (rs_Workers ` set steps)))"
proof (induction steps arbitrary: a)
  case (Cons s steps)
  show ?case
  proof (cases "rs_At s > 0 \<and> late (rs_At s)")
    case True
    then show ?thesis by (auto simp: Max_ge_iff in_time_def)
  next
    case False
    have IH: "(\<forall>p \<in> set (launch late steps b). 0 < p)
       \<and> b + sum_list (launch late steps b) \<le> Max (insert b (rs_Workers ` set steps))
       \<and> (in_time late \<longrightarrow> b + sum_list (launch late steps b) = Max (insert b (rs_Workers ` set steps)))"
      if "b = rs_Workers s" for b
    proof -
      have "sorted (map rs_Workers steps)" "\<forall>s \<in> set steps. b \<le> rs_Workers s" using Cons.prems that by simp_all
      then show ?thesis by (rule Cons.IH)
    qed
    have m: "Max (insert a (insert (rs_Workers s) (rs_Workers ` set steps))) = Max (insert (rs_Workers s) (rs_Workers ` set steps))"
      using Cons.prems(2) by (subst Max_insert) (auto simp: max_def Max_ge_iff)
    show ?thesis
    proof (cases "rs_Workers s - a > 0")
      case True
      with False IH[OF refl] show ?thesis by (auto simp: m Let_def)
    next
      case eq: False
      then have "rs_Workers s = a" using Cons.prems(2) by force
      with False eq IH[of a] show ?thesis by (auto simp: m Let_def)
    qed
  qed
qed simp

text \<open>The ramp-up reaches the concurrency and no more. The schedule starts at time 0 and does not go beyond the ramp-up
  time; the pools the orchestrator starts by it are not empty, have at most \<open>concurrency\<close> workers together, and exactly
  as many when the test's time does not run out before the last step.\<close>

theorem ramp_up:
  assumes "0 < concurrency" "0 \<le> rampUp" "rampUp * concurrency < 2 ^ 63"
  shows "sorted (map rs_At (Schedule concurrency rampUp))
    \<and> rs_At (hd (Schedule concurrency rampUp)) = 0 \<and> rs_At (last (Schedule concurrency rampUp)) \<le> rampUp
    \<and> (\<forall>p \<in> set (launch late (Schedule concurrency rampUp) 0). 0 < p)
    \<and> sum_list (launch late (Schedule concurrency rampUp) 0) \<le> concurrency
    \<and> (in_time late \<longrightarrow> sum_list (launch late (Schedule concurrency rampUp) 0) = concurrency)"
proof (cases "concurrency = 1 \<or> rampUp \<le> 0")
  case True
  then have "Schedule concurrency rampUp = [\<lparr>rs_At = 0, rs_Workers = concurrency\<rparr>]" using assms by (simp add: Schedule_def)
  with assms show ?thesis by (simp add: Let_def)
next
  case False
  let ?f = "\<lambda>i. \<lparr>rs_At = rampUp * int i div (concurrency - 1), rs_Workers = int i + 1\<rparr>"
  have c: "1 < concurrency" "0 < rampUp" using False assms by auto
  have w: "wrap64 (rampUp * int i) = rampUp * int i" if "i < nat concurrency" for i
  proof (rule wrap64_id)
    have "rampUp * int i \<le> rampUp * concurrency" using that c by (intro mult_left_mono) auto
    moreover have "0 \<le> rampUp * int i" using c by simp
    ultimately show "in_int64 (rampUp * int i)" using assms unfolding in_int64_def by linarith
  qed
  have e: "Schedule concurrency rampUp = map ?f [0..<nat concurrency]"
    using c by (auto simp: Schedule_def w tdiv_nonneg)
  have ne: "[0..<nat concurrency] \<noteq> []" using c by simp
  have mono: "rampUp * int i div (concurrency - 1) \<le> rampUp * int j div (concurrency - 1)" if "i \<le> j" for i j
    using that c by (intro zdiv_mono1 mult_left_mono) auto
  have "sorted (map rs_At (Schedule concurrency rampUp))"
    unfolding e by (auto simp: comp_def sorted_iff_nth_mono intro!: mono)
  moreover have "rs_At (hd (Schedule concurrency rampUp)) = 0" using ne by (simp add: e hd_map hd_upt)
  moreover have "rs_At (last (Schedule concurrency rampUp)) \<le> rampUp"
    using ne c by (simp add: e last_map last_upt nat_diff_distrib)
  moreover have W: "rs_Workers ` set (Schedule concurrency rampUp) = {1..concurrency}"
  proof -
    have "rs_Workers ` set (Schedule concurrency rampUp) = (\<lambda>i. int i + 1) ` {0..<nat concurrency}" by (simp add: e image_image)
    also have "\<dots> = {1..concurrency}"
    proof (intro equalityI subsetI)
      fix x assume "x \<in> {1..concurrency}"
      then have "x = int (nat (x - 1)) + 1" "nat (x - 1) \<in> {0..<nat concurrency}" by auto
      then show "x \<in> (\<lambda>i. int i + 1) ` {0..<nat concurrency}" by (rule image_eqI)
    qed auto
    finally show ?thesis .
  qed
  moreover have "Max (insert 0 {1..concurrency}) = concurrency" using c by (intro Max_eqI) auto
  moreover have "sorted (map rs_Workers (Schedule concurrency rampUp))" by (simp add: e comp_def sorted_iff_nth_mono)
  moreover have "\<forall>s \<in> set (Schedule concurrency rampUp). 0 \<le> rs_Workers s" by (simp add: e)
  ultimately show ?thesis using launch_total[of "Schedule concurrency rampUp" 0 late] by simp
qed

theorem ramp_up_witness:
  "launch (\<lambda>t. t > 6) (Schedule 3 10) 0 = [1, 1] \<and> sum_list (launch (\<lambda>t. t > 6) (Schedule 3 10) 0) \<le> 3"
proof -
  have "launch (\<lambda>t. t > 6) (Schedule 3 10) 0 = [1, 1]"
    by (simp add: Schedule_def upt_rec tdiv_def wrap64_def in_int64_def)
  with ramp_up[of 3 10 "\<lambda>t. t > 6"] show ?thesis by simp
qed

section \<open>Aggregating\<close>

definition failures :: "(int \<times> string option) list \<Rightarrow> int" where
  "failures rs = int (length (filter (\<lambda>(d, e). e \<noteq> None) rs))"

lemma collect_eq: "collect rs m = m\<lparr>me_latencies := me_latencies m @ map fst rs, me_errors := me_errors m + failures rs\<rparr>"
proof (induction rs arbitrary: m)
  case (Cons r rs)
  then show ?case by (cases r) (simp add: collect_def Record_def failures_def Let_def)
qed (simp add: collect_def failures_def)

lemma sort_ends:
  assumes "xs \<noteq> []"
  shows "sort xs ! 0 = Min (set xs)" "last (sort xs) = Max (set xs)"
proof -
  have ne: "sort xs \<noteq> []" using assms by (metis length_0_conv length_sort)
  have le: "sort xs ! 0 \<le> x \<and> x \<le> sort xs ! (length (sort xs) - 1)" if x: "x \<in> set xs" for x
  proof -
    obtain i where "i < length (sort xs)" "x = sort xs ! i" using x by (metis in_set_conv_nth set_sort)
    then show ?thesis by (auto intro!: sorted_nth_mono)
  qed
  have i: "0 < length (sort xs)" using ne by (rule length_greater_0_conv[THEN iffD2])
  then have m: "sort xs ! 0 \<in> set xs" "sort xs ! (length (sort xs) - 1) \<in> set xs"
    by (metis nth_mem set_sort, metis diff_less nth_mem set_sort zero_less_one)
  from le m(1) show "sort xs ! 0 = Min (set xs)" by (intro Min_eqI[symmetric]) auto
  have "last (sort xs) = sort xs ! (length (sort xs) - 1)" using ne by (rule last_conv_nth)
  moreover from le m(2) have "sort xs ! (length (sort xs) - 1) = Max (set xs)" by (intro Max_eqI[symmetric]) auto
  ultimately show "last (sort xs) = Max (set xs)" by simp
qed

text \<open>Results that are not negative and whose sum fits.\<close>

definition sane :: "(int \<times> string option) list \<Rightarrow> bool" where
  "sane rs \<longleftrightarrow> (\<forall>r \<in> set rs. 0 \<le> fst r) \<and> sum_list (map fst rs) < 2 ^ 63 \<and> int (length rs) < 2 ^ 63"

lemma run_snapshot:
  assumes "rs \<noteq> []" "sane rs"
  shows "ms_TotalRequests (re_Metrics (Orchestrator_Run cfg start now rs)) = int (length rs)"
    "ms_SuccessCount (re_Metrics (Orchestrator_Run cfg start now rs)) = int (length rs) - failures rs"
    "ms_ErrorCount (re_Metrics (Orchestrator_Run cfg start now rs)) = failures rs"
    "ms_MeanLatency (re_Metrics (Orchestrator_Run cfg start now rs)) = sum_list (map fst rs) div int (length rs)"
    "ms_MinLatency (re_Metrics (Orchestrator_Run cfg start now rs)) = Min (fst ` set rs)"
    "ms_MaxLatency (re_Metrics (Orchestrator_Run cfg start now rs)) = Max (fst ` set rs)"
proof -
  have ne: "map fst rs \<noteq> []" using assms(1) by simp
  have ms: "mset (sort (map fst rs)) = mset (map fst rs)" by (rule mset_sort)
  have "sum_list (sort (map fst rs)) = sum_list (map fst rs)" using arg_cong[OF ms, of sum_mset] by (simp only: sum_mset_sum_list)
  then have "sum64 (sort (map fst rs)) = sum_list (map fst rs)" using assms(2) by (subst sum64_exact) (auto simp: sane_def)
  moreover have "0 \<le> sum_list (map fst rs)" using assms(2) by (auto simp: sane_def intro!: sum_list_nonneg)
  ultimately show "ms_TotalRequests (re_Metrics (Orchestrator_Run cfg start now rs)) = int (length rs)"
    "ms_SuccessCount (re_Metrics (Orchestrator_Run cfg start now rs)) = int (length rs) - failures rs"
    "ms_ErrorCount (re_Metrics (Orchestrator_Run cfg start now rs)) = failures rs"
    "ms_MeanLatency (re_Metrics (Orchestrator_Run cfg start now rs)) = sum_list (map fst rs) div int (length rs)"
    "ms_MinLatency (re_Metrics (Orchestrator_Run cfg start now rs)) = Min (fst ` set rs)"
    "ms_MaxLatency (re_Metrics (Orchestrator_Run cfg start now rs)) = Max (fst ` set rs)"
    using assms(1) sort_ends[OF ne]
    by (simp_all add: Orchestrator_Run_def Snapshot_def collect_eq NewMetrics_def no_snapshot_def Let_def tdiv_nonneg)
qed

text \<open>The shards of a distributed run: what the workers of each node sent.\<close>

definition shard_results :: "load_config \<Rightarrow> (int \<times> int \<times> (int \<times> string option) list) list \<Rightarrow> results option list" where
  "shard_results cfg shards = map (\<lambda>(start, now, rs). Some (Orchestrator_Run cfg start now rs)) shards"

lemma present_shards: "present (shard_results cfg shards) = map (\<lambda>(start, now, rs). Orchestrator_Run cfg start now rs) shards"
  by (induction shards) (auto simp: shard_results_def)

definition all_requests :: "(int \<times> int \<times> (int \<times> string option) list) list \<Rightarrow> (int \<times> string option) list" where
  "all_requests shards = concat (map (\<lambda>(start, now, rs). rs) shards)"

definition no_totals :: totals where
  "no_totals = \<lparr>to_requests = 0, to_success = 0, to_errors = 0, to_latencySum = 0, to_min = 0, to_max = 0, to_first = True\<rparr>"

lemma failures_append: "failures (a @ b) = failures a + failures b"
  by (simp add: failures_def)

lemma failures_le: "0 \<le> failures rs \<and> failures rs \<le> int (length rs)"
  by (simp add: failures_def)

lemma sane_append: "sane (a @ b) \<Longrightarrow> sane a \<and> sane b"
proof -
  assume s: "sane (a @ b)"
  then have "0 \<le> sum_list (map fst a)" "0 \<le> sum_list (map fst b)"
    by (auto simp: sane_def intro!: sum_list_nonneg)
  with s show ?thesis by (simp add: sane_def)
qed

lemma totals_of_shards:
  assumes "sane (all_requests shards)" "\<forall>(start, now, rs) \<in> set shards. rs \<noteq> []" "shards \<noteq> []"
  shows "\<exists>lost. 0 \<le> lost \<and> lost < int (length (all_requests shards)) \<and> lost \<le> sum_list (map fst (all_requests shards)) \<and>
    fold add_totals (present (shard_results cfg shards)) no_totals =
      \<lparr>to_requests = int (length (all_requests shards)),
       to_success = int (length (all_requests shards)) - failures (all_requests shards),
       to_errors = failures (all_requests shards),
       to_latencySum = sum_list (map fst (all_requests shards)) - lost,
       to_min = Min (fst ` set (all_requests shards)), to_max = Max (fst ` set (all_requests shards)), to_first = False\<rparr>"
  using assms(3,1,2)
proof (induction shards rule: rev_nonempty_induct)
  case (single x)
  obtain start now rs where x: "x = (start, now, rs)" by (cases x) auto
  have rs: "rs \<noteq> []" "sane rs" using single x by (simp_all add: all_requests_def)
  let ?S = "sum_list (map fst rs)" and ?n = "int (length rs)"
  have n: "0 < ?n" using rs by simp
  have b: "0 \<le> ?S mod ?n" "?S mod ?n < ?n" using n by simp_all
  have eq: "?S div ?n * ?n = ?S - ?S mod ?n" by (simp add: minus_mod_eq_div_mult)
  have S: "0 \<le> ?S" "?S < 2 ^ 63" "?n < 2 ^ 63" using rs by (auto simp: sane_def intro!: sum_list_nonneg)
  have "0 \<le> ?S div ?n" using S n by (simp add: pos_imp_zdiv_nonneg_iff)
  then have "0 \<le> ?S div ?n * ?n" using n by simp
  then have w: "in_int64 (?S div ?n * ?n)" using eq b S unfolding in_int64_def by linarith
  have f: "in_int64 (failures rs)" "in_int64 (?n - failures rs)" "in_int64 ?n"
    using failures_le[of rs] S unfolding in_int64_def by auto
  have "fold add_totals (present (shard_results cfg [x])) no_totals = add_totals (Orchestrator_Run cfg start now rs) no_totals"
    by (simp add: present_shards x)
  also have "\<dots> = \<lparr>to_requests = ?n, to_success = ?n - failures rs, to_errors = failures rs, to_latencySum = ?S - ?S mod ?n,
      to_min = Min (fst ` set rs), to_max = Max (fst ` set rs), to_first = False\<rparr>"
    using w f by (simp add: add_totals_def Let_def run_snapshot[OF rs] no_totals_def eq)
  finally show ?case using b eq \<open>0 \<le> ?S div ?n * ?n\<close> by (intro exI[of _ "?S mod ?n"]) (simp add: all_requests_def x)
next
  case (snoc x shards)
  obtain start now rs where x: "x = (start, now, rs)" by (cases x) auto
  let ?all = "all_requests shards"
  have cat: "all_requests (shards @ [x]) = ?all @ rs" by (simp add: all_requests_def x)
  have rs: "rs \<noteq> []" "sane rs" "sane ?all" using snoc.prems x cat sane_append[of ?all rs] by auto
  obtain lost where IH: "0 \<le> lost" "lost < int (length ?all)" "lost \<le> sum_list (map fst ?all)"
    "fold add_totals (present (shard_results cfg shards)) no_totals =
      \<lparr>to_requests = int (length ?all), to_success = int (length ?all) - failures ?all, to_errors = failures ?all,
       to_latencySum = sum_list (map fst ?all) - lost, to_min = Min (fst ` set ?all), to_max = Max (fst ` set ?all), to_first = False\<rparr>"
    using snoc.IH[OF rs(3)] snoc.prems(2) by auto
  let ?S = "sum_list (map fst rs)" and ?n = "int (length rs)" and ?T = "sum_list (map fst ?all)" and ?m = "int (length ?all)"
  have n: "0 < ?n" using rs by simp
  have b: "0 \<le> ?S mod ?n" "?S mod ?n < ?n" using n by simp_all
  have eq: "?S div ?n * ?n = ?S - ?S mod ?n" by (simp add: minus_mod_eq_div_mult)
  have S: "0 \<le> ?S" "0 \<le> ?T" "?T + ?S < 2 ^ 63" "?m + ?n < 2 ^ 63"
    using rs snoc.prems(1) unfolding cat by (auto simp: sane_def intro!: sum_list_nonneg)
  have "0 \<le> ?S div ?n" using S n by (simp add: pos_imp_zdiv_nonneg_iff)
  then have q: "0 \<le> ?S div ?n * ?n" using n by simp
  then have w: "in_int64 (?S div ?n * ?n)" "in_int64 (?T - lost + (?S - ?S mod ?n))"
    using eq b S IH(1,3) unfolding in_int64_def by linarith+
  have f: "in_int64 (failures ?all + failures rs)" "in_int64 (?m - failures ?all + (?n - failures rs))" "in_int64 (?m + ?n)"
    using failures_le[of rs] failures_le[of ?all] S unfolding in_int64_def by linarith+
  have ne: "set ?all \<noteq> {}" "set rs \<noteq> {}" using IH(1,2) rs(1) by auto
  have mm: "Min (fst ` (set ?all \<union> set rs)) = min (Min (fst ` set ?all)) (Min (fst ` set rs))"
    "Max (fst ` (set ?all \<union> set rs)) = max (Max (fst ` set ?all)) (Max (fst ` set rs))"
    using ne by (simp_all add: image_Un Min_Un Max_Un)
  have "fold add_totals (present (shard_results cfg (shards @ [x]))) no_totals
      = add_totals (Orchestrator_Run cfg start now rs) (fold add_totals (present (shard_results cfg shards)) no_totals)"
    by (simp add: present_shards x)
  also have "\<dots> = \<lparr>to_requests = ?m + ?n, to_success = ?m - failures ?all + (?n - failures rs),
      to_errors = failures ?all + failures rs, to_latencySum = ?T - lost + (?S - ?S mod ?n),
      to_min = Min (fst ` (set ?all \<union> set rs)), to_max = Max (fst ` (set ?all \<union> set rs)), to_first = False\<rparr>"
    unfolding IH(4) using w f by (simp add: add_totals_def Let_def run_snapshot[OF rs(1,2)] mm eq min_def max_def)
  finally show ?case using b IH(1-3) q eq S
    by (intro exI[of _ "lost + ?S mod ?n"]) (simp add: cat failures_append)
qed

lemma fold_longest:
  "fold (\<lambda>r e. if ms_ElapsedTime (re_Metrics r) > e then ms_ElapsedTime (re_Metrics r) else e) rs (e0 :: int)
   = Max (insert e0 ((\<lambda>r. ms_ElapsedTime (re_Metrics r)) ` set rs))"
proof (induction rs arbitrary: e0)
  case (Cons r rs)
  let ?f = "\<lambda>r. ms_ElapsedTime (re_Metrics r)"
  have "(if ?f r > e0 then ?f r else e0) = max e0 (?f r)" by (simp add: max_def)
  moreover have "Max (insert (max e0 (?f r)) (?f ` set rs)) = Max (insert e0 (insert (?f r) (?f ` set rs)))"
    by (cases "set rs = {}") (simp_all add: max.assoc)
  ultimately show ?case using Cons.IH[of "max e0 (?f r)"] by simp
qed simp

lemma run_elapsed: "ms_ElapsedTime (re_Metrics (Orchestrator_Run cfg start now rs)) = now - start"
proof -
  have "me_startTime (collect rs m) = me_startTime m" for m
    unfolding collect_def by (induction rs arbitrary: m) (auto simp: Record_def Let_def split: prod.splits)
  then show ?thesis by (simp add: Orchestrator_Run_def Snapshot_def NewMetrics_def Let_def)
qed

text \<open>C39: what the aggregate of a distributed run says of its requests. When every node has sent at least one request
  and no latency is negative and no sum overflows, the aggregate of the nodes' results has the totals, the smallest
  and largest latency and the set of errors of a single run with all the requests; its mean is that run's mean, or one
  nanosecond less. Its elapsed time is that of the slowest node, and its requests per second are the total over
  that time. Of the percentiles it says nothing: they are 0.\<close>

theorem aggregate_shards:
  assumes "sane (all_requests shards)" "\<forall>(start, now, rs) \<in> set shards. rs \<noteq> []" "shards \<noteq> []"
    and "agg = AggregateResults (shard_results cfg shards) cfg'" "whole = Orchestrator_Run cfg' start now (all_requests shards)"
  shows "ms_TotalRequests (re_Metrics agg) = ms_TotalRequests (re_Metrics whole)
    \<and> ms_SuccessCount (re_Metrics agg) = ms_SuccessCount (re_Metrics whole)
    \<and> ms_ErrorCount (re_Metrics agg) = ms_ErrorCount (re_Metrics whole)
    \<and> ms_MinLatency (re_Metrics agg) = ms_MinLatency (re_Metrics whole)
    \<and> ms_MaxLatency (re_Metrics agg) = ms_MaxLatency (re_Metrics whole)
    \<and> ms_MeanLatency (re_Metrics whole) - ms_MeanLatency (re_Metrics agg) \<in> {0, 1}
    \<and> set (re_Errors agg) = set (re_Errors whole)
    \<and> ms_ElapsedTime (re_Metrics agg) = Max (insert 0 ((\<lambda>(start, now, rs). now - start) ` set shards))
    \<and> ms_RequestsPerSec (re_Metrics agg) =
        (if ms_ElapsedTime (re_Metrics agg) > 0
         then f64_div (f64_of_int (int (length (all_requests shards)))) (seconds (ms_ElapsedTime (re_Metrics agg))) else Fin 0)
    \<and> ms_P50Latency (re_Metrics agg) = 0 \<and> ms_P95Latency (re_Metrics agg) = 0 \<and> ms_P99Latency (re_Metrics agg) = 0"
proof -
  let ?all = "all_requests shards" and ?n = "int (length (all_requests shards))" and ?S = "sum_list (map fst (all_requests shards))"
  obtain lost where t: "0 \<le> lost" "lost < ?n" "lost \<le> ?S"
    "fold add_totals (present (shard_results cfg shards)) no_totals =
      \<lparr>to_requests = ?n, to_success = ?n - failures ?all, to_errors = failures ?all, to_latencySum = ?S - lost,
       to_min = Min (fst ` set ?all), to_max = Max (fst ` set ?all), to_first = False\<rparr>"
    using totals_of_shards[OF assms(1-3)] by blast
  have ne: "?all \<noteq> []" using t(1,2) by auto
  note w = run_snapshot[OF ne assms(1), of cfg' start now]
  have a: "ms_TotalRequests (re_Metrics agg) = ?n" "ms_SuccessCount (re_Metrics agg) = ?n - failures ?all"
    "ms_ErrorCount (re_Metrics agg) = failures ?all" "ms_MinLatency (re_Metrics agg) = Min (fst ` set ?all)"
    "ms_MaxLatency (re_Metrics agg) = Max (fst ` set ?all)" "ms_MeanLatency (re_Metrics agg) = (?S - lost) div ?n"
    using t ne by (simp_all add: assms(4) AggregateResults_def Let_def t(4)[unfolded no_totals_def] tdiv_nonneg)
  have "?S div ?n - (?S - lost) div ?n \<in> {0, 1}"
  proof -
    have "(?S - ?n) div ?n = ?S div ?n - 1" using ne div_mult_self2[of ?n ?S "- 1"] by simp
    moreover have "(?S - ?n) div ?n \<le> (?S - lost) div ?n" "(?S - lost) div ?n \<le> ?S div ?n"
      using t(1,2) by (intro zdiv_mono1; linarith)+
    ultimately show ?thesis by auto
  qed
  moreover have "set (re_Errors agg) = set (re_Errors whole)"
  proof -
    have "set (re_Errors agg) = (\<Union>(s, n, rs) \<in> set shards. set (present (map snd rs)))"
      by (auto simp: assms(4) AggregateResults_def Let_def present_shards Orchestrator_Run_def unique_errors_def)
    also have "\<dots> = set (present (map snd ?all))" by (force simp: set_present all_requests_def)
    finally show ?thesis by (simp add: assms(5) Orchestrator_Run_def unique_errors_def)
  qed
  moreover have el: "ms_ElapsedTime (re_Metrics agg) = Max (insert 0 ((\<lambda>(start, now, rs). now - start) ` set shards))"
    by (simp add: assms(4) AggregateResults_def Let_def present_shards fold_longest image_image run_elapsed case_prod_beta')
  moreover have "ms_RequestsPerSec (re_Metrics agg) =
      (if ms_ElapsedTime (re_Metrics agg) > 0 then f64_div (f64_of_int ?n) (seconds (ms_ElapsedTime (re_Metrics agg))) else Fin 0)"
    using a(1) by (simp add: assms(4) AggregateResults_def Let_def)
  moreover have "ms_P50Latency (re_Metrics agg) = 0 \<and> ms_P95Latency (re_Metrics agg) = 0 \<and> ms_P99Latency (re_Metrics agg) = 0"
    by (simp add: assms(4) AggregateResults_def Let_def no_snapshot_def)
  ultimately show ?thesis by (simp add: a assms(5) w)
qed

text \<open>A node without requests has the smallest latency 0, which the aggregate then reports.\<close>

lemma idle_node_min:
  "ms_MinLatency (re_Metrics (AggregateResults
     (shard_results cfg [(0, 1, [(5, None)]), (0, 1, [])]) cfg)) = 0"
  by (simp add: AggregateResults_def present_shards add_totals_def Orchestrator_Run_def Snapshot_def
      collect_def Record_def NewMetrics_def no_snapshot_def Let_def)

definition demo_load :: load_config where
  "demo_load = \<lparr>lc_Concurrency = 2, lc_Duration = 9, lc_RampUp = 0\<rparr>"

theorem aggregate_shards_witness:
  "ms_TotalRequests (re_Metrics (AggregateResults
     (shard_results demo_load [(0, 5, [(3, None), (4, Some ''e'')]), (0, 9, [(6, None)])]) demo_load)) = 3
   \<and> set (re_Errors (AggregateResults
     (shard_results demo_load [(0, 5, [(3, None), (4, Some ''e'')]), (0, 9, [(6, None)])]) demo_load)) = {''e''}"
proof -
  let ?shards = "[(0, 5, [(3, None), (4, Some ''e'')]), (0, 9, [(6, None)])]"
  have all: "all_requests ?shards = [(3, None), (4, Some ''e''), (6, None)]" by (simp add: all_requests_def)
  then have "sane (all_requests ?shards)" by (simp add: sane_def)
  from aggregate_shards[OF this _ _ refl refl, of demo_load demo_load 0 9] run_snapshot(1)[of "all_requests ?shards" demo_load 0 9] this
  show ?thesis by (simp add: all Orchestrator_Run_def unique_errors_def)
qed

end
