(* ===== verification/Worker_Pool.thy ===== *)
theory Worker_Pool
  imports Loadtest Go_Duration Step_Systems
begin

text \<open>
  loadtest/worker.go and the goroutines of \<open>Orchestrator.Run\<close> in loadtest/loadtest.go, as a step relation: the orchestrator that starts
  the pools, waits for the test's end and stops them, the workers of all pools, and the goroutine that collects the results. The
  channel of results has a capacity; a send on it after it was closed would be a panic. What a request returns is any value; the
  test's context ends at any moment. A child context of a pool ends with the test's, before \<open>Stop\<close> is called.
\<close>

section \<open>Pools\<close>

text \<open>The steps of the ramp-up: whether the orchestrator waits for the step's time, and the size of the pool it starts then.\<close>

fun pools_of :: "ramp_step list \<Rightarrow> int \<Rightarrow> (bool \<times> nat) list" where
  "pools_of [] activeWorkers = []"
| "pools_of (step # steps) activeWorkers =
     (let newWorkers = rs_Workers step - activeWorkers in
      (rs_At step > 0, nat newWorkers) # pools_of steps (if newWorkers > 0 then rs_Workers step else activeWorkers))"

section \<open>Steps\<close>

type_synonym worker_result = "int \<times> string option"

datatype worker_state = Looking | Working | Sending worker_result | Finished

datatype orchestrator_state = Launching "(bool \<times> nat) list" | Awaiting | Stopping | Closing | Returned

record pool_state =
  wp_main :: orchestrator_state
  wp_workers :: "worker_state list"
  wp_expired :: bool
  wp_channel :: "worker_result list"
  wp_closed :: bool
  wp_done :: bool
  wp_panicked :: bool
  wp_recorded :: "worker_result list"
  wp_dropped :: "worker_result list"
  wp_requests :: nat

definition pool_start :: "int \<Rightarrow> int \<Rightarrow> pool_state" where
  "pool_start concurrency rampUp =
     \<lparr>wp_main = Launching (pools_of (Schedule concurrency rampUp) 0), wp_workers = [], wp_expired = False, wp_channel = [], wp_closed = False,
      wp_done = False, wp_panicked = False, wp_recorded = [], wp_dropped = [], wp_requests = 0\<rparr>"

text \<open>The steps of a worker, \<open>i\<close>. A select with two channels that are ready takes either.\<close>

inductive worker_step :: "nat \<Rightarrow> nat \<Rightarrow> pool_state \<Rightarrow> pool_state \<Rightarrow> bool" for c i where
  look_done: "i < length (wp_workers s) \<Longrightarrow> wp_workers s ! i = Looking \<Longrightarrow> wp_expired s \<Longrightarrow>
    worker_step c i s (s\<lparr>wp_workers := (wp_workers s)[i := Finished]\<rparr>)"
| begin_work: "i < length (wp_workers s) \<Longrightarrow> wp_workers s ! i = Looking \<Longrightarrow> \<not> wp_expired s \<Longrightarrow>
    worker_step c i s (s\<lparr>wp_workers := (wp_workers s)[i := Working], wp_requests := wp_requests s + 1\<rparr>)"
| end_work: "i < length (wp_workers s) \<Longrightarrow> wp_workers s ! i = Working \<Longrightarrow>
    worker_step c i s (s\<lparr>wp_workers := (wp_workers s)[i := Sending r]\<rparr>)"
| give_up: "i < length (wp_workers s) \<Longrightarrow> wp_workers s ! i = Sending r \<Longrightarrow> wp_expired s \<Longrightarrow>
    worker_step c i s (s\<lparr>wp_workers := (wp_workers s)[i := Finished], wp_dropped := wp_dropped s @ [r]\<rparr>)"
| send: "i < length (wp_workers s) \<Longrightarrow> wp_workers s ! i = Sending r \<Longrightarrow> \<not> wp_closed s \<Longrightarrow> length (wp_channel s) < c \<Longrightarrow>
    worker_step c i s (s\<lparr>wp_workers := (wp_workers s)[i := Looking], wp_channel := wp_channel s @ [r]\<rparr>)"
| send_closed: "i < length (wp_workers s) \<Longrightarrow> wp_workers s ! i = Sending r \<Longrightarrow> wp_closed s \<Longrightarrow>
    worker_step c i s (s\<lparr>wp_panicked := True\<rparr>)"

inductive pool_step :: "nat \<Rightarrow> pool_state \<Rightarrow> pool_state \<Rightarrow> bool" for c where
  start_pool: "wp_main s = Launching ((wait, n) # pools) \<Longrightarrow>
    pool_step c s (s\<lparr>wp_main := Launching pools, wp_workers := wp_workers s @ replicate n Looking\<rparr>)"
| too_late: "wp_main s = Launching ((True, n) # pools) \<Longrightarrow> wp_expired s \<Longrightarrow> pool_step c s (s\<lparr>wp_main := Stopping\<rparr>)"
| launched: "wp_main s = Launching [] \<Longrightarrow> pool_step c s (s\<lparr>wp_main := Awaiting\<rparr>)"
| time_up: "wp_main s = Awaiting \<Longrightarrow> wp_expired s \<Longrightarrow> pool_step c s (s\<lparr>wp_main := Stopping\<rparr>)"
| stopped: "wp_main s = Stopping \<Longrightarrow> \<forall>w \<in> set (wp_workers s). w = Finished \<Longrightarrow>
    pool_step c s (s\<lparr>wp_main := Closing, wp_closed := True\<rparr>)"
| collected: "wp_main s = Closing \<Longrightarrow> wp_done s \<Longrightarrow> pool_step c s (s\<lparr>wp_main := Returned\<rparr>)"
| worker: "worker_step c i s t \<Longrightarrow> pool_step c s t"
| record_result: "wp_channel s = r # rs \<Longrightarrow> \<not> wp_done s \<Longrightarrow>
    pool_step c s (s\<lparr>wp_channel := rs, wp_recorded := wp_recorded s @ [r]\<rparr>)"
| no_more: "wp_channel s = [] \<Longrightarrow> wp_closed s \<Longrightarrow> \<not> wp_done s \<Longrightarrow> pool_step c s (s\<lparr>wp_done := True\<rparr>)"

inductive pool_reach :: "nat \<Rightarrow> pool_state \<Rightarrow> pool_state \<Rightarrow> bool" for c where
  here: "pool_reach c s s"
| move: "pool_reach c s t \<Longrightarrow> pool_step c t u \<Longrightarrow> pool_reach c s u"
| expire: "pool_reach c s t \<Longrightarrow> pool_reach c s (t\<lparr>wp_expired := True\<rparr>)"

section \<open>What every interleaving keeps\<close>

definition in_flight :: "worker_state \<Rightarrow> nat" where
  "in_flight w = (case w of Working \<Rightarrow> 1 | Sending r \<Rightarrow> 1 | _ \<Rightarrow> 0)"

definition finished :: "worker_state \<Rightarrow> nat" where
  "finished w = (if w = Finished then 1 else 0)"

definition to_launch :: "orchestrator_state \<Rightarrow> nat" where
  "to_launch m = (case m of Launching pools \<Rightarrow> sum_list (map snd pools) | _ \<Rightarrow> 0)"

definition pool_ok :: "nat \<Rightarrow> pool_state \<Rightarrow> bool" where
  "pool_ok n s \<longleftrightarrow> \<not> wp_panicked s
     \<and> wp_requests s = length (wp_recorded s) + length (wp_channel s) + length (wp_dropped s) + sum_list (map in_flight (wp_workers s))
     \<and> length (wp_dropped s) \<le> sum_list (map finished (wp_workers s))
     \<and> length (wp_workers s) + to_launch (wp_main s) \<le> n
     \<and> (wp_closed s \<longleftrightarrow> wp_main s \<in> {Closing, Returned})
     \<and> (wp_closed s \<longrightarrow> (\<forall>w \<in> set (wp_workers s). w = Finished))
     \<and> (wp_done s \<longrightarrow> wp_closed s \<and> wp_channel s = [])
     \<and> (wp_main s = Returned \<longrightarrow> wp_done s)
     \<and> (wp_main s \<in> {Stopping, Closing, Returned} \<longrightarrow> wp_expired s)"

lemma still_open: "pool_ok n s \<Longrightarrow> i < length (wp_workers s) \<Longrightarrow> wp_workers s ! i \<noteq> Finished \<Longrightarrow> \<not> wp_closed s \<and> \<not> wp_done s \<and> wp_main s \<notin> {Closing, Returned}"
  using nth_mem[of i "wp_workers s"] unfolding pool_ok_def by blast

lemma worker_step_ok:
  assumes "pool_ok n s" "worker_step c i s t"
  shows "pool_ok n t"
  using assms(2)
proof (cases rule: worker_step.cases)
  case look_done
  with assms(1) still_open[OF assms(1) look_done(2)] sum_update[OF look_done(2), of in_flight Finished] sum_update[OF look_done(2), of finished Finished]
  show ?thesis by (simp add: pool_ok_def in_flight_def finished_def)
next
  case begin_work
  with assms(1) still_open[OF assms(1) begin_work(2)] sum_update[OF begin_work(2), of in_flight Working] sum_update[OF begin_work(2), of finished Working]
  show ?thesis by (simp add: pool_ok_def in_flight_def finished_def)
next
  case (end_work r)
  with assms(1) still_open[OF assms(1) end_work(2)] sum_update[OF end_work(2), of in_flight "Sending r"] sum_update[OF end_work(2), of finished "Sending r"]
  show ?thesis by (simp add: pool_ok_def in_flight_def finished_def)
next
  case (give_up r)
  with assms(1) still_open[OF assms(1) give_up(2)] sum_update[OF give_up(2), of in_flight Finished] sum_update[OF give_up(2), of finished Finished]
  show ?thesis by (simp add: pool_ok_def in_flight_def finished_def)
next
  case (send r)
  with assms(1) still_open[OF assms(1) send(2)] sum_update[OF send(2), of in_flight Looking] sum_update[OF send(2), of finished Looking]
  show ?thesis by (simp add: pool_ok_def in_flight_def finished_def)
next
  case (send_closed r)
  with still_open[OF assms(1) send_closed(2)] show ?thesis by simp
qed

lemma pool_step_ok:
  assumes "pool_ok n s" "pool_step c s t"
  shows "pool_ok n t"
  using assms(2)
proof (cases rule: pool_step.cases)
  case (worker i)
  with worker_step_ok[OF assms(1)] show ?thesis by blast
next
  case (start_pool wait k pools)
  with assms(1) show ?thesis by (auto simp: pool_ok_def to_launch_def in_flight_def finished_def sum_list_replicate)
next
  case (too_late k pools)
  with assms(1) show ?thesis by (auto simp: pool_ok_def to_launch_def)
next
  case launched
  with assms(1) show ?thesis by (auto simp: pool_ok_def to_launch_def)
next
  case time_up
  with assms(1) show ?thesis by (auto simp: pool_ok_def to_launch_def)
next
  case stopped
  with assms(1) show ?thesis by (auto simp: pool_ok_def to_launch_def)
next
  case collected
  with assms(1) show ?thesis by (auto simp: pool_ok_def to_launch_def)
next
  case (record_result r rs)
  with assms(1) show ?thesis by (auto simp: pool_ok_def)
next
  case no_more
  with assms(1) show ?thesis by (auto simp: pool_ok_def)
qed

lemma pool_expire_ok: "pool_ok n s \<Longrightarrow> pool_ok n (s\<lparr>wp_expired := True\<rparr>)"
  unfolding pool_ok_def by simp blast

lemma pool_reach_ok: "pool_reach c s t \<Longrightarrow> pool_ok n s \<Longrightarrow> pool_ok n t"
  by (induction rule: pool_reach.induct) (blast intro: pool_step_ok pool_expire_ok)+

section \<open>The number of workers\<close>

lemma pools_bound: "\<forall>st \<in> set steps. rs_Workers st \<le> c \<Longrightarrow> a \<le> c \<Longrightarrow> sum_list (map snd (pools_of steps a)) \<le> nat (c - a)"
proof (induction steps arbitrary: a)
  case (Cons st steps)
  then have "sum_list (map snd (pools_of steps (if rs_Workers st - a > 0 then rs_Workers st else a))) \<le> nat (c - (if rs_Workers st - a > 0 then rs_Workers st else a))"
    by simp
  with Cons.prems show ?case by (auto simp: Let_def)
qed simp

lemma schedule_workers: "st \<in> set (Schedule concurrency rampUp) \<Longrightarrow> rs_Workers st \<le> concurrency"
  by (auto simp: Schedule_def split: if_splits)

lemma pool_start_ok: "pool_ok (nat concurrency) (pool_start concurrency rampUp)"
proof (cases "concurrency \<le> 0")
  case True
  then show ?thesis by (simp add: pool_ok_def pool_start_def to_launch_def Schedule_def)
next
  case False
  then show ?thesis using pools_bound[of "Schedule concurrency rampUp" concurrency 0] schedule_workers
    by (simp add: pool_ok_def pool_start_def to_launch_def)
qed

text \<open>C33: what a load test counts. However the pools' workers, the collector and the end of the test interleave, no worker ever sends on the
  closed channel, there are never more workers than the configured concurrency, and when \<open>Run\<close> is over every worker has finished and
  every request that was begun has been recorded, but for at most one per worker, dropped when the time was up.\<close>

theorem pool_counts:
  assumes "pool_reach c (pool_start concurrency rampUp) s"
  shows "\<not> wp_panicked s \<and> length (wp_workers s) \<le> nat concurrency
    \<and> (wp_main s = Returned \<longrightarrow> (\<forall>w \<in> set (wp_workers s). w = Finished)
        \<and> wp_requests s = length (wp_recorded s) + length (wp_dropped s) \<and> length (wp_dropped s) \<le> length (wp_workers s))"
proof -
  have ok: "pool_ok (nat concurrency) s" by (rule pool_reach_ok[OF assms pool_start_ok])
  have "sum_list (map in_flight ws) = 0" if "\<forall>w \<in> set ws. w = Finished" for ws
    using that by (induction ws) (auto simp: in_flight_def)
  moreover have "sum_list (map finished ws) \<le> length ws" for ws
    by (induction ws) (auto simp: finished_def)
  moreover have "\<not> wp_panicked s" "length (wp_workers s) \<le> nat concurrency" using ok by (simp_all add: pool_ok_def)
  moreover have "(\<forall>w \<in> set (wp_workers s). w = Finished) \<and> wp_channel s = []" if "wp_main s = Returned"
    using ok that by (auto simp: pool_ok_def)
  moreover have "wp_requests s = length (wp_recorded s) + length (wp_channel s) + length (wp_dropped s) + sum_list (map in_flight (wp_workers s))"
    "length (wp_dropped s) \<le> sum_list (map finished (wp_workers s))" using ok by (simp_all add: pool_ok_def)
  ultimately show ?thesis by (auto intro: order_trans)
qed

section \<open>Stopping\<close>

definition worker_todo :: "worker_state \<Rightarrow> nat" where
  "worker_todo w = (case w of Looking \<Rightarrow> 1 | Working \<Rightarrow> 4 | Sending r \<Rightarrow> 3 | Finished \<Rightarrow> 0)"

definition main_todo :: "orchestrator_state \<Rightarrow> nat" where
  "main_todo m = (case m of Launching pools \<Rightarrow> 4 + sum_list (map (\<lambda>(wait, n). n + 1) pools) | Awaiting \<Rightarrow> 3 | Stopping \<Rightarrow> 2 | Closing \<Rightarrow> 1 | Returned \<Rightarrow> 0)"

text \<open>How many steps are left once the time is up.\<close>

definition todo :: "pool_state \<Rightarrow> nat" where
  "todo s = main_todo (wp_main s) + sum_list (map worker_todo (wp_workers s)) + length (wp_channel s) + (if wp_done s then 0 else 1)"

lemma step_todo:
  assumes "pool_ok n s" "wp_expired s" "pool_step c s t"
  shows "todo t < todo s \<and> wp_expired t"
  using assms(3)
proof (cases rule: pool_step.cases)
  case (worker i)
  then show ?thesis
  proof (cases rule: worker_step.cases)
    case look_done
    with sum_update[OF look_done(2), of worker_todo Finished] show ?thesis by (simp add: todo_def worker_todo_def)
  next
    case begin_work
    with assms(2) show ?thesis by simp
  next
    case (end_work r)
    with sum_update[OF end_work(2), of worker_todo "Sending r"] assms(2) show ?thesis by (simp add: todo_def worker_todo_def)
  next
    case (give_up r)
    with sum_update[OF give_up(2), of worker_todo Finished] show ?thesis by (simp add: todo_def worker_todo_def)
  next
    case (send r)
    with sum_update[OF send(2), of worker_todo Looking] assms(2) show ?thesis by (simp add: todo_def worker_todo_def)
  next
    case (send_closed r)
    with still_open[OF assms(1) send_closed(2)] show ?thesis by simp
  qed
qed (use assms(2) in \<open>auto simp: todo_def main_todo_def worker_todo_def sum_list_replicate\<close>)

text \<open>Whoever is left can go on.\<close>

lemma worker_can_step:
  assumes "wp_expired s" "i < length (wp_workers s)" "wp_workers s ! i \<noteq> Finished"
  shows "\<exists>t. pool_step c s t"
proof (cases "wp_workers s ! i")
  case Looking
  with assms show ?thesis by (blast intro: worker look_done)
next
  case Working
  with assms show ?thesis by (blast intro: worker end_work)
next
  case (Sending r)
  with assms show ?thesis by (blast intro: worker give_up)
qed (use assms in simp)

lemma can_step:
  assumes "pool_ok n s" "wp_expired s" "wp_main s \<noteq> Returned"
  shows "\<exists>t. pool_step c s t"
proof (cases "\<forall>w \<in> set (wp_workers s). w = Finished")
  case False
  then show ?thesis using worker_can_step[OF assms(2)] by (metis in_set_conv_nth)
next
  case True
  show ?thesis
  proof (cases "wp_main s")
    case (Launching pools)
    then show ?thesis by (cases pools) (auto intro: start_pool launched)
  next
    case Awaiting
    with assms(2) show ?thesis by (blast intro: time_up)
  next
    case Stopping
    with True show ?thesis by (blast intro: stopped)
  next
    case Closing
    with assms(1) have "wp_closed s" by (simp add: pool_ok_def)
    with Closing show ?thesis by (cases "wp_channel s"; cases "wp_done s") (blast intro: collected record_result no_more)+
  qed (use assms(3) in simp)
qed

interpretation load_pools: stopping_system "pool_step c" "\<lambda>s. pool_ok n s \<and> wp_expired s" todo "\<lambda>s. wp_main s = Returned" for c n
  by unfold_locales (auto intro: pool_step_ok can_step dest: step_todo)

text \<open>C32: a load test comes to its end. Once the time of a load test is up, whatever state its goroutines are in and whichever of them goes
  on, there are at most \<open>todo\<close> steps left, as long as a request that was begun returns; and none of them is stuck: as long as \<open>Run\<close> has not returned
  there is a step.\<close>

theorem pool_stops:
  assumes "pool_reach c (pool_start concurrency rampUp) (f 0)" "wp_expired (f 0)" "\<And>j. j < k \<Longrightarrow> pool_step c (f j) (f (Suc j))"
  shows "k \<le> todo (f 0) \<and> (wp_main (f k) = Returned \<or> (\<exists>t. pool_step c (f k) t))"
  using load_pools.run_ends_over[of "nat concurrency" f k c] pool_reach_ok[OF assms(1) pool_start_ok] assms(2,3) by blast

section \<open>The report\<close>

text \<open>\<open>Results.Summary\<close>; \<open>fmt2\<close> writes a number of requests per second with two decimals.\<close>

definition summary_lines :: "(f64 \<Rightarrow> string) \<Rightarrow> results \<Rightarrow> string list" where
  "summary_lines fmt2 r =
     (let m = re_Metrics r in
      [''Load Test Results'',
       ''  Duration:        '' @ dur_string (lc_Duration (re_Config r)),
       ''  Concurrency:     '' @ itoa (lc_Concurrency (re_Config r)),
       ''  Ramp-up:         '' @ dur_string (lc_RampUp (re_Config r)),
       [],
       ''  Total Requests:  '' @ itoa (ms_TotalRequests m),
       ''  Successes:       '' @ itoa (ms_SuccessCount m),
       ''  Errors:          '' @ itoa (ms_ErrorCount m),
       ''  Requests/sec:    '' @ fmt2 (ms_RequestsPerSec m),
       [],
       ''  Mean Latency:    '' @ dur_string (ms_MeanLatency m),
       ''  P50 Latency:     '' @ dur_string (ms_P50Latency m),
       ''  P95 Latency:     '' @ dur_string (ms_P95Latency m),
       ''  P99 Latency:     '' @ dur_string (ms_P99Latency m),
       ''  Min Latency:     '' @ dur_string (ms_MinLatency m),
       ''  Max Latency:     '' @ dur_string (ms_MaxLatency m)])"

definition Summary :: "(f64 \<Rightarrow> string) \<Rightarrow> results \<Rightarrow> string" where
  "Summary fmt2 r = concat (map (\<lambda>l. l @ [NL]) (summary_lines fmt2 r
     @ (if re_Errors r \<noteq> [] then [[], ''  Unique Errors:''] @ map (\<lambda>e. ''    - '' @ e) (re_Errors r) else [])))"

section \<open>A load test of one worker\<close>

definition demo_pool :: pool_state where
  "demo_pool = \<lparr>wp_main = Launching [], wp_workers = [Looking], wp_expired = True, wp_channel = [], wp_closed = False,
      wp_done = False, wp_panicked = False, wp_recorded = [], wp_dropped = [], wp_requests = 0\<rparr>"

lemma demo_pool_reach: "pool_reach 2 (pool_start 1 0) demo_pool"
proof -
  have "pool_reach 2 (pool_start 1 0) ((pool_start 1 0)\<lparr>wp_main := Launching [], wp_workers := [Looking]\<rparr>)"
    using pool_reach.move[OF pool_reach.here start_pool[of "pool_start 1 0" False 1 "[]" 2]]
    by (simp add: pool_start_def Schedule_def)
  from pool_reach.expire[OF this] show ?thesis by (simp add: pool_start_def demo_pool_def)
qed

definition demo_over :: pool_state where
  "demo_over = demo_pool\<lparr>wp_main := Returned, wp_workers := [Finished], wp_closed := True, wp_done := True\<rparr>"

lemma demo_over_reach: "pool_reach 2 (pool_start 1 0) demo_over"
proof -
  let ?s1 = "demo_pool\<lparr>wp_workers := [Finished]\<rparr>"
  let ?s2 = "?s1\<lparr>wp_main := Awaiting\<rparr>"
  let ?s3 = "?s2\<lparr>wp_main := Stopping\<rparr>"
  let ?s4 = "?s3\<lparr>wp_main := Closing, wp_closed := True\<rparr>"
  let ?s5 = "?s4\<lparr>wp_done := True\<rparr>"
  have 1: "pool_step 2 demo_pool ?s1" using worker[OF look_done[of 0 demo_pool 2]] by (simp add: demo_pool_def)
  have 2: "pool_step 2 ?s1 ?s2" by (rule launched) (simp add: demo_pool_def)
  have 3: "pool_step 2 ?s2 ?s3" by (rule time_up) (simp_all add: demo_pool_def)
  have 4: "pool_step 2 ?s3 ?s4" by (rule stopped) (simp_all add: demo_pool_def)
  have 5: "pool_step 2 ?s4 ?s5" by (rule no_more) (simp_all add: demo_pool_def)
  have 6: "pool_step 2 ?s5 (?s5\<lparr>wp_main := Returned\<rparr>)" by (rule collected) simp_all
  have e: "?s5\<lparr>wp_main := Returned\<rparr> = demo_over" by (simp add: demo_over_def demo_pool_def)
  note move = pool_reach.move[of 2 "pool_start 1 0"]
  from move[OF move[OF move[OF move[OF move[OF move[OF demo_pool_reach 1] 2] 3] 4] 5] 6] show ?thesis unfolding e .
qed

theorem pool_counts_witness: "\<not> wp_panicked demo_over \<and> wp_requests demo_over = length (wp_recorded demo_over) + length (wp_dropped demo_over)"
proof -
  have "wp_main demo_over = Returned" by (simp add: demo_over_def)
  with pool_counts[OF demo_over_reach] show ?thesis by blast
qed

theorem pool_stops_witness: "0 \<le> todo demo_pool \<and> (wp_main demo_pool = Returned \<or> (\<exists>t. pool_step 2 demo_pool t))"
  using pool_stops[of 2 1 0 "\<lambda>_. demo_pool" 0] demo_pool_reach by (simp add: demo_pool_def)

end
