(* ===== verification/Fuzz.thy ===== *)
theory Fuzz
  imports Runner
begin

text \<open>
  fuzz: targets, the generator of inputs and the runner. The random numbers are drawn from a generator that is passed on; its
  operations are a parameter. The connector acts on a world of any type. The corpus is in theory Fuzz\_Corpus; elapsed times are not modelled.
  The loops are those of runs in which the connector does not panic: fuzz recovers from nothing, so a panic ends the process.
\<close>

section \<open>Targets\<close>

record target =
  tg_Name :: string
  tg_Connector :: string
  tg_Action :: string
  tg_Parameters :: "(string \<times> gov) list"
  tg_FuzzFields :: "string list"
  tg_Seed :: "(string \<times> gov) list list"
  tg_Assert :: "(string \<times> gov) list list"

datatype target_error =
    MustBeString string
  | MustBeMap string
  | MustBeList string
  | EntriesMustBe string
  | NameRequired
  | ConnectorRequired
  | ActionRequired
  | FuzzFieldRequired
  | FuzzFieldUnknown string

definition target_Validate :: "target \<Rightarrow> target_error option" where
  "target_Validate t =
     (if tg_Name t = [] then Some NameRequired
      else if tg_Connector t = [] then Some ConnectorRequired
      else if tg_Action t = [] then Some ActionRequired
      else if tg_FuzzFields t = [] then Some FuzzFieldRequired
      else (case find (\<lambda>f. map_of (tg_Parameters t) f = None) (tg_FuzzFields t) of
          Some f \<Rightarrow> Some (FuzzFieldUnknown f)
        | None \<Rightarrow> None))"

text \<open>A parameter that is there must have its type; the value stands for one that is not.\<close>

definition string_param :: "(string \<times> gov) list \<Rightarrow> string \<Rightarrow> target_error + string" where
  "string_param m k = (case map_of m k of None \<Rightarrow> Inr [] | Some (GStr s) \<Rightarrow> Inr s | Some _ \<Rightarrow> Inl (MustBeString k))"

definition map_param :: "(string \<times> gov) list \<Rightarrow> string \<Rightarrow> target_error + (string \<times> gov) list" where
  "map_param m k = (case map_of m k of None \<Rightarrow> Inr [] | Some (GMap x) \<Rightarrow> Inr x | Some _ \<Rightarrow> Inl (MustBeMap k))"

fun entries_of :: "(gov \<Rightarrow> 'a option) \<Rightarrow> string \<Rightarrow> gov list \<Rightarrow> target_error + 'a list" where
  "entries_of f k [] = Inr []"
| "entries_of f k (v # vs) =
     (case f v of None \<Rightarrow> Inl (EntriesMustBe k) | Some x \<Rightarrow> rbind (entries_of f k vs) (\<lambda>xs. Inr (x # xs)))"

definition list_param :: "(gov \<Rightarrow> 'a option) \<Rightarrow> (string \<times> gov) list \<Rightarrow> string \<Rightarrow> target_error + 'a list" where
  "list_param f m k =
     (case map_of m k of None \<Rightarrow> Inr [] | Some (GList vs) \<Rightarrow> entries_of f k vs | Some _ \<Rightarrow> Inl (MustBeList k))"

definition as_string :: "gov \<Rightarrow> string option" where
  "as_string v = (case v of GStr s \<Rightarrow> Some s | _ \<Rightarrow> None)"

definition as_map :: "gov \<Rightarrow> (string \<times> gov) list option" where
  "as_map v = (case v of GMap m \<Rightarrow> Some m | _ \<Rightarrow> None)"

definition ParseTarget :: "(string \<times> gov) list \<Rightarrow> target_error + target" where
  "ParseTarget params =
     rbind (string_param params ''name'') (\<lambda>name.
     rbind (string_param params ''connector'') (\<lambda>conn.
     rbind (string_param params ''action'') (\<lambda>action.
     rbind (map_param params ''parameters'') (\<lambda>parameters.
     rbind (list_param as_string params ''fuzz_fields'') (\<lambda>fields.
     rbind (list_param as_map params ''seed'') (\<lambda>seed.
     rbind (list_param as_map params ''assert'') (\<lambda>asserts.
       (let t = \<lparr>tg_Name = name, tg_Connector = conn, tg_Action = action, tg_Parameters = parameters,
                 tg_FuzzFields = fields, tg_Seed = seed, tg_Assert = asserts\<rparr>
        in case target_Validate t of Some e \<Rightarrow> Inl e | None \<Rightarrow> Inr t))))))))"

section \<open>The generator\<close>

record 'g rng =
  rg_Intn :: "int \<Rightarrow> 'g \<Rightarrow> int \<times> 'g"
  rg_Int :: "'g \<Rightarrow> int \<times> 'g"
  rg_Float64 :: "'g \<Rightarrow> f64 \<times> 'g"

definition printable :: "int \<Rightarrow> char" where
  "printable k = char_of (nat (k + 32))"

fun random_bytes :: "'g rng \<Rightarrow> nat \<Rightarrow> 'g \<Rightarrow> string \<times> 'g" where
  "random_bytes r 0 g = ([], g)"
| "random_bytes r (Suc n) g =
     (let (k, g1) = rg_Intn r 95 g; (s, g2) = random_bytes r n g1 in (printable k # s, g2))"

definition randomString :: "'g rng \<Rightarrow> int \<Rightarrow> 'g \<Rightarrow> string \<times> 'g" where
  "randomString r len g = random_bytes r (nat len) g"

definition flip_bit :: "nat \<Rightarrow> char \<Rightarrow> char" where
  "flip_bit n c = char_of (Bit_Operations.xor (of_char c) (push_bit n 1 mod 256 :: nat))"

definition mutateString :: "'g rng \<Rightarrow> string \<Rightarrow> 'g \<Rightarrow> string \<times> 'g" where
  "mutateString r s g =
     (if s = [] then (let (n, g1) = rg_Intn r 10 g in randomString r (n + 1) g1)
      else (let (how, g0) = rg_Intn r 5 g in
        if how = 0 then
          (let (idx, g1) = rg_Intn r (int (length s)) g0; (k, g2) = rg_Intn r 95 g1 in (s[nat idx := printable k], g2))
        else if how = 1 then
          (let (idx, g1) = rg_Intn r (int (length s) + 1) g0; (k, g2) = rg_Intn r 95 g1
           in (take (nat idx) s @ printable k # drop (nat idx) s, g2))
        else if how = 2 then
          (if length s \<le> 1 then ([], g0)
           else (let (idx, g1) = rg_Intn r (int (length s)) g0 in (take (nat idx) s @ drop (nat idx + 1) s, g1)))
        else if how = 3 then
          (let (idx, g1) = rg_Intn r (int (length s)) g0; (b, g2) = rg_Intn r 8 g1
           in (s[nat idx := flip_bit (nat b) (s ! nat idx)], g2))
        else (let (n, g1) = rg_Intn r 50 g0 in randomString r (n + 1) g1)))"

definition mutateInt :: "'g rng \<Rightarrow> int \<Rightarrow> 'g \<Rightarrow> int \<times> 'g" where
  "mutateInt r n g =
     (let (how, g0) = rg_Intn r 5 g in
      if how = 0 then (0, g0)
      else if how = 1 then (2 ^ 31 - 1, g0)
      else if how = 2 then (- (2 ^ 31), g0)
      else if how = 3 then (let (k, g1) = rg_Intn r 21 g0 in (wrap64 (n + (k - 10)), g1))
      else rg_Int r g0)"

definition max_float :: f64 where
  "max_float = Fin ((2 ^ 53 - 1) * 2 ^ 971)"

definition mutateFloat :: "'g rng \<Rightarrow> f64 \<Rightarrow> 'g \<Rightarrow> f64 \<times> 'g" where
  "mutateFloat r f g =
     (let (how, g0) = rg_Intn r 5 g in
      if how = 0 then (Fin 0, g0)
      else if how = 1 then (max_float, g0)
      else if how = 2 then (f64_neg max_float, g0)
      else if how = 3 then (let (x, g1) = rg_Float64 r g0 in (f64_add f (f64_sub (f64_mul x (Fin 20)) (Fin 10)), g1))
      else (let (x, g1) = rg_Float64 r g0 in (f64_mul x (Fin 1000), g1)))"

definition mutateValue :: "'g rng \<Rightarrow> gov \<Rightarrow> 'g \<Rightarrow> gov \<times> 'g" where
  "mutateValue r v g =
     (case v of
        GStr s \<Rightarrow> (let (x, g1) = mutateString r s g in (GStr x, g1))
      | GNum KInt i \<Rightarrow> (let (x, g1) = mutateInt r i g in (GNum KInt x, g1))
      | GNum KInt64 i \<Rightarrow> (let (x, g1) = mutateInt r i g in (GNum KInt64 x, g1))
      | GFloat f \<Rightarrow> (let (x, g1) = mutateFloat r f g in (GFloat x, g1))
      | GBool b \<Rightarrow> (GBool (\<not> b), g)
      | GNil \<Rightarrow>
          (let (how, g0) = rg_Intn r 3 g in
           if how = 0 then (let (n, g1) = rg_Intn r 20 g0; (x, g2) = randomString r n g1 in (GStr x, g2))
           else if how = 1 then (let (n, g1) = rg_Intn r 1000 g0 in (GInt n, g1))
           else (let (x, g1) = rg_Float64 r g0 in (GBool (f64_lt x (Fin (1 / 2))), g1)))
      | _ \<Rightarrow> (v, g))"

text \<open>A field that is not there reads as nil.\<close>

fun mutate_fields :: "'g rng \<Rightarrow> string list \<Rightarrow> (string \<times> gov) list \<Rightarrow> 'g \<Rightarrow> (string \<times> gov) list \<times> 'g" where
  "mutate_fields r [] m g = (m, g)"
| "mutate_fields r (k # ks) m g =
     (let (v, g1) = mutateValue r (case map_of m k of Some v \<Rightarrow> v | None \<Rightarrow> GNil) g
      in mutate_fields r ks (AList.update k v m) g1)"

definition Next :: "'g rng \<Rightarrow> target \<Rightarrow> 'g \<Rightarrow> (string \<times> gov) list \<times> 'g" where
  "Next r t g = mutate_fields r (tg_FuzzFields t) (tg_Parameters t) g"

section \<open>The runner\<close>

record fuzz_result =
  fz_Iterations :: int
  fz_Failures :: "((string \<times> gov) list \<times> string) list"

definition executeAndCheck ::
  "'w connector \<Rightarrow> target \<Rightarrow> (string \<times> gov) list \<Rightarrow> 'w \<Rightarrow> ((string \<times> gov) list \<times> string) option \<times> 'w" where
  "executeAndCheck conn t input w =
     (case cn_Execute conn \<lparr>cs_Action = tg_Action t, cs_Parameters = input, cs_Timeout = 0\<rparr> w of
        (Inl err, w') \<Rightarrow> (Some (input, err), w')
      | (Inr data, w') \<Rightarrow> (None, w'))"

definition fuzz_one :: "'w connector \<Rightarrow> target \<Rightarrow> (string \<times> gov) list \<Rightarrow> fuzz_result \<times> 'w \<Rightarrow> fuzz_result \<times> 'w" where
  "fuzz_one conn t input st =
     (case st of (res, w) \<Rightarrow>
       (case executeAndCheck conn t input w of
          (f, w') \<Rightarrow>
            (\<lparr>fz_Iterations = fz_Iterations res + 1,
              fz_Failures = fz_Failures res @ (case f of Some x \<Rightarrow> [x] | None \<Rightarrow> [])\<rparr>, w')))"

definition seed_input :: "target \<Rightarrow> (string \<times> gov) list \<Rightarrow> (string \<times> gov) list" where
  "seed_input t seed = fold (\<lambda>(k, v) m. AList.update k v m) seed (tg_Parameters t)"

text \<open>The loops; \<open>stop\<close> is the error of the context, if it is done.\<close>

fun seed_loop ::
  "('w \<Rightarrow> string option) \<Rightarrow> 'w connector \<Rightarrow> target \<Rightarrow> (string \<times> gov) list list \<Rightarrow> fuzz_result \<times> 'w
    \<Rightarrow> string option \<times> fuzz_result \<times> 'w" where
  "seed_loop stop conn t [] st = (None, st)"
| "seed_loop stop conn t (seed # seeds) st =
     (case stop (snd st) of
        Some err \<Rightarrow> (Some err, st)
      | None \<Rightarrow> seed_loop stop conn t seeds (fuzz_one conn t (seed_input t seed) st))"

partial_function (option) gen_loop ::
  "('w \<Rightarrow> string option) \<Rightarrow> 'g rng \<Rightarrow> 'w connector \<Rightarrow> target \<Rightarrow> int \<Rightarrow> int \<Rightarrow> 'g \<Rightarrow> fuzz_result \<times> 'w
    \<Rightarrow> (string option \<times> fuzz_result \<times> 'w) option" where
  "gen_loop stop r conn t iterations i g st =
     (if \<not> (iterations = 0 \<or> i < iterations) then Some (None, st)
      else (case stop (snd st) of
          Some err \<Rightarrow> Some (Some err, st)
        | None \<Rightarrow>
            (let (input, g') = Next r t g
             in gen_loop stop r conn t iterations (i + 1) g' (fuzz_one conn t input st))))"

definition Fuzz_run ::
  "('w \<Rightarrow> string option) \<Rightarrow> 'g rng \<Rightarrow> 'w connector \<Rightarrow> target \<Rightarrow> int \<Rightarrow> 'g \<Rightarrow> 'w
    \<Rightarrow> (target_error + string option \<times> fuzz_result \<times> 'w) option" where
  "Fuzz_run stop r conn t iterations g w =
     (case target_Validate t of
        Some e \<Rightarrow> Some (Inl e)
      | None \<Rightarrow>
          (case seed_loop stop conn t (tg_Seed t) (\<lparr>fz_Iterations = 0, fz_Failures = []\<rparr>, w) of
             (Some err, st) \<Rightarrow> Some (Inr (Some err, st))
           | (None, st) \<Rightarrow> map_option Inr (gen_loop stop r conn t iterations 0 g st)))"

section \<open>What a generated input looks like\<close>

definition mutant_of :: "bool \<Rightarrow> gov \<Rightarrow> gov \<Rightarrow> bool" where
  "mutant_of fuzzed v v' \<longleftrightarrow>
     (if \<not> fuzzed then v' = v
      else (case v of GNil \<Rightarrow> True | GList vs \<Rightarrow> v' = v | GMap m \<Rightarrow> v' = v | _ \<Rightarrow> type_name v' = type_name v))"

lemma mutateValue_kind: "mutant_of True v (fst (mutateValue r v g))"
  by (auto simp: mutant_of_def mutateValue_def Let_def split: gov.split num_kind.split prod.split)

lemma mutant_of_trans: "mutant_of a v v' \<Longrightarrow> mutant_of b v' v'' \<Longrightarrow> mutant_of (a \<or> b) v v''"
proof -
  have nil: "type_name v = ''<nil>'' \<longleftrightarrow> v = GNil" for v
    by (cases v) (auto simp: kind_name.simps split: num_kind.splits elim: kind_name.elims)
  have list: "type_name v = ''[]interface {}'' \<longleftrightarrow> (\<exists>vs. v = GList vs)" for v
    by (cases v) (auto elim: kind_name.elims)
  have map: "type_name v = ''map[string]interface {}'' \<longleftrightarrow> (\<exists>m. v = GMap m)" for v
    by (cases v) (auto elim: kind_name.elims)
  show "mutant_of a v v' \<Longrightarrow> mutant_of b v' v'' \<Longrightarrow> mutant_of (a \<or> b) v v''"
    using nil[of v] nil[of v'] list[of v] list[of v'] map[of v] map[of v']
    by (auto simp: mutant_of_def split: if_splits gov.splits)
qed

lemma mutate_fields_frame:
  "\<forall>k \<in> set ks. map_of m k \<noteq> None \<Longrightarrow> map_of m k = Some v \<Longrightarrow>
   \<exists>v'. map_of (fst (mutate_fields r ks m g)) k = Some v' \<and> mutant_of (k \<in> set ks) v v'"
proof (induction ks arbitrary: m g v)
  case (Cons j ks)
  obtain u where u: "map_of m j = Some u" using Cons.prems(1) by auto
  obtain u' g1 where mu: "mutateValue r u g = (u', g1)" by fastforce
  have kind: "mutant_of True u u'" using mutateValue_kind[of u r g] mu by simp
  have step: "mutate_fields r (j # ks) m g = mutate_fields r ks (AList.update j u' m) g1" by (simp add: u mu)
  have all: "\<forall>k \<in> set ks. map_of (AList.update j u' m) k \<noteq> None" using Cons.prems(1) by (auto simp: update_conv')
  show ?case
  proof (cases "k = j")
    case True
    then obtain v' where "map_of (fst (mutate_fields r ks (AList.update j u' m) g1)) k = Some v'" "mutant_of (k \<in> set ks) u' v'"
      using Cons.IH[OF all, of u'] by auto
    moreover have "u = v" using u Cons.prems(2) True by simp
    ultimately show ?thesis unfolding step using mutant_of_trans[OF kind, of "k \<in> set ks" v'] True by auto
  next
    case False
    then have "map_of (AList.update j u' m) k = Some v" using Cons.prems(2) by simp
    with Cons.IH[OF all this] False show ?thesis unfolding step by simp
  qed
qed (simp add: mutant_of_def)

lemma mutate_fields_dom:
  "\<forall>k \<in> set ks. map_of m k \<noteq> None \<Longrightarrow> dom (map_of (fst (mutate_fields r ks m g))) = dom (map_of m)"
proof (induction ks arbitrary: m g)
  case (Cons j ks)
  obtain u where u: "map_of m j = Some u" using Cons.prems by auto
  obtain u' g1 where mu: "mutateValue r u g = (u', g1)" by fastforce
  have "\<forall>k \<in> set ks. map_of (AList.update j u' m) k \<noteq> None" using Cons.prems by (auto simp: update_conv')
  from Cons.IH[OF this] u show ?case by (auto simp: mu update_conv' split: if_splits)
qed simp

lemma valid_fields: "target_Validate t = None \<Longrightarrow> \<forall>k \<in> set (tg_FuzzFields t). map_of (tg_Parameters t) k \<noteq> None"
  by (auto simp: target_Validate_def find_None_iff split: if_splits option.splits)

text \<open>What the generator changes. For a valid target a generated input has the parameters of the target, the same keys;
  the fields that are not to be fuzzed keep their values, and a fuzzed field keeps its type, unless it is nil; lists and
  maps are never changed.\<close>

theorem Next_frame:
  assumes "target_Validate t = None"
  shows "dom (map_of (fst (Next r t g))) = dom (map_of (tg_Parameters t))
    \<and> (\<forall>k v. map_of (tg_Parameters t) k = Some v \<longrightarrow>
        (\<exists>v'. map_of (fst (Next r t g)) k = Some v' \<and> mutant_of (k \<in> set (tg_FuzzFields t)) v v'))"
  using mutate_fields_dom[OF valid_fields[OF assms], of r g] mutate_fields_frame[OF valid_fields[OF assms], where r = r and g = g]
  by (simp add: Next_def)

section \<open>What a run does\<close>

fun gen_inputs :: "'g rng \<Rightarrow> target \<Rightarrow> nat \<Rightarrow> 'g \<Rightarrow> (string \<times> gov) list list" where
  "gen_inputs r t 0 g = []"
| "gen_inputs r t (Suc n) g = (let (input, g') = Next r t g in input # gen_inputs r t n g')"

fun outcomes :: "'w connector \<Rightarrow> string \<Rightarrow> (string \<times> gov) list list \<Rightarrow> 'w \<Rightarrow> ((string \<times> gov) list \<times> string option) list" where
  "outcomes conn action [] w = []"
| "outcomes conn action (x # xs) w =
     (case cn_Execute conn \<lparr>cs_Action = action, cs_Parameters = x, cs_Timeout = 0\<rparr> w of
        (r, w') \<Rightarrow> (x, case r of Inl e \<Rightarrow> Some e | Inr d \<Rightarrow> None) # outcomes conn action xs w')"

definition failing :: "((string \<times> gov) list \<times> string option) list \<Rightarrow> ((string \<times> gov) list \<times> string) list" where
  "failing os = concat (map (\<lambda>(x, e). case e of Some err \<Rightarrow> [(x, err)] | None \<Rightarrow> []) os)"

lemma length_gen_inputs [simp]: "length (gen_inputs r t n g) = n"
  by (induction n arbitrary: g) (simp_all add: split_beta)

lemma fold_fuzz_one:
  "fst (fold (fuzz_one conn t) inputs (res, w)) =
     \<lparr>fz_Iterations = fz_Iterations res + int (length inputs),
      fz_Failures = fz_Failures res @ failing (outcomes conn (tg_Action t) inputs w)\<rparr>"
proof (induction inputs arbitrary: res w)
  case (Cons x xs)
  obtain q w' where "cn_Execute conn \<lparr>cs_Action = tg_Action t, cs_Parameters = x, cs_Timeout = 0\<rparr> w = (q, w')" by fastforce
  then show ?case using Cons by (cases q) (simp_all add: fuzz_one_def executeAndCheck_def failing_def)
qed (simp add: failing_def)

lemma seed_loop_all: "seed_loop (\<lambda>_. None) conn t seeds st = (None, fold (fuzz_one conn t) (map (seed_input t) seeds) st)"
  by (induction seeds arbitrary: st) simp_all

lemma gen_loop_all:
  "0 < iterations \<Longrightarrow> i \<le> iterations \<Longrightarrow>
   gen_loop (\<lambda>_. None) r conn t iterations i g st =
     Some (None, fold (fuzz_one conn t) (gen_inputs r t (nat (iterations - i)) g) st)"
proof (induction "nat (iterations - i)" arbitrary: i g st)
  case 0
  then show ?case by (subst gen_loop.simps) simp
next
  case (Suc n)
  obtain input g' where x: "Next r t g = (input, g')" by fastforce
  have n: "nat (iterations - i) = Suc n" "nat (iterations - (i + 1)) = n" using Suc.hyps(2) by auto
  have "gen_loop (\<lambda>_. None) r conn t iterations (i + 1) g' (fuzz_one conn t input st) =
      Some (None, fold (fuzz_one conn t) (gen_inputs r t (nat (iterations - (i + 1))) g') (fuzz_one conn t input st))"
    using Suc by (intro Suc.hyps(1)) auto
  moreover have "i < iterations" using Suc.hyps(2) by simp
  ultimately show ?case by (subst gen_loop.simps) (simp add: x n)
qed

text \<open>A fuzz run tries every input once and reports every failure. With a number of iterations and a context that stays
  alive, the run ends after the seeds, laid over the parameters, and that many generated inputs; it counts them, and
  its failures are the inputs on which the connector returned an error, in order, with that error. The assertions of the
  target have no influence on the result.\<close>

theorem Fuzz_runs_all:
  assumes "target_Validate t = None" "0 < n"
    and "inputs = map (seed_input t) (tg_Seed t) @ gen_inputs r t n g"
  shows "\<exists>w'. Fuzz_run (\<lambda>_. None) r conn t (int n) g w =
      Some (Inr (None, \<lparr>fz_Iterations = int (length (tg_Seed t) + n), fz_Failures = failing (outcomes conn (tg_Action t) inputs w)\<rparr>, w'))
    \<and> Fuzz_run (\<lambda>_. None) r conn (t\<lparr>tg_Assert := asserts\<rparr>) (int n) g w = Fuzz_run (\<lambda>_. None) r conn t (int n) g w"
proof -
  have run: "Fuzz_run (\<lambda>_. None) r conn u (int n) g w =
      Some (Inr (None, fold (fuzz_one conn u) (map (seed_input u) (tg_Seed u) @ gen_inputs r u n g) (\<lparr>fz_Iterations = 0, fz_Failures = []\<rparr>, w)))"
    if "target_Validate u = None" for u
    using that assms(2) by (simp add: Fuzz_run_def seed_loop_all gen_loop_all)
  have "gen_inputs r (t\<lparr>tg_Assert := asserts\<rparr>) m h = gen_inputs r t m h" for m h
    by (induction m arbitrary: h) (simp_all add: Next_def)
  moreover have "fuzz_one conn (t\<lparr>tg_Assert := asserts\<rparr>) = fuzz_one conn t"
    by (intro ext) (simp add: fuzz_one_def executeAndCheck_def)
  moreover have "seed_input (t\<lparr>tg_Assert := asserts\<rparr>) = seed_input t" by (intro ext) (simp add: seed_input_def)
  moreover have "target_Validate (t\<lparr>tg_Assert := asserts\<rparr>) = None" using assms(1) by (auto simp: target_Validate_def split: if_splits)
  ultimately have "Fuzz_run (\<lambda>_. None) r conn (t\<lparr>tg_Assert := asserts\<rparr>) (int n) g w = Fuzz_run (\<lambda>_. None) r conn t (int n) g w"
    using run[of "t\<lparr>tg_Assert := asserts\<rparr>"] run[OF assms(1)] by simp
  moreover have "fst (fold (fuzz_one conn t) inputs (\<lparr>fz_Iterations = 0, fz_Failures = []\<rparr>, w)) =
      \<lparr>fz_Iterations = int (length (tg_Seed t) + n), fz_Failures = failing (outcomes conn (tg_Action t) inputs w)\<rparr>"
  proof -
    have "length inputs = length (tg_Seed t) + n" using assms(3) by simp
    then show ?thesis by (simp add: fold_fuzz_one)
  qed
  ultimately show ?thesis using run[OF assms(1)] assms(3) by (metis prod.collapse)
qed

text \<open>A target with one seed, and a connector that takes only the value 1.\<close>

definition demo_target :: target where
  "demo_target = \<lparr>tg_Name = ''t'', tg_Connector = ''c'', tg_Action = ''a'',
     tg_Parameters = [(''ok'', GBool True), (''fixed'', GStr ''x'')], tg_FuzzFields = [''ok''],
     tg_Seed = [[(''ok'', GInt 7)]], tg_Assert = [[]]\<rparr>"

definition demo_rng :: "unit rng" where
  "demo_rng = \<lparr>rg_Intn = (\<lambda>n g. (0, g)), rg_Int = (\<lambda>g. (0, g)), rg_Float64 = (\<lambda>g. (Fin 0, g))\<rparr>"

definition bool_connector :: "unit connector" where
  "bool_connector = \<lparr>cn_Setup = (\<lambda>c w. (None, w)),
     cn_Execute = (\<lambda>s w. (case map_of (cs_Parameters s) ''ok'' of Some (GBool b) \<Rightarrow> Inr None | _ \<Rightarrow> Inl ''not a bool'', w)),
     cn_Teardown = (\<lambda>w. (None, w)), cn_panic = (\<lambda>call w. None)\<rparr>"

lemma demo_target_valid: "target_Validate demo_target = None"
  by (simp add: target_Validate_def demo_target_def)

theorem Next_frame_witness:
  "fst (Next demo_rng demo_target ()) = [(''ok'', GBool False), (''fixed'', GStr ''x'')]
   \<and> dom (map_of (fst (Next demo_rng demo_target ()))) = {''ok'', ''fixed''}"
proof -
  have "fst (Next demo_rng demo_target ()) = [(''ok'', GBool False), (''fixed'', GStr ''x'')]"
    by (simp add: Next_def demo_target_def mutateValue_def)
  moreover have "dom (map_of (tg_Parameters demo_target)) = {''ok'', ''fixed''}" by (auto simp: demo_target_def split: if_splits)
  ultimately show ?thesis using Next_frame[OF demo_target_valid, of demo_rng "()"] by simp
qed

theorem Fuzz_runs_all_witness:
  "\<exists>w'. Fuzz_run (\<lambda>_. None) demo_rng bool_connector demo_target 1 () () =
     Some (Inr (None, \<lparr>fz_Iterations = 2, fz_Failures = [([(''ok'', GInt 7), (''fixed'', GStr ''x'')], ''not a bool'')]\<rparr>, w'))"
proof -
  let ?inputs = "map (seed_input demo_target) (tg_Seed demo_target) @ gen_inputs demo_rng demo_target 1 ()"
  have i: "?inputs = [[(''ok'', GInt 7), (''fixed'', GStr ''x'')], [(''ok'', GBool False), (''fixed'', GStr ''x'')]]"
    by (simp add: demo_target_def seed_input_def Next_def mutateValue_def)
  have "failing (outcomes bool_connector (tg_Action demo_target) ?inputs ()) = [([(''ok'', GInt 7), (''fixed'', GStr ''x'')], ''not a bool'')]"
    unfolding i by (simp add: bool_connector_def failing_def)
  moreover have "int (length (tg_Seed demo_target) + 1) = 2" by (simp add: demo_target_def)
  ultimately show ?thesis
    using Fuzz_runs_all[OF demo_target_valid, of 1 ?inputs demo_rng "()" bool_connector "()" "[]"] by simp
qed

end
