(* ===== verification/Fuzz_Corpus.thy ===== *)
theory Fuzz_Corpus
  imports Fuzz Yaml_Decode "HOL-Library.Multiset" "HOL-Library.List_Lexorder" "HOL-Library.Char_ord"
begin

text \<open>
  fuzz/corpus.go: the corpus of inputs kept as files of a directory. The directory is a list of names and contents without repetitions and a list
  of subdirectories; whether a call of the file system fails, json.Unmarshal and json.MarshalIndent are parameters, and the time of a new
  entry is an argument.
\<close>

type_synonym entry = "(string \<times> gov) list"

record disk =
  dk_files :: "(string \<times> string) list"
  dk_dirs :: "string list"

record corpus_env =
  co_MkdirAll :: "string \<Rightarrow> disk \<Rightarrow> string option"
  co_ReadDir :: "string \<Rightarrow> disk \<Rightarrow> string option"
  co_ReadFile :: "string \<Rightarrow> disk \<Rightarrow> string option"
  co_WriteFile :: "string \<Rightarrow> disk \<Rightarrow> string option"
  co_Unmarshal :: "string \<Rightarrow> string + entry"
  co_MarshalIndent :: "entry \<Rightarrow> string + string"

datatype corpus_error =
    CreatingDir string
  | ReadingDir string
  | MarshalingEntry string
  | WritingEntry string

record corpus =
  cp_dir :: string
  cp_entries :: "entry list"

definition NewCorpus :: "string \<Rightarrow> corpus" where
  "NewCorpus dir = \<lparr>cp_dir = dir, cp_entries = []\<rparr>"

text \<open>The entry that a file of the directory holds; a directory, a file of another kind, one that cannot be read and one that is not JSON
  hold none.\<close>

definition entry_of :: "corpus_env \<Rightarrow> disk \<Rightarrow> string \<Rightarrow> entry option" where
  "entry_of env dk name =
     (if name \<in> set (dk_dirs dk) \<or> \<not> has_suffix name ''.json'' then None
      else (case co_ReadFile env name dk of
              Some e \<Rightarrow> None
            | None \<Rightarrow> (case co_Unmarshal env (the (map_of (dk_files dk) name)) of Inl e \<Rightarrow> None | Inr entry \<Rightarrow> Some entry)))"

definition Corpus_Load :: "corpus_env \<Rightarrow> disk \<Rightarrow> corpus \<Rightarrow> corpus_error option \<times> corpus" where
  "Corpus_Load env dk c =
     (case co_MkdirAll env (cp_dir c) dk of
        Some e \<Rightarrow> (Some (CreatingDir e), c)
      | None \<Rightarrow>
          (case co_ReadDir env (cp_dir c) dk of
             Some e \<Rightarrow> (Some (ReadingDir e), c)
           | None \<Rightarrow> (None, c\<lparr>cp_entries := List.map_filter (entry_of env dk) (sort (map fst (dk_files dk) @ dk_dirs dk))\<rparr>)))"

definition entry_name :: "int \<Rightarrow> string" where
  "entry_name now = ''entry_'' @ itoa now @ ''.json''"

definition SaveEntry :: "corpus_env \<Rightarrow> int \<Rightarrow> entry \<Rightarrow> corpus \<Rightarrow> disk \<Rightarrow> corpus_error option \<times> disk" where
  "SaveEntry env now entry c dk =
     (case co_MkdirAll env (cp_dir c) dk of
        Some e \<Rightarrow> (Some (CreatingDir e), dk)
      | None \<Rightarrow>
          (case co_MarshalIndent env entry of
             Inl e \<Rightarrow> (Some (MarshalingEntry e), dk)
           | Inr data \<Rightarrow>
               (case co_WriteFile env (entry_name now) dk of
                  Some e \<Rightarrow> (Some (WritingEntry e), dk)
                | None \<Rightarrow> (None, dk\<lparr>dk_files := AList.update (entry_name now) data (dk_files dk)\<rparr>))))"

definition Corpus_Add :: "corpus_env \<Rightarrow> int \<Rightarrow> entry \<Rightarrow> corpus \<times> disk \<Rightarrow> corpus_error option \<times> corpus \<times> disk" where
  "Corpus_Add env now entry cd =
     (case cd of (c, dk) \<Rightarrow>
       (case SaveEntry env now entry c dk of
          (Some e, dk') \<Rightarrow> (Some e, c, dk')
        | (None, dk') \<Rightarrow> (None, c\<lparr>cp_entries := cp_entries c @ [entry]\<rparr>, dk')))"

section \<open>What was added is found again\<close>

fun add_all :: "corpus_env \<Rightarrow> (int \<times> entry) list \<Rightarrow> corpus \<times> disk \<Rightarrow> corpus \<times> disk" where
  "add_all env [] cd = cd"
| "add_all env ((now, entry) # es) cd = add_all env es (snd (Corpus_Add env now entry cd))"

text \<open>A file system without errors, and JSON that reads what it wrote.\<close>

definition disk_works :: "corpus_env \<Rightarrow> bool" where
  "disk_works env \<longleftrightarrow> (\<forall>d dk. co_MkdirAll env d dk = None \<and> co_ReadDir env d dk = None \<and> co_ReadFile env d dk = None \<and> co_WriteFile env d dk = None)"

definition json_keeps :: "corpus_env \<Rightarrow> entry \<Rightarrow> bool" where
  "json_keeps env entry \<longleftrightarrow> (\<exists>data. co_MarshalIndent env entry = Inr data \<and> co_Unmarshal env data = Inr entry)"

lemma itoa_inj: "itoa x = itoa y \<Longrightarrow> x = y"
  by (metis itoa_integer(2))

lemma entry_name_inj: "entry_name x = entry_name y \<longleftrightarrow> x = y"
  by (auto simp: entry_name_def dest: itoa_inj)

lemma entry_name_json: "has_suffix (entry_name now) ''.json''"
  unfolding has_suffix_iff by (rule exI[of _ "''entry_'' @ itoa now"]) (simp add: entry_name_def)

text \<open>The entries that the files hold, one by one.\<close>

definition held :: "corpus_env \<Rightarrow> (string \<times> string) list \<Rightarrow> entry list" where
  "held env fs = List.map_filter (\<lambda>(name, data).
     if has_suffix name ''.json'' then (case co_Unmarshal env data of Inl e \<Rightarrow> None | Inr entry \<Rightarrow> Some entry) else None) fs"

lemma held_append: "held env (fs @ gs) = held env fs @ held env gs"
  by (simp add: held_def List.map_filter_def)

lemma Add_new:
  assumes "disk_works env" "json_keeps env entry" "entry_name now \<notin> fst ` set (dk_files dk)"
  shows "\<exists>data. Corpus_Add env now entry (c, dk) = (None, c\<lparr>cp_entries := cp_entries c @ [entry]\<rparr>, dk\<lparr>dk_files := dk_files dk @ [(entry_name now, data)]\<rparr>)
    \<and> held env [(entry_name now, data)] = [entry]"
proof -
  obtain data where d: "co_MarshalIndent env entry = Inr data" "co_Unmarshal env data = Inr entry" using assms(2) by (auto simp: json_keeps_def)
  have "AList.update (entry_name now) data (dk_files dk) = dk_files dk @ [(entry_name now, data)]"
    using assms(3) by (rule update_new)
  with d assms(1) show ?thesis
    by (auto simp: Corpus_Add_def SaveEntry_def disk_works_def held_def List.map_filter_simps entry_name_json)
qed

lemma add_all_state:
  assumes "disk_works env" "\<forall>(now, entry) \<in> set es. json_keeps env entry" "distinct (map fst es)"
    "\<forall>now \<in> fst ` set es. entry_name now \<notin> fst ` set (dk_files dk)" "distinct (map fst (dk_files dk))"
  shows "case add_all env es (c, dk) of (c', dk') \<Rightarrow> cp_dir c' = cp_dir c \<and> cp_entries c' = cp_entries c @ map snd es
    \<and> distinct (map fst (dk_files dk')) \<and> dk_dirs dk' = dk_dirs dk \<and> held env (dk_files dk') = held env (dk_files dk) @ map snd es"
  using assms(2-)
proof (induction es arbitrary: c dk)
  case (Cons x es)
  obtain now entry where x: "x = (now, entry)" by (cases x)
  have "json_keeps env entry" "entry_name now \<notin> fst ` set (dk_files dk)" using Cons.prems x by auto
  from Add_new[OF assms(1) this] obtain data where
    a: "Corpus_Add env now entry (c, dk) = (None, c\<lparr>cp_entries := cp_entries c @ [entry]\<rparr>, dk\<lparr>dk_files := dk_files dk @ [(entry_name now, data)]\<rparr>)"
      "held env [(entry_name now, data)] = [entry]" by blast
  let ?dk = "dk\<lparr>dk_files := dk_files dk @ [(entry_name now, data)]\<rparr>"
  have p: "\<forall>(now, entry) \<in> set es. json_keeps env entry" "distinct (map fst es)"
    "\<forall>now \<in> fst ` set es. entry_name now \<notin> fst ` set (dk_files ?dk)" "distinct (map fst (dk_files ?dk))"
    using Cons.prems x by (auto simp: entry_name_inj)
  from Cons.IH[OF p, of "c\<lparr>cp_entries := cp_entries c @ [entry]\<rparr>"] a show ?case by (simp add: x held_append)
qed simp

lemma mset_map_filter: "mset (List.map_filter f xs) = image_mset (\<lambda>x. the (f x)) {#x \<in># mset xs. f x \<noteq> None#}"
  by (induction xs) (auto simp: List.map_filter_simps split: option.splits)

lemma entries_of_files:
  assumes "disk_works env" "set fs \<subseteq> set (dk_files dk)" "distinct (map fst (dk_files dk))" "fst ` set (dk_files dk) \<inter> set (dk_dirs dk) = {}"
  shows "List.map_filter (entry_of env dk) (map fst fs) = held env fs"
  using assms(2)
proof (induction fs)
  case (Cons p fs)
  obtain name data where p: "p = (name, data)" by (cases p)
  have "map_of (dk_files dk) name = Some data" using Cons.prems assms(3) p by simp
  moreover have "name \<notin> set (dk_dirs dk)" using Cons.prems assms(4) p by force
  moreover have "co_ReadFile env name dk = None" using assms(1) by (simp add: disk_works_def)
  ultimately have "entry_of env dk name =
      (if has_suffix name ''.json'' then (case co_Unmarshal env data of Inl e \<Rightarrow> None | Inr entry \<Rightarrow> Some entry) else None)"
    by (simp add: entry_of_def)
  with Cons p show ?case by (auto simp: List.map_filter_simps held_def split: sum.splits)
qed (simp add: List.map_filter_simps held_def)

lemma held_Load:
  assumes "disk_works env" "distinct (map fst (dk_files dk))" "fst ` set (dk_files dk) \<inter> set (dk_dirs dk) = {}"
  shows "\<exists>c'. Corpus_Load env dk c = (None, c') \<and> mset (cp_entries c') = mset (held env (dk_files dk))"
proof -
  let ?f = "entry_of env dk"
  have none: "List.map_filter ?f (dk_dirs dk) = []" by (auto simp: List.map_filter_def filter_empty_conv entry_of_def)
  have "mset (List.map_filter ?f (sort (map fst (dk_files dk) @ dk_dirs dk))) = mset (List.map_filter ?f (map fst (dk_files dk) @ dk_dirs dk))"
    by (simp only: mset_map_filter mset_sort)
  also have "List.map_filter ?f (map fst (dk_files dk) @ dk_dirs dk) = held env (dk_files dk)"
    using none entries_of_files[OF assms(1) subset_refl assms(2,3)] by (simp add: List.map_filter_def)
  finally show ?thesis using assms(1) by (simp add: Corpus_Load_def disk_works_def)
qed

lemma add_all_names:
  assumes "disk_works env"
  shows "fst ` set (dk_files (snd (add_all env es cd))) \<subseteq> fst ` set (dk_files (snd cd)) \<union> entry_name ` fst ` set es"
proof (induction es arbitrary: cd)
  case (Cons x es)
  obtain now entry where x: "x = (now, entry)" by (cases x)
  obtain c dk where cd: "cd = (c, dk)" by (cases cd)
  have "fst ` set (dk_files (snd (snd (Corpus_Add env now entry cd)))) \<subseteq> fst ` set (dk_files dk) \<union> {entry_name now}"
    by (auto simp: cd Corpus_Add_def SaveEntry_def dom_map_of_conv_image_fst[symmetric] update_conv' split: option.splits sum.splits if_splits)
  with Cons[of "snd (Corpus_Add env now entry cd)"] show ?case by (auto simp: x cd)
qed simp

text \<open>A corpus survives its process. Entries that were added to an empty corpus at different times are all found again, each as often as it was
  added, by a corpus that loads the directory later, when the file system and JSON work.\<close>

theorem corpus_reload:
  assumes "disk_works env" "\<forall>(now, entry) \<in> set es. json_keeps env entry" "distinct (map fst es)"
    "add_all env es (NewCorpus dir, \<lparr>dk_files = [], dk_dirs = dirs\<rparr>) = (c, dk)" "\<forall>now \<in> fst ` set es. entry_name now \<notin> set dirs"
  shows "cp_entries c = map snd es
    \<and> (\<exists>c'. Corpus_Load env dk (NewCorpus dir) = (None, c') \<and> mset (cp_entries c') = mset (map snd es))"
proof -
  have s: "cp_entries c = map snd es" "distinct (map fst (dk_files dk))" "dk_dirs dk = dirs" "held env (dk_files dk) = map snd es"
    using add_all_state[OF assms(1,2,3), of "\<lparr>dk_files = [], dk_dirs = dirs\<rparr>" "NewCorpus dir"] assms(4)
    by (simp_all add: NewCorpus_def held_def List.map_filter_simps)
  have sub: "fst ` set (dk_files dk) \<subseteq> entry_name ` fst ` set es"
    using add_all_names[OF assms(1), of es "(NewCorpus dir, \<lparr>dk_files = [], dk_dirs = dirs\<rparr>)"] assms(4) by simp
  have "name \<notin> set dirs" if nm: "name \<in> fst ` set (dk_files dk)" for name
  proof -
    obtain now where "now \<in> fst ` set es" "name = entry_name now" using subsetD[OF sub nm] by (rule imageE)
    with bspec[OF assms(5)] show ?thesis by simp
  qed
  then have dj: "fst ` set (dk_files dk) \<inter> set (dk_dirs dk) = {}" by (auto simp only: s(3) disjoint_iff)
  obtain c' where "Corpus_Load env dk (NewCorpus dir) = (None, c')" "mset (cp_entries c') = mset (map snd es)"
    using held_Load[OF assms(1) s(2) dj, of "NewCorpus dir"] unfolding s(4) by (elim exE conjE)
  with s(1) show ?thesis by blast
qed

definition demo_corpus :: corpus_env where
  "demo_corpus = \<lparr>co_MkdirAll = (\<lambda>d dk. None), co_ReadDir = (\<lambda>d dk. None), co_ReadFile = (\<lambda>f dk. None), co_WriteFile = (\<lambda>f dk. None),
     co_Unmarshal = (\<lambda>s. Inr [(''q'', GStr s)]), co_MarshalIndent = (\<lambda>m. case m of [(k, GStr s)] \<Rightarrow> Inr s | _ \<Rightarrow> Inl ''unsupported'')\<rparr>"

theorem corpus_reload_witness:
  "\<exists>c'. Corpus_Load demo_corpus (snd (add_all demo_corpus [(7 :: int, [(''q'', GStr ''b'')]), (5, [(''q'', GStr ''a'')])] (NewCorpus ''d'', \<lparr>dk_files = [], dk_dirs = [''old'']\<rparr>)))
      (NewCorpus ''d'') = (None, c') \<and> mset (cp_entries c') = {#[(''q'', GStr ''b'')], [(''q'', GStr ''a'')]#}"
proof -
  let ?es = "[(7 :: int, [(''q'', GStr ''b'')]), (5, [(''q'', GStr ''a'')])]"
  have 1: "disk_works demo_corpus" "\<forall>(now, entry) \<in> set ?es. json_keeps demo_corpus entry" "distinct (map fst ?es)"
    by (simp_all add: disk_works_def json_keeps_def demo_corpus_def)
  have 2: "\<forall>now \<in> fst ` set ?es. entry_name now \<notin> set [''old'']" by (simp add: entry_name_def)
  obtain c dk where a: "add_all demo_corpus ?es (NewCorpus ''d'', \<lparr>dk_files = [], dk_dirs = [''old'']\<rparr>) = (c, dk)" by (metis prod.exhaust)
  from corpus_reload[OF 1 a 2] a show ?thesis by (metis (no_types, lifting) list.simps(8) list.simps(9) mset.simps snd_conv)
qed

end
