(* ===== verification/Result_Access.thy ===== *)
theory Result_Access
  imports Go_Value
begin

text \<open>
  core/connector/result.go: the typed readings of a connector's result. Each answers with a value and with whether the key is there
  with the right type; otherwise the value is the zero value of its type.
\<close>

definition result_at :: "(string \<times> gov) list option \<Rightarrow> string \<Rightarrow> gov option" where
  "result_at data key = Option.bind data (\<lambda>m. map_of m key)"

definition GetString :: "(string \<times> gov) list option \<Rightarrow> string \<Rightarrow> string \<times> bool" where
  "GetString data key = (case result_at data key of Some (GStr s) \<Rightarrow> (s, True) | _ \<Rightarrow> ([], False))"

definition GetInt :: "(string \<times> gov) list option \<Rightarrow> string \<Rightarrow> int \<times> bool" where
  "GetInt data key =
     (case result_at data key of
        Some (GNum KInt n) \<Rightarrow> (n, True)
      | Some (GNum KInt64 n) \<Rightarrow> (n, True)
      | Some (GFloat v) \<Rightarrow> (f64_to_int v, True)
      | _ \<Rightarrow> (0, False))"

definition GetFloat :: "(string \<times> gov) list option \<Rightarrow> string \<Rightarrow> f64 \<times> bool" where
  "GetFloat data key =
     (case result_at data key of
        Some (GFloat v) \<Rightarrow> (v, True)
      | Some (GNum KInt n) \<Rightarrow> (f64_of_int n, True)
      | _ \<Rightarrow> (Fin 0, False))"

definition GetBool :: "(string \<times> gov) list option \<Rightarrow> string \<Rightarrow> bool \<times> bool" where
  "GetBool data key = (case result_at data key of Some (GBool b) \<Rightarrow> (b, True) | _ \<Rightarrow> (False, False))"

text \<open>A nil map reads like an empty one.\<close>

definition GetMap :: "(string \<times> gov) list option \<Rightarrow> string \<Rightarrow> (string \<times> gov) list \<times> bool" where
  "GetMap data key = (case result_at data key of Some (GMap m) \<Rightarrow> (m, True) | _ \<Rightarrow> ([], False))"

lemma GetInt_or_GetFloat: "snd (GetFloat data key) \<Longrightarrow> snd (GetInt data key)"
  by (auto simp: GetFloat_def GetInt_def split: option.splits gov.splits num_kind.splits)

end
