(* ===== verification/Graphql_Subscription.thy ===== *)
theory Graphql_Subscription
  imports Websocket Go_Value
begin

text \<open>
  connector/http/graphql: subscription.go, a subscription by the graphql-transport-ws protocol on a WebSocket that
  the file speaks by itself. A connection is the bytes the server has sent and that are not yet read, the bytes that went out,
  whether it is closed and whether the network takes bytes. The random masks are drawn from a list; when none is left a
  mask stays zero, since the errors of \<open>rand.Read\<close> are ignored. URL parsing, dialling, \<open>http.ReadResponse\<close> and
  encoding/json are parameters, and so is whether the context of a call is done first.
\<close>

section \<open>Frames\<close>

definition draw :: "nat \<Rightarrow> string list \<Rightarrow> string \<times> string list" where
  "draw n rand = (case rand of [] \<Rightarrow> (replicate n (CHR 0x00), []) | bs # rand' \<Rightarrow> (bs, rand'))"

definition buildTextFrame :: "string \<Rightarrow> string \<Rightarrow> string" where
  "buildTextFrame msk payload =
     (let len = length payload in
      [CHR 0x81] @
      (if len \<le> 125 then [byte_of (of_nat len OR 0x80)]
       else if len \<le> 65535 then [byte_of (126 OR 0x80), char_of (len div 256), char_of len]
       else byte_of (127 OR 0x80) # be_bytes 8 len) @
      msk @ apply_mask msk payload)"

definition buildCloseFrame :: "string \<Rightarrow> nat \<Rightarrow> string \<Rightarrow> string" where
  "buildCloseFrame msk code reason =
     (let payload = be_bytes 2 code @ reason in
      [CHR 0x88, byte_of (of_nat (length payload) OR 0x80)] @ msk @ apply_mask msk payload)"

definition buildPongFrame :: "string \<Rightarrow> string \<Rightarrow> string" where
  "buildPongFrame msk payload =
     [CHR 0x8A, byte_of (of_nat (length payload) OR 0x80)] @ msk @ apply_mask msk payload"

section \<open>The connection\<close>

record sub_conn =
  gs_in :: string
  gs_out :: string
  gs_rand :: "string list"
  gs_shut :: bool
  gs_down :: bool
  gs_closed :: bool

datatype sub_error =
    FrameHeader io_error
  | ExtendedLength io_error
  | FrameMask io_error
  | FramePayload io_error
  | FrameTooLong
  | WebsocketClosed
  | UnsupportedOpcode "8 word"
  | ConnWrite
  | DecodeMessage
  | ContextDone string
  | DecodeNext
  | DecodeErrors
  | SubscriptionCompleted
  | ParseEndpoint string
  | UnsupportedScheme string
  | Dialing string
  | Handshake string
  | UpgradeFailed int
  | SendingInit sub_error
  | WaitingAck sub_error
  | ExpectedAck string
  | SendingSubscribe sub_error
  | CloseFailed

definition conn_Write :: "string \<Rightarrow> sub_conn \<Rightarrow> sub_error option \<times> sub_conn" where
  "conn_Write bytes s = (if gs_shut s \<or> gs_down s then (Some ConnWrite, s) else (None, s\<lparr>gs_out := gs_out s @ bytes\<rparr>))"

definition writeTextFrame :: "string \<Rightarrow> sub_conn \<Rightarrow> sub_error option \<times> sub_conn" where
  "writeTextFrame payload s =
     (let (msk, rand) = draw 4 (gs_rand s) in conn_Write (buildTextFrame msk payload) (s\<lparr>gs_rand := rand\<rparr>))"

definition write_pong :: "string \<Rightarrow> sub_conn \<Rightarrow> sub_conn" where
  "write_pong payload s =
     (let (msk, rand) = draw 4 (gs_rand s) in snd (conn_Write (buildPongFrame msk payload) (s\<lparr>gs_rand := rand\<rparr>)))"

text \<open>One frame: its opcode and its payload without the mask. A slice larger than the address space cannot be made: the
  goroutine panics, and with it the program.\<close>

definition frame_payload :: "8 word \<Rightarrow> string option \<Rightarrow> nat \<Rightarrow> string \<Rightarrow> (sub_error + 8 word \<times> string) \<times> string" where
  "frame_payload opcode msk len r =
     (if len > maxAlloc then (Inl FrameTooLong, r)
      else with_read len FramePayload r (\<lambda>payload r'.
        (Inr (opcode, case msk of Some m \<Rightarrow> apply_mask m payload | None \<Rightarrow> payload), r')))"

definition frame_mask :: "8 word \<Rightarrow> bool \<Rightarrow> nat \<Rightarrow> string \<Rightarrow> (sub_error + 8 word \<times> string) \<times> string" where
  "frame_mask opcode masked len r =
     (if masked then with_read 4 FrameMask r (\<lambda>m r'. frame_payload opcode (Some m) len r')
      else frame_payload opcode None len r)"

definition one_frame :: "string \<Rightarrow> (sub_error + 8 word \<times> string) \<times> string" where
  "one_frame r0 =
     with_read 2 FrameHeader r0 (\<lambda>header r1.
       (let opcode = word_of (header ! 0) AND 0x0F;
            masked = (word_of (header ! 1) AND 0x80 \<noteq> 0);
            len = unat (word_of (header ! 1) AND 0x7F)
        in if len = 126 then with_read 2 ExtendedLength r1 (\<lambda>ext r2. frame_mask opcode masked (be_val ext) r2)
           else if len = 127 then with_read 8 ExtendedLength r1 (\<lambda>ext r2. frame_mask opcode masked (be_val ext) r2)
           else frame_mask opcode masked len r1))"

text \<open>This reader and the one of the browser connector take the same frames.\<close>

lemma frame_mask_agrees: "frame_mask op b len r = (Inr x, r') \<longleftrightarrow> read_mask op b len r = (Inr x, r')"
  by (auto simp: frame_mask_def read_mask_def frame_payload_def read_payload_def with_read_def read_full_def)

lemma with_read_one: "with_read (Suc 0) err (a # r) k = k [a] r"
  and with_read_two: "with_read 2 err (a # b # r) k = k [a, b] r"
  by (simp_all add: with_read_def read_full_def)

lemma one_frame_agrees: "one_frame r = (Inr x, r') \<longleftrightarrow> readFrame r = (Inr x, r')"
proof (cases r)
  case Nil
  then show ?thesis by (simp add: one_frame_def readFrame_def with_read_Nil)
next
  case (Cons a r1)
  show ?thesis
  proof (cases r1)
    case Nil
    then show ?thesis using Cons by (simp add: one_frame_def readFrame_def with_read_def read_full_def Let_def)
  next
    case C: (Cons b r2)
    have "one_frame r = (let opcode = word_of a AND 0x0F; masked = (word_of b AND 0x80 \<noteq> 0); len = unat (word_of b AND 0x7F)
        in if len = 126 then with_read 2 ExtendedLength r2 (\<lambda>ext r2. frame_mask opcode masked (be_val ext) r2)
           else if len = 127 then with_read 8 ExtendedLength r2 (\<lambda>ext r2. frame_mask opcode masked (be_val ext) r2)
           else frame_mask opcode masked len r2)"
      by (simp add: one_frame_def Cons C with_read_two)
    moreover have "readFrame r = (let opcode = word_of a AND 0x0F; masked = (word_of b AND 0x80 \<noteq> 0); len = unat (word_of b AND 0x7F)
        in if len = 126 then with_read 2 ReadExtLength r2 (\<lambda>buf r3. read_mask opcode masked (be_val buf) r3)
           else if len = 127 then with_read 8 ReadExtLength r2 (\<lambda>buf r3. read_mask opcode masked (be_val buf) r3)
           else read_mask opcode masked len r2)"
      by (simp add: readFrame_def Cons C Let_def with_read_one)
    ultimately show ?thesis
      by (auto simp: Let_def with_read_def frame_mask_agrees split: prod.splits sum.splits)
  qed
qed

lemma one_frame_shorter: "one_frame r = (Inr x, r') \<Longrightarrow> length r' < length r"
  by (auto simp: one_frame_agrees dest: readFrame_shorter)

lemma conn_Write_in [simp]: "gs_in (snd (conn_Write bytes s)) = gs_in s"
  by (simp add: conn_Write_def)

lemma write_pong_in [simp]: "gs_in (write_pong payload s) = gs_in s"
  by (simp add: write_pong_def split: prod.split)

function readTextFrame :: "sub_conn \<Rightarrow> (sub_error + string) \<times> sub_conn" where
  "readTextFrame s =
     (case one_frame (gs_in s) of
        (Inl e, r) \<Rightarrow> (Inl e, s\<lparr>gs_in := r\<rparr>)
      | (Inr (opcode, payload), r) \<Rightarrow>
          (let s1 = s\<lparr>gs_in := r\<rparr> in
           if opcode = 0x1 then (Inr payload, s1)
           else if opcode = 0x8 then (Inl WebsocketClosed, s1)
           else if opcode = 0x9 then readTextFrame (write_pong payload s1)
           else if opcode = 0xA then readTextFrame s1
           else (Inl (UnsupportedOpcode opcode), s1)))"
  by pat_completeness auto
termination
  by (relation "measure (\<lambda>s. length (gs_in s))") (auto dest!: sym one_frame_shorter)

declare readTextFrame.simps [simp del]

lemma readTextFrame_shorter: "readTextFrame s = (Inr data, s') \<Longrightarrow> length (gs_in s') < length (gs_in s)"
proof (induction s rule: readTextFrame.induct)
  case (1 s)
  obtain x r where f: "one_frame (gs_in s) = (x, r)" by fastforce
  show ?case
  proof (cases x)
    case (Inl e)
    with 1 f show ?thesis by (subst (asm) (3) readTextFrame.simps) simp
  next
    case (Inr y)
    obtain opcode payload where y: "y = (opcode, payload)" by (cases y)
    note short = one_frame_shorter[OF f[unfolded Inr]]
    consider "opcode = 1" | "opcode = 8" | "opcode = 9" | "opcode = 0xA" | "opcode \<notin> {1, 8, 9, 0xA}" by blast
    then show ?thesis
    proof cases
      case 1
      with "1.prems" f Inr y short show ?thesis by (subst (asm) readTextFrame.simps) auto
    next
      case 2
      with "1.prems" f Inr y show ?thesis by (subst (asm) readTextFrame.simps) simp
    next
      case 3
      with "1.prems" f Inr y have "readTextFrame (write_pong payload (s\<lparr>gs_in := r\<rparr>)) = (Inr data, s')"
        by (subst (asm) readTextFrame.simps) simp
      from "1.IH"(1)[OF f[symmetric] Inr y[symmetric] refl _ _ _ this] 3 short show ?thesis by simp
    next
      case 4
      with "1.prems" f Inr y have "readTextFrame (s\<lparr>gs_in := r\<rparr>) = (Inr data, s')"
        by (subst (asm) readTextFrame.simps) simp
      from "1.IH"(2)[OF f[symmetric] Inr y[symmetric] refl _ _ _ _ this] 4 short show ?thesis by simp
    next
      case 5
      with "1.prems" f Inr y show ?thesis by (subst (asm) readTextFrame.simps) simp
    qed
  qed
qed

section \<open>The protocol\<close>

record gql_error =
  ge_Message :: string
  ge_Locations :: "(int \<times> int) list"
  ge_Path :: "gov list"
  ge_Extensions :: "(string \<times> gov) list option"

record gql_response =
  gr_Data :: gov
  gr_Errors :: "gql_error list"

record gql_request =
  gq_Query :: string
  gq_Variables :: "(string \<times> gov) list option"
  gq_OperationName :: string

record ws_message =
  sm_ID :: string
  sm_Type :: string
  sm_Payload :: string

record gql_json =
  gj_message :: "ws_message \<Rightarrow> string"
  gj_read_message :: "string \<Rightarrow> ws_message option"
  gj_request :: "gql_request \<Rightarrow> string"
  gj_read_response :: "string \<Rightarrow> gql_response option"
  gj_read_errors :: "string \<Rightarrow> gql_error list option"

definition writeJSON :: "gql_json \<Rightarrow> ws_message \<Rightarrow> sub_conn \<Rightarrow> sub_error option \<times> sub_conn" where
  "writeJSON js msg s = writeTextFrame (gj_message js msg) s"

text \<open>\<open>cancel s\<close> says that the context is done before a message has come in on \<open>s\<close>, with its error and what is then left to read;
  the connection is closed.\<close>

type_synonym cancellation = "sub_conn \<Rightarrow> (string \<times> string) option"

definition readMessage :: "gql_json \<Rightarrow> cancellation \<Rightarrow> sub_conn \<Rightarrow> (sub_error + ws_message) \<times> sub_conn" where
  "readMessage js cancel s =
     (case cancel s of
        Some (err, rest) \<Rightarrow> (Inl (ContextDone err), s\<lparr>gs_in := rest, gs_shut := True\<rparr>)
      | None \<Rightarrow>
          (case readTextFrame s of
             (Inl e, s1) \<Rightarrow> (Inl e, s1)
           | (Inr data, s1) \<Rightarrow>
               (case gj_read_message js data of None \<Rightarrow> (Inl DecodeMessage, s1) | Some msg \<Rightarrow> (Inr msg, s1))))"

lemma readMessage_shorter: "readMessage js cancel s = (Inr msg, s') \<Longrightarrow> length (gs_in s') < length (gs_in s)"
  by (auto simp: readMessage_def dest: readTextFrame_shorter split: option.splits prod.splits sum.splits)

function Next :: "gql_json \<Rightarrow> cancellation \<Rightarrow> sub_conn \<Rightarrow> (sub_error + gql_response) \<times> sub_conn" where
  "Next js cancel s =
     (case readMessage js cancel s of
        (Inl e, s1) \<Rightarrow> (Inl e, s1)
      | (Inr msg, s1) \<Rightarrow>
          (if sm_Type msg = ''next'' then
             (case gj_read_response js (sm_Payload msg) of None \<Rightarrow> (Inl DecodeNext, s1) | Some resp \<Rightarrow> (Inr resp, s1))
           else if sm_Type msg = ''error'' then
             (case gj_read_errors js (sm_Payload msg) of
                None \<Rightarrow> (Inl DecodeErrors, s1)
              | Some errs \<Rightarrow> (Inr \<lparr>gr_Data = GNil, gr_Errors = errs\<rparr>, s1))
           else if sm_Type msg = ''complete'' then (Inl SubscriptionCompleted, s1)
           else Next js cancel s1))"
  by pat_completeness auto
termination
  by (relation "measure (\<lambda>(js, cancel, s). length (gs_in s))") (auto dest!: sym readMessage_shorter)

declare Next.simps [simp del]

definition sub_Close :: "gql_json \<Rightarrow> sub_conn \<Rightarrow> sub_error option \<times> sub_conn" where
  "sub_Close js s =
     (if gs_closed s then (None, s)
      else (let s1 = snd (writeJSON js \<lparr>sm_ID = ''1'', sm_Type = ''complete'', sm_Payload = []\<rparr> (s\<lparr>gs_closed := True\<rparr>));
                (msk, rand) = draw 4 (gs_rand s1);
                s2 = snd (conn_Write (buildCloseFrame msk 1000 ''normal closure'') (s1\<lparr>gs_rand := rand\<rparr>))
            in (if gs_shut s2 then Some CloseFailed else None, s2\<lparr>gs_shut := True\<rparr>)))"

section \<open>Subscribing\<close>

text \<open>The host to dial, and whether TLS was asked for, which the code then ignores.\<close>

definition subscribe_host :: "url_parts \<Rightarrow> (string \<times> bool) option" where
  "subscribe_host u =
     (if up_Scheme u \<notin> {''ws'', ''wss'', ''http'', ''https''} then None
      else (let useTLS = up_Scheme u \<in> {''wss'', ''https''}
            in Some (if contains (up_Host u) '':'' then up_Host u else up_Host u @ (if useTLS then '':443'' else '':80''), useTLS)))"

definition upgrade_request :: "url_parts \<Rightarrow> string \<Rightarrow> (string \<times> string) list \<Rightarrow> string" where
  "upgrade_request u wsKey headers =
     ''GET '' @ up_RequestURI u @ '' HTTP/1.1'' @ CRLF @
     ''Host: '' @ up_Host u @ CRLF @
     ''Upgrade: websocket'' @ CRLF @
     ''Connection: Upgrade'' @ CRLF @
     ''Sec-WebSocket-Key: '' @ wsKey @ CRLF @
     ''Sec-WebSocket-Version: 13'' @ CRLF @
     ''Sec-WebSocket-Protocol: graphql-transport-ws'' @ CRLF @
     concat (map (\<lambda>(k, v). k @ '': '' @ v @ CRLF) headers) @ CRLF"

text \<open>The network: the parsed URL, what a host will send and whether it takes bytes, and the status of a response with the bytes
  behind it.\<close>

record gql_net =
  gn_parse :: "string \<Rightarrow> string + url_parts"
  gn_dial :: "string \<Rightarrow> string + string \<times> bool"
  gn_response :: "string \<Rightarrow> string + int \<times> string"

definition init_message :: ws_message where
  "init_message = \<lparr>sm_ID = [], sm_Type = ''connection_init'', sm_Payload = []\<rparr>"

definition subscribe_message :: "gql_json \<Rightarrow> gql_request \<Rightarrow> ws_message" where
  "subscribe_message js req = \<lparr>sm_ID = ''1'', sm_Type = ''subscribe'', sm_Payload = gj_request js req\<rparr>"

definition sub_handshake :: "gql_json \<Rightarrow> cancellation \<Rightarrow> gql_request \<Rightarrow> sub_conn \<Rightarrow> sub_error + sub_conn" where
  "sub_handshake js cancel req s =
     (case writeJSON js init_message s of
        (Some e, s1) \<Rightarrow> Inl (SendingInit e)
      | (None, s1) \<Rightarrow>
          (case readMessage js cancel s1 of
             (Inl e, s2) \<Rightarrow> Inl (WaitingAck e)
           | (Inr ack, s2) \<Rightarrow>
               if sm_Type ack \<noteq> ''connection_ack'' then Inl (ExpectedAck (sm_Type ack))
               else (case writeJSON js (subscribe_message js req) s2 of
                   (Some e, s3) \<Rightarrow> Inl (SendingSubscribe e)
                 | (None, s3) \<Rightarrow> Inr s3)))"

definition Subscribe ::
  "gql_net \<Rightarrow> gql_json \<Rightarrow> cancellation \<Rightarrow> string list \<Rightarrow> string \<Rightarrow> gql_request \<Rightarrow> (string \<times> string) list \<Rightarrow> sub_error + sub_conn" where
  "Subscribe net js cancel rand endpoint req headers =
     (case gn_parse net endpoint of
        Inl err \<Rightarrow> Inl (ParseEndpoint err)
      | Inr u \<Rightarrow>
          (case subscribe_host u of
             None \<Rightarrow> Inl (UnsupportedScheme (up_Scheme u))
           | Some (host, useTLS) \<Rightarrow>
               (case gn_dial net host of
                  Inl err \<Rightarrow> Inl (Dialing err)
                | Inr (incoming, down) \<Rightarrow>
                    (let (keyBytes, masks) = draw 16 rand;
                         s0 = \<lparr>gs_in = incoming, gs_out = [], gs_rand = masks, gs_shut = False, gs_down = down, gs_closed = False\<rparr>;
                         s1 = snd (conn_Write (upgrade_request u (b64_encode keyBytes) headers) s0)
                     in case gn_response net (gs_in s1) of
                          Inl err \<Rightarrow> Inl (Handshake err)
                        | Inr (status, r) \<Rightarrow>
                            if status \<noteq> 101 then Inl (UpgradeFailed status)
                            else sub_handshake js cancel req (s1\<lparr>gs_in := r\<rparr>)))))"

section \<open>What goes out\<close>

lemma first_bytes: "byte_of (0x80 OR opText) = CHR 0x81" "byte_of (0x80 OR opPong) = CHR 0x8A" "byte_of (0x80 OR opClose) = CHR 0x88"
  by (simp_all add: opText_def opPong_def opClose_def byte_of_def) code_simp+

lemma be_two: "be_bytes 2 n = [char_of (n div 256), char_of n]"
  by (simp add: be_bytes_def numeral_2_eq_2)

lemma buildTextFrame_wire: "buildTextFrame msk payload = wire_frame (Some msk) opText payload"
  by (simp add: buildTextFrame_def wire_frame_def first_bytes be_two Let_def or.commute[of _ "0x80 :: 8 word"])

lemma buildPongFrame_wire: "length payload \<le> 125 \<Longrightarrow> buildPongFrame msk payload = wire_frame (Some msk) opPong payload"
  by (simp add: buildPongFrame_def wire_frame_def first_bytes Let_def or.commute[of _ "0x80 :: 8 word"])

lemma buildCloseFrame_wire:
  "length reason \<le> 123 \<Longrightarrow> buildCloseFrame msk code reason = wire_frame (Some msk) opClose (be_bytes 2 code @ reason)"
  by (simp add: buildCloseFrame_def wire_frame_def first_bytes Let_def or.commute[of _ "0x80 :: 8 word"])

definition can_write :: "sub_conn \<Rightarrow> bool" where
  "can_write s \<longleftrightarrow> \<not> gs_shut s \<and> \<not> gs_down s \<and> (\<forall>bs \<in> set (gs_rand s). length bs = 4)"

text \<open>Between two states the client has sent these messages, each one whole in a masked frame.\<close>

definition wrote :: "sub_conn \<Rightarrow> (8 word \<times> string) list \<Rightarrow> sub_conn \<Rightarrow> bool" where
  "wrote s ms s' \<longleftrightarrow>
     (\<exists>fs. gs_out s' = gs_out s @ wire_all fs \<and> map snd fs = ms
       \<and> (\<forall>(m, opcode, payload) \<in> set fs. m \<noteq> None \<and> frame_ok m opcode payload))"

lemma wrote_nothing: "gs_out s' = gs_out s \<Longrightarrow> wrote s [] s'"
  by (simp add: wrote_def wire_all_def)

lemma wrote_append: "wrote s ms s' \<Longrightarrow> wrote s' ms' s'' \<Longrightarrow> wrote s (ms @ ms') s''"
  unfolding wrote_def
proof (elim exE conjE)
  fix fs gs
  assume "gs_out s' = gs_out s @ wire_all fs" "gs_out s'' = gs_out s' @ wire_all gs" "map snd fs = ms" "map snd gs = ms'"
    "\<forall>(m, opcode, payload) \<in> set fs. m \<noteq> None \<and> frame_ok m opcode payload"
    "\<forall>(m, opcode, payload) \<in> set gs. m \<noteq> None \<and> frame_ok m opcode payload"
  then show "\<exists>fs. gs_out s'' = gs_out s @ wire_all fs \<and> map snd fs = ms @ ms'
      \<and> (\<forall>(m, opcode, payload) \<in> set fs. m \<noteq> None \<and> frame_ok m opcode payload)"
    by (intro exI[of _ "fs @ gs"]) (auto simp: wire_all_def)
qed

text \<open>A server that reads the frames sees exactly the messages.\<close>

lemma wrote_read:
  assumes "wrote s ms s'"
  shows "\<exists>bytes. gs_out s' = gs_out s @ bytes \<and> read_until readFrame (length ms + 1) bytes = (ms, Some (ReadFrameHeader IO_EOF))"
proof -
  obtain fs where fs: "gs_out s' = gs_out s @ wire_all fs" "map snd fs = ms"
    "\<forall>(m, opcode, payload) \<in> set fs. m \<noteq> None \<and> frame_ok m opcode payload" using assms by (auto simp: wrote_def)
  then have ok: "\<forall>x \<in> set fs. case x of (m, opcode, payload) \<Rightarrow> frame_ok m opcode payload" by auto
  have len: "length fs < length ms + 1" using fs(2) by auto
  obtain ys where ys: "read_until readFrame (length ms + 1) (wire_all fs) = (ys, Some (ReadFrameHeader IO_EOF))"
    "list_all2 (\<lambda>(m, opcode, payload) y. y = (opcode, payload)) fs ys"
    using frames.read_until_enc[OF ok len] unfolding wire_all_def by blast
  have "ys = map snd fs" using ys(2) by (intro nth_equalityI) (auto simp: list_all2_conv_all_nth split_beta prod_eq_iff)
  with ys(1) fs(1,2) show ?thesis by auto
qed

lemma drawn: "can_write s \<Longrightarrow> draw 4 (gs_rand s) = (msk, rand) \<Longrightarrow> length msk = 4 \<and> (\<forall>bs \<in> set rand. length bs = 4)"
  by (cases "gs_rand s") (auto simp: draw_def can_write_def)

lemma writeTextFrame_wrote:
  assumes "can_write s" "length payload \<le> maxAlloc"
  obtains s' where "writeTextFrame payload s = (None, s')" "wrote s [(opText, payload)] s'" "can_write s'" "gs_in s' = gs_in s"
proof -
  obtain msk rand where d: "draw 4 (gs_rand s) = (msk, rand)" by fastforce
  note k = drawn[OF assms(1) d]
  let ?s = "s\<lparr>gs_rand := rand, gs_out := gs_out s @ wire_frame (Some msk) opText payload\<rparr>"
  have "writeTextFrame payload s = (None, ?s)"
    using assms(1) by (simp add: writeTextFrame_def d conn_Write_def buildTextFrame_wire can_write_def)
  moreover have "wrote s [(opText, payload)] ?s"
    using k assms(2) by (auto simp: wrote_def wire_all_def frame_ok_def intro!: exI[of _ "[(Some msk, opText, payload)]"])
  moreover have "can_write ?s" using k assms(1) by (simp add: can_write_def)
  ultimately show thesis by (rule that) simp
qed

lemma write_pong_wrote:
  assumes "can_write s" "length payload \<le> 125"
  shows "wrote s [(opPong, payload)] (write_pong payload s)" "can_write (write_pong payload s)"
proof -
  obtain msk rand where d: "draw 4 (gs_rand s) = (msk, rand)" by fastforce
  note k = drawn[OF assms(1) d]
  have e: "write_pong payload s = s\<lparr>gs_rand := rand, gs_out := gs_out s @ wire_frame (Some msk) opPong payload\<rparr>"
    using assms by (simp add: write_pong_def d conn_Write_def buildPongFrame_wire can_write_def)
  show "wrote s [(opPong, payload)] (write_pong payload s)"
    unfolding e using k assms(2)
    by (auto simp: wrote_def wire_all_def frame_ok_def maxAlloc_def intro!: exI[of _ "[(Some msk, opPong, payload)]"])
  show "can_write (write_pong payload s)" unfolding e using k assms(1) by (simp add: can_write_def)
qed

section \<open>What comes in\<close>

text \<open>The frames of a server before a message that matters: pings, as long as the protocol allows, and pongs; later also texts with
  messages of other types.\<close>

definition keep_alive :: "string option \<times> 8 word \<times> string \<Rightarrow> bool" where
  "keep_alive f = (case f of (m, opcode, payload) \<Rightarrow>
     frame_ok m opcode payload \<and> (opcode = opPing \<and> length payload \<le> 125 \<or> opcode = opPong))"

definition ignorable :: "gql_json \<Rightarrow> string option \<times> 8 word \<times> string \<Rightarrow> bool" where
  "ignorable js f = (case f of (m, opcode, payload) \<Rightarrow>
     frame_ok m opcode payload \<and> opcode = opText
     \<and> (\<exists>msg. gj_read_message js payload = Some msg \<and> sm_Type msg \<notin> {''next'', ''error'', ''complete''}))"

definition pongs :: "(string option \<times> 8 word \<times> string) list \<Rightarrow> (8 word \<times> string) list" where
  "pongs fs = map (Pair opPong) (pings fs)"

lemma one_frame_wire: "frame_ok m opcode payload \<Longrightarrow> one_frame (wire_frame m opcode payload @ r) = (Inr (opcode, payload), r)"
  by (simp add: one_frame_agrees readFrame_wire)

lemma readTextFrame_text:
  "gs_in s = wire_frame m opText text @ r \<Longrightarrow> frame_ok m opText text \<Longrightarrow> readTextFrame s = (Inr text, s\<lparr>gs_in := r\<rparr>)"
  by (subst readTextFrame.simps) (simp add: one_frame_wire opText_def)

text \<open>One frame of the keep-alive is read and answered on the way.\<close>

lemma keep_alive_step:
  assumes "gs_in s = wire_all (f # fs) @ r" "keep_alive f" "can_write s"
  obtains s' where "readTextFrame s = readTextFrame s'" "gs_in s' = wire_all fs @ r" "wrote s (pongs [f]) s'" "can_write s'"
proof -
  obtain m opcode payload where f: "f = (m, opcode, payload)" by (cases f)
  have ok: "frame_ok m opcode payload" "opcode = opPing \<and> length payload \<le> 125 \<or> opcode = opPong"
    using assms(2) by (auto simp: keep_alive_def f)
  let ?s = "s\<lparr>gs_in := wire_all fs @ r\<rparr>"
  have fr: "one_frame (gs_in s) = (Inr (opcode, payload), wire_all fs @ r)"
    using assms(1) one_frame_wire[OF ok(1)] by (simp add: wire_all_def f)
  have w: "can_write ?s" using assms(3) by (simp add: can_write_def)
  show thesis
  proof (cases "opcode = opPing")
    case True
    with fr have "readTextFrame s = readTextFrame (write_pong payload ?s)"
      by (subst readTextFrame.simps) (simp add: opPing_def)
    moreover have "length payload \<le> 125" using ok(2) True by (auto simp: opPing_def opPong_def)
    moreover have "wrote s (pongs [f]) (write_pong payload ?s)"
      using write_pong_wrote(1)[OF w \<open>length payload \<le> 125\<close>] True by (simp add: wrote_def pongs_def pings_def f)
    ultimately show thesis using that[of "write_pong payload ?s"] write_pong_wrote(2)[OF w] by simp
  next
    case False
    then have p: "opcode = opPong" using ok(2) by blast
    with fr have "readTextFrame s = readTextFrame ?s" by (subst readTextFrame.simps) (simp add: opPong_def)
    moreover have "wrote s (pongs [f]) ?s" using False by (simp add: pongs_def pings_def f wrote_nothing)
    ultimately show thesis using that[of ?s] w by simp
  qed
qed

lemma pongs_Cons: "pongs (f # fs) = pongs [f] @ pongs fs"
  by (simp add: pongs_def pings_def)

lemma readTextFrame_after:
  "gs_in s = wire_all fs @ wire_frame m opText text @ r \<Longrightarrow> \<forall>f \<in> set fs. keep_alive f \<Longrightarrow> frame_ok m opText text \<Longrightarrow> can_write s \<Longrightarrow>
   \<exists>s'. readTextFrame s = (Inr text, s') \<and> gs_in s' = r \<and> wrote s (pongs fs) s' \<and> can_write s'"
proof (induction fs arbitrary: s)
  case Nil
  then show ?case
    using readTextFrame_text[of s m "text" r] wrote_nothing[of "s\<lparr>gs_in := r\<rparr>" s]
    by (simp add: wire_all_def pongs_def pings_def can_write_def)
next
  case (Cons f fs)
  obtain s1 where s1: "readTextFrame s = readTextFrame s1" "gs_in s1 = wire_all fs @ wire_frame m opText text @ r"
    "wrote s (pongs [f]) s1" "can_write s1"
    using keep_alive_step[OF Cons.prems(1) _ Cons.prems(4)] Cons.prems(2) by auto
  from Cons.IH[OF s1(2) _ Cons.prems(3) s1(4)] Cons.prems(2) obtain s' where
    "readTextFrame s1 = (Inr text, s')" "gs_in s' = r" "wrote s1 (pongs fs) s'" "can_write s'" by auto
  with s1 wrote_append[OF s1(3)] show ?case by (auto simp: pongs_Cons[of f fs])
qed

section \<open>The subscription\<close>

text \<open>Subscribing. When the server accepts the upgrade and then, after any pings and pongs, acknowledges the connection,
  \<open>Subscribe\<close> succeeds: it has sent the upgrade request, then, in masked frames that a WebSocket reader takes apart again, the
  message \<open>connection_init\<close>, a pong for every ping with its payload, and the message \<open>subscribe\<close> with the request,
  and what the server has sent after the acknowledgement is still to be read.\<close>

theorem Subscribe_session:
  assumes "gn_parse net endpoint = Inr u" "subscribe_host u = Some (host, useTLS)" "gn_dial net host = Inr (incoming, False)"
    and "gn_response net incoming = Inr (101, wire_all fs @ wire_frame m opText data @ rest)"
    and "\<forall>f \<in> set fs. keep_alive f" "frame_ok m opText data"
    and "gj_read_message js data = Some ack" "sm_Type ack = ''connection_ack''"
    and "\<forall>bs \<in> set (tl rand). length bs = 4"
    and "length (gj_message js init_message) \<le> maxAlloc" "length (gj_message js (subscribe_message js req)) \<le> maxAlloc"
  shows "\<exists>s bytes. Subscribe net js (\<lambda>_. None) rand endpoint req headers = Inr s \<and> gs_in s = rest
    \<and> gs_out s = upgrade_request u (b64_encode (fst (draw 16 rand))) headers @ bytes
    \<and> read_until readFrame (length (pongs fs) + 3) bytes =
        ([(opText, gj_message js init_message)] @ pongs fs @ [(opText, gj_message js (subscribe_message js req))],
         Some (ReadFrameHeader IO_EOF))"
proof -
  obtain keyBytes masks where d: "draw 16 rand = (keyBytes, masks)" by fastforce
  then have masks: "\<forall>bs \<in> set masks. length bs = 4" using assms(9) by (cases rand) (auto simp: draw_def)
  let ?rq = "upgrade_request u (b64_encode keyBytes) headers"
  let ?s = "\<lparr>gs_in = wire_all fs @ wire_frame m opText data @ rest, gs_out = ?rq, gs_rand = masks, gs_shut = False, gs_down = False,
    gs_closed = False\<rparr>"
  have w: "can_write ?s" using masks by (simp add: can_write_def)
  obtain s1 where s1: "writeJSON js init_message ?s = (None, s1)" "wrote ?s [(opText, gj_message js init_message)] s1" "can_write s1"
    "gs_in s1 = gs_in ?s"
    using writeTextFrame_wrote[OF w assms(10)] unfolding writeJSON_def by blast
  obtain s2 where s2: "readTextFrame s1 = (Inr data, s2)" "gs_in s2 = rest" "wrote s1 (pongs fs) s2" "can_write s2"
    using readTextFrame_after[OF _ assms(5,6) s1(3), of rest] s1(4) by auto
  obtain s3 where s3: "writeJSON js (subscribe_message js req) s2 = (None, s3)"
    "wrote s2 [(opText, gj_message js (subscribe_message js req))] s3" "gs_in s3 = gs_in s2"
    using writeTextFrame_wrote[OF s2(4) assms(11)] unfolding writeJSON_def by blast
  have "sub_handshake js (\<lambda>_. None) req ?s = Inr s3"
    using s1(1) s2(1) s3(1) assms(7,8) by (simp add: sub_handshake_def readMessage_def)
  then have "Subscribe net js (\<lambda>_. None) rand endpoint req headers = Inr s3"
    using assms(1-4) d by (simp add: Subscribe_def conn_Write_def)
  moreover from wrote_append[OF s1(2) wrote_append[OF s2(3) s3(2)], THEN wrote_read] obtain bytes where
    "gs_out s3 = ?rq @ bytes" "read_until readFrame (length (pongs fs) + 3) bytes =
        ([(opText, gj_message js init_message)] @ pongs fs @ [(opText, gj_message js (subscribe_message js req))],
         Some (ReadFrameHeader IO_EOF))"
    by (auto simp: numeral_3_eq_3)
  ultimately show ?thesis using s3(3) s2(2) d by auto
qed

text \<open>Calling \<open>Next\<close> until it fails, at most \<open>n\<close> times.\<close>

fun nexts :: "gql_json \<Rightarrow> nat \<Rightarrow> sub_conn \<Rightarrow> (sub_error + gql_response) list \<times> sub_conn" where
  "nexts js 0 s = ([], s)"
| "nexts js (Suc n) s =
     (case Next js (\<lambda>_. None) s of
        (Inl e, s1) \<Rightarrow> ([Inl e], s1)
      | (Inr r, s1) \<Rightarrow> (case nexts js n s1 of (rs, s2) \<Rightarrow> (Inr r # rs, s2)))"

text \<open>A text with an event, and the response it stands for.\<close>

definition event_of :: "gql_json \<Rightarrow> string \<Rightarrow> gql_response \<Rightarrow> bool" where
  "event_of js data resp \<longleftrightarrow>
     (\<exists>msg. gj_read_message js data = Some msg \<and>
       (sm_Type msg = ''next'' \<and> gj_read_response js (sm_Payload msg) = Some resp
        \<or> sm_Type msg = ''error'' \<and> gr_Data resp = GNil \<and> gj_read_errors js (sm_Payload msg) = Some (gr_Errors resp)))"

definition completes :: "gql_json \<Rightarrow> string \<Rightarrow> bool" where
  "completes js data \<longleftrightarrow> (\<exists>msg. gj_read_message js data = Some msg \<and> sm_Type msg = ''complete'')"

type_synonym frame = "string option \<times> 8 word \<times> string"

definition quiet :: "gql_json \<Rightarrow> frame list \<Rightarrow> bool" where
  "quiet js fs \<longleftrightarrow> (\<forall>f \<in> set fs. keep_alive f \<or> ignorable js f)"

definition events_wire :: "(frame list \<times> string option \<times> string) list \<Rightarrow> string" where
  "events_wire bs = concat (map (\<lambda>(fs, m, data). wire_all fs @ wire_frame m opText data) bs)"

lemma Next_same_read: "readTextFrame s = readTextFrame s' \<Longrightarrow> Next js (\<lambda>_. None) s = Next js (\<lambda>_. None) s'"
  by (subst (1 2) Next.simps) (simp add: readMessage_def)

lemma Next_past:
  "gs_in s = wire_all fs @ r \<Longrightarrow> quiet js fs \<Longrightarrow> can_write s \<Longrightarrow>
   \<exists>s'. Next js (\<lambda>_. None) s = Next js (\<lambda>_. None) s' \<and> gs_in s' = r \<and> wrote s (pongs fs) s' \<and> can_write s'"
proof (induction fs arbitrary: s)
  case Nil
  then show ?case by (auto simp: wire_all_def pongs_def pings_def wrote_nothing intro!: exI[of _ s])
next
  case (Cons f fs)
  obtain s1 where s1: "Next js (\<lambda>_. None) s = Next js (\<lambda>_. None) s1" "gs_in s1 = wire_all fs @ r" "wrote s (pongs [f]) s1" "can_write s1"
  proof (cases "keep_alive f")
    case True
    from keep_alive_step[OF Cons.prems(1) True Cons.prems(3)] Next_same_read[of s _ js] that show thesis by metis
  next
    case False
    obtain m opcode payload where f: "f = (m, opcode, payload)" by (cases f)
    then obtain msg where i: "frame_ok m opText payload" "opcode = opText" "gj_read_message js payload = Some msg"
      "sm_Type msg \<notin> {''next'', ''error'', ''complete''}" using Cons.prems(2) False by (auto simp: quiet_def ignorable_def)
    let ?s = "s\<lparr>gs_in := wire_all fs @ r\<rparr>"
    have "readTextFrame s = (Inr payload, ?s)"
      using readTextFrame_text[OF _ i(1), of s "wire_all fs @ r"] Cons.prems(1) by (simp add: f i(2) wire_all_def)
    then have "Next js (\<lambda>_. None) s = Next js (\<lambda>_. None) ?s"
      using i(3,4) by (subst Next.simps) (simp add: readMessage_def)
    moreover have "pongs [f] = []" by (simp add: pongs_def pings_def f i(2) opText_def opPing_def)
    ultimately show thesis using that[of ?s] Cons.prems(3) by (simp add: wrote_nothing can_write_def)
  qed
  have "quiet js fs" using Cons.prems(2) by (simp add: quiet_def)
  from Cons.IH[OF s1(2) this s1(4)] s1(1,3) wrote_append show ?case by (metis pongs_Cons)
qed

lemma Next_message:
  assumes "gs_in s = wire_all fs @ wire_frame m opText data @ r" "quiet js fs" "can_write s" "frame_ok m opText data"
    and "gj_read_message js data = Some msg"
  obtains s' where "gs_in s' = r" "wrote s (pongs fs) s'" "can_write s'"
    "sm_Type msg = ''complete'' \<Longrightarrow> Next js (\<lambda>_. None) s = (Inl SubscriptionCompleted, s')"
    "\<And>resp. event_of js data resp \<Longrightarrow> Next js (\<lambda>_. None) s = (Inr resp, s')"
proof -
  obtain s1 where s1: "Next js (\<lambda>_. None) s = Next js (\<lambda>_. None) s1" "gs_in s1 = wire_frame m opText data @ r" "wrote s (pongs fs) s1"
    "can_write s1" using Next_past[OF assms(1-3)] by blast
  let ?s = "s1\<lparr>gs_in := r\<rparr>"
  have rd: "readMessage js (\<lambda>_. None) s1 = (Inr msg, ?s)"
    using readTextFrame_text[OF s1(2) assms(4)] assms(5) by (simp add: readMessage_def)
  show thesis
  proof (rule that[of ?s])
    show "wrote s (pongs fs) ?s" using s1(3) by (simp add: wrote_def)
    show "can_write ?s" using s1(4) by (simp add: can_write_def)
    show "sm_Type msg = ''complete'' \<Longrightarrow> Next js (\<lambda>_. None) s = (Inl SubscriptionCompleted, ?s)"
      unfolding s1(1) by (subst Next.simps) (simp add: rd)
    show "Next js (\<lambda>_. None) s = (Inr resp, ?s)" if "event_of js data resp" for resp
      unfolding s1(1) using that assms(5) by (subst Next.simps) (auto simp: rd event_of_def)
  qed simp
qed

text \<open>The events of a subscription. The server sends events, then completes; between these come pings, pongs and messages of other
  types, in any number. Calling \<open>Next\<close> returns the responses of the events in their order and then the error that the
  subscription is complete; meanwhile every ping is answered with its payload, and nothing else is sent.\<close>

theorem subscription_events:
  assumes "gs_in s = events_wire bs @ wire_all fs @ wire_frame m opText final @ rest" "can_write s"
    and "list_all2 (\<lambda>(fs, m, data) resp. quiet js fs \<and> frame_ok m opText data \<and> event_of js data resp) bs resps"
    and "quiet js fs" "frame_ok m opText final" "completes js final"
  shows "\<exists>s'. nexts js (length bs + 1) s = (map Inr resps @ [Inl SubscriptionCompleted], s') \<and> gs_in s' = rest
    \<and> wrote s (concat (map (\<lambda>(fs, m, data). pongs fs) bs) @ pongs fs) s'"
  using assms(1-3)
proof (induction bs arbitrary: s resps)
  case Nil
  obtain msg where msg: "gj_read_message js final = Some msg" "sm_Type msg = ''complete''" using assms(6) by (auto simp: completes_def)
  have "gs_in s = wire_all fs @ wire_frame m opText final @ rest" using Nil.prems(1) by (simp add: events_wire_def)
  from Next_message[OF this assms(4) Nil.prems(2) assms(5) msg(1)] msg(2) obtain s' where
    "Next js (\<lambda>_. None) s = (Inl SubscriptionCompleted, s')" "gs_in s' = rest" "wrote s (pongs fs) s'" by metis
  then show ?case using Nil.prems(3) by simp
next
  case (Cons b bs)
  obtain gs n data where b: "b = (gs, n, data)" by (cases b)
  from Cons.prems(3) obtain resp resps' where r: "resps = resp # resps'" "quiet js gs" "frame_ok n opText data" "event_of js data resp"
    "list_all2 (\<lambda>(fs, m, data) resp. quiet js fs \<and> frame_ok m opText data \<and> event_of js data resp) bs resps'"
    by (auto simp: b list_all2_Cons1)
  obtain msg where msg: "gj_read_message js data = Some msg" using r(4) by (auto simp: event_of_def)
  have "gs_in s = wire_all gs @ wire_frame n opText data @ events_wire bs @ wire_all fs @ wire_frame m opText final @ rest"
    using Cons.prems(1) by (simp add: events_wire_def b)
  from Next_message[OF this r(2) Cons.prems(2) r(3) msg] r(4) obtain s1 where s1: "Next js (\<lambda>_. None) s = (Inr resp, s1)"
    "gs_in s1 = events_wire bs @ wire_all fs @ wire_frame m opText final @ rest" "wrote s (pongs gs) s1" "can_write s1" by metis
  from Cons.IH[OF s1(2,4) r(5)] obtain s' where s': "nexts js (length bs + 1) s1 = (map Inr resps' @ [Inl SubscriptionCompleted], s')"
    "gs_in s' = rest" "wrote s1 (concat (map (\<lambda>(fs, m, data). pongs fs) bs) @ pongs fs) s'" by blast
  have "concat (map (\<lambda>(fs, m, data). pongs fs) (b # bs)) @ pongs fs = pongs gs @ concat (map (\<lambda>(fs, m, data). pongs fs) bs) @ pongs fs"
    by (simp add: b)
  moreover have "nexts js (length (b # bs) + 1) s = (map Inr resps @ [Inl SubscriptionCompleted], s')"
    using s1(1) s'(1) by (simp add: r(1))
  ultimately show ?case using s'(2) wrote_append[OF s1(3) s'(3)] by metis
qed

text \<open>A library of JSON functions that only knows the texts of a small session, and its server.\<close>

definition demo_json :: gql_json where
  "demo_json = \<lparr>gj_message = sm_Type,
     gj_read_message = (\<lambda>t. if t = [] then None else Some \<lparr>sm_ID = [], sm_Type = t, sm_Payload = ''data''\<rparr>),
     gj_request = gq_Query,
     gj_read_response = (\<lambda>t. Some \<lparr>gr_Data = GStr t, gr_Errors = []\<rparr>), gj_read_errors = (\<lambda>t. None)\<rparr>"

definition demo_frames :: "frame list" where
  "demo_frames = [(None, opPing, ''p''), (None, opPong, [])]"

definition demo_net :: gql_net where
  "demo_net = \<lparr>gn_parse = (\<lambda>_. Inr \<lparr>up_Scheme = ''ws'', up_Host = ''h'', up_RequestURI = ''/''\<rparr>), gn_dial = (\<lambda>h. Inr ([], False)),
     gn_response = (\<lambda>_. Inr (101, wire_all demo_frames @ wire_frame None opText ''connection_ack'' @ ''rest''))\<rparr>"

lemma demo_keep_alive: "\<forall>f \<in> set demo_frames. keep_alive f"
  by (simp add: demo_frames_def keep_alive_def frame_ok_def maxAlloc_def)

lemma demo_pongs: "pongs demo_frames = [(opPong, ''p'')]"
  by (simp add: pongs_def pings_def demo_frames_def) (simp add: opPing_def opPong_def)

theorem Subscribe_session_witness:
  "\<exists>s bytes. Subscribe demo_net demo_json (\<lambda>_. None) [''k''] ''ws://h/'' \<lparr>gq_Query = ''q'', gq_Variables = None, gq_OperationName = []\<rparr> [] = Inr s
    \<and> gs_in s = ''rest'' \<and> read_until readFrame 4 bytes = ([(opText, ''connection_init''), (opPong, ''p''), (opText, ''subscribe'')],
        Some (ReadFrameHeader IO_EOF))"
proof -
  let ?u = "\<lparr>up_Scheme = ''ws'', up_Host = ''h'', up_RequestURI = ''/''\<rparr>" and ?req = "\<lparr>gq_Query = ''q'', gq_Variables = None, gq_OperationName = []\<rparr>"
  have "subscribe_host ?u = Some (''h:80'', False)" by (simp add: subscribe_host_def contains_def has_prefix_def)
  moreover have "frame_ok None opText ''connection_ack''" by (simp add: frame_ok_def maxAlloc_def)
  ultimately have "\<exists>s bytes. Subscribe demo_net demo_json (\<lambda>_. None) [''k''] ''ws://h/'' ?req [] = Inr s \<and> gs_in s = ''rest''
      \<and> gs_out s = upgrade_request ?u (b64_encode (fst (draw 16 [''k'']))) [] @ bytes
      \<and> read_until readFrame (length (pongs demo_frames) + 3) bytes =
          ([(opText, gj_message demo_json init_message)] @ pongs demo_frames @ [(opText, gj_message demo_json (subscribe_message demo_json ?req))],
           Some (ReadFrameHeader IO_EOF))"
    using demo_keep_alive
    by (intro Subscribe_session[where incoming = "[]" and host = "''h:80''" and useTLS = False
          and ack = "\<lparr>sm_ID = [], sm_Type = ''connection_ack'', sm_Payload = ''data''\<rparr>"])
      (auto simp: demo_net_def demo_json_def init_message_def subscribe_message_def maxAlloc_def)
  then show ?thesis by (auto simp: demo_pongs demo_json_def init_message_def subscribe_message_def eval_nat_numeral)
qed

definition demo_sub :: sub_conn where
  "demo_sub = \<lparr>gs_in = events_wire [(demo_frames, None, ''next'')] @ wire_all [(None, opText, ''ka'')] @ wire_frame None opText ''complete'' @ [],
     gs_out = [], gs_rand = [], gs_shut = False, gs_down = False, gs_closed = False\<rparr>"

theorem subscription_events_witness:
  "\<exists>s'. nexts demo_json 2 demo_sub = ([Inr \<lparr>gr_Data = GStr ''data'', gr_Errors = []\<rparr>, Inl SubscriptionCompleted], s') \<and> gs_in s' = []
     \<and> wrote demo_sub [(opPong, ''p'')] s'"
proof -
  let ?resp = "\<lparr>gr_Data = GStr ''data'', gr_Errors = []\<rparr>"
  have q: "quiet demo_json demo_frames" "quiet demo_json [(None, opText, ''ka'')]"
    using demo_keep_alive by (simp_all add: quiet_def ignorable_def frame_ok_def demo_json_def maxAlloc_def)
  have ok: "frame_ok None opText ''next''" "frame_ok None opText ''complete''" by (simp_all add: frame_ok_def maxAlloc_def)
  have ev: "event_of demo_json ''next'' ?resp" "completes demo_json ''complete''"
    by (simp_all add: event_of_def completes_def demo_json_def)
  have "list_all2 (\<lambda>(fs, m, data) resp. quiet demo_json fs \<and> frame_ok m opText data \<and> event_of demo_json data resp)
      [(demo_frames, None, ''next'')] [?resp]" using q ok ev by simp
  moreover have "can_write demo_sub" by (simp add: can_write_def demo_sub_def)
  moreover have "gs_in demo_sub = events_wire [(demo_frames, None, ''next'')] @ wire_all [(None, opText, ''ka'')]
      @ wire_frame None opText ''complete'' @ []" by (simp add: demo_sub_def)
  moreover have "pongs [(None, opText, ''ka'')] = []" by (simp add: pongs_def pings_def) (simp add: opPing_def opText_def)
  ultimately show ?thesis
    using subscription_events[OF _ _ _ q(2) ok(2) ev(2), of demo_sub "[(demo_frames, None, ''next'')]" "[]" "[?resp]"]
    by (simp add: demo_pongs numeral_2_eq_2)
qed

end
