(* ===== verification/Graphql_Schema.thy ===== *)
theory Graphql_Schema
  imports Graphql_Subscription
begin

text \<open>
  connector/http/graphql: query.go, graphql.go and introspection.go. The HTTP client is a parameter that answers a request with a
  body or an error, as is encoding/json.
\<close>

section \<open>Requests\<close>

datatype request_error = MissingQuery | QueryNotString gov | QueryEmpty | VariablesNotMap gov | OperationNotString gov

definition BuildRequest :: "(string \<times> gov) list \<Rightarrow> request_error + gql_request" where
  "BuildRequest params =
     (case map_of params ''query'' of
        None \<Rightarrow> Inl MissingQuery
      | Some query \<Rightarrow>
          (case query of
             GStr queryStr \<Rightarrow>
               (if queryStr = [] then Inl QueryEmpty
                else (let req = \<lparr>gq_Query = queryStr, gq_Variables = None, gq_OperationName = []\<rparr> in
                  case (case map_of params ''variables'' of
                          None \<Rightarrow> Inr req
                        | Some (GMap vars) \<Rightarrow> Inr (req\<lparr>gq_Variables := Some vars\<rparr>)
                        | Some v \<Rightarrow> Inl (VariablesNotMap v)) of
                    Inl e \<Rightarrow> Inl e
                  | Inr req1 \<Rightarrow>
                      (case map_of params ''operation_name'' of
                         None \<Rightarrow> Inr req1
                       | Some (GStr name) \<Rightarrow> Inr (req1\<lparr>gq_OperationName := name\<rparr>)
                       | Some v \<Rightarrow> Inl (OperationNotString v))))
           | _ \<Rightarrow> Inl (QueryNotString query)))"

text \<open>The client: a request that cannot be made, an error of the exchange or of reading the body, or the body.\<close>

datatype http_error = CreatingRequest string | ExecutingRequest string | ReadingBody string | DecodingResponse

record http_post =
  hp_URL :: string
  hp_Header :: "(string \<times> string) list"
  hp_Body :: string

definition graphql_Execute ::
  "(string \<Rightarrow> string) \<Rightarrow> (http_post \<Rightarrow> http_error + string) \<Rightarrow> gql_json \<Rightarrow> string \<Rightarrow> gql_request \<Rightarrow> (string \<times> string) list
    \<Rightarrow> http_error + gql_response" where
  "graphql_Execute canonical client js endpoint req headers =
     (let header = fold (\<lambda>(k, v). AList.update (canonical k) v) headers
            [(''Content-Type'', ''application/json''), (''Accept'', ''application/json'')]
      in case client \<lparr>hp_URL = endpoint, hp_Header = header, hp_Body = gj_request js req\<rparr> of
           Inl e \<Rightarrow> Inl e
         | Inr respBody \<Rightarrow> (case gj_read_response js respBody of None \<Rightarrow> Inl DecodingResponse | Some resp \<Rightarrow> Inr resp))"

section \<open>Introspection\<close>

fun lines_text :: "string list \<Rightarrow> string" where
  "lines_text [] = []"
| "lines_text [l] = l"
| "lines_text (l # ls) = l @ [CHR 0x0A] @ lines_text ls"

definition IntrospectionQuery :: string where
  "IntrospectionQuery = lines_text
     [''{'',
      ''  __schema {'',
      ''    queryType { name }'',
      ''    mutationType { name }'',
      ''    subscriptionType { name }'',
      ''    types {'',
      ''      name'',
      ''      kind'',
      ''      fields(includeDeprecated: true) {'',
      ''        name'',
      ''        type {'',
      ''          name'',
      ''          kind'',
      ''          ofType {'',
      ''            name'',
      ''            kind'',
      ''          }'',
      ''        }'',
      ''      }'',
      ''    }'',
      ''  }'',
      ''}'']"

record schema_field =
  sf_Name :: string
  sf_Type :: string

record schema_type =
  sy_Name :: string
  sy_Kind :: string
  sy_Fields :: "schema_field list"

record schema =
  sc_Types :: "schema_type list"
  sc_QueryType :: string
  sc_MutationType :: string
  sc_SubscriptionType :: string

definition string_at :: "(string \<times> gov) list \<Rightarrow> string \<Rightarrow> string" where
  "string_at m k = (case map_of m k of Some (GStr s) \<Rightarrow> s | _ \<Rightarrow> [])"

definition map_at :: "(string \<times> gov) list \<Rightarrow> string \<Rightarrow> (string \<times> gov) list option" where
  "map_at m k = (case map_of m k of Some (GMap x) \<Rightarrow> Some x | _ \<Rightarrow> None)"

definition list_at :: "(string \<times> gov) list \<Rightarrow> string \<Rightarrow> gov list option" where
  "list_at m k = (case map_of m k of Some (GList x) \<Rightarrow> Some x | _ \<Rightarrow> None)"

lemma map_at_smaller: "map_at m k = Some x \<Longrightarrow> size_list (size_prod (\<lambda>_. 0) size) x < size_list (size_prod (\<lambda>_. 0) size) m"
proof (induction m)
  case (Cons p m)
  then show ?case by (cases p) (fastforce simp: map_at_def split: if_splits gov.splits)
qed (simp add: map_at_def)

function extractTypeName :: "(string \<times> gov) list \<Rightarrow> string" where
  "extractTypeName typeInfo =
     (let name = string_at typeInfo ''name''; kind = string_at typeInfo ''kind'' in
      if name \<noteq> [] then name
      else (case map_at typeInfo ''ofType'' of
          Some ofType \<Rightarrow>
            (let inner = extractTypeName ofType in
             if kind = ''NON_NULL'' then inner @ ''!''
             else if kind = ''LIST'' then ''['' @ inner @ '']''
             else inner)
        | None \<Rightarrow> kind))"
  by pat_completeness auto
termination
  by (relation "measure (size_list (size_prod (\<lambda>_. 0) size))") (auto dest: map_at_smaller)

declare extractTypeName.simps [simp del]

definition root_name :: "(string \<times> gov) list \<Rightarrow> string \<Rightarrow> string" where
  "root_name schemaMap k = (case map_at schemaMap k of Some t \<Rightarrow> string_at t ''name'' | None \<Rightarrow> [])"

definition parse_field :: "gov \<Rightarrow> schema_field option" where
  "parse_field f =
     (case f of
        GMap fieldMap \<Rightarrow>
          Some \<lparr>sf_Name = string_at fieldMap ''name'',
            sf_Type = (case map_at fieldMap ''type'' of Some typeInfo \<Rightarrow> extractTypeName typeInfo | None \<Rightarrow> [])\<rparr>
      | _ \<Rightarrow> None)"

definition parse_type :: "gov \<Rightarrow> schema_type option" where
  "parse_type t =
     (case t of
        GMap typeMap \<Rightarrow>
          Some \<lparr>sy_Name = string_at typeMap ''name'', sy_Kind = string_at typeMap ''kind'',
            sy_Fields = (case list_at typeMap ''fields'' of Some fs \<Rightarrow> List.map_filter parse_field fs | None \<Rightarrow> [])\<rparr>
      | _ \<Rightarrow> None)"

datatype introspection_error = RequestFailed http_error | ReturnedErrors string | DataType gov | MissingSchema

definition parseIntrospectionResponse :: "gql_response \<Rightarrow> introspection_error + schema" where
  "parseIntrospectionResponse resp =
     (case gr_Data resp of
        GMap dataMap \<Rightarrow>
          (case map_at dataMap ''__schema'' of
             None \<Rightarrow> Inl MissingSchema
           | Some schemaMap \<Rightarrow>
               Inr \<lparr>sc_Types = (case list_at schemaMap ''types'' of Some types \<Rightarrow> List.map_filter parse_type types | None \<Rightarrow> []),
                 sc_QueryType = root_name schemaMap ''queryType'', sc_MutationType = root_name schemaMap ''mutationType'',
                 sc_SubscriptionType = root_name schemaMap ''subscriptionType''\<rparr>)
      | _ \<Rightarrow> Inl (DataType (gr_Data resp)))"

definition Introspect ::
  "(string \<Rightarrow> string) \<Rightarrow> (http_post \<Rightarrow> http_error + string) \<Rightarrow> gql_json \<Rightarrow> string \<Rightarrow> (string \<times> string) list
    \<Rightarrow> introspection_error + schema" where
  "Introspect canonical client js endpoint headers =
     (case graphql_Execute canonical client js endpoint \<lparr>gq_Query = IntrospectionQuery, gq_Variables = None, gq_OperationName = []\<rparr> headers of
        Inl e \<Rightarrow> Inl (RequestFailed e)
      | Inr resp \<Rightarrow>
          (case gr_Errors resp of
             err # _ \<Rightarrow> Inl (ReturnedErrors (ge_Message err))
           | [] \<Rightarrow> parseIntrospectionResponse resp))"

section \<open>What a server answers\<close>

text \<open>Types of GraphQL, their spelling, and how introspection tells them: wrappers have no name, and \<open>ofType\<close> is there as deep as
  the query asks for it.\<close>

datatype gql_type = Named string | NonNull gql_type | ListOf gql_type

fun spelled :: "gql_type \<Rightarrow> string" where
  "spelled (Named n) = n"
| "spelled (NonNull t) = spelled t @ ''!''"
| "spelled (ListOf t) = ''['' @ spelled t @ '']''"

fun wrappers :: "gql_type \<Rightarrow> nat" where
  "wrappers (Named n) = 0"
| "wrappers (NonNull t) = wrappers t + 1"
| "wrappers (ListOf t) = wrappers t + 1"

fun named :: "gql_type \<Rightarrow> bool" where
  "named (Named n) = (n \<noteq> [])"
| "named (NonNull t) = named t"
| "named (ListOf t) = named t"

fun introspected :: "nat \<Rightarrow> gql_type \<Rightarrow> (string \<times> gov) list" where
  "introspected d (Named n) = [(''name'', GStr n), (''kind'', GStr ''SCALAR''), (''ofType'', GNil)]"
| "introspected d (NonNull t) =
     [(''name'', GNil), (''kind'', GStr ''NON_NULL'')] @
     (case d of 0 \<Rightarrow> [] | Suc d' \<Rightarrow> [(''ofType'', GMap (introspected d' t))])"
| "introspected d (ListOf t) =
     [(''name'', GNil), (''kind'', GStr ''LIST'')] @
     (case d of 0 \<Rightarrow> [] | Suc d' \<Rightarrow> [(''ofType'', GMap (introspected d' t))])"

record server_type =
  sv_Name :: string
  sv_Kind :: string
  sv_Fields :: "(string \<times> gql_type) list option"

record server_schema =
  ss_Types :: "server_type list"
  ss_Query :: string
  ss_Mutation :: "string option"
  ss_Subscription :: "string option"

definition field_value :: "nat \<Rightarrow> string \<times> gql_type \<Rightarrow> gov" where
  "field_value d f = GMap [(''name'', GStr (fst f)), (''type'', GMap (introspected d (snd f)))]"

definition type_value :: "nat \<Rightarrow> server_type \<Rightarrow> gov" where
  "type_value d t =
     GMap [(''name'', GStr (sv_Name t)), (''kind'', GStr (sv_Kind t)),
       (''fields'', case sv_Fields t of None \<Rightarrow> GNil | Some fs \<Rightarrow> GList (map (field_value d) fs))]"

definition root_value :: "string option \<Rightarrow> gov" where
  "root_value r = (case r of None \<Rightarrow> GNil | Some n \<Rightarrow> GMap [(''name'', GStr n)])"

definition introspection_response :: "nat \<Rightarrow> server_schema \<Rightarrow> gql_response" where
  "introspection_response d s =
     \<lparr>gr_Data = GMap [(''__schema'', GMap
        [(''queryType'', root_value (Some (ss_Query s))), (''mutationType'', root_value (ss_Mutation s)),
         (''subscriptionType'', root_value (ss_Subscription s)), (''types'', GList (map (type_value d) (ss_Types s)))])],
      gr_Errors = []\<rparr>"

definition schema_of :: "server_schema \<Rightarrow> schema" where
  "schema_of s =
     \<lparr>sc_Types = map (\<lambda>t. \<lparr>sy_Name = sv_Name t, sy_Kind = sv_Kind t,
          sy_Fields = (case sv_Fields t of None \<Rightarrow> [] | Some fs \<Rightarrow> map (\<lambda>(n, ty). \<lparr>sf_Name = n, sf_Type = spelled ty\<rparr>) fs)\<rparr>) (ss_Types s),
      sc_QueryType = ss_Query s,
      sc_MutationType = (case ss_Mutation s of None \<Rightarrow> [] | Some n \<Rightarrow> n),
      sc_SubscriptionType = (case ss_Subscription s of None \<Rightarrow> [] | Some n \<Rightarrow> n)\<rparr>"

definition field_types :: "server_schema \<Rightarrow> gql_type set" where
  "field_types s = {ty. \<exists>t \<in> set (ss_Types s). \<exists>fs n. sv_Fields t = Some fs \<and> (n, ty) \<in> set fs}"

lemma at_simps [simp]:
  "string_at ((k, v) # m) j = (if j = k then (case v of GStr s \<Rightarrow> s | _ \<Rightarrow> []) else string_at m j)"
  "map_at ((k, v) # m) j = (if j = k then (case v of GMap x \<Rightarrow> Some x | _ \<Rightarrow> None) else map_at m j)"
  "list_at ((k, v) # m) j = (if j = k then (case v of GList x \<Rightarrow> Some x | _ \<Rightarrow> None) else list_at m j)"
  "string_at [] j = []" "map_at [] j = None" "list_at [] j = None"
  by (auto simp: string_at_def map_at_def list_at_def split: gov.split)

lemma extractTypeName_spelled: "named t \<Longrightarrow> wrappers t \<le> d \<Longrightarrow> extractTypeName (introspected d t) = spelled t"
  by (induction d t rule: introspected.induct) (subst extractTypeName.simps, auto split: nat.split)+

text \<open>The query of the file asks for \<open>ofType\<close> once, but a type can have three wrappers.\<close>

lemma nested_type_misnamed: "extractTypeName (introspected 1 (NonNull (ListOf (NonNull (Named n))))) = ''LIST!''"
  by (subst extractTypeName.simps, simp)+

text \<open>Introspection reads the schema. From the answer of a server whose fields have types with no more wrappers than the query
  asks for, \<open>parseIntrospectionResponse\<close> makes the schema: the roots, the types and fields in order, and every type in the
  spelling of GraphQL.\<close>

theorem schema_read:
  assumes "\<forall>ty \<in> field_types s. named ty \<and> wrappers ty \<le> d"
  shows "parseIntrospectionResponse (introspection_response d s) = Inr (schema_of s)"
proof -
  have f: "parse_field (field_value d (n, ty)) = Some \<lparr>sf_Name = n, sf_Type = spelled ty\<rparr>" if "ty \<in> field_types s" for n ty
    using that assms extractTypeName_spelled by (simp add: parse_field_def field_value_def)
  have fs: "List.map_filter parse_field (map (field_value d) fs) = map (\<lambda>(n, ty). \<lparr>sf_Name = n, sf_Type = spelled ty\<rparr>) fs"
    if "\<forall>(n, ty) \<in> set fs. ty \<in> field_types s" for fs
    using that by (induction fs) (auto simp: f)
  have t: "parse_type (type_value d t) = Some \<lparr>sy_Name = sv_Name t, sy_Kind = sv_Kind t,
      sy_Fields = (case sv_Fields t of None \<Rightarrow> [] | Some fs \<Rightarrow> map (\<lambda>(n, ty). \<lparr>sf_Name = n, sf_Type = spelled ty\<rparr>) fs)\<rparr>"
    if "t \<in> set (ss_Types s)" for t
  proof -
    have "\<forall>(n, ty) \<in> set fs. ty \<in> field_types s" if "sv_Fields t = Some fs" for fs
      using \<open>t \<in> set (ss_Types s)\<close> that by (auto simp: field_types_def)
    then show ?thesis by (auto simp: parse_type_def type_value_def fs split: option.split)
  qed
  have "List.map_filter parse_type (map (type_value d) ts) = map (\<lambda>t. \<lparr>sy_Name = sv_Name t, sy_Kind = sv_Kind t,
      sy_Fields = (case sv_Fields t of None \<Rightarrow> [] | Some fs \<Rightarrow> map (\<lambda>(n, ty). \<lparr>sf_Name = n, sf_Type = spelled ty\<rparr>) fs)\<rparr>) ts"
    if "set ts \<subseteq> set (ss_Types s)" for ts
    using that by (induction ts) (auto simp: t)
  then show ?thesis
    by (auto simp: parseIntrospectionResponse_def introspection_response_def schema_of_def root_name_def root_value_def split: option.split)
qed

definition demo_schema :: server_schema where
  "demo_schema = \<lparr>ss_Types = [\<lparr>sv_Name = ''Q'', sv_Kind = ''OBJECT'', sv_Fields = Some [(''a'', NonNull (Named ''Int'')), (''b'', ListOf (Named ''Q''))]\<rparr>,
     \<lparr>sv_Name = ''Int'', sv_Kind = ''SCALAR'', sv_Fields = None\<rparr>], ss_Query = ''Q'', ss_Mutation = None, ss_Subscription = None\<rparr>"

theorem schema_read_witness:
  "parseIntrospectionResponse (introspection_response 1 demo_schema) = Inr \<lparr>sc_Types =
     [\<lparr>sy_Name = ''Q'', sy_Kind = ''OBJECT'', sy_Fields = [\<lparr>sf_Name = ''a'', sf_Type = ''Int!''\<rparr>, \<lparr>sf_Name = ''b'', sf_Type = ''[Q]''\<rparr>]\<rparr>,
      \<lparr>sy_Name = ''Int'', sy_Kind = ''SCALAR'', sy_Fields = []\<rparr>], sc_QueryType = ''Q'', sc_MutationType = [], sc_SubscriptionType = []\<rparr>"
proof -
  have "\<forall>ty \<in> field_types demo_schema. named ty \<and> wrappers ty \<le> 1" by (auto simp: field_types_def demo_schema_def)
  from schema_read[OF this] show ?thesis by (simp add: schema_of_def demo_schema_def)
qed

end
