(* ===== verification/Http_Connector.thy ===== *)
theory Http_Connector
  imports Runner Go_Encoding Go_Duration
begin

text \<open>
  connector/http: the connector for HTTP. Its state is the base URL, the default headers and the client. Parameters are the
  query of a URL (net/url), encoding/json, files and certificates, the check of method and URL that
  \<open>http.NewRequestWithContext\<close> makes, and the client's exchange, which acts on a network of any type. Header
  maps associate canonical names with one value each, as \<open>Header.Set\<close> leaves them.
\<close>

section \<open>Headers\<close>

definition token_char :: "char \<Rightarrow> bool" where
  "token_char c \<longleftrightarrow>
     (let n = (of_char c :: nat) in
      48 \<le> n \<and> n \<le> 57 \<or> 65 \<le> n \<and> n \<le> 90 \<or> 97 \<le> n \<and> n \<le> 122 \<or> c \<in> set ''!#$%&*+-.^_`|~'' \<or> n = 39)"

definition upper_byte :: "char \<Rightarrow> char" where
  "upper_byte c = (let n = (of_char c :: nat) in if 97 \<le> n \<and> n \<le> 122 then char_of (n - 32) else c)"

definition lower_byte :: "char \<Rightarrow> char" where
  "lower_byte c = (let n = (of_char c :: nat) in if 65 \<le> n \<and> n \<le> 90 then char_of (n + 32) else c)"

fun title_bytes :: "bool \<Rightarrow> string \<Rightarrow> string" where
  "title_bytes upper [] = []"
| "title_bytes upper (c # cs) = (if upper then upper_byte c else lower_byte c) # title_bytes (c = CHR ''-'') cs"

text \<open>\<open>CanonicalMIMEHeaderKey\<close>.\<close>

definition canonical_key :: "string \<Rightarrow> string" where
  "canonical_key k = (if list_all token_char k then title_bytes True k else k)"

definition Header_Set :: "string \<Rightarrow> string \<Rightarrow> (string \<times> string) list \<Rightarrow> (string \<times> string) list" where
  "Header_Set k v h = AList.update (canonical_key k) v h"

definition set_all :: "(string \<times> string) list \<Rightarrow> (string \<times> string) list \<Rightarrow> (string \<times> string) list" where
  "set_all kvs h = fold (\<lambda>(k, v). Header_Set k v) kvs h"

section \<open>Setting up\<close>

record tls_config =
  tl_MinVersion :: int
  tl_InsecureSkipVerify :: bool
  tl_RootCAs :: "string option"
  tl_Certificates :: "(string \<times> string) option"

record http_client =
  hc_TLS :: tls_config
  hc_Timeout :: int

record http_conn =
  ht_baseURL :: string
  ht_client :: "http_client option"
  ht_headers :: "(string \<times> string) list"

datatype http_err =
    MustBeString string
  | MustBeMap string
  | MustBeBool string
  | InvalidTimeout string
  | ReadingCA string
  | ParsingCA
  | LoadingCertificate string
  | CertAndKeyTogether
  | UnsupportedAction string
  | MissingParameter string
  | ParsingURL string
  | MarshallingBody gov
  | CreatingRequest string
  | UnsupportedAuth string
  | ExecutingRequest string
  | ReadingBody string
  | NilClient

record 'n http_lib =
  hl_read_file :: "string \<Rightarrow> string + string"
  hl_is_ca :: "string \<Rightarrow> bool"
  hl_key_pair :: "string \<Rightarrow> string \<Rightarrow> string + string \<times> string"
  hl_set_query :: "string \<Rightarrow> (string \<times> string) list \<Rightarrow> string + string"
  hl_marshal :: "gov \<Rightarrow> string option"
  hl_unmarshal :: "string \<Rightarrow> gov option"
  hl_classes :: unicode_classes

definition VersionTLS12 :: int where "VersionTLS12 = 0x0303"

definition client_cert :: "'n http_lib \<Rightarrow> (string \<times> gov) list \<Rightarrow> http_err + (string \<times> string) option" where
  "client_cert lib config =
     (case (map_of config ''tls_cert_file'', map_of config ''tls_key_file'') of
        (Some (GStr certPath), Some (GStr keyPath)) \<Rightarrow>
          (case hl_key_pair lib certPath keyPath of Inl err \<Rightarrow> Inl (LoadingCertificate err) | Inr cert \<Rightarrow> Inr (Some cert))
      | (Some _, Some _) \<Rightarrow> Inl (MustBeString ''tls_cert_file and tls_key_file'')
      | (None, None) \<Rightarrow> Inr None
      | _ \<Rightarrow> Inl CertAndKeyTogether)"

definition root_cas :: "'n http_lib \<Rightarrow> (string \<times> gov) list \<Rightarrow> http_err + string option" where
  "root_cas lib config =
     (case map_of config ''tls_ca_file'' of
        None \<Rightarrow> Inr None
      | Some (GStr caPath) \<Rightarrow>
          (case hl_read_file lib caPath of
             Inl err \<Rightarrow> Inl (ReadingCA err)
           | Inr caPEM \<Rightarrow> if hl_is_ca lib caPEM then Inr (Some caPEM) else Inl ParsingCA)
      | Some _ \<Rightarrow> Inl (MustBeString ''tls_ca_file''))"

definition skip_verify :: "(string \<times> gov) list \<Rightarrow> http_err + bool" where
  "skip_verify config =
     (case map_of config ''tls_skip_verify'' of
        None \<Rightarrow> Inr False
      | Some (GBool b) \<Rightarrow> Inr b
      | Some _ \<Rightarrow> Inl (MustBeBool ''tls_skip_verify''))"

definition buildTLSConfig :: "'n http_lib \<Rightarrow> (string \<times> gov) list \<Rightarrow> http_err + tls_config" where
  "buildTLSConfig lib config =
     (case skip_verify config of
        Inl e \<Rightarrow> Inl e
      | Inr insecure \<Rightarrow>
          (case root_cas lib config of
             Inl e \<Rightarrow> Inl e
           | Inr pool \<Rightarrow>
               (case client_cert lib config of
                  Inl e \<Rightarrow> Inl e
                | Inr cert \<Rightarrow>
                    Inr \<lparr>tl_MinVersion = VersionTLS12, tl_InsecureSkipVerify = insecure, tl_RootCAs = pool, tl_Certificates = cert\<rparr>)))"

definition buildClient :: "'n http_lib \<Rightarrow> (string \<times> gov) list \<Rightarrow> int \<Rightarrow> http_err + http_client" where
  "buildClient lib config timeout =
     (case buildTLSConfig lib config of Inl e \<Rightarrow> Inl e | Inr tlsCfg \<Rightarrow> Inr \<lparr>hc_TLS = tlsCfg, hc_Timeout = timeout\<rparr>)"

definition New :: http_conn where
  "New = \<lparr>ht_baseURL = [], ht_client = None, ht_headers = []\<rparr>"

definition setup_base_url :: "(string \<times> gov) list \<Rightarrow> http_conn \<Rightarrow> http_err option \<times> http_conn" where
  "setup_base_url config c =
     (case map_of config ''base_url'' of
        None \<Rightarrow> (None, c)
      | Some (GStr s) \<Rightarrow> (None, c\<lparr>ht_baseURL := s\<rparr>)
      | Some _ \<Rightarrow> (Some (MustBeString ''base_url''), c))"

definition setup_headers :: "(string \<times> gov) list \<Rightarrow> http_conn \<Rightarrow> http_err option \<times> http_conn" where
  "setup_headers config c =
     (case map_of config ''default_headers'' of
        None \<Rightarrow> (None, c)
      | Some (GMap hdr) \<Rightarrow> (None, c\<lparr>ht_headers := fold (\<lambda>(k, v). AList.update k (fmt_v v)) hdr (ht_headers c)\<rparr>)
      | Some (GStrMap hdr) \<Rightarrow> (None, c\<lparr>ht_headers := fold (\<lambda>(k, v). AList.update k v) hdr (ht_headers c)\<rparr>)
      | Some _ \<Rightarrow> (Some (MustBeMap ''default_headers''), c))"

definition setup_timeout :: "(string \<times> gov) list \<Rightarrow> http_err + int" where
  "setup_timeout config =
     (case map_of config ''timeout'' of
        None \<Rightarrow> Inr 0
      | Some (GStr s) \<Rightarrow> (case parse_duration s of None \<Rightarrow> Inl (InvalidTimeout s) | Some d \<Rightarrow> Inr d)
      | Some _ \<Rightarrow> Inl (MustBeString ''timeout''))"

definition http_Setup :: "'n http_lib \<Rightarrow> (string \<times> gov) list \<Rightarrow> http_conn \<Rightarrow> http_err option \<times> http_conn" where
  "http_Setup lib config c0 =
     (case setup_base_url config c0 of
        (Some e, c1) \<Rightarrow> (Some e, c1)
      | (None, c1) \<Rightarrow>
          (case setup_headers config c1 of
             (Some e, c2) \<Rightarrow> (Some e, c2)
           | (None, c2) \<Rightarrow>
               (case setup_timeout config of
                  Inl e \<Rightarrow> (Some e, c2)
                | Inr timeout \<Rightarrow>
                    (case buildClient lib config timeout of
                       Inl e \<Rightarrow> (Some e, c2)
                     | Inr client \<Rightarrow> (None, c2\<lparr>ht_client := Some client\<rparr>)))))"

section \<open>Requests\<close>

record http_request =
  rq_Method :: string
  rq_URL :: string
  rq_Header :: "(string \<times> string) list"
  rq_Body :: "string option"

record http_response =
  rp_StatusCode :: int
  rp_Status :: string
  rp_Header :: "(string \<times> string list) list"
  rp_Body :: "string + string"
  rp_Elapsed :: int

definition auth_field :: "(string \<times> gov) list \<Rightarrow> string \<Rightarrow> http_err + string" where
  "auth_field authMap k = (case map_of authMap k of Some (GStr s) \<Rightarrow> Inr s | _ \<Rightarrow> Inl (MustBeString (''auth.'' @ k)))"

text \<open>The header that authentication sets, if any.\<close>

definition auth_header :: "(string \<times> gov) list \<Rightarrow> http_err + (string \<times> string) option" where
  "auth_header params =
     (case map_of params ''auth'' of
        None \<Rightarrow> Inr None
      | Some (GMap authMap) \<Rightarrow>
          (case auth_field authMap ''type'' of
             Inl e \<Rightarrow> Inl e
           | Inr authType \<Rightarrow>
               (if authType = ''bearer'' then
                  (case auth_field authMap ''token'' of
                     Inl e \<Rightarrow> Inl e
                   | Inr token \<Rightarrow> Inr (Some (''Authorization'', ''Bearer '' @ token)))
                else if authType = ''basic'' then
                  (case auth_field authMap ''username'' of
                     Inl e \<Rightarrow> Inl e
                   | Inr user \<Rightarrow>
                       (case auth_field authMap ''password'' of
                          Inl e \<Rightarrow> Inl e
                        | Inr pass \<Rightarrow> Inr (Some (''Authorization'', ''Basic '' @ b64_encode (user @ '':'' @ pass)))))
                else if authType = ''api_key'' then
                  (case auth_field authMap ''header'' of
                     Inl e \<Rightarrow> Inl e
                   | Inr header \<Rightarrow>
                       (case auth_field authMap ''key'' of
                          Inl e \<Rightarrow> Inl e
                        | Inr key \<Rightarrow> Inr (Some (header, key))))
                else Inl (UnsupportedAuth authType)))
      | Some _ \<Rightarrow> Inl (MustBeMap ''auth''))"

definition applyAuth :: "(string \<times> gov) list \<Rightarrow> http_request \<Rightarrow> http_err + http_request" where
  "applyAuth params req =
     (case auth_header params of
        Inl e \<Rightarrow> Inl e
      | Inr None \<Rightarrow> Inr req
      | Inr (Some (k, v)) \<Rightarrow> Inr (req\<lparr>rq_Header := Header_Set k v (rq_Header req)\<rparr>))"

definition request_url :: "'n http_lib \<Rightarrow> http_conn \<Rightarrow> (string \<times> gov) list \<Rightarrow> string \<Rightarrow> http_err + string" where
  "request_url lib c params path =
     (case map_of params ''query'' of
        None \<Rightarrow> Inr (ht_baseURL c @ path)
      | Some (GMap q) \<Rightarrow>
          (case hl_set_query lib (ht_baseURL c @ path) (map (\<lambda>(k, v). (k, fmt_v v)) q) of
             Inl err \<Rightarrow> Inl (ParsingURL err)
           | Inr url \<Rightarrow> Inr url)
      | Some _ \<Rightarrow> Inl (MustBeMap ''query''))"

definition request_body :: "'n http_lib \<Rightarrow> (string \<times> gov) list \<Rightarrow> http_err + string option" where
  "request_body lib params =
     (case map_of params ''body'' of
        None \<Rightarrow> Inr None
      | Some (GStr b) \<Rightarrow> Inr (Some b)
      | Some b \<Rightarrow> (case hl_marshal lib b of None \<Rightarrow> Inl (MarshallingBody b) | Some data \<Rightarrow> Inr (Some data)))"

definition step_headers :: "(string \<times> gov) list \<Rightarrow> http_err + (string \<times> string) list" where
  "step_headers params =
     (case map_of params ''headers'' of
        None \<Rightarrow> Inr []
      | Some (GMap h) \<Rightarrow> Inr (map (\<lambda>(k, v). (k, fmt_v v)) h)
      | Some _ \<Rightarrow> Inl (MustBeMap ''headers''))"

text \<open>The part of \<open>doRequest\<close> before the exchange; \<open>check\<close> is the check of method and URL of \<open>http.NewRequestWithContext\<close>.\<close>

definition build_request ::
  "'n http_lib \<Rightarrow> (string \<Rightarrow> string \<Rightarrow> string option) \<Rightarrow> http_conn \<Rightarrow> (string \<times> gov) list \<Rightarrow> http_err + http_request" where
  "build_request lib check c params =
     (case map_of params ''method'' of
        Some (GStr method) \<Rightarrow>
          (if method = [] then Inl (MissingParameter ''method'')
           else (case map_of params ''path'' of
               Some (GStr path) \<Rightarrow>
                 (case request_url lib c params path of
                    Inl e \<Rightarrow> Inl e
                  | Inr fullURL \<Rightarrow>
                      (case request_body lib params of
                         Inl e \<Rightarrow> Inl e
                       | Inr body \<Rightarrow>
                           (case check (to_upper (hl_classes lib) method) fullURL of
                              Some err \<Rightarrow> Inl (CreatingRequest err)
                            | None \<Rightarrow>
                                (case step_headers params of
                                   Inl e \<Rightarrow> Inl e
                                 | Inr hs \<Rightarrow>
                                     applyAuth params
                                       \<lparr>rq_Method = to_upper (hl_classes lib) method, rq_URL = fullURL,
                                        rq_Header = set_all hs (set_all (ht_headers c) []), rq_Body = body\<rparr>))))
             | _ \<Rightarrow> Inl (MissingParameter ''path'')))
      | _ \<Rightarrow> Inl (MissingParameter ''method''))"

definition response_data :: "'n http_lib \<Rightarrow> http_response \<Rightarrow> string \<Rightarrow> (string \<times> gov) list" where
  "response_data lib resp rawBody =
     [(''status'', GInt (rp_StatusCode resp)), (''status_text'', GStr (rp_Status resp)), (''headers'', GHeaders (rp_Header resp)),
      (''body'', case hl_unmarshal lib rawBody of Some v \<Rightarrow> v | None \<Rightarrow> GStr rawBody), (''body_raw'', GStr rawBody),
      (''elapsed_ms'', GFloat (f64_of_int (tdiv (rp_Elapsed resp) 1000000)))]"

text \<open>The exchange: the client, the step's timeout (0 when there is none) and the request.\<close>

type_synonym 'n exchange = "http_client \<Rightarrow> int \<Rightarrow> http_request \<Rightarrow> 'n \<Rightarrow> (string + http_response) \<times> 'n"

definition doRequest ::
  "'n http_lib \<Rightarrow> (string \<Rightarrow> string \<Rightarrow> string option) \<Rightarrow> 'n exchange \<Rightarrow> http_conn \<Rightarrow> conn_step \<Rightarrow> 'n
    \<Rightarrow> (http_err + (string \<times> gov) list \<times> (string \<times> string) list) \<times> 'n" where
  "doRequest lib check exchange c step n =
     (case build_request lib check c (cs_Parameters step) of
        Inl e \<Rightarrow> (Inl e, n)
      | Inr req \<Rightarrow>
          (case ht_client c of
             None \<Rightarrow> (Inl NilClient, n)
           | Some client \<Rightarrow>
               (case exchange client (max 0 (cs_Timeout step)) req n of
                  (Inl err, n1) \<Rightarrow> (Inl (ExecutingRequest err), n1)
                | (Inr resp, n1) \<Rightarrow>
                    (case rp_Body resp of
                       Inl err \<Rightarrow> (Inl (ReadingBody err), n1)
                     | Inr rawBody \<Rightarrow>
                         (Inr (response_data lib resp rawBody, [(''url'', rq_URL req), (''method'', rq_Method req)]), n1)))))"

definition http_Execute ::
  "'n http_lib \<Rightarrow> (string \<Rightarrow> string \<Rightarrow> string option) \<Rightarrow> 'n exchange \<Rightarrow> http_conn \<Rightarrow> conn_step \<Rightarrow> 'n
    \<Rightarrow> (http_err + (string \<times> gov) list \<times> (string \<times> string) list) \<times> 'n" where
  "http_Execute lib check exchange c step n =
     (if cs_Action step = ''request'' then doRequest lib check exchange c step n
      else (Inl (UnsupportedAction (cs_Action step)), n))"

section \<open>What is sent\<close>

text \<open>The value the last of the pairs gives a header.\<close>

definition header_value :: "(string \<times> string) list \<Rightarrow> string \<Rightarrow> string option" where
  "header_value kvs k = map_of (rev (map (\<lambda>(j, v). (canonical_key j, v)) kvs)) k"

lemma map_of_set_all: "map_of (set_all kvs h) k = (case header_value kvs k of Some v \<Rightarrow> Some v | None \<Rightarrow> map_of h k)"
proof (induction kvs arbitrary: h)
  case (Cons p kvs)
  obtain j v where p: "p = (j, v)" by (cases p)
  have "map_of (set_all (p # kvs) h) k = (case header_value kvs k of Some u \<Rightarrow> Some u | None \<Rightarrow> map_of (Header_Set j v h) k)"
    using Cons.IH by (simp add: set_all_def p)
  then show ?case by (auto simp: p header_value_def Header_Set_def map_add_def update_conv' split: option.split)
qed (simp add: set_all_def header_value_def)

text \<open>C26: the headers of a request. Every request the connector makes carries, under each name in its canonical form, the value of the
  authentication if that sets the name, else the one of the step, else the default of the connector; with basic
  authentication the value decodes to user and password. Its method is in upper case, and without a \<open>query\<close> its URL is the path
  behind the base URL.\<close>

theorem request_headers:
  assumes "build_request lib check c params = Inr req"
  shows "\<exists>hs auth. step_headers params = Inr hs \<and> auth_header params = Inr auth
    \<and> (\<forall>k. map_of (rq_Header req) k =
         (case auth of
            Some (j, v) \<Rightarrow> if canonical_key j = k then Some v
              else (case header_value hs k of Some u \<Rightarrow> Some u | None \<Rightarrow> header_value (ht_headers c) k)
          | None \<Rightarrow> (case header_value hs k of Some u \<Rightarrow> Some u | None \<Rightarrow> header_value (ht_headers c) k)))
    \<and> (\<exists>method path. map_of params ''method'' = Some (GStr method) \<and> rq_Method req = to_upper (hl_classes lib) method
         \<and> map_of params ''path'' = Some (GStr path)
         \<and> (map_of params ''query'' = None \<longrightarrow> rq_URL req = ht_baseURL c @ path))
    \<and> (\<forall>m user pass. map_of params ''auth'' = Some (GMap m) \<longrightarrow> map_of m ''type'' = Some (GStr ''basic'') \<longrightarrow>
         map_of m ''username'' = Some (GStr user) \<longrightarrow> map_of m ''password'' = Some (GStr pass) \<longrightarrow>
         (\<exists>e. map_of (rq_Header req) ''Authorization'' = Some (''Basic '' @ e) \<and> b64_decode e = Some (user @ '':'' @ pass)))"
proof -
  obtain meth where m: "map_of params ''method'' = Some (GStr meth)" "meth \<noteq> []"
    using assms by (auto simp: build_request_def split: option.splits gov.splits if_splits)
  obtain path where p: "map_of params ''path'' = Some (GStr path)"
    using assms m by (auto simp: build_request_def split: option.splits gov.splits)
  obtain fullURL where u: "request_url lib c params path = Inr fullURL"
    using assms m p by (auto simp: build_request_def split: sum.splits)
  obtain body where b: "request_body lib params = Inr body"
    using assms m p u by (auto simp: build_request_def split: sum.splits)
  obtain hs where h: "step_headers params = Inr hs"
    using assms m p u b by (auto simp: build_request_def split: sum.splits option.splits)
  let ?r = "\<lparr>rq_Method = to_upper (hl_classes lib) meth, rq_URL = fullURL,
     rq_Header = set_all hs (set_all (ht_headers c) []), rq_Body = body\<rparr>"
  have a: "applyAuth params ?r = Inr req"
    using assms m p u b h by (auto simp: build_request_def split: option.splits)
  then obtain auth where auth: "auth_header params = Inr auth"
    "req = (case auth of None \<Rightarrow> ?r | Some (k, v) \<Rightarrow> ?r\<lparr>rq_Header := Header_Set k v (rq_Header ?r)\<rparr>)"
    by (auto simp: applyAuth_def split: sum.splits option.splits)
  have hdr: "map_of (rq_Header req) k =
      (case auth of
         Some (j, v) \<Rightarrow> if canonical_key j = k then Some v
           else (case header_value hs k of Some u \<Rightarrow> Some u | None \<Rightarrow> header_value (ht_headers c) k)
       | None \<Rightarrow> (case header_value hs k of Some u \<Rightarrow> Some u | None \<Rightarrow> header_value (ht_headers c) k))" for k
    by (simp add: auth(2) map_of_set_all Header_Set_def update_conv' split: option.split)
  moreover have "\<exists>meth path. map_of params ''method'' = Some (GStr meth) \<and> rq_Method req = to_upper (hl_classes lib) meth
      \<and> map_of params ''path'' = Some (GStr path) \<and> (map_of params ''query'' = None \<longrightarrow> rq_URL req = ht_baseURL c @ path)"
    using m(1) p u by (auto simp: auth(2) request_url_def split: option.splits)
  moreover have "canonical_key ''Authorization'' = ''Authorization''" by code_simp
  then have "\<exists>e. map_of (rq_Header req) ''Authorization'' = Some (''Basic '' @ e) \<and> b64_decode e = Some (user @ '':'' @ pass)"
    if "map_of params ''auth'' = Some (GMap am)" "map_of am ''type'' = Some (GStr ''basic'')"
      "map_of am ''username'' = Some (GStr user)" "map_of am ''password'' = Some (GStr pass)" for am user pass
    using that auth(1) b64_roundtrip by (auto simp: hdr auth_header_def auth_field_def)
  ultimately show ?thesis using h auth(1)
    by (intro exI[of _ hs] exI[of _ auth] conjI allI impI) (assumption | blast)+
qed

text \<open>The connector sends at most one request for a step, the one it has built, and none when a parameter is invalid; a step of
  another action does nothing. When it succeeds, the result carries the status and the body the server has sent.\<close>

theorem Execute_exchange:
  assumes "http_Execute lib check exchange c step n = (r, n')"
  shows "(n' = n \<and> (\<exists>e. r = Inl e)) \<or>
    (\<exists>req client x. cs_Action step = ''request'' \<and> build_request lib check c (cs_Parameters step) = Inr req \<and> ht_client c = Some client
      \<and> exchange client (max 0 (cs_Timeout step)) req n = (x, n')
      \<and> (\<forall>data meta. r = Inr (data, meta) \<longrightarrow>
           (\<exists>resp body. x = Inr resp \<and> rp_Body resp = Inr body \<and> map_of data ''status'' = Some (GInt (rp_StatusCode resp))
             \<and> map_of data ''body_raw'' = Some (GStr body) \<and> map_of data ''headers'' = Some (GHeaders (rp_Header resp))
             \<and> map_of meta ''url'' = Some (rq_URL req))))"
proof (cases "cs_Action step = ''request''")
  case False
  then show ?thesis using assms by (auto simp: http_Execute_def)
next
  case True
  then have d: "doRequest lib check exchange c step n = (r, n')" using assms by (simp add: http_Execute_def)
  show ?thesis
  proof (cases "build_request lib check c (cs_Parameters step)")
    case (Inl e)
    then show ?thesis using d by (auto simp: doRequest_def)
  next
    case (Inr req)
    show ?thesis
    proof (cases "ht_client c")
      case None
      then show ?thesis using d Inr by (auto simp: doRequest_def)
    next
      case (Some client)
      obtain x n1 where x: "exchange client (max 0 (cs_Timeout step)) req n = (x, n1)" by fastforce
      have "n1 = n'" using d Inr Some x by (auto simp: doRequest_def split: sum.splits)
      moreover have "\<exists>resp body. x = Inr resp \<and> rp_Body resp = Inr body \<and> map_of data ''status'' = Some (GInt (rp_StatusCode resp))
             \<and> map_of data ''body_raw'' = Some (GStr body) \<and> map_of data ''headers'' = Some (GHeaders (rp_Header resp))
             \<and> map_of meta ''url'' = Some (rq_URL req)" if "r = Inr (data, meta)" for data meta
        using d Inr Some x that by (auto simp: doRequest_def response_data_def split: sum.splits)
      ultimately show ?thesis using True Inr Some x by blast
    qed
  qed
qed

section \<open>Security of the transport\<close>

text \<open>C27: certificates are verified unless the configuration says otherwise. A connector that was set up successfully has a client that
  speaks TLS 1.2 or later, verifies the server's certificate unless \<open>tls_skip_verify\<close> is true, trusts the authorities
  of the file \<open>tls_ca_file\<close> if the configuration names one, in place of the system's and not besides them, and presents a certificate just when it
  names both files.\<close>

theorem Setup_tls:
  assumes "http_Setup lib config c = (None, c')"
  shows "\<exists>client. ht_client c' = Some client \<and> tl_MinVersion (hc_TLS client) = VersionTLS12
    \<and> tl_InsecureSkipVerify (hc_TLS client) = (map_of config ''tls_skip_verify'' = Some (GBool True))
    \<and> (\<forall>v. map_of config ''tls_ca_file'' = Some v \<longrightarrow>
         (\<exists>f pem. v = GStr f \<and> hl_read_file lib f = Inr pem \<and> tl_RootCAs (hc_TLS client) = Some pem))
    \<and> (tl_Certificates (hc_TLS client) \<noteq> None) = (map_of config ''tls_cert_file'' \<noteq> None)
    \<and> (map_of config ''tls_cert_file'' \<noteq> None) = (map_of config ''tls_key_file'' \<noteq> None)"
proof -
  obtain timeout client where cl: "buildClient lib config timeout = Inr client" "ht_client c' = Some client"
    using assms by (auto simp: http_Setup_def split: prod.splits option.splits sum.splits)
  have t: "buildTLSConfig lib config = Inr (hc_TLS client)"
    using cl(1) by (auto simp: buildClient_def split: sum.splits)
  then obtain insecure pool cert where b: "skip_verify config = Inr insecure" "root_cas lib config = Inr pool"
    "client_cert lib config = Inr cert"
    "hc_TLS client = \<lparr>tl_MinVersion = VersionTLS12, tl_InsecureSkipVerify = insecure, tl_RootCAs = pool, tl_Certificates = cert\<rparr>"
    by (auto simp: buildTLSConfig_def split: sum.splits)
  have "insecure = (map_of config ''tls_skip_verify'' = Some (GBool True))"
    using b(1) by (auto simp: skip_verify_def split: option.splits gov.splits)
  moreover have "\<exists>f pem. v = GStr f \<and> hl_read_file lib f = Inr pem \<and> pool = Some pem" if "map_of config ''tls_ca_file'' = Some v" for v
    using b(2) that by (auto simp: root_cas_def split: gov.splits sum.splits if_splits)
  moreover have "(cert \<noteq> None) = (map_of config ''tls_cert_file'' \<noteq> None)"
    "(map_of config ''tls_cert_file'' \<noteq> None) = (map_of config ''tls_key_file'' \<noteq> None)"
    using b(3) by (auto simp: client_cert_def split: option.splits gov.splits sum.splits)
  ultimately show ?thesis using cl(2) b(4) by auto
qed

text \<open>A connector with a default header, and a server that answers everything.\<close>

definition demo_client :: http_client where
  "demo_client = \<lparr>hc_TLS = \<lparr>tl_MinVersion = VersionTLS12, tl_InsecureSkipVerify = False, tl_RootCAs = None, tl_Certificates = None\<rparr>,
     hc_Timeout = 0\<rparr>"

definition demo_http :: http_conn where
  "demo_http = \<lparr>ht_baseURL = ''http://h'', ht_client = Some demo_client, ht_headers = [(''accept'', ''a/b'')]\<rparr>"

definition demo_http_lib :: "unit http_lib" where
  "demo_http_lib = \<lparr>hl_read_file = (\<lambda>f. Inr ''pem''), hl_is_ca = (\<lambda>p. True), hl_key_pair = (\<lambda>c k. Inl ''none''),
     hl_set_query = (\<lambda>u q. Inr u), hl_marshal = (\<lambda>v. None), hl_unmarshal = (\<lambda>b. None), hl_classes = ascii_classes\<rparr>"

definition demo_params :: "(string \<times> gov) list" where
  "demo_params = [(''method'', GStr ''get''), (''path'', GStr ''/x''), (''headers'', GMap [(''X-a'', GInt 1)])]"

definition demo_tls :: "(string \<times> gov) list" where
  "demo_tls = [(''tls_ca_file'', GStr ''ca.pem'')]"

lemma demo_request:
  "step_headers demo_params = Inr [(''X-a'', ''1'')]" "auth_header demo_params = Inr None"
  "build_request demo_http_lib (\<lambda>m u. None) demo_http demo_params = Inr
     \<lparr>rq_Method = to_upper ascii_classes ''get'', rq_URL = ''http://h/x'',
      rq_Header = set_all [(''X-a'', ''1'')] (set_all [(''accept'', ''a/b'')] []), rq_Body = None\<rparr>"
proof -
  show h: "step_headers demo_params = Inr [(''X-a'', ''1'')]" "auth_header demo_params = Inr None"
    by (simp_all add: demo_params_def step_headers_def auth_header_def) code_simp
  then show "build_request demo_http_lib (\<lambda>m u. None) demo_http demo_params = Inr
     \<lparr>rq_Method = to_upper ascii_classes ''get'', rq_URL = ''http://h/x'',
      rq_Header = set_all [(''X-a'', ''1'')] (set_all [(''accept'', ''a/b'')] []), rq_Body = None\<rparr>"
    by (simp add: build_request_def demo_params_def demo_http_def demo_http_lib_def request_url_def request_body_def applyAuth_def)
qed

theorem request_headers_witness:
  "\<exists>req. build_request demo_http_lib (\<lambda>m u. None) demo_http demo_params = Inr req
    \<and> map_of (rq_Header req) ''X-A'' = Some ''1'' \<and> map_of (rq_Header req) ''Accept'' = Some ''a/b'' \<and> rq_URL req = ''http://h/x''"
proof -
  obtain req where req: "build_request demo_http_lib (\<lambda>m u. None) demo_http demo_params = Inr req" using demo_request(3) by blast
  have k: "canonical_key ''X-a'' = ''X-A''" "canonical_key ''accept'' = ''Accept''" by code_simp+
  have "map_of (rq_Header req) ''X-A'' = Some ''1'' \<and> map_of (rq_Header req) ''Accept'' = Some ''a/b'' \<and> rq_URL req = ''http://h/x''"
    using request_headers[OF req] demo_request(1,2) by (auto simp: header_value_def demo_http_def demo_params_def k)
  with req show ?thesis by blast
qed

definition demo_exchange :: "nat exchange" where
  "demo_exchange client t req n =
     (Inr \<lparr>rp_StatusCode = 200, rp_Status = ''200 OK'', rp_Header = [], rp_Body = Inr ''{'', rp_Elapsed = 5\<rparr>, n + 1)"

theorem Execute_exchange_witness:
  "\<exists>data meta. http_Execute demo_http_lib (\<lambda>m u. None) demo_exchange demo_http
      \<lparr>cs_Action = ''request'', cs_Parameters = demo_params, cs_Timeout = 0\<rparr> 0 = (Inr (data, meta), 1)
    \<and> map_of data ''body_raw'' = Some (GStr ''{'')"
proof -
  obtain data meta where d: "http_Execute demo_http_lib (\<lambda>m u. None) demo_exchange demo_http
      \<lparr>cs_Action = ''request'', cs_Parameters = demo_params, cs_Timeout = 0\<rparr> 0 = (Inr (data, meta), 1)"
    by (simp add: http_Execute_def doRequest_def demo_request(3)) (simp add: demo_http_def demo_exchange_def)
  from Execute_exchange[OF d] have "map_of data ''body_raw'' = Some (GStr ''{'')" by (auto simp: demo_exchange_def)
  with d show ?thesis by blast
qed

theorem Setup_tls_witness:
  "\<exists>c' client. http_Setup demo_http_lib demo_tls New = (None, c') \<and> ht_client c' = Some client
    \<and> \<not> tl_InsecureSkipVerify (hc_TLS client) \<and> tl_RootCAs (hc_TLS client) = Some ''pem''"
proof -
  have "setup_timeout demo_tls = Inr 0" by (simp add: setup_timeout_def demo_tls_def)
  moreover have "skip_verify demo_tls = Inr False" "root_cas demo_http_lib demo_tls = Inr (Some ''pem'')"
    "client_cert demo_http_lib demo_tls = Inr None"
    by (simp_all add: skip_verify_def root_cas_def client_cert_def demo_tls_def demo_http_lib_def)
  moreover have "setup_base_url demo_tls New = (None, New)" "setup_headers demo_tls New = (None, New)"
    by (simp_all add: setup_base_url_def setup_headers_def demo_tls_def)
  ultimately have "\<exists>c'. http_Setup demo_http_lib demo_tls New = (None, c')"
    by (simp add: http_Setup_def buildClient_def buildTLSConfig_def)
  then obtain c' where c': "http_Setup demo_http_lib demo_tls New = (None, c')" ..
  have m: "map_of demo_tls ''tls_skip_verify'' = None" "map_of demo_tls ''tls_ca_file'' = Some (GStr ''ca.pem'')"
    "hl_read_file demo_http_lib f = Inr ''pem''" for f by (simp_all add: demo_tls_def demo_http_lib_def)
  obtain client where cl: "ht_client c' = Some client" "tl_InsecureSkipVerify (hc_TLS client) = (map_of demo_tls ''tls_skip_verify'' = Some (GBool True))"
    "tl_RootCAs (hc_TLS client) = Some ''pem''" using Setup_tls[OF c'] m(2,3) by auto
  with m(1) have "\<not> tl_InsecureSkipVerify (hc_TLS client)" by simp
  with cl(1,3) c' show ?thesis by blast
qed

end
