(* ===== verification/Grpc_Messages.thy ===== *)
theory Grpc_Messages
  imports Go_Value
begin

text \<open>
  connector/grpc: reflect.go, the conversions between test data and protobuf messages. Descriptors and messages belong to
  the protobuf library: descriptors of messages and fields, and messages, are of any type, and what the code asks them is
  the record \<open>proto_lib\<close>. A \<open>protoreflect.Value\<close> is the datatype \<open>pvalue\<close>. A \<open>[]byte\<close> among test data is the
  list of its \<open>uint8\<close> values.
\<close>

section \<open>Numbers\<close>

text \<open>Conversions between integer types cut off; of a float they truncate, and where Go leaves the result to the implementation it
  is that of amd64.\<close>

definition to_int32 :: "int \<Rightarrow> int" where "to_int32 i = (i + 2 ^ 31) mod 2 ^ 32 - 2 ^ 31"
definition to_uint32 :: "int \<Rightarrow> int" where "to_uint32 i = i mod 2 ^ 32"
definition to_uint64 :: "int \<Rightarrow> int" where "to_uint64 i = i mod 2 ^ 64"

definition in_int32 :: "int \<Rightarrow> bool" where "in_int32 i \<longleftrightarrow> - (2 ^ 31) \<le> i \<and> i < 2 ^ 31"

lemma to_int32_id [simp]: "in_int32 i \<Longrightarrow> to_int32 i = i"
  by (simp add: to_int32_def in_int32_def)

definition f64_to_int32 :: "f64 \<Rightarrow> int" where
  "f64_to_int32 x = (if is_fin x \<and> in_int32 (trunc_rat (rat_of x)) then trunc_rat (rat_of x) else - (2 ^ 31))"

definition f64_to_uint64 :: "f64 \<Rightarrow> int" where
  "f64_to_uint64 x =
     (if is_fin x \<and> 2 ^ 63 \<le> trunc_rat (rat_of x) \<and> trunc_rat (rat_of x) < 2 ^ 64 then trunc_rat (rat_of x)
      else to_uint64 (f64_to_int x))"

text \<open>\<open>float32(x)\<close>: the nearest number with 24 bits.\<close>

definition ulp_exp32 :: "rat \<Rightarrow> int" where
  "ulp_exp32 q =
     (case quotient_of q of (a, b) \<Rightarrow>
        let e0 = ilog2 a - ilog2 b; e = (if pow2 e0 \<le> q then e0 else e0 - 1) in max (e - 23) (- 149))"

definition f64_to_f32 :: "f64 \<Rightarrow> f64" where
  "f64_to_f32 x =
     (case x of
        Fin q \<Rightarrow>
          (if q = 0 then Fin 0
           else (let u = pow2 (ulp_exp32 \<bar>q\<bar>); r = of_int (round_half_even (\<bar>q\<bar> / u)) * u in
             if r \<ge> 2 ^ 128 then (if q > 0 then PInf else NInf)
             else if r = 0 then (if q > 0 then Fin 0 else NegZero)
             else Fin (if q > 0 then r else - r)))
      | _ \<Rightarrow> x)"

section \<open>The protobuf library\<close>

datatype proto_kind =
    BoolKind | EnumKind | Int32Kind | Sint32Kind | Uint32Kind | Int64Kind | Sint64Kind | Uint64Kind | Sfixed32Kind | Fixed32Kind
  | FloatKind | Sfixed64Kind | Fixed64Kind | DoubleKind | StringKind | BytesKind | MessageKind | GroupKind

datatype 'm pvalue =
    PBool bool
  | PInt32 int
  | PInt64 int
  | PUint32 int
  | PUint64 int
  | PFloat32 f64
  | PFloat64 f64
  | PString string
  | PBytes string
  | PEnum int
  | PMessage 'm
  | PList "'m pvalue list"
  | PMap "('m pvalue \<times> 'm pvalue) list"

record ('d, 'f, 'm) proto_lib =
  pl_Fields :: "'d \<Rightarrow> 'f list"
  pl_Name :: "'f \<Rightarrow> string"
  pl_JSONName :: "'f \<Rightarrow> string"
  pl_Kind :: "'f \<Rightarrow> proto_kind"
  pl_IsList :: "'f \<Rightarrow> bool"
  pl_IsMap :: "'f \<Rightarrow> bool"
  pl_MapKey :: "'f \<Rightarrow> 'f"
  pl_MapValue :: "'f \<Rightarrow> 'f"
  pl_Message :: "'f \<Rightarrow> 'd"
  pl_EnumByName :: "'f \<Rightarrow> string \<Rightarrow> int option"
  pl_Oneof :: "'f \<Rightarrow> string option"
  pl_NewMessage :: "'d \<Rightarrow> 'm"
  pl_Descriptor :: "'m \<Rightarrow> 'd"
  pl_Set :: "'m \<Rightarrow> 'f \<Rightarrow> 'm pvalue \<Rightarrow> 'm"
  pl_Has :: "'m \<Rightarrow> 'f \<Rightarrow> bool"
  pl_Get :: "'m \<Rightarrow> 'f \<Rightarrow> 'm pvalue"

section \<open>From test data to messages\<close>

datatype coerce_error =
    Expected string gov
  | UnknownEnum string
  | ListElement nat coerce_error
  | MapKeyError string coerce_error
  | MapValueError string coerce_error
  | UnknownField string
  | FieldError string coerce_error

definition bytes_of :: "gov \<Rightarrow> string option" where
  "bytes_of v =
     (case v of
        GStr s \<Rightarrow> Some s
      | GList xs \<Rightarrow> those (map (\<lambda>x. case x of GNum KUint8 i \<Rightarrow> Some (char_of (nat i)) | _ \<Rightarrow> None) xs)
      | _ \<Rightarrow> None)"

definition bytes_value :: "string \<Rightarrow> gov" where
  "bytes_value s = GList (map (\<lambda>c. GNum KUint8 (int (of_char c))) s)"

definition coerceInt32 :: "gov \<Rightarrow> coerce_error + 'm pvalue" where
  "coerceInt32 val =
     (case val of
        GNum KInt v \<Rightarrow> Inr (PInt32 (to_int32 v))
      | GNum KInt32 v \<Rightarrow> Inr (PInt32 v)
      | GNum KInt64 v \<Rightarrow> Inr (PInt32 (to_int32 v))
      | GFloat v \<Rightarrow> Inr (PInt32 (f64_to_int32 v))
      | _ \<Rightarrow> Inl (Expected ''int32'' val))"

definition coerceInt64 :: "gov \<Rightarrow> coerce_error + 'm pvalue" where
  "coerceInt64 val =
     (case val of
        GNum KInt v \<Rightarrow> Inr (PInt64 v)
      | GNum KInt32 v \<Rightarrow> Inr (PInt64 v)
      | GNum KInt64 v \<Rightarrow> Inr (PInt64 v)
      | GFloat v \<Rightarrow> Inr (PInt64 (f64_to_int v))
      | _ \<Rightarrow> Inl (Expected ''int64'' val))"

definition coerceUint32 :: "gov \<Rightarrow> coerce_error + 'm pvalue" where
  "coerceUint32 val =
     (case val of
        GNum KInt v \<Rightarrow> Inr (PUint32 (to_uint32 v))
      | GNum KUint32 v \<Rightarrow> Inr (PUint32 v)
      | GFloat v \<Rightarrow> Inr (PUint32 (to_uint32 (f64_to_int v)))
      | _ \<Rightarrow> Inl (Expected ''uint32'' val))"

definition coerceUint64 :: "gov \<Rightarrow> coerce_error + 'm pvalue" where
  "coerceUint64 val =
     (case val of
        GNum KInt v \<Rightarrow> Inr (PUint64 (to_uint64 v))
      | GNum KUint64 v \<Rightarrow> Inr (PUint64 v)
      | GFloat v \<Rightarrow> Inr (PUint64 (f64_to_uint64 v))
      | _ \<Rightarrow> Inl (Expected ''uint64'' val))"

definition coerceEnum :: "('d, 'f, 'm) proto_lib \<Rightarrow> 'f \<Rightarrow> gov \<Rightarrow> coerce_error + 'm pvalue" where
  "coerceEnum lib fd val =
     (case val of
        GNum KInt v \<Rightarrow> Inr (PEnum (to_int32 v))
      | GFloat v \<Rightarrow> Inr (PEnum (f64_to_int32 v))
      | GStr v \<Rightarrow> (case pl_EnumByName lib fd v of None \<Rightarrow> Inl (UnknownEnum v) | Some n \<Rightarrow> Inr (PEnum n))
      | _ \<Rightarrow> Inl (Expected ''enum value'' val))"

text \<open>The cases of \<open>coerceScalar\<close> that are no messages.\<close>

definition coerce_plain :: "('d, 'f, 'm) proto_lib \<Rightarrow> 'f \<Rightarrow> gov \<Rightarrow> coerce_error + 'm pvalue" where
  "coerce_plain lib fd val =
     (let k = pl_Kind lib fd in
      if k = BoolKind then (case val of GBool b \<Rightarrow> Inr (PBool b) | _ \<Rightarrow> Inl (Expected ''bool'' val))
      else if k \<in> {Int32Kind, Sint32Kind, Sfixed32Kind} then coerceInt32 val
      else if k \<in> {Int64Kind, Sint64Kind, Sfixed64Kind} then coerceInt64 val
      else if k \<in> {Uint32Kind, Fixed32Kind} then coerceUint32 val
      else if k \<in> {Uint64Kind, Fixed64Kind} then coerceUint64 val
      else if k = FloatKind then
        (case val of
           GFloat v \<Rightarrow> Inr (PFloat32 (f64_to_f32 v))
         | GFloat32 v \<Rightarrow> Inr (PFloat32 v)
         | GNum KInt v \<Rightarrow> Inr (PFloat32 (f64_to_f32 (f64_of_int v)))
         | _ \<Rightarrow> Inl (Expected ''float'' val))
      else if k = DoubleKind then
        (case val of
           GFloat v \<Rightarrow> Inr (PFloat64 v)
         | GFloat32 v \<Rightarrow> Inr (PFloat64 v)
         | GNum KInt v \<Rightarrow> Inr (PFloat64 (f64_of_int v))
         | _ \<Rightarrow> Inl (Expected ''double'' val))
      else if k = StringKind then (case val of GStr s \<Rightarrow> Inr (PString s) | _ \<Rightarrow> Inl (Expected ''string'' val))
      else if k = BytesKind then (case bytes_of val of Some s \<Rightarrow> Inr (PBytes s) | None \<Rightarrow> Inl (Expected ''bytes'' val))
      else coerceEnum lib fd val)"

definition find_field :: "('d, 'f, 'm) proto_lib \<Rightarrow> 'd \<Rightarrow> string \<Rightarrow> 'f option" where
  "find_field lib desc key =
     (case find (\<lambda>f. pl_Name lib f = key) (pl_Fields lib desc) of
        Some f \<Rightarrow> Some f
      | None \<Rightarrow> find (\<lambda>f. pl_JSONName lib f = key) (pl_Fields lib desc))"

definition is_message :: "proto_kind \<Rightarrow> bool" where
  "is_message k \<longleftrightarrow> k = MessageKind \<or> k = GroupKind"

text \<open>The fields of a message in the order Go's iteration over the map gives them; \<open>coerceSingleValue\<close> is \<open>coerceScalar\<close>.\<close>

function (sequential) set_fields :: "('d, 'f, 'm) proto_lib \<Rightarrow> 'd \<Rightarrow> (string \<times> gov) list \<Rightarrow> 'm \<Rightarrow> coerce_error + 'm"
  and coerceValue :: "('d, 'f, 'm) proto_lib \<Rightarrow> 'f \<Rightarrow> gov \<Rightarrow> coerce_error + 'm pvalue"
  and coerceScalar :: "('d, 'f, 'm) proto_lib \<Rightarrow> 'f \<Rightarrow> gov \<Rightarrow> coerce_error + 'm pvalue"
  and coerce_items :: "('d, 'f, 'm) proto_lib \<Rightarrow> 'f \<Rightarrow> nat \<Rightarrow> gov list \<Rightarrow> coerce_error + 'm pvalue list"
  and coerce_entries :: "('d, 'f, 'm) proto_lib \<Rightarrow> 'f \<Rightarrow> 'f \<Rightarrow> (string \<times> gov) list \<Rightarrow> coerce_error + ('m pvalue \<times> 'm pvalue) list"
where
  "set_fields lib desc [] msg = Inr msg"
| "set_fields lib desc ((key, val) # data) msg =
     (case find_field lib desc key of
        None \<Rightarrow> Inl (UnknownField key)
      | Some fd \<Rightarrow>
          (case coerceValue lib fd val of
             Inl e \<Rightarrow> Inl (FieldError key e)
           | Inr pv \<Rightarrow> set_fields lib desc data (pl_Set lib msg fd pv)))"
| "coerceValue lib fd val =
     (if pl_IsList lib fd then
        (case val of
           GList items \<Rightarrow> (case coerce_items lib fd 0 items of Inl e \<Rightarrow> Inl e | Inr vs \<Rightarrow> Inr (PList vs))
         | _ \<Rightarrow> Inl (Expected ''list'' val))
      else if pl_IsMap lib fd then
        (case val of
           GMap m \<Rightarrow>
             (case coerce_entries lib (pl_MapKey lib fd) (pl_MapValue lib fd) m of Inl e \<Rightarrow> Inl e | Inr vs \<Rightarrow> Inr (PMap vs))
         | _ \<Rightarrow> Inl (Expected ''map'' val))
      else coerceScalar lib fd val)"
| "coerceScalar lib fd val =
     (if is_message (pl_Kind lib fd) then
        (case val of
           GMap m \<Rightarrow>
             (case set_fields lib (pl_Message lib fd) m (pl_NewMessage lib (pl_Message lib fd)) of
                Inl e \<Rightarrow> Inl e
              | Inr sub \<Rightarrow> Inr (PMessage sub))
         | _ \<Rightarrow> Inl (Expected ''map for message'' val))
      else coerce_plain lib fd val)"
| "coerce_items lib fd i [] = Inr []"
| "coerce_items lib fd i (item # items) =
     (case coerceScalar lib fd item of
        Inl e \<Rightarrow> Inl (ListElement i e)
      | Inr ev \<Rightarrow> (case coerce_items lib fd (i + 1) items of Inl e \<Rightarrow> Inl e | Inr evs \<Rightarrow> Inr (ev # evs)))"
| "coerce_entries lib kd vd [] = Inr []"
| "coerce_entries lib kd vd ((k, v) # m) =
     (case coerceScalar lib kd (GStr k) of
        Inl e \<Rightarrow> Inl (MapKeyError k e)
      | Inr keyVal \<Rightarrow>
          (case coerceScalar lib vd v of
             Inl e \<Rightarrow> Inl (MapValueError k e)
           | Inr valVal \<Rightarrow> (case coerce_entries lib kd vd m of Inl e \<Rightarrow> Inl e | Inr es \<Rightarrow> Inr ((keyVal, valVal) # es))))"
  by pat_completeness auto
termination
  by (relation "measure (\<lambda>x. case x of
        Inl (Inl (_, _, data, _)) \<Rightarrow> 2 * size_list (size_prod (\<lambda>_. 0) size) data
      | Inl (Inr (_, _, val)) \<Rightarrow> 2 * size val + 1
      | Inr (Inl (_, _, val)) \<Rightarrow> 2 * size val
      | Inr (Inr (Inl (_, _, _, items))) \<Rightarrow> 2 * size_list size items
      | Inr (Inr (Inr (_, _, _, m))) \<Rightarrow> 2 * size_list (size_prod (\<lambda>_. 0) size) m)") auto

declare coerceValue.simps [simp del] coerceScalar.simps [simp del]

definition buildDynamicMessage :: "('d, 'f, 'm) proto_lib \<Rightarrow> 'd \<Rightarrow> (string \<times> gov) list option \<Rightarrow> coerce_error + 'm" where
  "buildDynamicMessage lib desc data =
     (case data of
        None \<Rightarrow> Inr (pl_NewMessage lib desc)
      | Some m \<Rightarrow> set_fields lib desc m (pl_NewMessage lib desc))"

section \<open>From messages to test data\<close>

text \<open>\<open>sub\<close> converts the messages inside. A value of another kind than the field's is a panic, \<^const>\<open>None\<close>.\<close>

definition singleProtoValueToGo :: "('d, 'f, 'm) proto_lib \<Rightarrow> ('m \<Rightarrow> (string \<times> gov) list option) \<Rightarrow> 'f \<Rightarrow> 'm pvalue \<Rightarrow> gov option" where
  "singleProtoValueToGo lib sub fd val =
     (let k = pl_Kind lib fd in
      case val of
        PBool b \<Rightarrow> if k = BoolKind then Some (GBool b) else None
      | PInt32 i \<Rightarrow>
          if k \<in> {Int32Kind, Sint32Kind, Sfixed32Kind} then Some (GInt i)
          else if k \<in> {Int64Kind, Sint64Kind, Sfixed64Kind} then Some (GNum KInt64 i) else None
      | PInt64 i \<Rightarrow>
          if k \<in> {Int32Kind, Sint32Kind, Sfixed32Kind} then Some (GInt i)
          else if k \<in> {Int64Kind, Sint64Kind, Sfixed64Kind} then Some (GNum KInt64 i) else None
      | PUint32 i \<Rightarrow>
          if k \<in> {Uint32Kind, Fixed32Kind} then Some (GNum KUint32 i)
          else if k \<in> {Uint64Kind, Fixed64Kind} then Some (GNum KUint64 i) else None
      | PUint64 i \<Rightarrow>
          if k \<in> {Uint32Kind, Fixed32Kind} then Some (GNum KUint32 (to_uint32 i))
          else if k \<in> {Uint64Kind, Fixed64Kind} then Some (GNum KUint64 i) else None
      | PFloat32 x \<Rightarrow> if k = FloatKind then Some (GFloat32 x) else if k = DoubleKind then Some (GFloat x) else None
      | PFloat64 x \<Rightarrow> if k = FloatKind then Some (GFloat32 (f64_to_f32 x)) else if k = DoubleKind then Some (GFloat x) else None
      | PString s \<Rightarrow> if k = StringKind then Some (GStr s) else None
      | PBytes s \<Rightarrow> if k = BytesKind then Some (bytes_value s) else None
      | PEnum i \<Rightarrow> if k = EnumKind then Some (GInt i) else None
      | PMessage m \<Rightarrow> if is_message k then map_option GMap (sub m) else None
      | _ \<Rightarrow> None)"

text \<open>\<open>%v\<close> of the key of a map.\<close>

fun key_text :: "'m pvalue \<Rightarrow> string" where
  "key_text (PString s) = s"
| "key_text (PBool b) = (if b then ''true'' else ''false'')"
| "key_text (PInt32 i) = itoa i"
| "key_text (PInt64 i) = itoa i"
| "key_text (PUint32 i) = itoa i"
| "key_text (PUint64 i) = itoa i"
| "key_text _ = []"

definition protoValueToGo :: "('d, 'f, 'm) proto_lib \<Rightarrow> ('m \<Rightarrow> (string \<times> gov) list option) \<Rightarrow> 'f \<Rightarrow> 'm pvalue \<Rightarrow> gov option" where
  "protoValueToGo lib sub fd val =
     (if pl_IsList lib fd then
        (case val of PList vs \<Rightarrow> map_option GList (those (map (singleProtoValueToGo lib sub fd) vs)) | _ \<Rightarrow> None)
      else if pl_IsMap lib fd then
        (case val of
           PMap es \<Rightarrow>
             map_option GMap (those (map (\<lambda>(k, v). map_option (Pair (key_text k)) (singleProtoValueToGo lib sub (pl_MapValue lib fd) v)) es))
         | _ \<Rightarrow> None)
      else singleProtoValueToGo lib sub fd val)"

text \<open>Messages can be inside one another to any depth; \<open>n\<close> bounds the depth.\<close>

primrec dynamicMessageToMap :: "nat \<Rightarrow> ('d, 'f, 'm) proto_lib \<Rightarrow> 'm \<Rightarrow> (string \<times> gov) list option" where
  "dynamicMessageToMap 0 lib msg = None"
| "dynamicMessageToMap (Suc n) lib msg =
     those (map (\<lambda>fd. map_option (Pair (pl_Name lib fd)) (protoValueToGo lib (dynamicMessageToMap n lib) fd (pl_Get lib msg fd)))
       (filter (pl_Has lib msg) (pl_Fields lib (pl_Descriptor lib msg))))"

section \<open>What the library promises\<close>

text \<open>Setting a field sets it, and clears the other fields of its oneof; \<open>present f p\<close> says whether a field counts as set when its
  value is \<open>p\<close>: without explicit presence a zero value does not, nor do an empty list and an empty map.\<close>

definition shares_oneof :: "('d, 'f, 'm) proto_lib \<Rightarrow> 'f \<Rightarrow> 'f \<Rightarrow> bool" where
  "shares_oneof lib f g \<longleftrightarrow> pl_Oneof lib f \<noteq> None \<and> pl_Oneof lib f = pl_Oneof lib g"

definition message_laws :: "('d, 'f, 'm) proto_lib \<Rightarrow> ('f \<Rightarrow> 'm pvalue \<Rightarrow> bool) \<Rightarrow> bool" where
  "message_laws lib present \<longleftrightarrow>
     (\<forall>d. distinct (map (pl_Name lib) (pl_Fields lib d)) \<and> pl_Descriptor lib (pl_NewMessage lib d) = d
        \<and> (\<forall>f \<in> set (pl_Fields lib d). \<not> pl_Has lib (pl_NewMessage lib d) f))
     \<and> (\<forall>m p. \<forall>f \<in> set (pl_Fields lib (pl_Descriptor lib m)).
          pl_Descriptor lib (pl_Set lib m f p) = pl_Descriptor lib m
          \<and> (\<forall>g \<in> set (pl_Fields lib (pl_Descriptor lib m)).
               pl_Has lib (pl_Set lib m f p) g = (if g = f then present f p else pl_Has lib m g \<and> \<not> shares_oneof lib f g)
               \<and> (pl_Has lib (pl_Set lib m f p) g \<longrightarrow> pl_Get lib (pl_Set lib m f p) g = (if g = f then p else pl_Get lib m g))))"

text \<open>Test data of the form the code reads from messages: each number in the type of its field and in its range, the fields of a
  message in the order of its descriptor, those that are set and no two of one oneof.\<close>

definition plain_ok :: "proto_kind \<Rightarrow> gov \<Rightarrow> bool" where
  "plain_ok k v =
     (if k = BoolKind then (\<exists>b. v = GBool b)
      else if k \<in> {Int32Kind, Sint32Kind, Sfixed32Kind, EnumKind} then (\<exists>i. v = GInt i \<and> in_int32 i)
      else if k \<in> {Int64Kind, Sint64Kind, Sfixed64Kind} then (\<exists>i. v = GNum KInt64 i)
      else if k \<in> {Uint32Kind, Fixed32Kind} then (\<exists>i. v = GNum KUint32 i)
      else if k \<in> {Uint64Kind, Fixed64Kind} then (\<exists>i. v = GNum KUint64 i)
      else if k = FloatKind then (\<exists>x. v = GFloat32 x)
      else if k = DoubleKind then (\<exists>x. v = GFloat x)
      else if k = StringKind then (\<exists>s. v = GStr s)
      else k = BytesKind \<and> (\<exists>s. v = bytes_value s))"

inductive
  fit_message :: "('d, 'f, 'm) proto_lib \<Rightarrow> ('f \<Rightarrow> 'm pvalue \<Rightarrow> bool) \<Rightarrow> 'd \<Rightarrow> (string \<times> gov) list \<Rightarrow> bool" and
  fit_value :: "('d, 'f, 'm) proto_lib \<Rightarrow> ('f \<Rightarrow> 'm pvalue \<Rightarrow> bool) \<Rightarrow> 'f \<Rightarrow> gov \<Rightarrow> bool" and
  fit_single :: "('d, 'f, 'm) proto_lib \<Rightarrow> ('f \<Rightarrow> 'm pvalue \<Rightarrow> bool) \<Rightarrow> 'f \<Rightarrow> gov \<Rightarrow> bool"
  for lib :: "('d, 'f, 'm) proto_lib" and present :: "'f \<Rightarrow> 'm pvalue \<Rightarrow> bool"
where
  fit_data: "fds = filter (\<lambda>f. f \<in> set fds) (pl_Fields lib d) \<Longrightarrow>
    list_all2 (\<lambda>f (k, v). k = pl_Name lib f \<and> fit_value lib present f v \<and> (\<forall>p. coerceValue lib f v = Inr p \<longrightarrow> present f p)) fds data \<Longrightarrow>
    (\<forall>f \<in> set fds. \<forall>g \<in> set fds. f \<noteq> g \<longrightarrow> \<not> shares_oneof lib f g) \<Longrightarrow> fit_message lib present d data"
| fit_list: "pl_IsList lib f \<Longrightarrow> list_all (fit_single lib present f) xs \<Longrightarrow> fit_value lib present f (GList xs)"
| fit_map: "\<not> pl_IsList lib f \<Longrightarrow> pl_IsMap lib f \<Longrightarrow> pl_Kind lib (pl_MapKey lib f) = StringKind \<Longrightarrow>
    list_all (fit_single lib present (pl_MapValue lib f)) (map snd m) \<Longrightarrow> fit_value lib present f (GMap m)"
| fit_one: "\<not> pl_IsList lib f \<Longrightarrow> \<not> pl_IsMap lib f \<Longrightarrow> fit_single lib present f v \<Longrightarrow> fit_value lib present f v"
| fit_plain: "\<not> is_message (pl_Kind lib f) \<Longrightarrow> plain_ok (pl_Kind lib f) v \<Longrightarrow> fit_single lib present f v"
| fit_sub: "is_message (pl_Kind lib f) \<Longrightarrow> fit_message lib present (pl_Message lib f) data \<Longrightarrow> fit_single lib present f (GMap data)"

section \<open>Setting and reading the fields of a message\<close>

lemma those_map: "list_all2 (\<lambda>x y. g x = Some y) xs ys \<Longrightarrow> those (map g xs) = Some ys"
  by (induction rule: list_all2_induct) simp_all

lemma bytes_of_value: "bytes_of (bytes_value s) = Some s"
  unfolding bytes_of_def bytes_value_def
  by (simp add: comp_def) (rule those_map, simp add: list_all2_conv_all_nth)

text \<open>A single value that is no message.\<close>

lemma plain_roundtrip:
  assumes "\<not> is_message (pl_Kind lib f)" "plain_ok (pl_Kind lib f) v"
  shows "\<exists>p. coerceScalar lib f v = Inr p \<and> singleProtoValueToGo lib sub f p = Some v"
proof -
  have "coerceScalar lib f v = coerce_plain lib f v" using assms(1) by (simp add: coerceScalar.simps)
  with assms show ?thesis
    by (cases "pl_Kind lib f")
      (auto simp: coerce_plain_def plain_ok_def is_message_def singleProtoValueToGo_def coerceInt32_def coerceInt64_def
         coerceUint32_def coerceUint64_def coerceEnum_def bytes_of_value)
qed

definition set_pairs :: "('d, 'f, 'm) proto_lib \<Rightarrow> ('f \<times> 'm pvalue) list \<Rightarrow> 'm \<Rightarrow> 'm" where
  "set_pairs lib fps m = fold (\<lambda>(f, p) m. pl_Set lib m f p) fps m"

lemma find_field_name:
  assumes "distinct (map (pl_Name lib) (pl_Fields lib d))" "f \<in> set (pl_Fields lib d)"
  shows "find_field lib d (pl_Name lib f) = Some f"
proof -
  have "find (\<lambda>g. pl_Name lib g = pl_Name lib f) (pl_Fields lib d) \<noteq> None"
    using assms(2) by (auto simp: find_None_iff)
  then obtain g where g: "find (\<lambda>g. pl_Name lib g = pl_Name lib f) (pl_Fields lib d) = Some g" by auto
  then have "g \<in> set (pl_Fields lib d)" "pl_Name lib g = pl_Name lib f" by (auto simp: find_Some_iff)
  then have "g = f" using assms by (simp add: distinct_map inj_on_def)
  with g show ?thesis by (simp add: find_field_def)
qed

lemma set_fields_pairs:
  "list_all2 (\<lambda>(f, p) (k, v). k = pl_Name lib f \<and> f \<in> set (pl_Fields lib d) \<and> coerceValue lib f v = Inr p) fps data \<Longrightarrow>
   distinct (map (pl_Name lib) (pl_Fields lib d)) \<Longrightarrow> set_fields lib d data m = Inr (set_pairs lib fps m)"
  by (induction fps data arbitrary: m rule: list_all2_induct) (auto simp: set_pairs_def find_field_name)

lemma set_pairs_get:
  assumes laws: "message_laws lib present"
  shows "distinct (map fst fps) \<Longrightarrow> fst ` set fps \<subseteq> set (pl_Fields lib d) \<Longrightarrow> \<forall>(f, p) \<in> set fps. present f p \<Longrightarrow>
    \<forall>f \<in> fst ` set fps. \<forall>g \<in> fst ` set fps. f \<noteq> g \<longrightarrow> \<not> shares_oneof lib f g \<Longrightarrow>
    pl_Descriptor lib (set_pairs lib fps (pl_NewMessage lib d)) = d
    \<and> (\<forall>g \<in> set (pl_Fields lib d). pl_Has lib (set_pairs lib fps (pl_NewMessage lib d)) g = (g \<in> fst ` set fps))
    \<and> (\<forall>(f, p) \<in> set fps. pl_Get lib (set_pairs lib fps (pl_NewMessage lib d)) f = p)"
proof (induction fps rule: rev_induct)
  case Nil
  then show ?case using laws by (simp add: set_pairs_def message_laws_def)
next
  case (snoc fp fps)
  obtain f p where fp: "fp = (f, p)" by (cases fp)
  let ?m = "set_pairs lib fps (pl_NewMessage lib d)"
  have IH: "pl_Descriptor lib ?m = d" "\<forall>g \<in> set (pl_Fields lib d). pl_Has lib ?m g = (g \<in> fst ` set fps)"
    "\<forall>(f, p) \<in> set fps. pl_Get lib ?m f = p" using snoc by auto
  have f: "f \<in> set (pl_Fields lib d)" "present f p" "f \<notin> fst ` set fps" using snoc.prems by (auto simp: fp)
  have apart: "\<not> shares_oneof lib f g" if "g \<in> fst ` set fps" for g using snoc.prems(4) that f(3) by (auto simp: fp)
  have s: "pl_Descriptor lib (pl_Set lib ?m f p) = d"
    "\<forall>g \<in> set (pl_Fields lib d).
       pl_Has lib (pl_Set lib ?m f p) g = (if g = f then present f p else pl_Has lib ?m g \<and> \<not> shares_oneof lib f g)
       \<and> (pl_Has lib (pl_Set lib ?m f p) g \<longrightarrow> pl_Get lib (pl_Set lib ?m f p) g = (if g = f then p else pl_Get lib ?m g))"
    using laws f(1) IH(1) unfolding message_laws_def by metis+
  have has: "pl_Has lib (pl_Set lib ?m f p) g = (g \<in> fst ` set (fps @ [fp]))" if "g \<in> set (pl_Fields lib d)" for g
    using s(2) that IH(2) f(2) apart[of g] by (auto simp: fp)
  have "pl_Get lib (pl_Set lib ?m f p) g = q" if "(g, q) \<in> set (fps @ [fp])" for g q
  proof -
    have g: "g \<in> set (pl_Fields lib d)" using that snoc.prems(2) by force
    then have "pl_Has lib (pl_Set lib ?m f p) g" using has[OF g] that by force
    then have "pl_Get lib (pl_Set lib ?m f p) g = (if g = f then p else pl_Get lib ?m g)" using s(2) g by blast
    with that IH(3) f(3) show ?thesis by (auto simp: fp image_iff)
  qed
  moreover have "set_pairs lib (fps @ [fp]) (pl_NewMessage lib d) = pl_Set lib ?m f p" by (simp add: set_pairs_def fp)
  ultimately show ?case using s(1) has by auto
qed

section \<open>Round trip\<close>

text \<open>What a value turns into and back, from some depth on.\<close>

definition single_back :: "('d, 'f, 'm) proto_lib \<Rightarrow> 'f \<Rightarrow> gov \<Rightarrow> nat \<Rightarrow> 'm pvalue \<Rightarrow> bool" where
  "single_back lib f v n p \<longleftrightarrow>
     coerceScalar lib f v = Inr p \<and> (\<forall>k \<ge> n. singleProtoValueToGo lib (dynamicMessageToMap k lib) f p = Some v)"

definition value_back :: "('d, 'f, 'm) proto_lib \<Rightarrow> 'f \<Rightarrow> gov \<Rightarrow> nat \<Rightarrow> 'm pvalue \<Rightarrow> bool" where
  "value_back lib f v n p \<longleftrightarrow>
     coerceValue lib f v = Inr p \<and> (\<forall>k \<ge> n. protoValueToGo lib (dynamicMessageToMap k lib) f p = Some v)"

definition message_back :: "('d, 'f, 'm) proto_lib \<Rightarrow> 'd \<Rightarrow> (string \<times> gov) list \<Rightarrow> nat \<Rightarrow> 'm \<Rightarrow> bool" where
  "message_back lib d data n m \<longleftrightarrow>
     set_fields lib d data (pl_NewMessage lib d) = Inr m \<and> (\<forall>k \<ge> n. dynamicMessageToMap k lib m = Some data)"

lemma single_back_mono: "single_back lib f v n p \<Longrightarrow> n \<le> n' \<Longrightarrow> single_back lib f v n' p"
  by (simp add: single_back_def)

lemma items_back:
  "list_all (\<lambda>v. \<exists>n p. single_back lib f v n p) xs \<Longrightarrow>
   \<exists>n ps. (\<forall>i. coerce_items lib f i xs = Inr ps) \<and> list_all2 (\<lambda>v p. single_back lib f v n p) xs ps"
proof (induction xs)
  case (Cons v xs)
  then obtain n p n' ps where "single_back lib f v n p" "\<forall>i. coerce_items lib f i xs = Inr ps"
    "list_all2 (\<lambda>v p. single_back lib f v n' p) xs ps" by auto
  then have "single_back lib f v (max n n') p" "list_all2 (\<lambda>v p. single_back lib f v (max n n') p) xs ps"
    by (auto intro: single_back_mono elim!: list_all2_mono)
  with \<open>\<forall>i. coerce_items lib f i xs = Inr ps\<close> show ?case
    by (intro exI[of _ "max n n'"] exI[of _ "p # ps"]) (simp add: single_back_def)
qed simp

lemma entries_back:
  "list_all (\<lambda>v. \<exists>n p. single_back lib vd v n p) (map snd m) \<Longrightarrow> pl_Kind lib kd = StringKind \<Longrightarrow>
   \<exists>n ps. coerce_entries lib kd vd m = Inr (map2 (\<lambda>(k, v) p. (PString k, p)) m ps) \<and> list_all2 (\<lambda>(k, v) p. single_back lib vd v n p) m ps"
proof (induction m)
  case (Cons kv m)
  obtain k v where kv: "kv = (k, v)" by (cases kv)
  from Cons obtain n p n' ps where IH: "single_back lib vd v n p" "coerce_entries lib kd vd m = Inr (map2 (\<lambda>(k, v) p. (PString k, p)) m ps)"
    "list_all2 (\<lambda>(k, v) p. single_back lib vd v n' p) m ps" by (auto simp: kv)
  have "coerceScalar lib kd (GStr k) = Inr (PString k)"
    using Cons.prems(2) by (simp add: coerceScalar.simps coerce_plain_def is_message_def)
  moreover have "single_back lib vd v (max n n') p" "list_all2 (\<lambda>(k, v) p. single_back lib vd v (max n n') p) m ps"
    using IH(1,3) by (auto intro: single_back_mono elim!: list_all2_mono)
  ultimately show ?case using IH(2)
    by (intro exI[of _ "max n n'"] exI[of _ "p # ps"]) (simp add: kv single_back_def)
qed simp

lemma value_back_mono: "value_back lib f v n p \<Longrightarrow> n \<le> n' \<Longrightarrow> value_back lib f v n' p"
  by (simp add: value_back_def)

lemma fields_back:
  "list_all2 (\<lambda>f (k, v). k = pl_Name lib f \<and> (\<exists>n p. value_back lib f v n p) \<and> (\<forall>p. coerceValue lib f v = Inr p \<longrightarrow> present f p)) fds data \<Longrightarrow>
   \<exists>n ps. list_all2 (\<lambda>(f, p) (k, v). k = pl_Name lib f \<and> value_back lib f v n p \<and> present f p) (zip fds ps) data \<and> length ps = length fds"
proof (induction fds data rule: list_all2_induct)
  case (Cons f fds kv data)
  obtain k v where kv: "kv = (k, v)" by (cases kv)
  from Cons obtain n p n' ps where IH: "k = pl_Name lib f" "value_back lib f v n p" "present f p" "length ps = length fds"
    "list_all2 (\<lambda>(f, p) (k, v). k = pl_Name lib f \<and> value_back lib f v n' p \<and> present f p) (zip fds ps) data"
    by (auto simp: kv value_back_def)
  have "value_back lib f v (max n n') p"
    "list_all2 (\<lambda>(f, p) (k, v). k = pl_Name lib f \<and> value_back lib f v (max n n') p \<and> present f p) (zip fds ps) data"
    using IH(2,5) by (auto intro: value_back_mono elim!: list_all2_mono)
  with IH(1,3,4) show ?case by (intro exI[of _ "max n n'"] exI[of _ "p # ps"]) (simp add: kv)
qed simp

lemma message_fields_back:
  assumes laws: "message_laws lib present"
    and order: "fds = filter (\<lambda>f. f \<in> set fds) (pl_Fields lib d)"
    and fit: "list_all2 (\<lambda>f (k, v). k = pl_Name lib f \<and> (\<exists>n p. value_back lib f v n p) \<and> (\<forall>p. coerceValue lib f v = Inr p \<longrightarrow> present f p))
      fds data"
    and oneofs: "\<forall>f \<in> set fds. \<forall>g \<in> set fds. f \<noteq> g \<longrightarrow> \<not> shares_oneof lib f g"
  shows "\<exists>n m. message_back lib d data n m"
proof -
  obtain n ps where ps: "length ps = length fds"
    "list_all2 (\<lambda>(f, p) (k, v). k = pl_Name lib f \<and> value_back lib f v n p \<and> present f p) (zip fds ps) data"
    using fields_back[OF fit] by blast
  let ?fps = "zip fds ps" and ?m = "set_pairs lib (zip fds ps) (pl_NewMessage lib d)"
  have names: "distinct (map (pl_Name lib) (pl_Fields lib d))" using laws by (simp add: message_laws_def)
  have sub: "set fds \<subseteq> set (pl_Fields lib d)" using order by (metis filter_is_subset)
  have "distinct (pl_Fields lib d)" using names by (simp add: distinct_map)
  then have dist: "distinct fds" using order by (metis distinct_filter)
  have fst: "map fst ?fps = fds" using ps(1) by simp
  have img: "fst ` set ?fps = set fds" using fst by (metis set_map)
  have pres: "\<forall>(f, p) \<in> set ?fps. present f p"
    using ps by (auto simp: list_all2_conv_all_nth set_conv_nth split_beta)
  have get: "pl_Descriptor lib ?m = d" "\<forall>g \<in> set (pl_Fields lib d). pl_Has lib ?m g = (g \<in> set fds)"
    "\<forall>(f, p) \<in> set ?fps. pl_Get lib ?m f = p"
    using set_pairs_get[OF laws, of ?fps d] fst dist sub pres oneofs unfolding img by auto
  have "list_all2 (\<lambda>(f, p) (k, v). k = pl_Name lib f \<and> f \<in> set (pl_Fields lib d) \<and> coerceValue lib f v = Inr p) ?fps data"
    using ps sub by (auto simp: list_all2_conv_all_nth value_back_def split_beta dest: nth_mem)
  then have "set_fields lib d data (pl_NewMessage lib d) = Inr ?m" using names by (rule set_fields_pairs)
  moreover have "dynamicMessageToMap k lib ?m = Some data" if k: "Suc n \<le> k" for k
  proof -
    obtain j where j: "k = Suc j" "n \<le> j" using k by (cases k) auto
    have "filter (pl_Has lib ?m) (pl_Fields lib d) = filter (\<lambda>f. f \<in> set fds) (pl_Fields lib d)"
      using get(2) by (intro filter_cong) auto
    also have "\<dots> = fds" using order by simp
    finally have has: "filter (pl_Has lib ?m) (pl_Fields lib d) = fds" .
    have "list_all2 (\<lambda>f kv. map_option (Pair (pl_Name lib f)) (protoValueToGo lib (dynamicMessageToMap j lib) f (pl_Get lib ?m f)) = Some kv) fds data"
      unfolding list_all2_conv_all_nth
    proof (intro conjI allI impI)
      show "length fds = length data" using ps by (auto dest: list_all2_lengthD)
      fix i assume i: "i < length fds"
      then have "(fds ! i, ps ! i) \<in> set ?fps" using ps(1) by (auto simp: set_zip)
      then have "pl_Get lib ?m (fds ! i) = ps ! i" using get(3) by auto
      moreover have "fst (data ! i) = pl_Name lib (fds ! i)" "value_back lib (fds ! i) (snd (data ! i)) n (ps ! i)"
        using ps i by (auto simp: list_all2_conv_all_nth split_beta)
      ultimately show "map_option (Pair (pl_Name lib (fds ! i)))
          (protoValueToGo lib (dynamicMessageToMap j lib) (fds ! i) (pl_Get lib ?m (fds ! i))) = Some (data ! i)"
        using j(2) by (simp add: value_back_def) (metis prod.collapse)
    qed
    from those_map[OF this] show ?thesis by (simp add: j(1) get(1) has)
  qed
  ultimately show ?thesis unfolding message_back_def by blast
qed

lemma fit_back:
  fixes lib :: "('d, 'f, 'm) proto_lib"
  assumes laws: "message_laws lib present"
  shows "fit_message lib present d data \<Longrightarrow> \<exists>n m. message_back lib d data n m"
    "fit_value lib present f v \<Longrightarrow> \<exists>n p. value_back lib f v n p"
    "fit_single lib present f v \<Longrightarrow> \<exists>n p. single_back lib f v n p"
proof (induction rule: fit_message_fit_value_fit_single.inducts)
  case (fit_data fds d data)
  show ?case
    by (rule message_fields_back[OF laws fit_data(1) _ fit_data(3)]) (rule list_all2_mono[OF fit_data(2)], auto)
next
  case (fit_list f xs)
  then obtain n ps where ps: "\<forall>i. coerce_items lib f i xs = Inr ps" "list_all2 (\<lambda>v p. single_back lib f v n p) xs ps"
    using items_back[of lib f xs] by (auto simp: list_all_iff)
  have "those (map (singleProtoValueToGo lib (dynamicMessageToMap k lib) f) ps) = Some xs" if "n \<le> k" for k
    using ps(2) that by (intro those_map) (auto simp: list_all2_conv_all_nth single_back_def)
  with fit_list(1) ps(1) have "value_back lib f (GList xs) n (PList ps)"
    by (simp add: value_back_def coerceValue.simps protoValueToGo_def)
  then show ?case by blast
next
  case (fit_map f m)
  then obtain n ps where ps: "coerce_entries lib (pl_MapKey lib f) (pl_MapValue lib f) m = Inr (map2 (\<lambda>(k, v) p. (PString k, p)) m ps)"
    "list_all2 (\<lambda>(k, v) p. single_back lib (pl_MapValue lib f) v n p) m ps"
    using entries_back[of lib "pl_MapValue lib f" m "pl_MapKey lib f"] by (auto simp: list_all_iff)
  define es :: "('m pvalue \<times> 'm pvalue) list" where "es = map2 (\<lambda>(k, v) p. (PString k, p)) m ps"
  have "those (map (\<lambda>(k, v). map_option (Pair (key_text k)) (singleProtoValueToGo lib (dynamicMessageToMap j lib) (pl_MapValue lib f) v)) es) = Some m"
    if "n \<le> j" for j
    using ps(2) that unfolding es_def by (intro those_map) (auto simp: list_all2_conv_all_nth single_back_def split_beta)
  moreover have "coerceValue lib f (GMap m) = Inr (PMap es)"
    using fit_map(1,2) ps(1)[folded es_def] by (simp add: coerceValue.simps)
  ultimately have "value_back lib f (GMap m) n (PMap es)"
    using fit_map(1,2) by (simp add: value_back_def protoValueToGo_def)
  then show ?case by blast
next
  case (fit_one f v)
  then obtain n p where "single_back lib f v n p" by blast
  with fit_one(1,2) have "value_back lib f v n p"
    by (simp add: value_back_def single_back_def coerceValue.simps protoValueToGo_def)
  then show ?case by blast
next
  case (fit_plain f v)
  obtain p where "coerceScalar lib f v = Inr p" using plain_roundtrip[OF fit_plain] by blast
  moreover have "singleProtoValueToGo lib sub f p = Some v" for sub using plain_roundtrip[OF fit_plain, of sub] calculation by simp
  ultimately have "single_back lib f v 0 p" by (simp add: single_back_def)
  then show ?case by blast
next
  case (fit_sub f data)
  then obtain n m where "message_back lib (pl_Message lib f) data n m" by blast
  with fit_sub(1) have "single_back lib f (GMap data) n (PMessage m)"
    by (simp add: single_back_def message_back_def coerceScalar.simps singleProtoValueToGo_def)
  then show ?case by blast
qed

text \<open>C28: messages carry test data unchanged. With a library that keeps what is set, data of the form that is read from messages, of any
  nesting of messages, lists and maps, can be built into a message, and reading this message gives the same data.\<close>

theorem message_roundtrip:
  assumes "message_laws lib present" "fit_message lib present d data"
  shows "\<exists>m n. buildDynamicMessage lib d (Some data) = Inr m \<and> (\<forall>k \<ge> n. dynamicMessageToMap k lib m = Some data)"
  using fit_back(1)[OF assms] by (auto simp: message_back_def buildDynamicMessage_def)

text \<open>A library with two message types, all of whose fields have explicit presence.\<close>

datatype demo_message = DMsg nat "(string \<times> demo_message pvalue) list"

fun demo_fields :: "nat \<Rightarrow> string list" where
  "demo_fields 0 = [''id'', ''sub'', ''tags'']"
| "demo_fields _ = [''ok'']"

fun demo_get :: "demo_message \<Rightarrow> string \<Rightarrow> demo_message pvalue option" where
  "demo_get (DMsg d m) f = map_of m f"

fun demo_set :: "demo_message \<Rightarrow> string \<Rightarrow> demo_message pvalue \<Rightarrow> demo_message" where
  "demo_set (DMsg d m) f p = DMsg d (AList.update f p m)"

fun demo_type :: "demo_message \<Rightarrow> nat" where
  "demo_type (DMsg d m) = d"

definition demo_proto :: "(nat, string, demo_message) proto_lib" where
  "demo_proto = \<lparr>pl_Fields = demo_fields, pl_Name = (\<lambda>f. f), pl_JSONName = (\<lambda>f. f),
     pl_Kind = (\<lambda>f. if f = ''id'' then Int32Kind else if f = ''sub'' then MessageKind else if f = ''tags'' then StringKind else BoolKind),
     pl_IsList = (\<lambda>f. f = ''tags''), pl_IsMap = (\<lambda>f. False), pl_MapKey = (\<lambda>f. f), pl_MapValue = (\<lambda>f. f), pl_Message = (\<lambda>f. 1),
     pl_EnumByName = (\<lambda>f s. None), pl_Oneof = (\<lambda>f. None), pl_NewMessage = (\<lambda>d. DMsg d []), pl_Descriptor = demo_type,
     pl_Set = demo_set, pl_Has = (\<lambda>m f. demo_get m f \<noteq> None),
     pl_Get = (\<lambda>m f. case demo_get m f of Some p \<Rightarrow> p | None \<Rightarrow> PBool False)\<rparr>"

lemma demo_laws: "message_laws demo_proto (\<lambda>f p. True)"
proof -
  have "distinct (demo_fields d)" for d by (cases d) simp_all
  moreover have "demo_type (demo_set m f p) = demo_type m" "demo_get (demo_set m f p) g = (if g = f then Some p else demo_get m g)" for m f p g
    by (cases m; simp add: update_conv')+
  ultimately show ?thesis by (simp add: message_laws_def demo_proto_def shares_oneof_def)
qed

definition demo_message_data :: "(string \<times> gov) list" where
  "demo_message_data = [(''id'', GInt 7), (''sub'', GMap [(''ok'', GBool True)]), (''tags'', GList [GStr ''a''])]"

lemma demo_fits: "fit_message demo_proto (\<lambda>f p. True) 0 demo_message_data"
proof -
  have one: "fit_value demo_proto (\<lambda>f p. True) f v" if "f \<in> {''id'', ''ok''}" "plain_ok (pl_Kind demo_proto f) v" for f v
    using that by (intro fit_one fit_plain) (auto simp: demo_proto_def is_message_def)
  have "fit_value demo_proto (\<lambda>f p. True) ''ok'' (GBool True)" "fit_value demo_proto (\<lambda>f p. True) ''id'' (GInt 7)"
    by (rule one; auto simp: demo_proto_def plain_ok_def in_int32_def)+
  moreover from this(1) have "fit_message demo_proto (\<lambda>f p. True) 1 [(''ok'', GBool True)]"
    by (intro fit_data[where fds = "[''ok'']"]) (simp_all add: demo_proto_def)
  then have "fit_value demo_proto (\<lambda>f p. True) ''sub'' (GMap [(''ok'', GBool True)])"
    by (intro fit_one fit_sub) (simp_all add: demo_proto_def is_message_def)
  moreover have "fit_value demo_proto (\<lambda>f p. True) ''tags'' (GList [GStr ''a''])"
    by (rule fit_list) (simp_all add: demo_proto_def fit_plain is_message_def plain_ok_def)
  ultimately show ?thesis
    unfolding demo_message_data_def
    by (intro fit_data[where fds = "[''id'', ''sub'', ''tags'']"]) (simp_all add: demo_proto_def shares_oneof_def)
qed

theorem message_roundtrip_witness:
  "\<exists>m n. buildDynamicMessage demo_proto 0 (Some [(''id'', GInt 7), (''sub'', GMap [(''ok'', GBool True)]), (''tags'', GList [GStr ''a''])]) = Inr m
    \<and> dynamicMessageToMap n demo_proto m = Some [(''id'', GInt 7), (''sub'', GMap [(''ok'', GBool True)]), (''tags'', GList [GStr ''a''])]"
  using message_roundtrip[OF demo_laws demo_fits] by (auto simp: demo_message_data_def)

end
