(* ===== verification/Grpc_Connector.thy ===== *)
theory Grpc_Connector
  imports Grpc_Messages Runner
begin

text \<open>
  connector/grpc: the reflection client (reflect.go), calls and streams (unary.go, stream.go), metadata, status and dialling. The
  server and the gRPC library act on a world of any type: the reflection stream answers requests, a call exchanges
  messages, a stream is opened, sent to and received from. Descriptor files are what their bytes unmarshal to;
  building descriptors from them is a parameter, as in \<open>Grpc_Messages\<close>. Where the code can run for ever a function
  returns an option, \<^const>\<open>None\<close> when it does (or panics).
\<close>

section \<open>Dependencies of descriptor files\<close>

record 'x file_proto =
  fp_Name :: string
  fp_Dependency :: "string list"
  fp_Rest :: 'x

type_synonym 'x files = "(string \<times> 'x file_proto) list"

definition missing_in :: "'x files \<Rightarrow> string \<Rightarrow> bool" where
  "missing_in allFiles dep \<longleftrightarrow> map_of allFiles dep = None"

definition collectMissingDeps :: "'x files \<Rightarrow> string list" where
  "collectMissingDeps allFiles = remdups (filter (missing_in allFiles) (concat (map (\<lambda>(n, fd). fp_Dependency fd) allFiles)))"

definition add_files :: "'x file_proto list \<Rightarrow> 'x files \<Rightarrow> 'x files" where
  "add_files fds allFiles = fold (\<lambda>fd. AList.update (fp_Name fd) fd) fds allFiles"

type_synonym ('x, 'w) depFetcher = "string \<Rightarrow> 'w \<Rightarrow> (string + 'x file_proto list) \<times> 'w"

fun fetch_all :: "('x, 'w) depFetcher \<Rightarrow> string list \<Rightarrow> 'x files \<Rightarrow> 'w \<Rightarrow> (string + 'x files) \<times> 'w" where
  "fetch_all fetch [] allFiles w = (Inr allFiles, w)"
| "fetch_all fetch (filename # missing) allFiles w =
     (case fetch filename w of
        (Inl err, w1) \<Rightarrow> (Inl err, w1)
      | (Inr fds, w1) \<Rightarrow> fetch_all fetch missing (add_files fds allFiles) w1)"

partial_function (option) resolveTransitiveDeps ::
  "('x, 'w) depFetcher \<Rightarrow> 'x files \<Rightarrow> 'w \<Rightarrow> ((string + 'x files) \<times> 'w) option" where
  "resolveTransitiveDeps fetch allFiles w =
     (let missing = collectMissingDeps allFiles in
      if missing = [] then Some (Inr allFiles, w)
      else (case fetch_all fetch missing allFiles w of
          (Inl err, w1) \<Rightarrow> Some (Inl err, w1)
        | (Inr files, w1) \<Rightarrow> resolveTransitiveDeps fetch files w1))"

text \<open>The store of files, all under their names, from a universe of file names that their dependencies do not leave.\<close>

definition files_in :: "string set \<Rightarrow> 'x files \<Rightarrow> bool" where
  "files_in U allFiles \<longleftrightarrow> (\<forall>(n, fd) \<in> set allFiles. n \<in> U \<and> set (fp_Dependency fd) \<subseteq> U)"

definition serves :: "string set \<Rightarrow> ('x, 'w) depFetcher \<Rightarrow> bool" where
  "serves U fetch \<longleftrightarrow>
     (\<forall>f \<in> U. \<forall>w. \<exists>fds w'. fetch f w = (Inr fds, w') \<and> f \<in> fp_Name ` set fds
       \<and> (\<forall>fd \<in> set fds. fp_Name fd \<in> U \<and> set (fp_Dependency fd) \<subseteq> U))"

lemma dom_add_files: "fst ` set (add_files fds files) = fp_Name ` set fds \<union> fst ` set files"
proof (induction fds arbitrary: files)
  case (Cons fd fds)
  have "fst ` set (AList.update (fp_Name fd) fd files) = dom (map_of (AList.update (fp_Name fd) fd files))"
    by (simp add: dom_map_of_conv_image_fst)
  also have "\<dots> = insert (fp_Name fd) (fst ` set files)" by (simp add: update_conv' dom_map_of_conv_image_fst)
  finally show ?case using Cons[of "AList.update (fp_Name fd) fd files"] by (simp add: add_files_def)
qed (simp add: add_files_def)

lemma set_update_subset: "set (AList.update k v xs) \<subseteq> insert (k, v) (set xs)"
  by (induction xs) auto

lemma files_in_add: "files_in U files \<Longrightarrow> \<forall>fd \<in> set fds. fp_Name fd \<in> U \<and> set (fp_Dependency fd) \<subseteq> U \<Longrightarrow> files_in U (add_files fds files)"
proof (induction fds arbitrary: files)
  case (Cons fd fds)
  have "x = (fp_Name fd, fd) \<or> x \<in> set files" if "x \<in> set (AList.update (fp_Name fd) fd files)" for x
    using that by (induction files) (auto split: if_splits)
  with Cons.prems have "files_in U (AList.update (fp_Name fd) fd files)" unfolding files_in_def by (metis (mono_tags, lifting) case_prodI list.set_intros(1))
  from Cons.IH[OF this] Cons.prems(2) show ?case by (simp add: add_files_def)
qed (simp add: add_files_def)

lemma fetch_all_serves:
  assumes "serves U fetch"
  shows "set missing \<subseteq> U \<Longrightarrow> files_in U files \<Longrightarrow>
    \<exists>files' w'. fetch_all fetch missing files w = (Inr files', w') \<and> files_in U files' \<and> set missing \<union> fst ` set files \<subseteq> fst ` set files'"
proof (induction missing arbitrary: files w)
  case (Cons f missing)
  obtain fds w1 where f: "fetch f w = (Inr fds, w1)" "f \<in> fp_Name ` set fds"
    "\<forall>fd \<in> set fds. fp_Name fd \<in> U \<and> set (fp_Dependency fd) \<subseteq> U"
    using assms Cons.prems(1) unfolding serves_def by (metis list.set_intros(1) subsetD)
  have "files_in U (add_files fds files)" using files_in_add[OF Cons.prems(2) f(3)] .
  from Cons.IH[OF _ this, of w1] Cons.prems(1) obtain files' w' where
    "fetch_all fetch missing (add_files fds files) w1 = (Inr files', w')" "files_in U files'"
    "set missing \<union> fst ` set (add_files fds files) \<subseteq> fst ` set files'" by auto
  with f show ?case by (auto simp: dom_add_files)
qed simp

lemma missing_set: "set (collectMissingDeps files) = {d. \<exists>(n, fd) \<in> set files. d \<in> set (fp_Dependency fd)} - fst ` set files"
  by (auto simp: collectMissingDeps_def missing_in_def map_of_eq_None_iff)

text \<open>C29: dependencies are resolved. When the server has finitely many files, of which each is answered with itself, the loop ends, and
  with the files it had it has all the files they depend on, directly or not, and no others than the server's.\<close>

theorem deps_resolved:
  assumes "finite U" "serves U fetch" "files_in U files"
  shows "\<exists>files' w'. resolveTransitiveDeps fetch files w = Some (Inr files', w') \<and> fst ` set files \<subseteq> fst ` set files'
    \<and> fst ` set files' \<subseteq> U \<and> (\<forall>(n, fd) \<in> set files'. set (fp_Dependency fd) \<subseteq> fst ` set files')"
  using assms(3)
proof (induction "card (U - fst ` set files)" arbitrary: files w rule: less_induct)
  case less
  have names: "fst ` set files \<subseteq> U" using less.prems by (auto simp: files_in_def)
  show ?case
  proof (cases "collectMissingDeps files = []")
    case True
    have "set (collectMissingDeps files) = {}" using True by simp
    then have "\<forall>(n, fd) \<in> set files. set (fp_Dependency fd) \<subseteq> fst ` set files" unfolding missing_set by blast
    moreover have "resolveTransitiveDeps fetch files w = Some (Inr files, w)"
      using True by (subst resolveTransitiveDeps.simps) simp
    ultimately show ?thesis using names by blast
  next
    case False
    have sub: "set (collectMissingDeps files) \<subseteq> U" using less.prems by (auto simp: missing_set files_in_def)
    obtain files1 w1 where f: "fetch_all fetch (collectMissingDeps files) files w = (Inr files1, w1)" "files_in U files1"
      "set (collectMissingDeps files) \<union> fst ` set files \<subseteq> fst ` set files1"
      using fetch_all_serves[OF assms(2) sub less.prems] by blast
    obtain d where d: "d \<in> set (collectMissingDeps files)" using False by (cases "collectMissingDeps files") auto
    have "d \<notin> fst ` set files" using d unfolding missing_set by blast
    moreover have "d \<in> U" using sub d by (rule subsetD)
    moreover have "d \<in> fst ` set files1" using f(3) d by (meson Un_subset_iff subsetD)
    ultimately have "U - fst ` set files1 \<subset> U - fst ` set files" using f(3) by auto
    then have "card (U - fst ` set files1) < card (U - fst ` set files)" using assms(1) by (intro psubset_card_mono) auto
    from less.hyps[OF this f(2), of w1] obtain files' w' where r:
      "resolveTransitiveDeps fetch files1 w1 = Some (Inr files', w')" "fst ` set files1 \<subseteq> fst ` set files'"
      "fst ` set files' \<subseteq> U" "\<forall>(n, fd) \<in> set files'. set (fp_Dependency fd) \<subseteq> fst ` set files'" by (elim exE conjE)
    have "resolveTransitiveDeps fetch files w = Some (Inr files', w')"
      using False f(1) r(1) by (subst resolveTransitiveDeps.simps) (simp add: Let_def)
    moreover have "fst ` set files \<subseteq> fst ` set files'" using f(3) r(2) by (meson Un_subset_iff subset_trans)
    ultimately show ?thesis using r(3,4) by (intro exI[of _ files'] exI[of _ w']) simp
  qed
qed

text \<open>A server that answers a request for a file with no file (an error response counts as one) makes the loop run for ever.\<close>

lemma missing_file_hangs:
  assumes "\<forall>f w. \<exists>w'. fetch f w = (Inr [], w')" "collectMissingDeps files \<noteq> []"
  shows "resolveTransitiveDeps fetch files w = None"
proof (rule ccontr)
  have f: "\<exists>w'. fetch_all fetch missing fs w = (Inr fs, w')" for missing fs w
  proof (induction missing arbitrary: w)
    case (Cons m missing)
    from assms(1) obtain w1 where "fetch m w = (Inr [], w1)" by metis
    with Cons show ?case by (simp add: add_files_def)
  qed simp
  have never: "resolveTransitiveDeps fetch fs w = Some r \<Longrightarrow> fetch = fetch \<longrightarrow> collectMissingDeps fs = []" for fs w r
  proof (rule resolveTransitiveDeps.raw_induct[where P = "\<lambda>g fs w r. g = fetch \<longrightarrow> collectMissingDeps fs = []"])
    fix rec g fs w r
    assume IH: "\<And>g fs w r. rec g fs w = Some r \<Longrightarrow> g = fetch \<longrightarrow> collectMissingDeps fs = []"
      and r: "(let missing = collectMissingDeps fs
        in if missing = [] then Some (Inr fs, w)
           else case fetch_all g missing fs w of (Inl err, w1) \<Rightarrow> Some (Inl err, w1) | (Inr files, w1) \<Rightarrow> rec g files w1) = Some r"
    show "g = fetch \<longrightarrow> collectMissingDeps fs = []"
    proof
      assume g: "g = fetch"
      show "collectMissingDeps fs = []"
      proof (rule ccontr)
        assume ne: "collectMissingDeps fs \<noteq> []"
        obtain w' where "fetch_all fetch (collectMissingDeps fs) fs w = (Inr fs, w')" using f by metis
        with r ne g have "rec fetch fs w' = Some r" by (simp add: Let_def)
        from IH[OF this] ne show False by simp
      qed
    qed
  qed
  assume "resolveTransitiveDeps fetch files w \<noteq> None"
  then show False using never assms(2) by blast
qed

section \<open>The reflection client\<close>

datatype refl_request = FileContainingSymbol string | FileByFilename string | ListServices

datatype refl_response = FileDescriptors "string list" | ServiceList "string list" | ErrorResponse string | OtherResponse

record 'd method_desc =
  md_Name :: string
  md_Input :: 'd
  md_Output :: 'd

record 'd service_desc =
  sd_FullName :: string
  sd_Name :: string
  sd_Methods :: "'d method_desc list"

text \<open>The server's reflection stream: opening it and one exchange on it; \<open>rl_new_files\<close> is \<open>protodesc.NewFiles\<close> with the services of
  each file.\<close>

record ('w, 'x, 'd) refl_lib =
  rl_open :: "'w \<Rightarrow> string option \<times> 'w"
  rl_exchange :: "refl_request \<Rightarrow> 'w \<Rightarrow> (string + refl_response) \<times> 'w"
  rl_unmarshal :: "string \<Rightarrow> string + 'x file_proto"
  rl_new_files :: "'x file_proto list \<Rightarrow> string + 'd service_desc list list"

datatype refl_error =
    ReflFailed string
  | ReflectionError string
  | UnexpectedResponse
  | FileRegistry string
  | MethodNotFound string string
  | ServiceNotFound string

fun unmarshal_all :: "(string \<Rightarrow> string + 'x file_proto) \<Rightarrow> string list \<Rightarrow> string + 'x file_proto list" where
  "unmarshal_all um [] = Inr []"
| "unmarshal_all um (b # bs) =
     (case um b of
        Inl err \<Rightarrow> Inl err
      | Inr fd \<Rightarrow> (case unmarshal_all um bs of Inl err \<Rightarrow> Inl err | Inr fds \<Rightarrow> Inr (fd # fds)))"

definition fetchFileByName :: "('w, 'x, 'd) refl_lib \<Rightarrow> ('x, 'w) depFetcher" where
  "fetchFileByName rl filename w =
     (case rl_exchange rl (FileByFilename filename) w of
        (Inl err, w1) \<Rightarrow> (Inl err, w1)
      | (Inr (FileDescriptors bs), w1) \<Rightarrow> (unmarshal_all (rl_unmarshal rl) bs, w1)
      | (Inr _, w1) \<Rightarrow> (Inr [], w1))"

definition buildFileDescriptors :: "('w, 'x, 'd) refl_lib \<Rightarrow> 'x files \<Rightarrow> refl_error + 'd service_desc list list" where
  "buildFileDescriptors rl allFiles =
     (case rl_new_files rl (map snd allFiles) of Inl err \<Rightarrow> Inl (FileRegistry err) | Inr fs \<Rightarrow> Inr fs)"

definition simple_name :: "string \<Rightarrow> string" where
  "simple_name service = rev (takeWhile (\<lambda>c. c \<noteq> CHR ''.'') (rev service))"

definition findMethod :: "'d service_desc list list \<Rightarrow> string \<Rightarrow> string \<Rightarrow> refl_error + 'd \<times> 'd" where
  "findMethod files service meth =
     (case find (\<lambda>svc. sd_FullName svc = service \<or> sd_Name svc = simple_name service) (concat files) of
        None \<Rightarrow> Inl (ServiceNotFound service)
      | Some svc \<Rightarrow>
          (case find (\<lambda>m. md_Name m = meth) (sd_Methods svc) of
             None \<Rightarrow> Inl (MethodNotFound meth service)
           | Some m \<Rightarrow> Inr (md_Input m, md_Output m)))"

definition resolveMethod ::
  "('w, 'x, 'd) refl_lib \<Rightarrow> string \<Rightarrow> string \<Rightarrow> 'w \<Rightarrow> ((refl_error + string \<times> 'd \<times> 'd) \<times> 'w) option" where
  "resolveMethod rl service meth w0 =
     (case rl_open rl w0 of
        (Some err, w) \<Rightarrow> Some (Inl (ReflFailed err), w)
      | (None, w) \<Rightarrow>
          (case rl_exchange rl (FileContainingSymbol service) w of
             (Inl err, w1) \<Rightarrow> Some (Inl (ReflFailed err), w1)
           | (Inr (ErrorResponse msg), w1) \<Rightarrow> Some (Inl (ReflectionError msg), w1)
           | (Inr (FileDescriptors bs), w1) \<Rightarrow>
               (case unmarshal_all (rl_unmarshal rl) bs of
                  Inl err \<Rightarrow> Some (Inl (ReflFailed err), w1)
                | Inr fds \<Rightarrow>
                    (case resolveTransitiveDeps (fetchFileByName rl) (add_files fds []) w1 of
                       None \<Rightarrow> None
                     | Some (Inl err, w2) \<Rightarrow> Some (Inl (ReflFailed err), w2)
                     | Some (Inr allFiles, w2) \<Rightarrow>
                         (case buildFileDescriptors rl allFiles of
                            Inl e \<Rightarrow> Some (Inl e, w2)
                          | Inr files \<Rightarrow>
                              (case findMethod files service meth of
                                 Inl e \<Rightarrow> Some (Inl e, w2)
                               | Inr (inputDesc, outputDesc) \<Rightarrow>
                                   Some (Inr (''/'' @ service @ ''/'' @ meth, inputDesc, outputDesc), w2)))))
           | (Inr _, w1) \<Rightarrow> Some (Inl UnexpectedResponse, w1)))"

definition listServices :: "('w, 'x, 'd) refl_lib \<Rightarrow> 'w \<Rightarrow> (refl_error + string list) \<times> 'w" where
  "listServices rl w0 =
     (case rl_open rl w0 of
        (Some err, w) \<Rightarrow> (Inl (ReflFailed err), w)
      | (None, w) \<Rightarrow>
          (case rl_exchange rl ListServices w of
             (Inl err, w1) \<Rightarrow> (Inl (ReflFailed err), w1)
           | (Inr (ServiceList services), w1) \<Rightarrow> (Inr services, w1)
           | (Inr _, w1) \<Rightarrow> (Inl UnexpectedResponse, w1)))"

section \<open>Configuration, metadata and status\<close>

definition getBool :: "(string \<times> gov) list \<Rightarrow> string \<Rightarrow> bool \<Rightarrow> bool" where
  "getBool config key defaultVal = (case map_of config key of Some (GBool b) \<Rightarrow> b | _ \<Rightarrow> defaultVal)"

definition getString :: "(string \<times> gov) list \<Rightarrow> string \<Rightarrow> string \<Rightarrow> string" where
  "getString config key defaultVal = (case map_of config key of Some (GStr s) \<Rightarrow> s | _ \<Rightarrow> defaultVal)"

record grpc_tls =
  gt_InsecureSkipVerify :: bool
  gt_RootCAs :: "string option"

datatype credentials = Insecure | TLS grpc_tls

datatype dial_option_error = CAFileNotString | CAFileUnreadable string | CAFileInvalid

definition grpc_buildTLSConfig ::
  "(string \<Rightarrow> string + string) \<Rightarrow> (string \<Rightarrow> bool) \<Rightarrow> (string \<times> gov) list \<Rightarrow> dial_option_error + grpc_tls" where
  "grpc_buildTLSConfig read_file is_ca config =
     (let tlsCfg = \<lparr>gt_InsecureSkipVerify = getBool config ''tls_skip_verify'' False, gt_RootCAs = None\<rparr> in
      case map_of config ''tls_ca_file'' of
        None \<Rightarrow> Inr tlsCfg
      | Some (GStr caPath) \<Rightarrow>
          (case read_file caPath of
             Inl err \<Rightarrow> Inl (CAFileUnreadable err)
           | Inr caPEM \<Rightarrow> if is_ca caPEM then Inr (tlsCfg\<lparr>gt_RootCAs := Some caPEM\<rparr>) else Inl CAFileInvalid)
      | Some _ \<Rightarrow> Inl CAFileNotString)"

definition buildDialOptions ::
  "(string \<Rightarrow> string + string) \<Rightarrow> (string \<Rightarrow> bool) \<Rightarrow> (string \<times> gov) list \<Rightarrow> dial_option_error + credentials" where
  "buildDialOptions read_file is_ca config =
     (if getBool config ''plaintext'' False \<or> \<not> getBool config ''tls'' False then Inr Insecure
      else map_sum id TLS (grpc_buildTLSConfig read_file is_ca config))"

type_synonym md = "(string \<times> string list) list"

definition md_Append :: "unicode_classes \<Rightarrow> string \<Rightarrow> string \<Rightarrow> md \<Rightarrow> md" where
  "md_Append uc key v m =
     AList.update (to_lower uc key) ((case map_of m (to_lower uc key) of Some vs \<Rightarrow> vs | None \<Rightarrow> []) @ [v]) m"

definition buildOutgoingMetadata :: "unicode_classes \<Rightarrow> (string \<times> gov) list \<Rightarrow> md" where
  "buildOutgoingMetadata uc params =
     (case map_of params ''metadata'' of
        Some (GMap m) \<Rightarrow>
          fold (\<lambda>(key, val) md.
            case val of
              GStr s \<Rightarrow> md_Append uc key s md
            | GList items \<Rightarrow> fold (\<lambda>item md. md_Append uc key (fmt_v item) md) items md
            | _ \<Rightarrow> md_Append uc key (fmt_v val) md) m []
      | _ \<Rightarrow> [])"

definition metadataToMap :: "md \<Rightarrow> (string \<times> gov) list" where
  "metadataToMap m = map (\<lambda>(k, vals). (k, case vals of [v] \<Rightarrow> GStr v | _ \<Rightarrow> GStrs vals)) m"

definition statusCodeName :: "int \<Rightarrow> string" where
  "statusCodeName code =
     (case map_of
        [(0, ''OK''), (1, ''CANCELLED''), (2, ''UNKNOWN''), (3, ''INVALID_ARGUMENT''), (4, ''DEADLINE_EXCEEDED''), (5, ''NOT_FOUND''),
         (6, ''ALREADY_EXISTS''), (7, ''PERMISSION_DENIED''), (8, ''RESOURCE_EXHAUSTED''), (9, ''FAILED_PRECONDITION''), (10, ''ABORTED''),
         (11, ''OUT_OF_RANGE''), (12, ''UNIMPLEMENTED''), (13, ''INTERNAL''), (14, ''UNAVAILABLE''), (15, ''DATA_LOSS''),
         (16, ''UNAUTHENTICATED'')] code of
        Some n \<Rightarrow> n | None \<Rightarrow> ''UNKNOWN'')"

datatype rpc_error = StatusError int string | PlainError string

definition extractStatus :: "rpc_error option \<Rightarrow> int \<times> string" where
  "extractStatus err =
     (case err of
        None \<Rightarrow> (0, [])
      | Some (StatusError code msg) \<Rightarrow> (code, msg)
      | Some (PlainError msg) \<Rightarrow> (2, msg))"

definition status_data :: "rpc_error option \<Rightarrow> md \<Rightarrow> md \<Rightarrow> (string \<times> gov) list" where
  "status_data rpcErr headerMD trailerMD =
     (let (code, msg) = extractStatus rpcErr in
      [(''status_code'', GInt code), (''status_message'', GStr msg), (''status_name'', GStr (statusCodeName code)),
       (''metadata'', GMap (metadataToMap headerMD)), (''trailers'', GMap (metadataToMap trailerMD))])"

section \<open>Calls\<close>

datatype 'm received = EndOfStream | ReceiveError rpc_error | Received 'm

text \<open>The connection: a call, and a stream with its operations. \<open>gn_open\<close> is told whether client and server stream.\<close>

record ('w, 'd, 'm) grpc_net =
  gn_invoke :: "string \<Rightarrow> md \<Rightarrow> 'm \<Rightarrow> 'd \<Rightarrow> 'w \<Rightarrow> (rpc_error option \<times> 'm \<times> md \<times> md) \<times> 'w"
  gn_open :: "bool \<Rightarrow> bool \<Rightarrow> string \<Rightarrow> md \<Rightarrow> 'w \<Rightarrow> string option \<times> 'w"
  gn_send :: "'m \<Rightarrow> 'w \<Rightarrow> string option \<times> 'w"
  gn_close_send :: "'w \<Rightarrow> 'w"
  gn_recv :: "'d \<Rightarrow> 'w \<Rightarrow> 'm received \<times> 'w"
  gn_header :: "'w \<Rightarrow> md"
  gn_trailer :: "'w \<Rightarrow> md"

record ('w, 'x, 'd, 'f, 'm) grpc_env =
  ge_refl :: "('w, 'x, 'd) refl_lib"
  ge_proto :: "('d, 'f, 'm) proto_lib"
  ge_net :: "('w, 'd, 'm) grpc_net"
  ge_classes :: unicode_classes
  ge_depth :: nat

datatype grpc_err =
    ConfigNil
  | EndpointRequired
  | EndpointNotString
  | DialOptions dial_option_error
  | NotSetUp
  | UnsupportedAction string
  | ServiceAndMethod
  | Resolving refl_error
  | MessageNotMap
  | BuildingRequest coerce_error
  | CreatingStream string
  | SendingMessage string
  | MessagesRequired
  | MessagesNotList
  | MessageItemNotMap nat
  | BuildingMessage nat coerce_error
  | SendingMessageNo nat string

type_synonym result_data = "(string \<times> gov) list"

abbreviation read_message :: "('w, 'x, 'd, 'f, 'm) grpc_env \<Rightarrow> 'm \<Rightarrow> (string \<times> gov) list option" where
  "read_message ge \<equiv> dynamicMessageToMap (ge_depth ge) (ge_proto ge)"

definition message_param :: "(string \<times> gov) list \<Rightarrow> grpc_err + (string \<times> gov) list option" where
  "message_param params =
     (case map_of params ''message'' of None \<Rightarrow> Inr None | Some (GMap m) \<Rightarrow> Inr (Some m) | Some _ \<Rightarrow> Inl MessageNotMap)"

text \<open>Service and method, resolved.\<close>

definition resolve_params ::
  "('w, 'x, 'd, 'f, 'm) grpc_env \<Rightarrow> (string \<times> gov) list \<Rightarrow> 'w \<Rightarrow> ((grpc_err + string \<times> 'd \<times> 'd) \<times> 'w) option" where
  "resolve_params ge params w =
     (let service = getString params ''service'' []; meth = getString params ''method'' [] in
      if service = [] \<or> meth = [] then Some (Inl ServiceAndMethod, w)
      else (case resolveMethod (ge_refl ge) service meth w of
          None \<Rightarrow> None
        | Some (Inl e, w1) \<Rightarrow> Some (Inl (Resolving e), w1)
        | Some (Inr r, w1) \<Rightarrow> Some (Inr r, w1)))"

definition with_response :: "('w, 'x, 'd, 'f, 'm) grpc_env \<Rightarrow> rpc_error option \<Rightarrow> 'm \<Rightarrow> result_data \<Rightarrow> result_data option" where
  "with_response ge rpcErr respMsg data =
     (if rpcErr = None then map_option (\<lambda>m. data @ [(''response'', GMap m)]) (read_message ge respMsg) else Some data)"

definition executeUnary ::
  "('w, 'x, 'd, 'f, 'm) grpc_env \<Rightarrow> (string \<times> gov) list \<Rightarrow> 'w \<Rightarrow> ((grpc_err + result_data) \<times> 'w) option" where
  "executeUnary ge params w =
     (case resolve_params ge params w of
        None \<Rightarrow> None
      | Some (Inl e, w1) \<Rightarrow> Some (Inl e, w1)
      | Some (Inr (fullMethod, inputDesc, outputDesc), w1) \<Rightarrow>
          (case message_param params of
             Inl e \<Rightarrow> Some (Inl e, w1)
           | Inr msgData \<Rightarrow>
               (case buildDynamicMessage (ge_proto ge) inputDesc msgData of
                  Inl e \<Rightarrow> Some (Inl (BuildingRequest e), w1)
                | Inr reqMsg \<Rightarrow>
                    (case gn_invoke (ge_net ge) fullMethod (buildOutgoingMetadata (ge_classes ge) params) reqMsg outputDesc w1 of
                       ((rpcErr, respMsg, headerMD, trailerMD), w2) \<Rightarrow>
                         map_option (\<lambda>d. (Inr d, w2)) (with_response ge rpcErr respMsg (status_data rpcErr headerMD trailerMD))))))"

partial_function (option) receiveStream ::
  "('w, 'd, 'm) grpc_net \<Rightarrow> 'd \<Rightarrow> 'm list \<Rightarrow> 'w \<Rightarrow> (('m list \<times> rpc_error option) \<times> 'w) option" where
  "receiveStream nw outputDesc messages w =
     (case gn_recv nw outputDesc w of
        (EndOfStream, w1) \<Rightarrow> Some ((messages, None), w1)
      | (ReceiveError err, w1) \<Rightarrow> Some ((messages, Some err), w1)
      | (Received msg, w1) \<Rightarrow> receiveStream nw outputDesc (messages @ [msg]) w1)"

fun list_of_maps :: "nat \<Rightarrow> gov list \<Rightarrow> grpc_err + (string \<times> gov) list list" where
  "list_of_maps i [] = Inr []"
| "list_of_maps i (item # items) =
     (case item of
        GMap m \<Rightarrow> (case list_of_maps (i + 1) items of Inl e \<Rightarrow> Inl e | Inr ms \<Rightarrow> Inr (m # ms))
      | _ \<Rightarrow> Inl (MessageItemNotMap i))"

definition getMessagesList :: "(string \<times> gov) list \<Rightarrow> grpc_err + (string \<times> gov) list list" where
  "getMessagesList params =
     (case map_of params ''messages'' of
        None \<Rightarrow> Inl MessagesRequired
      | Some (GList rawList) \<Rightarrow> list_of_maps 0 rawList
      | Some _ \<Rightarrow> Inl MessagesNotList)"

fun send_messages ::
  "('w, 'x, 'd, 'f, 'm) grpc_env \<Rightarrow> 'd \<Rightarrow> nat \<Rightarrow> (string \<times> gov) list list \<Rightarrow> 'w \<Rightarrow> grpc_err option \<times> 'w" where
  "send_messages ge inputDesc i [] w = (None, w)"
| "send_messages ge inputDesc i (msgData # msgs) w =
     (case buildDynamicMessage (ge_proto ge) inputDesc (Some msgData) of
        Inl e \<Rightarrow> (Some (BuildingMessage i e), w)
      | Inr reqMsg \<Rightarrow>
          (case gn_send (ge_net ge) reqMsg w of
             (Some err, w1) \<Rightarrow> (Some (SendingMessageNo i err), w1)
           | (None, w1) \<Rightarrow> send_messages ge inputDesc (i + 1) msgs w1))"

definition stream_result ::
  "('w, 'x, 'd, 'f, 'm) grpc_env \<Rightarrow> 'd \<Rightarrow> 'w \<Rightarrow> ((grpc_err + result_data) \<times> 'w) option" where
  "stream_result ge outputDesc w =
     (case receiveStream (ge_net ge) outputDesc [] w of
        None \<Rightarrow> None
      | Some ((messages, recvErr), w1) \<Rightarrow>
          (case those (map (read_message ge) messages) of
             None \<Rightarrow> None
           | Some ms \<Rightarrow>
               Some (Inr ((''responses'', GList (map GMap ms))
                   # status_data recvErr (gn_header (ge_net ge) w1) (gn_trailer (ge_net ge) w1)), w1)))"

definition executeServerStream ::
  "('w, 'x, 'd, 'f, 'm) grpc_env \<Rightarrow> (string \<times> gov) list \<Rightarrow> 'w \<Rightarrow> ((grpc_err + result_data) \<times> 'w) option" where
  "executeServerStream ge params w =
     (case resolve_params ge params w of
        None \<Rightarrow> None
      | Some (Inl e, w1) \<Rightarrow> Some (Inl e, w1)
      | Some (Inr (fullMethod, inputDesc, outputDesc), w1) \<Rightarrow>
          (case message_param params of
             Inl e \<Rightarrow> Some (Inl e, w1)
           | Inr msgData \<Rightarrow>
               (case buildDynamicMessage (ge_proto ge) inputDesc msgData of
                  Inl e \<Rightarrow> Some (Inl (BuildingRequest e), w1)
                | Inr reqMsg \<Rightarrow>
                    (case gn_open (ge_net ge) False True fullMethod (buildOutgoingMetadata (ge_classes ge) params) w1 of
                       (Some err, w2) \<Rightarrow> Some (Inl (CreatingStream err), w2)
                     | (None, w2) \<Rightarrow>
                         (case gn_send (ge_net ge) reqMsg w2 of
                            (Some err, w3) \<Rightarrow> Some (Inl (SendingMessage err), w3)
                          | (None, w3) \<Rightarrow> stream_result ge outputDesc (gn_close_send (ge_net ge) w3))))))"

definition executeClientStream ::
  "('w, 'x, 'd, 'f, 'm) grpc_env \<Rightarrow> (string \<times> gov) list \<Rightarrow> 'w \<Rightarrow> ((grpc_err + result_data) \<times> 'w) option" where
  "executeClientStream ge params w =
     (case resolve_params ge params w of
        None \<Rightarrow> None
      | Some (Inl e, w1) \<Rightarrow> Some (Inl e, w1)
      | Some (Inr (fullMethod, inputDesc, outputDesc), w1) \<Rightarrow>
          (case getMessagesList params of
             Inl e \<Rightarrow> Some (Inl e, w1)
           | Inr messagesRaw \<Rightarrow>
               (case gn_open (ge_net ge) True False fullMethod (buildOutgoingMetadata (ge_classes ge) params) w1 of
                  (Some err, w2) \<Rightarrow> Some (Inl (CreatingStream err), w2)
                | (None, w2) \<Rightarrow>
                    (case send_messages ge inputDesc 0 messagesRaw w2 of
                       (Some e, w3) \<Rightarrow> Some (Inl e, w3)
                     | (None, w3) \<Rightarrow>
                         (case gn_recv (ge_net ge) outputDesc (gn_close_send (ge_net ge) w3) of
                            (Received respMsg, w4) \<Rightarrow>
                              map_option (\<lambda>d. (Inr d, w4))
                                (with_response ge None respMsg (status_data None (gn_header (ge_net ge) w4) (gn_trailer (ge_net ge) w4)))
                          | (EndOfStream, w4) \<Rightarrow>
                              Some (Inr (status_data (Some (PlainError ''EOF'')) (gn_header (ge_net ge) w4) (gn_trailer (ge_net ge) w4)), w4)
                          | (ReceiveError err, w4) \<Rightarrow>
                              Some (Inr (status_data (Some err) (gn_header (ge_net ge) w4) (gn_trailer (ge_net ge) w4)), w4))))))"

definition executeBidiStream ::
  "('w, 'x, 'd, 'f, 'm) grpc_env \<Rightarrow> (string \<times> gov) list \<Rightarrow> 'w \<Rightarrow> ((grpc_err + result_data) \<times> 'w) option" where
  "executeBidiStream ge params w =
     (case resolve_params ge params w of
        None \<Rightarrow> None
      | Some (Inl e, w1) \<Rightarrow> Some (Inl e, w1)
      | Some (Inr (fullMethod, inputDesc, outputDesc), w1) \<Rightarrow>
          (case getMessagesList params of
             Inl e \<Rightarrow> Some (Inl e, w1)
           | Inr messagesRaw \<Rightarrow>
               (case gn_open (ge_net ge) True True fullMethod (buildOutgoingMetadata (ge_classes ge) params) w1 of
                  (Some err, w2) \<Rightarrow> Some (Inl (CreatingStream err), w2)
                | (None, w2) \<Rightarrow>
                    (case send_messages ge inputDesc 0 messagesRaw w2 of
                       (Some e, w3) \<Rightarrow> Some (Inl e, w3)
                     | (None, w3) \<Rightarrow> stream_result ge outputDesc (gn_close_send (ge_net ge) w3)))))"

text \<open>The connector: its endpoint and the credentials of its connection. \<open>grpc.NewClient\<close> is a parameter.\<close>

record grpc_conn =
  gc_conn :: "credentials option"
  gc_endpoint :: string

definition grpc_Setup ::
  "(string \<Rightarrow> string + string) \<Rightarrow> (string \<Rightarrow> bool) \<Rightarrow> (string \<Rightarrow> credentials \<Rightarrow> string option) \<Rightarrow> (string \<times> gov) list option
    \<Rightarrow> grpc_conn \<Rightarrow> grpc_err option \<times> grpc_conn" where
  "grpc_Setup read_file is_ca new_client config c =
     (case config of
        None \<Rightarrow> (Some ConfigNil, c)
      | Some cfg \<Rightarrow>
          (case map_of cfg ''endpoint'' of
             None \<Rightarrow> (Some EndpointRequired, c)
           | Some (GStr endpoint) \<Rightarrow>
               (if endpoint = [] then (Some EndpointNotString, c)
                else (let c1 = c\<lparr>gc_endpoint := endpoint\<rparr> in
                  case buildDialOptions read_file is_ca cfg of
                    Inl e \<Rightarrow> (Some (DialOptions e), c1)
                  | Inr creds \<Rightarrow>
                      (case new_client endpoint creds of
                         Some err \<Rightarrow> (Some (CreatingStream err), c1)
                       | None \<Rightarrow> (None, c1\<lparr>gc_conn := Some creds\<rparr>))))
           | Some _ \<Rightarrow> (Some EndpointNotString, c)))"

definition grpc_Execute ::
  "('w, 'x, 'd, 'f, 'm) grpc_env \<Rightarrow> grpc_conn \<Rightarrow> conn_step \<Rightarrow> 'w \<Rightarrow> ((grpc_err + result_data) \<times> 'w) option" where
  "grpc_Execute ge c step w =
     (if gc_conn c = None then Some (Inl NotSetUp, w)
      else if cs_Action step = ''unary'' then executeUnary ge (cs_Parameters step) w
      else if cs_Action step = ''server_stream'' then executeServerStream ge (cs_Parameters step) w
      else if cs_Action step = ''client_stream'' then executeClientStream ge (cs_Parameters step) w
      else if cs_Action step = ''bidi_stream'' then executeBidiStream ge (cs_Parameters step) w
      else Some (Inl (UnsupportedAction (cs_Action step)), w))"

definition grpc_Teardown :: "grpc_conn \<Rightarrow> grpc_conn" where
  "grpc_Teardown c = c\<lparr>gc_conn := None\<rparr>"

section \<open>Echoes\<close>

text \<open>A server whose stream sends back what it was sent: \<open>q\<close> is what it has still to send.\<close>

definition echo_server :: "('w, 'd, 'm) grpc_net \<Rightarrow> ('w \<Rightarrow> 'm list) \<Rightarrow> bool" where
  "echo_server nw q \<longleftrightarrow>
     (\<forall>m w. \<exists>w'. gn_send nw m w = (None, w') \<and> q w' = q w @ [m])
     \<and> (\<forall>w. q (gn_close_send nw w) = q w)
     \<and> (\<forall>d w. case q w of
          [] \<Rightarrow> \<exists>w'. gn_recv nw d w = (EndOfStream, w')
        | m # ms \<Rightarrow> \<exists>w'. gn_recv nw d w = (Received m, w') \<and> q w' = ms)"

lemma receive_all:
  assumes "echo_server nw q"
  shows "q w = ms \<Longrightarrow> \<exists>w'. receiveStream nw d acc w = Some ((acc @ ms, None), w')"
proof (induction ms arbitrary: acc w)
  case Nil
  have "case q w of [] \<Rightarrow> \<exists>w'. gn_recv nw d w = (EndOfStream, w') | m # ms \<Rightarrow> \<exists>w'. gn_recv nw d w = (Received m, w') \<and> q w' = ms"
    using assms unfolding echo_server_def by blast
  then obtain w' where w': "gn_recv nw d w = (EndOfStream, w')" unfolding Nil list.case by blast
  show ?case by (subst receiveStream.simps) (simp add: w')
next
  case (Cons m ms)
  have "case q w of [] \<Rightarrow> \<exists>w'. gn_recv nw d w = (EndOfStream, w') | m # ms \<Rightarrow> \<exists>w'. gn_recv nw d w = (Received m, w') \<and> q w' = ms"
    using assms unfolding echo_server_def by blast
  then obtain w1 where w1: "gn_recv nw d w = (Received m, w1)" "q w1 = ms" unfolding Cons.prems list.case by blast
  have "receiveStream nw d acc w = receiveStream nw d (acc @ [m]) w1" by (subst receiveStream.simps) (simp add: w1(1))
  with Cons.IH[OF w1(2), of "acc @ [m]"] show ?case by simp
qed

lemma send_all_messages:
  assumes "echo_server (ge_net ge) q"
  shows "list_all2 (\<lambda>data m. buildDynamicMessage (ge_proto ge) d (Some data) = Inr m) datas ms \<Longrightarrow>
    \<exists>w'. send_messages ge d i datas w = (None, w') \<and> q w' = q w @ ms"
proof (induction datas ms arbitrary: i w rule: list_all2_induct)
  case (Cons data datas m ms)
  obtain w1 where w1: "gn_send (ge_net ge) m w = (None, w1)" "q w1 = q w @ [m]" using assms unfolding echo_server_def by blast
  from Cons.IH[of "i + 1" w1] obtain w' where "send_messages ge d (i + 1) datas w1 = (None, w')" "q w' = q w1 @ ms" by blast
  with Cons.hyps(1) w1 show ?case by simp
qed simp

lemma list_of_GMaps: "list_of_maps i (map GMap ms) = Inr ms"
  by (induction ms arbitrary: i) simp_all

lemma built_and_read:
  assumes "message_laws lib present"
  shows "\<forall>data \<in> set datas. fit_message lib present d data \<Longrightarrow>
    \<exists>ms n. list_all2 (\<lambda>data m. buildDynamicMessage lib d (Some data) = Inr m) datas ms
      \<and> (\<forall>k \<ge> n. those (map (dynamicMessageToMap k lib) ms) = Some datas)"
proof (induction datas)
  case (Cons data datas)
  obtain ms n where IH: "list_all2 (\<lambda>data m. buildDynamicMessage lib d (Some data) = Inr m) datas ms"
    "\<forall>k \<ge> n. those (map (dynamicMessageToMap k lib) ms) = Some datas" using Cons by auto
  obtain m j where m: "message_back lib d data j m" using fit_back(1)[OF assms, of d data] Cons.prems by auto
  then have "\<forall>k \<ge> max n j. those (map (dynamicMessageToMap k lib) (m # ms)) = Some (data # datas)"
    using IH(2) by (simp add: message_back_def)
  with m IH(1) show ?case
    by (intro exI[of _ "m # ms"] exI[of _ "max n j"]) (simp add: message_back_def buildDynamicMessage_def)
qed simp

text \<open>An echo comes back unchanged. On a bidirectional stream to a method whose server returns every message, the step sends all the
  messages of its parameters in order and its result has them as responses, in order and with every field, and the
  status OK, provided the messages have the form that is read (and the library keeps what is set).\<close>

theorem bidi_echo:
  assumes "message_laws (ge_proto ge) present" "echo_server (ge_net ge) q"
    and "resolve_params ge params w = Some (Inr (fullMethod, d, d), w1)"
    and "gn_open (ge_net ge) True True fullMethod (buildOutgoingMetadata (ge_classes ge) params) w1 = (None, w2)" "q w2 = []"
    and "map_of params ''messages'' = Some (GList (map GMap datas))" "\<forall>data \<in> set datas. fit_message (ge_proto ge) present d data"
  shows "\<exists>n. \<forall>k \<ge> n. \<exists>res w'. executeBidiStream (ge\<lparr>ge_depth := k\<rparr>) params w = Some (Inr res, w')
    \<and> map_of res ''responses'' = Some (GList (map GMap datas)) \<and> map_of res ''status_name'' = Some (GStr ''OK'')"
proof -
  obtain ms n where ms: "list_all2 (\<lambda>data m. buildDynamicMessage (ge_proto ge) d (Some data) = Inr m) datas ms"
    "\<forall>k \<ge> n. those (map (dynamicMessageToMap k (ge_proto ge)) ms) = Some datas"
    using built_and_read[OF assms(1,7)] by blast
  have "\<exists>res w'. executeBidiStream (ge\<lparr>ge_depth := k\<rparr>) params w = Some (Inr res, w')
    \<and> map_of res ''responses'' = Some (GList (map GMap datas)) \<and> map_of res ''status_name'' = Some (GStr ''OK'')" if k: "n \<le> k" for k
  proof -
    let ?ge = "ge\<lparr>ge_depth := k\<rparr>"
    have same: "ge_refl ?ge = ge_refl ge" by simp
    have res: "resolve_params ?ge params w = Some (Inr (fullMethod, d, d), w1)"
      using assms(3) unfolding resolve_params_def same .
    obtain w3 where w3: "send_messages ?ge d 0 datas w2 = (None, w3)" "q w3 = ms"
      using send_all_messages[of ?ge q d datas ms 0 w2] assms(2,5) ms(1) by auto
    have "q (gn_close_send (ge_net ge) w3) = ms" using assms(2) w3(2) by (simp add: echo_server_def)
    from receive_all[OF assms(2) this, of d "[]"] obtain w4 where
      "receiveStream (ge_net ge) d [] (gn_close_send (ge_net ge) w3) = Some ((ms, None), w4)" by auto
    then have "stream_result ?ge d (gn_close_send (ge_net ge) w3) =
        Some (Inr ((''responses'', GList (map GMap datas)) # status_data None (gn_header (ge_net ge) w4) (gn_trailer (ge_net ge) w4)), w4)"
      using ms(2) k by (simp add: stream_result_def)
    then show ?thesis
      using res assms(4,6) w3(1)
      by (simp add: executeBidiStream_def getMessagesList_def list_of_GMaps status_data_def extractStatus_def statusCodeName_def)
  qed
  then show ?thesis by blast
qed

text \<open>A server with two files, and one with an echo.\<close>

definition demo_fetch :: "(unit, unit) depFetcher" where
  "demo_fetch f w = (Inr [\<lparr>fp_Name = f, fp_Dependency = (if f = ''b'' then [''c''] else []), fp_Rest = ()\<rparr>], w)"

theorem deps_resolved_witness:
  "\<exists>files'. resolveTransitiveDeps demo_fetch [(''a'', \<lparr>fp_Name = ''a'', fp_Dependency = [''b''], fp_Rest = ()\<rparr>)] () = Some (Inr files', ())
     \<and> {''a'', ''b'', ''c''} \<subseteq> fst ` set files'"
proof -
  let ?U = "{''a'', ''b'', ''c''}" and ?files = "[(''a'', \<lparr>fp_Name = ''a'', fp_Dependency = [''b''], fp_Rest = ()\<rparr>)]"
  have "serves ?U demo_fetch" by (auto simp: serves_def demo_fetch_def)
  moreover have "files_in ?U ?files" by (simp add: files_in_def)
  ultimately obtain files' where f: "resolveTransitiveDeps demo_fetch ?files () = Some (Inr files', ())"
    "fst ` set ?files \<subseteq> fst ` set files'" "\<forall>(n, fd) \<in> set files'. set (fp_Dependency fd) \<subseteq> fst ` set files'"
    using deps_resolved[of ?U demo_fetch ?files "()"] by auto
  have a: "collectMissingDeps ?files = [''b'']" by (simp add: collectMissingDeps_def missing_in_def)
  let ?b = "(''b'', \<lparr>fp_Name = ''b'', fp_Dependency = [''c''], fp_Rest = ()\<rparr>)" and ?c = "(''c'', \<lparr>fp_Name = ''c'', fp_Dependency = [], fp_Rest = ()\<rparr>)"
  have "resolveTransitiveDeps demo_fetch ?files () = resolveTransitiveDeps demo_fetch (?files @ [?b]) ()"
    by (subst resolveTransitiveDeps.simps) (simp add: a demo_fetch_def add_files_def)
  also have "\<dots> = resolveTransitiveDeps demo_fetch (?files @ [?b, ?c]) ()"
    by (subst resolveTransitiveDeps.simps) (simp add: collectMissingDeps_def missing_in_def demo_fetch_def add_files_def)
  also have "\<dots> = Some (Inr (?files @ [?b, ?c]), ())"
    by (subst resolveTransitiveDeps.simps) (simp add: collectMissingDeps_def missing_in_def)
  finally have "files' = ?files @ [?b, ?c]" using f(1) by simp
  with f(1) show ?thesis by simp
qed

definition demo_refl :: "(demo_message list, unit, nat) refl_lib" where
  "demo_refl = \<lparr>rl_open = (\<lambda>w. (None, w)), rl_exchange = (\<lambda>r w. (Inr (FileDescriptors [''f'']), w)),
     rl_unmarshal = (\<lambda>b. Inr \<lparr>fp_Name = b, fp_Dependency = [], fp_Rest = ()\<rparr>),
     rl_new_files = (\<lambda>fs. Inr [[\<lparr>sd_FullName = ''p.S'', sd_Name = ''S'', sd_Methods = [\<lparr>md_Name = ''M'', md_Input = 0, md_Output = 0\<rparr>]\<rparr>]])\<rparr>"

definition demo_grpc_net :: "(demo_message list, nat, demo_message) grpc_net" where
  "demo_grpc_net = \<lparr>gn_invoke = (\<lambda>p m r d w. ((None, r, [], []), w)), gn_open = (\<lambda>c s p m w. (None, w)),
     gn_send = (\<lambda>m w. (None, w @ [m])), gn_close_send = (\<lambda>w. w),
     gn_recv = (\<lambda>d w. case w of [] \<Rightarrow> (EndOfStream, w) | m # ms \<Rightarrow> (Received m, ms)), gn_header = (\<lambda>w. []), gn_trailer = (\<lambda>w. [])\<rparr>"

definition demo_grpc :: "(demo_message list, unit, nat, string, demo_message) grpc_env" where
  "demo_grpc = \<lparr>ge_refl = demo_refl, ge_proto = demo_proto, ge_net = demo_grpc_net, ge_classes = ascii_classes, ge_depth = 0\<rparr>"

definition demo_call :: "(string \<times> gov) list" where
  "demo_call = [(''service'', GStr ''p.S''), (''method'', GStr ''M''), (''messages'', GList (map GMap [demo_message_data, demo_message_data]))]"

theorem bidi_echo_witness:
  "\<exists>n res w'. executeBidiStream (demo_grpc\<lparr>ge_depth := n\<rparr>) demo_call [] = Some (Inr res, w')
     \<and> map_of res ''responses'' = Some (GList [GMap demo_message_data, GMap demo_message_data])"
proof -
  have "resolveTransitiveDeps (fetchFileByName demo_refl) [(''f'', \<lparr>fp_Name = ''f'', fp_Dependency = [], fp_Rest = ()\<rparr>)] []
      = Some (Inr [(''f'', \<lparr>fp_Name = ''f'', fp_Dependency = [], fp_Rest = ()\<rparr>)], [])"
    by (subst resolveTransitiveDeps.simps) (simp add: collectMissingDeps_def)
  moreover have "rl_open demo_refl w = (None, w)" "rl_exchange demo_refl r w = (Inr (FileDescriptors [''f'']), w)"
    "rl_unmarshal demo_refl b = Inr \<lparr>fp_Name = b, fp_Dependency = [], fp_Rest = ()\<rparr>"
    "rl_new_files demo_refl fs = Inr [[\<lparr>sd_FullName = ''p.S'', sd_Name = ''S'', sd_Methods = [\<lparr>md_Name = ''M'', md_Input = 0, md_Output = 0\<rparr>]\<rparr>]]"
    for w r b fs by (simp_all add: demo_refl_def)
  ultimately have "resolveMethod demo_refl ''p.S'' ''M'' [] = Some (Inr (''/p.S/M'', 0, 0), [])"
    by (simp add: resolveMethod_def add_files_def buildFileDescriptors_def findMethod_def)
  then have "resolve_params demo_grpc demo_call [] = Some (Inr (''/p.S/M'', 0, 0), [])"
    by (simp add: resolve_params_def demo_call_def getString_def) (simp add: demo_grpc_def)
  moreover have "echo_server (ge_net demo_grpc) (\<lambda>w. w)"
    by (simp add: echo_server_def demo_grpc_def demo_grpc_net_def split: list.split)
  moreover have "message_laws (ge_proto demo_grpc) (\<lambda>f p. True)" "fit_message (ge_proto demo_grpc) (\<lambda>f p. True) 0 demo_message_data"
    using demo_laws demo_fits by (simp_all add: demo_grpc_def)
  moreover have "gn_open (ge_net demo_grpc) True True ''/p.S/M'' (buildOutgoingMetadata (ge_classes demo_grpc) demo_call) [] = (None, [])"
    by (simp add: demo_grpc_def demo_grpc_net_def)
  moreover have "map_of demo_call ''messages'' = Some (GList (map GMap [demo_message_data, demo_message_data]))"
    by (simp add: demo_call_def)
  ultimately obtain n where "\<forall>k \<ge> n. \<exists>res w'. executeBidiStream (demo_grpc\<lparr>ge_depth := k\<rparr>) demo_call [] = Some (Inr res, w')
    \<and> map_of res ''responses'' = Some (GList (map GMap [demo_message_data, demo_message_data])) \<and> map_of res ''status_name'' = Some (GStr ''OK'')"
    using bidi_echo[of demo_grpc "\<lambda>f p. True" "\<lambda>w. w" demo_call "[]" "''/p.S/M''" 0 "[]" "[]" "[demo_message_data, demo_message_data]"] by auto
  then show ?thesis by (intro exI[of _ n]) auto
qed

end
