(* ===== verification/Cdp_Client.thy ===== *)
theory Cdp_Client
  imports Go_Prelude
begin

text \<open>
  connector/browser/cdp: client.go and session.go, the client of the DevTools protocol, as a step relation. Calls of \<open>Send\<close> are
  numbered; each runs in a goroutine of its own, beside the goroutine of \<open>readLoop\<close>. What the socket delivers, whether
  a write succeeds and when the connection fails are the environment's choice. The content of a response (a result,
  an error of the protocol, or a result that cannot be decoded) is of any type. The list of what was read is the model's;
  the code keeps no such list. The counter of the ids is an \<open>atomic.Int64\<close> in the code; it is an integer here, which is the
  same for the first \<open>2 ^ 63 - 1\<close> calls of a client.
\<close>

section \<open>The state\<close>

datatype 'r outcome = Reply 'r | ReadFailed string | ConnectionClosed "string option" | MarshalFailed | WriteFailed

datatype 'r call_phase = Entered | Passed | Numbered | Stored | Waiting | Returned "'r outcome"

datatype 'r reader_phase = Reading | Delivering nat 'r | Waking string "int set" | Stopped

record 'r cdp =
  cl_nextID :: int
  cl_pending :: "int \<rightharpoonup> nat"
  cl_subs :: "string \<Rightarrow> nat list"
  cl_done :: bool
  cl_readErr :: "string option"
  cl_reader :: "'r reader_phase"
  cl_phase :: "nat \<Rightarrow> 'r call_phase"
  cl_id :: "nat \<rightharpoonup> int"
  cl_chan :: "nat \<rightharpoonup> 'r outcome"
  cl_sent :: "(int \<times> nat) list"
  cl_read :: "(int \<times> 'r) list"
  cl_handled :: "(nat \<times> string) list"

definition Dial_client :: "'r cdp" where
  "Dial_client = \<lparr>cl_nextID = 0, cl_pending = Map.empty, cl_subs = (\<lambda>_. []), cl_done = False, cl_readErr = None, cl_reader = Reading,
     cl_phase = (\<lambda>_. Entered), cl_id = Map.empty, cl_chan = Map.empty, cl_sent = [], cl_read = [], cl_handled = []\<rparr>"

section \<open>A call\<close>

text \<open>The call ends: the deferred \<open>pending.Delete\<close> runs.\<close>

definition leave :: "nat \<Rightarrow> int \<Rightarrow> 'r outcome \<Rightarrow> 'r cdp \<Rightarrow> 'r cdp" where
  "leave c i x s = s\<lparr>cl_phase := (cl_phase s)(c := Returned x), cl_pending := (cl_pending s)(i := None)\<rparr>"

inductive call_step :: "'r cdp \<Rightarrow> 'r cdp \<Rightarrow> bool" where
  refuse: "cl_phase s c = Entered \<Longrightarrow> cl_done s \<Longrightarrow>
    call_step s (s\<lparr>cl_phase := (cl_phase s)(c := Returned (ConnectionClosed (cl_readErr s)))\<rparr>)"
| pass: "cl_phase s c = Entered \<Longrightarrow> \<not> cl_done s \<Longrightarrow> call_step s (s\<lparr>cl_phase := (cl_phase s)(c := Passed)\<rparr>)"
| take_id: "cl_phase s c = Passed \<Longrightarrow>
    call_step s (s\<lparr>cl_phase := (cl_phase s)(c := Numbered), cl_nextID := cl_nextID s + 1, cl_id := (cl_id s)(c \<mapsto> cl_nextID s + 1)\<rparr>)"
| cannot_marshal: "cl_phase s c = Numbered \<Longrightarrow> call_step s (s\<lparr>cl_phase := (cl_phase s)(c := Returned MarshalFailed)\<rparr>)"
| store_pending: "cl_phase s c = Numbered \<Longrightarrow> cl_id s c = Some i \<Longrightarrow>
    call_step s (s\<lparr>cl_phase := (cl_phase s)(c := Stored), cl_pending := (cl_pending s)(i \<mapsto> c)\<rparr>)"
| write_fails: "cl_phase s c = Stored \<Longrightarrow> cl_id s c = Some i \<Longrightarrow> call_step s (leave c i WriteFailed s)"
| write_done: "cl_phase s c = Stored \<Longrightarrow> cl_id s c = Some i \<Longrightarrow>
    call_step s (s\<lparr>cl_phase := (cl_phase s)(c := Waiting), cl_sent := cl_sent s @ [(i, c)]\<rparr>)"
| receive: "cl_phase s c = Waiting \<Longrightarrow> cl_id s c = Some i \<Longrightarrow> cl_chan s c = Some x \<Longrightarrow>
    call_step s (leave c i x (s\<lparr>cl_chan := (cl_chan s)(c := None)\<rparr>))"

section \<open>The read loop\<close>

text \<open>The goroutines that handle an event, one for each handler.\<close>

definition dispatchEvent :: "string \<Rightarrow> 'r cdp \<Rightarrow> 'r cdp" where
  "dispatchEvent event s = s\<lparr>cl_handled := cl_handled s @ map (\<lambda>h. (h, event)) (cl_subs s event)\<rparr>"

inductive read_step :: "'r cdp \<Rightarrow> 'r cdp \<Rightarrow> bool" where
  undecodable: "cl_reader s = Reading \<Longrightarrow> read_step s s"
| response: "cl_reader s = Reading \<Longrightarrow> i \<noteq> 0 \<Longrightarrow> cl_pending s i = Some c \<Longrightarrow>
    read_step s (s\<lparr>cl_read := cl_read s @ [(i, r)], cl_pending := (cl_pending s)(i := None), cl_reader := Delivering c r\<rparr>)"
| stray: "cl_reader s = Reading \<Longrightarrow> i \<noteq> 0 \<Longrightarrow> cl_pending s i = None \<Longrightarrow> read_step s (s\<lparr>cl_read := cl_read s @ [(i, r)]\<rparr>)"
| deliver: "cl_reader s = Delivering c r \<Longrightarrow> cl_chan s c = None \<Longrightarrow>
    read_step s (s\<lparr>cl_chan := (cl_chan s)(c \<mapsto> Reply r), cl_reader := Reading\<rparr>)"
| event: "cl_reader s = Reading \<Longrightarrow> ev \<noteq> [] \<Longrightarrow> read_step s (dispatchEvent ev s)"
| read_fails: "cl_reader s = Reading \<Longrightarrow> read_step s (s\<lparr>cl_readErr := Some err, cl_reader := Waking err (dom (cl_pending s))\<rparr>)"
| wake: "cl_reader s = Waking err todo \<Longrightarrow> cl_pending s i = Some c \<Longrightarrow>
    read_step s (s\<lparr>cl_chan := (if cl_chan s c = None then (cl_chan s)(c \<mapsto> ReadFailed err) else cl_chan s),
      cl_reader := Waking err (todo - {i})\<rparr>)"
| finish_loop: "cl_reader s = Waking err todo \<Longrightarrow> todo \<inter> dom (cl_pending s) = {} \<Longrightarrow>
    read_step s (s\<lparr>cl_reader := Stopped, cl_done := True\<rparr>)"

section \<open>The client\<close>

definition client_Subscribe :: "string \<Rightarrow> nat \<Rightarrow> 'r cdp \<Rightarrow> 'r cdp" where
  "client_Subscribe event h s = s\<lparr>cl_subs := (cl_subs s)(event := cl_subs s event @ [h])\<rparr>"

definition client_Close :: "'r cdp \<Rightarrow> 'r cdp" where
  "client_Close s = s\<lparr>cl_done := True\<rparr>"

inductive cdp_reach :: "'r cdp \<Rightarrow> 'r cdp \<Rightarrow> bool" for s where
  cdp_start: "cdp_reach s s"
| cdp_call: "cdp_reach s t \<Longrightarrow> call_step t u \<Longrightarrow> cdp_reach s u"
| cdp_read: "cdp_reach s t \<Longrightarrow> read_step t u \<Longrightarrow> cdp_reach s u"
| cdp_subscribe: "cdp_reach s t \<Longrightarrow> cdp_reach s (client_Subscribe event h t)"
| cdp_close: "cdp_reach s t \<Longrightarrow> cdp_reach s (client_Close t)"

section \<open>What every interleaving keeps\<close>

text \<open>Calls have numbers of their own; what waits under a number, and what is delivered, belongs to the call of that number.\<close>

definition answered :: "'r cdp \<Rightarrow> nat \<Rightarrow> 'r \<Rightarrow> bool" where
  "answered s c r \<longleftrightarrow> (\<exists>i. cl_id s c = Some i \<and> (i, r) \<in> set (cl_read s))"

definition ids_ok :: "'r cdp \<Rightarrow> bool" where
  "ids_ok s \<longleftrightarrow>
     (\<forall>c i. cl_id s c = Some i \<longrightarrow> 0 < i \<and> i \<le> cl_nextID s) \<and> 0 \<le> cl_nextID s
     \<and> (\<forall>c d i. cl_id s c = Some i \<longrightarrow> cl_id s d = Some i \<longrightarrow> c = d)
     \<and> (\<forall>c. cl_phase s c \<in> {Entered, Passed} \<longrightarrow> cl_id s c = None)
     \<and> (\<forall>c i. cl_pending s i = Some c \<longrightarrow> cl_id s c = Some i)"

definition replies_ok :: "'r cdp \<Rightarrow> bool" where
  "replies_ok s \<longleftrightarrow>
     (\<forall>c r. cl_chan s c = Some (Reply r) \<longrightarrow> answered s c r)
     \<and> (\<forall>c r. cl_reader s = Delivering c r \<longrightarrow> answered s c r)
     \<and> (\<forall>c r. cl_phase s c = Returned (Reply r) \<longrightarrow> answered s c r \<and> (\<exists>i. (i, c) \<in> set (cl_sent s)))
     \<and> (\<forall>c. cl_phase s c = Waiting \<longrightarrow> (\<exists>i. (i, c) \<in> set (cl_sent s)))
     \<and> (\<forall>i c. (i, c) \<in> set (cl_sent s) \<longrightarrow> cl_id s c = Some i)"

text \<open>As long as the loop reads, the channel of a call that waits under its number is empty.\<close>

definition room_ok :: "'r cdp \<Rightarrow> bool" where
  "room_ok s \<longleftrightarrow>
     (\<forall>c i. cl_pending s i = Some c \<longrightarrow> cl_reader s = Reading \<or> (\<exists>d r. cl_reader s = Delivering d r) \<longrightarrow> cl_chan s c = None)
     \<and> (\<forall>c r. cl_reader s = Delivering c r \<longrightarrow> cl_chan s c = None \<and> (\<forall>i. cl_pending s i \<noteq> Some c))
     \<and> (\<forall>c. cl_phase s c \<in> {Entered, Passed, Numbered} \<longrightarrow> cl_chan s c = None \<and> (\<forall>i. cl_pending s i \<noteq> Some c)
          \<and> (\<forall>r. cl_reader s \<noteq> Delivering c r))"

definition cdp_ok :: "'r cdp \<Rightarrow> bool" where
  "cdp_ok s \<longleftrightarrow> ids_ok s \<and> replies_ok s \<and> room_ok s"

lemma ids_call: "ids_ok s \<Longrightarrow> call_step s t \<Longrightarrow> ids_ok t"
  by (erule call_step.cases) (fastforce simp: ids_ok_def leave_def split: if_splits)+

lemma ids_read: "ids_ok s \<Longrightarrow> read_step s t \<Longrightarrow> ids_ok t"
  by (erule read_step.cases) (auto simp: ids_ok_def dispatchEvent_def split: if_splits)

lemma replies_call:
  assumes "ids_ok s" "replies_ok s" "call_step s t"
  shows "replies_ok t"
  using assms(3)
proof cases
  case (take_id c)
  then have "cl_id s c = None" using assms(1) by (auto simp: ids_ok_def)
  then have "answered s d r \<Longrightarrow> answered t d r" for d r using take_id by (auto simp: answered_def)
  moreover have "(i, d) \<in> set (cl_sent s) \<Longrightarrow> cl_id t d = Some i" for i d
    using assms(2) take_id \<open>cl_id s c = None\<close> by (auto simp: replies_ok_def)
  ultimately show ?thesis using assms(2) take_id by (auto simp: replies_ok_def)
next
  case (receive c i x)
  have "answered t d r = answered s d r" for d r using receive by (simp add: answered_def leave_def)
  then show ?thesis using assms(2) receive by (auto simp: replies_ok_def leave_def)
qed (use assms(2) in \<open>auto simp: replies_ok_def answered_def leave_def\<close>)

lemma replies_read:
  assumes "ids_ok s" "replies_ok s" "read_step s t"
  shows "replies_ok t"
  using assms(3)
proof cases
  case (response i c r)
  have "cl_id s c = Some i" using assms(1) response by (auto simp: ids_ok_def)
  moreover have "answered s d q \<Longrightarrow> answered t d q" for d q using response by (auto simp: answered_def)
  ultimately show ?thesis using assms(2) response by (auto simp: replies_ok_def answered_def)
next
  case (stray i r)
  have "answered s d q \<Longrightarrow> answered t d q" for d q using stray by (auto simp: answered_def)
  then show ?thesis using assms(2) stray by (auto simp: replies_ok_def)
next
  case (deliver c r)
  have "answered t d q = answered s d q" for d q using deliver by (simp add: answered_def)
  then show ?thesis using assms(2) deliver by (auto simp: replies_ok_def)
next
  case (wake err todo i c)
  have "answered t d q = answered s d q" for d q using wake by (simp add: answered_def)
  then show ?thesis using assms(2) wake by (auto simp: replies_ok_def split: if_splits)
qed (use assms(2) in \<open>auto simp: replies_ok_def answered_def dispatchEvent_def\<close>)

lemma room_call:
  assumes "ids_ok s" "room_ok s" "call_step s t"
  shows "room_ok t"
  using assms(3)
proof cases
  case (store_pending c i)
  then show ?thesis using assms(2) by (auto simp: room_ok_def split: if_splits)
next
  case (write_fails c i)
  then show ?thesis using assms(2) by (auto simp: room_ok_def leave_def split: if_splits)
next
  case (receive c i x)
  then show ?thesis using assms(2) by (auto simp: room_ok_def leave_def split: if_splits)
qed (use assms(2) in \<open>auto simp: room_ok_def split: if_splits\<close>)

lemma room_read:
  assumes "ids_ok s" "room_ok s" "read_step s t"
  shows "room_ok t"
  using assms(3)
proof cases
  case (response i c r)
  have "cl_id s c = Some i" using assms(1) response(4) by (simp add: ids_ok_def)
  then have one: "j = i" if "cl_pending s j = Some c" for j using assms(1) that unfolding ids_ok_def by (metis option.inject)
  have room: "cl_chan s d = None" if "cl_pending s j = Some d" for j d using assms(2) response(2) that unfolding room_ok_def by blast
  have early: "d \<noteq> c" "cl_chan s d = None" "cl_pending s j \<noteq> Some d" if "cl_phase s d \<in> {Entered, Passed, Numbered}" for d j
    using assms(2) response(4) that unfolding room_ok_def by blast+
  show ?thesis
    unfolding room_ok_def response(1)
  proof (intro conjI allI impI)
    fix d j q
    let ?t = "s\<lparr>cl_read := cl_read s @ [(i, r)], cl_pending := (cl_pending s)(i := None), cl_reader := Delivering c r\<rparr>"
    show "cl_pending ?t j = Some d \<Longrightarrow> cl_chan ?t d = None" using room[of j d] by (simp split: if_splits)
    show "cl_reader ?t = Delivering d q \<Longrightarrow> cl_chan ?t d = None" using room[OF response(4)] by simp
    show "cl_reader ?t = Delivering d q \<Longrightarrow> cl_pending ?t j \<noteq> Some d" using one[of j] by auto
    assume p: "cl_phase ?t d \<in> {Entered, Passed, Numbered}"
    then have p': "cl_phase s d \<in> {Entered, Passed, Numbered}" by simp
    show "cl_chan ?t d = None" "cl_pending ?t j \<noteq> Some d" "cl_reader ?t \<noteq> Delivering d q" using early(1,2)[OF p'] early(3)[OF p', of j] by auto
  qed
next
  case (wake err todo i c)
  then show ?thesis using assms(2) by (auto simp: room_ok_def split: if_splits)
qed (use assms(2) in \<open>auto simp: room_ok_def dispatchEvent_def split: if_splits\<close>)

lemma cdp_start_ok: "cdp_ok Dial_client"
  by (simp add: cdp_ok_def ids_ok_def replies_ok_def room_ok_def Dial_client_def)

lemma other_ok:
  "cdp_ok s \<Longrightarrow> cdp_ok (client_Subscribe event h s)" "cdp_ok s \<Longrightarrow> cdp_ok (client_Close s)"
proof -
  have "answered (client_Subscribe event h s) = answered s" "answered (client_Close s) = answered s"
    by (intro ext, simp add: answered_def client_Subscribe_def client_Close_def)+
  moreover have "ids_ok (client_Subscribe event h s) = ids_ok s" "ids_ok (client_Close s) = ids_ok s"
    by (simp_all add: ids_ok_def client_Subscribe_def client_Close_def)
  moreover have "room_ok (client_Subscribe event h s) = room_ok s" "room_ok (client_Close s) = room_ok s"
    by (simp_all add: room_ok_def client_Subscribe_def client_Close_def)
  ultimately show "cdp_ok s \<Longrightarrow> cdp_ok (client_Subscribe event h s)" "cdp_ok s \<Longrightarrow> cdp_ok (client_Close s)"
    by (simp_all add: cdp_ok_def replies_ok_def) (simp_all add: client_Subscribe_def client_Close_def)
qed

lemma reach_ok: "cdp_reach s t \<Longrightarrow> cdp_ok s \<Longrightarrow> cdp_ok t"
proof (induction rule: cdp_reach.induct)
  case (cdp_call t u)
  then show ?case using ids_call[of t u] replies_call[of t u] room_call[of t u] unfolding cdp_ok_def by blast
next
  case (cdp_read t u)
  then show ?case using ids_read[of t u] replies_read[of t u] room_read[of t u] unfolding cdp_ok_def by blast
qed (auto intro: other_ok)

text \<open>C37: responses reach their calls. However calls of \<open>Send\<close>, the read loop, subscriptions and \<open>Close\<close> interleave: a call that
  returns a response has sent its request, under a number no other call has, and the response was read under this
  number; and the read loop is never held up in handing a response over, since the channel of the call is empty.\<close>

theorem replies_reach_callers:
  assumes "cdp_reach Dial_client s"
  shows "(\<forall>c r. cl_phase s c = Returned (Reply r) \<longrightarrow>
      (\<exists>i. (i, c) \<in> set (cl_sent s) \<and> (i, r) \<in> set (cl_read s) \<and> (\<forall>d. cl_id s d = Some i \<longrightarrow> d = c)))
    \<and> (\<forall>c r. cl_reader s = Delivering c r \<longrightarrow> read_step s (s\<lparr>cl_chan := (cl_chan s)(c \<mapsto> Reply r), cl_reader := Reading\<rparr>))"
proof -
  have ok: "ids_ok s" "replies_ok s" "room_ok s" using reach_ok[OF assms cdp_start_ok] by (simp_all add: cdp_ok_def)
  have "\<exists>i. (i, c) \<in> set (cl_sent s) \<and> (i, r) \<in> set (cl_read s) \<and> (\<forall>d. cl_id s d = Some i \<longrightarrow> d = c)"
    if "cl_phase s c = Returned (Reply r)" for c r
  proof -
    have a: "answered s c r" "\<exists>i. (i, c) \<in> set (cl_sent s)" using ok(2) that by (auto simp: replies_ok_def)
    then obtain i where i: "(i, c) \<in> set (cl_sent s)" by blast
    then have "cl_id s c = Some i" using ok(2) by (simp add: replies_ok_def)
    with a(1) i ok(1) show ?thesis unfolding answered_def ids_ok_def by (metis option.inject)
  qed
  moreover have "read_step s (s\<lparr>cl_chan := (cl_chan s)(c \<mapsto> Reply r), cl_reader := Reading\<rparr>)" if "cl_reader s = Delivering c r" for c r
    using that ok(3) by (intro deliver) (auto simp: room_ok_def)
  ultimately show ?thesis by blast
qed

section \<open>A call that never returns\<close>

definition lost :: "nat \<Rightarrow> 'r cdp \<Rightarrow> bool" where
  "lost c s \<longleftrightarrow> cl_reader s = Stopped \<and> cl_phase s c = Waiting \<and> cl_chan s c = None"

lemma lost_stays: "cdp_reach s t \<Longrightarrow> lost c s \<Longrightarrow> lost c t"
proof (induction rule: cdp_reach.induct)
  case (cdp_call t u)
  then have "lost c t" by blast
  from cdp_call(2) this show ?case by (cases rule: call_step.cases) (auto simp: lost_def leave_def)
next
  case (cdp_read t u)
  then have "lost c t" by blast
  from cdp_read(2) this show ?case by (cases rule: read_step.cases) (auto simp: lost_def)
qed (auto simp: lost_def client_Subscribe_def client_Close_def)

text \<open>A call that looks at \<open>done\<close> just before the read loop ends.\<close>

lemma lost_reachable: "\<exists>s. cdp_reach Dial_client s \<and> lost c (s :: 'r cdp)"
proof -
  define s1 :: "'r cdp" where "s1 = Dial_client\<lparr>cl_phase := (cl_phase Dial_client)(c := Passed)\<rparr>"
  define s2 where "s2 = s1\<lparr>cl_readErr := Some [], cl_reader := Waking [] (dom (cl_pending s1))\<rparr>"
  define s3 where "s3 = s2\<lparr>cl_reader := Stopped, cl_done := True\<rparr>"
  define s4 where "s4 = s3\<lparr>cl_phase := (cl_phase s3)(c := Numbered), cl_nextID := cl_nextID s3 + 1, cl_id := (cl_id s3)(c \<mapsto> cl_nextID s3 + 1)\<rparr>"
  define s5 where "s5 = s4\<lparr>cl_phase := (cl_phase s4)(c := Stored), cl_pending := (cl_pending s4)(1 \<mapsto> c)\<rparr>"
  define s6 where "s6 = s5\<lparr>cl_phase := (cl_phase s5)(c := Waiting), cl_sent := cl_sent s5 @ [(1, c)]\<rparr>"
  note d = s1_def s2_def s3_def s4_def s5_def s6_def Dial_client_def
  have "cdp_reach Dial_client s1" unfolding s1_def by (rule cdp_call[OF cdp_start pass]) (simp_all add: Dial_client_def)
  moreover have "read_step s1 s2" unfolding s2_def by (rule read_fails) (simp add: d)
  ultimately have "cdp_reach Dial_client s2" by (rule cdp_read)
  moreover have "read_step s2 s3" unfolding s3_def by (rule finish_loop[where err = "[]" and todo = "{}"]) (simp_all add: d)
  ultimately have "cdp_reach Dial_client s3" by (rule cdp_read)
  moreover have "call_step s3 s4" unfolding s4_def by (rule take_id) (simp add: d)
  ultimately have "cdp_reach Dial_client s4" by (rule cdp_call)
  moreover have "call_step s4 s5" unfolding s5_def by (rule store_pending) (simp_all add: d)
  ultimately have "cdp_reach Dial_client s5" by (rule cdp_call)
  moreover have "call_step s5 s6" unfolding s6_def by (rule write_done) (simp_all add: d)
  ultimately have "cdp_reach Dial_client s6" by (rule cdp_call)
  moreover have "lost c s6" by (simp add: lost_def d)
  ultimately show ?thesis by blast
qed

text \<open>A call can wait for ever. A run is possible in which the connection fails between a call's look at \<open>done\<close> and its entry
  among the pending calls; from then on, whatever happens, the call does not return.\<close>

theorem Send_can_hang:
  "\<exists>s. cdp_reach (Dial_client :: 'r cdp) s \<and> (\<forall>t. cdp_reach s t \<longrightarrow> cl_phase t c = Waiting)"
  using lost_reachable[of c] lost_stays unfolding lost_def by blast

theorem Send_can_hang_witness:
  "\<exists>s. cdp_reach (Dial_client :: string cdp) s \<and> (\<forall>t. cdp_reach s t \<longrightarrow> cl_phase t 3 = Waiting)"
  by (rule Send_can_hang[of 3])

definition demo_cdp :: "string cdp" where
  "demo_cdp = Dial_client\<lparr>cl_nextID := 1, cl_id := [0 \<mapsto> 1], cl_phase := (\<lambda>_. Entered)(0 := Returned (Reply ''ok'')), cl_sent := [(1, 0)],
     cl_read := [(1, ''ok'')]\<rparr>"

lemma demo_cdp_reached: "cdp_reach Dial_client demo_cdp"
proof -
  define s1 :: "string cdp" where "s1 = Dial_client\<lparr>cl_phase := (cl_phase Dial_client)(0 := Passed)\<rparr>"
  define s2 where "s2 = s1\<lparr>cl_phase := (cl_phase s1)(0 := Numbered), cl_nextID := cl_nextID s1 + 1, cl_id := (cl_id s1)(0 \<mapsto> cl_nextID s1 + 1)\<rparr>"
  define s3 where "s3 = s2\<lparr>cl_phase := (cl_phase s2)(0 := Stored), cl_pending := (cl_pending s2)(1 \<mapsto> 0)\<rparr>"
  define s4 where "s4 = s3\<lparr>cl_phase := (cl_phase s3)(0 := Waiting), cl_sent := cl_sent s3 @ [(1, 0)]\<rparr>"
  define s5 where "s5 = s4\<lparr>cl_read := cl_read s4 @ [(1, ''ok'')], cl_pending := (cl_pending s4)(1 := None), cl_reader := Delivering 0 ''ok''\<rparr>"
  define s6 where "s6 = s5\<lparr>cl_chan := (cl_chan s5)(0 \<mapsto> Reply ''ok''), cl_reader := Reading\<rparr>"
  define s7 where "s7 = leave 0 1 (Reply ''ok'') (s6\<lparr>cl_chan := (cl_chan s6)(0 := None)\<rparr>)"
  note d = s1_def s2_def s3_def s4_def s5_def s6_def Dial_client_def
  have "cdp_reach Dial_client s1" unfolding s1_def by (rule cdp_call[OF cdp_start pass]) (simp_all add: Dial_client_def)
  moreover have "call_step s1 s2" unfolding s2_def by (rule take_id) (simp add: d)
  ultimately have "cdp_reach Dial_client s2" by (rule cdp_call)
  moreover have "call_step s2 s3" unfolding s3_def by (rule store_pending) (simp_all add: d)
  ultimately have "cdp_reach Dial_client s3" by (rule cdp_call)
  moreover have "call_step s3 s4" unfolding s4_def by (rule write_done) (simp_all add: d)
  ultimately have "cdp_reach Dial_client s4" by (rule cdp_call)
  moreover have "read_step s4 s5" unfolding s5_def by (rule response) (simp_all add: d)
  ultimately have "cdp_reach Dial_client s5" by (rule cdp_read)
  moreover have "read_step s5 s6" unfolding s6_def by (rule deliver) (simp_all add: d)
  ultimately have "cdp_reach Dial_client s6" by (rule cdp_read)
  moreover have "call_step s6 s7" unfolding s7_def by (rule receive) (simp_all add: d)
  ultimately have "cdp_reach Dial_client s7" by (rule cdp_call)
  moreover have "s7 = demo_cdp" by (simp add: s7_def d leave_def demo_cdp_def fun_upd_def fun_eq_iff)
  ultimately show ?thesis by simp
qed

theorem replies_reach_callers_witness:
  "cdp_reach Dial_client demo_cdp \<and> cl_phase demo_cdp 0 = Returned (Reply ''ok'')
   \<and> (\<exists>i. (i, 0) \<in> set (cl_sent demo_cdp) \<and> (i, ''ok'') \<in> set (cl_read demo_cdp))"
proof -
  have "cl_phase demo_cdp 0 = Returned (Reply ''ok'')" by (simp add: demo_cdp_def)
  with replies_reach_callers[OF demo_cdp_reached] demo_cdp_reached show ?thesis by blast
qed

end
