(* ===== verification/Reporters.thy ===== *)
theory Reporters
  imports Engine
begin

text \<open>
  core/reporter: the reporter for machines (json.go) and the one for terminals (ansi.go, colors.go), and what the first makes of
  the events of a suite of plain tests. The elapsed times, which the engine's model leaves out, are a parameter, and so are
  the texts of errors. Writing the output, as JSON or as it is, is not modelled.
\<close>

section \<open>JSON\<close>

record json_step =
  js_Name :: string
  js_Passed :: bool
  js_Elapsed :: string
  js_Error :: string

record json_test =
  jt_Name :: string
  jt_Suite :: string
  jt_Tags :: "string list"
  jt_Passed :: bool
  jt_Elapsed :: string
  jt_Steps :: "json_step list"

record json_summary =
  jm_Passed :: int
  jm_Failed :: int
  jm_Skipped :: int
  jm_Elapsed :: string

record json_suite =
  ju_Name :: string
  ju_Tests :: "json_test list"
  ju_Summary :: json_summary

text \<open>\<open>current\<close> points to the last of the suites once there is one.\<close>

record json_reporter =
  jr_suites :: "json_suite list"
  jr_current :: bool
  jr_tests :: "(string \<times> json_test) list"
  jr_testOrder :: "string list"

definition NewJSONReporter :: json_reporter where
  "NewJSONReporter = \<lparr>jr_suites = [], jr_current = False, jr_tests = [], jr_testOrder = []\<rparr>"

definition testKey :: "string \<Rightarrow> string \<Rightarrow> string" where
  "testKey suite name = suite @ [CHR 0x00] @ name"

definition no_summary :: json_summary where
  "no_summary = \<lparr>jm_Passed = 0, jm_Failed = 0, jm_Skipped = 0, jm_Elapsed = []\<rparr>"

definition json_OnSuiteStart :: "string \<Rightarrow> json_reporter \<Rightarrow> json_reporter" where
  "json_OnSuiteStart name r =
     r\<lparr>jr_suites := jr_suites r @ [\<lparr>ju_Name = name, ju_Tests = [], ju_Summary = no_summary\<rparr>],
       jr_current := True, jr_tests := [], jr_testOrder := []\<rparr>"

definition json_OnTestStart :: "test_info \<Rightarrow> json_reporter \<Rightarrow> json_reporter" where
  "json_OnTestStart test r =
     (let entry = \<lparr>jt_Name = ti_Name test, jt_Suite = ti_Suite test, jt_Tags = ti_Tags test, jt_Passed = False, jt_Elapsed = [],
            jt_Steps = []\<rparr>;
          key = testKey (ti_Suite test) (ti_Name test)
      in r\<lparr>jr_tests := AList.update key entry (jr_tests r), jr_testOrder := jr_testOrder r @ [key]\<rparr>)"

definition json_step_of :: "(step_error \<Rightarrow> string) \<Rightarrow> step_result \<Rightarrow> int \<Rightarrow> json_step" where
  "json_step_of err_text step elapsed =
     \<lparr>js_Name = sr_Name step, js_Passed = sr_Passed step, js_Elapsed = dur_string elapsed,
      js_Error = (case sr_Error step of None \<Rightarrow> [] | Some e \<Rightarrow> err_text e)\<rparr>"

definition json_OnStepResult :: "(step_error \<Rightarrow> string) \<Rightarrow> test_info \<Rightarrow> step_result \<Rightarrow> int \<Rightarrow> json_reporter \<Rightarrow> json_reporter" where
  "json_OnStepResult err_text test step elapsed r =
     (let key = testKey (ti_Suite test) (ti_Name test) in
      case map_of (jr_tests r) key of
        None \<Rightarrow> r
      | Some t \<Rightarrow>
          r\<lparr>jr_tests := AList.update key (t\<lparr>jt_Steps := jt_Steps t @ [json_step_of err_text step elapsed]\<rparr>) (jr_tests r)\<rparr>)"

definition json_OnTestEnd :: "test_info \<Rightarrow> test_result \<Rightarrow> int \<Rightarrow> json_reporter \<Rightarrow> json_reporter" where
  "json_OnTestEnd test result elapsed r =
     (let key = testKey (ti_Suite test) (ti_Name test) in
      case map_of (jr_tests r) key of
        None \<Rightarrow> r
      | Some t \<Rightarrow>
          r\<lparr>jr_tests := AList.update key (t\<lparr>jt_Passed := rt_Passed result, jt_Elapsed := dur_string elapsed\<rparr>) (jr_tests r)\<rparr>)"

definition json_OnSuiteEnd :: "int \<Rightarrow> int \<Rightarrow> int \<Rightarrow> int \<Rightarrow> json_reporter \<Rightarrow> json_reporter" where
  "json_OnSuiteEnd passed failed skipped elapsed r =
     (if \<not> jr_current r then r
      else (let cur = last (jr_suites r);
                cur' = cur\<lparr>ju_Summary := \<lparr>jm_Passed = passed, jm_Failed = failed, jm_Skipped = skipped, jm_Elapsed = dur_string elapsed\<rparr>,
                  ju_Tests := ju_Tests cur @ List.map_filter (map_of (jr_tests r)) (jr_testOrder r)\<rparr>
            in r\<lparr>jr_suites := butlast (jr_suites r) @ [cur']\<rparr>))"

text \<open>What the engine tells a reporter; \<open>el\<close> is the elapsed time that comes with an event.\<close>

fun json_report :: "(step_error \<Rightarrow> string) \<Rightarrow> (happening \<Rightarrow> int) \<Rightarrow> happening \<Rightarrow> json_reporter \<Rightarrow> json_reporter" where
  "json_report et el (OnSuiteStart name cnt) r = json_OnSuiteStart name r"
| "json_report et el (OnTestStart test) r = json_OnTestStart test r"
| "json_report et el (OnStepResult test step) r = json_OnStepResult et test step (el (OnStepResult test step)) r"
| "json_report et el (OnTestEnd test result) r = json_OnTestEnd test result (el (OnTestEnd test result)) r"
| "json_report et el (OnSuiteEnd name p f sk) r = json_OnSuiteEnd p f sk (el (OnSuiteEnd name p f sk)) r"
| "json_report et el _ r = r"

section \<open>Terminals\<close>

definition Reset :: string where "Reset = [CHR 0x1B] @ ''[0m''"

definition Colorize :: "bool \<Rightarrow> string \<Rightarrow> string \<Rightarrow> string" where
  "Colorize ColorEnabled s color = (if \<not> ColorEnabled then s else color @ s @ Reset)"

definition Green :: string where "Green = [CHR 0x1B] @ ''[32m''"
definition Red :: string where "Red = [CHR 0x1B] @ ''[31m''"
definition Yellow :: string where "Yellow = [CHR 0x1B] @ ''[33m''"
definition Bold :: string where "Bold = [CHR 0x1B] @ ''[1m''"

definition newline :: string where "newline = [CHR 0x0A]"

definition formatDuration :: "int \<Rightarrow> string" where
  "formatDuration d = (if d = 0 then [] else ''('' @ dur_string d @ '')'')"

definition ansi_OnSuiteStart :: "bool \<Rightarrow> string \<Rightarrow> int \<Rightarrow> string" where
  "ansi_OnSuiteStart ce name cnt = Colorize ce (''Suite: '' @ name @ '' ('' @ itoa cnt @ '' tests)'') Bold @ newline"

definition ansi_OnTestStart :: "test_info \<Rightarrow> string" where
  "ansi_OnTestStart test = ''  Test: '' @ ti_Name test @ newline"

definition ansi_OnStepResult :: "bool \<Rightarrow> (step_error \<Rightarrow> string) \<Rightarrow> step_result \<Rightarrow> int \<Rightarrow> string" where
  "ansi_OnStepResult ce et step elapsed =
     (if sr_Passed step then
        ''    '' @ Colorize ce (map char_of [0xE2, 0x9C, 0x93 :: nat]) Green @ '' '' @ sr_Name step @ '' '' @ formatDuration elapsed @ newline
      else (let errMsg = (case sr_Error step of None \<Rightarrow> [] | Some e \<Rightarrow> et e) in
        ''    '' @ Colorize ce (map char_of [0xE2, 0x9C, 0x97 :: nat]) Red @ '' '' @ sr_Name step @ '' '' @ formatDuration elapsed @ newline @
        (if errMsg \<noteq> [] then ''      '' @ Colorize ce errMsg Red @ newline else [])))"

definition ansi_OnTestEnd :: "bool \<Rightarrow> test_info \<Rightarrow> test_result \<Rightarrow> int \<Rightarrow> string" where
  "ansi_OnTestEnd ce test result elapsed =
     ''  '' @ (if rt_Passed result then Colorize ce ''PASS'' Green else Colorize ce ''FAIL'' Red) @ '' '' @ ti_Name test
       @ '' ('' @ dur_string elapsed @ '')'' @ newline"

definition ansi_OnSuiteEnd :: "bool \<Rightarrow> string \<Rightarrow> int \<Rightarrow> int \<Rightarrow> int \<Rightarrow> int \<Rightarrow> string" where
  "ansi_OnSuiteEnd ce name passed failed skipped elapsed =
     newline @ ''Results for '' @ name @ '':'' @ newline @
     ''  '' @ Colorize ce (itoa passed @ '' passed'') Green @ ''  '' @ Colorize ce (itoa failed @ '' failed'') Red @ ''  ''
       @ Colorize ce (itoa skipped @ '' skipped'') Yellow @ ''  ('' @ dur_string elapsed @ '')'' @ newline"

text \<open>The buffer after an event.\<close>

fun ansi_report :: "bool \<Rightarrow> (step_error \<Rightarrow> string) \<Rightarrow> (happening \<Rightarrow> int) \<Rightarrow> happening \<Rightarrow> string \<Rightarrow> string" where
  "ansi_report ce et el (OnSuiteStart name cnt) buf = buf @ ansi_OnSuiteStart ce name cnt"
| "ansi_report ce et el (OnTestStart test) buf = buf @ ansi_OnTestStart test"
| "ansi_report ce et el (OnStepResult test step) buf = buf @ ansi_OnStepResult ce et step (el (OnStepResult test step))"
| "ansi_report ce et el (OnTestEnd test result) buf = buf @ ansi_OnTestEnd ce test result (el (OnTestEnd test result))"
| "ansi_report ce et el (OnSuiteEnd name p f sk) buf = buf @ ansi_OnSuiteEnd ce name p f sk (el (OnSuiteEnd name p f sk))"
| "ansi_report ce et el _ buf = buf"

section \<open>The events of a suite\<close>

fun is_report :: "happening \<Rightarrow> bool" where
  "is_report (OnSuiteStart n c) = True"
| "is_report (OnTestStart t) = True"
| "is_report (OnStepResult t st) = True"
| "is_report (OnTestEnd t r) = True"
| "is_report (OnSuiteEnd n p f sk) = True"
| "is_report _ = False"

definition reports :: "'w run_state \<Rightarrow> happening list" where
  "reports s = filter is_report (rs_log s)"

lemma reports_simps [simp]:
  "reports (emitTelemetry rr e cx x s) = reports s"
  "reports (on_coverage f s) = reports s"
  "reports (s\<lparr>rs_world := w\<rparr>) = reports s"
  "reports (s\<lparr>rs_store := st\<rparr>) = reports s"
  "reports (record_event rr ev tags s) = reports s"
  "reports (NewTestContext eg suite s) = reports s"
  "\<not> is_report h \<Longrightarrow> reports (logged h s) = reports s"
  "is_report h \<Longrightarrow> reports (logged h s) = reports s @ [h]"
  by (simp_all add: reports_def emitTelemetry_def on_coverage_def logged_def record_event_def NewTestContext_def)

lemma reports_capture_loop [simp]: "reports (snd (capture_loop rr cx name data cs s)) = reports s"
  by (induction rr cx name data cs s rule: capture_loop.induct) (simp_all split: sum.split)

lemma reports_assert_loop [simp]: "reports (snd (assert_loop rr cx name data as s)) = reports s"
  by (induction rr cx name data as s rule: assert_loop.induct) (simp_all split: sum.split option.split)

lemma reports_step_body [simp]: "reports (snd (step_body rr cx step name conn s)) = reports s"
proof -
  have c: "capture_loop rr cx name data cs t = (x, u) \<Longrightarrow> reports u = reports t" for data cs t x u
    using reports_capture_loop[of rr cx name data cs t] by simp
  have a: "assert_loop rr cx name data cs t = (x, u) \<Longrightarrow> reports u = reports t" for data cs t x u
    using reports_assert_loop[of rr cx name data cs t] by simp
  show ?thesis
    by (auto simp: step_body_def Let_def split: prod.split sum.split option.split dest!: c a)
qed

lemma reports_runStep: "runStep rr cx step i config s = (r, s') \<Longrightarrow> reports s' = reports s"
proof -
  have b: "step_body rr cx step name conn t = (x, u) \<Longrightarrow> reports u = reports t" for name conn t x u
    using reports_step_body[of rr cx step name conn t] by simp
  show "runStep rr cx step i config s = (r, s') \<Longrightarrow> reports s' = reports s"
    by (auto simp: runStep_def Let_def split: if_splits option.splits prod.splits dest!: b)
qed

definition told :: "step_result \<Rightarrow> bool" where
  "told sr \<longleftrightarrow> (\<forall>e. sr_Error sr \<noteq> Some (ContextError e))"

lemma capture_error: "capture_loop rr cx name data cs s = (Some (ContextError x), s') \<Longrightarrow> False"
  by (induction rr cx name data cs s rule: capture_loop.induct) (auto split: sum.splits)

lemma assert_error: "assert_loop rr cx name data as s = (Inr (Some (ContextError x)), s') \<Longrightarrow> False"
  by (induction rr cx name data as s rule: assert_loop.induct) (auto split: sum.splits option.splits)

lemma step_body_told: "step_body rr cx step name conn s = (Inr sr, s') \<Longrightarrow> told sr"
  by (auto simp: told_def step_body_def Let_def passed_step_def failed_step_def
      split: if_splits prod.splits sum.splits option.splits dest: capture_error assert_error)

lemma runStep_told: "runStep rr cx step i config s = (Inr sr, s') \<Longrightarrow> told sr"
  by (auto simp: runStep_def Let_def split: if_splits option.splits prod.splits sum.splits dest: step_body_told)
    (auto simp: told_def failed_step_def)

text \<open>The steps the reporter is told of: all but one that was not begun because the context was done.\<close>

abbreviation step_info :: "test_context \<Rightarrow> test_info" where
  "step_info cx \<equiv> \<lparr>ti_Name = cx_Test cx, ti_Suite = cx_Suite cx, ti_Tags = []\<rparr>"

lemma reports_step_loop:
  "step_loop rr cx test config i steps s = (Inr srs, s') \<Longrightarrow> reports s' = reports s @ map (OnStepResult (step_info cx)) (filter told srs)"
proof (induction steps arbitrary: i s srs s')
  case (Cons step0 steps)
  show ?case
  proof (cases "rn_ctx_err rr (rs_world s)")
    case None
    define step where "step = (if ts_Connector step0 = [] then step0\<lparr>ts_Connector := tc_Connector test\<rparr> else step0)"
    obtain r s1 where r: "runStep rr cx step i config s = (r, s1)" by fastforce
    note rep = reports_runStep[OF r]
    show ?thesis
    proof (cases r)
      case (Inl msg)
      with None r Cons.prems show ?thesis by (simp add: Let_def step_def[symmetric])
    next
      case (Inr sr)
      note t = runStep_told[OF r[unfolded Inr]]
      let ?s2 = "logged (OnStepResult (step_info cx) sr) s1"
      have rep2: "reports ?s2 = reports s @ [OnStepResult (step_info cx) sr]" by (simp add: rep)
      show ?thesis
      proof (cases "sr_Passed sr")
        case False
        with None r Inr t rep Cons.prems show ?thesis by (auto simp: Let_def step_def[symmetric])
      next
        case True
        obtain r' s3 where l: "step_loop rr cx test config (i + 1) steps ?s2 = (r', s3)" by fastforce
        show ?thesis
        proof (cases r')
          case (Inr srs')
          with None r \<open>r = Inr sr\<close> True l Cons.prems have "srs = sr # srs'" "s' = s3"
            by (simp_all add: Let_def step_def[symmetric])
          with Cons.IH[OF l[unfolded Inr]] rep2 t show ?thesis by simp
        qed (use None r \<open>r = Inr sr\<close> True l Cons.prems in \<open>simp add: Let_def step_def[symmetric]\<close>)
      qed
    qed
  next
    case (Some err)
    with Cons.prems show ?thesis by (auto simp: told_def failed_step_def)
  qed
qed simp

definition test_reports :: "test_suite \<Rightarrow> test_case \<Rightarrow> test_result \<Rightarrow> happening list" where
  "test_reports suite test r =
     [OnTestStart (test_info_of suite test)]
     @ map (OnStepResult \<lparr>ti_Name = tc_Name test, ti_Suite = su_Suite suite, ti_Tags = []\<rparr>) (filter told (rt_Steps r))
     @ [OnTestEnd (test_info_of suite test) r]"

lemma reports_run_one:
  assumes "run_one e rr suite test (s, sr) = (None, (s', sr'))"
  shows "\<exists>r. sr' = sr\<lparr>sur_Results := sur_Results sr @ [r]\<rparr> \<and> reports s' = reports s @ test_reports suite test r"
proof -
  let ?cx = "\<lparr>cx_Suite = su_Suite suite, cx_Test = tc_Name test\<rparr>" and ?s0 = "logged (OnTestStart (test_info_of suite test)) s"
  obtain r s1 where r: "RunTest rr ?cx test (connector_config e test) ?s0 = (Inr r, s1)"
    "s' = logged (OnTestEnd (test_info_of suite test) r) s1" "sr' = sr\<lparr>sur_Results := sur_Results sr @ [r]\<rparr>"
    using assms by (auto simp: run_one_def Let_def split: prod.splits sum.splits)
  obtain srs s2 where l: "step_loop rr ?cx test (connector_config e test) 0 (tc_Steps test) (emitTelemetry rr TestStart ?cx [] ?s0) = (Inr srs, s2)"
    "rt_Steps r = srs" "reports s1 = reports s2"
    using r(1) by (auto simp: RunTest_def Let_def split: prod.splits sum.splits)
  from reports_step_loop[OF l(1)] l(2,3) r(2,3) show ?thesis by (simp add: test_reports_def)
qed

lemma reports_simple_loop:
  "simple_loop e suite tests (s, sr) = (None, (s', sr')) \<Longrightarrow>
   \<exists>rs. sur_Results sr' = sur_Results sr @ rs \<and> length rs = length (filter (\<lambda>t. \<not> tc_Skip t) tests)
     \<and> reports s' = reports s @ concat (map2 (test_reports suite) (filter (\<lambda>t. \<not> tc_Skip t) tests) rs)"
proof (induction tests arbitrary: s sr)
  case (Cons test tests)
  show ?case
  proof (cases "tc_Skip test")
    case True
    with Cons.prems have "simple_loop e suite tests
      (record_event (eg_runner e) TestSkip [(''suite'', su_Suite suite), (''test'', tc_Name test)]
         (on_coverage (RecordTestSkip (su_Suite suite) (tc_Name test)) s),
       sr\<lparr>sur_Skipped := sur_Skipped sr + 1\<rparr>) = (None, (s', sr'))" by simp
    from Cons.IH[OF this] True show ?thesis by simp
  next
    case False
    obtain q s1 sr1 where q: "run_one e (eg_runner e) suite test (NewTestContext e suite s, sr) = (q, (s1, sr1))"
      by (cases "run_one e (eg_runner e) suite test (NewTestContext e suite s, sr)") auto
    with False Cons.prems have q0: "q = None" and l: "simple_loop e suite tests (s1, sr1) = (None, (s', sr'))"
      by (auto split: option.splits)
    obtain r where r: "sr1 = sr\<lparr>sur_Results := sur_Results sr @ [r]\<rparr>" "reports s1 = reports s @ test_reports suite test r"
      using reports_run_one[OF q[unfolded q0]] by auto
    obtain rs where "sur_Results sr' = sur_Results sr1 @ rs" "length rs = length (filter (\<lambda>t. \<not> tc_Skip t) tests)"
      "reports s' = reports s1 @ concat (map2 (test_reports suite) (filter (\<lambda>t. \<not> tc_Skip t) tests) rs)"
      using Cons.IH[OF l] by blast
    with r False show ?thesis by (intro exI[of _ "r # rs"]) simp
  qed
qed simp

section \<open>The JSON of a suite\<close>

lemma update_at_end: "k \<notin> fst ` set xs \<Longrightarrow> AList.update k v (xs @ [(k, u)]) = xs @ [(k, v)]"
  by (induction xs) auto

lemma map_of_at_end: "k \<notin> fst ` set xs \<Longrightarrow> map_of (xs @ [(k, u)]) k = Some u"
  by (induction xs) auto

definition json_test_of :: "(step_error \<Rightarrow> string) \<Rightarrow> (happening \<Rightarrow> int) \<Rightarrow> test_suite \<Rightarrow> test_case \<Rightarrow> test_result \<Rightarrow> json_test" where
  "json_test_of et el suite test r =
     \<lparr>jt_Name = tc_Name test, jt_Suite = su_Suite suite, jt_Tags = tc_Tags test, jt_Passed = rt_Passed r,
      jt_Elapsed = dur_string (el (OnTestEnd (test_info_of suite test) r)),
      jt_Steps = map (\<lambda>sr. json_step_of et sr (el (OnStepResult \<lparr>ti_Name = tc_Name test, ti_Suite = su_Suite suite, ti_Tags = []\<rparr> sr)))
        (filter told (rt_Steps r))\<rparr>"

lemma json_steps:
  assumes "testKey (ti_Suite info) (ti_Name info) \<notin> fst ` set xs"
  shows "jr_tests R = xs @ [(testKey (ti_Suite info) (ti_Name info), t)] \<Longrightarrow>
    fold (json_report et el) (map (OnStepResult info) srs) R =
      R\<lparr>jr_tests := xs @ [(testKey (ti_Suite info) (ti_Name info),
         t\<lparr>jt_Steps := jt_Steps t @ map (\<lambda>sr. json_step_of et sr (el (OnStepResult info sr))) srs\<rparr>)]\<rparr>"
proof (induction srs arbitrary: R t)
  case (Cons sr srs)
  let ?k = "testKey (ti_Suite info) (ti_Name info)" and ?j = "json_step_of et sr (el (OnStepResult info sr))"
  let ?R = "R\<lparr>jr_tests := xs @ [(?k, t\<lparr>jt_Steps := jt_Steps t @ [?j]\<rparr>)]\<rparr>"
  have "json_report et el (OnStepResult info sr) R = ?R"
    using Cons.prems by (simp add: json_OnStepResult_def map_of_at_end[OF assms] update_at_end[OF assms] Let_def del: map_of_append)
  moreover have "jr_tests ?R = xs @ [(?k, t\<lparr>jt_Steps := jt_Steps t @ [?j]\<rparr>)]" by simp
  ultimately show ?case using Cons.IH[of ?R "t\<lparr>jt_Steps := jt_Steps t @ [?j]\<rparr>"] by simp
qed simp

lemma json_one:
  assumes "testKey (su_Suite suite) (tc_Name test) \<notin> fst ` set (jr_tests R)"
  shows "fold (json_report et el) (test_reports suite test r) R =
    R\<lparr>jr_tests := jr_tests R @ [(testKey (su_Suite suite) (tc_Name test), json_test_of et el suite test r)],
      jr_testOrder := jr_testOrder R @ [testKey (su_Suite suite) (tc_Name test)]\<rparr>"
proof -
  let ?k = "testKey (su_Suite suite) (tc_Name test)" and ?i = "\<lparr>ti_Name = tc_Name test, ti_Suite = su_Suite suite, ti_Tags = []\<rparr>"
  let ?t = "\<lparr>jt_Name = tc_Name test, jt_Suite = su_Suite suite, jt_Tags = tc_Tags test, jt_Passed = False, jt_Elapsed = [], jt_Steps = []\<rparr>"
  let ?R = "R\<lparr>jr_tests := jr_tests R @ [(?k, ?t)], jr_testOrder := jr_testOrder R @ [?k]\<rparr>"
  have "json_report et el (OnTestStart (test_info_of suite test)) R = ?R"
    using assms by (simp add: json_OnTestStart_def test_info_of_def Let_def update_new)
  moreover have "fold (json_report et el) (map (OnStepResult ?i) (filter told (rt_Steps r))) ?R =
      ?R\<lparr>jr_tests := jr_tests R @ [(?k, ?t\<lparr>jt_Steps := map (\<lambda>sr. json_step_of et sr (el (OnStepResult ?i sr))) (filter told (rt_Steps r))\<rparr>)]\<rparr>"
    using json_steps[of ?i "jr_tests R" ?R ?t et el] assms by simp
  ultimately show ?thesis
    by (simp add: test_reports_def json_OnTestEnd_def test_info_of_def Let_def map_of_at_end[OF assms] update_at_end[OF assms]
        json_test_of_def del: map_of_append)
qed

lemma testKey_inj [simp]: "testKey suite n = testKey suite m \<longleftrightarrow> n = m"
  by (simp add: testKey_def)

lemma json_tests:
  "length rs = length tests \<Longrightarrow> distinct (map tc_Name tests) \<Longrightarrow>
   \<forall>t \<in> set tests. testKey (su_Suite suite) (tc_Name t) \<notin> fst ` set (jr_tests R) \<Longrightarrow>
   fold (json_report et el) (concat (map2 (test_reports suite) tests rs)) R =
     R\<lparr>jr_tests := jr_tests R @ map2 (\<lambda>t r. (testKey (su_Suite suite) (tc_Name t), json_test_of et el suite t r)) tests rs,
       jr_testOrder := jr_testOrder R @ map (\<lambda>t. testKey (su_Suite suite) (tc_Name t)) tests\<rparr>"
proof (induction tests arbitrary: rs R)
  case (Cons t tests)
  then obtain r rs' where rs: "rs = r # rs'" "length rs' = length tests" by (cases rs) auto
  let ?k = "\<lambda>t. testKey (su_Suite suite) (tc_Name t)"
  let ?R = "R\<lparr>jr_tests := jr_tests R @ [(?k t, json_test_of et el suite t r)], jr_testOrder := jr_testOrder R @ [?k t]\<rparr>"
  have "\<forall>u \<in> set tests. ?k u \<notin> fst ` set (jr_tests ?R)" using Cons.prems(2,3) by (auto simp: image_iff)
  from Cons.IH[OF rs(2) _ this] Cons.prems(2) json_one[of suite t R et el r] Cons.prems(3) show ?case by (simp add: rs(1))
qed simp

lemma map_filter_keys: "distinct (map fst xs) \<Longrightarrow> List.map_filter (map_of xs) (map fst xs) = map snd xs"
proof -
  assume d: "distinct (map fst xs)"
  have "List.map_filter (map_of xs) (map fst ys) = map snd ys" if "set ys \<subseteq> set xs" for ys
    using that by (induction ys) (auto simp: d)
  then show ?thesis by simp
qed

lemma fold_reports: "fold (json_report et el) hs R = fold (json_report et el) (filter is_report hs) R"
proof (induction hs arbitrary: R)
  case (Cons h hs)
  then show ?case by (cases h) simp_all
qed simp

text \<open>Two runs of one test share an entry: the report has the last run twice.\<close>

lemma repeated_test_overwritten:
  assumes "ti = test_info_of suite test" "ti_Suite ti = su"
  shows "ju_Tests (last (jr_suites (fold (json_report et el)
      [OnSuiteStart su 1, OnTestStart ti, OnTestEnd ti r1, OnTestStart ti, OnTestEnd ti r2, OnSuiteEnd su 1 1 0] R))) =
    replicate 2 \<lparr>jt_Name = ti_Name ti, jt_Suite = su, jt_Tags = ti_Tags ti, jt_Passed = rt_Passed r2,
      jt_Elapsed = dur_string (el (OnTestEnd ti r2)), jt_Steps = []\<rparr>"
  using assms by (simp add: json_OnSuiteStart_def json_OnTestStart_def json_OnTestEnd_def json_OnSuiteEnd_def Let_def numeral_2_eq_2 List.map_filter_def)

text \<open>C14: the JSON report of a suite. When a suite of plain tests with different names has run, the reporter has one more entry: the
  suite's name, for every test that was not skipped, in order, its name, tags and verdict and the verdict and error of every step
  that was begun, and in the summary the totals of the result.\<close>

theorem json_suite_report:
  assumes "runSuiteSimple e suite s = (Inr sr, s')" "distinct (map tc_Name (filter (\<lambda>t. \<not> tc_Skip t) (su_Tests suite)))"
  shows "jr_suites (fold (json_report et el) (rs_log s') R) = jr_suites (fold (json_report et el) (rs_log s) R) @
    [\<lparr>ju_Name = su_Suite suite,
      ju_Tests = map2 (json_test_of et el suite) (filter (\<lambda>t. \<not> tc_Skip t) (su_Tests suite)) (sur_Results sr),
      ju_Summary = \<lparr>jm_Passed = sur_Passed sr, jm_Failed = sur_Failed sr, jm_Skipped = sur_Skipped sr,
        jm_Elapsed = dur_string (el (OnSuiteEnd (su_Suite suite) (sur_Passed sr) (sur_Failed sr) (sur_Skipped sr)))\<rparr>\<rparr>]"
proof -
  let ?s0 = "on_coverage (register_coverage suite) (start_suite e suite (length (su_Tests suite)) s)"
  let ?tests = "filter (\<lambda>t. \<not> tc_Skip t) (su_Tests suite)"
  obtain s1 sr1 where l: "simple_loop e suite (su_Tests suite) (?s0, new_result suite) = (None, (s1, sr1))"
    and fin: "sr = summarise sr1" "s' = end_suite e suite sr s1"
    using assms(1) by (auto simp: runSuiteSimple_def finish_suite_def Let_def split: prod.splits option.splits)
  obtain rs where rs: "sur_Results sr1 = rs" "length rs = length ?tests"
    "reports s1 = reports ?s0 @ concat (map2 (test_reports suite) ?tests rs)"
    using reports_simple_loop[OF l] by (auto simp: new_result_def)
  have res: "sur_Results sr = rs" using fin(1) rs(1) by (simp add: summarise_eq)
  let ?ended = "OnSuiteEnd (su_Suite suite) (sur_Passed sr) (sur_Failed sr) (sur_Skipped sr)"
  have rep: "reports s' = reports s @ OnSuiteStart (su_Suite suite) (int (length (su_Tests suite)))
      # concat (map2 (test_reports suite) ?tests rs) @ [?ended]"
    using rs(3) by (simp add: fin(2) end_suite_def start_suite_def)
  let ?R0 = "fold (json_report et el) (reports s) R"
  let ?R1 = "json_OnSuiteStart (su_Suite suite) ?R0"
  let ?key = "\<lambda>t. testKey (su_Suite suite) (tc_Name t)"
  let ?ts = "map2 (\<lambda>t r. (?key t, json_test_of et el suite t r)) ?tests rs"
  have "fold (json_report et el) (concat (map2 (test_reports suite) ?tests rs)) ?R1 =
      ?R1\<lparr>jr_tests := jr_tests ?R1 @ ?ts, jr_testOrder := jr_testOrder ?R1 @ map ?key ?tests\<rparr>"
    by (rule json_tests[OF rs(2) assms(2)]) (simp add: json_OnSuiteStart_def)
  then have R2: "fold (json_report et el) (concat (map2 (test_reports suite) ?tests rs)) ?R1 =
      ?R1\<lparr>jr_tests := ?ts, jr_testOrder := map ?key ?tests\<rparr>" by (simp add: json_OnSuiteStart_def)
  have keys: "map fst ?ts = map ?key ?tests" by (rule nth_equalityI) (simp_all add: rs(2))
  have "distinct (map fst ?ts)" unfolding keys using assms(2) by (simp add: distinct_map inj_on_def)
  from map_filter_keys[OF this] have snds: "List.map_filter (map_of ?ts) (map ?key ?tests) = map2 (json_test_of et el suite) ?tests rs"
    unfolding keys by (simp add: comp_def split_beta)
  have "fold (json_report et el) (rs_log s') R = json_report et el ?ended (?R1\<lparr>jr_tests := ?ts, jr_testOrder := map ?key ?tests\<rparr>)"
    unfolding fold_reports[of et el "rs_log s'"] reports_def[symmetric] rep by (simp add: R2)
  moreover have "fold (json_report et el) (rs_log s) R = ?R0"
    unfolding fold_reports[of et el "rs_log s"] reports_def ..
  ultimately show ?thesis by (simp add: json_OnSuiteEnd_def json_OnSuiteStart_def snds res)
qed

theorem json_suite_report_witness:
  "\<exists>sr s'. runSuiteSimple demo_engine demo_suite demo_state = (Inr sr, s')
     \<and> map ju_Name (jr_suites (fold (json_report (\<lambda>_. []) (\<lambda>_. 0)) (rs_log s') NewJSONReporter)) = [su_Suite demo_suite]"
proof -
  obtain sr s' where r: "runSuiteSimple demo_engine demo_suite demo_state = (Inr sr, s')"
    using demo_suite_passes by blast
  have "distinct (map tc_Name (filter (\<lambda>t. \<not> tc_Skip t) (su_Tests demo_suite)))"
    by (simp add: demo_suite_def demo_test_def)
  from json_suite_report[OF r this, of "\<lambda>_. []" "\<lambda>_. 0" NewJSONReporter] r show ?thesis
    by (simp add: NewJSONReporter_def demo_state_def)
qed

end
