(* ===== verification/Selector.thy ===== *)
theory Selector
  imports Go_Strings
begin

text \<open>
  connector/browser/selector: the JavaScript expressions that find elements, and what a page makes of the text in them. Against them
  stands a reader of JavaScript's string literals (ECMA-262, without hexadecimal, Unicode and octal escapes and line
  continuations, on which it gives up). Characters are the bytes of UTF-8.
\<close>

section \<open>The expressions\<close>

abbreviation QQ :: char where "QQ \<equiv> CHR 0x22"
abbreviation BS :: char where "BS \<equiv> CHR 0x5C"
abbreviation SQ :: char where "SQ \<equiv> CHR 0x27"
abbreviation LF :: char where "LF \<equiv> CHR 0x0A"
abbreviation CR :: char where "CR \<equiv> CHR 0x0D"
abbreviation TAB :: char where "TAB \<equiv> CHR 0x09"

definition Quote :: "string \<Rightarrow> string" where
  "Quote s0 =
     (let s1 = replace_all s0 [BS] [BS, BS];
          s2 = replace_all s1 [QQ] [BS, QQ];
          s3 = replace_all s2 [LF] [BS, CHR ''n''];
          s4 = replace_all s3 [CR] [BS, CHR ''r''];
          s5 = replace_all s4 [TAB] [BS, CHR ''t'']
      in [QQ] @ s5 @ [QQ])"

definition CSSQueryOne :: "string \<Rightarrow> string" where
  "CSSQueryOne sel = ''document.querySelector('' @ Quote sel @ '')''"

definition CSSQueryAll :: "string \<Rightarrow> string" where
  "CSSQueryAll sel = ''Array.from(document.querySelectorAll('' @ Quote sel @ ''))''"

definition XPathQueryOne :: "string \<Rightarrow> string" where
  "XPathQueryOne expr =
     ''document.evaluate('' @ Quote expr @ '', document, null, XPathResult.FIRST_ORDERED_NODE_TYPE, null).singleNodeValue''"

definition XPathQueryAll :: "string \<Rightarrow> string" where
  "XPathQueryAll expr =
     ''(function() { var r = document.evaluate('' @ Quote expr @
     '', document, null, XPathResult.ORDERED_NODE_SNAPSHOT_TYPE, null); var a = []; for (var i = 0; i < r.snapshotLength; i++) a.push(r.snapshotItem(i)); return a; })()''"

definition text_walker :: string where
  "text_walker = ''(function() { var tw = document.createTreeWalker(document.body, NodeFilter.SHOW_TEXT, null, false); ''"

definition TextQueryOne :: "string \<Rightarrow> string" where
  "TextQueryOne t =
     text_walker @ ''while (tw.nextNode()) { if (tw.currentNode.textContent.trim() === '' @ Quote t @
     '') return tw.currentNode.parentElement; } return null; })()''"

definition TextQueryAll :: "string \<Rightarrow> string" where
  "TextQueryAll t =
     text_walker @ ''var a = []; while (tw.nextNode()) { if (tw.currentNode.textContent.trim() === '' @ Quote t @
     '') a.push(tw.currentNode.parentElement); } return a; })()''"

definition TextContainsQueryOne :: "string \<Rightarrow> string" where
  "TextContainsQueryOne t =
     text_walker @ ''while (tw.nextNode()) { if (tw.currentNode.textContent.includes('' @ Quote t @
     '')) return tw.currentNode.parentElement; } return null; })()''"

definition role_attr :: "string \<Rightarrow> string" where
  "role_attr role = [SQ] @ ''[role='' @ Quote role @ '']'' @ [SQ]"

definition RoleQueryOne :: "string \<Rightarrow> string" where
  "RoleQueryOne role = ''document.querySelector('' @ role_attr role @ '')''"

definition RoleQueryAll :: "string \<Rightarrow> string" where
  "RoleQueryAll role = ''Array.from(document.querySelectorAll('' @ role_attr role @ ''))''"

definition RoleWithNameQueryOne :: "string \<Rightarrow> string \<Rightarrow> string" where
  "RoleWithNameQueryOne role name =
     ''(function() { var els = document.querySelectorAll('' @ role_attr role @
     ''); for (var i = 0; i < els.length; i++) { var el = els[i]; if (el.getAttribute('' @ [SQ] @ ''aria-label'' @ [SQ] @ '') === '' @ Quote name @
     '' || el.textContent.trim() === '' @ Quote name @ '') return el; } return null; })()''"

definition resolveSelector :: "string \<Rightarrow> string \<Rightarrow> string" where
  "resolveSelector selectorType val =
     (if selectorType = ''xpath'' then XPathQueryOne val
      else if selectorType = ''text'' then TextQueryOne val
      else if selectorType = ''role'' then RoleQueryOne val
      else CSSQueryOne val)"

section \<open>String literals\<close>

definition js_escape :: "char \<Rightarrow> char option" where
  "js_escape e =
     (if e = CHR ''n'' then Some LF else if e = CHR ''r'' then Some CR else if e = CHR ''t'' then Some TAB
      else if e = CHR ''b'' then Some (CHR 0x08) else if e = CHR ''f'' then Some (CHR 0x0C) else if e = CHR ''v'' then Some (CHR 0x0B)
      else if e \<in> {CHR ''x'', CHR ''u'', LF, CR} \<or> is_digit e then None
      else Some e)"

text \<open>The rest of a literal after its opening quote \<open>q\<close>: its value and what follows the closing quote.\<close>

fun js_literal :: "char \<Rightarrow> string \<Rightarrow> (string \<times> string) option" where
  "js_literal q [] = None"
| "js_literal q (c # s) =
     (if c = q then Some ([], s)
      else if c = LF \<or> c = CR then None
      else if c = BS then
        (case s of
           [] \<Rightarrow> None
         | e # s' \<Rightarrow> (case js_escape e of None \<Rightarrow> None | Some v \<Rightarrow> map_option (\<lambda>(t, r). (v # t, r)) (js_literal q s')))
      else map_option (\<lambda>(t, r). (c # t, r)) (js_literal q s))"

section \<open>Quoting\<close>

definition subst_char :: "char \<Rightarrow> string \<Rightarrow> string \<Rightarrow> string" where
  "subst_char c new s = concat (map (\<lambda>x. if x = c then new else [x]) s)"

lemma subst_char_simps [simp]:
  "subst_char c new [] = []"
  "subst_char c new (x # s) = (if x = c then new else [x]) @ subst_char c new s"
  "subst_char c new (s @ t) = subst_char c new s @ subst_char c new t"
  by (simp_all add: subst_char_def)

lemma replace_from_char: "replace_from [c] new s = subst_char c new s"
proof (induction s)
  case (Cons x s)
  then show ?case
    by (cases "index_of [c] s") (simp_all add: replace_from.simps[of "[c]" new s] replace_from.simps[of "[c]" new "x # s"] has_prefix_def)
qed (simp add: replace_from.simps)

lemma replace_all_char: "replace_all s [c] new = subst_char c new s"
  by (simp add: replace_all_def replace_from_char)

definition quote_char :: "char \<Rightarrow> string" where
  "quote_char c =
     (if c = BS then [BS, BS] else if c = QQ then [BS, QQ] else if c = LF then [BS, CHR ''n''] else if c = CR then [BS, CHR ''r'']
      else if c = TAB then [BS, CHR ''t''] else [c])"

lemma Quote_chars: "Quote s = QQ # concat (map quote_char s) @ [QQ]"
proof -
  have "subst_char TAB [BS, CHR ''t''] (subst_char CR [BS, CHR ''r''] (subst_char LF [BS, CHR ''n'']
      (subst_char QQ [BS, QQ] (subst_char BS [BS, BS] s)))) = concat (map quote_char s)"
    by (induction s) (simp_all add: quote_char_def)
  then show ?thesis by (simp add: Quote_def replace_all_char Let_def)
qed

lemma js_escapes [simp]:
  "js_escape BS = Some BS" "js_escape QQ = Some QQ" "js_escape (CHR ''n'') = Some LF" "js_escape (CHR ''r'') = Some CR"
  "js_escape (CHR ''t'') = Some TAB"
  by (simp_all add: js_escape_def is_digit_def)

lemma read_quoted_char:
  assumes "q = QQ \<or> q = SQ \<and> c \<noteq> SQ"
  shows "js_literal q (quote_char c @ rest) = map_option (\<lambda>(t, r). (c # t, r)) (js_literal q rest)"
proof -
  have "q \<noteq> BS" "c = QQ \<or> c \<noteq> q" using assms by auto
  then consider "c \<in> {BS, QQ, LF, CR, TAB}" | "c \<notin> {BS, QQ, LF, CR, TAB}" "c \<noteq> q" by blast
  then show ?thesis
  proof cases
    case 1
    then show ?thesis using \<open>q \<noteq> BS\<close> by (elim insertE emptyE) (simp_all add: quote_char_def)
  qed (simp add: quote_char_def)
qed

lemma read_quoted:
  "q = QQ \<or> q = SQ \<and> SQ \<notin> set s \<Longrightarrow>
   js_literal q (concat (map quote_char s) @ rest) = map_option (\<lambda>(t, r). (s @ t, r)) (js_literal q rest)"
proof (induction s)
  case Nil
  show ?case by (cases "js_literal q rest") auto
next
  case (Cons c s)
  then have "js_literal q (concat (map quote_char s) @ rest) = map_option (\<lambda>(t, r). (s @ t, r)) (js_literal q rest)" by auto
  moreover have "q = QQ \<or> q = SQ \<and> c \<noteq> SQ" using Cons.prems by auto
  ultimately show ?case
    by (cases "js_literal q rest") (simp_all add: read_quoted_char split_beta)
qed

text \<open>A selector stays a text. The expressions for CSS selectors, XPath expressions and texts are, whatever the text, the same code
  around one string literal, and the value of this literal is the text.\<close>

theorem selector_literal:
  assumes "selectorType \<noteq> ''role''"
  shows "\<exists>pre post. \<forall>val. \<exists>lit. resolveSelector selectorType val = pre @ QQ # lit \<and> js_literal QQ lit = Some (val, post)"
proof -
  have "\<exists>pre post. \<forall>val. XPathQueryOne val = pre @ Quote val @ post" "\<exists>pre post. \<forall>val. CSSQueryOne val = pre @ Quote val @ post"
    unfolding XPathQueryOne_def CSSQueryOne_def by (intro exI allI, rule refl)+
  moreover have "\<exists>pre post. \<forall>val. TextQueryOne val = pre @ Quote val @ post"
    unfolding TextQueryOne_def by (intro exI allI, rule append_assoc[symmetric])
  ultimately have "\<exists>pre post. \<forall>val. resolveSelector selectorType val = pre @ Quote val @ post"
    using assms by (cases "selectorType = ''xpath''"; cases "selectorType = ''text''") (simp_all add: resolveSelector_def)
  then obtain pre post where e: "\<forall>val. resolveSelector selectorType val = pre @ Quote val @ post" by blast
  have "js_literal QQ (concat (map quote_char val) @ QQ # post) = Some (val, post)" for val
    by (simp add: read_quoted)
  with e show ?thesis by (intro exI[of _ pre] exI[of _ post]) (auto simp: Quote_chars)
qed

theorem selector_literal_witness:
  "\<exists>pre post. \<forall>val. \<exists>lit. resolveSelector ''css'' val = pre @ QQ # lit \<and> js_literal QQ lit = Some (val, post)"
  by (rule selector_literal) simp

text \<open>The expressions for roles stand in a literal of single quotes, which \<open>Quote\<close> leaves alone: a role with one ends the literal, and
  what follows in it is code. Without one, the selector the page gets has the role unescaped between double quotes.\<close>

lemma role_without_quote:
  assumes "SQ \<notin> set role"
  shows "\<exists>lit. RoleQueryOne role = ''document.querySelector('' @ SQ # lit
    \<and> js_literal SQ lit = Some (''[role='' @ QQ # role @ QQ # '']'', '')'')"
  using read_quoted[of SQ role "QQ # '']'' @ SQ # '')''"] assms
  by (auto simp: RoleQueryOne_def role_attr_def Quote_chars)

lemma role_injection:
  assumes "SQ \<notin> set x" "\<forall>c \<in> set y. quote_char c = [c]"
  shows "\<exists>lit. RoleQueryOne (x @ SQ # y) = ''document.querySelector('' @ SQ # lit
    \<and> js_literal SQ lit = Some (''[role='' @ QQ # x, y @ QQ # '']'' @ SQ # '')'')"
proof -
  have "concat (map quote_char y) = y" using assms(2) by (induction y) auto
  then show ?thesis
    using read_quoted[of SQ x "SQ # y @ QQ # '']'' @ SQ # '')''"] assms(1)
    by (auto simp: RoleQueryOne_def role_attr_def Quote_chars quote_char_def[of SQ])
qed

end
