(* ===== verification/Browser_Install.thy ===== *)
theory Browser_Install
  imports Go_Strings
begin

text \<open>
  connector/browser/install: the builds of the browsers, their names on each platform and where they lie. The platform (runtime.GOOS and
  GOARCH), \<open>filepath.Join\<close> and \<open>os.Stat\<close> are arguments; nothing in the code downloads a browser.
\<close>

record platform =
  pl_OS :: string
  pl_Arch :: string

definition Suffix :: "platform \<Rightarrow> string" where
  "Suffix p =
     (if pl_OS p = ''linux'' then (if pl_Arch p = ''arm64'' then ''linux-arm64'' else ''linux'')
      else if pl_OS p = ''darwin'' then (if pl_Arch p = ''arm64'' then ''mac-arm64'' else ''mac'')
      else if pl_OS p = ''windows'' then (if pl_Arch p = ''arm64'' then ''win64-arm64'' else ''win64'')
      else pl_OS p @ ''-'' @ pl_Arch p)"

definition BinaryName :: "platform \<Rightarrow> string \<Rightarrow> string" where
  "BinaryName p browser =
     (if browser = ''chromium'' then
        (if pl_OS p = ''windows'' then ''chrome.exe''
         else if pl_OS p = ''darwin'' then ''Chromium.app/Contents/MacOS/Chromium'' else ''chrome'')
      else if browser = ''firefox'' then
        (if pl_OS p = ''windows'' then ''firefox.exe''
         else if pl_OS p = ''darwin'' then ''Nightly.app/Contents/MacOS/firefox'' else ''firefox'')
      else if browser = ''webkit'' then
        (if pl_OS p = ''windows'' then ''MiniBrowser.exe''
         else if pl_OS p = ''darwin'' then ''MiniBrowser.app/Contents/MacOS/MiniBrowser'' else ''minibrowser'')
      else browser)"

record revision =
  rv_Browser :: string
  rv_Revision :: string
  rv_BaseURL :: string

definition knownRevisions :: "(string \<times> revision) list" where
  "knownRevisions =
     [(''chromium'', \<lparr>rv_Browser = ''chromium'', rv_Revision = ''1148'', rv_BaseURL = ''https://playwright.azureedge.net/builds/chromium''\<rparr>),
      (''firefox'', \<lparr>rv_Browser = ''firefox'', rv_Revision = ''1467'', rv_BaseURL = ''https://playwright.azureedge.net/builds/firefox''\<rparr>),
      (''webkit'', \<lparr>rv_Browser = ''webkit'', rv_Revision = ''2098'', rv_BaseURL = ''https://playwright.azureedge.net/builds/webkit''\<rparr>)]"

definition LookupRevision :: "string \<Rightarrow> revision option" where
  "LookupRevision browser = map_of knownRevisions browser"

datatype install_err = UnknownBrowser string | StatFailed string

definition DownloadURL :: "string \<Rightarrow> platform \<Rightarrow> install_err + string" where
  "DownloadURL browser p =
     (case LookupRevision browser of
        None \<Rightarrow> Inl (UnknownBrowser browser)
      | Some build \<Rightarrow> Inr (rv_BaseURL build @ ''/'' @ rv_Revision build @ ''/'' @ rv_Browser build @ ''-'' @ Suffix p @ ''.zip''))"

definition SupportedBrowsers :: "string list" where
  "SupportedBrowsers = [''chromium'', ''firefox'', ''webkit'']"

definition DefaultBaseDir :: "(string list \<Rightarrow> string) \<Rightarrow> string option \<Rightarrow> string \<Rightarrow> string" where
  "DefaultBaseDir join userHome tempDir =
     (let home = (case userHome of None \<Rightarrow> tempDir | Some h \<Rightarrow> h) in join [home, ''.scrutineer'', ''browsers''])"

definition BrowserPath :: "(string list \<Rightarrow> string) \<Rightarrow> platform \<Rightarrow> string \<Rightarrow> string \<Rightarrow> install_err + string" where
  "BrowserPath join p baseDir browser =
     (case LookupRevision browser of
        None \<Rightarrow> Inl (UnknownBrowser browser)
      | Some build \<Rightarrow> Inr (join [baseDir, browser @ ''-'' @ rv_Revision build, BinaryName p browser]))"

text \<open>What \<open>os.Stat\<close> says of a path.\<close>

datatype stat_result = Present | NotExist | StatError string

definition IsInstalled ::
    "(string \<Rightarrow> stat_result) \<Rightarrow> (string list \<Rightarrow> string) \<Rightarrow> platform \<Rightarrow> string \<Rightarrow> string \<Rightarrow> install_err + bool" where
  "IsInstalled stat join p baseDir browser =
     rbind (BrowserPath join p baseDir browser) (\<lambda>path.
       case stat path of
         NotExist \<Rightarrow> Inr False
       | Present \<Rightarrow> Inr True
       | StatError err \<Rightarrow> Inl (StatFailed err))"

fun NeedsInstall ::
    "(string \<Rightarrow> stat_result) \<Rightarrow> (string list \<Rightarrow> string) \<Rightarrow> platform \<Rightarrow> string \<Rightarrow> string list \<Rightarrow> install_err + string list" where
  "NeedsInstall stat join p baseDir [] = Inr []"
| "NeedsInstall stat join p baseDir (b # browsers) =
     rbind (IsInstalled stat join p baseDir b) (\<lambda>installed.
     rbind (NeedsInstall stat join p baseDir browsers) (\<lambda>missing.
       Inr (if installed then missing else b # missing)))"

lemma LookupRevision_supported: "(\<exists>build. LookupRevision b = Some build) \<longleftrightarrow> b \<in> set SupportedBrowsers"
  by (simp add: LookupRevision_def knownRevisions_def SupportedBrowsers_def)

text \<open>When every file can be looked up, exactly the supported browsers whose binary does not exist are missing; a name that is not
  supported is an error.\<close>

lemma NeedsInstall_exact:
  assumes "\<And>path err. stat path \<noteq> StatError err"
  shows "NeedsInstall stat join p baseDir browsers =
    (case filter (\<lambda>b. b \<notin> set SupportedBrowsers) browsers of
       b # _ \<Rightarrow> Inl (UnknownBrowser b)
     | [] \<Rightarrow> Inr (filter (\<lambda>b. \<exists>path. BrowserPath join p baseDir b = Inr path \<and> stat path = NotExist) browsers))"
proof (induction browsers)
  case (Cons b browsers)
  show ?case
  proof (cases "LookupRevision b")
    case None
    then have "b \<notin> set SupportedBrowsers" using LookupRevision_supported[of b] by auto
    with None show ?thesis by (simp add: IsInstalled_def BrowserPath_def)
  next
    case (Some build)
    then have "b \<in> set SupportedBrowsers" using LookupRevision_supported[of b] by auto
    moreover obtain path where "BrowserPath join p baseDir b = Inr path" using Some by (simp add: BrowserPath_def)
    ultimately show ?thesis using Cons.IH assms
      by (cases "stat path") (auto simp: IsInstalled_def split: list.splits)
  qed
qed simp

end
