(* ===== verification/Browser.thy ===== *)
theory Browser
  imports Selector Browser_Install Go_Value Go_Encoding
begin

text \<open>
  connector/browser: the connector that drives a browser over the DevTools protocol (browser.go, page.go, element.go, input.go, wait.go,
  lifecycle.go and cdp/session.go). The answers to commands, processes, files and the context are the environment's; a command takes
  some time and then answers (one that never answers is in Cdp\_Client), and the clock is part of the state. The trace
  \<open>bs_done\<close> of what was done to the outside is the model's. Not modelled: the time a step took, and \<open>waitForNavigation\<close>, which
  nothing calls.
\<close>

section \<open>State and environment\<close>

datatype browser_err =
    Failed string
  | Wrapped string browser_err
  | Cdp string
  | Install install_err
  | TypeKey string browser_err
  | BadBase64 string
  | TeardownErrs "browser_err list"

datatype effect =
    Started nat string "string list"
  | Killed nat
  | Reaped nat
  | Dialled nat string
  | ClosedClient nat
  | Command string string "(string \<times> gov) list option"
  | Wrote string string

record 'w bstate =
  bs_world :: 'w
  bs_now :: int
  bs_done :: "effect list"

record 'w browser_env =
  en_send :: "string \<Rightarrow> string \<Rightarrow> (string \<times> gov) list option \<Rightarrow> 'w \<Rightarrow> ((string + (string \<times> gov) list) \<times> nat) \<times> 'w"
  en_dial :: "string \<Rightarrow> 'w \<Rightarrow> (string + nat) \<times> 'w"
  en_close :: "nat \<Rightarrow> 'w \<Rightarrow> string option \<times> 'w"
  en_start :: "string \<Rightarrow> string list \<Rightarrow> 'w \<Rightarrow> (string + nat) \<times> 'w"
  en_stderr :: "nat \<Rightarrow> 'w \<Rightarrow> (string list \<times> bool) \<times> 'w"
  en_signal :: "nat \<Rightarrow> 'w \<Rightarrow> 'w"
  en_wait :: "nat \<Rightarrow> 'w \<Rightarrow> string option \<times> 'w"
  en_write :: "string \<Rightarrow> string \<Rightarrow> 'w \<Rightarrow> string option \<times> 'w"
  en_ctx_err :: "'w \<Rightarrow> string option"
  en_late :: "'w \<Rightarrow> nat"
  en_join :: "string list \<Rightarrow> string"
  en_platform :: platform
  en_baseDir :: string

type_synonym ('a, 'w) act = "'w bstate \<Rightarrow> (browser_err + 'a) \<times> 'w bstate"

definition bret :: "'a \<Rightarrow> ('a, 'w) act" where "bret x s = (Inr x, s)"

definition bfail :: "browser_err \<Rightarrow> ('a, 'w) act" where "bfail e s = (Inl e, s)"

definition bbind :: "('a, 'w) act \<Rightarrow> ('a \<Rightarrow> ('b, 'w) act) \<Rightarrow> ('b, 'w) act" where
  "bbind m f s = (case m s of (Inl e, s') \<Rightarrow> (Inl e, s') | (Inr x, s') \<Rightarrow> f x s')"

definition bwrap :: "(browser_err \<Rightarrow> browser_err) \<Rightarrow> ('a, 'w) act \<Rightarrow> ('a, 'w) act" where
  "bwrap w m s = (case m s of (Inl e, s') \<Rightarrow> (Inl (w e), s') | (Inr x, s') \<Rightarrow> (Inr x, s'))"

definition effect_of :: "effect \<Rightarrow> 'w \<Rightarrow> 'w bstate \<Rightarrow> 'w bstate" where
  "effect_of e w s = s\<lparr>bs_world := w, bs_done := bs_done s @ [e]\<rparr>"

section \<open>Sessions\<close>

definition send :: "'w browser_env \<Rightarrow> string \<Rightarrow> string \<Rightarrow> (string \<times> gov) list option \<Rightarrow> ((string \<times> gov) list, 'w) act" where
  "send env sid meth params s =
     (case en_send env sid meth params (bs_world s) of
        ((r, took), w) \<Rightarrow>
          (case r of Inl e \<Rightarrow> Inl (Cdp e) | Inr m \<Rightarrow> Inr m, (effect_of (Command sid meth params) w s)\<lparr>bs_now := bs_now s + int took\<rparr>))"

record cdp_session =
  se_sessionID :: string
  se_targetID :: string

definition NewSession :: "'w browser_env \<Rightarrow> string \<Rightarrow> (cdp_session, 'w) act" where
  "NewSession env targetID =
     bbind (bwrap (Wrapped (''cdp: attach to target '' @ targetID))
         (send env [] ''Target.attachToTarget'' (Some [(''targetId'', GStr targetID), (''flatten'', GBool True)])))
       (\<lambda>result. case map_of result ''sessionId'' of
          Some (GStr sessionID) \<Rightarrow> bret \<lparr>se_sessionID = sessionID, se_targetID = targetID\<rparr>
        | _ \<Rightarrow> bfail (Failed ''cdp: no sessionId in attach response''))"

definition session_Send :: "'w browser_env \<Rightarrow> cdp_session \<Rightarrow> string \<Rightarrow> (string \<times> gov) list option \<Rightarrow> ((string \<times> gov) list, 'w) act" where
  "session_Send env ss meth params = send env (se_sessionID ss) meth params"

definition session_Close :: "'w browser_env \<Rightarrow> cdp_session \<Rightarrow> (unit, 'w) act" where
  "session_Close env ss =
     bbind (send env [] ''Target.detachFromTarget'' (Some [(''sessionId'', GStr (se_sessionID ss))])) (\<lambda>_. bret ())"

section \<open>Pages\<close>

definition get_str :: "(string \<times> gov) list \<Rightarrow> string \<Rightarrow> string" where
  "get_str m k = (case map_of m k of Some (GStr s) \<Rightarrow> s | _ \<Rightarrow> [])"

definition get_any :: "(string \<times> gov) list \<Rightarrow> string \<Rightarrow> gov" where
  "get_any m k = (case map_of m k of Some v \<Rightarrow> v | None \<Rightarrow> GNil)"

fun toFloat64 :: "gov \<Rightarrow> f64 option" where
  "toFloat64 (GFloat x) = Some x"
| "toFloat64 (GNum KInt i) = Some (f64_of_int i)"
| "toFloat64 (GNum KInt64 i) = Some (f64_of_int i)"
| "toFloat64 _ = None"

definition pageNavigate :: "'w browser_env \<Rightarrow> cdp_session \<Rightarrow> string \<Rightarrow> ((string \<times> gov) list, 'w) act" where
  "pageNavigate env ss url =
     bbind (bwrap (Wrapped ''browser: navigate'') (session_Send env ss ''Page.navigate'' (Some [(''url'', GStr url)])))
       (\<lambda>result. let s = get_str result ''errorText'' in
          if s \<noteq> [] then bfail (Failed (''browser: navigate error: '' @ s))
          else bret [(''url'', GStr url), (''frameId'', get_any result ''frameId'')])"

definition exception_text :: "(string \<times> gov) list \<Rightarrow> string option" where
  "exception_text result =
     (case map_of result ''exceptionDetails'' of
        Some (GMap details) \<Rightarrow> (case map_of details ''text'' of Some (GStr ex) \<Rightarrow> Some ex | _ \<Rightarrow> Some ''unknown error'')
      | _ \<Rightarrow> None)"

definition pageEvaluate :: "'w browser_env \<Rightarrow> cdp_session \<Rightarrow> string \<Rightarrow> bool \<Rightarrow> (gov, 'w) act" where
  "pageEvaluate env ss expr returnByValue =
     bbind (bwrap (Wrapped ''browser: evaluate'')
         (session_Send env ss ''Runtime.evaluate''
           (Some [(''expression'', GStr expr), (''returnByValue'', GBool returnByValue), (''awaitPromise'', GBool True)])))
       (\<lambda>result. case exception_text result of
          Some t \<Rightarrow> bfail (Failed (''browser: evaluate exception: '' @ t))
        | None \<Rightarrow>
            (case map_of result ''result'' of
               Some (GMap remoteObj) \<Rightarrow> bret (if returnByValue then get_any remoteObj ''value'' else GMap remoteObj)
             | _ \<Rightarrow> bret GNil))"

text \<open>The clip of a screenshot of the full page; an error of the metrics is ignored.\<close>

definition clip_of :: "(string \<times> gov) list \<Rightarrow> (string \<times> gov) list" where
  "clip_of metrics =
     (case map_of metrics ''contentSize'' of
        Some (GMap contentSize) \<Rightarrow>
          (let width = (case toFloat64 (get_any contentSize ''width'') of Some x \<Rightarrow> x | None \<Rightarrow> Fin 0);
               height = (case toFloat64 (get_any contentSize ''height'') of Some x \<Rightarrow> x | None \<Rightarrow> Fin 0)
           in if f64_lt (Fin 0) width \<and> f64_lt (Fin 0) height
              then [(''clip'', GMap [(''x'', GInt 0), (''y'', GInt 0), (''width'', GFloat width), (''height'', GFloat height), (''scale'', GInt 1)])]
              else [])
      | _ \<Rightarrow> [])"

definition full_page_clip :: "'w browser_env \<Rightarrow> cdp_session \<Rightarrow> bool \<Rightarrow> ((string \<times> gov) list, 'w) act" where
  "full_page_clip env ss fullPage s =
     (if fullPage then
        (case session_Send env ss ''Page.getLayoutMetrics'' None s of
           (Inl _, s') \<Rightarrow> (Inr [], s')
         | (Inr metrics, s') \<Rightarrow> (Inr (clip_of metrics), s'))
      else (Inr [], s))"

definition pageScreenshot :: "'w browser_env \<Rightarrow> cdp_session \<Rightarrow> string \<Rightarrow> int \<Rightarrow> bool \<Rightarrow> (string, 'w) act" where
  "pageScreenshot env ss format0 quality fullPage =
     (let format = (if format0 = [] then ''png'' else format0);
          params = [(''format'', GStr format)] @ (if format = ''jpeg'' \<and> quality > 0 then [(''quality'', GInt quality)] else [])
      in bbind (full_page_clip env ss fullPage) (\<lambda>clip.
         bbind (bwrap (Wrapped ''browser: screenshot'') (session_Send env ss ''Page.captureScreenshot'' (Some (params @ clip)))) (\<lambda>result.
           case map_of result ''data'' of
             Some (GStr d) \<Rightarrow> bret d
           | _ \<Rightarrow> bfail (Failed ''browser: screenshot: no data in response''))))"

section \<open>Elements\<close>

definition of_selector :: "string \<Rightarrow> string \<Rightarrow> string" where
  "of_selector selectorType val = selectorType @ ''('' @ val @ '')''"

definition findElement :: "'w browser_env \<Rightarrow> cdp_session \<Rightarrow> string \<Rightarrow> string \<Rightarrow> (string, 'w) act" where
  "findElement env ss selectorType val =
     bbind (bwrap (Wrapped ''browser: find element'')
         (session_Send env ss ''Runtime.evaluate''
           (Some [(''expression'', GStr (resolveSelector selectorType val)), (''returnByValue'', GBool False)])))
       (\<lambda>result. case map_of result ''result'' of
          Some (GMap remoteObj) \<Rightarrow>
            if get_str remoteObj ''subtype'' = ''null'' then bfail (Failed (''browser: element not found: '' @ of_selector selectorType val))
            else (case map_of remoteObj ''objectId'' of
                    Some (GStr objectID) \<Rightarrow> bret objectID
                  | _ \<Rightarrow> bfail (Failed ''browser: find element: no objectId''))
        | _ \<Rightarrow> bfail (Failed ''browser: find element: no result''))"

definition getElementText :: "'w browser_env \<Rightarrow> cdp_session \<Rightarrow> string \<Rightarrow> string \<Rightarrow> (string, 'w) act" where
  "getElementText env ss selectorType val =
     bbind (pageEvaluate env ss
         (''(function() { var el = '' @ resolveSelector selectorType val @ ''; return el ? el.innerText : null; })()'') True)
       (\<lambda>v. case v of
          GNil \<Rightarrow> bfail (Failed (''browser: element not found: '' @ of_selector selectorType val))
        | GStr t \<Rightarrow> bret t
        | _ \<Rightarrow> bfail (Failed ''browser: innerText is not a string''))"

definition getElementAttribute :: "'w browser_env \<Rightarrow> cdp_session \<Rightarrow> string \<Rightarrow> string \<Rightarrow> string \<Rightarrow> (string, 'w) act" where
  "getElementAttribute env ss selectorType val attribute =
     bbind (pageEvaluate env ss
         (''(function() { var el = '' @ resolveSelector selectorType val @ ''; return el ? el.getAttribute('' @ Quote attribute
           @ '') : null; })()'') True)
       (\<lambda>v. case v of
          GNil \<Rightarrow> bfail (Failed (''browser: element not found or attribute missing: '' @ of_selector selectorType val @ ''.'' @ attribute))
        | GStr t \<Rightarrow> bret t
        | _ \<Rightarrow> bfail (Failed ''browser: attribute value is not a string''))"

section \<open>Input\<close>

text \<open>The code of the page, line by line; a line of a raw string ends in a line feed and the next begins with tabs.\<close>

definition js_line :: "string \<Rightarrow> string" where
  "js_line l = [LF, TAB, TAB] @ l"

definition mouse_event :: "f64 \<Rightarrow> f64 \<Rightarrow> string \<Rightarrow> (string \<times> gov) list" where
  "mouse_event x y action =
     [(''type'', GStr action), (''x'', GFloat x), (''y'', GFloat y)]
     @ (if action = ''mousePressed'' \<or> action = ''mouseReleased'' then [(''button'', GStr ''left''), (''clickCount'', GInt 1)] else [])"

fun mouse_loop :: "'w browser_env \<Rightarrow> cdp_session \<Rightarrow> f64 \<Rightarrow> f64 \<Rightarrow> string list \<Rightarrow> (unit, 'w) act" where
  "mouse_loop env ss x y [] = bret ()"
| "mouse_loop env ss x y (action # actions) =
     bbind (bwrap (Wrapped (''browser: click '' @ action))
         (session_Send env ss ''Input.dispatchMouseEvent'' (Some (mouse_event x y action))))
       (\<lambda>_. mouse_loop env ss x y actions)"

definition click_code :: "string \<Rightarrow> string" where
  "click_code expr =
     ''(function() {'' @ js_line (''var el = '' @ expr @ '';'') @ js_line (''if (!el) return null;'')
     @ js_line (''var rect = el.getBoundingClientRect();'')
     @ js_line (''return {x: rect.x + rect.width / 2, y: rect.y + rect.height / 2};'') @ [LF, TAB] @ ''})()''"

definition clickElement :: "'w browser_env \<Rightarrow> cdp_session \<Rightarrow> string \<Rightarrow> string \<Rightarrow> (unit, 'w) act" where
  "clickElement env ss selectorType val =
     bbind (bwrap (Wrapped ''browser: click'') (pageEvaluate env ss (click_code (resolveSelector selectorType val)) True))
       (\<lambda>v. case v of
          GNil \<Rightarrow> bfail (Failed (''browser: click: element not found: '' @ of_selector selectorType val))
        | GMap coords \<Rightarrow>
            (case (toFloat64 (get_any coords ''x''), toFloat64 (get_any coords ''y'')) of
               (Some x, Some y) \<Rightarrow> mouse_loop env ss x y [''mouseMoved'', ''mousePressed'', ''mouseReleased'']
             | _ \<Rightarrow> bfail (Failed ''browser: click: invalid coordinate values''))
        | _ \<Rightarrow> bfail (Failed ''browser: click: invalid coordinates''))"

definition focusElement :: "'w browser_env \<Rightarrow> cdp_session \<Rightarrow> string \<Rightarrow> string \<Rightarrow> (unit, 'w) act" where
  "focusElement env ss selectorType val =
     bbind (findElement env ss selectorType val) (\<lambda>objectID.
     bbind (bwrap (Wrapped ''browser: focus'') (session_Send env ss ''DOM.focus'' (Some [(''objectId'', GStr objectID)])))
       (\<lambda>_. bret ()))"

definition key_event :: "string \<Rightarrow> string \<Rightarrow> (string \<times> gov) list" where
  "key_event charStr evType = [(''type'', GStr evType), (''text'', GStr charStr)]"

fun key_loop :: "'w browser_env \<Rightarrow> cdp_session \<Rightarrow> nat list \<Rightarrow> (unit, 'w) act" where
  "key_loop env ss [] = bret ()"
| "key_loop env ss (ch # chs) =
     (let charStr = encode_rune ch in
      bbind (bwrap (TypeKey charStr) (session_Send env ss ''Input.dispatchKeyEvent'' (Some (key_event charStr ''keyDown'')))) (\<lambda>_.
      bbind (bwrap (TypeKey charStr) (session_Send env ss ''Input.dispatchKeyEvent'' (Some (key_event charStr ''keyUp'')))) (\<lambda>_.
      key_loop env ss chs)))"

definition typeText :: "'w browser_env \<Rightarrow> cdp_session \<Rightarrow> string \<Rightarrow> string \<Rightarrow> string \<Rightarrow> (unit, 'w) act" where
  "typeText env ss selectorType val t =
     bbind (focusElement env ss selectorType val) (\<lambda>_. key_loop env ss (runes_of t))"

definition events_code :: string where
  "events_code =
     js_line (''el.dispatchEvent(new Event('' @ [SQ] @ ''input'' @ [SQ] @ '', {bubbles: true}));'')
     @ js_line (''el.dispatchEvent(new Event('' @ [SQ] @ ''change'' @ [SQ] @ '', {bubbles: true}));'')
     @ js_line (''return true;'') @ [LF, TAB] @ ''})()''"

definition fill_code :: "string \<Rightarrow> string \<Rightarrow> string" where
  "fill_code expr val =
     ''(function() {'' @ js_line (''var el = '' @ expr @ '';'') @ js_line (''if (!el) return false;'')
     @ js_line (''el.focus();'') @ js_line (''el.value = '' @ Quote val @ '';'') @ events_code"

definition fillElement :: "'w browser_env \<Rightarrow> cdp_session \<Rightarrow> string \<Rightarrow> string \<Rightarrow> string \<Rightarrow> (unit, 'w) act" where
  "fillElement env ss selectorType sel val =
     bbind (bwrap (Wrapped ''browser: fill'') (pageEvaluate env ss (fill_code (resolveSelector selectorType sel) val) True))
       (\<lambda>v. if v \<noteq> GBool True then bfail (Failed (''browser: fill: element not found: '' @ of_selector selectorType sel)) else bret ())"

definition select_code :: "string \<Rightarrow> string \<Rightarrow> string" where
  "select_code expr val =
     ''(function() {'' @ js_line (''var el = '' @ expr @ '';'')
     @ js_line (''if (!el || el.tagName !== '' @ [SQ] @ ''SELECT'' @ [SQ] @ '') return false;'')
     @ js_line (''el.value = '' @ Quote val @ '';'') @ events_code"

definition selectOption :: "'w browser_env \<Rightarrow> cdp_session \<Rightarrow> string \<Rightarrow> string \<Rightarrow> string \<Rightarrow> (unit, 'w) act" where
  "selectOption env ss selectorType sel val =
     bbind (bwrap (Wrapped ''browser: select'') (pageEvaluate env ss (select_code (resolveSelector selectorType sel) val) True))
       (\<lambda>v. if v \<noteq> GBool True
          then bfail (Failed (''browser: select: element not found or not a select: '' @ of_selector selectorType sel)) else bret ())"

section \<open>Waiting\<close>

definition defaultWaitTimeout :: int where "defaultWaitTimeout = 30 * 1000000000"

definition pollInterval :: int where "pollInterval = 100 * 1000000"

text \<open>\<open>time.Sleep\<close> takes at least as long as it was told.\<close>

definition sleep :: "'w browser_env \<Rightarrow> int \<Rightarrow> 'w bstate \<Rightarrow> 'w bstate" where
  "sleep env d s = s\<lparr>bs_now := bs_now s + d + int (en_late env (bs_world s))\<rparr>"

definition wait_code :: "string \<Rightarrow> string" where
  "wait_code expr = ''(function() { var el = '' @ expr @ ''; return el !== null && el !== undefined; })()''"

lemma send_now: "send env sid meth params s = (r, s') \<Longrightarrow> bs_now s \<le> bs_now s'"
  by (auto simp: send_def effect_of_def split: prod.splits)

lemma pageEvaluate_now: "pageEvaluate env ss expr b s = (r, s') \<Longrightarrow> bs_now s \<le> bs_now s'"
  by (auto simp: pageEvaluate_def bbind_def bwrap_def bret_def bfail_def session_Send_def dest!: send_now
      split: prod.splits sum.splits option.splits gov.splits)

function wait_loop :: "'w browser_env \<Rightarrow> cdp_session \<Rightarrow> string \<Rightarrow> string \<Rightarrow> int \<Rightarrow> (unit, 'w) act" where
  "wait_loop env ss selectorType val deadline s =
     (if bs_now s < deadline then
        (case en_ctx_err env (bs_world s) of
           Some err \<Rightarrow> (Inl (Cdp err), s)
         | None \<Rightarrow>
             (case pageEvaluate env ss (wait_code (resolveSelector selectorType val)) True s of
                (r, s') \<Rightarrow> if r = Inr (GBool True) then (Inr (), s') else wait_loop env ss selectorType val deadline (sleep env pollInterval s')))
      else (Inl (Failed (''browser: timeout waiting for selector: '' @ of_selector selectorType val)), s))"
  by pat_completeness auto
termination
  by (relation "measure (\<lambda>(_, _, _, _, deadline, s). nat (deadline - bs_now s))")
    (auto dest!: pageEvaluate_now[OF sym] simp: sleep_def pollInterval_def)

declare wait_loop.simps [simp del]

definition waitForSelector :: "'w browser_env \<Rightarrow> cdp_session \<Rightarrow> string \<Rightarrow> string \<Rightarrow> int \<Rightarrow> (unit, 'w) act" where
  "waitForSelector env ss selectorType val timeout0 s =
     (let timeout = (if timeout0 = 0 then defaultWaitTimeout else timeout0)
      in wait_loop env ss selectorType val (bs_now s + timeout) s)"

section \<open>Actions\<close>

record browser_step =
  bt_Action :: string
  bt_Parameters :: "(string \<times> gov) list"
  bt_Timeout :: int

definition extractSelector :: "(string \<times> gov) list \<Rightarrow> string \<times> string" where
  "extractSelector params =
     (let selType = get_str params ''selector_type'' in (get_str params ''selector'', if selType = [] then ''css'' else selType))"

definition requires :: "string \<Rightarrow> string \<Rightarrow> browser_err" where
  "requires action param = Failed (''browser: '' @ action @ '' requires '' @ [SQ] @ param @ [SQ] @ '' parameter'')"

text \<open>The data of a step; a nil map is empty.\<close>

definition no_data :: "(unit, 'w) act \<Rightarrow> ((string \<times> gov) list, 'w) act" where
  "no_data m = bbind m (\<lambda>_. bret [])"

definition write_file :: "'w browser_env \<Rightarrow> string \<Rightarrow> string \<Rightarrow> (unit, 'w) act" where
  "write_file env path d s =
     (case en_write env path d (bs_world s) of
        (Some err, w) \<Rightarrow> (Inl (Wrapped ''browser: write screenshot'' (Cdp err)), s\<lparr>bs_world := w\<rparr>)
      | (None, w) \<Rightarrow> (Inr (), effect_of (Wrote path d) w s))"

definition do_screenshot :: "'w browser_env \<Rightarrow> cdp_session \<Rightarrow> (string \<times> gov) list \<Rightarrow> ((string \<times> gov) list, 'w) act" where
  "do_screenshot env ss p =
     (let format = get_str p ''format'';
          quality = (case toFloat64 (get_any p ''quality'') of Some q \<Rightarrow> f64_to_int q | None \<Rightarrow> 0);
          fullPage = (map_of p ''full_page'' = Some (GBool True));
          path = get_str p ''path''
      in bbind (pageScreenshot env ss format quality fullPage) (\<lambda>d.
         if path = [] then bret [(''data'', GStr d)]
         else (case b64_decode d of
                 None \<Rightarrow> bfail (BadBase64 d)
               | Some decoded \<Rightarrow> bbind (write_file env path decoded) (\<lambda>_. bret [(''data'', GStr d), (''path'', GStr path)]))))"

definition dispatch :: "'w browser_env \<Rightarrow> cdp_session \<Rightarrow> browser_step \<Rightarrow> ((string \<times> gov) list, 'w) act" where
  "dispatch env ss step =
     (let p = bt_Parameters step; action = bt_Action step; (sel, selType) = extractSelector p in
      if action = ''navigate'' then
        (let url = get_str p ''url'' in if url = [] then bfail (requires action ''url'') else pageNavigate env ss url)
      else if action = ''click'' then
        (if sel = [] then bfail (requires action ''selector'') else no_data (clickElement env ss selType sel))
      else if action = ''type'' then
        (if sel = [] then bfail (requires action ''selector'') else no_data (typeText env ss selType sel (get_str p ''text'')))
      else if action = ''fill'' then
        (if sel = [] then bfail (requires action ''selector'') else no_data (fillElement env ss selType sel (get_str p ''value'')))
      else if action = ''select'' then
        (if sel = [] then bfail (requires action ''selector'') else no_data (selectOption env ss selType sel (get_str p ''value'')))
      else if action = ''screenshot'' then do_screenshot env ss p
      else if action = ''evaluate'' then
        (let expression = get_str p ''expression'' in
         if expression = [] then bfail (requires action ''expression'')
         else bbind (pageEvaluate env ss expression True) (\<lambda>v. bret [(''value'', v)]))
      else if action = ''wait_for_selector'' then
        (if sel = [] then bfail (requires action ''selector'')
         else no_data (waitForSelector env ss selType sel (if bt_Timeout step = 0 then defaultWaitTimeout else bt_Timeout step)))
      else if action = ''get_text'' then
        (if sel = [] then bfail (requires action ''selector'')
         else bbind (getElementText env ss selType sel) (\<lambda>t. bret [(''text'', GStr t)]))
      else if action = ''get_attribute'' then
        (let attr = get_str p ''attribute'' in
         if sel = [] then bfail (requires action ''selector'')
         else if attr = [] then bfail (requires action ''attribute'')
         else bbind (getElementAttribute env ss selType sel attr) (\<lambda>v. bret [(''value'', GStr v)]))
      else bfail (Failed (''browser: unknown action: '' @ action)))"

section \<open>The process\<close>

definition chromiumArgs :: "bool \<Rightarrow> string list \<Rightarrow> string list" where
  "chromiumArgs headless extraArgs =
     [''--no-first-run'', ''--no-default-browser-check'', ''--disable-background-networking'',
      ''--disable-background-timer-throttling'', ''--disable-backgrounding-occluded-windows'', ''--disable-breakpad'',
      ''--disable-component-extensions-with-background-pages'', ''--disable-component-update'', ''--disable-default-apps'',
      ''--disable-dev-shm-usage'', ''--disable-extensions'', ''--disable-hang-monitor'', ''--disable-ipc-flooding-protection'',
      ''--disable-popup-blocking'', ''--disable-prompt-on-repost'', ''--disable-renderer-backgrounding'', ''--disable-sync'',
      ''--disable-translate'', ''--metrics-recording-only'', ''--no-startup-window'', ''--password-store=basic'',
      ''--use-mock-keychain'', ''--remote-debugging-port=0'']
     @ (if headless then [''--headless=new''] else []) @ extraArgs"

definition firefoxArgs :: "bool \<Rightarrow> string list \<Rightarrow> string list" where
  "firefoxArgs headless extraArgs =
     [''--no-remote'', ''--new-instance'', ''-wait-for-browser'', ''--remote-debugging-port'', ''0'']
     @ (if headless then [''--headless''] else []) @ extraArgs"

definition webkitArgs :: "bool \<Rightarrow> string list \<Rightarrow> string list" where
  "webkitArgs headless extraArgs = [''--inspector-pipe''] @ (if headless then [''--headless''] else []) @ extraArgs"

definition buildArgs :: "string \<Rightarrow> bool \<Rightarrow> string list \<Rightarrow> string list" where
  "buildArgs browserType headless extraArgs =
     (if browserType = ''firefox'' then firefoxArgs headless extraArgs
      else if browserType = ''webkit'' then webkitArgs headless extraArgs
      else chromiumArgs headless extraArgs)"

definition is_blank :: "char \<Rightarrow> bool" where
  "is_blank c \<longleftrightarrow> c = CHR 0x20 \<or> c = TAB \<or> c = CR \<or> c = LF"

text \<open>The lines that come within the time limit, and whether the output ended by then.\<close>

fun extractWSURL :: "string list \<Rightarrow> bool \<Rightarrow> browser_err + string" where
  "extractWSURL [] ended =
     Inl (Failed (if ended then ''browser: no websocket url found in output'' else ''browser: timeout waiting for websocket url''))"
| "extractWSURL (line # ls) ended =
     (case index_of ''ws://'' line of
        Some i \<Rightarrow> Inr (takeWhile (\<lambda>c. \<not> is_blank c) (drop i line))
      | None \<Rightarrow> extractWSURL ls ended)"

text \<open>Ending the process: its context is cancelled and \<open>Process.Kill\<close> is called, the error of which is dropped. Only
  \<open>kill\<close> also waits for it.\<close>

definition signal_process :: "'w browser_env \<Rightarrow> nat \<Rightarrow> 'w bstate \<Rightarrow> 'w bstate" where
  "signal_process env pid s = effect_of (Killed pid) (en_signal env pid (bs_world s)) s"

definition kill_process :: "'w browser_env \<Rightarrow> nat \<Rightarrow> 'w bstate \<Rightarrow> string option \<times> 'w bstate" where
  "kill_process env pid s =
     (let s1 = signal_process env pid s in
      case en_wait env pid (bs_world s1) of (err, w) \<Rightarrow> (err, effect_of (Reaped pid) w s1))"

definition launchBrowser :: "'w browser_env \<Rightarrow> string \<Rightarrow> string \<Rightarrow> bool \<Rightarrow> string list \<Rightarrow> (nat \<times> string, 'w) act" where
  "launchBrowser env browserPath browserType headless extraArgs s =
     (let args = buildArgs browserType headless extraArgs in
      case en_start env browserPath args (bs_world s) of
        (Inl err, w) \<Rightarrow> (Inl (Wrapped (''browser: start '' @ browserPath) (Cdp err)), s\<lparr>bs_world := w\<rparr>)
      | (Inr pid, w) \<Rightarrow>
          (let s1 = effect_of (Started pid browserPath args) w s in
           case en_stderr env pid (bs_world s1) of
             ((ls, ended), w') \<Rightarrow>
               (case extractWSURL ls ended of
                  Inl e \<Rightarrow> (Inl (Wrapped ''browser: extract ws url'' e), signal_process env pid (s1\<lparr>bs_world := w'\<rparr>))
                | Inr url \<Rightarrow> (Inr (pid, url), s1\<lparr>bs_world := w'\<rparr>))))"

section \<open>The connector\<close>

record browser_conn =
  br_browserType :: string
  br_headless :: bool
  br_extraArgs :: "string list"
  br_process :: "nat option"
  br_client :: "nat option"
  br_session :: "cdp_session option"

definition NewBrowser :: browser_conn where
  "NewBrowser = \<lparr>br_browserType = ''chromium'', br_headless = True, br_extraArgs = [], br_process = None, br_client = None, br_session = None\<rparr>"

definition config_browser :: "(string \<times> gov) list \<Rightarrow> browser_conn \<Rightarrow> browser_err + browser_conn" where
  "config_browser config b =
     (case map_of config ''browser'' of
        Some (GStr bt) \<Rightarrow>
          if bt \<in> {''chromium'', ''firefox'', ''webkit''} then Inr (b\<lparr>br_browserType := bt\<rparr>)
          else Inl (Failed (''browser: unsupported browser type: '' @ bt))
      | _ \<Rightarrow> Inr b)"

definition config_headless :: "(string \<times> gov) list \<Rightarrow> browser_conn \<Rightarrow> browser_conn" where
  "config_headless config b = (case map_of config ''headless'' of Some (GBool hl) \<Rightarrow> b\<lparr>br_headless := hl\<rparr> | _ \<Rightarrow> b)"

definition config_args :: "(string \<times> gov) list \<Rightarrow> browser_conn \<Rightarrow> browser_conn" where
  "config_args config b =
     (case map_of config ''args'' of
        Some (GStrs args) \<Rightarrow> b\<lparr>br_extraArgs := args\<rparr>
      | Some (GList args) \<Rightarrow>
          b\<lparr>br_extraArgs := br_extraArgs b @ List.map_filter (\<lambda>a. case a of GStr s \<Rightarrow> Some s | _ \<Rightarrow> None) args\<rparr>
      | _ \<Rightarrow> b)"

definition parseConfig :: "(string \<times> gov) list \<Rightarrow> browser_conn \<Rightarrow> browser_err + browser_conn" where
  "parseConfig config b = rbind (config_browser config b) (\<lambda>b1. Inr (config_args config (config_headless config b1)))"

definition close_client :: "'w browser_env \<Rightarrow> nat \<Rightarrow> 'w bstate \<Rightarrow> string option \<times> 'w bstate" where
  "close_client env c s = (case en_close env c (bs_world s) of (err, w) \<Rightarrow> (err, effect_of (ClosedClient c) w s))"

fun enable_loop :: "'w browser_env \<Rightarrow> cdp_session \<Rightarrow> string list \<Rightarrow> (unit, 'w) act" where
  "enable_loop env ss [] = bret ()"
| "enable_loop env ss (domain # domains) =
     bbind (bwrap (Wrapped (''browser: enable '' @ domain)) (session_Send env ss (domain @ ''.enable'') None)) (\<lambda>_. enable_loop env ss domains)"

definition connectToWSURL :: "'w browser_env \<Rightarrow> string \<Rightarrow> browser_conn \<Rightarrow> 'w bstate \<Rightarrow> browser_err option \<times> browser_conn \<times> 'w bstate" where
  "connectToWSURL env wsURL b0 s =
     (case en_dial env wsURL (bs_world s) of
        (Inl err, w) \<Rightarrow> (Some (Wrapped ''browser: connect'' (Cdp err)), b0, s\<lparr>bs_world := w\<rparr>)
      | (Inr c, w) \<Rightarrow>
          (let b = b0\<lparr>br_client := Some c\<rparr>;
               abort = (\<lambda>e b' s'. (Some e, b'\<lparr>br_client := None\<rparr>, snd (close_client env c s'))) in
           case send env [] ''Target.createTarget'' (Some [(''url'', GStr ''about:blank'')]) (effect_of (Dialled c wsURL) w s) of
             (Inl e, s1) \<Rightarrow> abort (Wrapped ''browser: create target'' e) b s1
           | (Inr result, s1) \<Rightarrow>
               (case map_of result ''targetId'' of
                  Some (GStr targetID) \<Rightarrow>
                    (case NewSession env targetID s1 of
                       (Inl e, s2) \<Rightarrow> abort (Wrapped ''browser: create session'' e) b s2
                     | (Inr ss, s2) \<Rightarrow>
                         (case enable_loop env ss [''Page'', ''Runtime'', ''DOM'', ''Network''] s2 of
                            (Inl e, s3) \<Rightarrow> abort e (b\<lparr>br_session := None\<rparr>) s3
                          | (Inr _, s3) \<Rightarrow> (None, b\<lparr>br_session := Some ss\<rparr>, s3)))
                | _ \<Rightarrow> abort (Failed ''browser: no targetId in response'') b s1)))"

definition browser_Setup ::
    "'w browser_env \<Rightarrow> (string \<times> gov) list \<Rightarrow> browser_conn \<Rightarrow> 'w bstate \<Rightarrow> browser_err option \<times> browser_conn \<times> 'w bstate" where
  "browser_Setup env config b0 s =
     (case parseConfig config b0 of
        Inl e \<Rightarrow> (Some e, b0, s)
      | Inr b \<Rightarrow>
          (case BrowserPath (en_join env) (en_platform env) (en_baseDir env) (br_browserType b) of
             Inl e \<Rightarrow> (Some (Wrapped ''browser: resolve path'' (Install e)), b, s)
           | Inr path \<Rightarrow>
               (let browserPath = (case map_of config ''browser_path'' of Some (GStr p) \<Rightarrow> p | _ \<Rightarrow> path) in
                case launchBrowser env browserPath (br_browserType b) (br_headless b) (br_extraArgs b) s of
                  (Inl e, s1) \<Rightarrow> (Some (Wrapped ''browser: launch'' e), b, s1)
                | (Inr (pid, wsURL), s1) \<Rightarrow>
                    (case connectToWSURL env wsURL (b\<lparr>br_process := Some pid\<rparr>) s1 of
                       (Some e, b', s2) \<Rightarrow> (Some e, b'\<lparr>br_process := None\<rparr>, snd (kill_process env pid s2))
                     | (None, b', s2) \<Rightarrow> (None, b', s2)))))"

definition browser_Execute :: "'w browser_env \<Rightarrow> browser_conn \<Rightarrow> browser_step \<Rightarrow> ((string \<times> gov) list, 'w) act" where
  "browser_Execute env b step =
     (case br_session b of None \<Rightarrow> bfail (Failed ''browser: not connected'') | Some ss \<Rightarrow> dispatch env ss step)"

text \<open>The three parts of \<open>Teardown\<close>, each with the errors so far.\<close>

definition teardown_session ::
    "'w browser_env \<Rightarrow> browser_err list \<times> browser_conn \<times> 'w bstate \<Rightarrow> browser_err list \<times> browser_conn \<times> 'w bstate" where
  "teardown_session env = (\<lambda>(errs, b, s).
     case br_session b of
       None \<Rightarrow> (errs, b, s)
     | Some ss \<Rightarrow> (case session_Close env ss s of
           (r, s') \<Rightarrow> (errs @ (case r of Inl e \<Rightarrow> [e] | Inr _ \<Rightarrow> []), b\<lparr>br_session := None\<rparr>, s')))"

definition teardown_client ::
    "'w browser_env \<Rightarrow> browser_err list \<times> browser_conn \<times> 'w bstate \<Rightarrow> browser_err list \<times> browser_conn \<times> 'w bstate" where
  "teardown_client env = (\<lambda>(errs, b, s).
     case br_client b of
       None \<Rightarrow> (errs, b, s)
     | Some c \<Rightarrow> (case close_client env c s of
           (r, s') \<Rightarrow> (errs @ (case r of Some e \<Rightarrow> [Cdp e] | None \<Rightarrow> []), b\<lparr>br_client := None\<rparr>, s')))"

definition teardown_process ::
    "'w browser_env \<Rightarrow> browser_err list \<times> browser_conn \<times> 'w bstate \<Rightarrow> browser_err list \<times> browser_conn \<times> 'w bstate" where
  "teardown_process env = (\<lambda>(errs, b, s).
     case br_process b of
       None \<Rightarrow> (errs, b, s)
     | Some pid \<Rightarrow> (case kill_process env pid s of
           (r, s') \<Rightarrow> (errs @ (case r of Some e \<Rightarrow> [Cdp e] | None \<Rightarrow> []), b\<lparr>br_process := None\<rparr>, s')))"

definition browser_Teardown :: "'w browser_env \<Rightarrow> browser_conn \<Rightarrow> 'w bstate \<Rightarrow> browser_err option \<times> browser_conn \<times> 'w bstate" where
  "browser_Teardown env b s =
     (case teardown_process env (teardown_client env (teardown_session env ([], b, s))) of
        (errs, b', s') \<Rightarrow> (if errs \<noteq> [] then Some (TeardownErrs errs) else None, b', s'))"

section \<open>What commands leave alone\<close>

fun start_of :: "effect \<Rightarrow> nat option" where "start_of (Started p path args) = Some p" | "start_of _ = None"
fun kill_of :: "effect \<Rightarrow> nat option" where "kill_of (Killed p) = Some p" | "kill_of _ = None"
fun dial_of :: "effect \<Rightarrow> nat option" where "dial_of (Dialled c url) = Some c" | "dial_of _ = None"
fun close_of :: "effect \<Rightarrow> nat option" where "close_of (ClosedClient c) = Some c" | "close_of _ = None"

definition acquired :: "'w bstate \<Rightarrow> nat list \<times> nat list" where
  "acquired s = (List.map_filter start_of (bs_done s), List.map_filter dial_of (bs_done s))"

definition released :: "'w bstate \<Rightarrow> nat list \<times> nat list" where
  "released s = (List.map_filter kill_of (bs_done s), List.map_filter close_of (bs_done s))"

text \<open>An action that neither starts nor ends processes and connections.\<close>

definition quiet :: "('a, 'w) act \<Rightarrow> bool" where
  "quiet m \<longleftrightarrow> (\<forall>s. acquired (snd (m s)) = acquired s \<and> released (snd (m s)) = released s)"

named_theorems quiet_intros \<open>actions that are quiet\<close>

lemma quiet_bret [quiet_intros]: "quiet (bret x)"
  by (simp add: quiet_def bret_def)

lemma quiet_bfail [quiet_intros]: "quiet (bfail e)"
  by (simp add: quiet_def bfail_def)

lemma quiet_bind [quiet_intros]: "quiet m \<Longrightarrow> (\<And>x. quiet (f x)) \<Longrightarrow> quiet (bbind m f)"
  by (auto simp: quiet_def bbind_def split: prod.split sum.split) (metis snd_conv)+

lemma quiet_bwrap [quiet_intros]: "quiet m \<Longrightarrow> quiet (bwrap w m)"
  by (auto simp: quiet_def bwrap_def split: prod.split sum.split) (metis snd_conv)+

lemma map_filter_snoc [simp]: "List.map_filter f (xs @ [x]) = List.map_filter f xs @ (case f x of None \<Rightarrow> [] | Some y \<Rightarrow> [y])"
  by (simp add: List.map_filter_def split: option.split)

lemma quiet_send [quiet_intros]: "quiet (send env sid meth params)"
  by (auto simp: quiet_def send_def effect_of_def acquired_def released_def split: prod.split)

lemma quiet_session_Send [quiet_intros]: "quiet (session_Send env ss meth params)"
  unfolding session_Send_def by (rule quiet_send)

lemma quiet_sleep: "acquired (sleep env d s) = acquired s" "released (sleep env d s) = released s"
  by (simp_all add: sleep_def acquired_def released_def)

lemma quiet_write_file [quiet_intros]: "quiet (write_file env path d)"
  by (auto simp: quiet_def write_file_def effect_of_def acquired_def released_def split: prod.split option.split)

lemma quiet_pages [quiet_intros]:
  "quiet (NewSession env targetID)" "quiet (session_Close env ss)" "quiet (pageNavigate env ss url)"
  "quiet (pageEvaluate env ss expr b)" "quiet (findElement env ss t v)" "quiet (getElementText env ss t v)"
  "quiet (getElementAttribute env ss t v a)"
  unfolding NewSession_def session_Close_def pageNavigate_def pageEvaluate_def findElement_def getElementText_def getElementAttribute_def Let_def
  by (auto intro!: quiet_intros split: option.split gov.split)

lemma quiet_full_page_clip [quiet_intros]: "quiet (full_page_clip env ss fullPage)"
  using quiet_session_Send[of env ss "''Page.getLayoutMetrics''" None]
  by (auto simp: quiet_def full_page_clip_def split: prod.split sum.split) (metis snd_conv)+

lemma quiet_pageScreenshot [quiet_intros]: "quiet (pageScreenshot env ss format quality fullPage)"
  unfolding pageScreenshot_def Let_def by (auto intro!: quiet_intros split: option.split gov.split)

lemma quiet_mouse_loop [quiet_intros]: "quiet (mouse_loop env ss x y actions)"
  by (induction actions) (auto intro!: quiet_intros)

lemma quiet_key_loop [quiet_intros]: "quiet (key_loop env ss chs)"
  by (induction chs) (auto intro!: quiet_intros simp: Let_def)

lemma quiet_enable_loop [quiet_intros]: "quiet (enable_loop env ss domains)"
  by (induction domains) (auto intro!: quiet_intros)

lemma quiet_input [quiet_intros]:
  "quiet (clickElement env ss t v)" "quiet (focusElement env ss t v)" "quiet (typeText env ss t v x)"
  "quiet (fillElement env ss t v x)" "quiet (selectOption env ss t v x)"
  unfolding clickElement_def focusElement_def typeText_def fillElement_def selectOption_def
  by (auto intro!: quiet_intros split: option.split gov.split)

lemma quiet_wait_loop: "acquired (snd (wait_loop env ss t v deadline s)) = acquired s \<and> released (snd (wait_loop env ss t v deadline s)) = released s"
proof (induction env ss t v deadline s rule: wait_loop.induct)
  case (1 env ss t v deadline s)
  obtain r s' where e: "pageEvaluate env ss (wait_code (resolveSelector t v)) True s = (r, s')" by fastforce
  have "acquired s' = acquired s" "released s' = released s"
    using quiet_pages(4)[of env ss "wait_code (resolveSelector t v)" True] e unfolding quiet_def by (metis snd_conv)+
  with 1[OF _ _ e[symmetric]] e show ?case
    by (subst (1 2) wait_loop.simps) (auto simp: quiet_sleep split: option.split)
qed

lemma quiet_wait [quiet_intros]: "quiet (waitForSelector env ss t v timeout)"
  unfolding quiet_def waitForSelector_def Let_def using quiet_wait_loop by blast

lemma quiet_dispatch [quiet_intros]: "quiet (dispatch env ss step)"
  unfolding dispatch_def do_screenshot_def no_data_def Let_def split_beta
  by (auto intro!: quiet_intros split: option.split gov.split)

lemma quiet_Execute [quiet_intros]: "quiet (browser_Execute env b step)"
  unfolding browser_Execute_def by (auto intro!: quiet_intros split: option.split)

lemma quietD: "quiet m \<Longrightarrow> m s = (r, s') \<Longrightarrow> acquired s' = acquired s \<and> released s' = released s"
  unfolding quiet_def by (metis snd_conv)

section \<open>Processes and connections\<close>

lemma effects [simp]:
  "acquired (effect_of e w s) = (fst (acquired s) @ (case start_of e of None \<Rightarrow> [] | Some p \<Rightarrow> [p]), snd (acquired s) @ (case dial_of e of None \<Rightarrow> [] | Some c \<Rightarrow> [c]))"
  "released (effect_of e w s) = (fst (released s) @ (case kill_of e of None \<Rightarrow> [] | Some p \<Rightarrow> [p]), snd (released s) @ (case close_of e of None \<Rightarrow> [] | Some c \<Rightarrow> [c]))"
  "acquired (s\<lparr>bs_world := w\<rparr>) = acquired s" "released (s\<lparr>bs_world := w\<rparr>) = released s"
  by (simp_all add: acquired_def released_def effect_of_def)

lemma acquired_simps [simp]:
  "acquired (s\<lparr>bs_now := n\<rparr>) = acquired s" "acquired \<lparr>bs_world = w, bs_now = n, bs_done = []\<rparr> = ([], [])"
  "released \<lparr>bs_world = w, bs_now = n, bs_done = []\<rparr> = ([], [])"
  by (simp_all add: acquired_def released_def List.map_filter_def)

text \<open>What the connector holds beyond what is closed already.\<close>

definition holds :: "browser_conn \<Rightarrow> 'w bstate \<Rightarrow> bool" where
  "holds b s \<longleftrightarrow> acquired s = (fst (released s) @ (case br_process b of None \<Rightarrow> [] | Some p \<Rightarrow> [p]),
     snd (released s) @ (case br_client b of None \<Rightarrow> [] | Some c \<Rightarrow> [c]))"

definition idle :: "browser_conn \<Rightarrow> bool" where
  "idle b \<longleftrightarrow> br_process b = None \<and> br_client b = None \<and> br_session b = None"

lemma config_keeps [simp]:
  "br_process (config_args config b) = br_process b" "br_client (config_args config b) = br_client b"
  "br_session (config_args config b) = br_session b" "br_process (config_headless config b) = br_process b"
  "br_client (config_headless config b) = br_client b" "br_session (config_headless config b) = br_session b"
  by (simp_all add: config_args_def config_headless_def split: option.split gov.split)

lemma config_browser_keeps:
  "config_browser config b = Inr b' \<Longrightarrow> br_process b' = br_process b \<and> br_client b' = br_client b \<and> br_session b' = br_session b"
  by (cases "map_of config ''browser''") (auto simp: config_browser_def split: gov.splits if_splits)

lemma parseConfig_keeps:
  "parseConfig config b = Inr b' \<Longrightarrow> br_process b' = br_process b \<and> br_client b' = br_client b \<and> br_session b' = br_session b"
  by (auto simp: parseConfig_def rbind_eq_Inr dest!: config_browser_keeps)

lemma launch_holds:
  assumes "launchBrowser env path bt hl args s = (r, s')"
  shows "case r of
      Inr (pid, url) \<Rightarrow> released s' = released s \<and> acquired s' = (fst (acquired s) @ [pid], snd (acquired s))
    | Inl e \<Rightarrow> \<exists>ps. acquired s' = (fst (acquired s) @ ps, snd (acquired s)) \<and> released s' = (fst (released s) @ ps, snd (released s))"
proof (cases "en_start env path (buildArgs bt hl args) (bs_world s)")
  case (Pair q w)
  show ?thesis
  proof (cases q)
    case (Inl err)
    with Pair assms show ?thesis by (auto simp: launchBrowser_def Let_def intro!: exI[of _ "[]"])
  next
    case (Inr pid)
    let ?s1 = "effect_of (Started pid path (buildArgs bt hl args)) w s"
    obtain ls ended w' where e: "en_stderr env pid (bs_world ?s1) = ((ls, ended), w')" by (metis prod.exhaust)
    from Pair Inr e assms show ?thesis
      by (cases "extractWSURL ls ended") (auto simp: launchBrowser_def Let_def signal_process_def)
  qed
qed

text \<open>A browser that does not tell its URL is killed, but nobody waits for it.\<close>

lemma launch_unreaped:
  assumes "en_start env path (buildArgs bt hl args) (bs_world s) = (Inr pid, w)"
    "en_stderr env pid w = ((ls, ended), w')" "extractWSURL ls ended = Inl e"
  shows "bs_done (snd (launchBrowser env path bt hl args s)) =
    bs_done s @ [Started pid path (buildArgs bt hl args), Killed pid]"
  using assms by (simp add: launchBrowser_def Let_def signal_process_def effect_of_def)

lemma close_client_closed:
  "acquired (snd (close_client env c s)) = acquired s" "released (snd (close_client env c s)) = (fst (released s), snd (released s) @ [c])"
  by (simp_all add: close_client_def split: prod.split)

lemma connect_holds:
  assumes "connectToWSURL env url b s = (r, b', s')"
  shows "br_process b' = br_process b
    \<and> (case r of
         None \<Rightarrow> released s' = released s \<and> (\<exists>c. br_client b' = Some c \<and> acquired s' = (fst (acquired s), snd (acquired s) @ [c]))
       | Some e \<Rightarrow> br_client b' \<in> {br_client b, None} \<and> br_session b' \<in> {br_session b, None}
           \<and> (\<exists>cs. acquired s' = (fst (acquired s), snd (acquired s) @ cs) \<and> released s' = (fst (released s), snd (released s) @ cs)))"
proof (cases "en_dial env url (bs_world s)")
  case (Pair q w)
  show ?thesis
  proof (cases q)
    case (Inl err)
    with Pair assms show ?thesis by (auto simp: connectToWSURL_def intro!: exI[of _ "[]"])
  next
    case (Inr c)
    let ?s0 = "effect_of (Dialled c url) w s"
    obtain q1 s1 where s1: "send env [] ''Target.createTarget'' (Some [(''url'', GStr ''about:blank'')]) ?s0 = (q1, s1)" by fastforce
    note k1 = quietD[OF quiet_send s1]
    note d = connectToWSURL_def Let_def close_client_closed
    show ?thesis
    proof (cases "\<exists>result targetID. q1 = Inr result \<and> map_of result ''targetId'' = Some (GStr targetID)")
      case False
      then show ?thesis using assms Pair Inr s1 k1 by (auto simp: d split: sum.splits option.splits gov.splits)
    next
      case True
      then obtain result targetID where t: "q1 = Inr result" "map_of result ''targetId'' = Some (GStr targetID)" by blast
      obtain q2 s2 where s2: "NewSession env targetID s1 = (q2, s2)" by fastforce
      note k2 = quietD[OF quiet_pages(1) s2]
      show ?thesis
      proof (cases q2)
        case (Inl e)
        then show ?thesis using assms Pair Inr s1 k1 t s2 k2 by (auto simp: d)
      next
        case (Inr ss)
        obtain q3 s3 where s3: "enable_loop env ss [''Page'', ''Runtime'', ''DOM'', ''Network''] s2 = (q3, s3)" by fastforce
        note k3 = quietD[OF quiet_enable_loop s3]
        show ?thesis using assms Pair \<open>q = Inr c\<close> s1 k1 t s2 k2 Inr s3 k3 by (cases q3) (auto simp: d)
      qed
    qed
  qed
qed

lemma Setup_holds:
  assumes "browser_Setup env config b s = (r, b', s')" "holds b s" "idle b"
  shows "holds b' s' \<and> (r \<noteq> None \<longrightarrow> idle b')"
proof (cases "parseConfig config b")
  case (Inl e)
  with assms show ?thesis by (auto simp: browser_Setup_def)
next
  case (Inr b1)
  have b1: "br_process b1 = None" "br_client b1 = None" "br_session b1 = None"
    using parseConfig_keeps[OF Inr] assms(3) by (simp_all add: idle_def)
  have h: "acquired s = released s" using assms(2,3) by (simp add: holds_def idle_def)
  show ?thesis
  proof (cases "BrowserPath (en_join env) (en_platform env) (en_baseDir env) (br_browserType b1)")
    case (Inl e)
    with Inr assms(1) h b1 show ?thesis by (auto simp: browser_Setup_def holds_def idle_def)
  next
    case (Inr path)
    define bp where "bp = (case map_of config ''browser_path'' of Some (GStr p) \<Rightarrow> p | _ \<Rightarrow> path)"
    obtain q s1 where l: "launchBrowser env bp (br_browserType b1) (br_headless b1) (br_extraArgs b1) s = (q, s1)" by fastforce
    note k = launch_holds[OF l]
    note eq = assms(1)[unfolded browser_Setup_def \<open>parseConfig config b = Inr b1\<close> sum.case Inr bp_def[symmetric] Let_def l prod.case]
    show ?thesis
    proof (cases q)
      case (Inl e)
      with eq k h b1 show ?thesis by (auto simp: holds_def idle_def)
    next
      case (Inr pu)
      obtain pid url where q: "q = Inr (pid, url)" using Inr by (cases pu) auto
      obtain r2 b2 s2 where c: "connectToWSURL env url (b1\<lparr>br_process := Some pid\<rparr>) s1 = (r2, b2, s2)" by (metis prod.exhaust)
      from connect_holds[OF c] eq[unfolded q sum.case prod.case c] k[unfolded q] h b1 show ?thesis
        by (cases r2) (auto simp: holds_def idle_def kill_process_def signal_process_def Let_def split: prod.splits)
    qed
  qed
qed

lemma Teardown_holds:
  assumes "browser_Teardown env b s = (r, b', s')" "holds b s"
  shows "holds b' s' \<and> idle b'"
proof -
  obtain e1 b1 s1 where 1: "teardown_session env ([], b, s) = (e1, b1, s1)" by (metis prod.exhaust)
  have h1: "holds b1 s1" "br_session b1 = None"
    using 1 assms(2) by (auto simp: teardown_session_def holds_def dest!: quietD[OF quiet_pages(2)] split: option.splits prod.splits)
  obtain e2 b2 s2 where 2: "teardown_client env (e1, b1, s1) = (e2, b2, s2)" by (metis prod.exhaust)
  have h2: "holds b2 s2" "br_session b2 = None" "br_client b2 = None"
    using 2 h1 by (auto simp: teardown_client_def close_client_def holds_def split: option.splits prod.splits)
  obtain e3 b3 s3 where 3: "teardown_process env (e2, b2, s2) = (e3, b3, s3)" by (metis prod.exhaust)
  have "holds b3 s3" "idle b3"
    using 3 h2 by (auto simp: teardown_process_def kill_process_def signal_process_def Let_def holds_def idle_def split: option.splits prod.splits)
  with assms(1) 1 2 3 show ?thesis by (simp add: browser_Teardown_def)
qed

fun execute_all :: "'w browser_env \<Rightarrow> browser_conn \<Rightarrow> browser_step list \<Rightarrow> 'w bstate \<Rightarrow> 'w bstate" where
  "execute_all env b [] s = s"
| "execute_all env b (step # steps) s = execute_all env b steps (snd (browser_Execute env b step s))"

lemma execute_all_quiet: "acquired (execute_all env b steps s) = acquired s \<and> released (execute_all env b steps s) = released s"
  by (induction steps arbitrary: s) (simp_all add: quiet_Execute[unfolded quiet_def])

text \<open>C30: no browser is left behind. Whatever the browser, the network and the page do, when a fresh connector has been set up, has
  executed any steps and has been torn down, every process it started has been killed and every connection it opened has been
  closed, in order, once each, and it holds nothing; and a setup that fails has already done so by itself.\<close>

theorem browser_leaves_nothing:
  assumes "acquired s = released s" "browser_Setup env config NewBrowser s = (r, b1, s1)"
    "browser_Teardown env b1 (execute_all env b1 steps s1) = (e, b2, s2)"
  shows "acquired s2 = released s2 \<and> idle b2 \<and> (r \<noteq> None \<longrightarrow> acquired s1 = released s1 \<and> idle b1)"
proof -
  have n: "holds NewBrowser s" "idle NewBrowser" using assms(1) by (simp_all add: holds_def idle_def NewBrowser_def)
  have h: "holds b1 s1" "r \<noteq> None \<longrightarrow> idle b1" using Setup_holds[OF assms(2) n] by simp_all
  then have "holds b1 (execute_all env b1 steps s1)" by (simp add: holds_def execute_all_quiet)
  from Teardown_holds[OF assms(3) this] h show ?thesis by (auto simp: holds_def idle_def)
qed

definition demo_browser :: "unit browser_env" where
  "demo_browser =
     \<lparr>en_send = (\<lambda>sid meth params w. ((Inr (if meth = ''Target.createTarget'' then [(''targetId'', GStr ''T'')]
          else if meth = ''Target.attachToTarget'' then [(''sessionId'', GStr ''S'')]
          else if meth = ''Runtime.evaluate'' then
            [(''result'', GMap [(''objectId'', GStr ''O''), (''value'', GMap [(''x'', GFloat (Fin 3)), (''y'', GFloat (Fin 4))])])]
          else []), 5), w)),
      en_dial = (\<lambda>_ w. (Inr 3, w)), en_close = (\<lambda>_ w. (None, w)), en_start = (\<lambda>_ _ w. (Inr 7, w)),
      en_stderr = (\<lambda>_ w. (([''starting'', ''at ws://h:1/d now''], False), w)), en_signal = (\<lambda>_ w. w),
      en_wait = (\<lambda>_ w. (Some ''signal: killed'', w)),
      en_write = (\<lambda>_ _ w. (None, w)), en_ctx_err = (\<lambda>_. None), en_late = (\<lambda>_. 0), en_join = concat,
      en_platform = \<lparr>pl_OS = ''linux'', pl_Arch = ''amd64''\<rparr>, en_baseDir = ''/b''\<rparr>"

definition demo_bstate :: "unit bstate" where
  "demo_bstate = \<lparr>bs_world = (), bs_now = 0, bs_done = []\<rparr>"

definition demo_setup :: "browser_err option \<times> browser_conn \<times> unit bstate" where
  "demo_setup = browser_Setup demo_browser [] NewBrowser demo_bstate"

definition demo_steps :: "browser_step list" where
  "demo_steps = [\<lparr>bt_Action = ''click'', bt_Parameters = [(''selector'', GStr ''#go'')], bt_Timeout = 0\<rparr>]"

lemma demo_setup_done: "fst demo_setup = None \<and> acquired (snd (snd demo_setup)) = ([7], [3])"
  by (simp add: demo_setup_def browser_Setup_def parseConfig_def config_browser_def config_args_def config_headless_def NewBrowser_def
      BrowserPath_def LookupRevision_def knownRevisions_def launchBrowser_def demo_browser_def demo_bstate_def connectToWSURL_def
      is_blank_def has_prefix_def NewSession_def session_Send_def send_def bbind_def bwrap_def bret_def Let_def)

theorem browser_leaves_nothing_witness:
  "\<exists>b1 s1 e b2 s2. browser_Setup demo_browser [] NewBrowser demo_bstate = (None, b1, s1) \<and> acquired s1 = ([7], [3])
     \<and> browser_Teardown demo_browser b1 (execute_all demo_browser b1 demo_steps s1) = (e, b2, s2) \<and> acquired s2 = released s2 \<and> idle b2"
proof -
  obtain r b1 s1 where 1: "browser_Setup demo_browser [] NewBrowser demo_bstate = (r, b1, s1)" by (metis prod.exhaust)
  obtain e b2 s2 where 2: "browser_Teardown demo_browser b1 (execute_all demo_browser b1 demo_steps s1) = (e, b2, s2)" by (metis prod.exhaust)
  have "acquired demo_bstate = released demo_bstate" by (simp add: demo_bstate_def acquired_def released_def List.map_filter_def)
  from browser_leaves_nothing[OF this 1 2] 1 2 demo_setup_done show ?thesis by (auto simp: demo_setup_def)
qed

section \<open>What the page is told\<close>

lemma send_done:
  "session_Send env ss meth params s = (r, s') \<Longrightarrow> bs_done s' = bs_done s @ [Command (se_sessionID ss) meth params]"
  by (auto simp: session_Send_def send_def effect_of_def split: prod.splits)

lemma bbind_Inr: "bbind m f s = (Inr y, s'') \<longleftrightarrow> (\<exists>x s'. m s = (Inr x, s') \<and> f x s' = (Inr y, s''))"
  by (auto simp: bbind_def split: prod.splits sum.splits)

lemma bwrap_Inr [simp]: "bwrap w m s = (Inr x, s') \<longleftrightarrow> m s = (Inr x, s')"
  by (auto simp: bwrap_def split: prod.splits sum.splits)

lemma bret_Inr [simp]: "bret x s = (Inr y, s') \<longleftrightarrow> y = x \<and> s' = s"
  by (auto simp: bret_def)

lemma bfail_Inr [simp]: "bfail e s \<noteq> (Inr y, s')"
  by (simp add: bfail_def)

abbreviation key :: "cdp_session \<Rightarrow> nat \<Rightarrow> string \<Rightarrow> effect" where
  "key ss r ev \<equiv> Command (se_sessionID ss) ''Input.dispatchKeyEvent'' (Some (key_event (encode_rune r) ev))"

lemma key_loop_done:
  "key_loop env ss chs s = (Inr u, s') \<Longrightarrow> bs_done s' = bs_done s @ concat (map (\<lambda>r. [key ss r ''keyDown'', key ss r ''keyUp'']) chs)"
  by (induction chs arbitrary: s) (fastforce simp: Let_def bbind_Inr dest!: send_done)+

lemma findElement_done:
  "findElement env ss t v s = (Inr oid, s') \<Longrightarrow> bs_done s' = bs_done s @ [Command (se_sessionID ss) ''Runtime.evaluate''
     (Some [(''expression'', GStr (resolveSelector t v)), (''returnByValue'', GBool False)])]"
proof -
  assume "findElement env ss t v s = (Inr oid, s')"
  then obtain result s1 where r: "session_Send env ss ''Runtime.evaluate''
      (Some [(''expression'', GStr (resolveSelector t v)), (''returnByValue'', GBool False)]) s = (Inr result, s1)"
    "(case map_of result ''result'' of
        Some (GMap remoteObj) \<Rightarrow>
          if get_str remoteObj ''subtype'' = ''null'' then bfail (Failed (''browser: element not found: '' @ of_selector t v))
          else (case map_of remoteObj ''objectId'' of Some (GStr objectID) \<Rightarrow> bret objectID | _ \<Rightarrow> bfail (Failed ''browser: find element: no objectId''))
      | _ \<Rightarrow> bfail (Failed ''browser: find element: no result'')) s1 = (Inr oid, s')"
    unfolding findElement_def bbind_Inr bwrap_Inr by blast
  from r(2) have "s' = s1" by (simp split: option.splits gov.splits if_splits)
  with send_done[OF r(1)] show ?thesis by simp
qed

text \<open>Typing. When the text is typed without an error, the page was asked for the element of the selector, told to focus the object it
  answered with, and got a key-down and a key-up event for every character of the text in order; the characters make up the text.\<close>

theorem typeText_events:
  assumes "typeText env ss selectorType val t s = (Inr u, s')" "t = string_of_runes rs" "\<forall>r \<in> set rs. valid_rune r"
  shows "\<exists>oid. bs_done s' = bs_done s
    @ [Command (se_sessionID ss) ''Runtime.evaluate'' (Some [(''expression'', GStr (resolveSelector selectorType val)), (''returnByValue'', GBool False)]),
       Command (se_sessionID ss) ''DOM.focus'' (Some [(''objectId'', GStr oid)])]
    @ concat (map (\<lambda>r. [key ss r ''keyDown'', key ss r ''keyUp'']) rs)"
proof -
  obtain s1 where f: "focusElement env ss selectorType val s = (Inr (), s1)" and k: "key_loop env ss rs s1 = (Inr u, s')"
    using assms by (auto simp: typeText_def bbind_Inr runes_of_string_of_runes)
  obtain oid s0 where e: "findElement env ss selectorType val s = (Inr oid, s0)"
    "bs_done s1 = bs_done s0 @ [Command (se_sessionID ss) ''DOM.focus'' (Some [(''objectId'', GStr oid)])]"
    using f by (auto simp: focusElement_def bbind_Inr dest!: send_done)
  from key_loop_done[OF k] findElement_done[OF e(1)] e(2) show ?thesis by auto
qed

definition demo_session :: cdp_session where "demo_session = \<lparr>se_sessionID = ''S'', se_targetID = ''T''\<rparr>"

theorem typeText_events_witness:
  "\<exists>s' oid. typeText demo_browser demo_session ''css'' ''#a'' ''ab'' demo_bstate = (Inr (), s')
     \<and> bs_done s' = [Command ''S'' ''Runtime.evaluate'' (Some [(''expression'', GStr (CSSQueryOne ''#a'')), (''returnByValue'', GBool False)]),
         Command ''S'' ''DOM.focus'' (Some [(''objectId'', GStr oid)]),
         key demo_session 97 ''keyDown'', key demo_session 97 ''keyUp'', key demo_session 98 ''keyDown'', key demo_session 98 ''keyUp'']"
proof -
  have "fst (typeText demo_browser demo_session ''css'' ''#a'' ''ab'' demo_bstate) = Inr ()"
    by (simp add: typeText_def focusElement_def findElement_def session_Send_def send_def bbind_def bwrap_def bret_def Let_def
        demo_browser_def get_str_def runes_of.simps decode_rune_ascii is_ascii_def)
  then obtain s' where t: "typeText demo_browser demo_session ''css'' ''#a'' ''ab'' demo_bstate = (Inr (), s')" by (metis prod.collapse)
  have r: "''ab'' = string_of_runes [97, 98]" "\<forall>r \<in> set [97, 98]. valid_rune r"
    by (simp_all add: string_of_runes_def encode_rune_def valid_rune_def) code_simp
  from typeText_events[OF t r] t show ?thesis by (simp add: demo_session_def demo_bstate_def resolveSelector_def)
qed

text \<open>A click moves the mouse to one point, and presses and releases its left button there.\<close>

lemma clickElement_events:
  assumes "clickElement env ss selectorType val s = (Inr u, s')"
  shows "\<exists>x y. bs_done s' = bs_done s
    @ [Command (se_sessionID ss) ''Runtime.evaluate'' (Some [(''expression'', GStr (click_code (resolveSelector selectorType val))),
         (''returnByValue'', GBool True), (''awaitPromise'', GBool True)])]
    @ map (\<lambda>a. Command (se_sessionID ss) ''Input.dispatchMouseEvent'' (Some (mouse_event x y a))) [''mouseMoved'', ''mousePressed'', ''mouseReleased'']"
  using assms
  by (auto simp: clickElement_def pageEvaluate_def bbind_Inr dest!: send_done split: option.splits gov.splits if_splits) blast+

lemma pageEvaluate_done: "pageEvaluate env ss expr b s = (r, s') \<Longrightarrow> length (bs_done s') = Suc (length (bs_done s))"
  by (auto simp: pageEvaluate_def bbind_def bwrap_def bret_def bfail_def dest!: send_done split: prod.splits sum.splits option.splits gov.splits)

lemma wait_loop_polls:
  "wait_loop env ss t v deadline s = (r, s') \<Longrightarrow>
   int (length (bs_done s')) \<le> int (length (bs_done s)) + max 0 ((deadline - bs_now s + pollInterval - 1) div pollInterval)
   \<and> (\<forall>e. r = Inl (Failed e) \<longrightarrow> deadline \<le> bs_now s')"
proof (induction env ss t v deadline s rule: wait_loop.induct)
  case (1 env ss t v deadline s)
  show ?case
  proof (cases "bs_now s < deadline \<and> en_ctx_err env (bs_world s) = None")
    case False
    with 1(2) show ?thesis by (subst (asm) wait_loop.simps) (auto split: if_splits option.splits)
  next
    case True
    obtain q s1 where e: "pageEvaluate env ss (wait_code (resolveSelector t v)) True s = (q, s1)" by fastforce
    note l = pageEvaluate_done[OF e] and n = pageEvaluate_now[OF e]
    have one: "1 \<le> (deadline - bs_now s + pollInterval - 1) div pollInterval"
      using True zdiv_mono1[of pollInterval "deadline - bs_now s + pollInterval - 1" pollInterval] by (simp add: pollInterval_def)
    show ?thesis
    proof (cases "q = Inr (GBool True)")
      case True
      with 1(2) e \<open>bs_now s < deadline \<and> _\<close> l one show ?thesis by (subst (asm) wait_loop.simps) auto
    next
      case False
      let ?s2 = "sleep env pollInterval s1"
      have w: "wait_loop env ss t v deadline ?s2 = (r, s')"
        using 1(2) e True False by (subst (asm) wait_loop.simps) auto
      have "bs_now s + pollInterval \<le> bs_now ?s2" "bs_done ?s2 = bs_done s1" using n by (simp_all add: sleep_def)
      then have "(deadline - bs_now ?s2 + pollInterval - 1) div pollInterval \<le> (deadline - bs_now s + pollInterval - 1) div pollInterval - 1"
        by (simp add: pollInterval_def)
      with 1(1)[OF _ _ e[symmetric] False w] True l one \<open>bs_done ?s2 = bs_done s1\<close> show ?thesis by auto
    qed
  qed
qed

text \<open>C34: waiting for an element ends. With commands that answer, a wait looks for the element at most once for every started tenth of a
  second of its time limit, 30 seconds if none is given, and it gives up only when the limit has passed.\<close>

theorem waitForSelector_bounded:
  assumes "waitForSelector env ss selectorType val timeout s = (r, s')" "0 \<le> timeout"
  shows "int (length (bs_done s')) \<le> int (length (bs_done s)) + (if timeout = 0 then 300 else (timeout + pollInterval - 1) div pollInterval)
    \<and> (\<forall>e. r = Inl (Failed e) \<longrightarrow> bs_now s + (if timeout = 0 then 30000000000 else timeout) \<le> bs_now s')"
  using assms wait_loop_polls[of env ss selectorType val "bs_now s + (if timeout = 0 then defaultWaitTimeout else timeout)" s r s']
  by (auto simp: waitForSelector_def Let_def defaultWaitTimeout_def pollInterval_def split: if_splits)

theorem waitForSelector_bounded_witness:
  "\<exists>r s'. waitForSelector demo_browser demo_session ''css'' ''#a'' 250000000 demo_bstate = (r, s') \<and> length (bs_done s') \<le> 3"
proof -
  obtain r s' where w: "waitForSelector demo_browser demo_session ''css'' ''#a'' 250000000 demo_bstate = (r, s')" by fastforce
  from waitForSelector_bounded[OF w] w show ?thesis by (auto simp: demo_bstate_def pollInterval_def)
qed

end
