(* ===== verification/Cli_Connector.thy ===== *)
theory Cli_Connector
  imports Runner Assertion_Laws
begin

text \<open>
  connector/cli: the connector that runs local commands and looks at files, from the splitting of the command to the verdict of a step.
  Processes, files and the context of a command are the environment's; \<open>os_ctx_err\<close> is the error of the context, after the
  time limit of the command if it has one. Elapsed times and the metadata of results are left out, and the texts of errors are an
  argument where the runner needs them.
\<close>

section \<open>Parameters\<close>

datatype cli_err =
    ParamType string string
  | ParamRequired string string
  | UnterminatedQuote string
  | EmptyCommand
  | PipeFailed string
  | StartFailed string
  | StdinFailed string
  | StdinNotClosed string
  | Cancelled string
  | CommandFailed string
  | ConfigType string string
  | EnvType string string
  | SizeType string string
  | UnknownAction string

definition paramString :: "(string \<times> gov) list \<Rightarrow> string \<Rightarrow> cli_err + string option" where
  "paramString params key =
     (case map_of params key of
        None \<Rightarrow> Inr None
      | Some (GStr s) \<Rightarrow> Inr (Some s)
      | Some v \<Rightarrow> Inl (ParamType key (type_name v)))"

definition paramBool :: "(string \<times> gov) list \<Rightarrow> string \<Rightarrow> cli_err + bool option" where
  "paramBool params key =
     (case map_of params key of
        None \<Rightarrow> Inr None
      | Some (GBool b) \<Rightarrow> Inr (Some b)
      | Some v \<Rightarrow> Inl (ParamType key (type_name v)))"

definition paramMap :: "(string \<times> gov) list \<Rightarrow> string \<Rightarrow> cli_err + (string \<times> gov) list option" where
  "paramMap params key =
     (case map_of params key of
        None \<Rightarrow> Inr None
      | Some (GMap m) \<Rightarrow> Inr (Some m)
      | Some v \<Rightarrow> Inl (ParamType key (type_name v)))"

section \<open>Splitting a command\<close>

abbreviation dquote :: char where "dquote \<equiv> CHR 0x22"
abbreviation squote :: char where "squote \<equiv> CHR 0x27"
abbreviation backslash :: char where "backslash \<equiv> CHR 0x5C"

definition blank :: "char \<Rightarrow> bool" where
  "blank c \<longleftrightarrow> c = CHR 0x20 \<or> c = CHR 0x09"

text \<open>The loop over the bytes: the arguments so far, the current one, and whether it is inside single or double quotes.\<close>

fun shell_loop :: "string \<Rightarrow> string list \<Rightarrow> string \<Rightarrow> bool \<Rightarrow> bool \<Rightarrow> string list \<times> string \<times> bool \<times> bool" where
  "shell_loop [] args current inSingle inDouble = (args, current, inSingle, inDouble)"
| "shell_loop (ch # cs) args current inSingle inDouble =
     (if ch = backslash \<and> inDouble \<and> cs \<noteq> [] then
        (case cs of e # cs' \<Rightarrow> shell_loop cs' args (current @ [e]) inSingle inDouble)
      else if ch = squote \<and> \<not> inDouble then shell_loop cs args current (\<not> inSingle) inDouble
      else if ch = dquote \<and> \<not> inSingle then shell_loop cs args current inSingle (\<not> inDouble)
      else if blank ch \<and> \<not> inSingle \<and> \<not> inDouble then
        (if current \<noteq> [] then shell_loop cs (args @ [current]) [] inSingle inDouble else shell_loop cs args current inSingle inDouble)
      else shell_loop cs args (current @ [ch]) inSingle inDouble)"

definition parseShellArgs :: "string \<Rightarrow> cli_err + string list" where
  "parseShellArgs command =
     (case shell_loop command [] [] False False of
        (args, current, inSingle, inDouble) \<Rightarrow>
          if inSingle \<or> inDouble then Inl (UnterminatedQuote command)
          else Inr (if current \<noteq> [] then args @ [current] else args))"

definition buildCommand :: "string \<Rightarrow> string \<Rightarrow> cli_err + string list" where
  "buildCommand goos cmdStr =
     (if goos = ''windows'' then Inr [''cmd.exe'', ''/C'', cmdStr]
      else rbind (parseShellArgs cmdStr) (\<lambda>args. if args = [] then Inl EmptyCommand else Inr args))"

section \<open>The connector\<close>

record cli_conn =
  ci_workDir :: string
  ci_env :: "string list"

definition NewCli :: cli_conn where
  "NewCli = \<lparr>ci_workDir = [], ci_env = []\<rparr>"

fun env_loop :: "(string \<times> gov) list \<Rightarrow> cli_conn \<Rightarrow> cli_err option \<times> cli_conn" where
  "env_loop [] c = (None, c)"
| "env_loop ((k, v) # m) c =
     (case v of
        GStr s \<Rightarrow> env_loop m (c\<lparr>ci_env := ci_env c @ [k @ ''='' @ s]\<rparr>)
      | _ \<Rightarrow> (Some (EnvType k (type_name v)), c))"

definition setup_env :: "(string \<times> gov) list \<Rightarrow> cli_conn \<Rightarrow> cli_err option \<times> cli_conn" where
  "setup_env config c =
     (case map_of config ''env'' of
        None \<Rightarrow> (None, c)
      | Some (GStrMap m) \<Rightarrow> (None, c\<lparr>ci_env := ci_env c @ map (\<lambda>(k, v). k @ ''='' @ v) m\<rparr>)
      | Some (GMap m) \<Rightarrow> env_loop m c
      | Some v \<Rightarrow> (Some (ConfigType ''env'' (type_name v)), c))"

definition cli_Setup :: "(string \<times> gov) list \<Rightarrow> cli_conn \<Rightarrow> cli_err option \<times> cli_conn" where
  "cli_Setup config c =
     (case map_of config ''work_dir'' of
        None \<Rightarrow> setup_env config c
      | Some (GStr s) \<Rightarrow> setup_env config (c\<lparr>ci_workDir := s\<rparr>)
      | Some v \<Rightarrow> (Some (ConfigType ''work_dir'' (type_name v)), c))"

text \<open>A process: its arguments, directory, additional environment, the time limit of its context, and what ended it.\<close>

record process =
  pc_Args :: "string list"
  pc_Dir :: string
  pc_Env :: "string list"
  pc_Timeout :: "int option"

datatype wait_outcome = ExitZero | ExitError int | WaitError string

record 'o cli_os =
  os_goos :: string
  os_pipe :: "process \<Rightarrow> 'o \<Rightarrow> string option \<times> 'o"
  os_start :: "process \<Rightarrow> 'o \<Rightarrow> string option \<times> 'o"
  os_write :: "string \<Rightarrow> 'o \<Rightarrow> string option \<times> 'o"
  os_close :: "'o \<Rightarrow> string option \<times> 'o"
  os_wait :: "process \<Rightarrow> 'o \<Rightarrow> (wait_outcome \<times> string \<times> string) \<times> 'o"
  os_ctx_err :: "process \<Rightarrow> 'o \<Rightarrow> string option"
  os_stat :: "string \<Rightarrow> 'o \<Rightarrow> (int \<times> bool) option"
  os_readFile :: "string \<Rightarrow> 'o \<Rightarrow> string option"
  os_quote :: "string \<Rightarrow> string"

definition writeStdin :: "'o cli_os \<Rightarrow> process \<Rightarrow> string \<Rightarrow> 'o \<Rightarrow> (cli_err + bool) \<times> 'o" where
  "writeStdin os p stdinData w =
     (if stdinData = [] then (Inr False, w)
      else (case os_pipe os p w of (Some e, w') \<Rightarrow> (Inl (PipeFailed e), w') | (None, w') \<Rightarrow> (Inr True, w')))"

definition feedStdin :: "'o cli_os \<Rightarrow> bool \<Rightarrow> string \<Rightarrow> 'o \<Rightarrow> cli_err option \<times> 'o" where
  "feedStdin os pipe d w =
     (if \<not> pipe then (None, w)
      else (case os_write os d w of
              (Some e, w') \<Rightarrow> (Some (StdinFailed e), snd (os_close os w'))
            | (None, w') \<Rightarrow> (case os_close os w' of (r, w'') \<Rightarrow> (map_option StdinNotClosed r, w''))))"

text \<open>From \<open>cmd.Start\<close> to the result.\<close>

definition run_process :: "'o cli_os \<Rightarrow> process \<Rightarrow> bool \<Rightarrow> string \<Rightarrow> string \<Rightarrow> 'o \<Rightarrow> (cli_err + (string \<times> gov) list) \<times> 'o" where
  "run_process os p pipe stdinData cmdStr w =
     (case os_start os p w of
        (Some e, w1) \<Rightarrow> (Inl (StartFailed e), w1)
      | (None, w1) \<Rightarrow>
          (case feedStdin os pipe stdinData w1 of
             (Some e, w2) \<Rightarrow> (Inl e, w2)
           | (None, w2) \<Rightarrow>
               (case os_wait os p w2 of
                  ((outcome, stdout, stderr), w3) \<Rightarrow>
                    (let result = (\<lambda>code. Inr [(''stdout'', GStr stdout), (''stderr'', GStr stderr), (''exit_code'', GInt code),
                                               (''command'', GStr cmdStr)]) in
                     (if outcome = ExitZero then result 0
                      else (case os_ctx_err os p w3 of
                              Some e \<Rightarrow> Inl (Cancelled e)
                            | None \<Rightarrow> (case outcome of ExitError code \<Rightarrow> result code | WaitError e \<Rightarrow> Inl (CommandFailed e) | ExitZero \<Rightarrow> result 0)),
                      w3)))))"

definition the_process :: "cli_conn \<Rightarrow> conn_step \<Rightarrow> string list \<Rightarrow> process" where
  "the_process c step args =
     \<lparr>pc_Args = args, pc_Dir = ci_workDir c, pc_Env = ci_env c,
      pc_Timeout = (if cs_Timeout step > 0 then Some (cs_Timeout step) else None)\<rparr>"

definition executeExec :: "'o cli_os \<Rightarrow> cli_conn \<Rightarrow> conn_step \<Rightarrow> 'o \<Rightarrow> (cli_err + (string \<times> gov) list) \<times> 'o" where
  "executeExec os c step w =
     (case paramString (cs_Parameters step) ''command'' of
        Inl e \<Rightarrow> (Inl e, w)
      | Inr cmd \<Rightarrow>
          if cmd = None \<or> cmd = Some [] then (Inl (ParamRequired ''exec'' ''command''), w)
          else (case paramString (cs_Parameters step) ''stdin'' of
                  Inl e \<Rightarrow> (Inl e, w)
                | Inr stdin \<Rightarrow>
                    (let cmdStr = the cmd; stdinData = (case stdin of None \<Rightarrow> [] | Some s \<Rightarrow> s) in
                     case buildCommand (os_goos os) cmdStr of
                       Inl e \<Rightarrow> (Inl e, w)
                     | Inr args \<Rightarrow>
                         (let p = the_process c step args in
                          case writeStdin os p stdinData w of
                            (Inl e, w1) \<Rightarrow> (Inl e, w1)
                          | (Inr pipe, w1) \<Rightarrow> run_process os p pipe stdinData cmdStr w1))))"

section \<open>Files\<close>

definition cli_toInt64 :: "gov \<Rightarrow> cli_err + int" where
  "cli_toInt64 v =
     (case v of
        GNum k i \<Rightarrow> if k = KInt \<or> k = KInt64 then Inr i else Inl (SizeType [] (type_name v))
      | GFloat x \<Rightarrow> Inr (f64_to_int x)
      | GFloat32 x \<Rightarrow> Inr (f64_to_int x)
      | _ \<Rightarrow> Inl (SizeType [] (type_name v)))"

definition size_bound :: "(string \<times> gov) list \<Rightarrow> string \<Rightarrow> string \<Rightarrow> (int \<Rightarrow> bool) \<Rightarrow> cli_err + (string \<times> gov) list" where
  "size_bound sizeMap key out holds =
     (case map_of sizeMap key of
        None \<Rightarrow> Inr []
      | Some v \<Rightarrow>
          (case cli_toInt64 v of
             Inl _ \<Rightarrow> Inl (SizeType key (type_name v))
           | Inr n \<Rightarrow> Inr [(out, GBool (holds n))]))"

text \<open>The data of the content and of the size of a file that exists.\<close>

definition content_data :: "'o cli_os \<Rightarrow> (string \<times> gov) list \<Rightarrow> string \<Rightarrow> bool \<Rightarrow> 'o \<Rightarrow> cli_err + (string \<times> gov) list" where
  "content_data os params path isDir w =
     (if isDir then Inr []
      else rbind (paramString params ''contains'') (\<lambda>containsStr.
        Inr (case os_readFile os path w of
               None \<Rightarrow> []
             | Some content \<Rightarrow>
                 (''content'', GStr content)
                 # (case containsStr of None \<Rightarrow> [] | Some t \<Rightarrow> [(''contains'', GBool (contains content t))]))))"

definition size_data :: "(string \<times> gov) list \<Rightarrow> int \<Rightarrow> cli_err + (string \<times> gov) list" where
  "size_data params fileSize =
     rbind (paramMap params ''size'') (\<lambda>sizeMap.
       case sizeMap of
         None \<Rightarrow> Inr []
       | Some m \<Rightarrow>
           rbind (size_bound m ''greater_than'' ''size_greater_than'' (\<lambda>n. fileSize > n)) (\<lambda>gt.
           rbind (size_bound m ''less_than'' ''size_less_than'' (\<lambda>n. fileSize < n)) (\<lambda>lt. Inr (gt @ lt))))"

definition found_data :: "'o cli_os \<Rightarrow> conn_step \<Rightarrow> string \<Rightarrow> (int \<times> bool) option \<Rightarrow> 'o \<Rightarrow> cli_err + (string \<times> gov) list" where
  "found_data os step path info w =
     (case info of
        None \<Rightarrow> Inr [(''exists'', GBool False)]
      | Some (fileSize, isDir) \<Rightarrow>
          rbind (content_data os (cs_Parameters step) path isDir w) (\<lambda>content.
          rbind (size_data (cs_Parameters step) fileSize) (\<lambda>bounds.
            Inr ([(''exists'', GBool True), (''size'', GNum KInt64 fileSize), (''is_dir'', GBool isDir)] @ content @ bounds))))"

definition executeFilesystem :: "'o cli_os \<Rightarrow> conn_step \<Rightarrow> 'o \<Rightarrow> cli_err + (string \<times> gov) list" where
  "executeFilesystem os step w =
     rbind (paramString (cs_Parameters step) ''path'') (\<lambda>path0.
       if path0 = None \<or> path0 = Some [] then Inl (ParamRequired ''filesystem'' ''path'')
       else (let path = the path0; info = os_stat os path w; found = (info \<noteq> None) in
         rbind (paramBool (cs_Parameters step) ''exists'') (\<lambda>expected.
           case expected of
             Some ex \<Rightarrow>
               if ex \<noteq> found then
                 Inr [(''exists'', GBool found),
                      (''error'', GStr (if ex then ''expected path '' @ os_quote os path @ '' to exist, but it does not''
                                        else ''expected path '' @ os_quote os path @ '' to not exist, but it does''))]
               else found_data os step path info w
           | None \<Rightarrow> found_data os step path info w)))"

definition cli_Execute :: "'o cli_os \<Rightarrow> cli_conn \<Rightarrow> conn_step \<Rightarrow> 'o \<Rightarrow> (cli_err + (string \<times> gov) list) \<times> 'o" where
  "cli_Execute os c step w =
     (if cs_Action step = ''exec'' then executeExec os c step w
      else if cs_Action step = ''filesystem'' then (executeFilesystem os step w, w)
      else (Inl (UnknownAction (cs_Action step)), w))"

section \<open>Commands as they are written\<close>

text \<open>A word is written as pieces: bare characters, text in single quotes, and text in double quotes, where a backslash makes the next
  character stand for itself.\<close>

datatype piece = Bare string | InSingle string | InDouble string

fun piece_ok :: "piece \<Rightarrow> bool" where
  "piece_ok (Bare s) \<longleftrightarrow> (\<forall>c \<in> set s. c \<noteq> squote \<and> c \<noteq> dquote \<and> \<not> blank c)"
| "piece_ok (InSingle s) \<longleftrightarrow> squote \<notin> set s"
| "piece_ok (InDouble s) \<longleftrightarrow> True"

fun spell_piece :: "piece \<Rightarrow> string" where
  "spell_piece (Bare s) = s"
| "spell_piece (InSingle s) = squote # s @ [squote]"
| "spell_piece (InDouble s) = dquote # concat (map (\<lambda>c. if c = dquote \<or> c = backslash then [backslash, c] else [c]) s) @ [dquote]"

fun piece_text :: "piece \<Rightarrow> string" where
  "piece_text (Bare s) = s" | "piece_text (InSingle s) = s" | "piece_text (InDouble s) = s"

definition spell_word :: "piece list \<Rightarrow> string" where
  "spell_word ps = concat (map spell_piece ps)"

definition word_text :: "piece list \<Rightarrow> string" where
  "word_text ps = concat (map piece_text ps)"

lemma shell_bare:
  "(\<forall>c \<in> set s. c \<noteq> squote \<and> c \<noteq> dquote \<and> \<not> blank c) \<Longrightarrow>
   shell_loop (s @ rest) args cur False False = shell_loop rest args (cur @ s) False False"
  by (induction s arbitrary: cur) auto

lemma shell_single: "squote \<notin> set s \<Longrightarrow> shell_loop (s @ squote # rest) args cur True False = shell_loop rest args (cur @ s) False False"
  by (induction s arbitrary: cur) auto

lemma shell_double:
  "shell_loop (concat (map (\<lambda>c. if c = dquote \<or> c = backslash then [backslash, c] else [c]) s) @ dquote # rest) args cur False True
   = shell_loop rest args (cur @ s) False False"
  by (induction s arbitrary: cur) auto

lemma shell_piece: "piece_ok p \<Longrightarrow> shell_loop (spell_piece p @ rest) args cur False False = shell_loop rest args (cur @ piece_text p) False False"
  by (cases p) (simp_all add: shell_bare shell_single shell_double)

lemma shell_word:
  "list_all piece_ok ps \<Longrightarrow> shell_loop (spell_word ps @ rest) args cur False False = shell_loop rest args (cur @ word_text ps) False False"
  by (induction ps arbitrary: cur) (simp_all add: spell_word_def word_text_def shell_piece)

lemma shell_blanks:
  "(\<forall>c \<in> set b. blank c) \<Longrightarrow> b \<noteq> [] \<Longrightarrow>
   shell_loop (b @ rest) args cur False False = shell_loop rest (args @ (if cur = [] then [] else [cur])) [] False False"
proof (induction b arbitrary: args cur)
  case (Cons c b)
  then have "c \<noteq> squote" "c \<noteq> dquote" "blank c" by (auto simp: blank_def)
  with Cons show ?case by (cases "b = []") auto
qed simp

definition spell_command :: "(piece list \<times> string) list \<Rightarrow> piece list \<Rightarrow> string" where
  "spell_command ws w = concat (map (\<lambda>(v, b). spell_word v @ b) ws) @ spell_word w"

lemma shell_command:
  "\<forall>(v, b) \<in> set ws. list_all piece_ok v \<and> b \<noteq> [] \<and> (\<forall>c \<in> set b. blank c) \<Longrightarrow>
   shell_loop (concat (map (\<lambda>(v, b). spell_word v @ b) ws) @ rest) args [] False False
   = shell_loop rest (args @ filter (\<lambda>t. t \<noteq> []) (map (word_text \<circ> fst) ws)) [] False False"
proof (induction ws arbitrary: args)
  case (Cons vb ws)
  obtain v b where vb: "vb = (v, b)" by fastforce
  with Cons.prems have ok: "list_all piece_ok v" "b \<noteq> []" "\<forall>c \<in> set b. blank c" by auto
  have IH: "shell_loop (concat (map (\<lambda>(v, b). spell_word v @ b) ws) @ rest) as [] False False
      = shell_loop rest (as @ filter (\<lambda>t. t \<noteq> []) (map (word_text \<circ> fst) ws)) [] False False" for as
    using Cons by (simp add: comp_def)
  show ?case using IH by (simp add: vb shell_word[OF ok(1)] shell_blanks[OF ok(3,2)] comp_def)
qed simp

text \<open>C36: the arguments of a command. Words written with any mixture of bare, single-quoted and double-quoted pieces, with blanks between
  them, are split into the texts of the words, in order; words without text, such as a pair of quotes, are dropped.\<close>

theorem parseShellArgs_words:
  assumes "\<forall>(v, b) \<in> set ws. list_all piece_ok v \<and> b \<noteq> [] \<and> (\<forall>c \<in> set b. blank c)" "list_all piece_ok w"
  shows "parseShellArgs (spell_command ws w) = Inr (filter (\<lambda>t. t \<noteq> []) (map word_text (map fst ws @ [w])))"
  using shell_command[OF assms(1), of "spell_word w" "[]"] shell_word[OF assms(2), of "[]" "filter (\<lambda>t. t \<noteq> []) (map (word_text \<circ> fst) ws)" "[]"]
  by (simp add: parseShellArgs_def spell_command_def)

theorem parseShellArgs_words_witness:
  "parseShellArgs (''echo  '' @ [dquote, CHR ''a'', CHR '' '', backslash, dquote, dquote, squote, CHR ''b'', squote, CHR '' '', squote, squote])
     = Inr [''echo'', [CHR ''a'', CHR '' '', dquote, CHR ''b'']]"
proof -
  let ?ws = "[([Bare ''echo''], ''  ''), ([InDouble [CHR ''a'', CHR '' '', dquote], InSingle ''b''], '' '')]"
  have "\<forall>(v, b) \<in> set ?ws. list_all piece_ok v \<and> b \<noteq> [] \<and> (\<forall>c \<in> set b. blank c)" "list_all piece_ok [InSingle []]"
    by (simp_all add: blank_def)
  from parseShellArgs_words[OF this] show ?thesis by (simp add: spell_command_def spell_word_def word_text_def)
qed

section \<open>A command in a test\<close>

text \<open>The connector as the runner sees it; every step gets a new one.\<close>

definition cli_connector :: "(cli_err \<Rightarrow> string) \<Rightarrow> 'o cli_os \<Rightarrow> (cli_conn \<times> 'o) connector" where
  "cli_connector txt os =
     \<lparr>cn_Setup = (\<lambda>config (_, w). case cli_Setup config NewCli of (e, c) \<Rightarrow> (map_option txt e, (c, w))),
      cn_Execute = (\<lambda>step (c, w). case cli_Execute os c step w of (r, w') \<Rightarrow> (map_sum txt Some r, (c, w'))),
      cn_Teardown = (\<lambda>cw. (None, cw)),
      cn_panic = (\<lambda>call cw. None)\<rparr>"

definition exit_code :: "wait_outcome \<Rightarrow> int option" where
  "exit_code outcome = (case outcome of ExitZero \<Rightarrow> Some 0 | ExitError code \<Rightarrow> Some code | WaitError e \<Rightarrow> None)"

text \<open>What a step that expects an exit code asks of the process: it starts, and ends by itself with this code.\<close>

definition exits_with :: "'o cli_os \<Rightarrow> process \<Rightarrow> int \<Rightarrow> 'o \<Rightarrow> bool" where
  "exits_with os p n w \<longleftrightarrow>
     (\<exists>w1 outcome out err w2. os_start os p w = (None, w1) \<and> os_wait os p w1 = ((outcome, out, err), w2)
       \<and> exit_code outcome = Some n \<and> (outcome \<noteq> ExitZero \<longrightarrow> os_ctx_err os p w2 = None))"

lemma exit_code_assertion:
  assumes "\<bar>code\<bar> \<le> 2 ^ 53" "\<bar>n\<bar> \<le> 2 ^ 53"
  shows "evaluateAssertion rr (Some [(''stdout'', a), (''stderr'', b), (''exit_code'', GInt code), (''command'', c)])
    [(''field'', GStr ''exit_code''), (''operator'', GStr ''equal''), (''expected'', GInt n)] = Inr None \<longleftrightarrow> code = n"
proof -
  have "split_on CHR ''.'' ''exit_code'' = [''exit_code'']" by simp
  moreover have "Evaluate (rn_classes rr) (EqualAssertion (GInt n)) (GInt code) = Passed \<longleftrightarrow> code = n"
    using equal_integers[of code n "rn_classes rr" KInt KInt] assms by auto
  ultimately show ?thesis
    by (cases "Evaluate (rn_classes rr) (EqualAssertion (GInt n)) (GInt code)")
      (simp_all add: evaluateAssertion_def text_at_def Build_def Extract_def del: Evaluate.simps)
qed

definition expects_code :: "int \<Rightarrow> (string \<times> gov) list" where
  "expects_code n = [(''field'', GStr ''exit_code''), (''operator'', GStr ''equal''), (''expected'', GInt n)]"

lemma run_process_verdict:
  assumes "run_process os p False stdinData cmdStr w = (r, w')" "\<bar>n\<bar> \<le> 2 ^ 53"
    "\<And>u code out err u'. os_wait os p u = ((ExitError code, out, err), u') \<Longrightarrow> \<bar>code\<bar> \<le> 2 ^ 53"
  shows "(\<exists>d. r = Inr d \<and> evaluateAssertion rr (Some d) (expects_code n) = Inr None) \<longleftrightarrow> exits_with os p n w"
proof (cases "os_start os p w")
  case (Pair started w1)
  show ?thesis
  proof (cases started)
    case (Some e)
    with Pair assms(1) show ?thesis by (auto simp: run_process_def exits_with_def)
  next
    case None
    obtain outcome out err w2 where wt: "os_wait os p w1 = ((outcome, out, err), w2)" by (metis prod.exhaust)
    have ex: "exits_with os p n w \<longleftrightarrow> exit_code outcome = Some n \<and> (outcome \<noteq> ExitZero \<longrightarrow> os_ctx_err os p w2 = None)"
      using Pair None wt by (simp add: exits_with_def)
    note run = assms(1)[unfolded run_process_def Pair None option.case prod.case feedStdin_def not_False_eq_True if_True wt Let_def]
    show ?thesis
    proof (cases outcome)
      case ExitZero
      with run ex assms(2) exit_code_assertion[of 0 n rr] show ?thesis by (auto simp: exit_code_def expects_code_def)
    next
      case (ExitError code)
      with run ex assms(2) exit_code_assertion[of code n rr] assms(3)[OF wt[unfolded ExitError]] show ?thesis
        by (cases "os_ctx_err os p w2") (auto simp: exit_code_def expects_code_def)
    next
      case (WaitError e)
      with run ex show ?thesis by (cases "os_ctx_err os p w2") (auto simp: exit_code_def)
    qed
  qed
qed

lemma runStep_verdict:
  fixes rr :: "'w runner"
  assumes "connector_Get (rn_registry rr) (ts_Connector step) = Some conn" "ts_Connector step \<noteq> []" "ts_Capture step = []"
    "ts_Assert step = [am]" "\<And>(ip :: 'w interp) w. InterpolateMap ip (ts_Parameters step) w = (Inr params, w)"
    "cn_Setup conn config (rs_world s) = (None, w)" "\<And>call v. cn_panic conn call v = None"
    "runStep rr cx step i config s = (Inr sr, s')"
  shows "sr_Passed sr \<longleftrightarrow> (\<exists>data. fst (cn_Execute conn \<lparr>cs_Action = ts_Action step, cs_Parameters = params, cs_Timeout = step_timeout (ts_Timeout step)\<rparr> w) = Inr data
    \<and> evaluateAssertion rr data am = Inr None)"
proof -
  have w: "rs_world (emitTelemetry rr e cx' x t) = rs_world t" "rs_world (logged h t) = rs_world t" for e cx' x t h
    by (simp_all add: emitTelemetry_def logged_def)
  let ?s2 = "logged (Setup (ts_Connector step) True) (emitTelemetry rr ConnectorSetup cx [(''connector'', ts_Connector step)]
    (emitTelemetry rr StepStart cx [(''step'', stepName step i)] s)\<lparr>rs_world := w\<rparr>)"
  have s2: "rs_world ?s2 = w" by (simp add: logged_def)
  obtain r s3 where b: "step_body rr cx step (stepName step i) conn ?s2 = (r, s3)" by fastforce
  have r: "r = Inr sr" using assms(1,2,6-8) b by (simp add: runStep_def Let_def w)
  obtain x w' where x: "cn_Execute conn \<lparr>cs_Action = ts_Action step, cs_Parameters = params, cs_Timeout = step_timeout (ts_Timeout step)\<rparr> w = (x, w')"
    by fastforce
  show ?thesis
  proof (cases x)
    case (Inl err)
    with b r x s2 show ?thesis by (auto simp: step_body_def assms(5,7) Let_def failed_step_def)
  next
    case (Inr data)
    show ?thesis
    proof (cases "evaluateAssertion rr data am")
      case (Inl msg)
      with b r x s2 Inr show ?thesis by (auto simp: step_body_def assms(3-5,7) Let_def)
    next
      case (Inr v)
      with b r x s2 \<open>x = Inr data\<close> show ?thesis
        by (cases v) (auto simp: step_body_def assms(3-5,7) Let_def failed_step_def passed_step_def)
    qed
  qed
qed

text \<open>C10: what a passed command test says, from the test file to the process. Take a step of the connector \<open>cli\<close> whose action is
  \<open>exec\<close>, with a command that is not empty and can be split into arguments, no \<open>stdin\<close>, parameters that interpolation leaves
  as they are whatever was captured, no captures and exactly one assertion, which expects \<open>exit_code\<close> to be \<open>n\<close>; let the connector's \<open>Setup\<close> succeed, and let
  \<open>n\<close> and the exit codes of the process be at most \<open>2 ^ 53\<close> in size, where \<open>float64\<close> is exact. If such a step has a result, it
  passed exactly when the process with the arguments of the command starts and ends by itself with this code.\<close>

theorem cli_step_verdict:
  fixes rr :: "(cli_conn \<times> 'o) runner"
  assumes "connector_Get (rn_registry rr) ''cli'' = Some (cli_connector txt os)"
    "ts_Connector step = ''cli''" "ts_Action step = ''exec''" "ts_Capture step = []" "ts_Assert step = [expects_code n]" "\<bar>n\<bar> \<le> 2 ^ 53"
    "\<And>(ip :: (cli_conn \<times> 'o) interp) w. InterpolateMap ip (ts_Parameters step) w = (Inr params, w)"
    "map_of params ''command'' = Some (GStr cmd)" "cmd \<noteq> []" "map_of params ''stdin'' = None" "buildCommand (os_goos os) cmd = Inr args"
    "cli_Setup config NewCli = (None, c)"
    "p = the_process c \<lparr>cs_Action = ''exec'', cs_Parameters = params, cs_Timeout = step_timeout (ts_Timeout step)\<rparr> args"
    "\<And>u code out err u'. os_wait os p u = ((ExitError code, out, err), u') \<Longrightarrow> \<bar>code\<bar> \<le> 2 ^ 53"
    "runStep rr cx step i config s = (Inr sr, s')"
  shows "sr_Passed sr \<longleftrightarrow> exits_with os p n (snd (rs_world s))"
proof -
  let ?step = "\<lparr>cs_Action = ''exec'', cs_Parameters = params, cs_Timeout = step_timeout (ts_Timeout step)\<rparr>"
  let ?w = "snd (rs_world s)"
  obtain r w' where r: "run_process os p False [] cmd ?w = (r, w')" by fastforce
  have "cli_Execute os c ?step ?w = (r, w')"
    using r assms(8-11,13) by (simp add: cli_Execute_def executeExec_def paramString_def writeStdin_def Let_def)
  then have x: "fst (cn_Execute (cli_connector txt os) ?step (c, ?w)) = map_sum txt Some r" by (simp add: cli_connector_def)
  have su: "cn_Setup (cli_connector txt os) config (rs_world s) = (None, (c, ?w))"
    by (cases "rs_world s") (simp add: cli_connector_def assms(12))
  have np: "\<And>call v. cn_panic (cli_connector txt os) call v = None" by (simp add: cli_connector_def)
  have "sr_Passed sr \<longleftrightarrow> (\<exists>data. map_sum txt Some r = Inr data \<and> evaluateAssertion rr data (expects_code n) = Inr None)"
    using runStep_verdict[of rr step "cli_connector txt os", OF _ _ assms(4,5,7) su np assms(15)] assms(1-3) x by simp
  also have "\<dots> \<longleftrightarrow> (\<exists>d. r = Inr d \<and> evaluateAssertion rr (Some d) (expects_code n) = Inr None)"
    by (cases r) auto
  also have "\<dots> \<longleftrightarrow> exits_with os p n ?w"
    by (rule run_process_verdict[OF r assms(6)]) (rule assms(14))
  finally show ?thesis .
qed

definition demo_os :: "unit cli_os" where
  "demo_os = \<lparr>os_goos = ''linux'', os_pipe = (\<lambda>_ w. (None, w)), os_start = (\<lambda>_ w. (None, w)), os_write = (\<lambda>_ w. (None, w)),
     os_close = (\<lambda>w. (None, w)),
     os_wait = (\<lambda>p w. ((if pc_Args p = [''false''] then ExitError 1 else ExitZero, ''out'', []), w)), os_ctx_err = (\<lambda>_ _. None),
     os_stat = (\<lambda>_ _. None), os_readFile = (\<lambda>_ _. None), os_quote = id\<rparr>"

definition demo_cli_runner :: "(cli_conn \<times> unit) runner" where
  "demo_cli_runner = \<lparr>rn_registry = [(''cli'', \<lambda>_. cli_connector (\<lambda>_. ''error'') demo_os)], rn_telemetry = False, rn_classes = ascii_classes,
     rn_env = (\<lambda>_. None), rn_compile = (\<lambda>_. None), rn_ctx_err = (\<lambda>_. None),
     rn_err_text = (\<lambda>_. ''error'')\<rparr>"

definition demo_cli_step :: test_step where
  "demo_cli_step = \<lparr>ts_Connector = ''cli'', ts_Action = ''exec'', ts_Parameters = [(''command'', GStr ''false'')], ts_Assert = [expects_code 1],
     ts_Capture = [], ts_Timeout = []\<rparr>"

definition demo_cli_state :: "(cli_conn \<times> unit) run_state" where
  "demo_cli_state = \<lparr>rs_world = (NewCli, ()), rs_store = NewStore [], rs_coverage = None, rs_log = []\<rparr>"

theorem cli_step_verdict_witness:
  "\<exists>sr s'. runStep demo_cli_runner \<lparr>cx_Suite = ''s'', cx_Test = ''t''\<rparr> demo_cli_step 0 [] demo_cli_state = (Inr sr, s') \<and> sr_Passed sr"
proof -
  let ?cx = "\<lparr>cx_Suite = ''s'', cx_Test = ''t''\<rparr>" and ?cs = "\<lparr>cs_Action = ''exec'', cs_Parameters = [(''command'', GStr ''false'')], cs_Timeout = step_timeout []\<rparr>"
  have i: "InterpolateMap (ip :: (cli_conn \<times> unit) interp) [(''command'', GStr ''false'')] w = (Inr [(''command'', GStr ''false'')], w)" for ip w
    by (simp add: interpolateValue.simps Interpolate_def interp_plain emit_def)
  have b: "buildCommand (os_goos demo_os) ''false'' = Inr [''false'']" "buildCommand ''linux'' ''false'' = Inr [''false'']"
    by (simp_all add: buildCommand_def demo_os_def parseShellArgs_def blank_def)
  have c: "cli_Setup [] NewCli = (None, NewCli)" by (simp add: cli_Setup_def setup_env_def)
  obtain sr s' where r: "runStep demo_cli_runner ?cx demo_cli_step 0 [] demo_cli_state = (Inr sr, s')"
  proof -
    have "evaluateAssertion demo_cli_runner (Some [(''stdout'', GStr ''out''), (''stderr'', GStr []), (''exit_code'', GInt 1), (''command'', GStr ''false'')])
        (expects_code 1) = Inr None"
      using exit_code_assertion[of 1 1 demo_cli_runner] by (simp add: expects_code_def)
    then have "\<exists>sr s'. runStep demo_cli_runner ?cx demo_cli_step 0 [] demo_cli_state = (Inr sr, s')"
      by (simp add: i[simplified] runStep_def step_body_def Let_def demo_cli_runner_def demo_cli_step_def connector_Get_def cli_connector_def c b demo_os_def
          cli_Execute_def executeExec_def paramString_def writeStdin_def run_process_def feedStdin_def the_process_def demo_cli_state_def logged_def)
    then show thesis using that by blast
  qed
  have w: "\<And>u code out err u'. os_wait demo_os q u = ((ExitError code, out, err), u') \<Longrightarrow> \<bar>code\<bar> \<le> 2 ^ 53" for q
    by (auto simp: demo_os_def split: if_splits)
  have "sr_Passed sr \<longleftrightarrow> exits_with demo_os (the_process NewCli ?cs [''false'']) 1 (snd (rs_world demo_cli_state))"
    by (rule cli_step_verdict[OF _ _ _ _ _ _ _ _ _ _ b(1) c _ w r])
      (simp_all add: i demo_cli_runner_def demo_cli_step_def connector_Get_def del: InterpolateMap.simps)
  moreover have "exits_with demo_os (the_process NewCli ?cs [''false'']) 1 (snd (rs_world demo_cli_state))"
    by (simp add: exits_with_def demo_os_def the_process_def exit_code_def)
  ultimately show ?thesis using r by blast
qed

end
