(* ===== verification/Ssh_Connector.thy ===== *)
theory Ssh_Connector
  imports Runner "HOL-Library.Multiset"
begin

text \<open>
  connector/ssh: authentication, setup, commands and teardown (auth.go, ssh.go, session.go, command.go) as functions on the connector and
  a world, and the goroutines of a tunnel (tunnel.go) as a step relation. golang.org/x/crypto/ssh, files, sockets and the context are
  the environment's. \<open>so_done\<close>, the trace of what was opened and closed, is the model's.
\<close>

section \<open>Authentication\<close>

datatype ssh_err =
    MissingKey string
  | KeyNotString string
  | KeyEmpty string
  | InvalidPort string
  | HostKeyCheckNotBool
  | AuthNotString string
  | ReadKeyFile string string
  | ParsePrivateKey string
  | NoAuth
  | CtxErr string
  | DialFailed string string
  | NotConnected
  | NoConnection
  | SessionFailed string
  | MissingParam string
  | ParamNotString string
  | ParamNotInt string string
  | StdinNotString
  | ListenFailed string string
  | UnsupportedAction string
  | CloseFailed string

datatype 'k auth = PublicKeys 'k | Password string

datatype host_key = FixedHostKeyNil | InsecureIgnoreHostKey

record 'k client_config =
  cc_User :: string
  cc_Auth :: "'k auth list"
  cc_HostKey :: host_key

datatype run_result = RunOk | RunExit int | RunFailed string

datatype exec_outcome = CtxDone string | Ran run_result string string

record ('o, 'k) ssh_env =
  se_readKeyFile :: "string \<Rightarrow> 'o \<Rightarrow> string + string"
  se_parseKey :: "string \<Rightarrow> string + 'k"
  se_ctx_err :: "'o \<Rightarrow> string option"
  se_dial :: "string \<Rightarrow> 'k client_config \<Rightarrow> 'o \<Rightarrow> (string + nat) \<times> 'o"
  se_newSession :: "nat \<Rightarrow> 'o \<Rightarrow> (string + nat) \<times> 'o"
  se_exec :: "nat \<Rightarrow> string \<Rightarrow> string option \<Rightarrow> 'o \<Rightarrow> exec_outcome \<times> 'o"
  se_listen :: "string \<Rightarrow> 'o \<Rightarrow> (string + nat \<times> string) \<times> 'o"
  se_closeClient :: "nat \<Rightarrow> 'o \<Rightarrow> string option \<times> 'o"

definition authFromPEM :: "('o, 'k) ssh_env \<Rightarrow> string \<Rightarrow> ssh_err + 'k auth" where
  "authFromPEM env pem = (case se_parseKey env pem of Inl e \<Rightarrow> Inl (ParsePrivateKey e) | Inr signer \<Rightarrow> Inr (PublicKeys signer))"

definition authFromKeyFile :: "('o, 'k) ssh_env \<Rightarrow> string \<Rightarrow> 'o \<Rightarrow> ssh_err + 'k auth" where
  "authFromKeyFile env path w =
     (case se_readKeyFile env path w of Inl e \<Rightarrow> Inl (ReadKeyFile path e) | Inr pem \<Rightarrow> authFromPEM env pem)"

definition auth_of :: "(string \<times> gov) list \<Rightarrow> string \<Rightarrow> (string \<Rightarrow> ssh_err + 'k auth) \<Rightarrow> ssh_err + 'k auth list" where
  "auth_of config key f =
     (case map_of config key of
        None \<Rightarrow> Inr []
      | Some (GStr s) \<Rightarrow> (case f s of Inl e \<Rightarrow> Inl e | Inr a \<Rightarrow> Inr [a])
      | Some _ \<Rightarrow> Inl (AuthNotString key))"

definition buildAuthMethods :: "('o, 'k) ssh_env \<Rightarrow> (string \<times> gov) list \<Rightarrow> 'o \<Rightarrow> ssh_err + 'k auth list" where
  "buildAuthMethods env config w =
     rbind (auth_of config ''key_file'' (\<lambda>path. authFromKeyFile env path w)) (\<lambda>m1.
     rbind (auth_of config ''key'' (authFromPEM env)) (\<lambda>m2.
     rbind (auth_of config ''password'' (\<lambda>s. Inr (Password s))) (\<lambda>m3. Inr (m1 @ m2 @ m3))))"

definition buildHostKeyCallback :: "bool \<Rightarrow> host_key" where
  "buildHostKeyCallback check = (if \<not> check then InsecureIgnoreHostKey else InsecureIgnoreHostKey)"

section \<open>Configuration\<close>

definition requireString :: "(string \<times> gov) list \<Rightarrow> string \<Rightarrow> ssh_err + string" where
  "requireString config key =
     (case map_of config key of
        None \<Rightarrow> Inl (MissingKey key)
      | Some (GStr s) \<Rightarrow> if s = [] then Inl (KeyEmpty key) else Inr s
      | Some _ \<Rightarrow> Inl (KeyNotString key))"

definition toInt :: "gov \<Rightarrow> string + int" where
  "toInt v =
     (case v of
        GNum k n \<Rightarrow> if k = KInt \<or> k = KInt64 then Inr n else Inl (type_name v)
      | GFloat x \<Rightarrow> Inr (f64_to_int x)
      | _ \<Rightarrow> Inl (type_name v))"

definition JoinHostPort :: "string \<Rightarrow> string \<Rightarrow> string" where
  "JoinHostPort host port =
     (if CHR '':'' \<in> set host \<or> CHR ''%'' \<in> set host then ''['' @ host @ '']:'' @ port else host @ '':'' @ port)"

definition config_port :: "(string \<times> gov) list \<Rightarrow> ssh_err + int" where
  "config_port config =
     (case map_of config ''port'' of
        None \<Rightarrow> Inr 22
      | Some v \<Rightarrow> (case toInt v of Inl t \<Rightarrow> Inl (InvalidPort t) | Inr p \<Rightarrow> Inr p))"

definition config_check :: "(string \<times> gov) list \<Rightarrow> ssh_err + bool" where
  "config_check config =
     (case map_of config ''host_key_check'' of
        None \<Rightarrow> Inr True
      | Some (GBool b) \<Rightarrow> Inr b
      | Some _ \<Rightarrow> Inl HostKeyCheckNotBool)"

text \<open>The address and the client configuration, up to the look at the context.\<close>

definition ssh_target :: "('o, 'k) ssh_env \<Rightarrow> (string \<times> gov) list \<Rightarrow> 'o \<Rightarrow> ssh_err + string \<times> 'k client_config" where
  "ssh_target env config w =
     rbind (requireString config ''host'') (\<lambda>host.
     rbind (config_port config) (\<lambda>port.
     rbind (requireString config ''user'') (\<lambda>user.
     rbind (config_check config) (\<lambda>hostKeyCheck.
     rbind (buildAuthMethods env config w) (\<lambda>authMethods.
       if authMethods = [] then Inl NoAuth
       else Inr (JoinHostPort host (itoa port),
         \<lparr>cc_User = user, cc_Auth = authMethods, cc_HostKey = (if hostKeyCheck then FixedHostKeyNil else InsecureIgnoreHostKey)\<rparr>))))))"

section \<open>The connector\<close>

datatype ssh_effect =
    OpenedClient nat
  | ClosedClient nat
  | OpenedSession nat
  | ClosedSession nat
  | OpenedListener nat
  | ClosedListener nat

record 'o sworld =
  so_world :: 'o
  so_done :: "ssh_effect list"

definition seffect :: "ssh_effect \<Rightarrow> 'o \<Rightarrow> 'o sworld \<Rightarrow> 'o sworld" where
  "seffect e w s = s\<lparr>so_world := w, so_done := so_done s @ [e]\<rparr>"

record 'k ssh_conn =
  sc_client :: "nat option"
  sc_config :: "(string \<times> 'k client_config) option"
  sc_listeners :: "nat list"
  sc_closed :: bool

definition NewSsh :: "'k ssh_conn" where
  "NewSsh = \<lparr>sc_client = None, sc_config = None, sc_listeners = [], sc_closed = False\<rparr>"

definition ssh_Setup ::
    "('o, 'k) ssh_env \<Rightarrow> (string \<times> gov) list \<Rightarrow> 'k ssh_conn \<Rightarrow> 'o sworld \<Rightarrow> ssh_err option \<times> 'k ssh_conn \<times> 'o sworld" where
  "ssh_Setup env config c s =
     (case ssh_target env config (so_world s) of
        Inl e \<Rightarrow> (Some e, c, s)
      | Inr (addr, cfg) \<Rightarrow>
          (let c1 = c\<lparr>sc_config := Some (addr, cfg)\<rparr> in
           case se_ctx_err env (so_world s) of
             Some e \<Rightarrow> (Some (CtxErr e), c1, s)
           | None \<Rightarrow>
               (case se_dial env addr cfg (so_world s) of
                  (Inl e, w) \<Rightarrow> (Some (DialFailed addr e), c1, s\<lparr>so_world := w\<rparr>)
                | (Inr client, w) \<Rightarrow> (None, c1\<lparr>sc_client := Some client\<rparr>, seffect (OpenedClient client) w s))))"

definition requireParam :: "(string \<times> gov) list \<Rightarrow> string \<Rightarrow> ssh_err + string" where
  "requireParam params key =
     (case map_of params key of
        None \<Rightarrow> Inl (MissingParam key)
      | Some (GStr s) \<Rightarrow> Inr s
      | Some _ \<Rightarrow> Inl (ParamNotString key))"

definition requireIntParam :: "(string \<times> gov) list \<Rightarrow> string \<Rightarrow> ssh_err + int" where
  "requireIntParam params key =
     (case map_of params key of
        None \<Rightarrow> Inl (MissingParam key)
      | Some v \<Rightarrow> (case toInt v of Inl t \<Rightarrow> Inl (ParamNotInt key t) | Inr n \<Rightarrow> Inr n))"

definition extractExitCode :: "run_result \<Rightarrow> int" where
  "extractExitCode r = (case r of RunOk \<Rightarrow> 0 | RunExit n \<Rightarrow> n | RunFailed e \<Rightarrow> -1)"

definition newSession :: "('o, 'k) ssh_env \<Rightarrow> 'k ssh_conn \<Rightarrow> 'o sworld \<Rightarrow> (ssh_err + nat) \<times> 'o sworld" where
  "newSession env c s =
     (case sc_client c of
        None \<Rightarrow> (Inl NoConnection, s)
      | Some client \<Rightarrow>
          (case se_newSession env client (so_world s) of
             (Inl e, w) \<Rightarrow> (Inl (SessionFailed e), s\<lparr>so_world := w\<rparr>)
           | (Inr sid, w) \<Rightarrow> (Inr sid, seffect (OpenedSession sid) w s)))"

text \<open>What \<open>executeCommand\<close> does with its session, which the deferred \<open>closeSession\<close> closes.\<close>

definition run_in_session ::
    "('o, 'k) ssh_env \<Rightarrow> (string \<times> gov) list \<Rightarrow> string \<Rightarrow> nat \<Rightarrow> 'o \<Rightarrow> (ssh_err + (string \<times> gov) list) \<times> 'o" where
  "run_in_session env params cmd sid w =
     (let run = (\<lambda>stdin. case se_exec env sid cmd stdin w of
            (CtxDone e, w') \<Rightarrow> (Inl (CtxErr e), w')
          | (Ran r stdout stderr, w') \<Rightarrow>
              (Inr [(''stdout'', GStr stdout), (''stderr'', GStr stderr), (''exit_code'', GInt (extractExitCode r))], w'))
      in case map_of params ''stdin'' of
           None \<Rightarrow> run None
         | Some (GStr t) \<Rightarrow> run (Some t)
         | Some _ \<Rightarrow> (Inl StdinNotString, w))"

definition executeCommand :: "('o, 'k) ssh_env \<Rightarrow> 'k ssh_conn \<Rightarrow> conn_step \<Rightarrow> 'o sworld \<Rightarrow> (ssh_err + (string \<times> gov) list) \<times> 'o sworld" where
  "executeCommand env c step s =
     (case requireParam (cs_Parameters step) ''command'' of
        Inl e \<Rightarrow> (Inl e, s)
      | Inr cmd \<Rightarrow>
          (case newSession env c s of
             (Inl e, s1) \<Rightarrow> (Inl e, s1)
           | (Inr sid, s1) \<Rightarrow>
               (case run_in_session env (cs_Parameters step) cmd sid (so_world s1) of
                  (r, w) \<Rightarrow> (r, seffect (ClosedSession sid) w s1))))"

definition executeTunnel ::
    "('o, 'k) ssh_env \<Rightarrow> 'k ssh_conn \<Rightarrow> conn_step \<Rightarrow> 'o sworld \<Rightarrow> (ssh_err + (string \<times> gov) list) \<times> 'k ssh_conn \<times> 'o sworld" where
  "executeTunnel env c step s =
     (case rbind (requireIntParam (cs_Parameters step) ''local_port'') (\<lambda>localPort.
           rbind (requireParam (cs_Parameters step) ''remote_host'') (\<lambda>remoteHost.
           rbind (requireIntParam (cs_Parameters step) ''remote_port'') (\<lambda>remotePort.
             Inr (JoinHostPort ''127.0.0.1'' (itoa localPort))))) of
        Inl e \<Rightarrow> (Inl e, c, s)
      | Inr localAddr \<Rightarrow>
          (case se_listen env localAddr (so_world s) of
             (Inl e, w) \<Rightarrow> (Inl (ListenFailed localAddr e), c, s\<lparr>so_world := w\<rparr>)
           | (Inr (l, addr), w) \<Rightarrow>
               (Inr [(''local_addr'', GStr addr)], c\<lparr>sc_listeners := sc_listeners c @ [l]\<rparr>, seffect (OpenedListener l) w s)))"

definition ssh_Execute ::
    "('o, 'k) ssh_env \<Rightarrow> 'k ssh_conn \<Rightarrow> conn_step \<Rightarrow> 'o sworld \<Rightarrow> (ssh_err + (string \<times> gov) list) \<times> 'k ssh_conn \<times> 'o sworld" where
  "ssh_Execute env c step s =
     (if sc_client c = None then (Inl NotConnected, c, s)
      else if cs_Action step = ''exec'' then (case executeCommand env c step s of (r, s') \<Rightarrow> (r, c, s'))
      else if cs_Action step = ''tunnel'' then executeTunnel env c step s
      else (Inl (UnsupportedAction (cs_Action step)), c, s))"

fun close_listeners :: "nat list \<Rightarrow> 'o sworld \<Rightarrow> 'o sworld" where
  "close_listeners [] s = s"
| "close_listeners (l # ls) s = close_listeners ls (seffect (ClosedListener l) (so_world s) s)"

definition ssh_Teardown :: "('o, 'k) ssh_env \<Rightarrow> 'k ssh_conn \<Rightarrow> 'o sworld \<Rightarrow> ssh_err option \<times> 'k ssh_conn \<times> 'o sworld" where
  "ssh_Teardown env c s =
     (let s1 = close_listeners (sc_listeners c) s; c1 = c\<lparr>sc_closed := True, sc_listeners := []\<rparr> in
      case sc_client c of
        None \<Rightarrow> (None, c1, s1)
      | Some client \<Rightarrow>
          (case se_closeClient env client (so_world s1) of
             (e, w) \<Rightarrow> (map_option CloseFailed e, c1\<lparr>sc_client := None\<rparr>, seffect (ClosedClient client) w s1)))"

section \<open>What is opened is closed\<close>

fun opens :: "ssh_effect \<Rightarrow> (nat + nat + nat) option" where
  "opens (OpenedClient c) = Some (Inl c)" | "opens (OpenedSession c) = Some (Inr (Inl c))" | "opens (OpenedListener c) = Some (Inr (Inr c))"
| "opens _ = None"

fun closes :: "ssh_effect \<Rightarrow> (nat + nat + nat) option" where
  "closes (ClosedClient c) = Some (Inl c)" | "closes (ClosedSession c) = Some (Inr (Inl c))" | "closes (ClosedListener c) = Some (Inr (Inr c))"
| "closes _ = None"

definition some_mset :: "'a option \<Rightarrow> 'a multiset" where
  "some_mset x = (case x of None \<Rightarrow> {#} | Some y \<Rightarrow> {#y#})"

definition were_opened :: "'o sworld \<Rightarrow> (nat + nat + nat) multiset" where
  "were_opened s = \<Sum>\<^sub># (image_mset (\<lambda>e. some_mset (opens e)) (mset (so_done s)))"

definition were_closed :: "'o sworld \<Rightarrow> (nat + nat + nat) multiset" where
  "were_closed s = \<Sum>\<^sub># (image_mset (\<lambda>e. some_mset (closes e)) (mset (so_done s)))"

lemma were_simps [simp]:
  "were_opened (seffect e w s) = were_opened s + some_mset (opens e)"
  "were_closed (seffect e w s) = were_closed s + some_mset (closes e)"
  "were_opened (s\<lparr>so_world := w\<rparr>) = were_opened s" "were_closed (s\<lparr>so_world := w\<rparr>) = were_closed s"
  "some_mset None = {#}" "some_mset (Some y) = {#y#}"
  by (simp_all add: were_opened_def were_closed_def seffect_def some_mset_def)

text \<open>What the connector holds.\<close>

definition holdings :: "'k ssh_conn \<Rightarrow> (nat + nat + nat) multiset" where
  "holdings c = (case sc_client c of None \<Rightarrow> {#} | Some i \<Rightarrow> {#Inl i#}) + image_mset (\<lambda>l. Inr (Inr l)) (mset (sc_listeners c))"

definition balanced :: "'k ssh_conn \<Rightarrow> 'o sworld \<Rightarrow> bool" where
  "balanced c s \<longleftrightarrow> were_opened s = were_closed s + holdings c"

lemma Setup_balanced:
  "ssh_Setup env config c s = (r, c', s') \<Longrightarrow> balanced c s \<Longrightarrow> sc_client c = None \<Longrightarrow>
   balanced c' s' \<and> (r \<noteq> None \<longrightarrow> sc_client c' = None) \<and> sc_listeners c' = sc_listeners c"
  by (auto simp: ssh_Setup_def Let_def balanced_def holdings_def split: sum.splits prod.splits option.splits)

lemma Execute_balanced: "ssh_Execute env c step s = (r, c', s') \<Longrightarrow> balanced c s \<Longrightarrow> balanced c' s'"
  by (auto simp: ssh_Execute_def executeCommand_def executeTunnel_def newSession_def balanced_def holdings_def
      split: if_splits sum.splits prod.splits option.splits)

lemma close_listeners_simps:
  "were_opened (close_listeners ls s) = were_opened s"
  "were_closed (close_listeners ls s) = were_closed s + image_mset (\<lambda>l. Inr (Inr l)) (mset ls)"
  by (induction ls arbitrary: s) simp_all

lemma Teardown_balanced: "ssh_Teardown env c s = (r, c', s') \<Longrightarrow> balanced c s \<Longrightarrow> balanced c' s' \<and> holdings c' = {#}"
  by (auto simp: ssh_Teardown_def Let_def balanced_def holdings_def close_listeners_simps split: option.splits prod.splits)

fun ssh_steps :: "('o, 'k) ssh_env \<Rightarrow> conn_step list \<Rightarrow> 'k ssh_conn \<times> 'o sworld \<Rightarrow> 'k ssh_conn \<times> 'o sworld" where
  "ssh_steps env [] cs = cs"
| "ssh_steps env (step # steps) cs = ssh_steps env steps (snd (ssh_Execute env (fst cs) step (snd cs)))"

lemma steps_balanced: "balanced (fst cs) (snd cs) \<Longrightarrow> balanced (fst (ssh_steps env steps cs)) (snd (ssh_steps env steps cs))"
proof (induction steps arbitrary: cs)
  case (Cons step steps)
  obtain r c' s' where e: "ssh_Execute env (fst cs) step (snd cs) = (r, c', s')" by (metis prod.exhaust)
  with Cons show ?case using Execute_balanced[OF e] by simp
qed simp

text \<open>After Setup, any steps and Teardown all connections, sessions and listeners that were opened have been closed.\<close>

lemma ssh_leaves_nothing:
  assumes "were_opened s = were_closed s" "ssh_Setup env config NewSsh s = (r, c1, s1)" "ssh_Teardown env c2 s2 = (e, c3, s3)"
    "ssh_steps env steps (c1, s1) = (c2, s2)"
  shows "were_opened s3 = were_closed s3"
proof -
  have "balanced (NewSsh :: 'b ssh_conn) s" "sc_client (NewSsh :: 'b ssh_conn) = None"
    using assms(1) by (simp_all add: balanced_def holdings_def NewSsh_def)
  with Setup_balanced[OF assms(2)] have "balanced c1 s1" by blast
  with steps_balanced[of "(c1, s1)" env steps] assms(4) have "balanced c2 s2" by simp
  with Teardown_balanced[OF assms(3)] show ?thesis by (simp add: balanced_def)
qed

section \<open>Host keys\<close>

text \<open>C35: the default cannot connect. The callback that \<open>FixedHostKey(nil)\<close> makes refuses every host, so that a dial with it fails; then,
  unless \<open>host_key_check\<close> is the boolean false, \<open>Setup\<close> fails, whatever the host, the user and the keys, and keeps no connection.\<close>

theorem ssh_Setup_needs_unchecked:
  fixes env :: "('o, 'k) ssh_env"
  assumes "\<And>addr (cfg :: 'k client_config) w. cc_HostKey cfg = FixedHostKeyNil \<Longrightarrow> \<exists>e w'. se_dial env addr cfg w = (Inl e, w')"
    "map_of config ''host_key_check'' \<noteq> Some (GBool False)" "ssh_Setup env config NewSsh s = (r, c, s')"
  shows "(\<exists>e. r = Some e) \<and> sc_client c = None \<and> so_done s' = so_done s"
proof (cases "ssh_target env config (so_world s)")
  case (Inl e)
  with assms(3) show ?thesis by (auto simp: ssh_Setup_def NewSsh_def)
next
  case (Inr t)
  obtain addr cfg where t: "t = (addr, cfg)" by fastforce
  from Inr assms(2) have "cc_HostKey cfg = FixedHostKeyNil"
    by (auto simp: t ssh_target_def config_check_def rbind_eq_Inr split: option.splits gov.splits if_splits bool.splits)
  then obtain e w' where "se_dial env addr cfg (so_world s) = (Inl e, w')" using assms(1) by blast
  with Inr assms(3) show ?thesis by (auto simp: ssh_Setup_def Let_def t NewSsh_def split: option.splits)
qed

definition demo_ssh :: "(unit, string) ssh_env" where
  "demo_ssh = \<lparr>se_readKeyFile = (\<lambda>_ _. Inl ''no file''), se_parseKey = Inr, se_ctx_err = (\<lambda>_. None),
     se_dial = (\<lambda>_ cfg w. (if cc_HostKey cfg = FixedHostKeyNil then Inl ''ssh: required host key was nil'' else Inr 1, w)),
     se_newSession = (\<lambda>_ w. (Inr 2, w)), se_exec = (\<lambda>_ _ _ w. (Ran RunOk [] [], w)), se_listen = (\<lambda>a w. (Inr (3, a), w)),
     se_closeClient = (\<lambda>_ w. (None, w))\<rparr>"

theorem ssh_Setup_needs_unchecked_witness:
  "\<exists>e c s'. ssh_Setup demo_ssh [(''host'', GStr ''h''), (''user'', GStr ''u''), (''password'', GStr ''p'')] NewSsh \<lparr>so_world = (), so_done = []\<rparr>
      = (Some e, c, s')
     \<and> fst (ssh_Setup demo_ssh [(''host'', GStr ''h''), (''user'', GStr ''u''), (''password'', GStr ''p''), (''host_key_check'', GBool False)]
         NewSsh \<lparr>so_world = (), so_done = []\<rparr>) = None"
proof -
  let ?config = "[(''host'', GStr ''h''), (''user'', GStr ''u''), (''password'', GStr ''p'')]"
  obtain r c s' where r: "ssh_Setup demo_ssh ?config NewSsh \<lparr>so_world = (), so_done = []\<rparr> = (r, c, s')" by (metis prod.exhaust)
  have "\<exists>e w'. se_dial demo_ssh addr cfg w = (Inl e, w')" if "cc_HostKey cfg = FixedHostKeyNil" for addr cfg w
    using that by (simp add: demo_ssh_def)
  from ssh_Setup_needs_unchecked[OF this _ r] have "\<exists>e. r = Some e" by simp
  moreover have "fst (ssh_Setup demo_ssh (?config @ [(''host_key_check'', GBool False)]) NewSsh \<lparr>so_world = (), so_done = []\<rparr>) = None"
    by (simp add: ssh_Setup_def ssh_target_def requireString_def config_port_def config_check_def buildAuthMethods_def auth_of_def demo_ssh_def Let_def)
  ultimately show ?thesis using r by auto
qed

section \<open>Tunnels\<close>

text \<open>A forwarded connection: accepted, past the check of the client, connected to the remote host, ended, or ended by a nil pointer.\<close>

datatype forward = Accepted | ClientSeen | Connected | Ended | Panicked

datatype teardown = NotYet | Signalled | Awaiting | Returned

record tunnels =
  tn_client :: bool
  tn_closed :: bool
  tn_open :: "nat set"
  tn_accepting :: "nat set"
  tn_forward :: "nat \<rightharpoonup> forward"
  tn_teardown :: teardown

definition no_tunnels :: tunnels where
  "no_tunnels = \<lparr>tn_client = True, tn_closed = False, tn_open = {}, tn_accepting = {}, tn_forward = Map.empty, tn_teardown = NotYet\<rparr>"

definition forwarding :: "nat \<Rightarrow> forward \<Rightarrow> tunnels \<Rightarrow> tunnels" where
  "forwarding f x s = s\<lparr>tn_forward := (tn_forward s)(f \<mapsto> x)\<rparr>"

text \<open>\<open>Accept\<close> fails when its listener is closed, and may fail before. \<open>Teardown\<close> closes the listeners one by one.\<close>

inductive accept_step :: "tunnels \<Rightarrow> tunnels \<Rightarrow> bool" where
  accept: "l \<in> tn_accepting s \<Longrightarrow> l \<in> tn_open s \<Longrightarrow> tn_forward s f = None \<Longrightarrow> accept_step s (forwarding f Accepted s)"
| accept_closed: "l \<in> tn_accepting s \<Longrightarrow> l \<notin> tn_open s \<Longrightarrow> accept_step s (s\<lparr>tn_accepting := tn_accepting s - {l}\<rparr>)"
| accept_error: "l \<in> tn_accepting s \<Longrightarrow> l \<in> tn_open s \<Longrightarrow> accept_step s (s\<lparr>tn_accepting := tn_accepting s - {l}\<rparr>)"

inductive forward_step :: "tunnels \<Rightarrow> tunnels \<Rightarrow> bool" where
  client_nil: "tn_forward s f = Some Accepted \<Longrightarrow> \<not> tn_client s \<Longrightarrow> forward_step s (forwarding f Ended s)"
| client_seen: "tn_forward s f = Some Accepted \<Longrightarrow> tn_client s \<Longrightarrow> forward_step s (forwarding f ClientSeen s)"
| dial_remote: "tn_forward s f = Some ClientSeen \<Longrightarrow> tn_client s \<Longrightarrow> forward_step s (forwarding f Connected s)"
| dial_fails: "tn_forward s f = Some ClientSeen \<Longrightarrow> tn_client s \<Longrightarrow> forward_step s (forwarding f Ended s)"
| dial_nil: "tn_forward s f = Some ClientSeen \<Longrightarrow> \<not> tn_client s \<Longrightarrow> forward_step s (forwarding f Panicked s)"
| copied: "tn_forward s f = Some Connected \<Longrightarrow> forward_step s (forwarding f Ended s)"

inductive owner_step :: "tunnels \<Rightarrow> tunnels \<Rightarrow> bool" where
  open_tunnel: "tn_teardown s = NotYet \<Longrightarrow> l \<notin> tn_open s \<Longrightarrow> l \<notin> tn_accepting s \<Longrightarrow>
    owner_step s (s\<lparr>tn_open := insert l (tn_open s), tn_accepting := insert l (tn_accepting s)\<rparr>)"
| signal: "tn_teardown s = NotYet \<Longrightarrow> owner_step s (s\<lparr>tn_closed := True, tn_teardown := Signalled\<rparr>)"
| close_one: "tn_teardown s = Signalled \<Longrightarrow> l \<in> tn_open s \<Longrightarrow> owner_step s (s\<lparr>tn_open := tn_open s - {l}\<rparr>)"
| all_closed: "tn_teardown s = Signalled \<Longrightarrow> tn_open s = {} \<Longrightarrow> owner_step s (s\<lparr>tn_teardown := Awaiting\<rparr>)"
| awaited: "tn_teardown s = Awaiting \<Longrightarrow> tn_accepting s = {} \<Longrightarrow> owner_step s (s\<lparr>tn_client := False, tn_teardown := Returned\<rparr>)"

definition tunnel_step :: "tunnels \<Rightarrow> tunnels \<Rightarrow> bool" where
  "tunnel_step s t \<longleftrightarrow> accept_step s t \<or> forward_step s t \<or> owner_step s t"

definition tunnels_ok :: "tunnels \<Rightarrow> bool" where
  "tunnels_ok s \<longleftrightarrow> finite (tn_accepting s)
     \<and> (tn_teardown s \<in> {Awaiting, Returned} \<longrightarrow> tn_open s = {} \<and> tn_closed s)
     \<and> (tn_teardown s = Returned \<longrightarrow> tn_accepting s = {} \<and> \<not> tn_client s)
     \<and> (tn_teardown s \<noteq> Returned \<longrightarrow> tn_client s \<and> (\<forall>f. tn_forward s f \<noteq> Some Panicked))
     \<and> (tn_teardown s = Signalled \<longrightarrow> tn_closed s)"

lemma tunnels_ok_step: "tunnels_ok s \<Longrightarrow> tunnel_step s t \<Longrightarrow> tunnels_ok t"
  unfolding tunnel_step_def
  by (elim disjE accept_step.cases forward_step.cases owner_step.cases) (auto simp: tunnels_ok_def forwarding_def)

lemma tunnels_ok_reach: "tunnel_step\<^sup>*\<^sup>* s t \<Longrightarrow> tunnels_ok s \<Longrightarrow> tunnels_ok t"
  by (induction rule: rtranclp_induct) (auto intro: tunnels_ok_step)

lemma no_tunnels_ok: "tunnels_ok no_tunnels"
  by (simp add: tunnels_ok_def no_tunnels_def)

text \<open>While Teardown waits no connection is accepted and every goroutine that accepts can end, so the wait ends.\<close>

lemma await_ends:
  assumes "tunnel_step\<^sup>*\<^sup>* no_tunnels s" "tn_teardown s = Awaiting"
  shows "\<exists>t. tunnel_step\<^sup>*\<^sup>* s t \<and> tn_teardown t = Returned"
proof -
  have "\<exists>t. tunnel_step\<^sup>*\<^sup>* u t \<and> tn_teardown t = Returned" if "finite (tn_accepting u)" "tn_open u = {}" "tn_teardown u = Awaiting" for u
    using that
  proof (induction "tn_accepting u" arbitrary: u rule: finite_induct)
    case empty
    then show ?case using awaited[of u] by (auto simp: tunnel_step_def intro!: exI r_into_rtranclp)
  next
    case (insert l ls)
    let ?v = "u\<lparr>tn_accepting := tn_accepting u - {l}\<rparr>"
    have "tunnel_step u ?v" using accept_closed[of l u] insert.hyps(4) insert.prems(1) by (auto simp: tunnel_step_def)
    moreover have "ls = tn_accepting ?v" "tn_open ?v = {}" "tn_teardown ?v = Awaiting" using insert.hyps(2,4) insert.prems by auto
    then obtain t where "tunnel_step\<^sup>*\<^sup>* ?v t" "tn_teardown t = Returned" using insert.hyps(3)[of ?v] by blast
    ultimately show ?case by (meson converse_rtranclp_into_rtranclp)
  qed
  then show ?thesis using assms tunnels_ok_reach[OF assms(1) no_tunnels_ok] by (auto simp: tunnels_ok_def)
qed

text \<open>C31: tearing tunnels down. In every interleaving, when Teardown has returned no listener is open and nothing accepts, and its wait for the
  goroutines that accept can always end; but the goroutines that forward are not waited for, and one that has seen the client before
  Teardown can dial through the nil that Teardown leaves, which panics and ends the program.\<close>

theorem tunnel_teardown:
  "(\<forall>s. tunnel_step\<^sup>*\<^sup>* no_tunnels s \<longrightarrow>
      (tn_teardown s = Returned \<longrightarrow> tn_open s = {} \<and> tn_accepting s = {})
      \<and> (tn_teardown s = Awaiting \<longrightarrow> (\<exists>t. tunnel_step\<^sup>*\<^sup>* s t \<and> tn_teardown t = Returned)))
   \<and> (\<exists>s f. tunnel_step\<^sup>*\<^sup>* no_tunnels s \<and> tn_teardown s = Returned \<and> tn_forward s f = Some Panicked)"
proof -
  have "tn_open s = {} \<and> tn_accepting s = {}" if "tunnel_step\<^sup>*\<^sup>* no_tunnels s" "tn_teardown s = Returned" for s
    using tunnels_ok_reach[OF that(1) no_tunnels_ok] that(2) by (simp add: tunnels_ok_def)
  moreover have "\<exists>s f. tunnel_step\<^sup>*\<^sup>* no_tunnels s \<and> tn_teardown s = Returned \<and> tn_forward s f = Some Panicked"
  proof -
    define s1 where "s1 = no_tunnels\<lparr>tn_open := {0}, tn_accepting := {0}\<rparr>"
    define s2 where "s2 = forwarding 0 Accepted s1"
    define s3 where "s3 = forwarding 0 ClientSeen s2"
    define s4 where "s4 = s3\<lparr>tn_closed := True, tn_teardown := Signalled\<rparr>"
    define c4 where "c4 = s4\<lparr>tn_open := tn_open s4 - {0}\<rparr>"
    define s5 where "s5 = c4\<lparr>tn_teardown := Awaiting\<rparr>"
    define s6 where "s6 = s5\<lparr>tn_accepting := tn_accepting s5 - {0}\<rparr>"
    define s7 where "s7 = s6\<lparr>tn_client := False, tn_teardown := Returned\<rparr>"
    define s8 where "s8 = forwarding 0 Panicked s7"
    note d = no_tunnels_def s1_def s2_def s3_def s4_def c4_def s5_def s6_def s7_def forwarding_def
    have "owner_step no_tunnels s1" using open_tunnel[of no_tunnels 0] by (simp add: d)
    moreover have "accept_step s1 s2" unfolding s2_def by (rule accept[of 0]) (simp_all add: d)
    moreover have "forward_step s2 s3" unfolding s3_def by (rule client_seen) (simp_all add: d)
    moreover have "owner_step s3 s4" unfolding s4_def by (rule signal) (simp add: d)
    moreover have "owner_step s4 c4" unfolding c4_def by (rule close_one) (simp_all add: d)
    moreover have "owner_step c4 s5" unfolding s5_def by (rule all_closed) (simp_all add: d)
    moreover have "accept_step s5 s6" unfolding s6_def by (rule accept_closed) (simp_all add: d)
    moreover have "owner_step s6 s7" unfolding s7_def by (rule awaited) (simp_all add: d)
    moreover have "forward_step s7 s8" unfolding s8_def by (rule dial_nil) (simp_all add: d)
    ultimately have "tunnel_step no_tunnels s1" "tunnel_step s1 s2" "tunnel_step s2 s3" "tunnel_step s3 s4" "tunnel_step s4 c4" "tunnel_step c4 s5"
      "tunnel_step s5 s6" "tunnel_step s6 s7" "tunnel_step s7 s8" by (simp_all add: tunnel_step_def)
    then have "tunnel_step\<^sup>*\<^sup>* no_tunnels s8" by (meson converse_rtranclp_into_rtranclp rtranclp.rtrancl_refl)
    moreover have "tn_teardown s8 = Returned" "tn_forward s8 0 = Some Panicked" by (simp_all add: s8_def d)
    ultimately show ?thesis by blast
  qed
  ultimately show ?thesis using await_ends by blast
qed

theorem tunnel_teardown_witness:
  "\<exists>s. tunnel_step\<^sup>*\<^sup>* no_tunnels s \<and> tn_teardown s = Returned \<and> tn_open s = {} \<and> tn_accepting s = {}"
  using tunnel_teardown by blast

end
