(* ===== verification/Static_Provider.thy ===== *)
theory Static_Provider
  imports Fleet "HOL-Library.Multiset"
begin

text \<open>
  provider/static: the fleet provider for hosts that exist already (provider.go) and its use of SSH (ssh.go). Files, keys, the SSH library and
  the clock are the environment's. Every operation that touches the connections holds the mutex, so operations are atomic on them. A
  result \<^const>\<open>None\<close> is a panic. The trace of dials and closes is the model's.
\<close>

section \<open>Configuration\<close>

record static_config =
  sg_User :: string
  sg_KeyFile :: string
  sg_Port :: int
  sg_Binary :: string
  sg_Nodes :: "string list"

datatype static_err =
    ConfigRequired
  | NodeRequired
  | KeyFileRequired
  | UserRequired
  | TooManyHosts int nat
  | ReadKey string string
  | ParseKey string string
  | NotEd25519 string string
  | DialError string string
  | PushConnect string static_err
  | PushArtifact string string static_err
  | ConnectTo string static_err
  | ExecuteOn string static_err
  | SessionError string
  | RunError string
  | ScpRead string string
  | ScpWrite string string
  | CloseError string string

definition str_at :: "(string \<times> gov) list \<Rightarrow> string \<Rightarrow> string \<Rightarrow> string" where
  "str_at m k old = (case map_of m k of Some (GStr s) \<Rightarrow> s | _ \<Rightarrow> old)"

definition parse_ssh :: "(string \<times> gov) list \<Rightarrow> static_config \<Rightarrow> static_config" where
  "parse_ssh config g =
     (case map_of config ''ssh'' of
        Some (GMap m) \<Rightarrow>
          g\<lparr>sg_User := str_at m ''user'' (sg_User g), sg_KeyFile := str_at m ''key_file'' (sg_KeyFile g),
            sg_Port := (case map_of m ''port'' of Some (GNum KInt p) \<Rightarrow> p | _ \<Rightarrow> sg_Port g)\<rparr>
      | _ \<Rightarrow> g)"

definition parse_nodes :: "(string \<times> gov) list \<Rightarrow> string list" where
  "parse_nodes config =
     (case map_of config ''nodes'' of
        Some (GList xs) \<Rightarrow> List.map_filter (\<lambda>n. case n of GStr s \<Rightarrow> Some s | _ \<Rightarrow> None) xs
      | _ \<Rightarrow> [])"

definition static_Setup :: "(string \<times> gov) list option \<Rightarrow> static_config \<Rightarrow> static_err option \<times> static_config" where
  "static_Setup config0 g0 =
     (case config0 of
        None \<Rightarrow> (Some ConfigRequired, g0)
      | Some config \<Rightarrow>
          (let g1 = parse_ssh config g0;
               g2 = (if sg_Port g1 = 0 then g1\<lparr>sg_Port := 22\<rparr> else g1);
               g = g2\<lparr>sg_Binary := str_at config ''binary'' (sg_Binary g2), sg_Nodes := sg_Nodes g2 @ parse_nodes config\<rparr>
           in (if sg_Nodes g = [] then Some NodeRequired
               else if sg_KeyFile g = [] then Some KeyFileRequired
               else if sg_User g = [] then Some UserRequired else None, g)))"

section \<open>Hosts\<close>

definition static_Acquire :: "(nat \<Rightarrow> int) \<Rightarrow> static_config \<Rightarrow> int \<Rightarrow> (static_err + host list) option" where
  "static_Acquire now g n =
     (if n > int (length (sg_Nodes g)) then Some (Inl (TooManyHosts n (length (sg_Nodes g))))
      else if n < 0 then None
      else Some (Inr (map (\<lambda>i. \<lparr>ho_ID = ''static-'' @ utoa i, ho_Address = sg_Nodes g ! i, ho_Provider = ''static'', ho_Meta = [], ho_BornAt = now i\<rparr>)
        [0..<nat n])))"

definition static_Release :: "host list \<Rightarrow> string option" where
  "static_Release hosts = None"

section \<open>Connections\<close>

datatype run_end = RanOk | RanExit int | RanFailed string

record ('o, 'k) static_env =
  sn_readFile :: "string \<Rightarrow> 'o \<Rightarrow> string + string"
  sn_parseKey :: "string \<Rightarrow> string + 'k"
  sn_keyType :: "'k \<Rightarrow> string"
  sn_isEd25519 :: "'k \<Rightarrow> bool"
  sn_dial :: "string \<Rightarrow> string \<Rightarrow> 'k \<Rightarrow> 'o \<Rightarrow> (string + nat) \<times> 'o"
  sn_session :: "nat \<Rightarrow> 'o \<Rightarrow> string option \<times> 'o"
  sn_run :: "nat \<Rightarrow> string \<Rightarrow> string \<Rightarrow> 'o \<Rightarrow> (run_end \<times> string \<times> string) \<times> 'o"
  sn_close :: "nat \<Rightarrow> 'o \<Rightarrow> string option \<times> 'o"

record 'o provider_state =
  ps_world :: 'o
  ps_conns :: "(string \<times> nat) list"
  ps_dialled :: "(string \<times> nat) list"
  ps_closed :: "(string \<times> nat) list"

definition loadEd25519Key :: "('o, 'k) static_env \<Rightarrow> string \<Rightarrow> 'o \<Rightarrow> static_err + 'k" where
  "loadEd25519Key env path w =
     (case sn_readFile env path w of
        Inl e \<Rightarrow> Inl (ReadKey path e)
      | Inr d \<Rightarrow>
          (case sn_parseKey env d of
             Inl e \<Rightarrow> Inl (ParseKey path e)
           | Inr signer \<Rightarrow> if \<not> sn_isEd25519 env signer then Inl (NotEd25519 path (sn_keyType env signer)) else Inr signer))"

definition defaultDialSSH :: "('o, 'k) static_env \<Rightarrow> string \<Rightarrow> static_config \<Rightarrow> 'o \<Rightarrow> (static_err + nat) \<times> 'o" where
  "defaultDialSSH env address g w =
     (case loadEd25519Key env (sg_KeyFile g) w of
        Inl e \<Rightarrow> (Inl e, w)
      | Inr key \<Rightarrow>
          (let addr = address @ '':'' @ itoa (sg_Port g) in
           case sn_dial env addr (sg_User g) key w of
             (Inl e, w') \<Rightarrow> (Inl (DialError addr e), w')
           | (Inr client, w') \<Rightarrow> (Inr client, w')))"

definition getOrDial :: "('o, 'k) static_env \<Rightarrow> static_config \<Rightarrow> string \<Rightarrow> 'o provider_state \<Rightarrow> (static_err + nat) \<times> 'o provider_state" where
  "getOrDial env g address s =
     (case map_of (ps_conns s) address of
        Some client \<Rightarrow> (Inr client, s)
      | None \<Rightarrow>
          (case defaultDialSSH env address g (ps_world s) of
             (Inl e, w) \<Rightarrow> (Inl e, s\<lparr>ps_world := w\<rparr>)
           | (Inr client, w) \<Rightarrow>
               (Inr client, s\<lparr>ps_world := w, ps_conns := AList.update address client (ps_conns s),
                  ps_dialled := ps_dialled s @ [(address, client)]\<rparr>)))"

definition defaultRunCommand :: "('o, 'k) static_env \<Rightarrow> nat \<Rightarrow> string \<Rightarrow> 'o \<Rightarrow> (static_err + string \<times> string \<times> int) \<times> 'o" where
  "defaultRunCommand env client cmd w =
     (case sn_session env client w of
        (Some e, w') \<Rightarrow> (Inl (SessionError e), w')
      | (None, w') \<Rightarrow>
          (case sn_run env client cmd [] w' of
             ((r, stdout, stderr), w'') \<Rightarrow>
               (case r of
                  RanOk \<Rightarrow> Inr (stdout, stderr, 0)
                | RanExit n \<Rightarrow> Inr (stdout, stderr, n)
                | RanFailed e \<Rightarrow> Inl (RunError e), w'')))"

definition defaultScpFile :: "('o, 'k) static_env \<Rightarrow> nat \<Rightarrow> string \<Rightarrow> string \<Rightarrow> 'o \<Rightarrow> static_err option \<times> 'o" where
  "defaultScpFile env client localPath remotePath w =
     (case sn_session env client w of
        (Some e, w') \<Rightarrow> (Some (SessionError e), w')
      | (None, w') \<Rightarrow>
          (case sn_readFile env localPath w' of
             Inl e \<Rightarrow> (Some (ScpRead localPath e), w')
           | Inr d \<Rightarrow>
               (case sn_run env client (''cat > '' @ remotePath) d w' of
                  ((r, _, _), w'') \<Rightarrow>
                    (case r of RanOk \<Rightarrow> None | RanExit n \<Rightarrow> Some (ScpWrite remotePath (itoa n)) | RanFailed e \<Rightarrow> Some (ScpWrite remotePath e), w''))))"

fun push_loop :: "('o, 'k) static_env \<Rightarrow> string \<Rightarrow> nat \<Rightarrow> string list \<Rightarrow> 'o \<Rightarrow> static_err option \<times> 'o" where
  "push_loop env address client [] w = (None, w)"
| "push_loop env address client (artifact # artifacts) w =
     (case defaultScpFile env client artifact artifact w of
        (Some e, w') \<Rightarrow> (Some (PushArtifact artifact address e), w')
      | (None, w') \<Rightarrow> push_loop env address client artifacts w')"

definition static_Push :: "('o, 'k) static_env \<Rightarrow> static_config \<Rightarrow> host \<Rightarrow> string list \<Rightarrow> 'o provider_state \<Rightarrow> static_err option \<times> 'o provider_state" where
  "static_Push env g h artifacts s =
     (case getOrDial env g (ho_Address h) s of
        (Inl e, s1) \<Rightarrow> (Some (PushConnect (ho_Address h) e), s1)
      | (Inr client, s1) \<Rightarrow>
          (case push_loop env (ho_Address h) client artifacts (ps_world s1) of (r, w) \<Rightarrow> (r, s1\<lparr>ps_world := w\<rparr>)))"

definition static_Execute ::
    "('o, 'k) static_env \<Rightarrow> static_config \<Rightarrow> host \<Rightarrow> string \<Rightarrow> 'o provider_state \<Rightarrow> (static_err + string \<times> string \<times> int) \<times> 'o provider_state" where
  "static_Execute env g h cmd s =
     (case getOrDial env g (ho_Address h) s of
        (Inl e, s1) \<Rightarrow> (Inl (ConnectTo (ho_Address h) e), s1)
      | (Inr client, s1) \<Rightarrow>
          (case defaultRunCommand env client cmd (ps_world s1) of
             (Inl e, w) \<Rightarrow> (Inl (ExecuteOn (ho_Address h) e), s1\<lparr>ps_world := w\<rparr>)
           | (Inr r, w) \<Rightarrow> (Inr r, s1\<lparr>ps_world := w\<rparr>)))"

text \<open>The loop of Teardown over the connections, in the order of Go's iteration over the map.\<close>

fun close_loop :: "('o, 'k) static_env \<Rightarrow> (string \<times> nat) list \<Rightarrow> static_err option \<Rightarrow> 'o provider_state \<Rightarrow> static_err option \<times> 'o provider_state" where
  "close_loop env [] firstErr s = (firstErr, s)"
| "close_loop env ((addr, client) # cs) firstErr s =
     (case sn_close env client (ps_world s) of
        (e, w) \<Rightarrow>
          close_loop env cs (case (e, firstErr) of (Some x, None) \<Rightarrow> Some (CloseError addr x) | _ \<Rightarrow> firstErr)
            (s\<lparr>ps_world := w, ps_conns := AList.delete addr (ps_conns s), ps_closed := ps_closed s @ [(addr, client)]\<rparr>))"

definition static_Teardown :: "('o, 'k) static_env \<Rightarrow> 'o provider_state \<Rightarrow> static_err option \<times> 'o provider_state" where
  "static_Teardown env s = close_loop env (ps_conns s) None s"

section \<open>Laws\<close>

lemma Setup_valid: "static_Setup config g = (None, g') \<Longrightarrow> sg_Nodes g' \<noteq> [] \<and> sg_KeyFile g' \<noteq> [] \<and> sg_User g' \<noteq> [] \<and> sg_Port g' \<noteq> 0"
  by (auto simp: static_Setup_def Let_def split: option.splits if_splits)

text \<open>One connection for an address; what was dialled is held or closed.\<close>

definition conns_ok :: "'o provider_state \<Rightarrow> bool" where
  "conns_ok s \<longleftrightarrow> distinct (map fst (ps_conns s)) \<and> mset (ps_dialled s) = mset (ps_closed s) + mset (ps_conns s)"

lemma getOrDial_ok: "getOrDial env g a s = (r, s') \<Longrightarrow> conns_ok s \<Longrightarrow> conns_ok s'"
proof -
  have new: "map_of xs a = None \<Longrightarrow> AList.update a c xs = xs @ [(a, c)]" for xs and c :: nat
    by (induction xs) auto
  show "getOrDial env g a s = (r, s') \<Longrightarrow> conns_ok s \<Longrightarrow> conns_ok s'"
    by (auto simp: getOrDial_def conns_ok_def new map_of_eq_None_iff split: option.splits prod.splits sum.splits)
qed

lemma conns_ok_world [simp]: "conns_ok (s\<lparr>ps_world := w\<rparr>) = conns_ok s"
  by (simp add: conns_ok_def)

inductive provider_step :: "('o, 'k) static_env \<Rightarrow> static_config \<Rightarrow> 'o provider_state \<Rightarrow> 'o provider_state \<Rightarrow> bool" for env g where
  push_step: "provider_step env g s (snd (static_Push env g h artifacts s))"
| execute_step: "provider_step env g s (snd (static_Execute env g h cmd s))"
| teardown_step: "provider_step env g s (snd (static_Teardown env s))"

lemma close_loop_ok:
  "ps_conns s = cs \<Longrightarrow> conns_ok s \<Longrightarrow> conns_ok (snd (close_loop env cs e s)) \<and> ps_conns (snd (close_loop env cs e s)) = []"
proof (induction cs arbitrary: e s)
  case (Cons ac cs)
  obtain a c where ac: "ac = (a, c)" by fastforce
  obtain x w where x: "sn_close env c (ps_world s) = (x, w)" by fastforce
  let ?s = "s\<lparr>ps_world := w, ps_conns := AList.delete a (ps_conns s), ps_closed := ps_closed s @ [(a, c)]\<rparr>"
  have "AList.delete a (ps_conns s) = cs"
    using Cons.prems by (auto simp: ac conns_ok_def delete_id)
  with Cons.prems have "conns_ok ?s" "ps_conns ?s = cs" by (auto simp: ac conns_ok_def)
  with Cons.IH[of ?s] show ?case by (simp add: ac x)
qed simp

lemma provider_step_ok: "provider_step env g s s' \<Longrightarrow> conns_ok s \<Longrightarrow> conns_ok s'"
proof (induction rule: provider_step.induct)
  case (push_step s h artifacts)
  then show ?case by (auto simp: static_Push_def dest: getOrDial_ok split: prod.splits sum.splits)
next
  case (execute_step s h cmd)
  then show ?case by (auto simp: static_Execute_def dest: getOrDial_ok split: prod.splits sum.splits)
next
  case (teardown_step s)
  then show ?case using close_loop_ok by (auto simp: static_Teardown_def)
qed

text \<open>The connections of the static provider. However pushes, commands and teardowns follow each other, there is at most one connection for
  a host, the connections dialled are those closed and those held, and after a teardown all that were dialled have been closed.\<close>

theorem static_connections:
  assumes "(provider_step env g)\<^sup>*\<^sup>* \<lparr>ps_world = w, ps_conns = [], ps_dialled = [], ps_closed = []\<rparr> s"
  shows "distinct (map fst (ps_conns s)) \<and> mset (ps_dialled s) = mset (ps_closed s) + mset (ps_conns s)
    \<and> mset (ps_dialled (snd (static_Teardown env s))) = mset (ps_closed (snd (static_Teardown env s)))"
proof -
  have "conns_ok s"
    using assms by (induction rule: rtranclp_induct) (auto simp: conns_ok_def[of "\<lparr>ps_world = w, ps_conns = [], ps_dialled = [], ps_closed = []\<rparr>"] intro: provider_step_ok)
  with close_loop_ok[OF refl this, of env None] show ?thesis by (simp add: conns_ok_def static_Teardown_def)
qed

definition demo_static :: "(unit, string) static_env" where
  "demo_static = \<lparr>sn_readFile = (\<lambda>_ _. Inr ''key''), sn_parseKey = Inr, sn_keyType = id, sn_isEd25519 = (\<lambda>_. True),
     sn_dial = (\<lambda>_ _ _ w. (Inr 4, w)), sn_session = (\<lambda>_ w. (None, w)), sn_run = (\<lambda>_ _ _ w. ((RanOk, ''out'', []), w)), sn_close = (\<lambda>_ w. (None, w))\<rparr>"

theorem static_connections_witness:
  "\<exists>g h s. s = snd (static_Execute demo_static g h ''ls'' \<lparr>ps_world = (), ps_conns = [], ps_dialled = [], ps_closed = []\<rparr>)
     \<and> ps_dialled s = [(''a'', 4)] \<and> mset (ps_closed (snd (static_Teardown demo_static s))) = {#(''a'', 4)#}"
proof -
  let ?g = "\<lparr>sg_User = ''u'', sg_KeyFile = ''k'', sg_Port = 22, sg_Binary = [], sg_Nodes = [''a'']\<rparr>"
  let ?h = "\<lparr>ho_ID = ''static-0'', ho_Address = ''a'', ho_Provider = ''static'', ho_Meta = [], ho_BornAt = 0\<rparr>"
  let ?s = "snd (static_Execute demo_static ?g ?h ''ls'' \<lparr>ps_world = (), ps_conns = [], ps_dialled = [], ps_closed = []\<rparr>)"
  have d: "ps_dialled ?s = [(''a'', 4)]" "ps_dialled (snd (static_Teardown demo_static ?s)) = [(''a'', 4)]"
    by (simp_all add: static_Execute_def getOrDial_def defaultDialSSH_def loadEd25519Key_def defaultRunCommand_def demo_static_def Let_def static_Teardown_def)
  have "(provider_step demo_static ?g)\<^sup>*\<^sup>* \<lparr>ps_world = (), ps_conns = [], ps_dialled = [], ps_closed = []\<rparr> ?s"
    using execute_step by (rule r_into_rtranclp)
  from static_connections[OF this] d show ?thesis by (metis mset.simps)
qed

end
