(* ===== verification/Main_Program.thy ===== *)
theory Main_Program
  imports Reporters Config Expr_Builtins Telemetry
begin

text \<open>
  cmd/scrutineer: the commands of the program, from the arguments to the exit code, with what they print and the telemetry log they
  leave. Files, the five connectors, the clock and the order of concurrent work are in the environment. The world of the
  connectors is any type. \<^const>\<open>Inl\<close> is a panic, with which the process ends, and \<^const>\<open>None\<close> a run that does not end. What goes to
  standard error is left out; json.Marshal is not modelled: of a JSON report the reporter's entries are kept.
\<close>

section \<open>The environment and the outcome\<close>

record ('w, 'x) main_env =
  mn_classes :: unicode_classes
  mn_ReadFile :: "string \<Rightarrow> string + string"
  mn_Create :: "string \<Rightarrow> string option"
  mn_cli :: "unit \<Rightarrow> 'w connector"
  mn_http :: "unit \<Rightarrow> 'w connector"
  mn_ssh :: "unit \<Rightarrow> 'w connector"
  mn_grpc :: "unit \<Rightarrow> 'w connector"
  mn_browser :: "unit \<Rightarrow> 'w connector"
  mn_outside :: "'w outside"
  mn_engine :: "('w, 'x) engine"
  mn_order :: "nat \<Rightarrow> nat list"
  mn_world :: 'w
  mn_colors :: bool
  mn_error_text :: "step_error \<Rightarrow> string"
  mn_elapsed :: "happening \<Rightarrow> int"
  mn_NowNano :: "nat \<Rightarrow> 64 word"
  mn_Format :: "64 word \<Rightarrow> string"

datatype printed = Text string | Json json_reporter

record run_output =
  ro_Code :: int
  ro_Results :: "suite_result list"
  ro_Printed :: printed
  ro_Events :: "(tel_event \<times> (string \<times> string) list) list"
  ro_Coverage :: "tracker option"
  ro_Log :: "string option"

definition exit_ConfigError :: int where "exit_ConfigError = 3"
definition exit_InternalError :: int where "exit_InternalError = 4"

definition stopped :: "int \<Rightarrow> run_output" where
  "stopped code = \<lparr>ro_Code = code, ro_Results = [], ro_Printed = Text [], ro_Events = [], ro_Coverage = None, ro_Log = None\<rparr>"

section \<open>The parts of a run\<close>

definition registerConnectors :: "('w, 'x) main_env \<Rightarrow> (unit \<Rightarrow> 'w connector) reg \<Rightarrow> (unit \<Rightarrow> 'w connector) reg" where
  "registerConnectors env r0 = fold (\<lambda>(name, f) r. snd (connector_Register r name f))
     [(''cli'', mn_cli env), (''http'', mn_http env), (''ssh'', mn_ssh env), (''grpc'', mn_grpc env), (''browser'', mn_browser env)] r0"

datatype suite_error = ReadingSuite string string | ParsingSuite string schema_error

fun loadSuites :: "unicode_classes \<Rightarrow> (string \<Rightarrow> string + string) \<Rightarrow> string list \<Rightarrow> (suite_error + test_suite list) option" where
  "loadSuites uc readFile [] = Some (Inr [])"
| "loadSuites uc readFile (path # paths) =
     (case readFile path of
        Inl e \<Rightarrow> Some (Inl (ReadingSuite path e))
      | Inr data \<Rightarrow>
          (case ParseSuite uc data of
             None \<Rightarrow> None
           | Some (Inl e) \<Rightarrow> Some (Inl (ParsingSuite path e))
           | Some (Inr suite) \<Rightarrow> map_option (map_sum id (\<lambda>suites. suite # suites)) (loadSuites uc readFile paths)))"

text \<open>What the reporter that the configuration names has gathered from the engine's events, flushed.\<close>

definition buildReporter :: "('w, 'x) main_env \<Rightarrow> config \<Rightarrow> happening list \<Rightarrow> printed" where
  "buildReporter env cfg hs =
     (if \<exists>rc \<in> set (cf_Reporters cfg). rc_Type rc = ''json''
      then Json (fold (json_report (mn_error_text env) (mn_elapsed env)) hs NewJSONReporter)
      else Text (fold (ansi_report (mn_colors env) (mn_error_text env) (mn_elapsed env)) hs []))"

text \<open>The telemetry events of a run, the records they become and the file they make: the \<open>n\<close>-th record carries the time \<open>mn_NowNano env n\<close>,
  the header the first.\<close>

fun event_type :: "tel_event \<Rightarrow> 16 word" where
  "event_type SuiteStart = 0x01"
| "event_type SuiteEnd = 0x02"
| "event_type TestStart = 0x03"
| "event_type TestPass = 0x04"
| "event_type TestFail = 0x05"
| "event_type TestSkip = 0x06"
| "event_type StepStart = 0x07"
| "event_type StepEnd = 0x08"
| "event_type Assertion = 0x09"
| "event_type Error = 0x0C"
| "event_type ConnectorSetup = 0x0D"
| "event_type ConnectorTeardown = 0x0E"
| "event_type InteractionStart = 0x10"
| "event_type InteractionEnd = 0x11"

fun tel_of :: "happening \<Rightarrow> (tel_event \<times> (string \<times> string) list) option" where
  "tel_of (Telemetry e tags) = Some (e, tags)"
| "tel_of _ = None"

definition record_of :: "('w, 'x) main_env \<Rightarrow> nat \<Rightarrow> tel_event \<times> (string \<times> string) list \<Rightarrow> rec" where
  "record_of env n ev = \<lparr>rec_Timestamp = mn_NowNano env n, rec_EventType = event_type (fst ev), rec_Tags = snd ev, rec_Detail = []\<rparr>"

definition records_of :: "('w, 'x) main_env \<Rightarrow> (tel_event \<times> (string \<times> string) list) list \<Rightarrow> rec list" where
  "records_of env evs = map (\<lambda>(n, ev). record_of env n ev) (enumerate 0 evs)"

definition openTelemetryWriter :: "('w, 'x) main_env \<Rightarrow> string \<Rightarrow> string + tlv_writer" where
  "openTelemetryWriter env path = (case mn_Create env path of Some e \<Rightarrow> Inl e | None \<Rightarrow> Inr NewWriter)"

text \<open>What the writer has put into its file when the run is over and the deferred \<open>Close\<close> has been called.\<close>

definition telemetry_log :: "('w, 'x) main_env \<Rightarrow> tlv_writer \<Rightarrow> (tel_event \<times> (string \<times> string) list) list \<Rightarrow> string" where
  "telemetry_log env tw evs = tw_out (Writer_Close (write_all (mn_NowNano env 0) (records_of env evs) tw))"

definition DefaultRegistry :: "'w outside \<Rightarrow> 'w efunc reg" where
  "DefaultRegistry ou = registerBuiltins ou NewRegistry"

text \<open>\<open>engine.New\<close> with the options of \<open>cmdRun\<close>; the fleet registry is a new one.\<close>

definition build_engine :: "('w, 'x) main_env \<Rightarrow> (unit \<Rightarrow> 'w connector) reg \<Rightarrow> config \<Rightarrow> tlv_writer option \<Rightarrow> ('w, 'x) engine" where
  "build_engine env conns cfg telWriter = (mn_engine env)
     \<lparr>eg_runner := (eg_runner (mn_engine env))\<lparr>rn_registry := conns, rn_telemetry := telWriter \<noteq> None, rn_classes := mn_classes env\<rparr>,
      eg_parallelism := cf_Parallelism cfg,
      eg_connectorConfigs := Some (cf_Connectors cfg),
      eg_exprRegistry := Some (DefaultRegistry (mn_outside env)),
      eg_fleetRegistry := Some NewRegistry\<rparr>"

definition start_state :: "('w, 'x) main_env \<Rightarrow> 'w run_state" where
  "start_state env = \<lparr>rs_world = mn_world env, rs_store = NewStore [], rs_coverage = Some NewTracker, rs_log = []\<rparr>"

definition coverage_failed :: "f64 \<Rightarrow> tracker option \<Rightarrow> bool" where
  "coverage_failed threshold tr = (f64_lt (Fin 0) threshold \<and> (case tr of None \<Rightarrow> False | Some t \<Rightarrow> gate_Check threshold t \<noteq> None))"

section \<open>The command run\<close>

text \<open>\<open>config.Load\<close> of the directory the program is run in, and the choice between it and the file of the flags.\<close>

definition configFileName :: string where "configFileName = ''scrutineer.yaml''"

definition Load :: "('w, 'x) main_env \<Rightarrow> (load_error + config) option" where
  "Load env = LoadFromFile (mn_classes env) (mn_ReadFile env) configFileName"

definition load_config :: "('w, 'x) main_env \<Rightarrow> flags \<Rightarrow> (load_error + config) option" where
  "load_config env fl =
     (if fl_ConfigFile fl \<noteq> [] then LoadFromFile (mn_classes env) (mn_ReadFile env) (fl_ConfigFile fl) else Load env)"

definition run_engine ::
  "('w, 'x) main_env \<Rightarrow> (unit \<Rightarrow> 'w connector) reg \<Rightarrow> config \<Rightarrow> tlv_writer option \<Rightarrow> test_suite list \<Rightarrow> (string + run_output) option" where
  "run_engine env conns cfg telWriter suites =
     (case Engine_Run (build_engine env conns cfg telWriter) (mn_order env (length suites)) suites (start_state env) of
        None \<Rightarrow> None
      | Some (Inl msg, s) \<Rightarrow> Some (Inl msg)
      | Some (Inr rs, s) \<Rightarrow>
          (let results = map the rs; code = ExitCode results; evs = List.map_filter tel_of (rs_log s) in
           Some (Inr \<lparr>ro_Code = (if coverage_failed (cc_Threshold (cf_Coverage cfg)) (rs_coverage s) \<and> code = exit_OK then exit_TestFailure else code),
             ro_Results = results,
             ro_Printed = buildReporter env cfg (rs_log s),
             ro_Events = evs, ro_Coverage = rs_coverage s,
             ro_Log = map_option (\<lambda>tw. telemetry_log env tw evs) telWriter\<rparr>)))"

definition cmdRun :: "('w, 'x) main_env \<Rightarrow> (unit \<Rightarrow> 'w connector) reg \<Rightarrow> string list \<Rightarrow> (string + run_output) option" where
  "cmdRun env conns args =
     (case ParseFlags args of
        Inl e \<Rightarrow> Some (Inr (stopped exit_ConfigError))
      | Inr fl \<Rightarrow>
          (case load_config env fl of
             None \<Rightarrow> None
           | Some (Inl e) \<Rightarrow> Some (Inr (stopped exit_ConfigError))
           | Some (Inr cfg0) \<Rightarrow>
               (let cfg = Merge cfg0 fl in
                case loadSuites (mn_classes env) (mn_ReadFile env) (cf_Tests cfg) of
                  None \<Rightarrow> None
                | Some (Inl e) \<Rightarrow> Some (Inr (stopped exit_ConfigError))
                | Some (Inr suites) \<Rightarrow>
                    if suites = [] then Some (Inr (stopped exit_ConfigError))
                    else if te_Enabled (cf_Telemetry cfg) then
                      (case openTelemetryWriter env (te_Output (cf_Telemetry cfg)) of
                         Inl e \<Rightarrow> Some (Inr (stopped exit_InternalError))
                       | Inr telWriter \<Rightarrow> run_engine env conns cfg (Some telWriter) suites)
                    else run_engine env conns cfg None suites)))"

section \<open>The command log-dump\<close>

definition printRecord :: "('w, 'x) main_env \<Rightarrow> rec \<Rightarrow> string" where
  "printRecord env r =
     ''['' @ mn_Format env (rec_Timestamp r) @ ''] '' @ EventType_String (rec_EventType r)
     @ concat (map (\<lambda>(k, v). '' '' @ k @ ''='' @ v) (rec_Tags r))
     @ (if rec_Detail r \<noteq> [] then '' '' @ rec_Detail r else []) @ newline"

lemma with_read_step:
  assumes "with_read n er r k = (Inr x, r')"
  shows "\<exists>a b. k a b = (Inr x, r') \<and> length b + n = length r"
proof (cases "n \<le> length r")
  case True
  then have "k (take n r) (drop n r) = (Inr x, r')" using assms by (simp add: with_read_enough)
  with True show ?thesis by (intro exI[of _ "take n r"] exI[of _ "drop n r"]) simp
next
  case False
  then show ?thesis using assms by (simp add: with_read_def read_full_def split: if_splits)
qed

lemma DecodeRecord_shorter: "DecodeRecord r = (Inr x, r') \<Longrightarrow> length r' < length r"
  by (auto simp: DecodeRecord_def Let_def dest!: with_read_step split: if_splits sum.splits)

lemma ReadHeader_shorter: "ReadHeader r = (Inr h, r') \<Longrightarrow> length r' < length r"
  by (auto simp: ReadHeader_def Let_def dest!: with_read_step split: if_splits)

lemma Reader_Next_shorter: "Reader_Next tr = (Inr r, tr') \<Longrightarrow> length (tr_rest tr') < length (tr_rest tr)"
  by (fastforce simp: Reader_Next_def dest: DecodeRecord_shorter ReadHeader_shorter split: if_splits prod.splits sum.splits)

function dump_records :: "('w, 'x) main_env \<Rightarrow> tlv_reader \<Rightarrow> string \<Rightarrow> tlv_error option \<times> string" where
  "dump_records env tr out =
     (case Reader_Next tr of
        (Inl e, tr') \<Rightarrow> (if e = ErrEOF then None else Some e, out)
      | (Inr r, tr') \<Rightarrow> dump_records env tr' (out @ printRecord env r))"
  by auto
termination
  by (relation "measure (\<lambda>(env, tr, out). length (tr_rest tr))") (auto dest: Reader_Next_shorter[OF sym])

declare dump_records.simps [simp del]

definition cmdLogDump :: "('w, 'x) main_env \<Rightarrow> string list \<Rightarrow> int \<times> string" where
  "cmdLogDump env args =
     (case args of
        [] \<Rightarrow> (exit_ConfigError, [])
      | path # rest \<Rightarrow>
          (case mn_ReadFile env path of
             Inl e \<Rightarrow> (exit_ConfigError, [])
           | Inr data \<Rightarrow>
               (case dump_records env (NewReader data) [] of
                  (None, out) \<Rightarrow> (exit_OK, out)
                | (Some e, out) \<Rightarrow> (exit_InternalError, out))))"

section \<open>The other commands\<close>

definition out_lines :: "string list \<Rightarrow> string" where
  "out_lines ls = concat (map (\<lambda>l. l @ newline) ls)"

definition browsersUsage :: string where
  "browsersUsage = out_lines [''Usage: scrutineer browsers <command>'', [], ''Commands:'',
     ''  install    Download browser binaries (Chromium, Firefox, WebKit)'',
     ''  list       List installed browsers'',
     ''  help       Show this help'']"

definition cmdBrowsersInstall :: "string list \<Rightarrow> int \<times> string" where
  "cmdBrowsersInstall args = (exit_OK, out_lines [''Browser installation not yet implemented (Phase 7)'',
     ''This will download Playwright'' @ [CHR 0x27] @ ''s patched Chromium, Firefox, and WebKit builds.''])"

definition cmdBrowsersList :: "int \<times> string" where
  "cmdBrowsersList = (exit_OK, out_lines [''Browser listing not yet implemented (Phase 7)''])"

definition cmdBrowsers :: "string list \<Rightarrow> int \<times> string" where
  "cmdBrowsers args =
     (case args of
        [] \<Rightarrow> (exit_ConfigError, browsersUsage)
      | a # rest \<Rightarrow>
          if a = ''install'' then cmdBrowsersInstall rest
          else if a = ''list'' then cmdBrowsersList
          else if a = ''help'' \<or> a = ''--help'' \<or> a = ''-h'' then (exit_OK, browsersUsage)
          else (exit_ConfigError, browsersUsage))"

definition usage :: string where
  "usage = out_lines [''scrutineer '' @ map char_of [0xE2, 0x80, 0x94 :: nat] @ '' extensible test framework'', [],
     ''Usage:'', ''  scrutineer <command> [options]'', [], ''Commands:'',
     ''  run              Run tests from scrutineer.yaml manifest'',
     ''  log-dump <file>  Dump binary telemetry log to stdout'',
     ''  browsers         Manage browser installations'',
     ''  version          Print version information'',
     ''  help             Show this help'', [], ''Run Options:'',
     ''  --config <file>      Config file (default: scrutineer.yaml)'',
     ''  --parallelism <n>    Number of parallel tests'',
     ''  --timeout <dur>      Default test timeout'',
     ''  --format <type>      Output format: ansi, json'',
     ''  --verbose            Verbose output'',
     ''  --tags <tags>        Filter tests by tags (comma-separated)'']"

definition version :: string where "version = ''0.0.1-dev''"

text \<open>\<open>main\<close> with the arguments after the program's name: the exit code and what is printed.\<close>

definition main_program :: "('w, 'x) main_env \<Rightarrow> string list \<Rightarrow> (string + int \<times> printed) option" where
  "main_program env args =
     (let conns = registerConnectors env NewRegistry;
          plain = (\<lambda>(code, out). Some (Inr (code, Text out)))
      in case args of
           [] \<Rightarrow> plain (exit_OK, usage)
         | cmd # rest \<Rightarrow>
             if cmd = ''run'' then map_option (map_sum id (\<lambda>ro. (ro_Code ro, ro_Printed ro))) (cmdRun env conns rest)
             else if cmd = ''log-dump'' then plain (cmdLogDump env rest)
             else if cmd = ''browsers'' then plain (cmdBrowsers rest)
             else if cmd = ''version'' then plain (exit_OK, ''scrutineer '' @ version @ newline)
             else if cmd = ''help'' \<or> cmd = ''--help'' \<or> cmd = ''-h'' then plain (exit_OK, usage)
             else plain (exit_ConfigError, usage))"

section \<open>Exit codes\<close>

lemma run_engine_code:
  assumes "run_engine env conns cfg telWriter suites = Some (Inr ro)"
  shows "ro_Code ro \<in> {0, 1}"
proof -
  have "ExitCode rs \<noteq> 1 \<Longrightarrow> ExitCode rs = 0" for rs
    by (cases "\<exists>sr \<in> set rs. sur_Failed sr > 0") (simp_all add: ExitCode_def exit_OK_def exit_TestFailure_def)
  then show ?thesis using assms
    by (auto simp: run_engine_def Let_def exit_TestFailure_def split: option.splits prod.splits sum.splits)
qed

lemma run_engine_verdict:
  assumes "run_engine env conns cfg telWriter suites = Some (Inr ro)" "mset (mn_order env (length suites)) = mset [0..<length suites]"
  shows "length (ro_Results ro) = length suites"
    and "\<forall>i < length suites. fair_verdict (suites ! i) (ro_Results ro ! i)
          \<and> (\<exists>t t'. runSuite (build_engine env conns cfg telWriter) (suites ! i) t = Some (Inr (ro_Results ro ! i), t'))"
    and "ro_Code ro = 0 \<longleftrightarrow> list_all (\<lambda>sr. list_all rt_Passed (sur_Results sr)) (ro_Results ro)
      \<and> \<not> coverage_failed (cc_Threshold (cf_Coverage cfg)) (ro_Coverage ro)"
proof -
  obtain rs s where r: "Engine_Run (build_engine env conns cfg telWriter) (mn_order env (length suites)) suites (start_state env) = Some (Inr rs, s)"
    and ro: "ro_Results ro = map the rs" "ro_Coverage ro = rs_coverage s"
      "ro_Code ro = (if coverage_failed (cc_Threshold (cf_Coverage cfg)) (rs_coverage s) \<and> ExitCode (map the rs) = exit_OK
        then exit_TestFailure else ExitCode (map the rs))"
    using assms(1) by (auto simp: run_engine_def Let_def split: option.splits prod.splits sum.splits)
  note each = Engine_Run_each[OF r assms(2)]
  show "length (ro_Results ro) = length suites" using each(1) ro by simp
  show "\<forall>i < length suites. fair_verdict (suites ! i) (ro_Results ro ! i)
          \<and> (\<exists>t t'. runSuite (build_engine env conns cfg telWriter) (suites ! i) t = Some (Inr (ro_Results ro ! i), t'))"
    using each ro(1) runSuite_verdict by (metis nth_map option.sel)
  have "\<exists>sr. r = Some sr" if "r \<in> set rs" for r using each that by (metis in_set_conv_nth)
  then have "(\<forall>sr. Some sr \<in> set rs \<longrightarrow> list_all rt_Passed (sur_Results sr)) \<longleftrightarrow> list_all (\<lambda>sr. list_all rt_Passed (sur_Results sr)) (map the rs)"
    by (auto simp: list_all_iff) force
  with run_verdict[OF r assms(2)] r ro show "ro_Code ro = 0 \<longleftrightarrow> list_all (\<lambda>sr. list_all rt_Passed (sur_Results sr)) (ro_Results ro)
      \<and> \<not> coverage_failed (cc_Threshold (cf_Coverage cfg)) (ro_Coverage ro)"
    by (auto simp: exit_OK_def exit_TestFailure_def)
qed

text \<open>What \<open>cmdRun\<close> does when it gets to the engine.\<close>

definition gets_to :: "('w, 'x) main_env \<Rightarrow> string list \<Rightarrow> config \<Rightarrow> tlv_writer option \<Rightarrow> test_suite list \<Rightarrow> bool" where
  "gets_to env args cfg telWriter suites \<longleftrightarrow> (\<exists>fl cfg0. ParseFlags args = Inr fl \<and> load_config env fl = Some (Inr cfg0) \<and> cfg = Merge cfg0 fl
     \<and> loadSuites (mn_classes env) (mn_ReadFile env) (cf_Tests cfg) = Some (Inr suites) \<and> suites \<noteq> []
     \<and> (if te_Enabled (cf_Telemetry cfg) then (\<exists>tw. openTelemetryWriter env (te_Output (cf_Telemetry cfg)) = Inr tw \<and> telWriter = Some tw)
        else telWriter = None))"

lemma cmdRun_cases:
  assumes "cmdRun env conns args = Some (Inr ro)"
  obtains (stopped) c where "ro = stopped c" "c = exit_ConfigError \<or> c = exit_InternalError" "\<nexists>cfg telWriter suites. gets_to env args cfg telWriter suites"
  | (ran) cfg telWriter suites where "gets_to env args cfg telWriter suites" "run_engine env conns cfg telWriter suites = Some (Inr ro)"
  using assms unfolding cmdRun_def gets_to_def Let_def
  by (auto split: sum.splits option.splits if_splits)

lemma gets_to_unique:
  "gets_to env args cfg telWriter suites \<Longrightarrow> gets_to env args cfg' telWriter' suites' \<Longrightarrow> cfg' = cfg \<and> telWriter' = telWriter \<and> suites' = suites"
  by (auto simp: gets_to_def split: if_splits)

text \<open>C1: what the exit code of \<open>scrutineer run\<close> says. When the command ends, its exit code is 0 exactly if the flags, the configuration and every
  suite it names could be read, the telemetry log could be created, every suite has a result whose totals are those of its tests, every
  test that was run passed, and the coverage gate is passed if there is one; otherwise it is 1, 3 or 4.\<close>

theorem cmdRun_verdict:
  assumes "cmdRun env conns args = Some (Inr ro)" "\<And>n. mset (mn_order env n) = mset [0..<n]"
  shows "ro_Code ro \<in> {0, 1, 3, 4}
    \<and> (ro_Code ro = 0 \<longleftrightarrow> (\<exists>cfg telWriter suites. gets_to env args cfg telWriter suites
        \<and> list_all2 (\<lambda>suite sr. fair_verdict suite sr \<and> list_all rt_Passed (sur_Results sr)) suites (ro_Results ro)
        \<and> \<not> coverage_failed (cc_Threshold (cf_Coverage cfg)) (ro_Coverage ro)))"
  using assms(1)
proof (cases rule: cmdRun_cases)
  case (stopped c)
  then show ?thesis by (auto simp: stopped_def exit_ConfigError_def exit_InternalError_def)
next
  case (ran cfg telWriter suites)
  note v = run_engine_verdict[OF ran(2) assms(2)]
  have "ro_Code ro \<in> {0, 1}"
    by (rule run_engine_code[OF ran(2)])
  moreover have "list_all2 (\<lambda>suite sr. fair_verdict suite sr \<and> list_all rt_Passed (sur_Results sr)) suites (ro_Results ro)
      \<longleftrightarrow> list_all (\<lambda>sr. list_all rt_Passed (sur_Results sr)) (ro_Results ro)"
    using v(1,2) by (auto simp: list_all2_conv_all_nth list_all_length)
  ultimately show ?thesis
    using v(3) ran(1) gets_to_unique[OF ran(1)] by blast
qed

section \<open>Fleets\<close>

lemma runSuite_fleet:
  assumes "eg_fleetRegistry e = Some NewRegistry" "ex_Fleet (execution_of suite) = Some fc" "fc_Providers fc \<noteq> []"
    "runSuite e suite s = Some (Inr sr, s')"
  shows "sr = fleet_failure suite"
proof -
  obtain fp fps where fps: "fc_Providers fc = fp # fps" using assms(3) by (cases "fc_Providers fc") auto
  have f: "Fleet.Setup (eg_fleet_env e) (NewOrchestrator NewRegistry fc) = (Some (ErrNotRegistered (fp_Provider fp)), NewOrchestrator NewRegistry fc)"
    by (simp add: Fleet.Setup_def NewOrchestrator_def fps fleet_Get_def NewRegistry_def)
  have "su_Execution suite \<noteq> None" using assms(2) by (auto simp: execution_of_def split: option.splits)
  then show ?thesis using assms(1,2,4) f by (auto simp: runSuite_def runSuiteWithExecution_def Let_def)
qed

text \<open>C21: no suite with a fleet can pass. A run over suites of which one has an execution that asks for a fleet of at least one provider
  exits with 1, and the suite's result is the failed set-up of its fleet: the registry of providers is always empty, since the program
  registers none.\<close>

theorem fleet_runs_fail:
  assumes "run_engine env conns cfg telWriter suites = Some (Inr ro)" "mset (mn_order env (length suites)) = mset [0..<length suites]"
    "suite \<in> set suites" "ex_Fleet (execution_of suite) = Some fc" "fc_Providers fc \<noteq> []"
  shows "ro_Code ro = 1 \<and> fleet_failure suite \<in> set (ro_Results ro)"
proof -
  note v = run_engine_verdict[OF assms(1,2)]
  obtain i where i: "i < length suites" "suites ! i = suite" using assms(3) by (auto simp: in_set_conv_nth)
  have "eg_fleetRegistry (build_engine env conns cfg telWriter) = Some NewRegistry" by (simp add: build_engine_def)
  with v(2) i runSuite_fleet assms(4,5) have "ro_Results ro ! i = fleet_failure suite" by metis
  with v(1) i have m: "fleet_failure suite \<in> set (ro_Results ro)" by (metis nth_mem)
  then have "ro_Code ro \<noteq> 0" using v(3) by (force simp: list_all_iff fleet_failure_def)
  with run_engine_code[OF assms(1)] m show ?thesis by blast
qed

section \<open>The log of a run\<close>

lemma dump_next_all:
  "next_all n tr = (rs, Some e) \<Longrightarrow> dump_records env tr out = (if e = ErrEOF then None else Some e, out @ concat (map (printRecord env) rs))"
proof (induction n arbitrary: tr rs out)
  case (Suc n)
  then show ?case
    by (subst dump_records.simps) (auto split: prod.splits sum.splits)
qed simp

text \<open>What is in the log of a run stays in it.\<close>

lemma log_kept [simp]:
  "h \<in> set (rs_log s) \<Longrightarrow> h \<in> set (rs_log (logged k s))"
  "h \<in> set (rs_log s) \<Longrightarrow> h \<in> set (rs_log (on_coverage f s))"
  "h \<in> set (rs_log s) \<Longrightarrow> h \<in> set (rs_log (emitTelemetry rr ev cx x s))"
  "h \<in> set (rs_log s) \<Longrightarrow> h \<in> set (rs_log (record_event rr ev tags s))"
  "h \<in> set (rs_log s) \<Longrightarrow> h \<in> set (rs_log (NewTestContext e suite s))"
  by (simp_all add: logged_def on_coverage_def emitTelemetry_def record_event_def NewTestContext_def)

lemma log_capture_loop: "h \<in> set (rs_log s) \<Longrightarrow> h \<in> set (rs_log (snd (capture_loop rr cx name data cs s)))"
  by (induction rr cx name data cs s rule: capture_loop.induct) (simp_all split: sum.split)

lemma log_assert_loop: "h \<in> set (rs_log s) \<Longrightarrow> h \<in> set (rs_log (snd (assert_loop rr cx name data cs s)))"
  by (induction rr cx name data cs s rule: assert_loop.induct) (simp_all split: sum.split option.split)

lemma log_step_body: "h \<in> set (rs_log s) \<Longrightarrow> h \<in> set (rs_log (snd (step_body rr cx step name conn s)))"
proof -
  assume h: "h \<in> set (rs_log s)"
  have c: "capture_loop rr cx name data cs t = (x, u) \<Longrightarrow> h \<in> set (rs_log t) \<Longrightarrow> h \<in> set (rs_log u)" for data cs t x u
    using log_capture_loop[of h t rr cx name data cs] by simp
  have a: "assert_loop rr cx name data cs t = (x, u) \<Longrightarrow> h \<in> set (rs_log t) \<Longrightarrow> h \<in> set (rs_log u)" for data cs t x u
    using log_assert_loop[of h t rr cx name data cs] by simp
  from h show ?thesis
    by (auto simp: step_body_def Let_def split: prod.split sum.split option.split dest!: c dest: a)
qed

lemma log_runStep: "runStep rr cx step i config s = (r, s') \<Longrightarrow> h \<in> set (rs_log s) \<Longrightarrow> h \<in> set (rs_log s')"
proof -
  have b: "step_body rr cx step name conn t = (x, u) \<Longrightarrow> h \<in> set (rs_log t) \<Longrightarrow> h \<in> set (rs_log u)" for name conn t x u
    using log_step_body[of h t rr cx step name conn] by simp
  show "runStep rr cx step i config s = (r, s') \<Longrightarrow> h \<in> set (rs_log s) \<Longrightarrow> h \<in> set (rs_log s')"
    by (auto simp: runStep_def Let_def split: if_splits option.splits prod.splits dest!: b)
qed

lemma log_step_loop: "step_loop rr cx test config i steps s = (r, s') \<Longrightarrow> h \<in> set (rs_log s) \<Longrightarrow> h \<in> set (rs_log s')"
  by (induction steps arbitrary: i s r)
    (force simp: Let_def split: option.splits prod.splits sum.splits if_splits dest!: log_runStep)+

lemma log_run_one: "run_one e rr suite test st = (p, st') \<Longrightarrow> h \<in> set (rs_log (fst st)) \<Longrightarrow> h \<in> set (rs_log (fst st'))"
  by (auto simp: run_one_def RunTest_def Let_def split: prod.splits sum.splits dest!: log_step_loop[where h = h])

interpretation log_keeps: suite_invariant "\<lambda>st. h \<in> set (rs_log (fst st))" e for h e
  by unfold_locales (auto intro: log_run_one)

lemma log_finish_suite: "finish_suite e suite (p, st) = (r, s') \<Longrightarrow> h \<in> set (rs_log (fst st)) \<Longrightarrow> h \<in> set (rs_log s')"
  by (cases st) (auto simp: finish_suite_def end_suite_def Let_def split: option.splits)

text \<open>A suite that is run with telemetry logs its start, and a run keeps what its suites have logged.\<close>

lemma runSuite_log:
  assumes "runSuite e suite s = Some (r, s')"
    and h: "h \<in> set (rs_log s) \<or> h = Telemetry SuiteStart [(''suite'', su_Suite suite)] \<and> rn_telemetry (eg_runner e)"
  shows "h \<in> set (rs_log s')"
proof -
  have start: "h \<in> set (rs_log (fst (start_suite e suite n s, new_result suite)))" for n
    using h by (auto simp: start_suite_def record_event_def logged_def)
  show ?thesis
  proof (cases "su_Execution suite = None \<and> su_Interactions suite = []")
    case True
    then have f: "runSuiteSimple e suite s = (r, s')" using assms(1) by (simp add: runSuite_def)
    let ?st = "(on_coverage (register_coverage suite) (start_suite e suite (length (su_Tests suite)) s), new_result suite)"
    obtain p st where l: "simple_loop e suite (su_Tests suite) ?st = (p, st)"
      by (cases "simple_loop e suite (su_Tests suite) ?st")
    have "h \<in> set (rs_log (fst st))" using log_keeps.simple_loop_keeps[OF l log_keeps.coverage_keeps[OF start]] .
    with f l show ?thesis by (simp add: runSuiteSimple_def log_finish_suite)
  next
    case False
    obtain orch where x: "runSuiteWithExecution e suite s = Some (r, s', orch)"
      using False assms(1) by (auto simp: runSuite_def)
    let ?n = "sum_list (map (\<lambda>i. length (in_Tests i)) (interactions_of suite))"
    consider o' p st where "run_passes e o' suite (start_suite e suite ?n s, new_result suite) = Some (p, st)"
        "finish_suite e suite (p, st) = (r, s')"
      | "s' = logged (OnSuiteEnd (su_Suite suite) 0 1 0) (logged (OnSuiteStart (su_Suite suite) (int ?n)) (start_suite e suite ?n s))"
      using x unfolding runSuiteWithExecution_def Let_def by (auto split: option.splits prod.splits)
    then show ?thesis
    proof cases
      case 1
      show ?thesis by (rule log_finish_suite[OF 1(2) log_keeps.run_passes_keeps[OF 1(1) start]])
    next
      case 2
      then show ?thesis using start[of ?n] by simp
    qed
  qed
qed

lemma run_suites_log: "run_suites e suites is results s = Some (r, s') \<Longrightarrow> h \<in> set (rs_log s) \<Longrightarrow> h \<in> set (rs_log s')"
  by (induction "is" arbitrary: results s) (auto split: option.splits sum.splits dest: runSuite_log)

lemma Engine_Run_starts:
  assumes "Engine_Run e order suites s = Some (Inr rs, s')" "eg_parallelism e \<le> 1" "suites \<noteq> []" "rn_telemetry (eg_runner e)"
  shows "Telemetry SuiteStart [(''suite'', su_Suite (hd suites))] \<in> set (rs_log s')"
proof -
  obtain i "is" where ix: "[0..<length suites] = i # is" "i = 0" using assms(3) by (cases suites) (auto simp: upt_rec)
  obtain q s1 where q: "runSuite e (suites ! 0) s = Some (q, s1)"
    using assms(1,2) by (auto simp: Engine_Run_def ix split: option.splits)
  have "Telemetry SuiteStart [(''suite'', su_Suite (hd suites))] \<in> set (rs_log s1)"
    using assms(3,4) by (intro runSuite_log[OF q]) (simp add: hd_conv_nth)
  then show ?thesis
    using assms(1,2) q by (auto simp: Engine_Run_def ix split: sum.splits dest: run_suites_log)
qed

text \<open>The run that \<open>cmdRun\<close> makes is sequential: parallelism at most 1 and no suite with a concurrent mode. Only then is the log
  written by one goroutine; the \<open>Writer\<close> has no lock.\<close>

definition one_writer :: "('w, 'x) main_env \<Rightarrow> string list \<Rightarrow> bool" where
  "one_writer env args \<longleftrightarrow>
     (\<exists>cfg telWriter suites. gets_to env args cfg telWriter suites \<and> sequential_run (cf_Parallelism cfg) suites)"

text \<open>C5: the log shows the run. When a sequential run has left a telemetry log, and the strings and counts of its records fit the
  fields of the format, then \<open>log-dump\<close> of that file succeeds and prints one line for every
  telemetry event of the run, in their order, each with the event's name and its tags.\<close>

theorem log_dump_shows_run:
  assumes "cmdRun env conns args = Some (Inr ro)" "ro_Log ro = Some content" "mn_ReadFile env' path = Inr content"
    "one_writer env args" "\<forall>r \<in> set (records_of env (ro_Events ro)). wf_rec r"
  shows "\<exists>rs. list_all2 same_rec (records_of env (ro_Events ro)) rs
    \<and> cmdLogDump env' (path # others) = (0, concat (map (printRecord env') rs))"
proof -
  have tw: "telWriter = None \<or> telWriter = Some NewWriter" if "gets_to env args cfg telWriter suites" for cfg telWriter suites
    using that by (auto simp: gets_to_def openTelemetryWriter_def split: if_splits option.splits)
  have "content = telemetry_log env NewWriter (ro_Events ro) \<and> ro_Events ro \<noteq> []"
    using assms(1)
  proof (cases rule: cmdRun_cases)
    case (ran cfg telWriter suites)
    obtain rs s where r: "Engine_Run (build_engine env conns cfg telWriter) (mn_order env (length suites)) suites (start_state env) = Some (Inr rs, s)"
      and ro: "ro_Events ro = List.map_filter tel_of (rs_log s)" "ro_Log ro = map_option (\<lambda>tw. telemetry_log env tw (ro_Events ro)) telWriter"
      using ran(2) by (auto simp: run_engine_def Let_def split: option.splits prod.splits sum.splits)
    have t: "telWriter = Some NewWriter" using tw[OF ran(1)] ro(2) assms(2) by auto
    have p: "cf_Parallelism cfg \<le> 1" using assms(4) gets_to_unique[OF ran(1)] by (auto simp: one_writer_def sequential_run_def)
    have "suites \<noteq> []" using ran(1) unfolding gets_to_def by blast
    then have "Telemetry SuiteStart [(''suite'', su_Suite (hd suites))] \<in> set (rs_log s)"
      using p t by (intro Engine_Run_starts[OF r]) (simp_all add: build_engine_def)
    then have "(SuiteStart, [(''suite'', su_Suite (hd suites))]) \<in> set (ro_Events ro)"
      unfolding ro(1) by (force simp: List.map_filter_def)
    with ro(2) t assms(2) show ?thesis by auto
  qed (use assms(2) in \<open>simp add: stopped_def\<close>)
  then have content: "content = telemetry_log env NewWriter (ro_Events ro)" and ev: "ro_Events ro \<noteq> []" by blast+
  let ?rs = "records_of env (ro_Events ro)"
  have ne: "?rs \<noteq> []" using ev by (simp add: records_of_def enumerate_eq_zip)
  have out: "tw_out (Writer_Close tw) = tw_out tw" for tw by (simp add: Writer_Close_def)
  obtain rs where rs: "read_until DecodeRecord (length ?rs + 1) (concat (map EncodeRecord ?rs)) = (rs, Some ErrEOF)" "list_all2 same_rec ?rs rs"
    using tlv.read_until_enc[OF assms(5), of "length ?rs + 1"] by auto
  then have "next_all (length ?rs + 1) (NewReader content) = (rs, Some ErrEOF)"
    by (simp add: content telemetry_log_def out write_all_new[OF ne] next_all_new del: next_all.simps read_until.simps)
  from dump_next_all[OF this, of env' "[]"] rs(2) show ?thesis
    by (intro exI[of _ rs]) (simp add: cmdLogDump_def assms(3) exit_OK_def)
qed

section \<open>A run\<close>

definition demo_new :: "unit \<Rightarrow> unit connector" where
  "demo_new = snd (hd (rn_registry demo_runner))"

definition demo_main :: "(unit, unit) main_env" where
  "demo_main = \<lparr>mn_classes = ascii_classes, mn_ReadFile = (\<lambda>path. Inr (if path = ''s'' then demo_yaml else ''a: 12'')),
     mn_Create = (\<lambda>path. None), mn_cli = demo_new, mn_http = demo_new, mn_ssh = demo_new, mn_grpc = demo_new, mn_browser = demo_new,
     mn_outside = demo_outside, mn_engine = demo_engine, mn_order = (\<lambda>n. [0..<n]), mn_world = (), mn_colors = False,
     mn_error_text = (\<lambda>e. ''error''), mn_elapsed = (\<lambda>h. 0), mn_NowNano = (\<lambda>n. 5), mn_Format = (\<lambda>t. ''1970'')\<rparr>"

definition demo_conns :: "(unit \<Rightarrow> unit connector) reg" where
  "demo_conns = registerConnectors demo_main NewRegistry"

abbreviation demo_args :: "string list" where "demo_args \<equiv> [''--tags'', ''s'', ''--verbose'']"

lemma demo_flags: "ParseFlags demo_args = Inr (no_flags\<lparr>fl_Tags := [''s''], fl_Verbose := True\<rparr>)"
  by (simp add: ParseFlags_def split_value_def flag_names_def set_flag_def tags_Set_def no_flags_def parse_bool_def trim_space_def trim_segs_def
      rune_segs.simps rune_simps is_ascii_def is_space_rune_def)

lemma demo_config: "\<exists>cfg. load_config demo_main (no_flags\<lparr>fl_Tags := [''s''], fl_Verbose := True\<rparr>) = Some (Inr cfg) \<and> cf_Parallelism cfg = 1"
  using config_of_value[of Defaults]
  by (simp add: load_config_def Load_def configFileName_def demo_main_def no_flags_def LoadFromFile_def Unmarshal_def Parse_demo decode_eval field_index_def
      config_fields_def field_name_def upt_rec config_value_def) (simp add: Defaults_def)

lemma digit_0: "digit_char 0 = CHR ''0''"
  by (simp add: digit_char_def char_of_def bit_0)

lemma demo_engine_run:
  "\<exists>sr s'. Engine_Run (build_engine demo_main conns cfg (Some NewWriter)) [0] [demo_parsed] (start_state demo_main) = Some (Inr [Some sr], s')
    \<and> List.map_filter tel_of (rs_log s') = [(SuiteStart, [(''suite'', ''s'')]), (TestStart, [(''suite'', ''s''), (''test'', ''t'')]),
        (StepStart, [(''suite'', ''s''), (''test'', ''t''), (''step'', ''step[0]:a'')]), (TestFail, [(''suite'', ''s''), (''test'', ''t'')]),
        (SuiteEnd, [(''suite'', ''s'')])]"
  by (simp add: Engine_Run_def runSuite_def runSuiteSimple_def demo_parsed_def start_suite_def end_suite_def finish_suite_def
      run_one_def RunTest_def runStep_def stepName_def utoa.simps digit_0 record_event_def emitTelemetry_def build_engine_def demo_main_def demo_engine_def
      demo_runner_def NewTestContext_def new_result_def start_state_def logged_def on_coverage_def failed_step_def test_info_of_def
      List.map_filter_simps Let_def)

lemma demo_run_ends:
  "\<exists>ro content. cmdRun demo_main conns demo_args = Some (Inr ro) \<and> ro_Log ro = Some content \<and> one_writer demo_main demo_args
    \<and> (\<forall>r \<in> set (records_of demo_main (ro_Events ro)). wf_rec r)"
proof -
  obtain cfg0 where c: "load_config demo_main (no_flags\<lparr>fl_Tags := [''s''], fl_Verbose := True\<rparr>) = Some (Inr cfg0)"
    "cf_Parallelism cfg0 = 1" using demo_config by blast
  define cfg where "cfg = Merge cfg0 (no_flags\<lparr>fl_Tags := [''s''], fl_Verbose := True\<rparr>)"
  have m: "te_Enabled (cf_Telemetry cfg)" "cf_Tests cfg = [''s'']" by (simp_all add: cfg_def Merge_def no_flags_def Let_def)
  have par: "cf_Parallelism cfg \<le> 1" using c(2) by (simp add: cfg_def Merge_def no_flags_def Let_def)
  have l: "loadSuites (mn_classes demo_main) (mn_ReadFile demo_main) (cf_Tests cfg) = Some (Inr [demo_parsed])"
    by (simp add: m demo_main_def ParseSuite_demo)
  obtain sr s' where e: "Engine_Run (build_engine demo_main conns cfg (Some NewWriter)) [0] [demo_parsed] (start_state demo_main) = Some (Inr [Some sr], s')"
    "List.map_filter tel_of (rs_log s') = [(SuiteStart, [(''suite'', ''s'')]), (TestStart, [(''suite'', ''s''), (''test'', ''t'')]),
        (StepStart, [(''suite'', ''s''), (''test'', ''t''), (''step'', ''step[0]:a'')]), (TestFail, [(''suite'', ''s''), (''test'', ''t'')]),
        (SuiteEnd, [(''suite'', ''s'')])]" using demo_engine_run by blast
  have o1: "mn_order demo_main 1 = [0]" "openTelemetryWriter demo_main x = Inr NewWriter" for x by (simp_all add: demo_main_def openTelemetryWriter_def)
  have w: "\<forall>r \<in> set (records_of demo_main (List.map_filter tel_of (rs_log s'))). wf_rec r"
    by (simp add: e(2) records_of_def record_of_def wf_rec_def wf_tags_def encodeTags_eq enc_tag_def Let_def)
  have "sequential_suite demo_parsed"
    by (simp add: sequential_suite_def demo_parsed_def execution_of_def interactions_of_def ModeSequential_def ModeConcurrent_def)
  then have one: "one_writer demo_main demo_args"
    using demo_flags c l m o1(2) par by (auto simp: one_writer_def gets_to_def cfg_def sequential_run_def)
  have "cmdRun demo_main conns demo_args = run_engine demo_main conns cfg (Some NewWriter) [demo_parsed]"
    by (simp add: cmdRun_def demo_flags c cfg_def[symmetric] l o1 m(1) Let_def del: loadSuites.simps)
  also have "\<dots> = Some (Inr \<lparr>ro_Code = (if coverage_failed (cc_Threshold (cf_Coverage cfg)) (rs_coverage s') \<and> ExitCode [sr] = exit_OK
      then exit_TestFailure else ExitCode [sr]), ro_Results = [sr], ro_Printed = buildReporter demo_main cfg (rs_log s'),
      ro_Events = List.map_filter tel_of (rs_log s'), ro_Coverage = rs_coverage s',
      ro_Log = Some (telemetry_log demo_main NewWriter (List.map_filter tel_of (rs_log s')))\<rparr>)"
    using e(1) by (simp add: run_engine_def o1[simplified] m Let_def)
  finally show ?thesis using w one by simp
qed

theorem cmdRun_verdict_witness:
  "\<exists>ro. cmdRun demo_main demo_conns demo_args = Some (Inr ro) \<and> ro_Code ro \<in> {0, 1, 3, 4}"
proof -
  obtain ro where "cmdRun demo_main demo_conns demo_args = Some (Inr ro)" using demo_run_ends by blast
  moreover have "mset (mn_order demo_main n) = mset [0..<n]" for n by (simp add: demo_main_def)
  ultimately show ?thesis using cmdRun_verdict by blast
qed

theorem log_dump_shows_run_witness:
  "\<exists>ro content rs. cmdRun demo_main demo_conns demo_args = Some (Inr ro) \<and> ro_Log ro = Some content
    \<and> cmdLogDump (demo_main\<lparr>mn_ReadFile := (\<lambda>path. Inr content)\<rparr>) [''log''] =
        (0, concat (map (printRecord (demo_main\<lparr>mn_ReadFile := (\<lambda>path. Inr content)\<rparr>)) rs))"
proof -
  obtain ro content where r: "cmdRun demo_main demo_conns demo_args = Some (Inr ro)" "ro_Log ro = Some content" "one_writer demo_main demo_args"
    "\<forall>r \<in> set (records_of demo_main (ro_Events ro)). wf_rec r" using demo_run_ends by blast
  have "mn_ReadFile (demo_main\<lparr>mn_ReadFile := (\<lambda>path. Inr content)\<rparr>) ''log'' = Inr content" by simp
  from log_dump_shows_run[OF r(1,2) this r(3,4)] r(1,2) show ?thesis by blast
qed

definition demo_fleet_suite :: test_suite where
  "demo_fleet_suite = demo_parsed\<lparr>su_Execution := Some \<lparr>ex_Mode = ModeSequential, ex_Concurrency = 0, ex_Duration = [], ex_Repeat = 1,
     ex_Interval = [], ex_Fleet = Some \<lparr>fc_Providers = [\<lparr>fp_Provider = ''static'', fp_Weight = 1, fp_TTL = 0, fp_Config = []\<rparr>]\<rparr>\<rparr>\<rparr>"

theorem fleet_runs_fail_witness:
  "\<exists>ro. run_engine demo_main demo_conns Defaults None [demo_fleet_suite] = Some (Inr ro) \<and> ro_Code ro = 1"
proof -
  have o: "mn_order demo_main 1 = [0]" by (simp add: demo_main_def)
  have "\<exists>sr s'. Engine_Run (build_engine demo_main demo_conns Defaults None) [0] [demo_fleet_suite] (start_state demo_main) = Some (Inr [Some sr], s')"
    by (simp add: Engine_Run_def runSuite_def runSuiteWithExecution_def demo_fleet_suite_def execution_of_def build_engine_def
        Fleet.Setup_def NewOrchestrator_def fleet_Get_def NewRegistry_def Let_def)
  then obtain ro where r: "run_engine demo_main demo_conns Defaults None [demo_fleet_suite] = Some (Inr ro)"
    by (auto simp: run_engine_def o[simplified] Let_def)
  have "ex_Fleet (execution_of demo_fleet_suite) =
      Some \<lparr>fc_Providers = [\<lparr>fp_Provider = ''static'', fp_Weight = 1, fp_TTL = 0, fp_Config = []\<rparr>]\<rparr>"
    by (simp add: demo_fleet_suite_def execution_of_def)
  from fleet_runs_fail[OF r _ _ this] r o show ?thesis by auto
qed

end
